(* ===== verification/Cmem.thy ===== *)
theory Cmem
  imports Main "HOL-Library.Word" "HOL-Library.Monad_Syntax"
begin

text \<open>
  The prelude of the development: the memory model the parser's C code is read against, and the
  lemmas every component shares.

  \<^item> A buffer is a list of bytes (\<open>mem\<close>); a \<^verbatim>\<open>char*\<close> into it is an offset (\<open>ptr\<close>), \<^verbatim>\<open>NULL\<close>
    is \<open>None\<close> of a \<open>ptr option\<close>, and \<^verbatim>\<open>p - q\<close> is an \<open>int\<close>.
  \<^item> \<open>rd m p\<close> is the read \<^verbatim>\<open>*p\<close>: \<open>None\<close> when \<open>p\<close> lies outside the buffer. Every model function
    that dereferences a pointer runs in the option monad, so \<open>None\<close> means "the code read outside the
    buffer (or did not return)" and a theorem \<open>f m p = Some r\<close> is a memory-safety and termination
    statement as well as a functional one.
  \<^item> \<open>for_chars\<close> is the loop \<^verbatim>\<open>for (tmp = p; tmp < end; tmp++) switch (*tmp) ...\<close> of the hand-written
    state machines.
  \<^item> The locale \<open>scanner\<close> is the contract of the routines that skip a run of characters, the
    locale \<open>char_loop\<close> the one of a state machine with an invariant.
\<close>

section \<open>Bytes, pointers and strings\<close>

type_synonym mem = "char list"
type_synonym ptr = nat

named_theorems mem_simps \<open>reads that are in bounds\<close>

definition rd :: "mem \<Rightarrow> ptr \<Rightarrow> char option" where
  "rd m p = (if p < length m then Some (m ! p) else None)"

lemma rd_in [simp, mem_simps]: "p < length m \<Longrightarrow> rd m p = Some (m ! p)"
  by (simp add: rd_def)

lemma rd_out [simp, mem_simps]: "length m \<le> p \<Longrightarrow> rd m p = None"
  by (simp add: rd_def)

lemma rd_eq_Some: "rd m p = Some c \<longleftrightarrow> p < length m \<and> m ! p = c"
  by (auto simp: rd_def)

text \<open>\<^verbatim>\<open>struct __str\<close> of \<^verbatim>\<open>str.h\<close>: a pointer that may be \<^verbatim>\<open>NULL\<close>, and a length.\<close>

record str =
  str_s :: "ptr option"
  str_len :: int

definition str_null :: str where
  "str_null = \<lparr>str_s = None, str_len = 0\<rparr>"

definition mk_str :: "ptr \<Rightarrow> ptr \<Rightarrow> str" where
  "mk_str b e = \<lparr>str_s = Some b, str_len = int e - int b\<rparr>"

text \<open>The bytes between two pointers, and the text a \<^typ>\<open>str\<close> denotes.\<close>

definition seg :: "mem \<Rightarrow> ptr \<Rightarrow> ptr \<Rightarrow> char list" where
  "seg m p e = take (e - p) (drop p m)"

definition str_text :: "mem \<Rightarrow> str \<Rightarrow> char list" where
  "str_text m x = (case str_s x of None \<Rightarrow> [] | Some p \<Rightarrow> seg m p (p + nat (str_len x)))"

text \<open>A \<^typ>\<open>str\<close> that lies inside the buffer.\<close>

definition str_in :: "mem \<Rightarrow> str \<Rightarrow> bool" where
  "str_in m x \<longleftrightarrow> 0 \<le> str_len x \<and>
     (case str_s x of None \<Rightarrow> True | Some p \<Rightarrow> p + nat (str_len x) \<le> length m)"

text \<open>A \<^typ>\<open>str\<close> between two pointers, or empty and \<^verbatim>\<open>NULL\<close>.\<close>

definition str_within :: "ptr \<Rightarrow> ptr \<Rightarrow> str \<Rightarrow> bool" where
  "str_within b e x \<longleftrightarrow> 0 \<le> str_len x \<and>
     (case str_s x of None \<Rightarrow> str_len x = 0 | Some p \<Rightarrow> b \<le> p \<and> p + nat (str_len x) \<le> e)"

lemma str_within_null [simp]: "str_within b e str_null"
  by (simp add: str_within_def str_null_def)

lemma str_within_mk_str [simp]: "p \<le> q \<Longrightarrow> str_within b e (mk_str p q) \<longleftrightarrow> b \<le> p \<and> q \<le> e"
  by (auto simp: str_within_def mk_str_def nat_diff_distrib)

lemma str_within_mono: "str_within b e x \<Longrightarrow> b' \<le> b \<Longrightarrow> e \<le> e' \<Longrightarrow> str_within b' e' x"
  by (auto simp: str_within_def split: option.splits)

lemma length_seg [simp]: "e \<le> length m \<Longrightarrow> length (seg m p e) = e - p"
  by (simp add: seg_def)

lemma seg_nth [simp]: "e \<le> length m \<Longrightarrow> i < e - p \<Longrightarrow> seg m p e ! i = m ! (p + i)"
  by (simp add: seg_def)

lemma seg_empty [simp]: "e \<le> p \<Longrightarrow> seg m p e = []"
  by (simp add: seg_def)

lemma seg_Cons: "p < e \<Longrightarrow> e \<le> length m \<Longrightarrow> seg m p e = m ! p # seg m (Suc p) e"
  by (rule nth_equalityI) (auto simp: nth_Cons split: nat.splits)

lemma seg_snoc: "p < e \<Longrightarrow> e \<le> length m \<Longrightarrow> seg m p e = seg m p (e - 1) @ [m ! (e - 1)]"
proof -
  assume "p < e" and "e \<le> length m"
  moreover have "p + i = e - 1" if "i < e - p" and "e - Suc p \<le> i" for i
    using that by simp
  ultimately show ?thesis
    by (intro nth_equalityI) (auto simp: nth_append not_less)
qed

lemma seg_append: "p \<le> q \<Longrightarrow> q \<le> e \<Longrightarrow> e \<le> length m \<Longrightarrow> seg m p q @ seg m q e = seg m p e"
  by (rule nth_equalityI) (auto simp: nth_append add.commute)

lemma in_set_seg:
  "e \<le> length m \<Longrightarrow> c \<in> set (seg m p e) \<longleftrightarrow> (\<exists>i. p \<le> i \<and> i < e \<and> m ! i = c)"
proof
  assume "c \<in> set (seg m p e)" and "e \<le> length m"
  then obtain i where "i < e - p" and "m ! (p + i) = c"
    by (auto simp: in_set_conv_nth)
  then show "\<exists>i. p \<le> i \<and> i < e \<and> m ! i = c"
    by (intro exI [of _ "p + i"]) auto
next
  assume "\<exists>i. p \<le> i \<and> i < e \<and> m ! i = c" and e: "e \<le> length m"
  then obtain i where "p \<le> i" and "i < e" and "m ! i = c" by blast
  then have "i - p < length (seg m p e)" and "seg m p e ! (i - p) = c"
    using e by auto
  then show "c \<in> set (seg m p e)" by (metis nth_mem)
qed

lemma seg_whole [simp]: "seg m 0 (length m) = m"
  by (simp add: seg_def)

lemma seg_append_mem:
  "e \<le> length (m @ r) \<Longrightarrow> seg (m @ r) (length m) (length m + n) = take n r"
  by (simp add: seg_def)

lemma seg_mid: "seg (pre @ xs @ post) (length pre) (length pre + length xs) = xs"
  by (simp add: seg_def)

lemma seg_all: "\<forall>c \<in> set (seg m p e). P c \<Longrightarrow> e \<le> length m \<Longrightarrow> p \<le> i \<Longrightarrow> i < e \<Longrightarrow> P (m ! i)"
  by (metis in_set_seg)

lemma str_text_mk_str [simp]: "b \<le> e \<Longrightarrow> str_text m (mk_str b e) = seg m b e"
  by (simp add: str_text_def mk_str_def nat_diff_distrib)

lemma str_in_mk_str [simp]: "b \<le> e \<Longrightarrow> e \<le> length m \<Longrightarrow> str_in m (mk_str b e)"
  by (simp add: str_in_def mk_str_def nat_diff_distrib)

lemma str_text_null [simp]: "str_text m str_null = []"
  by (simp add: str_text_def str_null_def)

lemma str_in_null [simp]: "str_in m str_null"
  by (simp add: str_in_def str_null_def)

section \<open>C character classes\<close>

abbreviation LF :: char where "LF \<equiv> CHR 0x0A"
abbreviation CR :: char where "CR \<equiv> CHR 0x0D"
abbreviation TAB :: char where "TAB \<equiv> CHR 0x09"
abbreviation SPC :: char where "SPC \<equiv> CHR 0x20"
abbreviation NUL :: char where "NUL \<equiv> CHR 0x00"
abbreviation DQUOTE :: char where "DQUOTE \<equiv> CHR 0x22"
abbreviation BACKSLASH :: char where "BACKSLASH \<equiv> CHR 0x5C"

text \<open>
  A \<^verbatim>\<open>char\<close> promoted to \<^verbatim>\<open>int\<close>: signed on the targets the parser is built for (x86-64), so bytes
  above 127 are negative. \<open>uchar\<close> is the value of an \<^verbatim>\<open>unsigned char\<close>.
\<close>

definition uchar :: "char \<Rightarrow> int" where
  "uchar c = int (of_char c)"

definition schar :: "char \<Rightarrow> int" where
  "schar c = (if uchar c < 128 then uchar c else uchar c - 256)"

lemma uchar_bounds [simp]: "0 \<le> uchar c" "uchar c < 256"
  by (simp_all add: uchar_def)

lemma uchar_inj [simp]: "uchar c = uchar d \<longleftrightarrow> c = d"
  by (simp add: uchar_def)

text \<open>\<^verbatim>\<open>c >= '0' && c <= '9'\<close> and \<^verbatim>\<open>c - '0'\<close>.\<close>

definition is_digit :: "char \<Rightarrow> bool" where
  "is_digit c \<longleftrightarrow> 48 \<le> schar c \<and> schar c \<le> 57"

definition digit_val :: "char \<Rightarrow> nat" where
  "digit_val c = of_char c - 48"

lemma is_digit_iff: "is_digit c \<longleftrightarrow> 48 \<le> (of_char c :: nat) \<and> of_char c \<le> (57 :: nat)"
proof -
  have "(of_char c :: nat) < 256" by simp
  then show ?thesis unfolding is_digit_def schar_def uchar_def by presburger
qed

lemma digit_val_less: "is_digit c \<Longrightarrow> digit_val c < 10"
  unfolding is_digit_iff digit_val_def by linarith

text \<open>\<^verbatim>\<open>tolower\<close> in the C locale, and a case-insensitive comparison with a string literal.\<close>

definition tolower_c :: "char \<Rightarrow> char" where
  "tolower_c c = (if 65 \<le> uchar c \<and> uchar c \<le> 90 then char_of (of_char c + (32 :: nat)) else c)"

lemma tolower_c_letters [simp]:
  "tolower_c CHR ''a'' = CHR ''a''" "tolower_c CHR ''A'' = CHR ''a''"
  "tolower_c CHR ''b'' = CHR ''b''" "tolower_c CHR ''B'' = CHR ''b''"
  "tolower_c CHR ''c'' = CHR ''c''" "tolower_c CHR ''C'' = CHR ''c''"
  "tolower_c CHR ''d'' = CHR ''d''" "tolower_c CHR ''D'' = CHR ''d''"
  "tolower_c CHR ''e'' = CHR ''e''" "tolower_c CHR ''E'' = CHR ''e''"
  "tolower_c CHR ''f'' = CHR ''f''" "tolower_c CHR ''F'' = CHR ''f''"
  "tolower_c CHR ''g'' = CHR ''g''" "tolower_c CHR ''G'' = CHR ''g''"
  "tolower_c CHR ''h'' = CHR ''h''" "tolower_c CHR ''H'' = CHR ''h''"
  "tolower_c CHR ''i'' = CHR ''i''" "tolower_c CHR ''I'' = CHR ''i''"
  "tolower_c CHR ''j'' = CHR ''j''" "tolower_c CHR ''J'' = CHR ''j''"
  "tolower_c CHR ''k'' = CHR ''k''" "tolower_c CHR ''K'' = CHR ''k''"
  "tolower_c CHR ''l'' = CHR ''l''" "tolower_c CHR ''L'' = CHR ''l''"
  "tolower_c CHR ''m'' = CHR ''m''" "tolower_c CHR ''M'' = CHR ''m''"
  "tolower_c CHR ''n'' = CHR ''n''" "tolower_c CHR ''N'' = CHR ''n''"
  "tolower_c CHR ''o'' = CHR ''o''" "tolower_c CHR ''O'' = CHR ''o''"
  "tolower_c CHR ''p'' = CHR ''p''" "tolower_c CHR ''P'' = CHR ''p''"
  "tolower_c CHR ''q'' = CHR ''q''" "tolower_c CHR ''Q'' = CHR ''q''"
  "tolower_c CHR ''r'' = CHR ''r''" "tolower_c CHR ''R'' = CHR ''r''"
  "tolower_c CHR ''s'' = CHR ''s''" "tolower_c CHR ''S'' = CHR ''s''"
  "tolower_c CHR ''t'' = CHR ''t''" "tolower_c CHR ''T'' = CHR ''t''"
  "tolower_c CHR ''u'' = CHR ''u''" "tolower_c CHR ''U'' = CHR ''u''"
  "tolower_c CHR ''v'' = CHR ''v''" "tolower_c CHR ''V'' = CHR ''v''"
  "tolower_c CHR ''w'' = CHR ''w''" "tolower_c CHR ''W'' = CHR ''w''"
  "tolower_c CHR ''x'' = CHR ''x''" "tolower_c CHR ''X'' = CHR ''x''"
  "tolower_c CHR ''y'' = CHR ''y''" "tolower_c CHR ''Y'' = CHR ''y''"
  "tolower_c CHR ''z'' = CHR ''z''" "tolower_c CHR ''Z'' = CHR ''z''"
  by (simp_all add: tolower_c_def uchar_def char_of_eq_iff take_bit_nat_def)

text \<open>The two characters that \<^verbatim>\<open>tolower\<close> maps to a given lower-case letter.\<close>

lemma tolower_c_eq_letter:
  "tolower_c c = CHR ''a'' \<longleftrightarrow> c = CHR ''a'' \<or> c = CHR ''A''"
  "tolower_c c = CHR ''b'' \<longleftrightarrow> c = CHR ''b'' \<or> c = CHR ''B''"
  "tolower_c c = CHR ''c'' \<longleftrightarrow> c = CHR ''c'' \<or> c = CHR ''C''"
  "tolower_c c = CHR ''d'' \<longleftrightarrow> c = CHR ''d'' \<or> c = CHR ''D''"
  "tolower_c c = CHR ''e'' \<longleftrightarrow> c = CHR ''e'' \<or> c = CHR ''E''"
  "tolower_c c = CHR ''f'' \<longleftrightarrow> c = CHR ''f'' \<or> c = CHR ''F''"
  "tolower_c c = CHR ''g'' \<longleftrightarrow> c = CHR ''g'' \<or> c = CHR ''G''"
  "tolower_c c = CHR ''h'' \<longleftrightarrow> c = CHR ''h'' \<or> c = CHR ''H''"
  "tolower_c c = CHR ''i'' \<longleftrightarrow> c = CHR ''i'' \<or> c = CHR ''I''"
  "tolower_c c = CHR ''j'' \<longleftrightarrow> c = CHR ''j'' \<or> c = CHR ''J''"
  "tolower_c c = CHR ''k'' \<longleftrightarrow> c = CHR ''k'' \<or> c = CHR ''K''"
  "tolower_c c = CHR ''l'' \<longleftrightarrow> c = CHR ''l'' \<or> c = CHR ''L''"
  "tolower_c c = CHR ''m'' \<longleftrightarrow> c = CHR ''m'' \<or> c = CHR ''M''"
  "tolower_c c = CHR ''n'' \<longleftrightarrow> c = CHR ''n'' \<or> c = CHR ''N''"
  "tolower_c c = CHR ''o'' \<longleftrightarrow> c = CHR ''o'' \<or> c = CHR ''O''"
  "tolower_c c = CHR ''p'' \<longleftrightarrow> c = CHR ''p'' \<or> c = CHR ''P''"
  "tolower_c c = CHR ''q'' \<longleftrightarrow> c = CHR ''q'' \<or> c = CHR ''Q''"
  "tolower_c c = CHR ''r'' \<longleftrightarrow> c = CHR ''r'' \<or> c = CHR ''R''"
  "tolower_c c = CHR ''s'' \<longleftrightarrow> c = CHR ''s'' \<or> c = CHR ''S''"
  "tolower_c c = CHR ''t'' \<longleftrightarrow> c = CHR ''t'' \<or> c = CHR ''T''"
  "tolower_c c = CHR ''u'' \<longleftrightarrow> c = CHR ''u'' \<or> c = CHR ''U''"
  "tolower_c c = CHR ''v'' \<longleftrightarrow> c = CHR ''v'' \<or> c = CHR ''V''"
  "tolower_c c = CHR ''w'' \<longleftrightarrow> c = CHR ''w'' \<or> c = CHR ''W''"
  "tolower_c c = CHR ''x'' \<longleftrightarrow> c = CHR ''x'' \<or> c = CHR ''X''"
  "tolower_c c = CHR ''y'' \<longleftrightarrow> c = CHR ''y'' \<or> c = CHR ''Y''"
  "tolower_c c = CHR ''z'' \<longleftrightarrow> c = CHR ''z'' \<or> c = CHR ''Z''"
  by (auto simp: tolower_c_def uchar_def char_of_eq_iff take_bit_nat_def
      of_char_eq_iff [where 'a = nat, symmetric] simp del: of_char_eq_iff)

text \<open>
  \<^verbatim>\<open>strncasecmp(p, lit, strlen(lit)) == 0\<close>: the comparison stops at the first difference, so only
  the bytes up to it are read.
\<close>

fun strncaseeq :: "mem \<Rightarrow> ptr \<Rightarrow> char list \<Rightarrow> bool option" where
  "strncaseeq m p [] = Some True"
| "strncaseeq m p (c # cs) = do {
     d \<leftarrow> rd m p;
     if tolower_c d = tolower_c c then strncaseeq m (Suc p) cs else Some False }"

lemma strncaseeq_in [mem_simps]:
  "p + length cs \<le> length m \<Longrightarrow>
   strncaseeq m p cs = Some (map tolower_c (seg m p (p + length cs)) = map tolower_c cs)"
proof (induction cs arbitrary: p)
  case Nil
  then show ?case by simp
next
  case (Cons c cs)
  then have "seg m p (p + length (c # cs)) = m ! p # seg m (Suc p) (Suc p + length cs)"
    by (simp add: seg_Cons)
  with Cons show ?case by (auto simp: mem_simps)
qed

section \<open>The contract of a scanning routine\<close>

text \<open>
  Most low-level routines of the parser advance a pointer over the longest run of characters of a
  class and stop at the end of the buffer. The three laws below are what each of them gives; the
  consequences (no read out of bounds, the position where it stops, what was skipped) are proved once.
\<close>

locale scanner =
  fixes scan :: "mem \<Rightarrow> ptr \<Rightarrow> ptr \<Rightarrow> ptr option"
    and P :: "char \<Rightarrow> bool"
  assumes scan_end: "e \<le> p \<Longrightarrow> scan m p e = Some p"
    and scan_stop: "p < e \<Longrightarrow> e \<le> length m \<Longrightarrow> \<not> P (m ! p) \<Longrightarrow> scan m p e = Some p"
    and scan_more: "p < e \<Longrightarrow> e \<le> length m \<Longrightarrow> P (m ! p) \<Longrightarrow> scan m p e = scan m (Suc p) e"
begin

lemma scan_takeWhile:
  "p \<le> e \<Longrightarrow> e \<le> length m \<Longrightarrow> scan m p e = Some (p + length (takeWhile P (seg m p e)))"
proof (induction "e - p" arbitrary: p)
  case 0
  then show ?case by (simp add: scan_end)
next
  case (Suc n)
  then have lt: "p < e" by simp
  show ?case
  proof (cases "P (m ! p)")
    case True
    from Suc.hyps(2) have "n = e - Suc p" by simp
    with Suc.hyps(1) [OF this] lt Suc.prems True show ?thesis
      by (simp add: scan_more seg_Cons)
  next
    case False
    with lt Suc.prems show ?thesis by (simp add: scan_stop seg_Cons)
  qed
qed

lemma scan_total:
  assumes "p \<le> e" and "e \<le> length m"
  obtains q where "scan m p e = Some q" and "p \<le> q" and "q \<le> e"
    and "\<And>i. p \<le> i \<Longrightarrow> i < q \<Longrightarrow> P (m ! i)" and "q < e \<Longrightarrow> \<not> P (m ! q)"
proof -
  let ?n = "length (takeWhile P (seg m p e))"
  have le: "?n \<le> e - p"
    using length_takeWhile_le [of P "seg m p e"] assms by simp
  have run: "P (m ! i)" if "p \<le> i" and "i < p + ?n" for i
  proof -
    have "i - p < ?n" using that by simp
    then have "P (takeWhile P (seg m p e) ! (i - p))"
      using nth_mem set_takeWhileD by fastforce
    with \<open>i - p < ?n\<close> le assms that show ?thesis
      by (simp add: takeWhile_nth)
  qed
  have stop: "\<not> P (m ! (p + ?n))" if "p + ?n < e"
    using that assms nth_length_takeWhile [of P "seg m p e"] by simp
  show thesis
    using le assms run stop by (intro that [of "p + ?n"]) (auto simp: scan_takeWhile)
qed

lemma scan_eqI:
  assumes "p \<le> q" and "q \<le> e" and "e \<le> length m"
    and "\<And>i. p \<le> i \<Longrightarrow> i < q \<Longrightarrow> P (m ! i)" and "q < e \<Longrightarrow> \<not> P (m ! q)"
  shows "scan m p e = Some q"
proof -
  obtain r where r: "scan m p e = Some r" and b: "p \<le> r" "r \<le> e"
    and run: "\<And>i. p \<le> i \<Longrightarrow> i < r \<Longrightarrow> P (m ! i)" and stop: "r < e \<Longrightarrow> \<not> P (m ! r)"
    using scan_total [of p e m] assms by auto
  have "r = q"
    using assms b run stop by (metis linorder_neqE_nat order_less_le_trans)
  with r show ?thesis by simp
qed

lemma scan_SomeD:
  assumes "scan m p e = Some q" and "p \<le> e" and "e \<le> length m"
  shows "p \<le> q" and "q \<le> e" and "p \<le> i \<Longrightarrow> i < q \<Longrightarrow> P (m ! i)" and "q < e \<Longrightarrow> \<not> P (m ! q)"
  using scan_total [OF assms(2,3)] assms(1) by (metis option.inject)+

end

text \<open>The loop \<^verbatim>\<open>for (; p < end && P(*p); p++);\<close>, which is such a scanner for every class.\<close>

function scan_while :: "(char \<Rightarrow> bool) \<Rightarrow> mem \<Rightarrow> ptr \<Rightarrow> ptr \<Rightarrow> ptr option" where
  "scan_while P m p e =
     (if p < e then do { c \<leftarrow> rd m p; if P c then scan_while P m (Suc p) e else Some p }
      else Some p)"
  by pat_completeness auto
termination
  by (relation "measure (\<lambda>(P, m, p, e). e - p)") auto

declare scan_while.simps [simp del]

interpretation sw: scanner "scan_while P" P for P
  by unfold_locales (simp_all add: scan_while.simps)

section \<open>The loop of a character state machine\<close>

text \<open>
  \<open>Next q s\<close>: leave the \<^verbatim>\<open>switch\<close> with \<^verbatim>\<open>tmp\<close> at \<open>q\<close>, so that the loop goes on at \<open>q + 1\<close>;
  \<open>Goto l q s\<close>: leave the loop for the label \<open>l\<close> with \<^verbatim>\<open>tmp\<close> at \<open>q\<close>. The result of the loop is the
  label (\<open>None\<close> when \<^verbatim>\<open>tmp\<close> reached the end), the final \<^verbatim>\<open>tmp\<close> and the final variables.
\<close>

datatype ('l, 's) act = Next ptr 's | Goto 'l ptr 's

partial_function (option) for_chars ::
  "(ptr \<Rightarrow> char \<Rightarrow> 's \<Rightarrow> ('l, 's) act option) \<Rightarrow> mem \<Rightarrow> ptr \<Rightarrow> ptr \<Rightarrow> 's \<Rightarrow> ('l option \<times> ptr \<times> 's) option"
where
  "for_chars step m p e s =
     (if p < e then
        Option.bind (rd m p) (\<lambda>c. Option.bind (step p c s) (\<lambda>a. case a of
          Next q s' \<Rightarrow> for_chars step m (Suc q) e s'
        | Goto l q s' \<Rightarrow> Some (Some l, q, s')))
      else Some (None, p, s))"

lemmas [code] = for_chars.simps

locale char_loop =
  fixes step :: "ptr \<Rightarrow> char \<Rightarrow> 's \<Rightarrow> ('l, 's) act option"
    and m :: mem and e :: ptr
    and I :: "ptr \<Rightarrow> 's \<Rightarrow> bool"
    and Q :: "'l \<Rightarrow> ptr \<Rightarrow> 's \<Rightarrow> bool"
  assumes in_buffer: "p < e \<Longrightarrow> I p s \<Longrightarrow> p < length m"
    and step_ok: "p < e \<Longrightarrow> I p s \<Longrightarrow>
      (\<exists>q s'. step p (m ! p) s = Some (Next q s') \<and> p \<le> q \<and> I (Suc q) s') \<or>
      (\<exists>l q s'. step p (m ! p) s = Some (Goto l q s') \<and> Q l q s')"
begin

lemma loop_total:
  "I p s \<Longrightarrow>
   (\<exists>q s'. for_chars step m p e s = Some (None, q, s') \<and> e \<le> q \<and> I q s') \<or>
   (\<exists>l q s'. for_chars step m p e s = Some (Some l, q, s') \<and> Q l q s')"
proof (induction "e - p" arbitrary: p s rule: less_induct)
  case less
  show ?case
  proof (cases "p < e")
    case False
    with less.prems show ?thesis by (simp add: for_chars.simps)
  next
    case True
    then have unf: "for_chars step m p e s = Option.bind (step p (m ! p) s) (\<lambda>a. case a of
          Next q s' \<Rightarrow> for_chars step m (Suc q) e s' | Goto l q s' \<Rightarrow> Some (Some l, q, s'))"
      using in_buffer [OF True less.prems] by (subst for_chars.simps) simp
    from step_ok [OF True less.prems] show ?thesis
    proof (elim disjE exE conjE)
      fix q s' assume st: "step p (m ! p) s = Some (Next q s')" and q: "p \<le> q" "I (Suc q) s'"
      then have "e - Suc q < e - p" using True by simp
      from less.hyps [OF this q(2)] show ?thesis by (simp add: unf st)
    qed (simp add: unf)
  qed
qed

end

text \<open>One turn of the loop, and a run of characters that change nothing.\<close>

lemma for_chars_next:
  assumes "p < e" and "p < length m" and "step p (m ! p) s = Some (Next q s')"
  shows "for_chars step m p e s = for_chars step m (Suc q) e s'"
  using assms by (subst for_chars.simps) simp

lemma for_chars_turn:
  assumes "p < e" and "p < length m" and "step p (m ! p) s = Some (Next p s')" and "q = Suc p"
  shows "for_chars step m p e s = for_chars step m q e s'"
  using for_chars_next [of p e m step s p s'] assms by simp

lemma for_chars_goto:
  assumes "p < e" and "p < length m" and "step p (m ! p) s = Some (Goto l q s')"
  shows "for_chars step m p e s = Some (Some l, q, s')"
  using assms by (subst for_chars.simps) simp

lemma for_chars_run:
  assumes "p \<le> q" and "q \<le> e" and "e \<le> length m" and "\<And>i. p \<le> i \<Longrightarrow> i < q \<Longrightarrow> step i (m ! i) s = Some (Next i s)"
  shows "for_chars step m p e s = for_chars step m q e s"
  using assms
proof (induction "q - p" arbitrary: p)
  case (Suc n)
  then have "for_chars step m p e s = for_chars step m (Suc p) e s"
    by (intro for_chars_next) auto
  also have "\<dots> = for_chars step m q e s"
    using Suc by (intro Suc.hyps) auto
  finally show ?case .
qed simp

section \<open>Decimal and hexadecimal values\<close>

text \<open>The number a list of digit values denotes, most significant digit first.\<close>

definition base_val :: "nat \<Rightarrow> nat list \<Rightarrow> nat" where
  "base_val b ds = foldl (\<lambda>a d. a * b + d) 0 ds"

lemma foldl_base_val: "foldl (\<lambda>a d. a * b + d) n ds = n * b ^ length ds + base_val b ds"
proof (induction ds rule: rev_induct)
  case Nil
  then show ?case by (simp add: base_val_def)
next
  case (snoc d ds)
  then show ?case by (simp add: base_val_def algebra_simps)
qed

lemma base_val_Nil [simp]: "base_val b [] = 0"
  by (simp add: base_val_def)

lemma base_val_Cons: "base_val b (d # ds) = d * b ^ length ds + base_val b ds"
  using foldl_base_val [of b d ds] by (simp add: base_val_def)

lemma base_val_snoc [simp]: "base_val b (ds @ [d]) = base_val b ds * b + d"
  by (simp add: base_val_def)

lemma base_val_less: "\<forall>d \<in> set ds. d < b \<Longrightarrow> base_val b ds < b ^ length ds"
proof (induction ds)
  case Nil
  then show ?case by simp
next
  case (Cons d ds)
  then have "d * b ^ length ds + base_val b ds < (d + 1) * b ^ length ds"
    by (simp add: add_mult_distrib)
  also have "\<dots> \<le> b * b ^ length ds"
    using Cons.prems by (intro mult_le_mono1) simp
  finally show ?case by (simp add: base_val_Cons)
qed

end
