(* ===== verification/Parser_F.thy ===== *)
theory Parser_F
  imports Cmem
begin

text \<open>
  The inline scanners of \<^verbatim>\<open>parser_f.h\<close>, \<^verbatim>\<open>trim.h\<close> and \<^verbatim>\<open>ut.h\<close>, and \<^verbatim>\<open>eat_line\<close> of \<^verbatim>\<open>parser_f.c\<close>: each
  loop is one recursive function over the pointer, and each is an instance of the \<open>scanner\<close> contract.
\<close>

section \<open>Scanners over a character class\<close>

definition SP :: "char \<Rightarrow> bool" where
  "SP c \<longleftrightarrow> c = TAB \<or> c = SPC"

definition is_token_char :: "char \<Rightarrow> bool" where
  "is_token_char c \<longleftrightarrow> c \<noteq> SPC \<and> c \<noteq> TAB \<and> c \<noteq> LF \<and> c \<noteq> CR"

definition eat_space_end :: "mem \<Rightarrow> ptr \<Rightarrow> ptr \<Rightarrow> ptr option" where
  "eat_space_end = scan_while (\<lambda>c. c = SPC \<or> c = TAB)"

definition eat_token_end :: "mem \<Rightarrow> ptr \<Rightarrow> ptr \<Rightarrow> ptr option" where
  "eat_token_end = scan_while (\<lambda>c. c \<noteq> SPC \<and> c \<noteq> TAB \<and> c \<noteq> LF \<and> c \<noteq> CR)"

definition eat_token2_end :: "char \<Rightarrow> mem \<Rightarrow> ptr \<Rightarrow> ptr \<Rightarrow> ptr option" where
  "eat_token2_end delim = scan_while (\<lambda>c. c \<noteq> delim \<and> c \<noteq> LF \<and> c \<noteq> CR)"

text \<open>
  \<^verbatim>\<open>eat_lws_end\<close>: white space including folded lines (a line end followed by white space).
\<close>

function eat_lws_end :: "mem \<Rightarrow> ptr \<Rightarrow> ptr \<Rightarrow> ptr option" where
  "eat_lws_end m p pend =
     (if p < pend then do {
        c \<leftarrow> rd m p;
        if SP c then eat_lws_end m (Suc p) pend
        else do {
          lf \<leftarrow> (if c = LF \<and> p + 1 < pend then do { d \<leftarrow> rd m (p + 1); Some (SP d) } else Some False);
          if lf then eat_lws_end m (p + 2) pend
          else do {
            crlf \<leftarrow> (if c = CR \<and> p + 2 < pend
                     then do { d \<leftarrow> rd m (p + 1);
                               if d = LF then do { d2 \<leftarrow> rd m (p + 2); Some (SP d2) } else Some False }
                     else Some False);
            if crlf then eat_lws_end m (p + 3) pend else Some p } } }
      else Some p)"
  by pat_completeness auto
termination
  by (relation "measure (\<lambda>(m, p, pend). pend - p)") auto

declare eat_lws_end.simps [simp del]

definition is_empty_end :: "mem \<Rightarrow> ptr \<Rightarrow> ptr \<Rightarrow> bool option" where
  "is_empty_end m p pend = do {
     q \<leftarrow> eat_space_end m p pend;
     if q < pend then do { c \<leftarrow> rd m q; Some (c = CR \<or> c = LF) } else Some False }"

text \<open>\<^verbatim>\<open>q_memchr\<close> of \<^verbatim>\<open>ut.h\<close> with \<open>e = p + size\<close>: \<open>None\<close> inside is the \<^verbatim>\<open>NULL\<close> result.\<close>

function q_memchr :: "mem \<Rightarrow> ptr \<Rightarrow> char \<Rightarrow> ptr \<Rightarrow> ptr option option" where
  "q_memchr m p c e =
     (if p < e then do { d \<leftarrow> rd m p; if d = c then Some (Some p) else q_memchr m (Suc p) c e }
      else Some None)"
  by pat_completeness auto
termination
  by (relation "measure (\<lambda>(m, p, c, e). e - p)") auto

declare q_memchr.simps [simp del]

fun q_memrchr :: "mem \<Rightarrow> ptr \<Rightarrow> char \<Rightarrow> nat \<Rightarrow> ptr option option" where
  "q_memrchr m p c 0 = Some None"
| "q_memrchr m p c (Suc n) = do {
     d \<leftarrow> rd m (p + n); if d = c then Some (Some (p + n)) else q_memrchr m p c n }"

text \<open>\<^verbatim>\<open>eat_line\<close>: the pointer to the next line, or after the end of the buffer.\<close>

definition eat_line :: "mem \<Rightarrow> ptr \<Rightarrow> nat \<Rightarrow> ptr option" where
  "eat_line m buffer len = do {
     nl \<leftarrow> q_memchr m buffer LF (buffer + len);
     case nl of
       None \<Rightarrow> Some (buffer + len)
     | Some nl0 \<Rightarrow> do {
         let nl1 = (if nl0 + 1 < buffer + len then nl0 + 1 else nl0);
         if nl1 + 1 < buffer + len then do {
           c \<leftarrow> rd m nl1; Some (if c = CR then nl1 + 1 else nl1) }
         else Some nl1 } }"

text \<open>\<^verbatim>\<open>find_not_quoted\<close>: the first \<open>c\<close> outside double quotes, scanning \<open>i\<close> from 0.\<close>

function find_not_quoted_loop :: "mem \<Rightarrow> ptr \<Rightarrow> nat \<Rightarrow> char \<Rightarrow> nat \<Rightarrow> bool \<Rightarrow> ptr option option" where
  "find_not_quoted_loop m s len c i quoted =
     (if i < len then do {
        d \<leftarrow> rd m (s + i);
        if \<not> quoted then
          (if d = DQUOTE then find_not_quoted_loop m s len c (Suc i) True
           else if d = c then Some (Some (s + i))
           else find_not_quoted_loop m s len c (Suc i) False)
        else
          (if d = DQUOTE then do {
             b \<leftarrow> rd m (s + i - 1);
             find_not_quoted_loop m s len c (Suc i) (b = BACKSLASH) }
           else find_not_quoted_loop m s len c (Suc i) True) }
      else Some None)"
  by pat_completeness auto
termination
  by (relation "measure (\<lambda>(m, s, len, c, i, quoted). len - i)") auto

declare find_not_quoted_loop.simps [simp del]

definition find_not_quoted :: "mem \<Rightarrow> ptr \<Rightarrow> nat \<Rightarrow> char \<Rightarrow> ptr option option" where
  "find_not_quoted m s len c = find_not_quoted_loop m s len c 0 False"

section \<open>The scanners satisfy the contract\<close>

interpretation sp: scanner eat_space_end "\<lambda>c. c = SPC \<or> c = TAB"
  unfolding eat_space_end_def by (rule sw.scanner_axioms)

interpretation tok: scanner eat_token_end "\<lambda>c. c \<noteq> SPC \<and> c \<noteq> TAB \<and> c \<noteq> LF \<and> c \<noteq> CR"
  unfolding eat_token_end_def by (rule sw.scanner_axioms)

interpretation tok2: scanner "eat_token2_end d" "\<lambda>c. c \<noteq> d \<and> c \<noteq> LF \<and> c \<noteq> CR" for d
  unfolding eat_token2_end_def by (rule sw.scanner_axioms)

section \<open>Correctness\<close>

lemma is_empty_end_eq:
  assumes "p \<le> e" and "e \<le> length m"
  shows "\<exists>b. is_empty_end m p e = Some b \<and>
    (b \<longleftrightarrow> (\<exists>q. p \<le> q \<and> q < e \<and> (m ! q = CR \<or> m ! q = LF) \<and> (\<forall>i. p \<le> i \<longrightarrow> i < q \<longrightarrow> SP (m ! i))))"
proof -
  obtain r where r: "eat_space_end m p e = Some r" and b: "p \<le> r" "r \<le> e"
    and run: "\<And>i. p \<le> i \<Longrightarrow> i < r \<Longrightarrow> m ! i = SPC \<or> m ! i = TAB"
    and stop: "r < e \<Longrightarrow> \<not> (m ! r = SPC \<or> m ! r = TAB)"
    using sp.scan_total [OF assms] by blast
  have uniq: "q = r" if "p \<le> q" "q < e" "m ! q = CR \<or> m ! q = LF"
      "\<forall>i. p \<le> i \<longrightarrow> i < q \<longrightarrow> SP (m ! i)" for q
  proof (rule ccontr)
    assume "q \<noteq> r"
    then consider "q < r" | "r < q" by linarith
    then show False
    proof cases
      case 1
      with run [of q] that show False by auto
    next
      case 2
      with stop that b show False by (auto simp: SP_def)
    qed
  qed
  show ?thesis
  proof (cases "r < e")
    case True
    then have "is_empty_end m p e = Some (m ! r = CR \<or> m ! r = LF)"
      using r assms by (simp add: is_empty_end_def)
    moreover have "SP (m ! i)" if "p \<le> i" "i < r" for i
      using run that by (auto simp: SP_def)
    ultimately show ?thesis
      using uniq b True by blast
  next
    case False
    then have "is_empty_end m p e = Some False"
      using r by (simp add: is_empty_end_def)
    with uniq False b show ?thesis by blast
  qed
qed

lemma q_memchr_cases:
  assumes "e \<le> length m"
  shows "(q_memchr m p c e = Some None \<and> (\<forall>i. p \<le> i \<longrightarrow> i < e \<longrightarrow> m ! i \<noteq> c)) \<or>
    (\<exists>q. q_memchr m p c e = Some (Some q) \<and> p \<le> q \<and> q < e \<and> m ! q = c \<and>
       (\<forall>i. p \<le> i \<longrightarrow> i < q \<longrightarrow> m ! i \<noteq> c))"
  using assms
proof (induction m p c e rule: q_memchr.induct)
  case (1 m p c e)
  show ?case
  proof (cases "p < e \<and> m ! p \<noteq> c")
    case True
    then have "q_memchr m p c e = q_memchr m (Suc p) c e"
      using "1.prems" by (subst q_memchr.simps) simp
    moreover have "p \<le> i \<longleftrightarrow> i = p \<or> Suc p \<le> i" for i by auto
    ultimately show ?thesis
      using "1.IH" [of "m ! p"] True "1.prems" by auto
  next
    case False
    then show ?thesis
      using "1.prems" by (subst (1 2) q_memchr.simps) auto
  qed
qed

lemma q_memrchr_cases:
  assumes "p + n \<le> length m"
  shows "(q_memrchr m p c n = Some None \<and> (\<forall>i < n. m ! (p + i) \<noteq> c)) \<or>
    (\<exists>i < n. q_memrchr m p c n = Some (Some (p + i)) \<and> m ! (p + i) = c \<and>
       (\<forall>j. i < j \<longrightarrow> j < n \<longrightarrow> m ! (p + j) \<noteq> c))"
  using assms by (induction n) (auto simp: less_Suc_eq)

text \<open>
  \<^verbatim>\<open>eat_line\<close> never leaves the buffer, and it moves past the line feed it finds, unless that is the
  last byte of the buffer.
\<close>

lemma eat_line_total:
  assumes "b + n \<le> length m"
  obtains q where "eat_line m b n = Some q" and "b \<le> q" and "q \<le> b + n"
    and "q = b + n \<longleftrightarrow> (\<forall>i. b \<le> i \<longrightarrow> i < b + n \<longrightarrow> m ! i \<noteq> LF)"
proof (cases "\<forall>i. b \<le> i \<longrightarrow> i < b + n \<longrightarrow> m ! i \<noteq> LF")
  case True
  with q_memchr_cases [OF assms, of b LF] have "q_memchr m b LF (b + n) = Some None" by blast
  with True show ?thesis by (intro that [of "b + n"]) (simp_all add: eat_line_def)
next
  case False
  with q_memchr_cases [OF assms, of b LF] obtain q where
    q: "q_memchr m b LF (b + n) = Some (Some q)" "b \<le> q" "q < b + n" by blast
  define q1 where "q1 = (if q + 1 < b + n then q + 1 else q)"
  define q2 where "q2 = (if q1 + 1 < b + n \<and> m ! q1 = CR then q1 + 1 else q1)"
  have "eat_line m b n = Some q2"
    using q assms by (auto simp: eat_line_def q1_def q2_def Let_def)
  moreover have "b \<le> q2" "q2 < b + n"
    using q by (auto simp: q1_def q2_def)
  ultimately show ?thesis
    using False by (intro that [of q2]) auto
qed

lemma eat_lws_end_unfold:
  assumes "p < e" and "e \<le> length m"
  shows "eat_lws_end m p e =
    (if SP (m ! p) then eat_lws_end m (Suc p) e
     else if m ! p = LF \<and> p + 1 < e \<and> SP (m ! (p + 1)) then eat_lws_end m (p + 2) e
     else if m ! p = CR \<and> p + 2 < e \<and> m ! (p + 1) = LF \<and> SP (m ! (p + 2)) then eat_lws_end m (p + 3) e
     else Some p)"
  using assms by (subst eat_lws_end.simps) simp

lemma eat_lws_end_at_end [simp]: "e \<le> p \<Longrightarrow> eat_lws_end m p e = Some p"
  by (subst eat_lws_end.simps) simp

lemma eat_lws_end_total:
  assumes "p \<le> e" and "e \<le> length m"
  shows "\<exists>q. eat_lws_end m p e = Some q \<and> p \<le> q \<and> q \<le> e \<and> (q < e \<longrightarrow> \<not> SP (m ! q))"
  using assms(1)
proof (induction "e - p" arbitrary: p rule: less_induct)
  case less
  have IH: "\<exists>q. eat_lws_end m p' e = Some q \<and> p \<le> q \<and> q \<le> e \<and> (q < e \<longrightarrow> \<not> SP (m ! q))"
    if "p < p'" and "p' \<le> e" for p'
    using less.hyps [of p'] that by fastforce
  show ?case
  proof (cases "p < e")
    case True
    then show ?thesis
      using IH [of "Suc p"] IH [of "p + 2"] IH [of "p + 3"] less.prems
      unfolding eat_lws_end_unfold [OF True assms(2)] by (simp split: if_splits)
  next
    case False
    with less.prems show ?thesis by simp
  qed
qed

text \<open>Without folded lines \<^verbatim>\<open>eat_lws_end\<close> is \<^verbatim>\<open>eat_space_end\<close>.\<close>

lemma eat_lws_end_stop:
  assumes "p < e" and "e \<le> length m" and "\<not> SP (m ! p)" and "m ! p \<noteq> LF" and "m ! p \<noteq> CR"
  shows "eat_lws_end m p e = Some p"
  using assms by (simp add: eat_lws_end_unfold)

lemma find_not_quoted_loop_bounds:
  assumes "s + len \<le> length m" and "quoted \<Longrightarrow> 0 < i"
  shows "\<exists>r. find_not_quoted_loop m s len c i quoted = Some r \<and>
    (case r of None \<Rightarrow> True | Some q \<Rightarrow> s + i \<le> q \<and> q < s + len \<and> m ! q = c \<and> c \<noteq> DQUOTE)"
  using assms
proof (induction m s len c i quoted rule: find_not_quoted_loop.induct)
  case (1 m s len c i quoted)
  note unf = find_not_quoted_loop.simps [of m s len c i quoted]
  show ?case
  proof (cases "i < len")
    case False
    then show ?thesis by (simp add: unf)
  next
    case True
    let ?c = "m ! (s + i)"
    have c: "rd m (s + i) = Some ?c"
      using True "1.prems" by simp
    consider "\<not> quoted" "?c = DQUOTE" | "\<not> quoted" "?c \<noteq> DQUOTE" "?c = c"
      | "\<not> quoted" "?c \<noteq> DQUOTE" "?c \<noteq> c" | "quoted" "?c = DQUOTE" | "quoted" "?c \<noteq> DQUOTE"
      by blast
    then show ?thesis
    proof cases
      case 1
      then have "find_not_quoted_loop m s len c i quoted = find_not_quoted_loop m s len c (Suc i) True"
        using True c by (subst unf) simp
      then show ?thesis using "1.IH"(1) [OF True c 1] "1.prems" by (auto split: option.splits)
    next
      case 2
      then show ?thesis using True c by (subst unf) simp
    next
      case 3
      then have "find_not_quoted_loop m s len c i quoted = find_not_quoted_loop m s len c (Suc i) False"
        using True c by (subst unf) simp
      then show ?thesis using "1.IH"(2) [OF True c 3] "1.prems" by (auto split: option.splits)
    next
      case 4
      then have i: "0 < i" and b: "rd m (s + i - 1) = Some (m ! (s + i - 1))"
        using "1.prems" True by auto
      then have "find_not_quoted_loop m s len c i quoted =
          find_not_quoted_loop m s len c (Suc i) (m ! (s + i - 1) = BACKSLASH)"
        using True c 4 by (subst unf) simp
      then show ?thesis using "1.IH"(3) [OF True c _ _ b] 4 "1.prems" by (auto split: option.splits)
    next
      case 5
      then have "find_not_quoted_loop m s len c i quoted = find_not_quoted_loop m s len c (Suc i) True"
        using True c by (subst unf) simp
      then show ?thesis using "1.IH"(4) [OF True c _ 5(2)] 5 "1.prems" by (auto split: option.splits)
    qed
  qed
qed

lemma q_memchr_first:
  assumes "e \<le> length m" and "p \<le> q" and "q < e" and "m ! q = c" and "\<And>i. p \<le> i \<Longrightarrow> i < q \<Longrightarrow> m ! i \<noteq> c"
  shows "q_memchr m p c e = Some (Some q)"
proof -
  consider "\<forall>i. p \<le> i \<longrightarrow> i < e \<longrightarrow> m ! i \<noteq> c"
    | r where "q_memchr m p c e = Some (Some r)" "p \<le> r" "r < e" "m ! r = c" "\<forall>i. p \<le> i \<longrightarrow> i < r \<longrightarrow> m ! i \<noteq> c"
    using q_memchr_cases [OF assms(1), of p c] by blast
  then show ?thesis
  proof cases
    case 1
    with assms show ?thesis by blast
  next
    case 2
    then have "r = q" using assms by (metis linorder_neqE_nat)
    with 2 show ?thesis by simp
  qed
qed

lemma eat_line_at:
  assumes "b + n \<le> length m" and "b \<le> q" and "q + 1 < b + n" and "m ! q = LF"
    and "\<And>i. b \<le> i \<Longrightarrow> i < q \<Longrightarrow> m ! i \<noteq> LF" and "m ! (q + 1) \<noteq> CR"
  shows "eat_line m b n = Some (q + 1)"
proof -
  have "q_memchr m b LF (b + n) = Some (Some q)"
    using assms by (intro q_memchr_first) auto
  then show ?thesis
    using assms by (auto simp: eat_line_def)
qed

end
