(* ===== verification/Trim.thy ===== *)
theory Trim
  imports Cmem
begin

text \<open>
  \<^verbatim>\<open>trim.h\<close>: white-space removal at both ends of a string. \<^verbatim>\<open>is_ws\<close> tests membership in a 32-bit mask;
  it is proved to accept exactly space, tab, carriage return and line feed.
\<close>

unbundle bit_operations_syntax

definition ws_mask :: "32 word" where
  "ws_mask = push_bit 31 1 OR push_bit 12 1 OR push_bit 9 1 OR push_bit 8 1"

definition is_ws :: "char \<Rightarrow> bool" where
  "is_ws c =
     (let ch = (of_char c :: 8 word) - 1
      in ch < 32 \<and> (push_bit (unat ch) 1 AND ws_mask) \<noteq> 0)"

definition trim_leading :: "mem \<Rightarrow> ptr \<Rightarrow> int \<Rightarrow> (ptr \<times> int) option" where
  "trim_leading m s len = do {
     q \<leftarrow> scan_while is_ws m s (s + nat len);
     Some (q, if len \<le> 0 then len else len - (int q - int s)) }"

text \<open>\<^verbatim>\<open>for(; _s->len > 0; _s->len--) if (!is_ws(_s->s[_s->len - 1])) return;\<close>\<close>

fun trim_trailing_loop :: "mem \<Rightarrow> ptr \<Rightarrow> nat \<Rightarrow> nat option" where
  "trim_trailing_loop m s 0 = Some 0"
| "trim_trailing_loop m s (Suc n) = do {
     c \<leftarrow> rd m (s + n); if \<not> is_ws c then Some (Suc n) else trim_trailing_loop m s n }"

definition trim_trailing :: "mem \<Rightarrow> ptr \<Rightarrow> int \<Rightarrow> int option" where
  "trim_trailing m s len =
     (if len \<le> 0 then Some len else map_option int (trim_trailing_loop m s (nat len)))"

definition trim :: "mem \<Rightarrow> ptr \<Rightarrow> int \<Rightarrow> (ptr \<times> int) option" where
  "trim m s len = do {
     (s1, len1) \<leftarrow> trim_leading m s len;
     len2 \<leftarrow> trim_trailing m s1 len1;
     Some (s1, len2) }"

section \<open>The mask\<close>

lemma ws_mask_bits:
  assumes "n < 32"
  shows "(push_bit n 1 AND ws_mask) \<noteq> 0 \<longleftrightarrow> n \<in> {31, 12, 9, 8}"
proof -
  have "list_all (\<lambda>n. ((push_bit n 1 AND ws_mask) \<noteq> 0) = (n \<in> {31, 12, 9, 8})) [0..<32]"
    by code_simp
  then show ?thesis using assms by (auto simp: list_all_iff)
qed

lemma unat_pred_char: "unat ((of_char c :: 8 word) - 1) = (if c = NUL then 255 else of_char c - 1)"
proof -
  have "(of_char c :: 8 word) = of_nat (of_char c)"
    by (simp add: of_nat_of_char)
  then have u: "unat (of_char c :: 8 word) = of_char c"
    by (simp add: unat_of_nat)
  show ?thesis
  proof (cases "c = NUL")
    case True
    then show ?thesis by (simp add: unsigned_minus_1_eq_mask mask_eq_exp_minus_1)
  next
    case False
    have "(of_char c :: nat) \<noteq> of_char NUL"
      unfolding of_char_eq_iff by (rule False)
    then have "(of_char c :: nat) \<noteq> 0" by simp
    then have "(1 :: 8 word) \<le> of_char c"
      using u by (simp add: word_le_nat_alt)
    with u False show ?thesis by (simp add: unat_sub)
  qed
qed

lemma is_ws_iff: "is_ws c \<longleftrightarrow> c = SPC \<or> c = TAB \<or> c = CR \<or> c = LF"
proof -
  have "is_ws c \<longleftrightarrow> (unat ((of_char c :: 8 word) - 1) \<in> {31, 12, 9, 8})"
  proof (cases "(of_char c :: 8 word) - 1 < 32")
    case True
    then have "unat ((of_char c :: 8 word) - 1) < 32"
      by (simp add: word_less_nat_alt)
    from ws_mask_bits [OF this] show ?thesis
      unfolding is_ws_def Let_def using True by blast
  next
    case False
    then show ?thesis
      by (auto simp: is_ws_def Let_def word_less_nat_alt)
  qed
  also have "\<dots> \<longleftrightarrow> (of_char c :: nat) \<in> {32, 13, 10, 9}"
    unfolding unat_pred_char by auto
  also have "\<dots> \<longleftrightarrow> of_char c = (of_char SPC :: nat) \<or> of_char c = (of_char CR :: nat) \<or>
      of_char c = (of_char LF :: nat) \<or> of_char c = (of_char TAB :: nat)"
    by simp
  finally show ?thesis unfolding of_char_eq_iff by blast
qed

section \<open>Trimming\<close>

lemma trim_leading_total:
  assumes "s + nat len \<le> length m" and "0 \<le> len"
  obtains q where "trim_leading m s len = Some (q, len - (int q - int s))" and "s \<le> q"
    and "q \<le> s + nat len" and "\<And>i. s \<le> i \<Longrightarrow> i < q \<Longrightarrow> is_ws (m ! i)"
    and "q < s + nat len \<Longrightarrow> \<not> is_ws (m ! q)"
proof -
  obtain q where q: "scan_while is_ws m s (s + nat len) = Some q" "s \<le> q" "q \<le> s + nat len"
    "\<And>i. s \<le> i \<Longrightarrow> i < q \<Longrightarrow> is_ws (m ! i)" "q < s + nat len \<Longrightarrow> \<not> is_ws (m ! q)"
    using sw.scan_total [of s "s + nat len" m is_ws] assms by auto
  then have "trim_leading m s len = Some (q, len - (int q - int s))"
    using assms by (auto simp: trim_leading_def)
  with q show thesis by (intro that)
qed

lemma trim_leading_text:
  assumes "s + nat len \<le> length m" and "0 \<le> len"
  obtains q where "trim_leading m s len = Some (q, int (s + nat len) - int q)" and "s \<le> q"
    and "q \<le> s + nat len" and "seg m q (s + nat len) = dropWhile is_ws (seg m s (s + nat len))"
proof -
  let ?e = "s + nat len"
  let ?n = "length (takeWhile is_ws (seg m s ?e))"
  have "?n \<le> nat len"
    using length_takeWhile_le [of is_ws "seg m s ?e"] assms by simp
  moreover have "trim_leading m s len = Some (s + ?n, int ?e - int (s + ?n))"
    using assms by (auto simp: trim_leading_def sw.scan_takeWhile)
  moreover have "seg m (s + ?n) ?e = dropWhile is_ws (seg m s ?e)"
    by (simp add: dropWhile_eq_drop seg_def drop_take add.commute)
  ultimately show thesis by (intro that [of "s + ?n"]) auto
qed

lemma trim_trailing_loop_eq:
  "s + n \<le> length m \<Longrightarrow>
   trim_trailing_loop m s n = Some (length (rev (dropWhile is_ws (rev (seg m s (s + n))))))"
proof (induction n)
  case 0
  then show ?case by simp
next
  case (Suc n)
  then have "seg m s (s + Suc n) = seg m s (s + n) @ [m ! (s + n)]"
    using seg_snoc [of s "s + Suc n" m] by simp
  with Suc show ?case by simp
qed

lemma dropWhile_rev_prefix:
  "take (length (rev (dropWhile P (rev xs)))) xs = rev (dropWhile P (rev xs))"
proof -
  have "xs = rev (dropWhile P (rev xs)) @ rev (takeWhile P (rev xs))"
    by (metis rev_append rev_rev_ident takeWhile_dropWhile_id)
  then show ?thesis by (metis append_eq_conv_conj)
qed

definition trim_spec :: "char list \<Rightarrow> char list" where
  "trim_spec cs = rev (dropWhile is_ws (rev (dropWhile is_ws cs)))"

lemma trim_ok:
  assumes "s + nat len \<le> length m" and "0 \<le> len"
  obtains q n where "trim m s len = Some (q, int n)" and "s \<le> q" and "q + n \<le> s + nat len"
    and "seg m q (q + n) = trim_spec (seg m s (s + nat len))"
proof -
  obtain q where q: "trim_leading m s len = Some (q, int (s + nat len) - int q)" "s \<le> q"
    "q \<le> s + nat len" "seg m q (s + nat len) = dropWhile is_ws (seg m s (s + nat len))"
    using trim_leading_text [OF assms] by blast
  define k where "k = s + nat len - q"
  define n where "n = length (rev (dropWhile is_ws (rev (seg m q (q + k)))))"
  have qk: "q + k = s + nat len" and ik: "int (s + nat len) - int q = int k"
    using q by (auto simp: k_def)
  have tt: "trim_trailing m q (int k) = Some (int n)"
    using qk assms(1) by (auto simp: trim_trailing_def trim_trailing_loop_eq n_def)
  have nk: "n \<le> k"
    using length_dropWhile_le [of is_ws "rev (seg m q (q + k))"] assms(1) qk by (simp add: n_def)
  have "seg m q (q + n) = take n (seg m q (q + k))"
    using nk by (simp add: seg_def min_def)
  also have "\<dots> = rev (dropWhile is_ws (rev (seg m q (q + k))))"
    unfolding n_def by (rule dropWhile_rev_prefix)
  finally have "seg m q (q + n) = trim_spec (seg m s (s + nat len))"
    unfolding qk q(4) trim_spec_def .
  moreover have "trim m s len = Some (q, int n)"
    using q(1) tt unfolding trim_def ik by simp
  ultimately show thesis
    using q nk qk by (intro that [of q n]) auto
qed

section \<open>Properties\<close>

text \<open>
  \<^verbatim>\<open>trim\<close> reads only the bytes of its argument and leaves the text without the white space (space,
  tab, CR, LF) at both ends.
\<close>

theorem trim_correct:
  assumes "s + nat len \<le> length m" and "0 \<le> len"
  shows "\<exists>q n. trim m s len = Some (q, int n) \<and> s \<le> q \<and> q + n \<le> s + nat len \<and>
    seg m q (q + n) = rev (dropWhile (\<lambda>c. c \<in> {SPC, TAB, CR, LF}) (rev
      (dropWhile (\<lambda>c. c \<in> {SPC, TAB, CR, LF}) (seg m s (s + nat len)))))"
proof -
  have "is_ws = (\<lambda>c. c \<in> {SPC, TAB, CR, LF})" by (auto simp: is_ws_iff)
  with trim_ok [OF assms] show ?thesis unfolding trim_spec_def by metis
qed

theorem trim_correct_witness:
  "\<exists>q n. trim '' ab '' 0 4 = Some (q, int n) \<and> seg '' ab '' q (q + n) = ''ab''"
  using trim_correct [of 0 4 "'' ab ''"] by (auto simp: seg_def)

end
