(* ===== verification/Ut.thy ===== *)
theory Ut
  imports Parser_F
begin

text \<open>
  The conversions of \<^verbatim>\<open>ut.h\<close>: decimal strings to machine integers of 16, 32 and 64 bits and back,
  hexadecimal conversions, and the unescaping of a URI user part. Unsigned results are words, so the
  wrap-around of the C code is the one of the model.
\<close>

section \<open>Decimal strings to unsigned integers\<close>

text \<open>\<^verbatim>\<open>str2s\<close>: at most five digits; the pair is the result and \<^verbatim>\<open>*err\<close>.\<close>

function str2s_loop :: "mem \<Rightarrow> ptr \<Rightarrow> ptr \<Rightarrow> 16 word \<Rightarrow> int \<Rightarrow> (16 word \<times> int) option" where
  "str2s_loop m p limit ret i =
     (if p < limit then do {
        c \<leftarrow> rd m p;
        if is_digit c then
          (let ret' = ret * 10 + of_nat (digit_val c); i' = i + 1
           in if i' > 5 then Some (0, 1) else str2s_loop m (Suc p) limit ret' i')
        else Some (0, 1) }
      else Some (ret, 0))"
  by pat_completeness auto
termination
  by (relation "measure (\<lambda>(m, p, limit, ret, i). limit - p)") auto

declare str2s_loop.simps [simp del]

definition str2s :: "mem \<Rightarrow> ptr \<Rightarrow> nat \<Rightarrow> (16 word \<times> int) option" where
  "str2s m s len = str2s_loop m s (s + len) 0 0"

text \<open>
  \<^verbatim>\<open>str2short\<close>, \<^verbatim>\<open>str2int\<close> and \<^verbatim>\<open>str2int64\<close> have the same loop at three widths. The pair is the return
  code and \<^verbatim>\<open>*_r\<close>, which keeps the partial value when a character is not a digit.
\<close>

function digits_loop :: "mem \<Rightarrow> ptr \<Rightarrow> nat \<Rightarrow> nat \<Rightarrow> 'w::len word \<Rightarrow> (int \<times> 'w word) option" where
  "digits_loop m s len i r =
     (if i < len then do {
        c \<leftarrow> rd m (s + i);
        if is_digit c then digits_loop m s len (Suc i) (r * 10 + of_nat (digit_val c))
        else Some (-1, r) }
      else Some (0, r))"
  by pat_completeness auto
termination
  by (relation "measure (\<lambda>(m, s, len, i, r). len - i)") auto

declare digits_loop.simps [simp del]

definition str2short :: "mem \<Rightarrow> str \<Rightarrow> 16 word \<Rightarrow> (int \<times> 16 word) option" where
  "str2short m x r =
     (case str_s x of
        None \<Rightarrow> Some (-1, r)
      | Some s \<Rightarrow> if str_len x = 0 then Some (-1, r) else digits_loop m s (nat (str_len x)) 0 0)"

definition str2int :: "mem \<Rightarrow> str \<Rightarrow> 32 word \<Rightarrow> (int \<times> 32 word) option" where
  "str2int m x r =
     (case str_s x of
        None \<Rightarrow> Some (-1, r)
      | Some s \<Rightarrow> if str_len x = 0 then Some (-1, r) else digits_loop m s (nat (str_len x)) 0 0)"

definition str2int64 :: "mem \<Rightarrow> str \<Rightarrow> 64 word \<Rightarrow> (int \<times> 64 word) option" where
  "str2int64 m x r =
     (case str_s x of
        None \<Rightarrow> Some (-1, r)
      | Some s \<Rightarrow> if str_len x = 0 then Some (-1, r) else digits_loop m s (nat (str_len x)) 0 0)"

text \<open>
  \<^verbatim>\<open>str2sint\<close> accumulates in a signed \<^verbatim>\<open>int\<close>: an overflow is undefined behaviour, \<open>None\<close> here.
\<close>

definition c_int :: "int \<Rightarrow> int option" where
  "c_int v = (if - (2 ^ 31) \<le> v \<and> v < 2 ^ 31 then Some v else None)"

function sint_loop :: "mem \<Rightarrow> ptr \<Rightarrow> nat \<Rightarrow> nat \<Rightarrow> int \<Rightarrow> int \<Rightarrow> (int \<times> int) option" where
  "sint_loop m s len i sg r =
     (if i < len then do {
        c \<leftarrow> rd m (s + i);
        if is_digit c then do {
          r10 \<leftarrow> c_int (r * 10);
          r' \<leftarrow> c_int (r10 + int (digit_val c));
          sint_loop m s len (Suc i) sg r' }
        else Some (-1, r * sg) }
      else Some (0, r * sg))"
  by pat_completeness auto
termination
  by (relation "measure (\<lambda>(m, s, len, i, sg, r). len - i)") auto

declare sint_loop.simps [simp del]

definition str2sint :: "mem \<Rightarrow> str \<Rightarrow> int \<Rightarrow> (int \<times> int) option" where
  "str2sint m x r =
     (case str_s x of
        None \<Rightarrow> Some (-1, r)
      | Some s \<Rightarrow>
          if str_len x = 0 then Some (-1, r)
          else do {
            c \<leftarrow> rd m s;
            if c = CHR ''-'' then sint_loop m s (nat (str_len x)) 1 (-1) 0
            else if c = CHR ''+'' then sint_loop m s (nat (str_len x)) 1 1 0
            else sint_loop m s (nat (str_len x)) 0 1 0 })"

section \<open>Hexadecimal strings\<close>

text \<open>The shared digit decoding: \<open>None\<close> is the "no hex digit" branch.\<close>

definition hex_digit :: "char \<Rightarrow> nat option" where
  "hex_digit c =
     (if 48 \<le> schar c \<and> schar c \<le> 57 then Some (nat (schar c - 48))
      else if 97 \<le> schar c \<and> schar c \<le> 102 then Some (nat (schar c - 97 + 10))
      else if 65 \<le> schar c \<and> schar c \<le> 70 then Some (nat (schar c - 65 + 10))
      else None)"

definition hex2int :: "char \<Rightarrow> int" where
  "hex2int c = (case hex_digit c of Some d \<Rightarrow> int d | None \<Rightarrow> -1)"

text \<open>\<^verbatim>\<open>reverse_hex2int\<close> and its 64-bit variant read the digits from the last to the first.\<close>

fun reverse_hex_loop :: "mem \<Rightarrow> ptr \<Rightarrow> nat \<Rightarrow> bool \<Rightarrow> 'w::len word \<Rightarrow> (int \<times> 'w word) option" where
  "reverse_hex_loop m c 0 unsafe r = Some (0, r)"
| "reverse_hex_loop m c (Suc n) unsafe r = do {
     d \<leftarrow> rd m (c + n);
     let r1 = push_bit 4 r;
     case hex_digit d of
       Some v \<Rightarrow> reverse_hex_loop m c n unsafe (r1 + of_nat v)
     | None \<Rightarrow> Some (if unsafe then 0 else -1, r1) }"

definition reverse_hex2int :: "mem \<Rightarrow> ptr \<Rightarrow> int \<Rightarrow> (int \<times> 32 word) option" where
  "reverse_hex2int m c len = reverse_hex_loop m c (nat len) False 0"

definition reverse_hex2int64 :: "mem \<Rightarrow> ptr \<Rightarrow> int \<Rightarrow> bool \<Rightarrow> (int \<times> 64 word) option" where
  "reverse_hex2int64 m c len unsafe = reverse_hex_loop m c (nat len) unsafe 0"

definition fourbits2char :: "nat \<Rightarrow> char" where
  "fourbits2char d = (if d \<ge> 10 then char_of (d + 97 - 10) else char_of (d + 48))"

text \<open>
  \<^verbatim>\<open>int2reverse_hex\<close>: the bytes stored through \<^verbatim>\<open>*c\<close>, the remaining \<^verbatim>\<open>*size\<close> and the return code.
\<close>

fun reverse_hex_digits :: "nat \<Rightarrow> 'w::len word \<Rightarrow> char list \<times> nat \<times> 'w word" where
  "reverse_hex_digits 0 nr = ([], 0, nr)"
| "reverse_hex_digits (Suc sz) nr =
     (if nr = 0 then ([], Suc sz, nr)
      else (let (cs, sz', nr') = reverse_hex_digits sz (drop_bit 4 nr)
            in (fourbits2char (unat (and nr 15)) # cs, sz', nr')))"

definition int2reverse_hex :: "nat \<Rightarrow> 'w::len word \<Rightarrow> char list \<times> nat \<times> int" where
  "int2reverse_hex sz nr =
     (if sz \<noteq> 0 \<and> nr = 0 then ([CHR ''0''], sz - 1, 1)
      else (let (cs, sz', nr') = reverse_hex_digits sz nr
            in (cs, sz', if nr' \<noteq> 0 then -1 else 1)))"

text \<open>
  \<^verbatim>\<open>hexstr2int\<close> shifts a signed \<^verbatim>\<open>int\<close> left, which the compiler the parser is built with (GCC) defines
  as a shift modulo \<open>2 ^ 32\<close>; the result is stored as an \<^verbatim>\<open>unsigned int\<close>.
\<close>

function hexstr_loop :: "mem \<Rightarrow> ptr \<Rightarrow> ptr \<Rightarrow> 32 word \<Rightarrow> (int \<times> 32 word option) option" where
  "hexstr_loop m p e r =
     (if p < e then do {
        d \<leftarrow> rd m p;
        case hex_digit d of
          Some v \<Rightarrow> hexstr_loop m (Suc p) e (push_bit 4 r + of_nat v)
        | None \<Rightarrow> Some (-1, None) }
      else Some (0, Some r))"
  by pat_completeness auto
termination
  by (relation "measure (\<lambda>(m, p, e, r). e - p)") auto

declare hexstr_loop.simps [simp del]

definition hexstr2int :: "mem \<Rightarrow> ptr \<Rightarrow> int \<Rightarrow> (int \<times> 32 word option) option" where
  "hexstr2int m c len = hexstr_loop m c (c + nat len) 0"

definition string2hex :: "char list \<Rightarrow> char list \<times> int" where
  "string2hex xs =
     (if xs = [] then ([CHR ''0''], 1)
      else (concat (map (\<lambda>c. [fourbits2char (of_char c div 16), fourbits2char (of_char c mod 16)]) xs),
            int (length xs) * 2))"

section \<open>Integers to decimal strings\<close>

definition wr :: "mem \<Rightarrow> ptr \<Rightarrow> char \<Rightarrow> mem option" where
  "wr m p c = (if p < length m then Some (m[p := c]) else None)"

abbreviation INT2STR_MAX_LEN :: nat where
  "INT2STR_MAX_LEN \<equiv> 22"

function int2bstr_loop :: "64 word \<Rightarrow> mem \<Rightarrow> ptr \<Rightarrow> int \<Rightarrow> (mem \<times> int) option" where
  "int2bstr_loop l m s i = do {
     m' \<leftarrow> wr m (nat (int s + i)) (char_of (unat (l mod 10) + 48));
     if l div 10 \<noteq> 0 \<and> i - 1 \<ge> 0 then int2bstr_loop (l div 10) m' s (i - 1)
     else Some (m', i - 1) }"
  by pat_completeness auto
termination
  by (relation "measure (\<lambda>(l, m, s, i). nat i)") auto

declare int2bstr_loop.simps [simp del]

text \<open>The triple is the memory, the returned pointer and \<^verbatim>\<open>*len\<close>.\<close>

definition int2bstr :: "64 word \<Rightarrow> mem \<Rightarrow> ptr \<Rightarrow> (mem \<times> ptr \<times> int) option" where
  "int2bstr l m s = do {
     m1 \<leftarrow> wr m (s + (INT2STR_MAX_LEN - 1)) NUL;
     (m2, i) \<leftarrow> int2bstr_loop l m1 s (int INT2STR_MAX_LEN - 2);
     Some (m2, nat (int s + i + 1), int INT2STR_MAX_LEN - 2 - i) }"

text \<open>\<^verbatim>\<open>btostr\<close>: the bytes written; the return value is their number.\<close>

definition btostr :: "8 word \<Rightarrow> char list" where
  "btostr val =
     (let a = unat val div 100; b = unat val mod 100 div 10
      in (if a \<noteq> 0 then [char_of (a + 48)] else []) @
         (if b \<noteq> 0 \<or> a \<noteq> 0 then [char_of (b + 48)] else []) @
         [char_of (unat val mod 10 + 48)])"

section \<open>URI user parts\<close>

text \<open>
  \<^verbatim>\<open>un_escape\<close>: the return code and the bytes stored in \<^verbatim>\<open>new_user->s\<close>, whose number is
  \<^verbatim>\<open>new_user->len\<close>; \<open>out\<close> holds them in reverse.
\<close>

function un_escape_loop :: "mem \<Rightarrow> ptr \<Rightarrow> nat \<Rightarrow> nat \<Rightarrow> char list \<Rightarrow> (int \<times> char list) option" where
  "un_escape_loop m s len i out =
     (if i < len then do {
        c \<leftarrow> rd m (s + i);
        if c = CHR ''%'' then
          (if i + 2 \<ge> len then Some (-1, rev out)
           else do {
             h \<leftarrow> rd m (s + i + 1);
             if hex2int h < 0 then Some (-1, rev out)
             else do {
               l \<leftarrow> rd m (s + i + 2);
               if hex2int l < 0 then Some (-1, rev out)
               else (let value = hex2int h * 16 + hex2int l
                     in if value < 32 \<or> value > 126 then Some (-1, rev out)
                        else un_escape_loop m s len (i + 3) (char_of (nat value) # out)) } })
        else un_escape_loop m s len (Suc i) (c # out) }
      else Some (int (length out), rev out))"
  by pat_completeness auto
termination
  by (relation "measure (\<lambda>(m, s, len, i, out). len - i)") auto

declare un_escape_loop.simps [simp del]

definition un_escape :: "mem \<Rightarrow> ptr \<Rightarrow> int \<Rightarrow> ptr option \<Rightarrow> (int \<times> char list) option" where
  "un_escape m s len new_s =
     (if new_s = None then Some (-1, []) else un_escape_loop m s (nat len) 0 [])"

function e164_loop :: "mem \<Rightarrow> ptr \<Rightarrow> nat \<Rightarrow> nat \<Rightarrow> int option" where
  "e164_loop m s len i =
     (if i < len then do {
        c \<leftarrow> rd m (s + i);
        if schar c < 48 \<or> schar c > 57 then Some (-1) else e164_loop m s len (Suc i) }
      else Some 1)"
  by pat_completeness auto
termination
  by (relation "measure (\<lambda>(m, s, len, i). len - i)") auto

declare e164_loop.simps [simp del]

definition is_e164 :: "mem \<Rightarrow> ptr \<Rightarrow> int \<Rightarrow> int option" where
  "is_e164 m s len =
     (if len > 2 \<and> len < 17 then do {
        c \<leftarrow> rd m s;
        if c = CHR ''+'' then e164_loop m s (nat len) 1 else Some (-1) }
      else Some (-1))"

section \<open>Correctness of the decimal conversions\<close>

definition dec_val :: "char list \<Rightarrow> nat" where
  "dec_val cs = base_val 10 (map digit_val cs)"

lemma dec_val_Nil [simp]: "dec_val [] = 0"
  by (simp add: dec_val_def)

lemma dec_val_Cons: "dec_val (c # cs) = digit_val c * 10 ^ length cs + dec_val cs"
  by (simp add: dec_val_def base_val_Cons)

lemma dec_val_snoc [simp]: "dec_val (cs @ [c]) = dec_val cs * 10 + digit_val c"
  by (simp add: dec_val_def)

lemma dec_val_less: "\<forall>c \<in> set cs. is_digit c \<Longrightarrow> dec_val cs < 10 ^ length cs"
  unfolding dec_val_def
  using base_val_less [of "map digit_val cs" 10] by (auto simp: digit_val_less)

lemma digits_loop_eq:
  fixes r :: "'w::len word"
  assumes "s + len \<le> length m" and "i \<le> len"
  shows "digits_loop m s len i r =
    (let ds = seg m (s + i) (s + len); pre = takeWhile is_digit ds
     in Some (if pre = ds then 0 else -1, r * 10 ^ length pre + of_nat (dec_val pre)))"
  using assms(2)
proof (induction "len - i" arbitrary: i r)
  case 0
  then show ?case by (subst digits_loop.simps) simp
next
  case (Suc n)
  then have lt: "i < len" and n: "n = len - Suc i" by auto
  define ds where "ds = seg m (s + Suc i) (s + len)"
  have seg: "seg m (s + i) (s + len) = m ! (s + i) # ds"
    using lt assms(1) by (simp add: seg_Cons ds_def)
  have unf: "digits_loop m s len i r =
     (if is_digit (m ! (s + i)) then digits_loop m s len (Suc i) (r * 10 + of_nat (digit_val (m ! (s + i))))
      else Some (-1, r))"
    using lt assms(1) by (subst digits_loop.simps) simp
  have IH: "digits_loop m s len (Suc i) r = (let pre = takeWhile is_digit ds
      in Some (if pre = ds then 0 else -1, r * 10 ^ length pre + of_nat (dec_val pre)))" for r :: "'w word"
    using Suc.hyps(1) [OF n] lt by (simp add: ds_def Let_def)
  show ?case
    unfolding unf seg by (simp add: IH Let_def dec_val_Cons distrib_right mult.assoc)
qed

text \<open>
  A string of digits converts to its value modulo the width; anything else is refused. The bound on
  \<^term>\<open>str_len x\<close> is the one of \<^const>\<open>str_in\<close>.
\<close>

lemma digits_loop_str:
  assumes "str_in m x" and "str_s x = Some s" and "str_len x \<noteq> 0"
  shows "digits_loop m s (nat (str_len x)) 0 (0 :: 'w::len word) =
    (let ds = str_text m x; pre = takeWhile is_digit ds
     in Some (if pre = ds then 0 else -1, of_nat (dec_val pre)))"
  using assms by (subst digits_loop_eq) (auto simp: str_in_def str_text_def Let_def)

lemma takeWhile_eq_all: "takeWhile P xs = xs \<longleftrightarrow> (\<forall>x \<in> set xs. P x)"
  by (metis set_takeWhileD takeWhile_eq_all_conv)

lemma str2s_loop_eq:
  assumes "e \<le> length m" and "p \<le> e" and "0 \<le> i" and "i \<le> 5"
  shows "str2s_loop m p e ret i =
    (let ds = seg m p e
     in Some (if (\<forall>c \<in> set ds. is_digit c) \<and> i + int (length ds) \<le> 5
              then (ret * 10 ^ length ds + of_nat (dec_val ds), 0) else (0, 1)))"
  using assms(2-)
proof (induction "e - p" arbitrary: p ret i)
  case 0
  then show ?case by (subst str2s_loop.simps) simp
next
  case (Suc n)
  then have lt: "p < e" and n: "n = e - Suc p" by auto
  have unf: "str2s_loop m p e ret i =
     (if is_digit (m ! p) then
        (if i + 1 > 5 then Some (0, 1) else str2s_loop m (Suc p) e (ret * 10 + of_nat (digit_val (m ! p))) (i + 1))
      else Some (0, 1))"
    using lt assms(1) by (subst str2s_loop.simps) (simp add: Let_def)
  show ?case
    using Suc.hyps(1) [OF n, of "i + 1"] lt Suc.prems assms(1)
    by (auto simp: unf seg_Cons Let_def dec_val_Cons algebra_simps)
qed

section \<open>Round trips\<close>

lemma char_of_digit: "d < 10 \<Longrightarrow> is_digit (char_of (d + 48 :: nat)) \<and> digit_val (char_of (d + 48 :: nat)) = d"
  by (simp add: is_digit_iff digit_val_def)

lemma int2bstr_loop_ok:
  assumes "s + k < length m" and "unat l < 10 ^ Suc k"
  shows "\<exists>m' j. int2bstr_loop l m s (int k) = Some (m', int j - 1) \<and> j \<le> k \<and> length m' = length m \<and>
    (\<forall>x. x < s + j \<or> s + k < x \<longrightarrow> m' ! x = m ! x) \<and>
    (\<forall>x. s + j \<le> x \<longrightarrow> x \<le> s + k \<longrightarrow> is_digit (m' ! x)) \<and>
    dec_val (seg m' (s + j) (s + k + 1)) = unat l"
  using assms
proof (induction k arbitrary: l m)
  case 0
  let ?m = "m[s := char_of (unat (l mod 10) + 48)]"
  have l: "l div 10 = 0" "unat (l mod 10) = unat l" "unat l < 10"
    using "0.prems" by (simp_all add: unat_div unat_mod word_unat_eq_iff)
  then have "int2bstr_loop l m s (int 0) = Some (?m, int 0 - 1)"
    using "0.prems" by (subst int2bstr_loop.simps) (simp add: wr_def)
  then show ?case
    using "0.prems" l by (intro exI [of _ ?m] exI [of _ 0])
      (auto simp: char_of_digit seg_Cons dec_val_Cons)
next
  case (Suc k)
  let ?m = "m[s + Suc k := char_of (unat (l mod 10) + 48)]"
  have d: "unat (l mod 10) = unat l mod 10" "unat (l div 10) = unat l div 10"
    by (simp_all add: unat_div unat_mod)
  have unf: "int2bstr_loop l m s (int (Suc k)) =
      (if l div 10 \<noteq> 0 then int2bstr_loop (l div 10) ?m s (int k) else Some (?m, int (Suc k) - 1))"
    using Suc.prems by (subst int2bstr_loop.simps) (simp add: wr_def nat_add_distrib)
  show ?case
  proof (cases "l div 10 = 0")
    case True
    then have "unat l < 10"
      using d(2) by (metis div_eq_0_iff unat_0 zero_neq_numeral)
    moreover have "int2bstr_loop l m s (int (Suc k)) = Some (?m, int (Suc k) - 1)"
      unfolding unf using True by simp
    ultimately show ?thesis
      using Suc.prems d by (intro exI [of _ ?m] exI [of _ "Suc k"])
        (auto simp: char_of_digit seg_Cons dec_val_Cons)
  next
    case False
    have "unat (l div 10) < 10 ^ Suc k"
      using Suc.prems(2) d(2) by (simp add: less_mult_imp_div_less mult.commute)
    then obtain m' j where r: "int2bstr_loop (l div 10) ?m s (int k) = Some (m', int j - 1)"
      and j: "j \<le> k" "length m' = length m"
      and same: "\<forall>x. x < s + j \<or> s + k < x \<longrightarrow> m' ! x = ?m ! x"
      and dig: "\<forall>x. s + j \<le> x \<longrightarrow> x \<le> s + k \<longrightarrow> is_digit (m' ! x)"
      and val: "dec_val (seg m' (s + j) (s + k + 1)) = unat (l div 10)"
      using Suc.IH [of ?m "l div 10"] Suc.prems(1) by auto
    have last: "m' ! (s + Suc k) = char_of (unat (l mod 10) + 48)"
      using same Suc.prems(1) by simp
    have "seg m' (s + j) (s + Suc k + 1) = seg m' (s + j) (s + k + 1) @ [m' ! (s + Suc k)]"
      using seg_snoc [of "s + j" "s + Suc k + 1" m'] Suc.prems(1) j by simp
    then have "dec_val (seg m' (s + j) (s + Suc k + 1)) = unat l"
      using val last d by (simp add: char_of_digit)
    moreover have "is_digit (m' ! x)" if "s + j \<le> x" "x \<le> s + Suc k" for x
      using dig last that d char_of_digit [of "unat l mod 10"]
      by (cases "x = s + Suc k") auto
    moreover have "int2bstr_loop l m s (int (Suc k)) = Some (m', int j - 1)"
      unfolding unf using r False by simp
    ultimately show ?thesis
      using j same by (intro exI [of _ m'] exI [of _ j]) auto
  qed
qed

lemma int2bstr_ok:
  assumes "s + INT2STR_MAX_LEN \<le> length m"
  obtains m' j where "int2bstr l m s = Some (m', s + j, 21 - int j)" and "j \<le> 20"
    and "length m' = length m" and "m' ! (s + 21) = NUL"
    and "\<And>x. x < s \<or> s + INT2STR_MAX_LEN \<le> x \<Longrightarrow> m' ! x = m ! x"
    and "\<forall>c \<in> set (seg m' (s + j) (s + 21)). is_digit c" and "dec_val (seg m' (s + j) (s + 21)) = unat l"
proof -
  let ?m = "m[s + 21 := NUL]"
  have "unat l < 2 ^ 64"
    by (rule order_less_le_trans [OF unsigned_less]) simp
  also have "\<dots> \<le> (10 :: nat) ^ Suc 20" by simp
  finally have "unat l < 10 ^ Suc 20" .
  then obtain m' j where r: "int2bstr_loop l ?m s (int 20) = Some (m', int j - 1)"
    and j: "j \<le> 20" "length m' = length m"
    and same: "\<forall>x. x < s + j \<or> s + 20 < x \<longrightarrow> m' ! x = ?m ! x"
    and dig: "\<forall>x. s + j \<le> x \<longrightarrow> x \<le> s + 20 \<longrightarrow> is_digit (m' ! x)"
    and val: "dec_val (seg m' (s + j) (s + 20 + 1)) = unat l"
    using int2bstr_loop_ok [of s 20 ?m l] assms by auto
  have "s + 20 + 1 = s + 21" by simp
  note val = val [unfolded this]
  have "int2bstr l m s = Some (m', s + j, 21 - int j)"
    using r assms j by (simp add: int2bstr_def wr_def nat_add_distrib)
  moreover have "\<forall>c \<in> set (seg m' (s + j) (s + 21)). is_digit c"
    using dig j assms by (auto simp: in_set_seg)
  ultimately show thesis
    using j same val assms by (intro that [of m' j]) auto
qed

lemma hex_digit_fourbits [simp]:
  assumes "d < 16"
  shows "hex_digit (fourbits2char d) = Some d"
proof -
  from assms have "d \<in> {0, 1, 2, 3, 4, 5, 6, 7, 8, 9, 10, 11, 12, 13, 14, 15}"
    by (simp, presburger)
  then show ?thesis
    by (elim insertE) (simp_all add: fourbits2char_def hex_digit_def schar_def uchar_def)
qed

lemma reverse_hex_loop_eq:
  assumes "c + n \<le> length m" and "\<forall>x \<in> set (seg m c (c + n)). hex_digit x \<noteq> None"
  shows "reverse_hex_loop m c n u (r :: 'w::len word) =
    Some (0, r * 16 ^ n + of_nat (base_val 16 (rev (map (\<lambda>x. the (hex_digit x)) (seg m c (c + n))))))"
  using assms
proof (induction n arbitrary: r)
  case 0
  then show ?case by simp
next
  case (Suc n)
  have seg: "seg m c (c + Suc n) = seg m c (c + n) @ [m ! (c + n)]"
    using seg_snoc [of c "c + Suc n" m] Suc.prems(1) by simp
  then obtain v where v: "hex_digit (m ! (c + n)) = Some v"
    using Suc.prems(2) by auto
  have "reverse_hex_loop m c (Suc n) u r = reverse_hex_loop m c n u (push_bit 4 r + of_nat v)"
    using Suc.prems v by simp
  also have "\<dots> = Some (0, (push_bit 4 r + of_nat v) * 16 ^ n +
      of_nat (base_val 16 (rev (map (\<lambda>x. the (hex_digit x)) (seg m c (c + n))))))"
    using Suc.prems seg by (intro Suc.IH) auto
  finally show ?case
    unfolding seg using Suc.prems(1) v
    by (simp add: base_val_Cons push_bit_eq_mult algebra_simps)
qed

lemma unat_and_15: "unat (and nr 15 :: 'w::len word) < 16"
proof -
  have "and nr 15 = take_bit 4 nr"
    by (simp add: take_bit_eq_mask mask_eq_exp_minus_1)
  then have "unat (and nr 15) = take_bit 4 (unat nr)"
    by (simp only: unsigned_take_bit_eq)
  then show ?thesis by (simp add: take_bit_nat_def)
qed

lemma unat_hex_split: "unat (nr :: 'w::len word) = unat (drop_bit 4 nr) * 16 + unat (and nr 15)"
proof -
  have "and nr 15 = take_bit 4 nr"
    by (simp add: take_bit_eq_mask mask_eq_exp_minus_1)
  then have "unat (and nr 15) = take_bit 4 (unat nr)"
    by (simp only: unsigned_take_bit_eq)
  moreover have "unat (drop_bit 4 nr) = drop_bit 4 (unat nr)"
    by (simp only: unsigned_drop_bit_eq) (simp add: take_bit_nat_def)
  ultimately show ?thesis by (simp add: take_bit_nat_def drop_bit_nat_def)
qed

lemma reverse_hex_digits_ok:
  assumes "reverse_hex_digits n nr = (cs, n', 0)"
  shows "(\<forall>c \<in> set cs. hex_digit c \<noteq> None) \<and> length cs + n' = n \<and>
    base_val 16 (rev (map (\<lambda>x. the (hex_digit x)) cs)) = unat nr"
  using assms
proof (induction n arbitrary: nr cs)
  case 0
  then show ?case by simp
next
  case (Suc n)
  show ?case
  proof (cases "nr = 0")
    case True
    with Suc.prems show ?thesis by simp
  next
    case False
    with Suc.prems obtain cs' where cs: "cs = fourbits2char (unat (and nr 15)) # cs'"
      and rec: "reverse_hex_digits n (drop_bit 4 nr) = (cs', n', 0)"
      by (auto simp: Let_def split: prod.splits)
    from Suc.IH [OF rec] show ?thesis
      using unat_and_15 [of nr] unat_hex_split [of nr] by (simp add: cs)
  qed
qed

section \<open>Unescaping\<close>

text \<open>The abstract decoding: \<open>None\<close> for an escape that is cut off, not hexadecimal or not printable.\<close>

fun unesc :: "char list \<Rightarrow> char list option" where
  "unesc [] = Some []"
| "unesc (c # cs) =
     (if c = CHR ''%'' then
        (case cs of
           h # l # rest \<Rightarrow>
             (case (hex_digit h, hex_digit l) of
                (Some a, Some b) \<Rightarrow>
                  if 32 \<le> a * 16 + b \<and> a * 16 + b \<le> 126
                  then map_option (Cons (char_of (a * 16 + b))) (unesc rest) else None
              | _ \<Rightarrow> None)
         | _ \<Rightarrow> None)
      else map_option (Cons c) (unesc cs))"

lemma hex2int_neg: "hex2int c < 0 \<longleftrightarrow> hex_digit c = None"
  by (simp add: hex2int_def split: option.splits)

lemma un_escape_loop_refines:
  assumes "s + len \<le> length m" and "i \<le> len"
  shows "\<exists>r. un_escape_loop m s len i out = Some r \<and>
    (case unesc (seg m (s + i) (s + len)) of
       Some us \<Rightarrow> r = (int (length out + length us), rev out @ us)
     | None \<Rightarrow> fst r = -1)"
  using assms(2)
proof (induction "len - i" arbitrary: i out rule: less_induct)
  case less
  note unf = un_escape_loop.simps [of m s len i out]
  show ?case
  proof (cases "i < len")
    case False
    with less.prems show ?thesis by (subst unf) simp
  next
    case True
    define c where "c = m ! (s + i)"
    have c: "rd m (s + i) = Some c" and seg: "seg m (s + i) (s + len) = c # seg m (s + Suc i) (s + len)"
      using True assms(1) by (simp_all add: c_def seg_Cons)
    show ?thesis
    proof (cases "c = CHR ''%''")
      case False
      then have "un_escape_loop m s len i out = un_escape_loop m s len (Suc i) (c # out)"
        using True c by (simp add: unf)
      moreover have "len - Suc i < len - i" using True by simp
      note less.hyps [OF this, of "c # out"]
      ultimately show ?thesis
        using True False by (auto simp: seg split: option.splits)
    next
      case pct: True
      show ?thesis
      proof (cases "i + 2 < len")
        case False
        then have "length (seg m (s + Suc i) (s + len)) \<le> 1" using True assms(1) by simp
        then have "unesc (seg m (s + i) (s + len)) = None"
          unfolding seg using pct by (auto split: list.splits)
        with False True c pct show ?thesis by (simp add: unf)
      next
        case two: True
        define h l where "h = m ! (s + i + 1)" and "l = m ! (s + i + 2)"
        have hl: "rd m (s + i + 1) = Some h" "rd m (s + i + 2) = Some l"
          "seg m (s + Suc i) (s + len) = h # l # seg m (s + (i + 3)) (s + len)"
          using two assms(1) by (simp_all add: h_def l_def seg_Cons numeral_3_eq_3)
        have "len - (i + 3) < len - i" using True by simp
        note IH = less.hyps [OF this]
        show ?thesis
          using IH True two c pct hl
          by (auto simp: unf seg hex2int_def Let_def nat_int_add nat_mult_distrib nat_add_distrib
              split: option.splits)
      qed
    qed
  qed
qed

lemma e164_loop_eq:
  assumes "s + len \<le> length m" and "i \<le> len"
  shows "e164_loop m s len i = Some (if \<forall>c \<in> set (seg m (s + i) (s + len)). is_digit c then 1 else -1)"
  using assms(2)
proof (induction "len - i" arbitrary: i)
  case 0
  then show ?case by (subst e164_loop.simps) simp
next
  case (Suc n)
  then have lt: "i < len" and n: "n = len - Suc i" by auto
  have "seg m (s + i) (s + len) = m ! (s + i) # seg m (s + Suc i) (s + len)"
    using lt assms(1) by (simp add: seg_Cons)
  with Suc.hyps(1) [OF n] lt assms(1) show ?case
    by (subst e164_loop.simps) (auto simp: is_digit_def not_less)
qed

section \<open>Properties\<close>

text \<open>
  \<^verbatim>\<open>str2s\<close> accepts exactly the strings of at most five decimal digits and returns their value modulo
  \<open>2 ^ 16\<close>: there is no check that the value fits, so \<^verbatim>\<open>65537\<close> converts to 1 without an error.
\<close>

theorem str2s_value:
  assumes "s + len \<le> length m"
  shows "str2s m s len = Some (
    if (\<forall>c \<in> set (seg m s (s + len)). is_digit c) \<and> len \<le> 5
    then (of_nat (dec_val (seg m s (s + len))), 0) else (0, 1))"
  using str2s_loop_eq [of "s + len" m s 0 0] assms by (simp add: str2s_def Let_def)

theorem str2s_value_witness:
  "str2s ''65537'' 0 5 = Some (1, 0) \<and> str2s ''123456'' 0 6 = Some (0, 1)"
  using str2s_value [of 0 5 "''65537''"] str2s_value [of 0 6 "''123456''"]
  by (simp add: seg_def is_digit_iff dec_val_def base_val_def digit_val_def)

text \<open>
  \<^verbatim>\<open>str2int\<close> on a string inside the buffer: a non-empty string of digits gives 0 and the value modulo
  \<open>2 ^ 32\<close>; any other string gives -1, and \<^verbatim>\<open>*_r\<close> then holds the value of the digits read so far.
\<close>

theorem str2int_value:
  assumes "str_in m x" and "str_s x \<noteq> None" and "str_len x \<noteq> 0"
  shows "str2int m x r =
    Some (if \<forall>c \<in> set (str_text m x). is_digit c then (0, of_nat (dec_val (str_text m x)))
          else (-1, of_nat (dec_val (takeWhile is_digit (str_text m x)))))"
proof -
  obtain s where s: "str_s x = Some s" using assms(2) by auto
  note val = digits_loop_str [OF assms(1) s assms(3), where 'w = 32]
  show ?thesis
  proof (cases "\<forall>c \<in> set (str_text m x). is_digit c")
    case True
    then have "takeWhile is_digit (str_text m x) = str_text m x" by simp
    with val True s assms(3) show ?thesis by (simp add: str2int_def Let_def)
  next
    case False
    with val s assms(3) show ?thesis by (auto simp add: str2int_def Let_def)
  qed
qed

theorem str2int_value_witness:
  "str2int ''4294967297'' \<lparr>str_s = Some 0, str_len = 10\<rparr> 0 = Some (0, 1) \<and>
   str2int ''12a'' \<lparr>str_s = Some 0, str_len = 3\<rparr> 0 = Some (-1, 12)"
  using str2int_value [of "''4294967297''" "\<lparr>str_s = Some 0, str_len = 10\<rparr>" 0]
    str2int_value [of "''12a''" "\<lparr>str_s = Some 0, str_len = 3\<rparr>" 0]
  by (simp add: str_in_def str_text_def seg_def is_digit_iff dec_val_def base_val_def digit_val_def)

text \<open>
  C33: Converting any 64-bit integer with \<^verbatim>\<open>int2bstr\<close> and reading the produced string back with
  \<^verbatim>\<open>str2int64\<close> gives the integer again. The conversion writes only the 22 bytes of its buffer and ends
  the string with a zero byte: 20 digits always suffice.
\<close>

theorem int2bstr_str2int64_roundtrip:
  assumes "s + INT2STR_MAX_LEN \<le> length m"
  shows "\<exists>m' p n. int2bstr l m s = Some (m', p, int n) \<and> s \<le> p \<and> p + n = s + 21 \<and> 0 < n \<and> m' ! (p + n) = NUL \<and>
    (\<forall>x. x < s \<or> s + INT2STR_MAX_LEN \<le> x \<longrightarrow> m' ! x = m ! x) \<and>
    str2int64 m' \<lparr>str_s = Some p, str_len = int n\<rparr> r = Some (0, l)"
proof -
  obtain m' j where res: "int2bstr l m s = Some (m', s + j, 21 - int j)" and j: "j \<le> 20"
    and l: "length m' = length m" and z: "m' ! (s + 21) = NUL"
    and same: "\<And>x. x < s \<or> s + INT2STR_MAX_LEN \<le> x \<Longrightarrow> m' ! x = m ! x"
    and dig: "\<forall>c \<in> set (seg m' (s + j) (s + 21)). is_digit c" and val: "dec_val (seg m' (s + j) (s + 21)) = unat l"
    using int2bstr_ok [OF assms, of l] by blast
  define n where "n = 21 - j"
  have n: "21 - int j = int n" "s + j + n = s + 21" "0 < n" using j by (auto simp: n_def)
  let ?x = "\<lparr>str_s = Some (s + j), str_len = int n\<rparr>"
  have tx: "str_text m' ?x = seg m' (s + j) (s + 21)"
    using n by (simp add: str_text_def add.assoc)
  have tw: "takeWhile is_digit (seg m' (s + j) (s + 21)) = seg m' (s + j) (s + 21)"
    using dig by simp
  have "str_in m' ?x" using n l assms by (simp add: str_in_def)
  then have "digits_loop m' (s + j) n 0 (0 :: 64 word) = Some (0, of_nat (unat l))"
    using digits_loop_str [of m' ?x "s + j", where 'w = 64, unfolded tx Let_def tw] val n
    by simp
  then have "str2int64 m' ?x r = Some (0, l)"
    using n by (simp add: str2int64_def)
  then show ?thesis
    using res n z same by (intro exI [of _ m'] exI [of _ "s + j"] exI [of _ n]) (simp add: add.assoc)
qed

theorem int2bstr_str2int64_roundtrip_witness:
  "\<exists>m' p n. int2bstr 40 (replicate 22 NUL) 0 = Some (m', p, int n) \<and>
    str2int64 m' \<lparr>str_s = Some p, str_len = int n\<rparr> 0 = Some (0, 40)"
  using int2bstr_str2int64_roundtrip [of 0 "replicate 22 NUL" 40 0] by auto

text \<open>
  A number written by \<^verbatim>\<open>int2reverse_hex\<close> with enough space (return code 1) is read back by
  \<^verbatim>\<open>reverse_hex2int\<close>; the digits fill exactly the space that \<^verbatim>\<open>*size\<close> lost.
\<close>

theorem reverse_hex_roundtrip:
  assumes "int2reverse_hex sz (nr :: 32 word) = (cs, sz', 1)" and "seg m c (c + length cs) = cs"
    and "c + length cs \<le> length m"
  shows "reverse_hex2int m c (int (length cs)) = Some (0, nr) \<and> length cs + sz' = sz"
proof (cases "sz \<noteq> 0 \<and> nr = 0")
  case True
  then have cs: "cs = [CHR ''0'']" "sz' = sz - 1"
    using assms(1) by (auto simp: int2reverse_hex_def)
  moreover have "hex_digit CHR ''0'' = Some 0"
    by (simp add: hex_digit_def schar_def uchar_def)
  ultimately show ?thesis
    using reverse_hex_loop_eq [of c "length cs" m False "0 :: 32 word"] assms(2,3) True
    by (simp add: reverse_hex2int_def base_val_Cons)
next
  case False
  then have rd: "reverse_hex_digits sz nr = (cs, sz', 0)"
    using assms(1) by (auto simp: int2reverse_hex_def Let_def split: prod.splits if_splits)
  from reverse_hex_digits_ok [OF rd] show ?thesis
    using reverse_hex_loop_eq [of c "length cs" m False "0 :: 32 word"] assms(2,3)
    by (simp add: reverse_hex2int_def)
qed

theorem reverse_hex_roundtrip_witness:
  "int2reverse_hex 4 (0x2f :: 32 word) = (''f2'', 2, 1) \<and> reverse_hex2int ''f2'' 0 2 = Some (0, 0x2f)"
proof -
  have h: "int2reverse_hex 4 (0x2f :: 32 word) = (''f2'', 2, 1)" by code_simp
  show ?thesis using h reverse_hex_roundtrip [OF h, of "''f2''" 0] by (simp add: seg_def)
qed

text \<open>
  \<^verbatim>\<open>un_escape\<close> decodes exactly the user parts whose escapes are complete, hexadecimal and denote
  printable characters (the reference decoder \<open>unesc\<close>): it then returns the length of the decoded
  text and has stored that text; it returns -1 on every other input.
\<close>

theorem un_escape_correct:
  assumes "0 \<le> len" and "s + nat len \<le> length m"
  shows "\<exists>rc out. un_escape m s len (Some d) = Some (rc, out) \<and>
    (case unesc (seg m s (s + nat len)) of
       Some us \<Rightarrow> rc = int (length us) \<and> out = us
     | None \<Rightarrow> rc = -1)"
  using un_escape_loop_refines [of s "nat len" m 0 "[]"] assms
  by (auto simp: un_escape_def split: option.splits)

theorem un_escape_correct_witness:
  "un_escape ''a%41b'' 0 5 (Some 9) = Some (3, ''aAb'') \<and> (\<exists>out. un_escape ''a%0Ab'' 0 5 (Some 9) = Some (-1, out))"
proof -
  have "unesc ''a%41b'' = Some ''aAb''" "unesc ''a%0Ab'' = None" by code_simp+
  then show ?thesis
    using un_escape_correct [of 5 0 "''a%41b''" 9] un_escape_correct [of 5 0 "''a%0Ab''" 9]
    by (simp add: seg_def)
qed

text \<open>\<^verbatim>\<open>is_e164\<close> returns 1 exactly for a plus sign followed by 2 to 15 digits, and -1 otherwise.\<close>

theorem is_e164_correct:
  assumes "0 \<le> len" and "s + nat len \<le> length m"
  shows "is_e164 m s len = Some (if 2 < len \<and> len < 17 \<and> hd (seg m s (s + nat len)) = CHR ''+'' \<and>
    (\<forall>c \<in> set (tl (seg m s (s + nat len))). is_digit c) then 1 else -1)"
proof (cases "2 < len \<and> len < 17")
  case True
  then have "seg m s (s + nat len) = m ! s # seg m (s + 1) (s + nat len)"
    using assms by (simp add: seg_Cons)
  moreover have "s < length m" "1 \<le> nat len" using True assms by auto
  ultimately show ?thesis
    using True assms e164_loop_eq [of s "nat len" m 1] by (simp add: is_e164_def)
next
  case False
  then show ?thesis unfolding is_e164_def by auto
qed

theorem is_e164_correct_witness:
  "is_e164 ''+12025550123'' 0 12 = Some 1 \<and> is_e164 ''12025550123'' 0 11 = Some (-1)"
  using is_e164_correct [of 12 0 "''+12025550123''"] is_e164_correct [of 11 0 "''12025550123''"]
  by (simp add: seg_def is_digit_iff numeral_nat)

end
