(* ===== verification/Methods.thy ===== *)
theory Methods
  imports Parser_F Trim
begin

text \<open>
  \<^verbatim>\<open>parse_methods.c\<close>: recognising the request method names (case-insensitively) and the comma separated
  lists of methods of an Allow header. Methods are bits of a 32-bit mask (\<^verbatim>\<open>enum request_method\<close>).
  The hand-written decision tree of \<^verbatim>\<open>parse_method\<close> is proved equal to a lookup in a table of names.
\<close>

section \<open>The code\<close>

type_synonym method_id = "32 word"

abbreviation METHOD_UNDEF :: method_id where "METHOD_UNDEF \<equiv> 0"
abbreviation METHOD_INVITE :: method_id where "METHOD_INVITE \<equiv> 1"
abbreviation METHOD_CANCEL :: method_id where "METHOD_CANCEL \<equiv> 2"
abbreviation METHOD_ACK :: method_id where "METHOD_ACK \<equiv> 4"
abbreviation METHOD_BYE :: method_id where "METHOD_BYE \<equiv> 8"
abbreviation METHOD_INFO :: method_id where "METHOD_INFO \<equiv> 16"
abbreviation METHOD_OPTIONS :: method_id where "METHOD_OPTIONS \<equiv> 32"
abbreviation METHOD_UPDATE :: method_id where "METHOD_UPDATE \<equiv> 64"
abbreviation METHOD_REGISTER :: method_id where "METHOD_REGISTER \<equiv> 128"
abbreviation METHOD_MESSAGE :: method_id where "METHOD_MESSAGE \<equiv> 256"
abbreviation METHOD_SUBSCRIBE :: method_id where "METHOD_SUBSCRIBE \<equiv> 512"
abbreviation METHOD_NOTIFY :: method_id where "METHOD_NOTIFY \<equiv> 1024"
abbreviation METHOD_PRACK :: method_id where "METHOD_PRACK \<equiv> 2048"
abbreviation METHOD_REFER :: method_id where "METHOD_REFER \<equiv> 4096"
abbreviation METHOD_PUBLISH :: method_id where "METHOD_PUBLISH \<equiv> 8192"
abbreviation METHOD_OTHER :: method_id where "METHOD_OTHER \<equiv> 16384"

definition method_char :: "char \<Rightarrow> bool" where
  "method_char c \<longleftrightarrow> (65 \<le> schar c \<and> schar c \<le> 90) \<or> (97 \<le> schar c \<and> schar c \<le> 122) \<or>
     (48 \<le> schar c \<and> schar c \<le> 57) \<or>
     c \<in> {CHR ''-'', CHR ''.'', CHR ''!'', CHR ''%'', CHR ''*'', CHR ''_'', CHR ''+'', CHR 0x60, CHR 0x27, CHR ''~''}"

definition method_sep :: "char \<Rightarrow> bool" where
  "method_sep c \<longleftrightarrow> c \<in> {NUL, CHR '','', SPC, TAB, CR, LF}"

text \<open>
  \<open>try_name\<close> is a test \<^verbatim>\<open>(start[i]=='x' || start[i]=='X') && ...\<close> that goes to \<^verbatim>\<open>done\<close> with the method and
  its length (\<open>Some\<close>), or falls through. \<open>too_short k\<close> is \<^verbatim>\<open>end && max < k\<close>.
\<close>

definition try_name :: "mem \<Rightarrow> ptr \<Rightarrow> char list \<Rightarrow> method_id \<Rightarrow> nat \<Rightarrow>
    (method_id \<times> nat) option option \<Rightarrow> (method_id \<times> nat) option option" where
  "try_name m p lit meth len els = do {
     b \<leftarrow> strncaseeq m p lit;
     if b then Some (Some (meth, len)) else els }"

definition is_ci :: "char \<Rightarrow> char \<Rightarrow> bool" where
  "is_ci c d \<longleftrightarrow> tolower_c c = tolower_c d"

text \<open>The \<^verbatim>\<open>switch (start[0])\<close>: \<open>Some (meth, len)\<close> is \<^verbatim>\<open>goto done\<close>, \<open>None\<close> inside is \<^verbatim>\<open>goto unknown\<close>.\<close>

definition method_switch :: "mem \<Rightarrow> ptr \<Rightarrow> bool \<Rightarrow> nat \<Rightarrow> (method_id \<times> nat) option option" where
  "method_switch m start has_end mx = do {
     let too_short = (\<lambda>k. has_end \<and> mx < k);
     c \<leftarrow> rd m start;
     if is_ci c CHR ''A'' then
       (if too_short 3 then Some None
        else try_name m (start + 1) ''ck'' METHOD_ACK 3 (Some None))
     else if is_ci c CHR ''B'' then
       (if too_short 3 then Some None
        else try_name m (start + 1) ''ye'' METHOD_BYE 3 (Some None))
     else if is_ci c CHR ''C'' then
       (if too_short 6 then Some None
        else try_name m (start + 1) ''ancel'' METHOD_CANCEL 6 (Some None))
     else if is_ci c CHR ''I'' then
       (if too_short 4 then Some None
        else do {
          n \<leftarrow> strncaseeq m (start + 1) ''n'';
          if \<not> n then Some None
          else try_name m (start + 2) ''fo'' METHOD_INFO 4
            (if too_short 6 then Some None
             else try_name m (start + 2) ''vite'' METHOD_INVITE 6 (Some None)) })
     else if is_ci c CHR ''M'' then
       (if too_short 7 then Some None
        else try_name m (start + 1) ''essage'' METHOD_MESSAGE 7 (Some None))
     else if is_ci c CHR ''N'' then
       (if too_short 6 then Some None
        else try_name m (start + 1) ''otify'' METHOD_NOTIFY 6 (Some None))
     else if is_ci c CHR ''O'' then
       (if too_short 7 then Some None
        else try_name m (start + 1) ''ptions'' METHOD_OPTIONS 7 (Some None))
     else if is_ci c CHR ''P'' then
       (if too_short 5 then Some None
        else try_name m (start + 1) ''rack'' METHOD_PRACK 5
          (if too_short 7 then Some None
           else try_name m (start + 1) ''ublish'' METHOD_PUBLISH 7 (Some None)))
     else if is_ci c CHR ''R'' then
       (if too_short 5 then Some None
        else do {
          n \<leftarrow> strncaseeq m (start + 1) ''e'';
          if \<not> n then Some None
          else try_name m (start + 2) ''fer'' METHOD_REFER 5
            (if too_short 8 then Some None
             else try_name m (start + 2) ''gister'' METHOD_REGISTER 8 (Some None)) })
     else if is_ci c CHR ''S'' then
       (if too_short 9 then Some None
        else try_name m (start + 1) ''ubscribe'' METHOD_SUBSCRIBE 9 (Some None))
     else if is_ci c CHR ''U'' then
       (if too_short 6 then Some None
        else try_name m (start + 1) ''pdate'' METHOD_UPDATE 6 (Some None))
     else Some None }"

text \<open>The two loops at \<^verbatim>\<open>unknown\<close>, with and without an end pointer.\<close>

function unknown_loop :: "mem \<Rightarrow> ptr \<Rightarrow> ptr \<Rightarrow> nat \<Rightarrow> ptr option option" where
  "unknown_loop m start end len =
     (if len < end - start then do {
        c \<leftarrow> rd m (start + len);
        if method_sep c then Some (Some (start + len))
        else if \<not> method_char c then Some None
        else unknown_loop m start end (Suc len) }
      else Some (Some end))"
  by pat_completeness auto
termination
  by (relation "measure (\<lambda>(m, start, end, len). (end - start) - len)") auto

function unknown_loop_z :: "mem \<Rightarrow> ptr \<Rightarrow> nat \<Rightarrow> ptr option option" where
  "unknown_loop_z m start len =
     (case rd m (start + len) of
        None \<Rightarrow> None
      | Some c \<Rightarrow>
          if method_sep c then Some (Some (start + len))
          else if \<not> method_char c then Some None
          else unknown_loop_z m start (Suc len))"
  by pat_completeness auto
termination
  by (relation "measure (\<lambda>(m, start, len). length m - (start + len))") (auto simp: rd_eq_Some)

declare unknown_loop.simps [simp del] unknown_loop_z.simps [simp del]

text \<open>\<^verbatim>\<open>parse_method\<close>: the returned pointer (\<open>None\<close> for \<^verbatim>\<open>NULL\<close>) and \<^verbatim>\<open>*method\<close>.\<close>

definition parse_method ::
  "mem \<Rightarrow> ptr option \<Rightarrow> ptr option \<Rightarrow> method_id \<Rightarrow> (ptr option \<times> method_id) option" where
  "parse_method m start end meth0 =
     (case start of
        None \<Rightarrow> Some (None, meth0)
      | Some s \<Rightarrow>
          (let has_end = (end \<noteq> None);
               mx = (case end of None \<Rightarrow> 0 | Some e \<Rightarrow> e - s);
               unknown = (\<lambda>len. do {
                 r \<leftarrow> (case end of None \<Rightarrow> unknown_loop_z m s len | Some e \<Rightarrow> unknown_loop m s e len);
                 Some (r, METHOD_OTHER) })
           in do {
             k \<leftarrow> method_switch m s has_end mx;
             case k of
               None \<Rightarrow> unknown 0
             | Some (meth, len) \<Rightarrow>
                 if \<not> has_end \<or> len < mx then do {
                   c \<leftarrow> rd m (s + len);
                   if \<not> method_sep c then unknown len else Some (Some (s + len), meth) }
                 else Some (Some (s + len), meth) }))"

text \<open>
  \<^verbatim>\<open>parse_methods\<close>: the loop over \<^verbatim>\<open>p\<close> with the mask collected so far; the pair is the return code and
  \<^verbatim>\<open>*_methods\<close>.
\<close>

partial_function (option) parse_methods_loop ::
  "mem \<Rightarrow> ptr \<Rightarrow> ptr \<Rightarrow> method_id \<Rightarrow> method_id \<Rightarrow> (int \<times> method_id) option" where
  "parse_methods_loop m e p meth acc =
     (if p < e then
        Option.bind (parse_method m (Some p) (Some e) meth) (\<lambda>(r, meth').
          case r of
            None \<Rightarrow> Some (-1, acc)
          | Some p0 \<Rightarrow>
              Option.bind (scan_while is_ws m p0 e) (\<lambda>p1.
                if p1 \<ge> e then Some (0, or acc meth')
                else Option.bind (rd m p1) (\<lambda>c.
                  if c = NUL then Some (0, or acc meth')
                  else if c = CHR '','' then
                    Option.bind (scan_while is_ws m (Suc p1) e) (\<lambda>p2.
                      if p2 \<ge> e then Some (0, or acc meth')
                      else parse_methods_loop m e p2 meth' (or acc meth'))
                  else Some (-1, or acc meth'))))
      else Some (0, acc))"

definition parse_methods :: "mem \<Rightarrow> str option \<Rightarrow> method_id \<Rightarrow> (int \<times> method_id) option" where
  "parse_methods m body acc0 =
     (case body of
        None \<Rightarrow> Some (-1, acc0)
      | Some b \<Rightarrow>
          (case str_s b of
             None \<Rightarrow> if str_len b \<le> 0 then Some (0, 0) else None
           | Some s0 \<Rightarrow> do {
               (s, len) \<leftarrow> trim_leading m s0 (str_len b);
               if len = 0 then Some (0, 0) else parse_methods_loop m (s + nat len) s 0 0 }))"

section \<open>The table of methods\<close>

definition method_table :: "(char list \<times> method_id) list" where
  "method_table =
     [(''ack'', METHOD_ACK), (''bye'', METHOD_BYE), (''cancel'', METHOD_CANCEL),
      (''info'', METHOD_INFO), (''invite'', METHOD_INVITE), (''message'', METHOD_MESSAGE),
      (''notify'', METHOD_NOTIFY), (''options'', METHOD_OPTIONS), (''prack'', METHOD_PRACK),
      (''publish'', METHOD_PUBLISH), (''refer'', METHOD_REFER), (''register'', METHOD_REGISTER),
      (''subscribe'', METHOD_SUBSCRIBE), (''update'', METHOD_UPDATE)]"

definition method_token :: "mem \<Rightarrow> ptr \<Rightarrow> ptr \<Rightarrow> char list" where
  "method_token m s e = takeWhile (\<lambda>c. \<not> method_sep c) (seg m s e)"

definition spec_method :: "char list \<Rightarrow> method_id" where
  "spec_method tok = (case map_of method_table (map tolower_c tok) of Some k \<Rightarrow> k | None \<Rightarrow> METHOD_OTHER)"

section \<open>The decision tree is the table\<close>

definition prefix_lookup :: "char list \<Rightarrow> (method_id \<times> nat) option" where
  "prefix_lookup ys =
     (case find (\<lambda>(n, k). take (length n) ys = n) method_table of
        None \<Rightarrow> None | Some (n, k) \<Rightarrow> Some (k, length n))"

lemma try_name_eq:
  assumes "p + length lit \<le> e" and "e \<le> length m" and "map tolower_c lit = lit"
  shows "try_name m p lit k n els =
    (if take (length lit) (map tolower_c (seg m p e)) = lit then Some (Some (k, n)) else els)"
proof -
  have "take (length lit) (seg m p e) = seg m p (p + length lit)"
    using assms by (simp add: seg_def)
  then show ?thesis
    using assms by (simp add: try_name_def mem_simps take_map)
qed

lemma take_eq_short: "length xs < length l \<Longrightarrow> take n xs \<noteq> l"
  by (metis length_take linorder_not_less min.bounded_iff nle_le)

text \<open>One character of the tree and the rest of the token.\<close>

lemma method_switch_table:
  assumes "s < e" and "e \<le> length m"
  shows "method_switch m s True (e - s) = Some (prefix_lookup (map tolower_c (seg m s e)))"
proof -
  define y where "y = tolower_c (m ! s)"
  define zs where "zs = map tolower_c (seg m (s + 1) e)"
  have ys: "map tolower_c (seg m s e) = y # zs"
    using assms by (simp add: seg_Cons y_def zs_def)
  have len: "length zs = e - s - 1"
    using assms by (simp add: zs_def)
  have one: "try_name m (Suc s) lit k n els = (if take (length lit) zs = lit then Some (Some (k, n)) else els)"
    if "length lit < e - s" "map tolower_c lit = lit" for lit k n els
    using that assms try_name_eq [of "s + 1" lit e m k n els] by (simp add: zs_def)
  have two: "try_name m (Suc (Suc s)) lit k n els = (if take (length lit) (tl zs) = lit then Some (Some (k, n)) else els)"
    if "length lit + 1 < e - s" "map tolower_c lit = lit" for lit k n els
  proof -
    have "tl zs = map tolower_c (seg m (s + 2) e)"
      using that assms by (simp add: zs_def seg_Cons)
    then show ?thesis
      using that assms try_name_eq [of "s + 2" lit e m k n els] by simp
  qed
  have ch: "strncaseeq m (Suc s) [d] = Some (take 1 zs = [d])"
    if "1 < e - s" "tolower_c d = d" for d
    using that assms by (simp add: zs_def seg_Cons)
  have c: "rd m s = Some (m ! s)" using assms by simp
  have ci: "is_ci (m ! s) d \<longleftrightarrow> y = tolower_c d" for d
    by (simp add: is_ci_def y_def)
  have short: "\<not> take n zs = l" if "e - s \<le> length l" for n l
    using that len assms(1) by (intro take_eq_short) simp
  have short2: "\<not> take n (tl zs) = l" if "e - s \<le> Suc (length l)" and "l \<noteq> []" for n l
    using that len assms(1) by (intro take_eq_short) (cases l; simp)
  consider "y = CHR ''a''" | "y = CHR ''b''" | "y = CHR ''c''" | "y = CHR ''i''" | "y = CHR ''m''"
    | "y = CHR ''n''" | "y = CHR ''o''" | "y = CHR ''p''" | "y = CHR ''r''" | "y = CHR ''s''"
    | "y = CHR ''u''" | "y \<notin> {CHR ''a'', CHR ''b'', CHR ''c'', CHR ''i'', CHR ''m'', CHR ''n'',
        CHR ''o'', CHR ''p'', CHR ''r'', CHR ''s'', CHR ''u''}"
    by blast
  then show ?thesis
  proof cases
    case 1
    then show ?thesis
      unfolding method_switch_def ys c
      by (auto simp: Let_def ci prefix_lookup_def method_table_def one two ch short short2
          simp del: strncaseeq.simps)
  next
    case 2
    then show ?thesis
      unfolding method_switch_def ys c
      by (auto simp: Let_def ci prefix_lookup_def method_table_def one two ch short short2
          simp del: strncaseeq.simps)
  next
    case 3
    then show ?thesis
      unfolding method_switch_def ys c
      by (auto simp: Let_def ci prefix_lookup_def method_table_def one two ch short short2
          simp del: strncaseeq.simps)
  next
    case 4
    then show ?thesis
      unfolding method_switch_def ys c using short short2
      by (cases zs) (auto simp: Let_def ci prefix_lookup_def method_table_def one two ch take_eq_short
          simp del: strncaseeq.simps)
  next
    case 5
    then show ?thesis
      unfolding method_switch_def ys c
      by (auto simp: Let_def ci prefix_lookup_def method_table_def one two ch short short2
          simp del: strncaseeq.simps)
  next
    case 6
    then show ?thesis
      unfolding method_switch_def ys c
      by (auto simp: Let_def ci prefix_lookup_def method_table_def one two ch short short2
          simp del: strncaseeq.simps)
  next
    case 7
    then show ?thesis
      unfolding method_switch_def ys c
      by (auto simp: Let_def ci prefix_lookup_def method_table_def one two ch short short2
          simp del: strncaseeq.simps)
  next
    case 8
    then show ?thesis
      unfolding method_switch_def ys c
      by (auto simp: Let_def ci prefix_lookup_def method_table_def one two ch short short2
          simp del: strncaseeq.simps)
  next
    case 9
    then show ?thesis
      unfolding method_switch_def ys c using short short2
      by (cases zs) (auto simp: Let_def ci prefix_lookup_def method_table_def one two ch take_eq_short
          simp del: strncaseeq.simps)
  next
    case 10
    then show ?thesis
      unfolding method_switch_def ys c
      by (auto simp: Let_def ci prefix_lookup_def method_table_def one two ch short short2
          simp del: strncaseeq.simps)
  next
    case 11
    then show ?thesis
      unfolding method_switch_def ys c
      by (auto simp: Let_def ci prefix_lookup_def method_table_def one two ch short short2
          simp del: strncaseeq.simps)
  next
    case 12
    then show ?thesis
      unfolding method_switch_def ys c
      by (auto simp: Let_def ci prefix_lookup_def method_table_def one two ch short short2
          simp del: strncaseeq.simps)
  qed
qed

lemma table_letters: "(n, k) \<in> set method_table \<Longrightarrow> x \<in> set n \<Longrightarrow> 97 \<le> uchar x \<and> uchar x \<le> 122"
  by (auto simp: method_table_def uchar_def)

lemma table_prefix_free:
  "(n, k) \<in> set method_table \<Longrightarrow> (n', k') \<in> set method_table \<Longrightarrow> take (length n) n' = n \<Longrightarrow> n' = n"
proof -
  have "list_all (\<lambda>(n, k). list_all (\<lambda>(n', k'). take (length n) n' = n \<longrightarrow> n' = n) method_table) method_table"
    by (simp add: method_table_def)
  then show "(n, k) \<in> set method_table \<Longrightarrow> (n', k') \<in> set method_table \<Longrightarrow> take (length n) n' = n \<Longrightarrow> n' = n"
    by (fastforce simp: list_all_iff)
qed

lemma table_distinct: "distinct (map fst method_table)"
  by (simp add: method_table_def)

lemma tolower_letter:
  assumes "97 \<le> uchar (tolower_c c)" and "uchar (tolower_c c) \<le> 122"
  shows "method_char c" and "\<not> method_sep c"
proof -
  have "(65 \<le> uchar c \<and> uchar c \<le> 90) \<or> (97 \<le> uchar c \<and> uchar c \<le> 122)"
    using assms by (auto simp: tolower_c_def split: if_splits)
  then show "method_char c" and "\<not> method_sep c"
    by (auto simp: method_char_def schar_def method_sep_def uchar_def)
qed

lemma prefix_lookup_NoneD:
  assumes "prefix_lookup ys = None"
  shows "map_of method_table (take n ys) = None"
proof (rule ccontr)
  assume "map_of method_table (take n ys) \<noteq> None"
  then obtain k where k: "(take n ys, k) \<in> set method_table"
    using map_of_SomeD by fastforce
  have "\<not> take (length (take n ys)) ys = take n ys"
    using assms k by (auto simp: prefix_lookup_def find_None_iff split: option.splits prod.splits)
  then show False by (simp add: take_Cons' min_def split: if_splits)
qed

lemma prefix_lookup_SomeD:
  assumes "prefix_lookup ys = Some (k, l)"
  obtains n where "(n, k) \<in> set method_table" and "l = length n" and "take l ys = n"
proof -
  obtain n where f: "find (\<lambda>(n, k). take (length n) ys = n) method_table = Some (n, k)" and l: "l = length n"
    using assms by (auto simp: prefix_lookup_def split: option.splits)
  then obtain i where "i < length method_table" "method_table ! i = (n, k)" "take (length n) ys = n"
    by (auto simp: find_Some_iff)
  then show thesis
    using l nth_mem by (intro that [of n]) fastforce+
qed

lemma unknown_loop_eq:
  assumes "e \<le> length m" and "s + len \<le> e"
  shows "unknown_loop m s e len =
    (let t = takeWhile (\<lambda>c. \<not> method_sep c) (seg m (s + len) e)
     in Some (if \<forall>c \<in> set t. method_char c then Some (s + len + length t) else None))"
  using assms(2)
proof (induction "e - (s + len)" arbitrary: len)
  case 0
  then show ?case by (subst unknown_loop.simps) simp
next
  case (Suc n)
  then have lt: "s + len < e" and n: "n = e - (s + Suc len)" by auto
  have seg: "seg m (s + len) e = m ! (s + len) # seg m (s + Suc len) e"
    using lt assms(1) by (simp add: seg_Cons)
  have unf: "unknown_loop m s e len =
      (if method_sep (m ! (s + len)) then Some (Some (s + len))
       else if \<not> method_char (m ! (s + len)) then Some None else unknown_loop m s e (Suc len))"
    using lt assms(1) by (subst unknown_loop.simps) auto
  show ?case
    unfolding unf seg using Suc.hyps(1) [OF n] lt by (auto simp: Let_def)
qed

lemma token_prefix:
  assumes "e \<le> length m" and "(n, k) \<in> set method_table" and "take (length n) (map tolower_c (seg m s e)) = n"
  shows "length n \<le> e - s" and "\<forall>c \<in> set (take (length n) (seg m s e)). method_char c \<and> \<not> method_sep c"
    and "method_token m s e = take (length n) (seg m s e) @
      takeWhile (\<lambda>c. \<not> method_sep c) (seg m (s + length n) e)"
proof -
  have "length (take (length n) (map tolower_c (seg m s e))) = length n"
    using assms(3) by simp
  then show le: "length n \<le> e - s"
    using assms(1) by simp
  have "tolower_c c \<in> set n" if "c \<in> set (take (length n) (seg m s e))" for c
    using that assms(3) by (metis imageI list.set_map take_map)
  then show all: "\<forall>c \<in> set (take (length n) (seg m s e)). method_char c \<and> \<not> method_sep c"
    using table_letters [OF assms(2)] tolower_letter by blast
  have "seg m s e = take (length n) (seg m s e) @ drop (length n) (seg m s e)" by simp
  moreover have "drop (length n) (seg m s e) = seg m (s + length n) e"
    by (simp add: seg_def drop_take add.commute diff_diff_left)
  ultimately show "method_token m s e = take (length n) (seg m s e) @
      takeWhile (\<lambda>c. \<not> method_sep c) (seg m (s + length n) e)"
    unfolding method_token_def using all by (metis takeWhile_append2)
qed

lemma map_of_token_longer:
  assumes "(n, k) \<in> set method_table" and "take (length n) ys = n" and "length n < length ys"
  shows "map_of method_table ys = None"
proof (rule ccontr)
  assume "map_of method_table ys \<noteq> None"
  then obtain k' where "(ys, k') \<in> set method_table"
    using map_of_SomeD by fastforce
  from table_prefix_free [OF assms(1) this assms(2)] assms(3) show False by simp
qed

lemma parse_method_table:
  assumes "s < e" and "e \<le> length m"
  shows "parse_method m (Some s) (Some e) meth0 =
    (let tok = method_token m s e; k = spec_method tok
     in Some (if k \<noteq> METHOD_OTHER \<or> (\<forall>c \<in> set tok. method_char c) then Some (s + length tok) else None, k))"
proof -
  let ?ys = "map tolower_c (seg m s e)"
  let ?tok = "method_token m s e"
  have "?tok = take (length ?tok) (seg m s e)"
    unfolding method_token_def by (rule takeWhile_eq_take)
  then have tok: "map tolower_c ?tok = take (length ?tok) ?ys"
    by (metis take_map)
  show ?thesis
  proof (cases "prefix_lookup ?ys")
    case None
    then have "spec_method ?tok = METHOD_OTHER"
      using prefix_lookup_NoneD by (simp add: spec_method_def tok)
    moreover have "parse_method m (Some s) (Some e) meth0 = do { r \<leftarrow> unknown_loop m s e 0; Some (r, METHOD_OTHER) }"
      using None method_switch_table [OF assms] by (simp add: parse_method_def)
    ultimately show ?thesis
      using unknown_loop_eq [of e m s 0] assms by (simp add: Let_def method_token_def)
  next
    case (Some kl)
    obtain k l where kl: "kl = (k, l)" by (cases kl)
    from Some kl obtain n where n: "(n, k) \<in> set method_table" "l = length n" "take l ?ys = n"
      by (auto elim: prefix_lookup_SomeD)
    note pre = token_prefix [OF assms(2) n(1), of s] n
    let ?rest = "takeWhile (\<lambda>c. \<not> method_sep c) (seg m (s + l) e)"
    have le: "l \<le> e - s" and tokeq: "?tok = take l (seg m s e) @ ?rest"
      and good: "\<forall>c \<in> set (take l (seg m s e)). method_char c"
      using pre by auto
    have unk: "unknown_loop m s e l = Some (if \<forall>c \<in> set ?rest. method_char c then Some (s + l + length ?rest) else None)"
      using unknown_loop_eq [of e m s l] le assms by (simp add: Let_def)
    have sw: "method_switch m s True (e - s) = Some (Some (k, l))"
      using method_switch_table [OF assms] Some kl by simp
    have lent: "length ?tok = l + length ?rest"
      using tokeq le assms(2) by simp
    have known: "spec_method ?tok = k" if "?rest = []"
    proof -
      have "map tolower_c ?tok = n"
        using that tokeq n(3) by (simp add: take_map)
      then show ?thesis
        using n(1) table_distinct by (simp add: spec_method_def)
    qed
    have other: "spec_method ?tok = METHOD_OTHER" if "?rest \<noteq> []"
    proof -
      have "take (length n) (map tolower_c ?tok) = n"
        using tokeq n le assms(2) by (simp add: take_map)
      moreover have "length n < length (map tolower_c ?tok)"
        using that lent n(2) by simp
      ultimately show ?thesis
        using map_of_token_longer [OF n(1)] by (simp add: spec_method_def)
    qed
    have knz: "k \<noteq> METHOD_OTHER"
      using n(1) by (auto simp: method_table_def)
    show ?thesis
    proof (cases "?rest = []")
      case True
      then have "\<not> (l < e - s) \<or> method_sep (m ! (s + l))"
        using assms by (auto simp: seg_Cons split: if_splits)
      then have "parse_method m (Some s) (Some e) meth0 = Some (Some (s + l), k)"
        using sw assms by (auto simp: parse_method_def)
      then show ?thesis
        using known [OF True] True lent knz by (simp add: Let_def)
    next
      case False
      then have lt: "l < e - s"
        by (cases "s + l < e") auto
      moreover have "\<not> method_sep (m ! (s + l))"
        using False lt assms by (simp add: seg_Cons split: if_splits)
      ultimately have "parse_method m (Some s) (Some e) meth0 = do { r \<leftarrow> unknown_loop m s e l; Some (r, METHOD_OTHER) }"
        using sw assms by (simp add: parse_method_def)
      then show ?thesis
        using other [OF False] lent good unk unfolding tokeq
        by (simp add: Let_def ball_Un)
    qed
  qed
qed

lemma parse_method_bounds:
  assumes "s < e" and "e \<le> length m"
  shows "\<exists>r k. parse_method m (Some s) (Some e) meth0 = Some (r, k) \<and>
    (case r of None \<Rightarrow> True | Some q \<Rightarrow> s \<le> q \<and> q \<le> e)"
proof -
  have "length (method_token m s e) \<le> e - s"
    using length_takeWhile_le [of "\<lambda>c. \<not> method_sep c" "seg m s e"] assms(2)
    by (simp add: method_token_def)
  then show ?thesis
    using parse_method_table [OF assms, of meth0] assms by (auto simp: Let_def)
qed

section \<open>Lists of methods\<close>

text \<open>The loop returns and never reads outside the buffer: every turn consumes a comma.\<close>

lemma parse_methods_loop_total:
  assumes "e \<le> length m"
  shows "\<exists>rc k. parse_methods_loop m e p meth acc = Some (rc, k) \<and> rc \<in> {0, -1}"
proof (induction "e - p" arbitrary: p meth acc rule: less_induct)
  case less
  show ?case
  proof (cases "p < e")
    case False
    then show ?thesis by (simp add: parse_methods_loop.simps)
  next
    case True
    obtain r meth' where pm: "parse_method m (Some p) (Some e) meth = Some (r, meth')"
      and rb: "case r of None \<Rightarrow> True | Some q \<Rightarrow> p \<le> q \<and> q \<le> e"
      using parse_method_bounds [OF True assms] by blast
    show ?thesis
    proof (cases r)
      case None
      with True pm show ?thesis by (simp add: parse_methods_loop.simps)
    next
      case (Some p0)
      with rb have p0: "p \<le> p0" "p0 \<le> e" by auto
      obtain p1 where p1: "scan_while is_ws m p0 e = Some p1" "p0 \<le> p1" "p1 \<le> e"
        using sw.scan_total [OF p0(2) assms] by metis
      have step: "parse_methods_loop m e p meth acc =
          (if p1 \<ge> e then Some (0, or acc meth')
           else if m ! p1 = NUL then Some (0, or acc meth')
           else if m ! p1 = CHR '','' then
             Option.bind (scan_while is_ws m (Suc p1) e) (\<lambda>p2.
               if p2 \<ge> e then Some (0, or acc meth')
               else parse_methods_loop m e p2 meth' (or acc meth'))
           else Some (-1, or acc meth'))"
        using True pm Some p1 assms by (subst parse_methods_loop.simps) simp
      show ?thesis
      proof (cases "p1 < e \<and> m ! p1 = CHR '',''")
        case False
        then show ?thesis by (auto simp: step)
      next
        case comma: True
        then obtain p2 where p2: "scan_while is_ws m (Suc p1) e = Some p2" "Suc p1 \<le> p2"
          using sw.scan_total [of "Suc p1" e m] assms by (metis Suc_leI)
        have "e - p2 < e - p" using p0 p1 p2 comma by linarith
        from less.hyps [OF this] show ?thesis
          using p2 comma by (auto simp: step)
      qed
    qed
  qed
qed

lemma method_char_token: "method_char c \<Longrightarrow> is_token_char c \<and> \<not> method_sep c"
  by (auto simp: method_char_def is_token_char_def method_sep_def schar_def uchar_def)

section \<open>Properties\<close>

text \<open>
  C34: \<^verbatim>\<open>parse_method\<close> with an end pointer is a case-insensitive lookup of the token before the first
  separator in the table of the 14 SIP methods: it returns the end of the token and the method's bit, or
  \<^verbatim>\<open>METHOD_OTHER\<close> for another well-formed token; a token with an invalid character gives \<^verbatim>\<open>NULL\<close>. No
  byte outside \<open>[s, e)\<close> is read.
\<close>

theorem parse_method_correct:
  assumes "s < e" and "e \<le> length m"
  shows "parse_method m (Some s) (Some e) meth0 =
    (let tok = method_token m s e; k = spec_method tok
     in Some (if k \<noteq> METHOD_OTHER \<or> (\<forall>c \<in> set tok. method_char c) then Some (s + length tok) else None, k))"
  using assms by (rule parse_method_table)

theorem parse_method_correct_witness:
  "parse_method ''ReGister,x'' (Some 0) (Some 10) 0 = Some (Some 8, METHOD_REGISTER)"
  using parse_method_correct [of 0 10 "''ReGister,x''" 0]
  by (simp add: Let_def method_token_def seg_def method_sep_def spec_method_def method_table_def)

text \<open>
  C35: \<^verbatim>\<open>parse_methods\<close> always returns, with 0 or -1, and reads only the bytes of its argument, whatever
  they are: every turn of its loop consumes a comma or stops.
\<close>

theorem parse_methods_returns:
  assumes "str_in m b" and "str_s b = Some s"
  shows "\<exists>rc k. parse_methods m (Some b) acc = Some (rc, k) \<and> rc \<in> {0, -1}"
proof -
  obtain q where q: "trim_leading m s (str_len b) = Some (q, str_len b - (int q - int s))"
    "s \<le> q" "q \<le> s + nat (str_len b)"
    using trim_leading_total [of s "str_len b" m] assms by (auto simp: str_in_def)
  have "q + nat (str_len b - (int q - int s)) \<le> length m"
    using q assms by (auto simp: str_in_def)
  from parse_methods_loop_total [OF this] show ?thesis
    using q(1) assms(2) by (auto simp: parse_methods_def)
qed

theorem parse_methods_returns_witness:
  "\<exists>rc k. parse_methods '' ACK, FOO,'' (Some \<lparr>str_s = Some 0, str_len = 10\<rparr>) 0 = Some (rc, k) \<and> rc \<in> {0, -1}"
  using parse_methods_returns [of "'' ACK, FOO,''" "\<lparr>str_s = Some 0, str_len = 10\<rparr>" 0 0]
  by (simp add: str_in_def)

end
