(* ===== verification/First_Line.thy ===== *)
theory First_Line
  imports Methods
begin

text \<open>
  \<^verbatim>\<open>parse_first_line\<close> of \<^verbatim>\<open>parse_fline.c\<close>: the request line or status line of a SIP message. The \<^verbatim>\<open>union\<close>
  of \<^verbatim>\<open>struct msg_start\<close> has members of one layout, so each of its four slots is one field here:
  \<^item> \<open>fl_method\<close>: \<^verbatim>\<open>u.request.method\<close> and \<^verbatim>\<open>u.reply.version\<close>;
  \<^item> \<open>fl_uri\<close>: \<^verbatim>\<open>u.request.uri\<close> and \<^verbatim>\<open>u.reply.status\<close>;
  \<^item> \<open>fl_version\<close>: \<^verbatim>\<open>u.request.version\<close> and \<^verbatim>\<open>u.reply.reason\<close>;
  \<^item> \<open>fl_value\<close>: \<^verbatim>\<open>u.request.method_value\<close> and \<^verbatim>\<open>u.reply.statuscode\<close>.
\<close>

section \<open>The code\<close>

datatype fl_kind = SIP_INVALID | SIP_REQUEST | SIP_REPLY

record msg_start =
  fl_type :: fl_kind
  fl_len :: int
  fl_method :: str
  fl_uri :: str
  fl_version :: str
  fl_value :: "32 word"

definition msg_start_zero :: msg_start where
  "msg_start_zero = \<lparr>fl_type = SIP_INVALID, fl_len = 0, fl_method = str_null, fl_uri = str_null,
     fl_version = str_null, fl_value = 0\<rparr>"

text \<open>
  The test of \<^verbatim>\<open>IFISMETHOD\<close> and of the reply check: a letter in either case, the rest of the name
  case-insensitively, and a space after it.
\<close>

definition is_method_at :: "mem \<Rightarrow> ptr \<Rightarrow> char \<Rightarrow> char list \<Rightarrow> bool option" where
  "is_method_at m p first rest = do {
     c \<leftarrow> rd m p;
     if is_ci c first then do {
       b \<leftarrow> strncaseeq m (p + 1) rest;
       if b then do { d \<leftarrow> rd m (p + 1 + length rest); Some (d = SPC) } else Some False }
     else Some False }"

text \<open>
  The classification by the first token: \<open>Inl fl\<close> is \<^verbatim>\<open>goto error1\<close>, \<open>Inr (tmp, fl)\<close> continues with
  \<^verbatim>\<open>tmp\<close> at the space after the token.
\<close>

definition set_known :: "ptr \<Rightarrow> nat \<Rightarrow> fl_kind \<Rightarrow> method_id \<Rightarrow> msg_start \<Rightarrow> (msg_start + ptr \<times> msg_start) option" where
  "set_known buffer n kind meth fl =
     Some (Inr (buffer + n, fl\<lparr>fl_type := kind, fl_method := (fl_method fl)\<lparr>str_len := int n\<rparr>, fl_value := meth\<rparr>))"

definition first_token_other :: "mem \<Rightarrow> ptr \<Rightarrow> nat \<Rightarrow> msg_start \<Rightarrow> (msg_start + ptr \<times> msg_start) option" where
  "first_token_other m buffer len fl = do {
     tmp \<leftarrow> eat_token_end m buffer (buffer + len);
     if tmp = buffer \<or> tmp \<ge> buffer + len then Some (Inl fl)
     else do {
       c \<leftarrow> rd m tmp;
       if c \<noteq> SPC then Some (Inl fl)
       else do {
         let fl1 = fl\<lparr>fl_type := SIP_REQUEST\<rparr>;
         (r, k) \<leftarrow> parse_method m (Some buffer) (Some tmp) (fl_value fl1);
         let fl2 = fl1\<lparr>fl_value := k\<rparr>;
         if r = None then Some (Inl fl2)
         else Some (Inr (tmp, fl2\<lparr>fl_method := (fl_method fl2)\<lparr>str_len := int tmp - int buffer\<rparr>\<rparr>)) } } }"

definition first_token :: "mem \<Rightarrow> ptr \<Rightarrow> nat \<Rightarrow> msg_start \<Rightarrow> (msg_start + ptr \<times> msg_start) option" where
  "first_token m buffer len fl = do {
     reply \<leftarrow> is_method_at m buffer CHR ''S'' ''IP/2.0'';
     if reply then set_known buffer 7 SIP_REPLY (fl_value fl) fl
     else do {
       invite \<leftarrow> is_method_at m buffer CHR ''I'' ''NVITE'';
       if invite then set_known buffer 6 SIP_REQUEST METHOD_INVITE fl
       else do {
         cancel \<leftarrow> is_method_at m buffer CHR ''C'' ''ANCEL'';
         if cancel then set_known buffer 6 SIP_REQUEST METHOD_CANCEL fl
         else do {
           ack \<leftarrow> is_method_at m buffer CHR ''A'' ''CK'';
           if ack then set_known buffer 3 SIP_REQUEST METHOD_ACK fl
           else do {
             bye \<leftarrow> is_method_at m buffer CHR ''B'' ''YE'';
             if bye then set_known buffer 3 SIP_REQUEST METHOD_BYE fl
             else do {
               info \<leftarrow> is_method_at m buffer CHR ''I'' ''NFO'';
               if info then set_known buffer 4 SIP_REQUEST METHOD_INFO fl
               else first_token_other m buffer len fl } } } } } }"

text \<open>The status code of a reply: three digits in \<^verbatim>\<open>second\<close>.\<close>

definition status_code :: "mem \<Rightarrow> ptr \<Rightarrow> 32 word option option" where
  "status_code m second = do {
     s1 \<leftarrow> rd m second; s2 \<leftarrow> rd m (second + 1); s3 \<leftarrow> rd m (second + 2);
     Some (if is_digit s1 \<and> is_digit s2 \<and> is_digit s3
           then Some (of_nat (digit_val s1 * 100 + 10 * digit_val s2 + digit_val s3)) else None) }"

text \<open>
  The last part of the line: the version token of a request, the reason phrase of a reply, then the
  line end. \<open>offset\<close> is \<^verbatim>\<open>third - buffer\<close>; \<open>Inl fl\<close> is \<^verbatim>\<open>goto error\<close>.
\<close>

definition first_line_end :: "mem \<Rightarrow> ptr \<Rightarrow> nat \<Rightarrow> ptr \<Rightarrow> nat \<Rightarrow> msg_start \<Rightarrow> (msg_start + ptr \<times> msg_start) option" where
  "first_line_end m buffer len third offset fl = do {
     te \<leftarrow> (if fl_type fl = SIP_REQUEST then do {
              t \<leftarrow> eat_token_end m third (third + len - offset);
              if t = third \<or> t \<ge> buffer + len then Some None
              else do {
                b \<leftarrow> is_empty_end m t (t + len - (offset + (t - third)));
                Some (if b then Some t else None) } }
            else do {
              t \<leftarrow> eat_token2_end CR m third (third + len - offset);
              Some (if t \<ge> buffer + len then None else Some t) });
     case te of
       None \<Rightarrow> Some (Inl fl)
     | Some t \<Rightarrow> do {
         nl \<leftarrow> eat_line m t (len - (offset + (t - third)));
         if nl \<ge> buffer + len then Some (Inl fl)
         else Some (Inr (nl, fl\<lparr>fl_version := mk_str third t, fl_len := int nl - int buffer\<rparr>)) } }"

text \<open>From the second token on; \<open>tmp0\<close> is the space after the first token.\<close>

definition first_line_rest :: "mem \<Rightarrow> ptr \<Rightarrow> nat \<Rightarrow> ptr \<Rightarrow> msg_start \<Rightarrow> (msg_start + ptr \<times> msg_start) option" where
  "first_line_rest m buffer len tmp0 fl0 = (
     let fl1 = fl0\<lparr>fl_method := (fl_method fl0)\<lparr>str_s := Some buffer\<rparr>\<rparr>;
         second = tmp0 + 1; offset0 = second - buffer
     in do {
       tmp \<leftarrow> eat_token_end m second (second + len - offset0);
       if tmp \<ge> buffer + len then Some (Inl fl1)
       else do {
         let offset1 = offset0 + (tmp - second);
         third \<leftarrow> eat_space_end m tmp (tmp + len - offset1);
         let offset2 = offset1 + (third - tmp);
         if third = tmp \<or> tmp \<ge> buffer + len then Some (Inl fl1)
         else do {
           let fl2 = fl1\<lparr>fl_uri := mk_str second tmp\<rparr>;
           sc \<leftarrow> (if fl_type fl2 = SIP_REPLY
                  then (if str_len (fl_uri fl2) \<noteq> 3 then Some None else status_code m second)
                  else Some (Some (fl_value fl2)));
           case sc of
             None \<Rightarrow> Some (Inl fl2)
           | Some v \<Rightarrow> first_line_end m buffer len third offset2 (fl2\<lparr>fl_value := v\<rparr>) } } })"

definition parse_first_line :: "mem \<Rightarrow> ptr \<Rightarrow> nat \<Rightarrow> msg_start \<Rightarrow> (ptr \<times> msg_start) option" where
  "parse_first_line m buffer len fl = (
     let error1 = (\<lambda>fl'. do { nl \<leftarrow> eat_line m buffer len; Some (nl, fl'\<lparr>fl_type := SIP_INVALID\<rparr>) })
     in if len \<le> 16 then error1 fl
        else do {
          t \<leftarrow> first_token m buffer len fl;
          case t of
            Inl fl' \<Rightarrow> error1 fl'
          | Inr (tmp, fl') \<Rightarrow> do {
              r \<leftarrow> first_line_rest m buffer len tmp fl';
              case r of Inl fl'' \<Rightarrow> error1 fl'' | Inr (nl, fl'') \<Rightarrow> Some (nl, fl'') } })"

section \<open>Bounds\<close>

lemma is_method_at_in:
  assumes "p + 1 + length rest < length m"
  shows "is_method_at m p first rest = Some (is_ci (m ! p) first \<and>
    map tolower_c (seg m (p + 1) (p + 1 + length rest)) = map tolower_c rest \<and> m ! (p + 1 + length rest) = SPC)"
proof -
  have "strncaseeq m (p + 1) rest =
      Some (map tolower_c (seg m (p + 1) (p + 1 + length rest)) = map tolower_c rest)"
    using assms by (intro strncaseeq_in) simp
  then show ?thesis
    using assms by (simp add: is_method_at_def)
qed

text \<open>What holds of the classification: the token is followed by a space inside the buffer.\<close>

definition token_ok :: "mem \<Rightarrow> ptr \<Rightarrow> nat \<Rightarrow> ptr \<Rightarrow> msg_start \<Rightarrow> bool" where
  "token_ok m buffer len tmp fl \<longleftrightarrow> buffer < tmp \<and> tmp < buffer + len \<and> m ! tmp = SPC \<and>
     fl_type fl \<noteq> SIP_INVALID \<and> str_len (fl_method fl) = int tmp - int buffer"

lemma first_token_other_total:
  assumes "buffer + len \<le> length m"
  shows "\<exists>t. first_token_other m buffer len fl = Some t \<and>
    (case t of Inl _ \<Rightarrow> True | Inr (tmp, fl') \<Rightarrow> token_ok m buffer len tmp fl')"
proof -
  obtain tmp where tmp: "eat_token_end m buffer (buffer + len) = Some tmp" "buffer \<le> tmp" "tmp \<le> buffer + len"
    using tok.scan_total [of buffer "buffer + len" m] assms by auto
  show ?thesis
  proof (cases "tmp = buffer \<or> tmp \<ge> buffer + len \<or> m ! tmp \<noteq> SPC")
    case True
    then show ?thesis
      using tmp assms by (cases "tmp = buffer \<or> tmp \<ge> buffer + len") (auto simp: first_token_other_def)
  next
    case False
    then have lt: "buffer < tmp" "tmp < buffer + len" "m ! tmp = SPC" using tmp by auto
    obtain r k where pm: "parse_method m (Some buffer) (Some tmp) (fl_value (fl\<lparr>fl_type := SIP_REQUEST\<rparr>)) = Some (r, k)"
      using parse_method_bounds [of buffer tmp m] lt assms by fastforce
    show ?thesis
      using tmp lt pm assms
      by (auto simp: first_token_other_def token_ok_def Let_def)
  qed
qed

lemma first_token_total:
  assumes "16 < len" and "buffer + len \<le> length m"
  shows "\<exists>t. first_token m buffer len fl = Some t \<and>
    (case t of Inl _ \<Rightarrow> True | Inr (tmp, fl') \<Rightarrow> token_ok m buffer len tmp fl')"
proof -
  define good where "good x \<longleftrightarrow> (\<exists>t. x = Some t \<and>
    (case t of Inl _ \<Rightarrow> True | Inr (tmp, fl') \<Rightarrow> token_ok m buffer len tmp fl'))" for x :: "(msg_start + ptr \<times> msg_start) option"
  have chain: "good (Option.bind (is_method_at m buffer c rest) (\<lambda>b. if b then set_known buffer n k v fl else X))"
    if "length rest \<le> 6" "n = Suc (length rest)" "k \<noteq> SIP_INVALID" "good X" for c rest n k v X
  proof -
    have in_buf: "buffer + 1 + length rest < length m" using that assms by simp
    have n: "buffer + n = buffer + 1 + length rest" using that by simp
    obtain b where b: "is_method_at m buffer c rest = Some b" "b \<Longrightarrow> m ! (buffer + n) = SPC"
      unfolding n is_method_at_in [OF in_buf] by blast
    show ?thesis
    proof (cases b)
      case True
      then have "good (set_known buffer n k v fl)"
        using b that assms by (auto simp: good_def set_known_def token_ok_def)
      with b True show ?thesis by simp
    next
      case False
      with b that show ?thesis by simp
    qed
  qed
  have other: "good (first_token_other m buffer len fl)"
    using first_token_other_total [OF assms(2)] by (simp add: good_def)
  have "good (first_token m buffer len fl)"
    unfolding first_token_def by (intro chain other) simp_all
  then show ?thesis by (simp add: good_def)
qed

text \<open>The positions a parsed first line has: all of them inside the buffer and in order.\<close>

definition line_ok :: "mem \<Rightarrow> ptr \<Rightarrow> nat \<Rightarrow> ptr \<Rightarrow> msg_start \<Rightarrow> bool" where
  "line_ok m buffer len nl fl \<longleftrightarrow> (\<exists>sp uend third t.
     buffer < sp \<and> m ! sp = SPC \<and> fl_method fl = mk_str buffer sp \<and>
     sp < uend \<and> fl_uri fl = mk_str (sp + 1) uend \<and>
     uend < third \<and> (\<forall>i. uend \<le> i \<longrightarrow> i < third \<longrightarrow> SP (m ! i)) \<and>
     third \<le> t \<and> fl_version fl = mk_str third t \<and>
     t \<le> nl \<and> nl < buffer + len \<and> fl_len fl = int nl - int buffer \<and>
     (fl_type fl = SIP_REQUEST \<or> fl_type fl = SIP_REPLY) \<and>
     (fl_type fl = SIP_REPLY \<longrightarrow> uend = sp + 4))"

lemma line_okI:
  assumes "buffer < sp" "m ! sp = SPC" "sp < uend" "uend < third" "third \<le> t" "t \<le> nl" "nl < buffer + len"
    and "\<And>i. uend \<le> i \<Longrightarrow> i < third \<Longrightarrow> m ! i = SPC \<or> m ! i = TAB"
    and "fl_method fl = mk_str buffer sp" "fl_uri fl = mk_str (sp + 1) uend" "fl_version fl = mk_str third t"
    and "fl_len fl = int nl - int buffer" "fl_type fl \<noteq> SIP_INVALID" "fl_type fl = SIP_REPLY \<Longrightarrow> uend = sp + 4"
  shows "line_ok m buffer len nl fl"
proof -
  have "fl_type fl = SIP_REQUEST \<or> fl_type fl = SIP_REPLY"
    using assms(13) by (cases "fl_type fl") auto
  moreover have "\<forall>i. uend \<le> i \<longrightarrow> i < third \<longrightarrow> SP (m ! i)"
    using assms(8) by (auto simp: SP_def)
  ultimately show ?thesis
    unfolding line_ok_def using assms by blast
qed

lemma first_line_end_total:
  assumes "buffer \<le> third" and "third \<le> buffer + len" and "buffer + len \<le> length m"
  shows "\<exists>r. first_line_end m buffer len third (third - buffer) fl = Some r \<and>
    (case r of Inl _ \<Rightarrow> True
     | Inr (nl, fl') \<Rightarrow> \<exists>t. third \<le> t \<and> t \<le> nl \<and> nl < buffer + len \<and>
         fl' = fl\<lparr>fl_version := mk_str third t, fl_len := int nl - int buffer\<rparr>)"
proof -
  let ?e = "buffer + len"
  have e3: "third + len - (third - buffer) = ?e"
    using assms by simp
  define te where "te = (if fl_type fl = SIP_REQUEST then do {
              t \<leftarrow> eat_token_end m third ?e;
              if t = third \<or> t \<ge> buffer + len then Some None
              else do {
                b \<leftarrow> is_empty_end m t (t + len - (third - buffer + (t - third)));
                Some (if b then Some t else None) } }
            else do {
              t \<leftarrow> eat_token2_end CR m third ?e;
              Some (if t \<ge> buffer + len then None else Some t) })"
  have te: "\<exists>x. te = Some x \<and> (case x of None \<Rightarrow> True | Some t \<Rightarrow> third \<le> t \<and> t < ?e)"
  proof (cases "fl_type fl = SIP_REQUEST")
    case True
    obtain t where t: "eat_token_end m third ?e = Some t" "third \<le> t" "t \<le> ?e"
      using tok.scan_total [OF assms(2,3)] by metis
    have "t + len - (third - buffer + (t - third)) = ?e" if "t < ?e"
      using that t assms by simp
    then show ?thesis
      using is_empty_end_eq [of t ?e m] t assms(3) True by (auto simp: te_def)
  next
    case False
    obtain t where t: "eat_token2_end CR m third ?e = Some t" "third \<le> t" "t \<le> ?e"
      using tok2.scan_total [OF assms(2,3), of CR] by metis
    then show ?thesis using False by (simp add: te_def)
  qed
  then obtain x where x: "te = Some x" and xb: "case x of None \<Rightarrow> True | Some t \<Rightarrow> third \<le> t \<and> t < ?e"
    by blast
  have unf: "first_line_end m buffer len third (third - buffer) fl = (case x of
       None \<Rightarrow> Some (Inl fl)
     | Some t \<Rightarrow> do {
         nl \<leftarrow> eat_line m t (len - (third - buffer + (t - third)));
         if nl \<ge> buffer + len then Some (Inl fl)
         else Some (Inr (nl, fl\<lparr>fl_version := mk_str third t, fl_len := int nl - int buffer\<rparr>)) })"
    unfolding first_line_end_def e3 using x unfolding te_def by simp
  show ?thesis
  proof (cases x)
    case None
    then show ?thesis by (simp add: unf)
  next
    case (Some t)
    with xb have t: "third \<le> t" "t < ?e" by auto
    have n: "t + (len - (third - buffer + (t - third))) = ?e"
      using t assms by simp
    with assms(3) obtain nl where "eat_line m t (len - (third - buffer + (t - third))) = Some nl" "t \<le> nl"
      by (metis eat_line_total)
    then show ?thesis using t Some by (auto simp: unf)
  qed
qed

lemma status_code_total:
  "p + 3 \<le> length m \<Longrightarrow> \<exists>v. status_code m p = Some v"
  by (simp add: status_code_def)

lemma first_line_rest_total:
  assumes tk: "token_ok m buffer len tmp fl" and len: "buffer + len \<le> length m"
  shows "\<exists>r. first_line_rest m buffer len tmp fl = Some r \<and>
    (case r of Inl _ \<Rightarrow> True | Inr (nl, fl') \<Rightarrow> line_ok m buffer len nl fl' \<and> fl_type fl' = fl_type fl)"
proof -
  let ?e = "buffer + len"
  have sp: "buffer < tmp" "tmp < ?e" "m ! tmp = SPC" "fl_type fl \<noteq> SIP_INVALID"
      "str_len (fl_method fl) = int tmp - int buffer"
    using tk by (auto simp: token_ok_def)
  have e0: "tmp + 1 + len - (tmp + 1 - buffer) = ?e" using sp by simp
  obtain u where u: "eat_token_end m (tmp + 1) ?e = Some u" "tmp + 1 \<le> u" "u \<le> ?e"
    using tok.scan_total [of "tmp + 1" ?e m] sp len by auto
  have e1: "u + len - (tmp + 1 - buffer + (u - (tmp + 1))) = ?e" using sp u by simp
  obtain third where th: "eat_space_end m u ?e = Some third" "u \<le> third" "third \<le> ?e"
      "\<And>i. u \<le> i \<Longrightarrow> i < third \<Longrightarrow> m ! i = SPC \<or> m ! i = TAB"
    using sp.scan_total [of u ?e m] len u by auto
  have off: "tmp + 1 - buffer + (u - (tmp + 1)) + (third - u) = third - buffer"
    using sp u th by simp
  define fl1 where "fl1 = fl\<lparr>fl_method := (fl_method fl)\<lparr>str_s := Some buffer\<rparr>\<rparr>"
  define fl2 where "fl2 = fl1\<lparr>fl_uri := mk_str (tmp + 1) u\<rparr>"
  define sc where "sc = (if fl_type fl2 = SIP_REPLY
      then (if str_len (fl_uri fl2) \<noteq> 3 then Some None else status_code m (tmp + 1))
      else Some (Some (fl_value fl2)))"
  have unf: "first_line_rest m buffer len tmp fl =
     (if u \<ge> ?e then Some (Inl fl1)
      else if third = u then Some (Inl fl1)
      else Option.bind sc (\<lambda>x. case x of None \<Rightarrow> Some (Inl fl2)
             | Some v \<Rightarrow> first_line_end m buffer len third (third - buffer) (fl2\<lparr>fl_value := v\<rparr>)))"
    unfolding first_line_rest_def Let_def e0 u(1) Option.bind_lunit e1 th(1) off fl1_def [symmetric]
      fl2_def [symmetric] sc_def [symmetric] by simp
  show ?thesis
  proof (cases "u < ?e \<and> third \<noteq> u")
    case False
    then show ?thesis by (auto simp: unf)
  next
    case True
    have uri3: "u = tmp + 4" if "str_len (fl_uri fl2) = 3"
      using that u(2) by (simp add: fl2_def mk_str_def)
    obtain x where x: "sc = Some x" "fl_type fl2 = SIP_REPLY \<Longrightarrow> x \<noteq> None \<Longrightarrow> u = tmp + 4"
    proof (cases "fl_type fl2 = SIP_REPLY \<and> str_len (fl_uri fl2) = 3")
      case yes: True
      then obtain v where "status_code m (tmp + 1) = Some v"
        using status_code_total [of "tmp + 1" m] uri3 True len by auto
      then show thesis using yes uri3 by (intro that [of v]) (auto simp: sc_def)
    next
      case no: False
      then show thesis by (intro that [of "if fl_type fl2 = SIP_REPLY then None else Some (fl_value fl2)"])
          (auto simp: sc_def)
    qed
    show ?thesis
    proof (cases x)
      case None
      then show ?thesis using True x by (simp add: unf)
    next
      case (Some v)
      obtain r where r: "first_line_end m buffer len third (third - buffer) (fl2\<lparr>fl_value := v\<rparr>) = Some r"
        and rb: "case r of Inl _ \<Rightarrow> True
          | Inr (nl, fl') \<Rightarrow> \<exists>t. third \<le> t \<and> t \<le> nl \<and> nl < buffer + len \<and>
              fl' = fl2\<lparr>fl_value := v, fl_version := mk_str third t, fl_len := int nl - int buffer\<rparr>"
        using first_line_end_total [of buffer third len m "fl2\<lparr>fl_value := v\<rparr>"] sp u th len by fastforce
      have meth: "(fl_method fl)\<lparr>str_s := Some buffer\<rparr> = mk_str buffer tmp"
        using sp(5) by (simp add: mk_str_def)
      have ok: "line_ok m buffer len nl fl' \<and> fl_type fl' = fl_type fl" if "r = Inr (nl, fl')" for nl fl'
      proof -
        obtain t where t: "third \<le> t" "t \<le> nl" "nl < buffer + len"
            "fl' = fl2\<lparr>fl_value := v, fl_version := mk_str third t, fl_len := int nl - int buffer\<rparr>"
          using rb \<open>r = Inr (nl, fl')\<close> by auto
        have "line_ok m buffer len nl fl'"
        proof (rule line_okI [of buffer tmp m u third t nl len])
          show "fl_type fl' = SIP_REPLY \<Longrightarrow> u = tmp + 4"
            using x Some t(4) by (simp add: fl2_def fl1_def)
        qed (use sp u th t True in \<open>simp_all add: fl2_def fl1_def meth\<close>)
        then show ?thesis using t(4) by (simp add: fl2_def fl1_def)
      qed
      have "first_line_rest m buffer len tmp fl = Some r"
        using r True x Some by (simp add: unf)
      with ok show ?thesis by (cases r) auto
    qed
  qed
qed

lemma parse_first_line_total:
  assumes "buffer + len \<le> length m"
  shows "\<exists>nl fl'. parse_first_line m buffer len fl = Some (nl, fl') \<and> buffer \<le> nl \<and> nl \<le> buffer + len \<and>
    (fl_type fl' \<noteq> SIP_INVALID \<longrightarrow> 16 < len \<and> line_ok m buffer len nl fl')"
proof -
  obtain el where el: "eat_line m buffer len = Some el" "buffer \<le> el" "el \<le> buffer + len"
    using eat_line_total [OF assms] by metis
  show ?thesis
  proof (cases "len \<le> 16")
    case True
    then show ?thesis using el by (simp add: parse_first_line_def)
  next
    case False
    then obtain t where t: "first_token m buffer len fl = Some t"
      and tb: "case t of Inl _ \<Rightarrow> True | Inr (tmp, fl') \<Rightarrow> token_ok m buffer len tmp fl'"
      using first_token_total [OF _ assms] by (metis not_le_imp_less)
    show ?thesis
    proof (cases t)
      case (Inl fl')
      then show ?thesis using el t False by (simp add: parse_first_line_def)
    next
      case (Inr a)
      obtain tmp fl' where a: "a = (tmp, fl')" by (cases a)
      with tb Inr have "token_ok m buffer len tmp fl'" by simp
      from first_line_rest_total [OF this assms] obtain r where
        r: "first_line_rest m buffer len tmp fl' = Some r"
        and rb: "case r of Inl _ \<Rightarrow> True | Inr (nl, fl'') \<Rightarrow> line_ok m buffer len nl fl'' \<and> fl_type fl'' = fl_type fl'"
        by blast
      show ?thesis
      proof (cases r)
        case (Inl fl'')
        then show ?thesis using el t False Inr a r by (simp add: parse_first_line_def)
      next
        case in2: (Inr b)
        obtain nl fl'' where b: "b = (nl, fl'')" by (cases b)
        with rb in2 have ok: "line_ok m buffer len nl fl''" by simp
        then have "buffer \<le> nl" "nl \<le> buffer + len" by (auto simp: line_ok_def)
        then show ?thesis using ok t False Inr a r in2 b by (simp add: parse_first_line_def)
      qed
    qed
  qed
qed

section \<open>Well-formed request lines are parsed\<close>

text \<open>A request line in a buffer, described by its positions.\<close>

definition request_at :: "mem \<Rightarrow> ptr \<Rightarrow> nat \<Rightarrow> ptr \<Rightarrow> ptr \<Rightarrow> ptr \<Rightarrow> bool" where
  "request_at m b len sp u t \<longleftrightarrow>
     b < sp \<and> sp < u \<and> u + 1 < t \<and> t + 2 < b + len \<and> b + len \<le> length m \<and>
     (\<forall>c \<in> set (seg m b sp). method_char c) \<and> m ! sp = SPC \<and>
     (\<forall>c \<in> set (seg m (sp + 1) u). is_token_char c) \<and> m ! u = SPC \<and>
     (\<forall>c \<in> set (seg m (u + 1) t). is_token_char c) \<and> m ! t = CR \<and> m ! (t + 1) = LF \<and> m ! (t + 2) \<noteq> CR"

lemma tolower_c_space [simp]: "tolower_c c = SPC \<longleftrightarrow> c = SPC"
  by (auto simp: tolower_c_def uchar_def char_of_eq_iff take_bit_nat_def)

lemma is_method_at_request:
  assumes rq: "request_at m b len sp u t" and n: "length rest \<le> 6" "16 < len"
    and lit: "SPC \<notin> set (map tolower_c (first # rest))"
  shows "is_method_at m b first rest = Some (map tolower_c (seg m b sp) = map tolower_c (first # rest))"
proof -
  let ?n = "b + 1 + length rest"
  have in_buf: "?n < length m" using rq n by (simp add: request_at_def)
  have nosp: "m ! i \<noteq> SPC" if "b \<le> i" "i < sp" for i
    using seg_all [of m b sp "\<lambda>c. c \<noteq> SPC" i] rq that method_char_token
    by (auto simp: request_at_def is_token_char_def)
  have "(is_ci (m ! b) first \<and> map tolower_c (seg m (b + 1) ?n) = map tolower_c rest \<and> m ! ?n = SPC)
      \<longleftrightarrow> map tolower_c (seg m b sp) = map tolower_c (first # rest)" (is "?L \<longleftrightarrow> ?R")
  proof
    assume L: ?L
    have pre: "map tolower_c (seg m b ?n) = map tolower_c (first # rest)"
      using L in_buf by (simp add: seg_Cons is_ci_def)
    have "\<forall>c \<in> set (seg m b ?n). c \<noteq> SPC"
      using pre lit by (metis (no_types, lifting) imageI list.set_map tolower_c_space)
    then have "m ! i \<noteq> SPC" if "b \<le> i" "i < ?n" for i
      using seg_all [of m b ?n "\<lambda>c. c \<noteq> SPC" i] that in_buf by simp
    moreover have "m ! sp = SPC" "b \<le> sp" using rq by (auto simp: request_at_def)
    ultimately have "?n = sp"
      using nosp L by (metis le_add1 linorder_neqE_nat add.assoc)
    with pre show ?R by simp
  next
    assume R: ?R
    have len: "length (seg m b sp) = sp - b" and bsp: "b < sp"
      using rq by (auto simp: request_at_def)
    then have "sp = ?n" using arg_cong [OF R, of length] by simp
    moreover have "seg m b sp = m ! b # seg m (b + 1) sp"
      using rq by (simp add: request_at_def seg_Cons)
    ultimately show ?L
      using R rq by (auto simp: request_at_def is_ci_def)
  qed
  then show ?thesis unfolding is_method_at_in [OF in_buf] by simp
qed

lemma first_token_request:
  assumes rq: "request_at m b len sp u t" and len: "16 < len"
  shows "first_token m b len fl = Some (Inr (sp, fl\<lparr>fl_type := SIP_REQUEST,
     fl_method := (fl_method fl)\<lparr>str_len := int sp - int b\<rparr>, fl_value := spec_method (seg m b sp)\<rparr>))"
proof -
  let ?low = "map tolower_c (seg m b sp)"
  have at: "is_method_at m b c rest = Some (?low = map tolower_c (c # rest))"
    if "length rest \<le> 6" "SPC \<notin> set (map tolower_c (c # rest))" for c rest
    using is_method_at_request [OF rq that(1) len that(2)] .
  have lens: "length ?low = sp - b" "b < sp"
    using rq by (auto simp: request_at_def)
  have known: "set_known b n SIP_REQUEST k fl = Some (Inr (sp, fl\<lparr>fl_type := SIP_REQUEST,
     fl_method := (fl_method fl)\<lparr>str_len := int sp - int b\<rparr>, fl_value := spec_method (seg m b sp)\<rparr>))"
    if "?low = name" "n = length name" "map_of method_table name = Some k" for name n k
  proof -
    have "sp = b + n" using that lens by simp
    then show ?thesis
      using that by (simp add: set_known_def spec_method_def)
  qed
  have slash: "?low \<noteq> map tolower_c (CHR ''S'' # ''IP/2.0'')"
  proof
    assume a: "?low = map tolower_c (CHR ''S'' # ''IP/2.0'')"
    have "CHR ''/'' \<in> set ?low" unfolding a by (simp add: tolower_c_def uchar_def)
    then obtain c where c: "c \<in> set (seg m b sp)" "tolower_c c = CHR ''/''" by auto
    then have "c = CHR ''/''"
      by (auto simp: tolower_c_def uchar_def char_of_eq_iff take_bit_nat_def split: if_splits)
    with c rq show False
      by (auto simp: request_at_def method_char_def schar_def uchar_def)
  qed
  have other: "first_token_other m b len fl = Some (Inr (sp, fl\<lparr>fl_type := SIP_REQUEST,
     fl_method := (fl_method fl)\<lparr>str_len := int sp - int b\<rparr>, fl_value := spec_method (seg m b sp)\<rparr>))"
  proof -
    have "is_token_char (m ! i)" if "b \<le> i" "i < sp" for i
      using seg_all [of m b sp is_token_char i] rq that method_char_token by (auto simp: request_at_def)
    then have eat: "eat_token_end m b (b + len) = Some sp"
      using rq by (intro tok.scan_eqI) (auto simp: request_at_def is_token_char_def)
    have "method_token m b sp = seg m b sp"
      unfolding method_token_def takeWhile_eq_all_conv
      using rq method_char_token by (auto simp: request_at_def)
    then have pm: "parse_method m (Some b) (Some sp) v = Some (Some sp, spec_method (seg m b sp))" for v
      using parse_method_table [of b sp m v] rq by (auto simp: request_at_def Let_def)
    show ?thesis
      using rq by (simp add: first_token_other_def eat pm request_at_def Let_def)
  qed
  have low: "tolower_c CHR ''/'' = CHR ''/''" "tolower_c CHR ''2'' = CHR ''2''"
    "tolower_c CHR ''.'' = CHR ''.''" "tolower_c CHR ''0'' = CHR ''0''"
    by (simp_all add: tolower_c_def uchar_def)
  show ?thesis
    unfolding first_token_def
    using slash other
    by (simp add: at low known [of "''invite''"] known [of "''cancel''"] known [of "''ack''"]
        known [of "''bye''"] known [of "''info''"] method_table_def)
qed

lemma parse_first_line_request_at:
  assumes rq: "request_at m b len sp u t" and len: "16 < len"
  shows "parse_first_line m b len fl = Some (t + 2, fl\<lparr>fl_type := SIP_REQUEST, fl_method := mk_str b sp,
    fl_value := spec_method (seg m b sp), fl_uri := mk_str (sp + 1) u, fl_version := mk_str (u + 1) t,
    fl_len := int (t + 2) - int b\<rparr>)"
proof -
  let ?e = "b + len"
  have bnd: "b < sp" "sp < u" "u + 1 < t" "t + 2 < ?e" "?e \<le> length m"
    and ch: "m ! sp = SPC" "m ! u = SPC" "m ! t = CR" "m ! (t + 1) = LF" "m ! (t + 2) \<noteq> CR"
    using rq by (auto simp: request_at_def)
  have tokuri: "is_token_char (m ! i)" if "sp + 1 \<le> i" "i < u" for i
    using seg_all [of m "sp + 1" u is_token_char i] rq that by (auto simp: request_at_def)
  have tokver: "is_token_char (m ! i)" if "u + 1 \<le> i" "i < t" for i
    using seg_all [of m "u + 1" t is_token_char i] rq that by (auto simp: request_at_def)
  have s1: "eat_token_end m (sp + 1) ?e = Some u"
    using bnd ch tokuri by (intro tok.scan_eqI) (auto simp: is_token_char_def)
  have s2: "eat_space_end m u ?e = Some (u + 1)"
    using bnd ch tokver [of "u + 1"] by (intro sp.scan_eqI) (auto simp: is_token_char_def less_Suc_eq_le dest: le_antisym)
  have s3: "eat_token_end m (u + 1) ?e = Some t"
    using bnd ch tokver by (intro tok.scan_eqI) (auto simp: is_token_char_def)
  have s4: "eat_space_end m t ?e = Some t"
    using bnd ch by (intro sp.scan_eqI) auto
  then have s5: "is_empty_end m t ?e = Some True"
    using bnd ch by (simp add: is_empty_end_def)
  have "m ! i \<noteq> LF" if "t \<le> i" "i < t + 1" for i
  proof -
    have "i = t" using that by simp
    with ch show ?thesis by simp
  qed
  then have s6: "eat_line m t (?e - t) = Some (t + 2)"
    using eat_line_at [of t "?e - t" m "t + 1"] bnd ch by simp
  have a: "sp + 1 + len - (sp + 1 - b) = ?e" "u + len - (sp + 1 - b + (u - (sp + 1))) = ?e"
    "sp + 1 - b + (u - (sp + 1)) + (u + 1 - u) = u + 1 - b"
    "u + 1 + len - (u + 1 - b) = ?e" "t + len - (u + 1 - b + (t - (u + 1))) = ?e"
    "len - (u + 1 - b + (t - (u + 1))) = ?e - t"
    using bnd by simp_all
  define fl1 where "fl1 = fl\<lparr>fl_type := SIP_REQUEST,
     fl_method := (fl_method fl)\<lparr>str_len := int sp - int b\<rparr>, fl_value := spec_method (seg m b sp)\<rparr>"
  define fl2 where "fl2 = fl1\<lparr>fl_method := mk_str b sp, fl_uri := mk_str (sp + 1) u\<rparr>"
  have fin: "first_line_end m b len (u + 1) (u + 1 - b) fl2 =
      Some (Inr (t + 2, fl2\<lparr>fl_version := mk_str (u + 1) t, fl_len := int (t + 2) - int b\<rparr>))"
    unfolding first_line_end_def a(4) s3 Option.bind_lunit a(5) s5
    using bnd s6 s6 [unfolded add.commute [of b len]]
    by (simp add: fl2_def fl1_def a(6) del: One_nat_def add_Suc_right add_2_eq_Suc')
  have m1: "(fl_method fl1)\<lparr>str_s := Some b\<rparr> = mk_str b sp"
    by (simp add: fl1_def mk_str_def)
  have ty2: "fl_type fl2 = SIP_REQUEST"
    by (simp add: fl2_def fl1_def)
  have same: "fl2\<lparr>fl_value := fl_value fl2\<rparr> = fl2"
    by (rule msg_start.equality) simp_all
  have "first_line_rest m b len sp fl1 =
      Some (Inr (t + 2, fl2\<lparr>fl_version := mk_str (u + 1) t, fl_len := int (t + 2) - int b\<rparr>))"
    unfolding first_line_rest_def Let_def a(1) s1 Option.bind_lunit a(2) s2 a(3) m1 fl2_def [symmetric]
    using bnd fin ty2 same by (simp del: One_nat_def add_Suc_right add_2_eq_Suc')
  moreover have "first_token m b len fl = Some (Inr (sp, fl1))"
    using first_token_request [OF rq len] by (simp add: fl1_def)
  moreover have "fl2\<lparr>fl_version := mk_str (u + 1) t, fl_len := int (t + 2) - int b\<rparr> =
      fl\<lparr>fl_type := SIP_REQUEST, fl_method := mk_str b sp, fl_value := spec_method (seg m b sp),
        fl_uri := mk_str (sp + 1) u, fl_version := mk_str (u + 1) t, fl_len := int (t + 2) - int b\<rparr>"
    by (rule msg_start.equality) (simp_all add: fl2_def fl1_def)
  ultimately show ?thesis
    using len by (simp add: parse_first_line_def)
qed

section \<open>Properties\<close>

text \<open>
  C26: \<^verbatim>\<open>parse_first_line\<close> is memory safe and returns a pointer into the message for every input: no byte
  outside \<open>[buffer, buffer + len)\<close> is read, and unless it reports \<^verbatim>\<open>SIP_INVALID\<close> the three tokens it
  stores lie in that range, in order, separated by white space, with the next line after them.
\<close>

theorem parse_first_line_safe:
  assumes "buffer + len \<le> length m"
  shows "\<exists>nl fl'. parse_first_line m buffer len fl = Some (nl, fl') \<and> buffer \<le> nl \<and> nl \<le> buffer + len \<and>
    (fl_type fl' \<noteq> SIP_INVALID \<longrightarrow> 16 < len \<and> line_ok m buffer len nl fl')"
  using assms by (rule parse_first_line_total)

theorem parse_first_line_safe_witness:
  "\<exists>nl fl'. parse_first_line ''SIP'' 0 3 msg_start_zero = Some (nl, fl') \<and> nl \<le> 3"
  using parse_first_line_safe [of 0 3 "''SIP''" msg_start_zero] by fastforce

text \<open>
  C25: printing and parsing a request line: a buffer that holds \<open>meth SP uri SP ver CR LF\<close> and at least
  one byte of the next line is parsed to exactly these tokens, with the method's number, whatever the
  method (the fast path for INVITE, CANCEL, ACK, BYE and INFO agrees with \<^verbatim>\<open>parse_method\<close>). The URI may
  even be empty and the version is not compared with \<^verbatim>\<open>SIP/2.0\<close>.
\<close>

theorem parse_first_line_request:
  assumes m: "m = pre @ meth @ [SPC] @ uri @ [SPC] @ ver @ [CR, LF] @ rest"
    and "meth \<noteq> []" and "\<forall>c \<in> set meth. method_char c" and "\<forall>c \<in> set uri. is_token_char c"
    and "ver \<noteq> []" and "\<forall>c \<in> set ver. is_token_char c" and "rest \<noteq> []" and "hd rest \<noteq> CR"
    and "16 < length m - length pre"
  shows "\<exists>fl'. parse_first_line m (length pre) (length m - length pre) fl =
      Some (length m - length rest, fl') \<and>
    fl_type fl' = SIP_REQUEST \<and> str_text m (fl_method fl') = meth \<and> str_text m (fl_uri fl') = uri \<and>
    str_text m (fl_version fl') = ver \<and> fl_value fl' = spec_method meth"
proof -
  let ?b = "length pre" and ?sp = "length pre + length meth"
  let ?u = "length pre + length meth + 1 + length uri"
  let ?t = "length pre + length meth + 1 + length uri + 1 + length ver"
  have s1: "seg m ?b ?sp = meth"
    using seg_mid [of pre meth] unfolding m by simp
  have s2: "seg m (?sp + 1) ?u = uri"
    using seg_mid [of "pre @ meth @ [SPC]" uri] unfolding m by (simp add: add.assoc)
  have s3: "seg m (?u + 1) ?t = ver"
    using seg_mid [of "pre @ meth @ [SPC] @ uri @ [SPC]" ver] unfolding m by (simp add: ac_simps)
  have c: "m ! ?sp = SPC" "m ! ?u = SPC" "m ! ?t = CR" "m ! (?t + 1) = LF" "m ! (?t + 2) = hd rest"
    unfolding m using assms(7) by (simp_all add: nth_append hd_conv_nth)
  have len: "length m = ?t + 2 + length rest"
    unfolding m by simp
  have rq: "request_at m ?b (length m - ?b) ?sp ?u ?t"
    unfolding request_at_def s1 s2 s3 c using assms len by auto
  have "parse_first_line m ?b (length m - ?b) fl = Some (?t + 2, fl\<lparr>fl_type := SIP_REQUEST, fl_method := mk_str ?b ?sp,
    fl_value := spec_method meth, fl_uri := mk_str (?sp + 1) ?u, fl_version := mk_str (?u + 1) ?t,
    fl_len := int (?t + 2) - int ?b\<rparr>)"
    using parse_first_line_request_at [OF rq assms(9)] unfolding s1 .
  moreover have "?t + 2 = length m - length rest" using len by simp
  ultimately show ?thesis
    using s1 s2 s3 by simp
qed

theorem parse_first_line_request_witness:
  "\<exists>fl'. parse_first_line (''REFER sip:a@b SIP/2.0'' @ [CR, LF] @ ''Via: x'') 0 29 msg_start_zero = Some (23, fl') \<and>
    fl_type fl' = SIP_REQUEST \<and> fl_value fl' = METHOD_REFER"
proof -
  let ?m = "''REFER sip:a@b SIP/2.0'' @ [CR, LF] @ ''Via: x''"
  have n: "length ([] :: mem) = 0" "length ?m - 0 = 29" "length ?m - length ''Via: x'' = 23"
    "spec_method ''REFER'' = METHOD_REFER"
    by (simp_all add: spec_method_def method_table_def)
  have "\<exists>fl'. parse_first_line ?m (length ([] :: mem)) (length ?m - length ([] :: mem)) msg_start_zero =
      Some (length ?m - length ''Via: x'', fl') \<and>
    fl_type fl' = SIP_REQUEST \<and> str_text ?m (fl_method fl') = ''REFER'' \<and> str_text ?m (fl_uri fl') = ''sip:a@b'' \<and>
    str_text ?m (fl_version fl') = ''SIP/2.0'' \<and> fl_value fl' = spec_method ''REFER''"
    by (rule parse_first_line_request) (simp_all add: method_char_def schar_def uchar_def is_token_char_def)
  then show ?thesis unfolding n by blast
qed

end
