(* ===== verification/Hname.thy ===== *)
theory Hname
  imports Parser_F
begin

text \<open>
  \<^verbatim>\<open>parse_hname2\<close> of \<^verbatim>\<open>parse_hname2.c\<close>: the name of a header field. The code compares four bytes at a time
  with the constants of \<^verbatim>\<open>keys.h\<close> and is written as a tree of macros, one file \<^verbatim>\<open>case_*.h\<close> per first
  four letters. Each macro is one definition here, in a small language of the statements the macros
  are made of (\<open>hcode\<close>), executed by \<open>run_code\<close>; the macros that fall through take the code that
  follows them as an argument.
\<close>

section \<open>Header types and keys\<close>

type_synonym hdr_types = int

abbreviation (input) HDR_ERROR_T :: hdr_types where "HDR_ERROR_T \<equiv> -1"
abbreviation (input) HDR_OTHER_T :: hdr_types where "HDR_OTHER_T \<equiv> 0"
abbreviation (input) HDR_VIA_T :: hdr_types where "HDR_VIA_T \<equiv> 1"
abbreviation (input) HDR_VIA2_T :: hdr_types where "HDR_VIA2_T \<equiv> 2"
abbreviation (input) HDR_TO_T :: hdr_types where "HDR_TO_T \<equiv> 3"
abbreviation (input) HDR_FROM_T :: hdr_types where "HDR_FROM_T \<equiv> 4"
abbreviation (input) HDR_CSEQ_T :: hdr_types where "HDR_CSEQ_T \<equiv> 5"
abbreviation (input) HDR_CALLID_T :: hdr_types where "HDR_CALLID_T \<equiv> 6"
abbreviation (input) HDR_CONTACT_T :: hdr_types where "HDR_CONTACT_T \<equiv> 7"
abbreviation (input) HDR_MAXFORWARDS_T :: hdr_types where "HDR_MAXFORWARDS_T \<equiv> 8"
abbreviation (input) HDR_ROUTE_T :: hdr_types where "HDR_ROUTE_T \<equiv> 9"
abbreviation (input) HDR_RECORDROUTE_T :: hdr_types where "HDR_RECORDROUTE_T \<equiv> 10"
abbreviation (input) HDR_PATH_T :: hdr_types where "HDR_PATH_T \<equiv> 11"
abbreviation (input) HDR_CONTENTTYPE_T :: hdr_types where "HDR_CONTENTTYPE_T \<equiv> 12"
abbreviation (input) HDR_CONTENTLENGTH_T :: hdr_types where "HDR_CONTENTLENGTH_T \<equiv> 13"
abbreviation (input) HDR_AUTHORIZATION_T :: hdr_types where "HDR_AUTHORIZATION_T \<equiv> 14"
abbreviation (input) HDR_EXPIRES_T :: hdr_types where "HDR_EXPIRES_T \<equiv> 15"
abbreviation (input) HDR_PROXYAUTH_T :: hdr_types where "HDR_PROXYAUTH_T \<equiv> 16"
abbreviation (input) HDR_SUPPORTED_T :: hdr_types where "HDR_SUPPORTED_T \<equiv> 17"
abbreviation (input) HDR_PROXYREQUIRE_T :: hdr_types where "HDR_PROXYREQUIRE_T \<equiv> 18"
abbreviation (input) HDR_UNSUPPORTED_T :: hdr_types where "HDR_UNSUPPORTED_T \<equiv> 19"
abbreviation (input) HDR_ALLOW_T :: hdr_types where "HDR_ALLOW_T \<equiv> 20"
abbreviation (input) HDR_EVENT_T :: hdr_types where "HDR_EVENT_T \<equiv> 21"
abbreviation (input) HDR_ACCEPT_T :: hdr_types where "HDR_ACCEPT_T \<equiv> 22"
abbreviation (input) HDR_ACCEPTLANGUAGE_T :: hdr_types where "HDR_ACCEPTLANGUAGE_T \<equiv> 23"
abbreviation (input) HDR_ORGANIZATION_T :: hdr_types where "HDR_ORGANIZATION_T \<equiv> 24"
abbreviation (input) HDR_PRIORITY_T :: hdr_types where "HDR_PRIORITY_T \<equiv> 25"
abbreviation (input) HDR_SUBJECT_T :: hdr_types where "HDR_SUBJECT_T \<equiv> 26"
abbreviation (input) HDR_USERAGENT_T :: hdr_types where "HDR_USERAGENT_T \<equiv> 27"
abbreviation (input) HDR_ACCEPTDISPOSITION_T :: hdr_types where "HDR_ACCEPTDISPOSITION_T \<equiv> 28"
abbreviation (input) HDR_CONTENTDISPOSITION_T :: hdr_types where "HDR_CONTENTDISPOSITION_T \<equiv> 29"
abbreviation (input) HDR_DIVERSION_T :: hdr_types where "HDR_DIVERSION_T \<equiv> 30"
abbreviation (input) HDR_RPID_T :: hdr_types where "HDR_RPID_T \<equiv> 31"
abbreviation (input) HDR_REFER_TO_T :: hdr_types where "HDR_REFER_TO_T \<equiv> 32"
abbreviation (input) HDR_SESSION_EXPIRES_T :: hdr_types where "HDR_SESSION_EXPIRES_T \<equiv> 33"
abbreviation (input) HDR_MIN_SE_T :: hdr_types where "HDR_MIN_SE_T \<equiv> 34"
abbreviation (input) HDR_PPI_T :: hdr_types where "HDR_PPI_T \<equiv> 35"
abbreviation (input) HDR_PAI_T :: hdr_types where "HDR_PAI_T \<equiv> 36"
abbreviation (input) HDR_PRIVACY_T :: hdr_types where "HDR_PRIVACY_T \<equiv> 37"
abbreviation (input) HDR_RETRY_AFTER_T :: hdr_types where "HDR_RETRY_AFTER_T \<equiv> 38"
abbreviation (input) HDR_CALL_INFO_T :: hdr_types where "HDR_CALL_INFO_T \<equiv> 39"
abbreviation (input) HDR_WWW_AUTHENTICATE_T :: hdr_types where "HDR_WWW_AUTHENTICATE_T \<equiv> 40"
abbreviation (input) HDR_PROXY_AUTHENTICATE_T :: hdr_types where "HDR_PROXY_AUTHENTICATE_T \<equiv> 41"
abbreviation (input) HDR_MIN_EXPIRES_T :: hdr_types where "HDR_MIN_EXPIRES_T \<equiv> 42"
abbreviation (input) HDR_FEATURE_CAPS_T :: hdr_types where "HDR_FEATURE_CAPS_T \<equiv> 43"
abbreviation (input) HDR_REPLACES_T :: hdr_types where "HDR_REPLACES_T \<equiv> 44"
abbreviation (input) HDR_EOH_T :: hdr_types where "HDR_EOH_T \<equiv> 45"

abbreviation (input) K_even :: "32 word" where "K_even \<equiv> 0x6e657665"
abbreviation (input) K_acce :: "32 word" where "K_acce \<equiv> 0x65636361"
abbreviation (input) K_allo :: "32 word" where "K_allo \<equiv> 0x6f6c6c61"
abbreviation (input) K_auth :: "32 word" where "K_auth \<equiv> 0x68747561"
abbreviation (input) K_oriz :: "32 word" where "K_oriz \<equiv> 0x7a69726f"
abbreviation (input) K_atio :: "32 word" where "K_atio \<equiv> 0x6f697461"
abbreviation (input) K_call :: "32 word" where "K_call \<equiv> 0x6c6c6163"
abbreviation (input) K_dash_id2 :: "32 word" where "K_dash_id2 \<equiv> 0x2064692d"
abbreviation (input) K_dash_id1 :: "32 word" where "K_dash_id1 \<equiv> 0x3a64692d"
abbreviation (input) K_dash_inf :: "32 word" where "K_dash_inf \<equiv> 0x666e692d"
abbreviation (input) K_cont :: "32 word" where "K_cont \<equiv> 0x746e6f63"
abbreviation (input) K_act2 :: "32 word" where "K_act2 \<equiv> 0x20746361"
abbreviation (input) K_act1 :: "32 word" where "K_act1 \<equiv> 0x3a746361"
abbreviation (input) K_ent :: "32 word" where "K_ent \<equiv> 0x2d746e65"
abbreviation (input) K_leng :: "32 word" where "K_leng \<equiv> 0x676e656c"
abbreviation (input) K_th12 :: "32 word" where "K_th12 \<equiv> 0x203a6874"
abbreviation (input) K_type :: "32 word" where "K_type \<equiv> 0x65707974"
abbreviation (input) K_cseq :: "32 word" where "K_cseq \<equiv> 0x71657363"
abbreviation (input) K_expi :: "32 word" where "K_expi \<equiv> 0x69707865"
abbreviation (input) K_res2 :: "32 word" where "K_res2 \<equiv> 0x20736572"
abbreviation (input) K_res1 :: "32 word" where "K_res1 \<equiv> 0x3a736572"
abbreviation (input) K_from :: "32 word" where "K_from \<equiv> 0x6d6f7266"
abbreviation (input) K_max :: "32 word" where "K_max \<equiv> 0x2d78616d"
abbreviation (input) K_forw :: "32 word" where "K_forw \<equiv> 0x77726f66"
abbreviation (input) K_ards :: "32 word" where "K_ards \<equiv> 0x73647261"
abbreviation (input) K_prox :: "32 word" where "K_prox \<equiv> 0x786f7270"
abbreviation (input) K_y_au :: "32 word" where "K_y_au \<equiv> 0x75612d79"
abbreviation (input) K_then :: "32 word" where "K_then \<equiv> 0x6e656874"
abbreviation (input) K_tica :: "32 word" where "K_tica \<equiv> 0x61636974"
abbreviation (input) K_thor :: "32 word" where "K_thor \<equiv> 0x726f6874"
abbreviation (input) K_izat :: "32 word" where "K_izat \<equiv> 0x74617a69"
abbreviation (input) K_ion2 :: "32 word" where "K_ion2 \<equiv> 0x206e6f69"
abbreviation (input) K_ion1 :: "32 word" where "K_ion1 \<equiv> 0x3a6e6f69"
abbreviation (input) K_y_re :: "32 word" where "K_y_re \<equiv> 0x65722d79"
abbreviation (input) K_quir :: "32 word" where "K_quir \<equiv> 0x72697571"
abbreviation (input) K_reco :: "32 word" where "K_reco \<equiv> 0x6f636572"
abbreviation (input) K_rd_r :: "32 word" where "K_rd_r \<equiv> 0x722d6472"
abbreviation (input) K_oute :: "32 word" where "K_oute \<equiv> 0x6574756f"
abbreviation (input) K_rout :: "32 word" where "K_rout \<equiv> 0x74756f72"
abbreviation (input) K_path :: "32 word" where "K_path \<equiv> 0x68746170"
abbreviation (input) K_supp :: "32 word" where "K_supp \<equiv> 0x70707573"
abbreviation (input) K_orte :: "32 word" where "K_orte \<equiv> 0x6574726f"
abbreviation (input) K_to12 :: "32 word" where "K_to12 \<equiv> 0x203a6f74"
abbreviation (input) K_unsu :: "32 word" where "K_unsu \<equiv> 0x75736e75"
abbreviation (input) K_ppor :: "32 word" where "K_ppor \<equiv> 0x726f7070"
abbreviation (input) K_ted2 :: "32 word" where "K_ted2 \<equiv> 0x20646574"
abbreviation (input) K_ted1 :: "32 word" where "K_ted1 \<equiv> 0x3a646574"
abbreviation (input) K_via2 :: "32 word" where "K_via2 \<equiv> 0x20616976"
abbreviation (input) K_via1 :: "32 word" where "K_via1 \<equiv> 0x3a616976"
abbreviation (input) K_www :: "32 word" where "K_www \<equiv> 0x2d777777"
abbreviation (input) K_enti :: "32 word" where "K_enti \<equiv> 0x69746e65"
abbreviation (input) K_cate :: "32 word" where "K_cate \<equiv> 0x65746163"
abbreviation (input) K_pt_l :: "32 word" where "K_pt_l \<equiv> 0x6c2d7470"
abbreviation (input) K_angu :: "32 word" where "K_angu \<equiv> 0x75676e61"
abbreviation (input) K_age2 :: "32 word" where "K_age2 \<equiv> 0x20656761"
abbreviation (input) K_age1 :: "32 word" where "K_age1 \<equiv> 0x3a656761"
abbreviation (input) K_orga :: "32 word" where "K_orga \<equiv> 0x6167726f"
abbreviation (input) K_niza :: "32 word" where "K_niza \<equiv> 0x617a696e"
abbreviation (input) K_tion :: "32 word" where "K_tion \<equiv> 0x6e6f6974"
abbreviation (input) K_prio :: "32 word" where "K_prio \<equiv> 0x6f697270"
abbreviation (input) K_rity :: "32 word" where "K_rity \<equiv> 0x79746972"
abbreviation (input) K_subj :: "32 word" where "K_subj \<equiv> 0x6a627573"
abbreviation (input) K_ect2 :: "32 word" where "K_ect2 \<equiv> 0x20746365"
abbreviation (input) K_ect1 :: "32 word" where "K_ect1 \<equiv> 0x3a746365"
abbreviation (input) K_user :: "32 word" where "K_user \<equiv> 0x72657375"
abbreviation (input) K_dash_age :: "32 word" where "K_dash_age \<equiv> 0x6567612d"
abbreviation (input) K_disp :: "32 word" where "K_disp \<equiv> 0x70736964"
abbreviation (input) K_osit :: "32 word" where "K_osit \<equiv> 0x7469736f"
abbreviation (input) K_pt_d :: "32 word" where "K_pt_d \<equiv> 0x64617470"
abbreviation (input) K_ispo :: "32 word" where "K_ispo \<equiv> 0x6f707369"
abbreviation (input) K_siti :: "32 word" where "K_siti \<equiv> 0x69746973"
abbreviation (input) K_dive :: "32 word" where "K_dive \<equiv> 0x65766964"
abbreviation (input) K_rsio :: "32 word" where "K_rsio \<equiv> 0x6f697372"
abbreviation (input) K_remo :: "32 word" where "K_remo \<equiv> 0x6f6d6572"
abbreviation (input) K_te_p :: "32 word" where "K_te_p \<equiv> 0x702d6574"
abbreviation (input) K_arty :: "32 word" where "K_arty \<equiv> 0x79747261"
abbreviation (input) K_refe :: "32 word" where "K_refe \<equiv> 0x65666572"
abbreviation (input) K_r_to :: "32 word" where "K_r_to \<equiv> 0x6f742d72"
abbreviation (input) K_sess :: "32 word" where "K_sess \<equiv> 0x73736573"
abbreviation (input) K_ion :: "32 word" where "K_ion \<equiv> 0x2d6e6f69"
abbreviation (input) K_min :: "32 word" where "K_min \<equiv> 0x2d6e696d"
abbreviation (input) K_p_pr :: "32 word" where "K_p_pr \<equiv> 0x72702d70"
abbreviation (input) K_efer :: "32 word" where "K_efer \<equiv> 0x72656665"
abbreviation (input) K_red :: "32 word" where "K_red \<equiv> 0x2d646572"
abbreviation (input) K_iden :: "32 word" where "K_iden \<equiv> 0x6e656469"
abbreviation (input) K_tity :: "32 word" where "K_tity \<equiv> 0x79746974"
abbreviation (input) K_p_as :: "32 word" where "K_p_as \<equiv> 0x73612d70"
abbreviation (input) K_sert :: "32 word" where "K_sert \<equiv> 0x74726573"
abbreviation (input) K_ed_i :: "32 word" where "K_ed_i \<equiv> 0x692d6465"
abbreviation (input) K_dent :: "32 word" where "K_dent \<equiv> 0x746e6564"
abbreviation (input) K_ity2 :: "32 word" where "K_ity2 \<equiv> 0x20797469"
abbreviation (input) K_ity1 :: "32 word" where "K_ity1 \<equiv> 0x3a797469"
abbreviation (input) K_priv :: "32 word" where "K_priv \<equiv> 0x76697270"
abbreviation (input) K_acy2 :: "32 word" where "K_acy2 \<equiv> 0x20796361"
abbreviation (input) K_acy1 :: "32 word" where "K_acy1 \<equiv> 0x3a796361"
abbreviation (input) K_retr :: "32 word" where "K_retr \<equiv> 0x72746572"
abbreviation (input) K_y_af :: "32 word" where "K_y_af \<equiv> 0x66612d79"
abbreviation (input) K_ter2 :: "32 word" where "K_ter2 \<equiv> 0x20726574"
abbreviation (input) K_ter1 :: "32 word" where "K_ter1 \<equiv> 0x3a726574"
abbreviation (input) K_feat :: "32 word" where "K_feat \<equiv> 0x74616566"
abbreviation (input) K_ure :: "32 word" where "K_ure \<equiv> 0x2d657275"
abbreviation (input) K_caps :: "32 word" where "K_caps \<equiv> 0x73706163"
abbreviation (input) K_repl :: "32 word" where "K_repl \<equiv> 0x6c706572"
abbreviation (input) K_aces :: "32 word" where "K_aces \<equiv> 0x73656361"

section \<open>The code\<close>

text \<open>The part of \<^verbatim>\<open>struct hdr_field\<close> this function fills; \<open>hdr_field\<close> extends it.\<close>

record hdr_name =
  h_type :: hdr_types
  h_name :: str

text \<open>
  The statements: \<open>Case k c r\<close> is \<^verbatim>\<open>if (LOWER_DWORD(val) == k) c\<close> else \<open>r\<close>, \<open>If_low i\<close> compares
  \<^verbatim>\<open>LOWER_BYTE(*(p + i))\<close> and \<open>If_char i\<close> compares \<^verbatim>\<open>*(p + i)\<close>, \<open>Adv n\<close> is \<^verbatim>\<open>p += n\<close>, \<open>Read\<close> is \<^verbatim>\<open>val = READ(p)\<close>, \<open>Found\<close> sets the type and
  the length of the name, \<open>Ret n\<close> is \<^verbatim>\<open>return (p + n)\<close> and the others are the jumps.
\<close>

datatype hcode = Case "32 word" hcode hcode | If_low nat char hcode hcode
  | If_char nat char hcode hcode
  | Adv nat hcode | Read hcode | Found hdr_types int hcode | Ret nat | Dc_end | Dc_cont | Other

primrec switch :: "(32 word \<times> hcode) list \<Rightarrow> hcode \<Rightarrow> hcode" where
  "switch [] k = k"
| "switch (x # xs) k = Case (fst x) (snd x) (switch xs k)"

text \<open>\<^verbatim>\<open>case_via.h\<close>, \<^verbatim>\<open>case_from.h\<close>, \<^verbatim>\<open>case_to.h\<close>, \<^verbatim>\<open>case_cseq.h\<close>, \<^verbatim>\<open>case_call.h\<close>\<close>

definition via1_CASE :: "hcode" where
  "via1_CASE =
     Found HDR_VIA_T 3 (Ret 4)"

definition via2_CASE :: "hcode" where
  "via2_CASE =
     Found HDR_VIA_T 3 (Adv 4 Dc_end)"

definition from_CASE :: "hcode" where
  "from_CASE =
     Found HDR_FROM_T 4 (Adv 4 Dc_cont)"

definition to12_CASE :: "hcode" where
  "to12_CASE =
     Found HDR_TO_T 2 (Ret 4)"

definition cseq_CASE :: "hcode" where
  "cseq_CASE =
     Found HDR_CSEQ_T 4 (Adv 4 Dc_cont)"

definition ID_INF_CASE :: "hcode \<Rightarrow> hcode" where
  "ID_INF_CASE k =
     switch [(K_dash_id1, Found HDR_CALLID_T 7 (Ret 4)),
       (K_dash_id2, Found HDR_CALLID_T 7 (Adv 4 Dc_end)),
       (K_dash_inf, Adv 4 (If_low 0 CHR ''o'' (Found HDR_CALL_INFO_T 9 (Adv 1 Dc_cont)) Other))] k"

definition call_CASE :: "hcode" where
  "call_CASE =
     Adv 4 (Read (ID_INF_CASE Other))"

text \<open>\<^verbatim>\<open>case_cont.h\<close>\<close>

definition TH_CASE :: "hcode \<Rightarrow> hcode" where
  "TH_CASE k =
     switch [(K_th12, Found HDR_CONTENTLENGTH_T 14 (Ret 4))] 
       (If_low 0 CHR ''t'' (Adv 1 (If_low 0 CHR ''h'' (Found HDR_CONTENTLENGTH_T 14 (Adv 1 Dc_cont)) k)) k)"

definition ion_CASE :: "hcode \<Rightarrow> hcode" where
  "ion_CASE k =
     switch [(K_ion1, Found HDR_CONTENTDISPOSITION_T 19 (Ret 4)),
       (K_ion2, Found HDR_CONTENTDISPOSITION_T 19 (Adv 4 Dc_end))] k"

definition DISPOSITION_CASE :: "hcode \<Rightarrow> hcode" where
  "DISPOSITION_CASE k =
     switch [(K_osit, Adv 4 (Read (ion_CASE Other)))] k"

definition CONTENT_CASE :: "hcode \<Rightarrow> hcode" where
  "CONTENT_CASE k =
     switch [(K_leng, Adv 4 (Read (TH_CASE Other))),
       (K_type, Found HDR_CONTENTTYPE_T 12 (Adv 4 Dc_cont)),
       (K_disp, Adv 4 (Read (DISPOSITION_CASE Other)))] k"

definition ACT_ENT_CASE :: "hcode \<Rightarrow> hcode" where
  "ACT_ENT_CASE k =
     switch [(K_act1, Found HDR_CONTACT_T 7 (Ret 4)),
       (K_act2, Found HDR_CONTACT_T 7 (Adv 4 Dc_end)),
       (K_ent, Adv 4 (Read (CONTENT_CASE Other)))] k"

definition cont_CASE :: "hcode" where
  "cont_CASE =
     Adv 4 (Read (ACT_ENT_CASE Other))"

text \<open>\<^verbatim>\<open>case_rout.h\<close>, \<^verbatim>\<open>case_max.h\<close>, \<^verbatim>\<open>case_reco.h\<close>, \<^verbatim>\<open>case_path.h\<close>, \<^verbatim>\<open>case_auth.h\<close>, \<^verbatim>\<open>case_expi.h\<close>\<close>

definition rout_CASE :: "hcode" where
  "rout_CASE =
     Adv 4 (If_low 0 CHR ''e'' (Found HDR_ROUTE_T 5 (Adv 1 Dc_cont)) Other)"

definition ARDS_CASE :: "hcode \<Rightarrow> hcode" where
  "ARDS_CASE k =
     switch [(K_ards, Found HDR_MAXFORWARDS_T 12 (Adv 4 Dc_cont))] k"

definition FORW_CASE :: "hcode \<Rightarrow> hcode" where
  "FORW_CASE k =
     switch [(K_forw, Adv 4 (Read (ARDS_CASE Other)))] k"

definition max_CASE :: "hcode" where
  "max_CASE =
     Adv 4 (Read (FORW_CASE Other))"

definition OUTE_CASE :: "hcode \<Rightarrow> hcode" where
  "OUTE_CASE k =
     switch [(K_oute, Found HDR_RECORDROUTE_T 12 (Adv 4 Dc_cont))] k"

definition RD_R_CASE :: "hcode \<Rightarrow> hcode" where
  "RD_R_CASE k =
     switch [(K_rd_r, Adv 4 (Read (OUTE_CASE Other)))] k"

definition reco_CASE :: "hcode" where
  "reco_CASE =
     Adv 4 (Read (RD_R_CASE Other))"

definition path_CASE :: "hcode" where
  "path_CASE =
     Adv 4 (Found HDR_PATH_T 4 Dc_cont)"

definition AUTH_ATIO_CASE :: "hcode \<Rightarrow> hcode" where
  "AUTH_ATIO_CASE k =
     switch [(K_atio, Adv 4 (If_low 0 CHR ''n'' (Found HDR_AUTHORIZATION_T 13 (Adv 1 Dc_cont)) Other))] k"

definition AUTH_ORIZ_CASE :: "hcode \<Rightarrow> hcode" where
  "AUTH_ORIZ_CASE k =
     switch [(K_oriz, Adv 4 (Read (AUTH_ATIO_CASE Other)))] k"

definition auth_CASE :: "hcode" where
  "auth_CASE =
     Adv 4 (Read (AUTH_ORIZ_CASE Other))"

definition EXPI_RES_CASE :: "hcode \<Rightarrow> hcode" where
  "EXPI_RES_CASE k =
     switch [(K_res1, Found HDR_EXPIRES_T 7 (Ret 4)),
       (K_res2, Found HDR_EXPIRES_T 7 (Adv 4 Dc_cont))] k"

definition expi_CASE :: "hcode" where
  "expi_CASE =
     Adv 4 (Read (EXPI_RES_CASE Other))"

text \<open>\<^verbatim>\<open>case_prox.h\<close>\<close>

definition ION_CASE :: "hcode \<Rightarrow> hcode" where
  "ION_CASE k =
     switch [(K_ion1, Found HDR_PROXYAUTH_T 19 (Ret 4)),
       (K_ion2, Found HDR_PROXYAUTH_T 19 (Adv 4 Dc_cont))] k"

definition IZAT_CASE :: "hcode \<Rightarrow> hcode" where
  "IZAT_CASE k =
     switch [(K_izat, Adv 4 (Read (ION_CASE Other)))] k"

definition TE_CASE :: "hcode \<Rightarrow> hcode" where
  "TE_CASE k =
     If_low 0 CHR ''t'' (If_low 1 CHR ''e'' (Found HDR_PROXY_AUTHENTICATE_T 18 (Adv 2 Dc_cont)) k) k"

definition TICA_CASE :: "hcode \<Rightarrow> hcode" where
  "TICA_CASE k =
     switch [(K_tica, Adv 4 (Read (TE_CASE Other)))] k"

definition TH2_CASE :: "hcode \<Rightarrow> hcode" where
  "TH2_CASE k =
     switch [(K_thor, Adv 4 (Read (IZAT_CASE Other))),
       (K_then, Adv 4 (Read (TICA_CASE Other)))] k"

definition QUIR_CASE :: "hcode \<Rightarrow> hcode" where
  "QUIR_CASE k =
     switch [(K_quir, Adv 4 (If_low 0 CHR ''e'' (Found HDR_PROXYREQUIRE_T 13 (Adv 1 Dc_cont)) Other))] k"

definition PROX2_CASE :: "hcode \<Rightarrow> hcode" where
  "PROX2_CASE k =
     switch [(K_y_au, Adv 4 (Read (TH2_CASE Other))),
       (K_y_re, Adv 4 (Read (QUIR_CASE Other)))] k"

definition prox_CASE :: "hcode" where
  "prox_CASE =
     Adv 4 (Read (PROX2_CASE Other))"

text \<open>\<^verbatim>\<open>case_allo.h\<close>, \<^verbatim>\<open>case_unsu.h\<close>, \<^verbatim>\<open>case_even.h\<close>, \<^verbatim>\<open>case_acce.h\<close>\<close>

definition allo_CASE :: "hcode" where
  "allo_CASE =
     Adv 4 (If_low 0 CHR ''w'' (Found HDR_ALLOW_T 5 (Adv 1 Dc_cont)) Other)"

definition TED_CASE :: "hcode \<Rightarrow> hcode" where
  "TED_CASE k =
     switch [(K_ted1, Found HDR_UNSUPPORTED_T 11 (Ret 4)),
       (K_ted2, Found HDR_UNSUPPORTED_T 11 (Adv 4 Dc_cont))] k"

definition PPOR_CASE :: "hcode \<Rightarrow> hcode" where
  "PPOR_CASE k =
     switch [(K_ppor, Adv 4 (Read (TED_CASE Other)))] k"

definition unsu_CASE :: "hcode" where
  "unsu_CASE =
     Adv 4 (Read (PPOR_CASE Other))"

definition even_CASE :: "hcode" where
  "even_CASE =
     Adv 4 (If_low 0 CHR ''t'' (Found HDR_EVENT_T 5 (Adv 1 Dc_cont)) Other)"

definition age_CASE :: "hcode \<Rightarrow> hcode" where
  "age_CASE k =
     switch [(K_age1, Found HDR_ACCEPTLANGUAGE_T 15 (Ret 4)),
       (K_age2, Found HDR_ACCEPTLANGUAGE_T 15 (Adv 4 Dc_cont))] k"

definition angu_CASE :: "hcode \<Rightarrow> hcode" where
  "angu_CASE k =
     switch [(K_angu, Adv 4 (Read (age_CASE Other)))] k"

definition on_CASE :: "hcode \<Rightarrow> hcode" where
  "on_CASE k =
     If_low 0 CHR ''o'' (Adv 1 (If_low 0 CHR ''n'' (Found HDR_ACCEPTDISPOSITION_T 18 (Adv 1 Dc_cont)) k)) k"

definition siti_CASE :: "hcode \<Rightarrow> hcode" where
  "siti_CASE k =
     switch [(K_siti, Adv 4 (Read (on_CASE Other)))] k"

definition ispo_CASE :: "hcode \<Rightarrow> hcode" where
  "ispo_CASE k =
     switch [(K_ispo, Adv 4 (Read (siti_CASE Other)))] k"

definition ptld_CASE :: "hcode \<Rightarrow> hcode" where
  "ptld_CASE k =
     switch [(K_pt_l, Adv 4 (Read (angu_CASE Other))),
       (K_pt_d, Adv 4 (Read (ispo_CASE Other)))] k"

definition acce_CASE :: "hcode" where
  "acce_CASE =
     Adv 4 (Read (ptld_CASE
       (If_low 0 CHR ''p'' (Adv 1 (If_low 0 CHR ''t'' (Found HDR_ACCEPT_T 6 (Adv 1 Dc_cont)) Other)) Other)))"

text \<open>\<^verbatim>\<open>case_orga.h\<close>, \<^verbatim>\<open>case_prio.h\<close>, \<^verbatim>\<open>case_subj.h\<close>, \<^verbatim>\<open>case_user.h\<close>, \<^verbatim>\<open>case_supp.h\<close>, \<^verbatim>\<open>case_dive.h\<close>\<close>

definition tion_CASE :: "hcode \<Rightarrow> hcode" where
  "tion_CASE k =
     switch [(K_tion, Found HDR_ORGANIZATION_T 12 (Adv 4 Dc_cont))] k"

definition niza_CASE :: "hcode \<Rightarrow> hcode" where
  "niza_CASE k =
     switch [(K_niza, Adv 4 (Read (tion_CASE Other)))] k"

definition orga_CASE :: "hcode" where
  "orga_CASE =
     Adv 4 (Read (niza_CASE Other))"

definition rity_CASE :: "hcode \<Rightarrow> hcode" where
  "rity_CASE k =
     switch [(K_rity, Found HDR_PRIORITY_T 8 (Adv 4 Dc_cont))] k"

definition prio_CASE :: "hcode" where
  "prio_CASE =
     Adv 4 (Read (rity_CASE Other))"

definition ect_CASE :: "hcode \<Rightarrow> hcode" where
  "ect_CASE k =
     switch [(K_ect1, Found HDR_SUBJECT_T 7 (Ret 4)),
       (K_ect2, Found HDR_SUBJECT_T 7 (Adv 4 Dc_cont))] k"

definition subj_CASE :: "hcode" where
  "subj_CASE =
     Adv 4 (Read (ect_CASE Other))"

definition nt_CASE :: "hcode" where
  "nt_CASE =
     If_low 0 CHR ''n'' (Adv 1 (If_low 0 CHR ''t'' (Found HDR_USERAGENT_T 10 (Adv 1 Dc_cont)) Other)) Other"

definition user_CASE :: "hcode" where
  "user_CASE =
     Adv 4 (Read (switch [(K_dash_age, Adv 4 nt_CASE)] Other))"

definition ORTE_CASE :: "hcode \<Rightarrow> hcode" where
  "ORTE_CASE k =
     switch [(K_orte, Adv 4 (If_low 0 CHR ''d'' (Found HDR_SUPPORTED_T 9 (Adv 1 Dc_cont)) Other))] k"

definition supp_CASE :: "hcode" where
  "supp_CASE =
     Adv 4 (Read (ORTE_CASE Other))"

definition RSIO_CASE :: "hcode \<Rightarrow> hcode" where
  "RSIO_CASE k =
     switch [(K_rsio, Adv 4 (If_low 0 CHR ''n'' (Found HDR_DIVERSION_T 9 (Adv 1 Dc_cont)) Other))] k"

definition dive_CASE :: "hcode" where
  "dive_CASE =
     Adv 4 (Read (RSIO_CASE Other))"

text \<open>\<^verbatim>\<open>case_remo.h\<close>, \<^verbatim>\<open>case_refe.h\<close>, \<^verbatim>\<open>case_sess.h\<close>, \<^verbatim>\<open>case_min_.h\<close>\<close>

definition RPID_ID_CASE :: "hcode \<Rightarrow> hcode" where
  "RPID_ID_CASE k =
     switch [(K_dash_id1, Found HDR_RPID_T 15 (Ret 4)),
       (K_dash_id2, Found HDR_RPID_T 15 (Adv 4 Dc_cont))] k"

definition ARTY_CASE :: "hcode \<Rightarrow> hcode" where
  "ARTY_CASE k =
     switch [(K_arty, Adv 4 (Read (RPID_ID_CASE Other)))] k"

definition TE_P_CASE :: "hcode \<Rightarrow> hcode" where
  "TE_P_CASE k =
     switch [(K_te_p, Adv 4 (Read (ARTY_CASE Other)))] k"

definition remo_CASE :: "hcode" where
  "remo_CASE =
     Adv 4 (Read (TE_P_CASE Other))"

definition r_to_CASE :: "hcode \<Rightarrow> hcode" where
  "r_to_CASE k =
     switch [(K_r_to, Found HDR_REFER_TO_T 8 (Adv 4 Dc_cont))] k"

definition refe_CASE :: "hcode" where
  "refe_CASE =
     Adv 4 (Read (r_to_CASE Other))"

definition RES_CASE :: "hcode \<Rightarrow> hcode" where
  "RES_CASE k =
     switch [(K_res1, Found HDR_SESSION_EXPIRES_T 15 (Ret 4)),
       (K_res2, Found HDR_SESSION_EXPIRES_T 15 (Adv 4 Dc_cont))] k"

definition EXPI_CASE :: "hcode \<Rightarrow> hcode" where
  "EXPI_CASE k =
     switch [(K_expi, Adv 4 (Read (RES_CASE Other)))] k"

definition ION__CASE :: "hcode \<Rightarrow> hcode" where
  "ION__CASE k =
     switch [(K_ion, Adv 4 (Read (EXPI_CASE Other)))] k"

definition sess_CASE :: "hcode" where
  "sess_CASE =
     Adv 4 (Read (ION__CASE Other))"

definition res__CASE :: "hcode \<Rightarrow> hcode" where
  "res__CASE k =
     switch [(K_res1, Found HDR_MIN_EXPIRES_T 11 (Ret 4)),
       (K_res2, Found HDR_MIN_EXPIRES_T 11 (Adv 4 Dc_cont))] k"

definition SE_EXPI_CASE :: "hcode \<Rightarrow> hcode" where
  "SE_EXPI_CASE k =
     If_low 0 CHR ''s'' (Adv 1 (If_low 0 CHR ''e'' (Found HDR_MIN_SE_T 6 (Adv 1 Dc_cont)) Other))
       (Read (switch [(K_expi, Adv 4 (Read (res__CASE Other)))] k))"

definition min__CASE :: "hcode" where
  "min__CASE =
     Adv 4 (SE_EXPI_CASE Other)"

text \<open>\<^verbatim>\<open>case_p_pr.h\<close>, \<^verbatim>\<open>case_p_as.h\<close>, \<^verbatim>\<open>case_priv.h\<close>, \<^verbatim>\<open>case_retr.h\<close>, \<^verbatim>\<open>case_www.h\<close>, \<^verbatim>\<open>case_feat.h\<close>, \<^verbatim>\<open>case_repl.h\<close>\<close>

definition TITY_CASE :: "hcode \<Rightarrow> hcode" where
  "TITY_CASE k =
     switch [(K_tity, Found HDR_PPI_T 20 (Adv 4 Dc_cont))] k"

definition IDEN_CASE :: "hcode \<Rightarrow> hcode" where
  "IDEN_CASE k =
     switch [(K_iden, Adv 4 (Read (TITY_CASE Other)))] k"

definition RED__CASE :: "hcode \<Rightarrow> hcode" where
  "RED__CASE k =
     switch [(K_red, Adv 4 (Read (IDEN_CASE Other)))] k"

definition EFER_CASE :: "hcode \<Rightarrow> hcode" where
  "EFER_CASE k =
     switch [(K_efer, Adv 4 (Read (RED__CASE Other)))] k"

definition p_pr_CASE :: "hcode" where
  "p_pr_CASE =
     Adv 4 (Read (EFER_CASE Other))"

definition ITY_CASE :: "hcode \<Rightarrow> hcode" where
  "ITY_CASE k =
     switch [(K_ity1, Found HDR_PAI_T 19 (Ret 4)),
       (K_ity2, Found HDR_PAI_T 19 (Adv 4 Dc_cont))] k"

definition DENT_CASE :: "hcode \<Rightarrow> hcode" where
  "DENT_CASE k =
     switch [(K_dent, Adv 4 (Read (ITY_CASE Other)))] k"

definition ED_I_CASE :: "hcode \<Rightarrow> hcode" where
  "ED_I_CASE k =
     switch [(K_ed_i, Adv 4 (Read (DENT_CASE Other)))] k"

definition SERT_CASE :: "hcode \<Rightarrow> hcode" where
  "SERT_CASE k =
     switch [(K_sert, Adv 4 (Read (ED_I_CASE Other)))] k"

definition p_as_CASE :: "hcode" where
  "p_as_CASE =
     Adv 4 (Read (SERT_CASE Other))"

definition ACY_CASE :: "hcode \<Rightarrow> hcode" where
  "ACY_CASE k =
     switch [(K_acy1, Found HDR_PRIVACY_T 7 (Ret 4)),
       (K_acy2, Found HDR_PRIVACY_T 7 (Adv 4 Dc_cont))] k"

definition priv_CASE :: "hcode" where
  "priv_CASE =
     Adv 4 (Read (ACY_CASE Other))"

definition ter_CASE :: "hcode \<Rightarrow> hcode" where
  "ter_CASE k =
     switch [(K_ter1, Found HDR_RETRY_AFTER_T 11 (Ret 4)),
       (K_ter2, Found HDR_RETRY_AFTER_T 11 (Adv 4 Dc_cont))] k"

definition y_af_CASE :: "hcode \<Rightarrow> hcode" where
  "y_af_CASE k =
     switch [(K_y_af, Adv 4 (Read (ter_CASE Other)))] k"

definition retr_CASE :: "hcode" where
  "retr_CASE =
     Adv 4 (Read (y_af_CASE Other))"

definition CATE_CASE :: "hcode \<Rightarrow> hcode" where
  "CATE_CASE k =
     switch [(K_cate, Found HDR_WWW_AUTHENTICATE_T 16 (Adv 4 Dc_cont))] k"

definition ENTI_CASE :: "hcode \<Rightarrow> hcode" where
  "ENTI_CASE k =
     switch [(K_enti, Adv 4 (Read (CATE_CASE Other)))] k"

definition WWW_AUTH_CASE :: "hcode \<Rightarrow> hcode" where
  "WWW_AUTH_CASE k =
     switch [(K_auth, Adv 4 (Read (ENTI_CASE Other)))] k"

definition www_CASE :: "hcode" where
  "www_CASE =
     Adv 4 (Read (WWW_AUTH_CASE Other))"

definition caps_CASE :: "hcode \<Rightarrow> hcode" where
  "caps_CASE k =
     switch [(K_caps, Adv 4 (If_char 0 CHR '':'' (Found HDR_FEATURE_CAPS_T 12 (Ret 1)) (Adv 1 Dc_cont)))] k"

definition ure__CASE :: "hcode \<Rightarrow> hcode" where
  "ure__CASE k =
     switch [(K_ure, Adv 4 (Read (caps_CASE Other)))] k"

definition feat_CASE :: "hcode \<Rightarrow> hcode" where
  "feat_CASE k =
     switch [(K_feat, Adv 4 (Read (ure__CASE Other)))] k"

definition aces_CASE :: "hcode \<Rightarrow> hcode" where
  "aces_CASE k =
     switch [(K_aces, Adv 4 (If_char 0 CHR '':'' (Found HDR_REPLACES_T 8 (Ret 1)) (Adv 1 Dc_cont)))] k"

definition repl_CASE :: "hcode \<Rightarrow> hcode" where
  "repl_CASE k =
     switch [(K_repl, Adv 4 (Read (aces_CASE Other)))] k"

text \<open>The \<^verbatim>\<open>default\<close> branch: the compact forms.\<close>

definition PARSE_COMPACT :: "hdr_types \<Rightarrow> hcode" where
  "PARSE_COMPACT ty =
     If_char 1 SPC (Found ty 1 (Adv 2 Dc_end))
       (If_char 1 TAB (Found ty 1 (Adv 2 Dc_end))
         (If_char 1 CHR '':'' (Found ty 1 (Ret 2)) Other))"

definition compact_to :: hcode where
  "compact_to =
     If_low 1 CHR ''o'' (Adv 2 (Found HDR_TO_T 2 Dc_cont))
       (If_low 1 SPC (Adv 2 (Found HDR_TO_T 1 Dc_end))
         (If_low 1 TAB (Adv 2 (Found HDR_TO_T 1 Dc_end))
           (If_low 1 CHR '':'' (Found HDR_TO_T 1 (Ret 2)) Other)))"

definition compact_code :: hcode where
  "compact_code =
     If_low 0 CHR ''t'' compact_to
    (If_low 0 CHR ''v'' (PARSE_COMPACT HDR_VIA_T)
    (If_low 0 CHR ''f'' (PARSE_COMPACT HDR_FROM_T)
    (If_low 0 CHR ''i'' (PARSE_COMPACT HDR_CALLID_T)
    (If_low 0 CHR ''m'' (PARSE_COMPACT HDR_CONTACT_T)
    (If_low 0 CHR ''l'' (PARSE_COMPACT HDR_CONTENTLENGTH_T)
    (If_low 0 CHR ''k'' (PARSE_COMPACT HDR_SUPPORTED_T)
    (If_low 0 CHR ''c'' (PARSE_COMPACT HDR_CONTENTTYPE_T)
    (If_low 0 CHR ''o'' (PARSE_COMPACT HDR_EVENT_T)
    (If_low 0 CHR ''x'' (PARSE_COMPACT HDR_SESSION_EXPIRES_T) Other)))))))))"

definition FIRST_QUATERNIONS :: "(32 word \<times> hcode) list" where
  "FIRST_QUATERNIONS =
     [(K_via1, via1_CASE), (K_from, from_CASE), (K_to12, to12_CASE), (K_cseq, cseq_CASE),
      (K_call, call_CASE), (K_cont, cont_CASE), (K_rout, rout_CASE), (K_max, max_CASE), (K_reco,
      reco_CASE), (K_via2, via2_CASE), (K_auth, auth_CASE), (K_supp, supp_CASE), (K_expi,
      expi_CASE), (K_prox, prox_CASE), (K_allo, allo_CASE), (K_path, path_CASE), (K_unsu,
      unsu_CASE), (K_even, even_CASE), (K_acce, acce_CASE), (K_orga, orga_CASE), (K_prio,
      prio_CASE), (K_subj, subj_CASE), (K_user, user_CASE), (K_dive, dive_CASE), (K_remo,
      remo_CASE), (K_refe, refe_CASE), (K_sess, sess_CASE), (K_min, min__CASE), (K_p_pr,
      p_pr_CASE), (K_p_as, p_as_CASE), (K_priv, priv_CASE), (K_retr, retr_CASE), (K_www,
      www_CASE), (K_feat, feat_CASE Other), (K_repl, repl_CASE Other)]"

text \<open>The whole \<^verbatim>\<open>switch\<close>, from \<^verbatim>\<open>val = LOWER_DWORD(READ(p))\<close> on (lowering twice is lowering once).\<close>

definition hname_code :: hcode where
  "hname_code = Read (switch FIRST_QUATERNIONS compact_code)"

text \<open>The macros \<^verbatim>\<open>LOWER_BYTE\<close>, \<^verbatim>\<open>LOWER_DWORD\<close> and \<^verbatim>\<open>READ\<close>; a \<^verbatim>\<open>char\<close> is sign-extended before it is shifted.\<close>

definition LOWER_BYTE :: "char \<Rightarrow> int" where
  "LOWER_BYTE c = or (schar c) 0x20"

definition LOWER_DWORD :: "32 word \<Rightarrow> 32 word" where
  "LOWER_DWORD d = or d 0x20202020"

definition dword :: "char \<Rightarrow> char \<Rightarrow> char \<Rightarrow> char \<Rightarrow> 32 word" where
  "dword a b c d = of_int (schar a) + push_bit 8 (of_int (schar b)) + push_bit 16 (of_int (schar c)) +
     push_bit 24 (of_int (schar d))"

definition READ :: "mem \<Rightarrow> ptr \<Rightarrow> 32 word option" where
  "READ m p = do {
     a \<leftarrow> rd m p; b \<leftarrow> rd m (p + 1); c \<leftarrow> rd m (p + 2); d \<leftarrow> rd m (p + 3);
     Some (dword a b c d) }"

datatype hexit = H_ret ptr | H_end ptr | H_cont ptr | H_other ptr

primrec run_code :: "mem \<Rightarrow> hcode \<Rightarrow> ptr \<Rightarrow> 32 word \<Rightarrow> 'a hdr_name_scheme \<Rightarrow> (hexit \<times> 'a hdr_name_scheme) option" where
  "run_code m (Case k c r) p val hdr = (if LOWER_DWORD val = k then run_code m c p val hdr else run_code m r p val hdr)"
| "run_code m (If_low i ch c r) p val hdr = do {
     x \<leftarrow> rd m (p + i);
     if LOWER_BYTE x = schar ch then run_code m c p val hdr else run_code m r p val hdr }"
| "run_code m (If_char i ch c r) p val hdr = do {
     x \<leftarrow> rd m (p + i);
     if x = ch then run_code m c p val hdr else run_code m r p val hdr }"
| "run_code m (Adv n c) p val hdr = run_code m c (p + n) val hdr"
| "run_code m (Read c) p val hdr = do { v \<leftarrow> READ m p; run_code m c p v hdr }"
| "run_code m (Found ty len c) p val hdr =
     run_code m c p val (hdr\<lparr>h_type := ty, h_name := (h_name hdr)\<lparr>str_len := len\<rparr>\<rparr>)"
| "run_code m (Ret n) p val hdr = Some (H_ret (p + n), hdr)"
| "run_code m Dc_end p val hdr = Some (H_end p, hdr)"
| "run_code m Dc_cont p val hdr = Some (H_cont p, hdr)"
| "run_code m Other p val hdr = Some (H_other p, hdr)"

definition skip_ws :: "mem \<Rightarrow> ptr \<Rightarrow> ptr \<Rightarrow> ptr option" where
  "skip_ws = scan_while (\<lambda>c. \<not> (c \<noteq> SPC \<and> c \<noteq> TAB))"

text \<open>The labels \<^verbatim>\<open>error\<close>, \<^verbatim>\<open>dc_end\<close>, \<^verbatim>\<open>other\<close> and \<^verbatim>\<open>dc_cont\<close>; \<open>None\<close> as pointer is \<^verbatim>\<open>return 0\<close>.\<close>

type_synonym 'a hname_res = "(ptr option \<times> 'a hdr_name_scheme) option"

definition hname_error :: "'a hdr_name_scheme \<Rightarrow> 'a hname_res" where
  "hname_error hdr = Some (None, hdr\<lparr>h_type := HDR_ERROR_T, h_name := str_null\<rparr>)"

definition expect_colon :: "mem \<Rightarrow> ptr \<Rightarrow> ptr \<Rightarrow> 'a hdr_name_scheme \<Rightarrow> 'a hname_res" where
  "expect_colon m p e hdr = do {
     q \<leftarrow> skip_ws m p e;
     c \<leftarrow> rd m q;
     if c \<noteq> CHR '':'' then hname_error hdr else Some (Some (q + 1), hdr) }"

definition dc_end :: "mem \<Rightarrow> ptr \<Rightarrow> ptr \<Rightarrow> 'a hdr_name_scheme \<Rightarrow> 'a hname_res" where
  "dc_end m p e hdr = (if p \<ge> e then hname_error hdr else expect_colon m p e hdr)"

function other_loop :: "mem \<Rightarrow> ptr \<Rightarrow> ptr \<Rightarrow> 'a hdr_name_scheme \<Rightarrow> 'a hname_res" where
  "other_loop m p e hdr =
     (if p < e then do {
        c \<leftarrow> rd m p;
        let named = hdr\<lparr>h_name := (h_name hdr)\<lparr>str_len := int p - int (the (str_s (h_name hdr)))\<rparr>\<rparr>;
        if c = CHR '':'' then Some (Some (p + 1), named)
        else if c = SPC \<or> c = TAB then expect_colon m (p + 1) e named
        else other_loop m (Suc p) e hdr }
      else hname_error hdr)"
  by pat_completeness auto
termination
  by (relation "measure (\<lambda>(m, p, e, hdr). e - p)") auto

declare other_loop.simps [simp del]

definition hname_other :: "mem \<Rightarrow> ptr \<Rightarrow> ptr \<Rightarrow> 'a hdr_name_scheme \<Rightarrow> 'a hname_res" where
  "hname_other m p e hdr = other_loop m p e (hdr\<lparr>h_type := HDR_OTHER_T\<rparr>)"

definition dc_cont :: "mem \<Rightarrow> ptr \<Rightarrow> ptr \<Rightarrow> 'a hdr_name_scheme \<Rightarrow> 'a hname_res" where
  "dc_cont m p e hdr =
     (if p \<ge> e then hname_error hdr
      else do {
        c \<leftarrow> rd m p;
        if c = CHR '':'' then Some (Some (p + 1), hdr)
        else if c = SPC \<or> c = TAB then expect_colon m (p + 1) e hdr
        else hname_other m p e hdr })"

definition parse_hname2 :: "mem \<Rightarrow> ptr \<Rightarrow> ptr \<Rightarrow> 'a hdr_name_scheme \<Rightarrow> 'a hname_res" where
  "parse_hname2 m bgn e hdr0 =
     (if int e - int bgn < 4 then Some (Some bgn, hdr0\<lparr>h_type := HDR_ERROR_T\<rparr>)
      else do {
        (x, hdr) \<leftarrow> run_code m hname_code bgn 0 (hdr0\<lparr>h_name := (h_name hdr0)\<lparr>str_s := Some bgn\<rparr>\<rparr>);
        case x of
          H_ret p \<Rightarrow> Some (Some p, hdr)
        | H_end p \<Rightarrow> dc_end m p e hdr
        | H_cont p \<Rightarrow> dc_cont m p e hdr
        | H_other p \<Rightarrow> hname_other m p e hdr })"

section \<open>Comparing four bytes at a time\<close>

text \<open>The byte the comparisons see, and the four bytes of a key.\<close>

definition low :: "char \<Rightarrow> nat" where
  "low c = or (of_char c) 32"

definition key_bytes :: "32 word \<Rightarrow> nat list" where
  "key_bytes k = map (\<lambda>i. unat k div 256 ^ i mod 256) [0, 1, 2, 3]"

lemma int_low: "int (low c) = or (uchar c) 32"
  by (simp add: low_def uchar_def of_nat_or_eq)

lemma or_div_mod:
  fixes w :: int
  shows "or w (32 + 256 * M) mod 256 = or (w mod 256) 32" and "or w (32 + 256 * M) div 256 = or (w div 256) M"
proof -
  have "take_bit 8 (32 + 256 * M) = 32" and "drop_bit 8 (32 + 256 * M) = M"
    by (simp_all add: take_bit_eq_mod drop_bit_eq_div)
  then show "or w (32 + 256 * M) mod 256 = or (w mod 256) 32" and "or w (32 + 256 * M) div 256 = or (w div 256) M"
    using take_bit_or [of 8 w "32 + 256 * M"] drop_bit_or [of 8 w "32 + 256 * M"]
    by (simp_all add: take_bit_eq_mod drop_bit_eq_div)
qed

lemma or_32_less: "0 \<le> u \<Longrightarrow> u < 256 \<Longrightarrow> or u (32 :: int) < 128 \<longleftrightarrow> u < 128"
proof -
  assume u: "0 \<le> u" "u < 256"
  define w where "w = or u (32 :: int)"
  have "w div 128 = u div 128"
    using drop_bit_or [of 7 u 32] by (simp add: drop_bit_eq_div w_def)
  moreover have "0 \<le> w" using u by (simp add: w_def)
  ultimately show ?thesis unfolding w_def [symmetric] using u by presburger
qed

lemma digit_unique:
  fixes r k x K :: int
  shows "0 \<le> r \<Longrightarrow> r < 256 \<Longrightarrow> 0 \<le> k \<Longrightarrow> k < 256 \<Longrightarrow> r + 256 * x = k + 256 * K \<longleftrightarrow> r = k \<and> x = K"
  by (cases x K rule: linorder_cases) auto

lemma lower_step:
  fixes V M K :: int
  assumes "0 \<le> k" and "k < 128" and "0 \<le> K" and "K < 2 ^ n"
  shows "or (schar c + 256 * V) (32 + 256 * M) mod (256 * 2 ^ n) = k + 256 * K \<longleftrightarrow>
    int (low c) = k \<and> or V M mod 2 ^ n = K"
proof -
  define W where "W = or (schar c + 256 * V) (32 + 256 * M)"
  have sm: "(schar c + 256 * V) mod 256 = uchar c"
    by (simp add: schar_def mod_diff_left_eq [symmetric])
  have low: "W mod 256 = int (low c)"
    unfolding W_def or_div_mod sm int_low ..
  have split: "W mod (256 * 2 ^ n) = W mod 256 + 256 * (W div 256 mod 2 ^ n)"
    by (subst zmod_zmult2_eq) simp_all
  have "W mod (256 * 2 ^ n) = k + 256 * K \<longleftrightarrow> W mod 256 = k \<and> W div 256 mod 2 ^ n = K"
    unfolding split using assms by (intro digit_unique) auto
  moreover have "W div 256 = or V M" if "int (low c) = k"
  proof -
    have "uchar c < 128" using that or_32_less [of "uchar c"] assms(2) by (simp add: int_low)
    then show ?thesis unfolding W_def or_div_mod by (simp add: schar_def)
  qed
  ultimately show ?thesis
    unfolding W_def [symmetric] low by auto
qed

lemma dword_key:
  assumes "\<forall>b \<in> set (key_bytes k). b < 128"
  shows "LOWER_DWORD (dword a b c d) = k \<longleftrightarrow> map low [a, b, c, d] = key_bytes k"
proof -
  define V where "V = schar a + 256 * (schar b + 256 * (schar c + 256 * (schar d + 256 * 0)))"
  define M :: int where "M = 32 + 256 * (32 + 256 * (32 + 256 * (32 + 256 * 0)))"
  define k0 k1 k2 k3 where "k0 = uint k mod 256" and "k1 = uint k div 256 mod 256"
    and "k2 = uint k div 65536 mod 256" and "k3 = uint k div 16777216 mod 256"
  have kb: "map int (key_bytes k) = [k0, k1, k2, k3]"
    by (simp add: key_bytes_def k0_def k1_def k2_def k3_def zmod_int zdiv_int)
  then have small: "k0 < 128" "k1 < 128" "k2 < 128" "k3 < 128"
    using assms by (auto simp: key_bytes_def)
  have nn: "0 \<le> k0" "0 \<le> k1" "0 \<le> k2" "0 \<le> k3"
    by (simp_all add: k0_def k1_def k2_def k3_def)
  define q where "q = uint k div 256"
  have "uint k < 4294967296" "0 \<le> uint k" using uint_lt2p [of k] by simp_all
  then have "0 \<le> q div 256 div 256" "q div 256 div 256 < 256"
    unfolding q_def by (simp_all add: zdiv_zmult2_eq [symmetric] pos_imp_zdiv_nonneg_iff div_less_iff_less_mult)
  then have k3: "k3 = q div 256 div 256"
    by (simp add: k3_def q_def zdiv_zmult2_eq [symmetric])
  have "k2 = q div 256 mod 256" "k1 = q mod 256" "uint k = k0 + 256 * q"
    by (simp_all add: k2_def k1_def k0_def q_def zdiv_zmult2_eq [symmetric])
  then have k: "uint k = k0 + 256 * (k1 + 256 * (k2 + 256 * (k3 + 256 * 0)))"
    unfolding k3 by simp
  have dw: "dword a b c d = of_int V"
    by (simp add: dword_def V_def push_bit_eq_mult algebra_simps)
  have "uint (LOWER_DWORD (dword a b c d)) = or (take_bit 32 V) M"
    by (simp add: LOWER_DWORD_def dw unsigned_or_eq M_def uint_word_of_int_eq)
  also have "\<dots> = take_bit 32 (or V M)"
    by (simp add: M_def)
  also have "\<dots> = or V M mod (256 * 2 ^ 24)"
    by (simp add: take_bit_eq_mod)
  finally have "LOWER_DWORD (dword a b c d) = k \<longleftrightarrow>
      or V M mod (256 * 2 ^ 24) = k0 + 256 * (k1 + 256 * (k2 + 256 * (k3 + 256 * 0)))"
    by (simp add: word_uint_eq_iff k)
  also have "\<dots> \<longleftrightarrow> int (low a) = k0 \<and> int (low b) = k1 \<and> int (low c) = k2 \<and> int (low d) = k3"
  proof -
    have p24: "(2 :: int) ^ 24 = 256 * 2 ^ 16" and p16: "(2 :: int) ^ 16 = 256 * 2 ^ 8"
      and p8: "(2 :: int) ^ 8 = 256 * 2 ^ 0" by simp_all
    have s: "k1 + 256 * (k2 + 256 * (k3 + 256 * 0)) < 2 ^ 24" "k2 + 256 * (k3 + 256 * 0) < 2 ^ 16" "k3 + 256 * 0 < 2 ^ 8"
      "(0 :: int) < 2 ^ 0" "0 \<le> k1 + 256 * (k2 + 256 * (k3 + 256 * 0))" "0 \<le> k2 + 256 * (k3 + 256 * 0)" "0 \<le> k3 + 256 * 0"
      using small nn by simp_all
    show ?thesis
      unfolding V_def M_def lower_step [OF nn(1) small(1) s(5) s(1)]
      unfolding p24 lower_step [OF nn(2) small(2) s(6) s(2)]
      unfolding p16 lower_step [OF nn(3) small(3) s(7) s(3)]
      unfolding p8 lower_step [OF nn(4) small(4) order_refl s(4)] by simp
  qed
  also have "\<dots> \<longleftrightarrow> map int (map low [a, b, c, d]) = map int (key_bytes k)"
    unfolding kb by simp
  also have "\<dots> \<longleftrightarrow> map low [a, b, c, d] = key_bytes k"
    by (rule inj_map_eq_map [OF inj_of_nat])
  finally show ?thesis .
qed

lemma low_byte:
  assumes "of_char ch < (128 :: nat)"
  shows "LOWER_BYTE c = schar ch \<longleftrightarrow> low c = of_char ch"
proof -
  have "schar ch = int (of_char ch)" using assms by (simp add: schar_def uchar_def)
  moreover have "LOWER_BYTE c = int (low c)" if "schar c = uchar c"
    using that by (simp add: LOWER_BYTE_def int_low)
  moreover have "LOWER_BYTE c < 0 \<and> 128 \<le> low c" if "schar c \<noteq> uchar c"
  proof
    show "LOWER_BYTE c < 0" using that by (auto simp: LOWER_BYTE_def schar_def split: if_splits)
    show "128 \<le> low c"
      using that or_32_less [of "uchar c"] int_low [of c] by (auto simp: schar_def split: if_splits)
  qed
  ultimately show ?thesis using assms by (cases "schar c = uchar c") auto
qed

section \<open>The tree on a list of bytes\<close>

text \<open>
  \<open>run_list c v xs\<close> is the run of \<open>c\<close> where \<open>xs\<close> are the bytes from \<^verbatim>\<open>p\<close> on and \<open>v\<close> the four bytes of \<^verbatim>\<open>val\<close>:
  how the run leaves the tree, and the type and length it has set.
\<close>

datatype hout = O_ret nat | O_end nat | O_cont nat | O_other nat

fun out_add :: "nat \<Rightarrow> hout \<times> 'f \<Rightarrow> hout \<times> 'f" where
  "out_add n (O_ret k, f) = (O_ret (n + k), f)"
| "out_add n (O_end k, f) = (O_end (n + k), f)"
| "out_add n (O_cont k, f) = (O_cont (n + k), f)"
| "out_add n (O_other k, f) = (O_other (n + k), f)"

type_synonym found = "(hdr_types \<times> int) option"

primrec run_list :: "hcode \<Rightarrow> char list \<Rightarrow> char list \<Rightarrow> found \<Rightarrow> hout \<times> found" where
  "run_list (Case k c r) v xs f = (if map low v = key_bytes k then run_list c v xs f else run_list r v xs f)"
| "run_list (If_low i ch c r) v xs f = (if low (xs ! i) = of_char ch then run_list c v xs f else run_list r v xs f)"
| "run_list (If_char i ch c r) v xs f = (if xs ! i = ch then run_list c v xs f else run_list r v xs f)"
| "run_list (Adv n c) v xs f = out_add n (run_list c v (drop n xs) f)"
| "run_list (Read c) v xs f = run_list c (take 4 xs) xs f"
| "run_list (Found ty len c) v xs f = run_list c v xs (Some (ty, len))"
| "run_list (Ret n) v xs f = (O_ret n, f)"
| "run_list Dc_end v xs f = (O_end 0, f)"
| "run_list Dc_cont v xs f = (O_cont 0, f)"
| "run_list Other v xs f = (O_other 0, f)"

text \<open>How many bytes from \<^verbatim>\<open>p\<close> on the tree may read or step over, and that its constants are ASCII.\<close>

primrec need :: "hcode \<Rightarrow> nat" where
  "need (Case k c r) = max (need c) (need r)"
| "need (If_low i ch c r) = max (Suc i) (max (need c) (need r))"
| "need (If_char i ch c r) = max (Suc i) (max (need c) (need r))"
| "need (Adv n c) = n + need c"
| "need (Read c) = max 4 (need c)"
| "need (Found ty len c) = need c"
| "need (Ret n) = n"
| "need Dc_end = 0"
| "need Dc_cont = 0"
| "need Other = 0"

primrec ascii_code :: "hcode \<Rightarrow> bool" where
  "ascii_code (Case k c r) \<longleftrightarrow> list_all (\<lambda>b. b < 128) (key_bytes k) \<and> ascii_code c \<and> ascii_code r"
| "ascii_code (If_low i ch c r) \<longleftrightarrow> of_char ch < (128 :: nat) \<and> ascii_code c \<and> ascii_code r"
| "ascii_code (If_char i ch c r) \<longleftrightarrow> ch \<in> {SPC, TAB, CHR '':''} \<and> ascii_code c \<and> ascii_code r"
| "ascii_code (Adv n c) \<longleftrightarrow> ascii_code c"
| "ascii_code (Read c) \<longleftrightarrow> ascii_code c"
| "ascii_code (Found ty len c) \<longleftrightarrow> ascii_code c"
| "ascii_code (Ret n) \<longleftrightarrow> True"
| "ascii_code Dc_end \<longleftrightarrow> True"
| "ascii_code Dc_cont \<longleftrightarrow> True"
| "ascii_code Other \<longleftrightarrow> True"

fun exit_at :: "ptr \<Rightarrow> hout \<Rightarrow> hexit" where
  "exit_at p (O_ret n) = H_ret (p + n)"
| "exit_at p (O_end n) = H_end (p + n)"
| "exit_at p (O_cont n) = H_cont (p + n)"
| "exit_at p (O_other n) = H_other (p + n)"

definition upd_found :: "found \<Rightarrow> 'a hdr_name_scheme \<Rightarrow> 'a hdr_name_scheme" where
  "upd_found f hdr = (case f of None \<Rightarrow> hdr
     | Some (ty, len) \<Rightarrow> hdr\<lparr>h_type := ty, h_name := (h_name hdr)\<lparr>str_len := len\<rparr>\<rparr>)"

lemma exit_at_add: "exit_at p (fst (out_add n x)) = exit_at (p + n) (fst x)" "snd (out_add n x) = snd x"
  by (cases x; cases "fst x"; simp add: add.assoc)+

text \<open>The value of \<^verbatim>\<open>val\<close> that four bytes give.\<close>

definition val_of :: "char list \<Rightarrow> 32 word" where
  "val_of v = dword (v ! 0) (v ! 1) (v ! 2) (v ! 3)"

lemma val_of_key:
  assumes "length v = 4" and "list_all (\<lambda>b. b < 128) (key_bytes k)"
  shows "LOWER_DWORD (val_of v) = k \<longleftrightarrow> map low v = key_bytes k"
proof -
  have "v = [v ! 0, v ! 1, v ! 2, v ! 3]"
    using assms(1) by (auto simp: numeral_eq_Suc length_Suc_conv)
  then have "map low v = map low [v ! 0, v ! 1, v ! 2, v ! 3]" by (rule arg_cong)
  then show ?thesis using dword_key [of k] assms(2) by (simp add: val_of_def list_all_iff)
qed

lemma READ_val: "p + 4 \<le> length m \<Longrightarrow> READ m p = Some (val_of (take 4 (drop p m)))"
  by (simp add: READ_def val_of_def add.commute)

lemma run_code_list:
  assumes "ascii_code c" and "p + need c \<le> length m" and "length v = 4"
  shows "run_code m c p (val_of v) (upd_found f hdr) =
    (let r = run_list c v (drop p m) f in Some (exit_at p (fst r), upd_found (snd r) hdr))"
  using assms
proof (induction c arbitrary: p v f)
  case (Case k c r)
  then show ?case using val_of_key [of v k] by (simp add: Let_def)
next
  case (If_low i ch c r)
  then show ?case by (simp add: Let_def low_byte)
next
  case (If_char i ch c r)
  then show ?case by (simp add: Let_def)
next
  case (Adv n c)
  then show ?case by (simp add: Let_def exit_at_add add.commute)
next
  case (Read c)
  have "length (take 4 (drop p m)) = 4" using Read.prems by simp
  with Read show ?case by (simp add: Let_def READ_val)
next
  case (Found ty len c)
  have "(upd_found f hdr)\<lparr>h_type := ty, h_name := (h_name (upd_found f hdr))\<lparr>str_len := len\<rparr>\<rparr> = upd_found (Some (ty, len)) hdr"
    by (auto simp: upd_found_def split: option.splits)
  with Found show ?case by simp
qed (simp_all add: Let_def)

text \<open>The tree sees the bytes only up to case.\<close>

definition same_byte :: "char \<Rightarrow> char \<Rightarrow> bool" where
  "same_byte a b \<longleftrightarrow> low a = low b \<and> (a = CHR '':'' \<longleftrightarrow> b = CHR '':'') \<and> (a = SPC \<longleftrightarrow> b = SPC) \<and> (a = TAB \<longleftrightarrow> b = TAB)"

lemma map_low_same: "list_all2 same_byte v w \<Longrightarrow> map low v = map low w"
  by (induction rule: list_all2_induct) (simp_all add: same_byte_def)

lemma run_list_same:
  assumes "ascii_code c" and "need c \<le> length xs" and "list_all2 same_byte v w" and "list_all2 same_byte xs ys"
  shows "run_list c v xs f = run_list c w ys f"
  using assms
proof (induction c arbitrary: v w xs ys f)
  case (Case k c r)
  then show ?case using map_low_same [OF Case.prems(3)] by simp
next
  case (If_low i ch c r)
  then have "same_byte (xs ! i) (ys ! i)" by (auto intro: list_all2_nthD)
  with If_low show ?case by (simp add: same_byte_def)
next
  case (If_char i ch c r)
  then have "same_byte (xs ! i) (ys ! i)" by (auto intro: list_all2_nthD)
  then have "xs ! i = ch \<longleftrightarrow> ys ! i = ch" using If_char.prems(1) by (auto simp: same_byte_def)
  with If_char show ?case by simp
next
  case (Adv n c)
  then have "run_list c v (drop n xs) f = run_list c w (drop n ys) f"
    by (intro Adv.IH) auto
  then show ?case by simp
next
  case (Read c)
  then have "run_list c (take 4 xs) xs f = run_list c (take 4 ys) ys f"
    by (intro Read.IH) auto
  then show ?case by simp
qed simp_all

lemma low_tolower [simp]: "low (tolower_c c) = low c"
proof (cases "65 \<le> (of_char c :: nat) \<and> of_char c \<le> (90 :: nat)")
  case True
  then have "of_char c \<in> set [65..<91 :: nat]" unfolding set_upt by auto
  moreover have "list_all (\<lambda>n. or (n + 32) 32 = or n (32 :: nat)) [65..<91]" by code_simp
  ultimately have "or (of_char c + 32) 32 = or (of_char c) (32 :: nat)"
    unfolding list_all_iff by blast
  moreover have "of_char c + 32 < (256 :: nat)" and "tolower_c c = char_of (of_char c + (32 :: nat))"
    using True by (simp_all add: tolower_c_def uchar_def)
  ultimately show ?thesis by (simp add: low_def)
next
  case False
  then have "tolower_c c = c" by (auto simp: tolower_c_def uchar_def)
  then show ?thesis by simp
qed

lemma same_byte_tolower: "same_byte c (tolower_c c)"
  unfolding same_byte_def low_tolower
  by (auto simp: tolower_c_def uchar_def char_of_eq_iff take_bit_nat_def)

lemma same_byte_refl: "same_byte c c"
  by (simp add: same_byte_def)

section \<open>The names the tree recognises\<close>

definition hname_table :: "(char list \<times> hdr_types) list" where
  "hname_table =
     [(''via'', HDR_VIA_T), (''v'', HDR_VIA_T), (''from'', HDR_FROM_T), (''f'', HDR_FROM_T),
      (''to'', HDR_TO_T), (''t'', HDR_TO_T), (''cseq'', HDR_CSEQ_T), (''call-id'', HDR_CALLID_T),
      (''i'', HDR_CALLID_T), (''contact'', HDR_CONTACT_T), (''m'', HDR_CONTACT_T),
      (''max-forwards'', HDR_MAXFORWARDS_T), (''route'', HDR_ROUTE_T), (''record-route'',
      HDR_RECORDROUTE_T), (''path'', HDR_PATH_T), (''content-type'', HDR_CONTENTTYPE_T), (''c'',
      HDR_CONTENTTYPE_T), (''content-length'', HDR_CONTENTLENGTH_T), (''l'', HDR_CONTENTLENGTH_T),
      (''authorization'', HDR_AUTHORIZATION_T), (''expires'', HDR_EXPIRES_T),
      (''proxy-authorization'', HDR_PROXYAUTH_T), (''supported'', HDR_SUPPORTED_T), (''k'',
      HDR_SUPPORTED_T), (''proxy-require'', HDR_PROXYREQUIRE_T), (''unsupported'',
      HDR_UNSUPPORTED_T), (''allow'', HDR_ALLOW_T), (''event'', HDR_EVENT_T), (''o'',
      HDR_EVENT_T), (''accept'', HDR_ACCEPT_T), (''accept-language'', HDR_ACCEPTLANGUAGE_T),
      (''organization'', HDR_ORGANIZATION_T), (''priority'', HDR_PRIORITY_T), (''subject'',
      HDR_SUBJECT_T), (''user-agent'', HDR_USERAGENT_T), (''content-disposition'',
      HDR_CONTENTDISPOSITION_T), (''diversion'', HDR_DIVERSION_T), (''remote-party-id'',
      HDR_RPID_T), (''refer-to'', HDR_REFER_TO_T), (''session-expires'', HDR_SESSION_EXPIRES_T),
      (''x'', HDR_SESSION_EXPIRES_T), (''min-se'', HDR_MIN_SE_T), (''p-preferred-identity'',
      HDR_PPI_T), (''p-asserted-identity'', HDR_PAI_T), (''privacy'', HDR_PRIVACY_T),
      (''retry-after'', HDR_RETRY_AFTER_T), (''call-info'', HDR_CALL_INFO_T),
      (''www-authenticate'', HDR_WWW_AUTHENTICATE_T), (''proxy-authenticate'',
      HDR_PROXY_AUTHENTICATE_T), (''min-expires'', HDR_MIN_EXPIRES_T), (''feature-caps'',
      HDR_FEATURE_CAPS_T), (''replaces'', HDR_REPLACES_T)]"

lemmas macro_defs =
  via1_CASE_def via2_CASE_def from_CASE_def to12_CASE_def cseq_CASE_def ID_INF_CASE_def
  call_CASE_def TH_CASE_def ion_CASE_def DISPOSITION_CASE_def CONTENT_CASE_def ACT_ENT_CASE_def
  cont_CASE_def rout_CASE_def ARDS_CASE_def FORW_CASE_def max_CASE_def OUTE_CASE_def RD_R_CASE_def
  reco_CASE_def path_CASE_def AUTH_ATIO_CASE_def AUTH_ORIZ_CASE_def auth_CASE_def
  EXPI_RES_CASE_def expi_CASE_def ION_CASE_def IZAT_CASE_def TE_CASE_def TICA_CASE_def
  TH2_CASE_def QUIR_CASE_def PROX2_CASE_def prox_CASE_def allo_CASE_def TED_CASE_def PPOR_CASE_def
  unsu_CASE_def even_CASE_def age_CASE_def angu_CASE_def on_CASE_def siti_CASE_def ispo_CASE_def
  ptld_CASE_def acce_CASE_def tion_CASE_def niza_CASE_def orga_CASE_def rity_CASE_def
  prio_CASE_def ect_CASE_def subj_CASE_def nt_CASE_def user_CASE_def ORTE_CASE_def supp_CASE_def
  RSIO_CASE_def dive_CASE_def RPID_ID_CASE_def ARTY_CASE_def TE_P_CASE_def remo_CASE_def
  r_to_CASE_def refe_CASE_def RES_CASE_def EXPI_CASE_def ION__CASE_def sess_CASE_def res__CASE_def
  SE_EXPI_CASE_def min__CASE_def TITY_CASE_def IDEN_CASE_def RED__CASE_def EFER_CASE_def
  p_pr_CASE_def ITY_CASE_def DENT_CASE_def ED_I_CASE_def SERT_CASE_def p_as_CASE_def ACY_CASE_def
  priv_CASE_def ter_CASE_def y_af_CASE_def retr_CASE_def CATE_CASE_def ENTI_CASE_def
  WWW_AUTH_CASE_def www_CASE_def caps_CASE_def ure__CASE_def feat_CASE_def aces_CASE_def
  repl_CASE_def PARSE_COMPACT_def compact_to_def compact_code_def FIRST_QUATERNIONS_def
  hname_code_def

lemma key_bytes_eqs:
  "key_bytes K_even = [101, 118, 101, 110]"
  "key_bytes K_acce = [97, 99, 99, 101]"
  "key_bytes K_allo = [97, 108, 108, 111]"
  "key_bytes K_auth = [97, 117, 116, 104]"
  "key_bytes K_oriz = [111, 114, 105, 122]"
  "key_bytes K_atio = [97, 116, 105, 111]"
  "key_bytes K_call = [99, 97, 108, 108]"
  "key_bytes K_dash_id2 = [45, 105, 100, 32]"
  "key_bytes K_dash_id1 = [45, 105, 100, 58]"
  "key_bytes K_dash_inf = [45, 105, 110, 102]"
  "key_bytes K_cont = [99, 111, 110, 116]"
  "key_bytes K_act2 = [97, 99, 116, 32]"
  "key_bytes K_act1 = [97, 99, 116, 58]"
  "key_bytes K_ent = [101, 110, 116, 45]"
  "key_bytes K_leng = [108, 101, 110, 103]"
  "key_bytes K_th12 = [116, 104, 58, 32]"
  "key_bytes K_type = [116, 121, 112, 101]"
  "key_bytes K_cseq = [99, 115, 101, 113]"
  "key_bytes K_expi = [101, 120, 112, 105]"
  "key_bytes K_res2 = [114, 101, 115, 32]"
  "key_bytes K_res1 = [114, 101, 115, 58]"
  "key_bytes K_from = [102, 114, 111, 109]"
  "key_bytes K_max = [109, 97, 120, 45]"
  "key_bytes K_forw = [102, 111, 114, 119]"
  "key_bytes K_ards = [97, 114, 100, 115]"
  "key_bytes K_prox = [112, 114, 111, 120]"
  "key_bytes K_y_au = [121, 45, 97, 117]"
  "key_bytes K_then = [116, 104, 101, 110]"
  "key_bytes K_tica = [116, 105, 99, 97]"
  "key_bytes K_thor = [116, 104, 111, 114]"
  "key_bytes K_izat = [105, 122, 97, 116]"
  "key_bytes K_ion2 = [105, 111, 110, 32]"
  "key_bytes K_ion1 = [105, 111, 110, 58]"
  "key_bytes K_y_re = [121, 45, 114, 101]"
  "key_bytes K_quir = [113, 117, 105, 114]"
  "key_bytes K_reco = [114, 101, 99, 111]"
  "key_bytes K_rd_r = [114, 100, 45, 114]"
  "key_bytes K_oute = [111, 117, 116, 101]"
  "key_bytes K_rout = [114, 111, 117, 116]"
  "key_bytes K_path = [112, 97, 116, 104]"
  "key_bytes K_supp = [115, 117, 112, 112]"
  "key_bytes K_orte = [111, 114, 116, 101]"
  "key_bytes K_to12 = [116, 111, 58, 32]"
  "key_bytes K_unsu = [117, 110, 115, 117]"
  "key_bytes K_ppor = [112, 112, 111, 114]"
  "key_bytes K_ted2 = [116, 101, 100, 32]"
  "key_bytes K_ted1 = [116, 101, 100, 58]"
  "key_bytes K_via2 = [118, 105, 97, 32]"
  "key_bytes K_via1 = [118, 105, 97, 58]"
  "key_bytes K_www = [119, 119, 119, 45]"
  "key_bytes K_enti = [101, 110, 116, 105]"
  "key_bytes K_cate = [99, 97, 116, 101]"
  "key_bytes K_pt_l = [112, 116, 45, 108]"
  "key_bytes K_angu = [97, 110, 103, 117]"
  "key_bytes K_age2 = [97, 103, 101, 32]"
  "key_bytes K_age1 = [97, 103, 101, 58]"
  "key_bytes K_orga = [111, 114, 103, 97]"
  "key_bytes K_niza = [110, 105, 122, 97]"
  "key_bytes K_tion = [116, 105, 111, 110]"
  "key_bytes K_prio = [112, 114, 105, 111]"
  "key_bytes K_rity = [114, 105, 116, 121]"
  "key_bytes K_subj = [115, 117, 98, 106]"
  "key_bytes K_ect2 = [101, 99, 116, 32]"
  "key_bytes K_ect1 = [101, 99, 116, 58]"
  "key_bytes K_user = [117, 115, 101, 114]"
  "key_bytes K_dash_age = [45, 97, 103, 101]"
  "key_bytes K_disp = [100, 105, 115, 112]"
  "key_bytes K_osit = [111, 115, 105, 116]"
  "key_bytes K_pt_d = [112, 116, 97, 100]"
  "key_bytes K_ispo = [105, 115, 112, 111]"
  "key_bytes K_siti = [115, 105, 116, 105]"
  "key_bytes K_dive = [100, 105, 118, 101]"
  "key_bytes K_rsio = [114, 115, 105, 111]"
  "key_bytes K_remo = [114, 101, 109, 111]"
  "key_bytes K_te_p = [116, 101, 45, 112]"
  "key_bytes K_arty = [97, 114, 116, 121]"
  "key_bytes K_refe = [114, 101, 102, 101]"
  "key_bytes K_r_to = [114, 45, 116, 111]"
  "key_bytes K_sess = [115, 101, 115, 115]"
  "key_bytes K_ion = [105, 111, 110, 45]"
  "key_bytes K_min = [109, 105, 110, 45]"
  "key_bytes K_p_pr = [112, 45, 112, 114]"
  "key_bytes K_efer = [101, 102, 101, 114]"
  "key_bytes K_red = [114, 101, 100, 45]"
  "key_bytes K_iden = [105, 100, 101, 110]"
  "key_bytes K_tity = [116, 105, 116, 121]"
  "key_bytes K_p_as = [112, 45, 97, 115]"
  "key_bytes K_sert = [115, 101, 114, 116]"
  "key_bytes K_ed_i = [101, 100, 45, 105]"
  "key_bytes K_dent = [100, 101, 110, 116]"
  "key_bytes K_ity2 = [105, 116, 121, 32]"
  "key_bytes K_ity1 = [105, 116, 121, 58]"
  "key_bytes K_priv = [112, 114, 105, 118]"
  "key_bytes K_acy2 = [97, 99, 121, 32]"
  "key_bytes K_acy1 = [97, 99, 121, 58]"
  "key_bytes K_retr = [114, 101, 116, 114]"
  "key_bytes K_y_af = [121, 45, 97, 102]"
  "key_bytes K_ter2 = [116, 101, 114, 32]"
  "key_bytes K_ter1 = [116, 101, 114, 58]"
  "key_bytes K_feat = [102, 101, 97, 116]"
  "key_bytes K_ure = [117, 114, 101, 45]"
  "key_bytes K_caps = [99, 97, 112, 115]"
  "key_bytes K_repl = [114, 101, 112, 108]"
  "key_bytes K_aces = [97, 99, 101, 115]"
  by (simp_all add: key_bytes_def)

lemma hname_code_ascii: "ascii_code hname_code"
  by (simp add: macro_defs key_bytes_eqs)

lemma hname_code_need: "need hname_code = 20"
  by (simp add: macro_defs)

text \<open>What the tree does on a name of the table in lower case and a colon.\<close>

definition entry_ok :: "char list \<Rightarrow> char list \<times> hdr_types \<Rightarrow> bool" where
  "entry_ok rest e \<longleftrightarrow>
     (let n = length (fst e); r = run_list hname_code [] (fst e @ CHR '':'' # rest) None
      in snd r = Some (snd e, int n) \<and>
         (fst r = O_ret (n + 1) \<or> fst r = O_cont n \<or> fst r = O_ret (n + 2) \<and> low (hd rest) = 32))"

lemma hname_table_entries: "list_all (entry_ok (a # b # c # d # rest)) hname_table"
  unfolding hname_table_def list.pred_inject
  by (intro conjI TrueI) (simp_all add: entry_ok_def Let_def macro_defs key_bytes_eqs low_def)

lemma hname_table_short: "list_all (\<lambda>e. fst e \<noteq> [] \<and> length (fst e) \<le> 20) hname_table"
  by (simp add: hname_table_def)

lemma run_hname_code:
  assumes "p + 20 \<le> length m"
  shows "run_code m hname_code p 0 hdr =
    (let r = run_list hname_code [] (drop p m) None in Some (exit_at p (fst r), upd_found (snd r) hdr))"
proof -
  define v where "v = replicate 4 NUL"
  have "run_code m hname_code p w hdr = run_code m hname_code p (val_of v) (upd_found None hdr)" for w
    by (simp add: hname_code_def upd_found_def)
  then have "run_code m hname_code p 0 hdr =
      (let r = run_list hname_code v (drop p m) None in Some (exit_at p (fst r), upd_found (snd r) hdr))"
    using run_code_list [of hname_code p m v None hdr] hname_code_ascii hname_code_need assms by (simp add: v_def)
  then show ?thesis by (simp add: hname_code_def)
qed

lemma run_hname_known:
  assumes "(n, ty) \<in> set hname_table" and "map tolower_c name = n" and "20 \<le> length rest"
  shows "\<exists>x. run_list hname_code [] (name @ CHR '':'' # rest) None = (x, Some (ty, int (length name))) \<and>
    (x = O_ret (length name + 1) \<or> x = O_cont (length name) \<or> x = O_ret (length name + 2) \<and> low (hd rest) = 32)"
proof -
  have len: "length n = length name" using assms(2) by auto
  obtain a b c d r where rest: "rest = a # b # c # d # r"
    using assms(3) by (auto simp: numeral_eq_Suc Suc_le_length_iff)
  then have "entry_ok rest (n, ty)"
    using hname_table_entries [of a b c d r] assms(1) by (auto simp: list_all_iff)
  moreover have "list_all2 same_byte (name @ CHR '':'' # rest) (n @ CHR '':'' # rest)"
    unfolding assms(2) [symmetric]
    by (intro list_all2_appendI) (simp_all add: list.rel_map same_byte_tolower same_byte_refl list.rel_refl)
  then have "run_list hname_code [] (name @ CHR '':'' # rest) None = run_list hname_code [] (n @ CHR '':'' # rest) None"
    using hname_code_ascii hname_code_need assms(3) by (intro run_list_same) auto
  ultimately show ?thesis
    using len by (simp add: entry_ok_def Let_def prod_eq_iff)
qed

lemma low_32: "low c = 32 \<Longrightarrow> c = SPC \<or> c = NUL"
proof -
  assume "low c = 32"
  then have o: "or (of_char c) (32 :: nat) = 32" by (simp add: low_def)
  have l: "list_all (\<lambda>n. or n (32 :: nat) = 32 \<longrightarrow> n = 32 \<or> n = 0) [0..<33]" by code_simp
  have "uchar c \<le> or (uchar c) 32" by (rule or_greater_eq) simp
  then have "uchar c \<le> 32" using \<open>low c = 32\<close> int_low [of c] by simp
  then have "of_char c \<in> set [0..<33 :: nat]" unfolding set_upt by (simp add: uchar_def)
  from bspec [OF l [unfolded list_all_iff] this] o
  have "of_char c = (32 :: nat) \<or> of_char c = (0 :: nat)" by (rule mp)
  then show ?thesis
    by (auto simp: of_char_eq_iff [where 'a = nat, symmetric] simp del: of_char_eq_iff)
qed

text \<open>Whatever the bytes are, the code past the tree stays in the buffer.\<close>

text \<open>A null pointer comes with the error type; without it the start of the name stays.\<close>

definition name_kept :: "ptr option \<Rightarrow> 'a hdr_name_scheme \<Rightarrow> 'b hdr_name_scheme \<Rightarrow> bool" where
  "name_kept q hdr hdr' \<longleftrightarrow> (q = None \<longrightarrow> h_type hdr' = HDR_ERROR_T) \<and> (h_type hdr' \<noteq> HDR_ERROR_T \<longrightarrow> str_s (h_name hdr') = str_s (h_name hdr))"

lemma expect_colon_total:
  assumes "p \<le> e" and "e < length m"
  shows "\<exists>q hdr'. expect_colon m p e hdr = Some (q, hdr') \<and> (\<forall>x. q = Some x \<longrightarrow> p < x \<and> x \<le> e + 1 \<and> m ! (x - 1) = CHR '':'') \<and>
    name_kept q hdr hdr'"
proof -
  obtain q where q: "skip_ws m p e = Some q" "p \<le> q" "q \<le> e"
    using sw.scan_total [of p e m "\<lambda>c. \<not> (c \<noteq> SPC \<and> c \<noteq> TAB)"] assms unfolding skip_ws_def by auto
  then show ?thesis using assms by (auto simp: expect_colon_def hname_error_def name_kept_def)
qed

lemma other_loop_total:
  assumes "e < length m"
  shows "\<exists>q hdr'. other_loop m p e hdr = Some (q, hdr') \<and> (\<forall>x. q = Some x \<longrightarrow> p < x \<and> x \<le> e + 1 \<and> m ! (x - 1) = CHR '':'') \<and>
    name_kept q hdr hdr'"
proof (induction "e - p" arbitrary: p)
  case 0
  then show ?case by (subst other_loop.simps) (simp add: hname_error_def name_kept_def)
next
  case (Suc n)
  then have lt: "p < e" and n: "n = e - Suc p" by auto
  let ?named = "hdr\<lparr>h_name := (h_name hdr)\<lparr>str_len := int p - int (the (str_s (h_name hdr)))\<rparr>\<rparr>"
  show ?case
    using Suc.hyps(1) [OF n] lt assms expect_colon_total [of "p + 1" e m ?named]
    by (subst other_loop.simps) (auto simp: Let_def name_kept_def)
qed

lemma dc_cont_total:
  assumes "e < length m"
  shows "\<exists>q hdr'. dc_cont m p e hdr = Some (q, hdr') \<and> (\<forall>x. q = Some x \<longrightarrow> p < x \<and> x \<le> e + 1 \<and> m ! (x - 1) = CHR '':'') \<and>
    name_kept q hdr hdr'"
  using assms other_loop_total [of e m p "hdr\<lparr>h_type := HDR_OTHER_T\<rparr>"] expect_colon_total [of "p + 1" e m hdr]
  by (auto simp: dc_cont_def hname_other_def hname_error_def name_kept_def)

lemma dc_end_total:
  assumes "e < length m"
  shows "\<exists>q hdr'. dc_end m p e hdr = Some (q, hdr') \<and> (\<forall>x. q = Some x \<longrightarrow> p < x \<and> x \<le> e + 1 \<and> m ! (x - 1) = CHR '':'') \<and>
    name_kept q hdr hdr'"
  using assms expect_colon_total [of p e m hdr] by (auto simp: dc_end_def hname_error_def name_kept_def)

primrec ret_pos :: "hcode \<Rightarrow> bool" where
  "ret_pos (Case k c r) \<longleftrightarrow> ret_pos c \<and> ret_pos r"
| "ret_pos (If_low i ch c r) \<longleftrightarrow> ret_pos c \<and> ret_pos r"
| "ret_pos (If_char i ch c r) \<longleftrightarrow> ret_pos c \<and> ret_pos r"
| "ret_pos (Adv n c) \<longleftrightarrow> ret_pos c"
| "ret_pos (Read c) \<longleftrightarrow> ret_pos c"
| "ret_pos (Found ty len c) \<longleftrightarrow> ret_pos c"
| "ret_pos (Ret n) \<longleftrightarrow> 0 < n"
| "ret_pos Dc_end \<longleftrightarrow> True"
| "ret_pos Dc_cont \<longleftrightarrow> True"
| "ret_pos Other \<longleftrightarrow> True"

lemma run_list_ret:
  "run_list c v xs f = (O_ret n, g) \<Longrightarrow> ret_pos c \<Longrightarrow> 0 < n \<and> n \<le> need c"
proof (induction c arbitrary: v xs f n)
  case (Adv k c)
  then obtain j where "run_list c v (drop k xs) f = (O_ret j, g)" "n = k + j"
    by (cases "run_list c v (drop k xs) f"; cases "fst (run_list c v (drop k xs) f)") auto
  with Adv show ?case by fastforce
qed (fastforce split: if_splits simp: le_max_iff_disj)+

text \<open>The length of a name: the lengths the tree sets are at most 20, otherwise the name ends at the colon or the blank that was found.\<close>

primrec found_short :: "hcode \<Rightarrow> bool" where
  "found_short (Case k c r) \<longleftrightarrow> found_short c \<and> found_short r"
| "found_short (If_low i ch c r) \<longleftrightarrow> found_short c \<and> found_short r"
| "found_short (If_char i ch c r) \<longleftrightarrow> found_short c \<and> found_short r"
| "found_short (Adv n c) \<longleftrightarrow> found_short c"
| "found_short (Read c) \<longleftrightarrow> found_short c"
| "found_short (Found ty len c) \<longleftrightarrow> len \<in> {0..20} \<and> found_short c"
| "found_short (Ret n) \<longleftrightarrow> True"
| "found_short Dc_end \<longleftrightarrow> True"
| "found_short Dc_cont \<longleftrightarrow> True"
| "found_short Other \<longleftrightarrow> True"

lemma hname_code_short: "found_short hname_code"
  by (simp add: macro_defs)

lemma run_list_short:
  "found_short c \<Longrightarrow> (\<forall>ty n. f = Some (ty, n) \<longrightarrow> n \<in> {0..20}) \<Longrightarrow> snd (run_list c v xs f) = Some (ty, n) \<Longrightarrow> n \<in> {0..20}"
proof (induction c arbitrary: v xs f)
  case (Found ty' len c)
  have "\<forall>t k. Some (ty', len) = Some (t, k) \<longrightarrow> k \<in> {0..20}" using Found.prems(1) by simp
  with Found show ?case by (metis found_short.simps(6) run_list.simps(6))
qed (auto simp: exit_at_add split: if_splits)

definition len_short :: "ptr \<Rightarrow> ptr \<Rightarrow> 'a hdr_name_scheme \<Rightarrow> bool" where
  "len_short b e hdr \<longleftrightarrow> 0 \<le> str_len (h_name hdr) \<and> str_len (h_name hdr) \<le> max 20 (int e - int b)"

lemma expect_colon_short:
  "expect_colon m p e hdr = Some (q, h) \<Longrightarrow> len_short b e hdr \<Longrightarrow> len_short b e h"
  by (auto simp: expect_colon_def hname_error_def str_null_def len_short_def bind_eq_Some_conv split: if_splits)

lemma other_loop_short:
  assumes "other_loop m p e hdr = Some (q, h)" and "str_s (h_name hdr) = Some b" and "b \<le> p"
  shows "len_short b e h"
  using assms
proof (induction m p e hdr rule: other_loop.induct)
  case (1 m p e hdr)
  let ?named = "hdr\<lparr>h_name := (h_name hdr)\<lparr>str_len := int p - int b\<rparr>\<rparr>"
  show ?case
  proof (cases "p < e")
    case True
    then obtain c where c: "rd m p = Some c" using 1(2) by (subst (asm) other_loop.simps) (auto simp: bind_eq_Some_conv)
    have named: "len_short b e ?named" using True 1(4) by (simp add: len_short_def)
    show ?thesis
    proof (cases "c \<in> {CHR '':'', SPC, TAB}")
      case True
      then show ?thesis using named 1(2) \<open>p < e\<close> c 1(3) expect_colon_short [of m "p + 1" e ?named q h b]
        by (subst (asm) other_loop.simps) (auto simp: Let_def split: if_splits)
    next
      case False
      then have "other_loop m (Suc p) e hdr = Some (q, h)" using 1(2) \<open>p < e\<close> c by (subst (asm) other_loop.simps) (simp add: Let_def)
      then show ?thesis using 1(1) [OF \<open>p < e\<close> c refl] False 1(3,4) by auto
    qed
  qed (use 1(2) in \<open>auto simp: other_loop.simps hname_error_def str_null_def len_short_def\<close>)
qed

lemma parse_hname2_short:
  assumes "parse_hname2 m b e hdr = Some (q, h)" and "b + 20 \<le> length m" and "h_type h \<noteq> HDR_ERROR_T" and "str_len (h_name hdr) = 0"
  shows "len_short b e h"
proof -
  define hdr1 where "hdr1 = hdr\<lparr>h_name := (h_name hdr)\<lparr>str_s := Some b\<rparr>\<rparr>"
  obtain x f where r: "run_list hname_code [] (drop b m) None = (x, f)" by fastforce
  have run: "run_code m hname_code b 0 hdr1 = Some (exit_at b x, upd_found f hdr1)"
    using run_hname_code [OF assms(2), of hdr1] by (simp add: r Let_def)
  have f: "len_short b e (upd_found f hdr1)" "str_s (h_name (upd_found f hdr1)) = Some b"
    using run_list_short [OF hname_code_short, of None "[]" "drop b m"] r assms(4)
    by (auto simp: upd_found_def len_short_def hdr1_def split: option.splits)
  have four: "\<not> int e - int b < 4" using assms(1,3) by (auto simp: parse_hname2_def)
  note oth = other_loop_short [of m _ e "(upd_found f hdr1)\<lparr>h_type := HDR_OTHER_T\<rparr>" q h b]
  show ?thesis
    using assms(1) four run f oth expect_colon_short [of m _ e "upd_found f hdr1" q h b]
    unfolding parse_hname2_def hdr1_def [symmetric]
    by (cases x) (auto simp: dc_end_def dc_cont_def hname_other_def hname_error_def str_null_def len_short_def bind_eq_Some_conv split: if_splits)
qed

section \<open>Properties\<close>

text \<open>
  C29: every header name of the table (the long forms and the one-letter compact forms), in any mixture of upper
  and lower case and followed by a colon, is recognised: the field gets its type and exactly
  the name, and the returned pointer is right after the colon, or, when the four-byte comparison covered it,
  after the blank (or zero byte) that follows the colon.
\<close>

theorem parse_hname2_known:
  assumes "(n, ty) \<in> set hname_table" and "map tolower_c name = n"
    and m: "m = pre @ name @ CHR '':'' # rest" and "20 \<le> length rest"
    and e: "e \<le> length m" "length pre + length name < e" "length pre + 4 \<le> e"
  shows "\<exists>q. parse_hname2 m (length pre) e hdr =
      Some (Some q, hdr\<lparr>h_type := ty, h_name := mk_str (length pre) (length pre + length name)\<rparr>) \<and>
    (q = length pre + length name + 1 \<or>
     q = length pre + length name + 2 \<and> (hd rest = SPC \<or> hd rest = NUL))"
proof -
  obtain x where x: "run_list hname_code [] (name @ CHR '':'' # rest) None = (x, Some (ty, int (length name)))"
    "x = O_ret (length name + 1) \<or> x = O_cont (length name) \<or> x = O_ret (length name + 2) \<and> low (hd rest) = 32"
    using run_hname_known [OF assms(1,2,4)] by blast
  define hdr' where "hdr' = hdr\<lparr>h_name := (h_name hdr)\<lparr>str_s := Some (length pre)\<rparr>\<rparr>"
  have "drop (length pre) m = name @ CHR '':'' # rest" by (simp add: m)
  then have run: "run_code m hname_code (length pre) 0 hdr' = Some (exit_at (length pre) x, upd_found (Some (ty, int (length name))) hdr')"
    using run_hname_code [of "length pre" m hdr'] assms(4) x(1) by (simp add: m Let_def)
  have up: "upd_found (Some (ty, int (length name))) hdr' =
      hdr\<lparr>h_type := ty, h_name := mk_str (length pre) (length pre + length name)\<rparr>"
    by (auto simp: upd_found_def hdr'_def mk_str_def intro!: hdr_name.equality str.equality)
  have c: "m ! (length pre + length name) = CHR '':''" by (simp add: m nth_append)
  show ?thesis
    using x(2) run e c low_32 [of "hd rest"]
    unfolding parse_hname2_def hdr'_def [symmetric] up by (auto simp: dc_cont_def)
qed

theorem parse_hname2_known_witness:
  "\<exists>q. parse_hname2 (''CONTACT: <sip:alice@example.com>'') 0 32 \<lparr>h_type = HDR_ERROR_T, h_name = str_null\<rparr> =
      Some (Some q, \<lparr>h_type = HDR_CONTACT_T, h_name = mk_str 0 7\<rparr>)"
  using parse_hname2_known [of "''contact''" HDR_CONTACT_T "''CONTACT''" "''CONTACT: <sip:alice@example.com>''" "[]"
      "'' <sip:alice@example.com>''" 32 "\<lparr>h_type = HDR_ERROR_T, h_name = str_null\<rparr>"]
  by (auto simp: hname_table_def numeral_nat)

lemma parse_hname2_total:
  assumes "bgn + 20 \<le> length m" and "e < length m"
  shows "\<exists>q hdr'. parse_hname2 m bgn e hdr = Some (q, hdr') \<and>
    (\<forall>x. q = Some x \<longrightarrow> bgn \<le> x \<and> x \<le> max (e + 1) (bgn + 20) \<and> (bgn + 4 \<le> e \<longrightarrow> bgn < x)) \<and>
    (q = None \<longrightarrow> h_type hdr' = HDR_ERROR_T) \<and> (h_type hdr' \<noteq> HDR_ERROR_T \<longrightarrow> bgn + 4 \<le> e \<and> str_s (h_name hdr') = Some bgn)"
proof (cases "int e - int bgn < 4")
  case True
  then show ?thesis by (auto simp: parse_hname2_def)
next
  case False
  define hdr1 where "hdr1 = hdr\<lparr>h_name := (h_name hdr)\<lparr>str_s := Some bgn\<rparr>\<rparr>"
  obtain x f where r: "run_list hname_code [] (drop bgn m) None = (x, f)" by fastforce
  have run: "run_code m hname_code bgn 0 hdr1 = Some (exit_at bgn x, upd_found f hdr1)"
    using run_hname_code [OF assms(1), of hdr1] by (simp add: r Let_def)
  have pos: "ret_pos hname_code" by (simp add: macro_defs)
  have start: "str_s (h_name (upd_found f hdr1)) = Some bgn" by (simp add: hdr1_def upd_found_def split: option.splits)
  have four: "bgn + 4 \<le> e" using False by linarith
  show ?thesis
  proof (cases x)
    case (O_ret n)
    then have "0 < n \<and> n \<le> 20" using run_list_ret [of hname_code "[]" _ None n f] r pos hname_code_need by auto
    with O_ret False run start four show ?thesis unfolding parse_hname2_def hdr1_def [symmetric] by auto
  next
    case (O_end n)
    with False run dc_end_total [OF assms(2), of "bgn + n" "upd_found f hdr1"] start four show ?thesis
      unfolding parse_hname2_def hdr1_def [symmetric] name_kept_def by fastforce
  next
    case (O_cont n)
    with False run dc_cont_total [OF assms(2), of "bgn + n" "upd_found f hdr1"] start four show ?thesis
      unfolding parse_hname2_def hdr1_def [symmetric] name_kept_def by fastforce
  next
    case (O_other n)
    with False run other_loop_total [OF assms(2), of "bgn + n" "(upd_found f hdr1)\<lparr>h_type := HDR_OTHER_T\<rparr>"] start four show ?thesis
      unfolding parse_hname2_def hdr1_def [symmetric] hname_other_def name_kept_def by fastforce
  qed
qed

text \<open>
  On every input \<^verbatim>\<open>parse_hname2\<close> returns. It may look at bytes beyond \<^verbatim>\<open>end\<close>: the four-byte
  comparisons reach at most 20 bytes from the start of the name, and the search for the colon reads the
  byte at \<^verbatim>\<open>end\<close>; given these are readable, there is no other access. The pointer it
  returns, if any, is after the start unless the buffer is shorter than four bytes.
\<close>

theorem parse_hname2_safe:
  assumes "bgn + 20 \<le> length m" and "e < length m"
  shows "\<exists>q hdr'. parse_hname2 m bgn e hdr = Some (q, hdr') \<and>
    (\<forall>x. q = Some x \<longrightarrow> bgn \<le> x \<and> x \<le> max (e + 1) (bgn + 20) \<and> (bgn + 4 \<le> e \<longrightarrow> bgn < x))"
  using parse_hname2_total [OF assms, of hdr] by blast

theorem parse_hname2_safe_witness:
  "\<exists>q hdr'. parse_hname2 (''X-Header-Without-Colon'') 0 21 \<lparr>h_type = HDR_ERROR_T, h_name = str_null\<rparr> = Some (q, hdr')"
  using parse_hname2_safe [of 0 "''X-Header-Without-Colon''" 21 "\<lparr>h_type = HDR_ERROR_T, h_name = str_null\<rparr>"] by auto

text \<open>
  the macros for Replaces and Feature-Caps set the type only when the colon follows the name at once: with a
  blank before the colon the function succeeds and leaves the type of the field as it was. The constant for
  \<^verbatim>\<open>pt-d\<close> is the code of \<^verbatim>\<open>ptad\<close>, so Accept-Disposition is an unknown header.
\<close>

theorem parse_hname2_quirks:
  "parse_hname2 (''Replaces : 12345@example.com'') 0 28 \<lparr>h_type = ty, h_name = str_null\<rparr> =
     Some (Some 10, \<lparr>h_type = ty, h_name = \<lparr>str_s = Some 0, str_len = 0\<rparr>\<rparr>) \<and>
   parse_hname2 (''Feature-Caps : +some.capability'') 0 31 \<lparr>h_type = ty, h_name = str_null\<rparr> =
     Some (Some 14, \<lparr>h_type = ty, h_name = \<lparr>str_s = Some 0, str_len = 0\<rparr>\<rparr>) \<and>
   parse_hname2 (''Accept-Disposition: render'') 0 26 \<lparr>h_type = ty, h_name = str_null\<rparr> =
     Some (Some 19, \<lparr>h_type = HDR_OTHER_T, h_name = mk_str 0 18\<rparr>)"
  by code_simp

end
