(* ===== verification/Cseq.thy ===== *)
theory Cseq
  imports Methods
begin

text \<open>
  \<^verbatim>\<open>parse_cseq\<close> of \<^verbatim>\<open>parse_cseq.c\<close>: the body of a CSeq header, \<open>number SP method EOL\<close>. The function fills
  a \<^verbatim>\<open>struct cseq_body\<close> and returns the pointer after the line end, or the place where it gave up with
  \<^verbatim>\<open>error\<close> set.
\<close>

section \<open>The code\<close>

abbreviation PARSE_ERROR :: int where "PARSE_ERROR \<equiv> -1"
abbreviation PARSE_OK :: int where "PARSE_OK \<equiv> 1"

record cseq_body =
  cs_error :: int
  cs_number :: str
  cs_method :: str
  cs_method_id :: method_id

definition cseq_body_zero :: cseq_body where
  "cseq_body_zero = \<lparr>cs_error = 0, cs_number = str_null, cs_method = str_null, cs_method_id = 0\<rparr>"

text \<open>The end of the body, from the end of the method on.\<close>

definition parse_cseq_eoh :: "mem \<Rightarrow> ptr \<Rightarrow> ptr \<Rightarrow> cseq_body \<Rightarrow> (ptr \<times> cseq_body) option" where
  "parse_cseq_eoh m t0 pend cb = do {
     t \<leftarrow> eat_lws_end m t0 pend;
     if t \<ge> pend then Some (t, cb)
     else do {
       c \<leftarrow> rd m t;
       crlf \<leftarrow> (if c = CR \<and> t + 1 < pend then do { d \<leftarrow> rd m (t + 1); Some (d = LF) } else Some False);
       if crlf then Some (t + 2, cb\<lparr>cs_error := PARSE_OK\<rparr>)
       else if c = LF then Some (t + 1, cb\<lparr>cs_error := PARSE_OK\<rparr>)
       else Some (t, cb) } }"

definition parse_cseq :: "mem \<Rightarrow> ptr \<Rightarrow> ptr \<Rightarrow> cseq_body \<Rightarrow> (ptr \<times> cseq_body) option" where
  "parse_cseq m buf pend cb0 = do {
     let cb1 = cb0\<lparr>cs_error := PARSE_ERROR, cs_number := (cs_number cb0)\<lparr>str_s := Some buf\<rparr>\<rparr>;
     t \<leftarrow> eat_token_end m buf pend;
     if t \<ge> pend then Some (t, cb1)
     else do {
       let cb2 = cb1\<lparr>cs_number := mk_str buf t\<rparr>;
       mm \<leftarrow> eat_space_end m t pend;
       m_end \<leftarrow> eat_token_end m mm pend;
       if m_end \<ge> pend then Some (t, cb2)
       else if m_end = mm then Some (t, cb2)
       else do {
         let cb3 = cb2\<lparr>cs_method := mk_str mm m_end\<rparr>;
         (r, k) \<leftarrow> parse_method m (Some mm) (Some m_end) (cs_method_id cb3);
         let cb4 = cb3\<lparr>cs_method_id := k\<rparr>;
         case r of
           None \<Rightarrow> Some (m_end, cb4)
         | Some _ \<Rightarrow> parse_cseq_eoh m m_end pend cb4 } } }"

section \<open>Correctness\<close>

text \<open>What an accepted body is: a number token, blanks, a method token, white space and a line end.\<close>

definition cseq_ok :: "mem \<Rightarrow> ptr \<Rightarrow> ptr \<Rightarrow> ptr \<Rightarrow> cseq_body \<Rightarrow> bool" where
  "cseq_ok m buf pend q cb \<longleftrightarrow>
     (\<exists>t mm me. buf \<le> t \<and> t \<le> mm \<and> mm < me \<and> me < q \<and> q \<le> pend \<and> m ! (q - 1) = LF \<and>
        cs_number cb = mk_str buf t \<and> cs_method cb = mk_str mm me \<and>
        (\<forall>c \<in> set (seg m buf t). is_token_char c) \<and> (\<forall>c \<in> set (seg m mm me). is_token_char c) \<and>
        cs_method_id cb = spec_method (method_token m mm me))"

lemma parse_cseq_eoh_total:
  assumes "t0 < pend" and "pend \<le> length m"
  shows "\<exists>q cb'. parse_cseq_eoh m t0 pend cb = Some (q, cb') \<and> t0 \<le> q \<and> q \<le> pend \<and>
    (cb' = cb \<or> cb' = cb\<lparr>cs_error := PARSE_OK\<rparr> \<and> t0 < q \<and> m ! (q - 1) = LF)"
proof -
  obtain t where t: "eat_lws_end m t0 pend = Some t" "t0 \<le> t" "t \<le> pend"
    using eat_lws_end_total [of t0 pend m] assms by auto
  show ?thesis
  proof (cases "t < pend")
    case False
    with t show ?thesis by (simp add: parse_cseq_eoh_def)
  next
    case True
    with t assms show ?thesis by (auto simp: parse_cseq_eoh_def)
  qed
qed

lemma tok_class: "(c \<noteq> SPC \<and> c \<noteq> TAB \<and> c \<noteq> LF \<and> c \<noteq> CR) = is_token_char c"
  by (auto simp: is_token_char_def)

lemma parse_cseq_total:
  assumes "buf \<le> pend" and "pend \<le> length m"
  shows "\<exists>q cb. parse_cseq m buf pend cb0 = Some (q, cb) \<and> buf \<le> q \<and> q \<le> pend \<and>
    (cs_error cb = PARSE_ERROR \<or> cs_error cb = PARSE_OK \<and> cseq_ok m buf pend q cb)"
proof -
  obtain t where t: "eat_token_end m buf pend = Some t" "buf \<le> t" "t \<le> pend"
    and tr: "\<And>i. buf \<le> i \<Longrightarrow> i < t \<Longrightarrow> is_token_char (m ! i)"
    using tok.scan_total [OF assms] unfolding tok_class by blast
  show ?thesis
  proof (cases "t < pend")
    case False
    with t show ?thesis by (simp add: parse_cseq_def)
  next
    case True
    obtain mm where mm: "eat_space_end m t pend = Some mm" "t \<le> mm" "mm \<le> pend"
      using sp.scan_total [of t pend m] t assms by auto
    obtain me where me: "eat_token_end m mm pend = Some me" "mm \<le> me" "me \<le> pend"
      and mr: "\<And>i. mm \<le> i \<Longrightarrow> i < me \<Longrightarrow> is_token_char (m ! i)"
      using tok.scan_total [of mm pend m] mm assms unfolding tok_class by blast
    show ?thesis
    proof (cases "me < pend \<and> mm < me")
      case False
      then have "me \<ge> pend \<or> me = mm" using me by auto
      with t True mm me show ?thesis by (auto simp: parse_cseq_def Let_def)
    next
      case in_range: True
      define k where "k = spec_method (method_token m mm me)"
      define cb where "cb = cb0\<lparr>cs_error := PARSE_ERROR, cs_number := mk_str buf t,
        cs_method := mk_str mm me, cs_method_id := k\<rparr>"
      obtain r where pm: "\<And>k0. parse_method m (Some mm) (Some me) k0 = Some (r, k)"
        using parse_method_table [of mm me m] in_range assms by (auto simp: Let_def k_def)
      have run: "parse_cseq m buf pend cb0 =
          (case r of None \<Rightarrow> Some (me, cb) | Some _ \<Rightarrow> parse_cseq_eoh m me pend cb)"
        using t True mm me in_range pm by (cases r) (simp_all add: parse_cseq_def cb_def Let_def)
      obtain q cb' where eoh: "parse_cseq_eoh m me pend cb = Some (q, cb')" "me \<le> q" "q \<le> pend"
          "cb' = cb \<or> cb' = cb\<lparr>cs_error := PARSE_OK\<rparr> \<and> me < q \<and> m ! (q - 1) = LF"
        using parse_cseq_eoh_total [of me pend m cb] in_range assms by auto
      have "cseq_ok m buf pend q (cb\<lparr>cs_error := PARSE_OK\<rparr>)" if "me < q" "m ! (q - 1) = LF"
        unfolding cseq_ok_def
        by (rule exI [of _ t], rule exI [of _ mm], rule exI [of _ me])
          (use that t mm me in_range tr mr eoh assms in \<open>auto simp: cb_def k_def in_set_seg\<close>)
      then show ?thesis
        using run eoh t mm me by (cases r) (auto simp: cb_def)
    qed
  qed
qed

section \<open>Properties\<close>

text \<open>
  \<^verbatim>\<open>parse_cseq\<close> on any buffer terminates, reads only the bytes between \<^verbatim>\<open>buf\<close> and \<^verbatim>\<open>end\<close> and returns a
  pointer between them. When it reports \<^verbatim>\<open>PARSE_OK\<close>, the number and the method are blank-free tokens of
  the buffer in this order, the method is not empty, its number is the one of the method table and the
  returned pointer follows a line feed. Nothing forces the number to consist of digits, or to be non-empty.
\<close>

theorem parse_cseq_correct:
  assumes "buf \<le> pend" and "pend \<le> length m"
  shows "\<exists>q cb. parse_cseq m buf pend cb0 = Some (q, cb) \<and> buf \<le> q \<and> q \<le> pend \<and>
    (cs_error cb = PARSE_ERROR \<or> cs_error cb = PARSE_OK \<and> cseq_ok m buf pend q cb)"
  using assms by (rule parse_cseq_total)

theorem parse_cseq_correct_witness:
  "\<exists>q cb. parse_cseq (''7 BYE'' @ [CR, LF]) 0 7 cseq_body_zero = Some (q, cb) \<and> q \<le> 7 \<and>
    (cs_error cb = PARSE_ERROR \<or> cs_error cb = PARSE_OK \<and> cseq_ok (''7 BYE'' @ [CR, LF]) 0 7 q cb)"
  using parse_cseq_correct [of 0 7 "''7 BYE'' @ [CR, LF]" cseq_body_zero] by simp

text \<open>
  A printed CSeq body is read back: \<open>num SP meth CR LF\<close>, with a token \<open>num\<close> and a method token, is
  accepted with exactly these two strings and the method's number, and the pointer after the line end.
\<close>

theorem parse_cseq_roundtrip:
  assumes m: "m = pre @ num @ [SPC] @ meth @ [CR, LF] @ rest"
    and "rest \<noteq> [] \<Longrightarrow> hd rest \<notin> {SPC, TAB}"
    and "meth \<noteq> []" and "\<forall>c \<in> set meth. method_char c" and "\<forall>c \<in> set num. is_token_char c"
  shows "\<exists>cb. parse_cseq m (length pre) (length m) cb0 = Some (length m - length rest, cb) \<and>
    cs_error cb = PARSE_OK \<and> str_text m (cs_number cb) = num \<and> str_text m (cs_method cb) = meth \<and>
    cs_method_id cb = spec_method meth"
proof -
  let ?b = "length pre" and ?t = "length pre + length num"
  let ?mm = "length pre + length num + 1" and ?me = "length pre + length num + 1 + length meth"
  have len: "length m = ?me + 2 + length rest" by (simp add: m)
  have s1: "seg m ?b ?t = num"
    using seg_mid [of pre num] by (simp add: m)
  have s2: "seg m ?mm ?me = meth"
    using seg_mid [of "pre @ num @ [SPC]" meth "[CR, LF] @ rest"] by (simp add: m add.assoc)
  have c: "m ! ?t = SPC" "m ! ?me = CR" "m ! (?me + 1) = LF"
    by (simp_all add: m nth_append)
  have after: "\<not> SP (m ! (?me + 2))" if "rest \<noteq> []"
    using assms(2) [OF that] that by (simp add: m nth_append hd_conv_nth SP_def)
  have mt: "is_token_char x \<and> \<not> method_sep x" if "x \<in> set meth" for x
    using that assms(4) method_char_token by blast
  have tok1: "eat_token_end m ?b (length m) = Some ?t"
    using seg_all [of m ?b ?t is_token_char] s1 assms(5) c len
    by (intro tok.scan_eqI) (auto simp: is_token_char_def)
  have nsp: "\<not> (m ! ?mm = SPC \<or> m ! ?mm = TAB)"
    using seg_all [of m ?mm ?me is_token_char ?mm] s2 mt assms(3) len by (auto simp: is_token_char_def)
  have sp1: "eat_space_end m ?t (length m) = Some ?mm"
    using nsp c len by (intro sp.scan_eqI) (auto simp: less_Suc_eq)
  have tok2: "eat_token_end m ?mm (length m) = Some ?me"
    using seg_all [of m ?mm ?me is_token_char] s2 mt c len
    by (intro tok.scan_eqI) (auto simp: is_token_char_def)
  have "method_token m ?mm ?me = meth"
    unfolding method_token_def s2 using mt by simp
  then have pm: "parse_method m (Some ?mm) (Some ?me) k0 = Some (Some ?me, spec_method meth)" for k0
    using parse_method_table [of ?mm ?me m k0] assms(3,4) len by (simp add: Let_def)
  have "eat_lws_end m ?me (length m) = Some ?me"
    using c len after by (subst eat_lws_end_unfold) (auto simp: SP_def)
  then have "parse_cseq_eoh m ?me (length m) cb = Some (length m - length rest, cb\<lparr>cs_error := PARSE_OK\<rparr>)" for cb
    using c len by (simp add: parse_cseq_eoh_def)
  then show ?thesis
    using tok1 sp1 tok2 pm assms(3) len s1 s2 by (simp add: parse_cseq_def Let_def)
qed

theorem parse_cseq_roundtrip_witness:
  "\<exists>cb. parse_cseq (''17 INVITE'' @ [CR, LF]) 0 11 cseq_body_zero = Some (11, cb) \<and>
    cs_error cb = PARSE_OK \<and> cs_method_id cb = METHOD_INVITE"
proof -
  have k: "spec_method ''INVITE'' = METHOD_INVITE" by code_simp
  show ?thesis
    using parse_cseq_roundtrip [of "''17 INVITE'' @ [CR, LF]" "[]" "''17''" "''INVITE''" "[]" cseq_body_zero]
    unfolding k by (auto simp: method_char_def schar_def uchar_def is_token_char_def numeral_nat)
qed

end
