(* ===== verification/Param.thy ===== *)
theory Param
  imports Trim Parser_F
begin

text \<open>
  \<^verbatim>\<open>parse_param.c\<close>: lists of parameters \<open>name[=body];...\<close> of URIs and Contact headers. The linked list is
  a list of \<open>param\<close> records in the order the code links them; a hook is the index of the parameter it
  points to. Allocation is a parameter of the functions that allocate: \<open>alloc i\<close> tells whether the
  call of \<^verbatim>\<open>pkg_malloc\<close> for parameter \<open>i\<close> succeeds.
\<close>

section \<open>The code\<close>

datatype ptype = P_OTHER | P_Q | P_EXPIRES | P_METHODS | P_RECEIVED | P_INSTANCE | P_TRANSPORT | P_LR
  | P_R2 | P_MADDR | P_TTL | P_DSTIP | P_DSTPORT

datatype pclass = CLASS_ANY | CLASS_CONTACT | CLASS_URI

record param =
  p_type :: ptype
  p_name :: str
  p_body :: str
  p_len :: int

definition param_zero :: param where
  "param_zero = \<lparr>p_type = P_OTHER, p_name = str_null, p_body = str_null, p_len = 0\<rparr>"

text \<open>
  \<^verbatim>\<open>param_hooks_t\<close>: the slot of the last parameter, and one slot per well-known type. A call fills the
  slots of one class only, so the overlay of the two hook structures is never observed.
\<close>

record param_hooks =
  hk_last :: "nat option"
  hk_slot :: "ptype \<Rightarrow> nat option"

definition hooks_zero :: param_hooks where
  "hooks_zero = \<lparr>hk_last = None, hk_slot = (\<lambda>_. None)\<rparr>"

text \<open>
  The tests of the two \<^verbatim>\<open>switch\<close> statements on \<open>name.s\<close> (at \<open>s\<close>) and \<open>name.len\<close>: \<open>name_is\<close> compares the
  length and then the name after its first character, which the \<^verbatim>\<open>switch\<close> has compared.
\<close>

definition name_is :: "mem \<Rightarrow> ptr \<Rightarrow> int \<Rightarrow> char list \<Rightarrow> bool option" where
  "name_is m s len rest =
     (if len = int (Suc (length rest)) then strncaseeq m (s + 1) rest else Some False)"

definition set_hook :: "ptype \<Rightarrow> nat \<Rightarrow> param_hooks \<times> param \<Rightarrow> param_hooks \<times> param" where
  "set_hook ty i = (\<lambda>(h, p). (h\<lparr>hk_slot := (hk_slot h)(ty := Some i)\<rparr>, p\<lparr>p_type := ty\<rparr>))"

definition contact_type :: "mem \<Rightarrow> ptr \<Rightarrow> int \<Rightarrow> ptype option" where
  "contact_type m s len = do {
     c \<leftarrow> rd m s;
     if c \<in> {CHR ''q'', CHR ''Q''} then Some (if len = 1 then P_Q else P_OTHER)
     else if c \<in> {CHR ''e'', CHR ''E''} then do {
       b \<leftarrow> name_is m s len ''xpires''; Some (if b then P_EXPIRES else P_OTHER) }
     else if c \<in> {CHR ''m'', CHR ''M''} then do {
       b \<leftarrow> name_is m s len ''ethods''; Some (if b then P_METHODS else P_OTHER) }
     else if c \<in> {CHR ''r'', CHR ''R''} then do {
       b \<leftarrow> name_is m s len ''eceived''; Some (if b then P_RECEIVED else P_OTHER) }
     else if c = CHR ''+'' then do {
       b \<leftarrow> name_is m s len ''sip.instance''; Some (if b then P_INSTANCE else P_OTHER) }
     else Some P_OTHER }"

text \<open>The test for \<^verbatim>\<open>ttl\<close> compares the length with 2 and then reads \<^verbatim>\<open>name.s[2]\<close>.\<close>

definition uri_type_t :: "mem \<Rightarrow> ptr \<Rightarrow> int \<Rightarrow> ptype option" where
  "uri_type_t m s len = do {
     b \<leftarrow> name_is m s len ''ransport'';
     if b then Some P_TRANSPORT
     else if len = 2 then do {
       c1 \<leftarrow> rd m (s + 1);
       if c1 = CHR ''t'' \<or> c1 = CHR ''T'' then do {
         c2 \<leftarrow> rd m (s + 2);
         Some (if c2 = CHR ''l'' \<or> c2 = CHR ''L'' then P_TTL else P_OTHER) }
       else Some P_OTHER }
     else Some P_OTHER }"

definition uri_class_type :: "mem \<Rightarrow> ptr \<Rightarrow> int \<Rightarrow> ptype option" where
  "uri_class_type m s len = do {
     c \<leftarrow> rd m s;
     if c \<in> {CHR ''t'', CHR ''T''} then uri_type_t m s len
     else if c \<in> {CHR ''l'', CHR ''L''} then
       (if len = 2 then do { d \<leftarrow> rd m (s + 1); Some (if d = CHR ''r'' \<or> d = CHR ''R'' then P_LR else P_OTHER) }
        else Some P_OTHER)
     else if c \<in> {CHR ''r'', CHR ''R''} then
       (if len = 2 then do { d \<leftarrow> rd m (s + 1); Some (if d = CHR ''2'' then P_R2 else P_OTHER) }
        else Some P_OTHER)
     else if c \<in> {CHR ''m'', CHR ''M''} then do {
       b \<leftarrow> name_is m s len ''addr''; Some (if b then P_MADDR else P_OTHER) }
     else if c \<in> {CHR ''d'', CHR ''D''} then do {
       b \<leftarrow> name_is m s len ''stip'';
       if b then Some P_DSTIP
       else do { b2 \<leftarrow> name_is m s len ''stport''; Some (if b2 then P_DSTPORT else P_OTHER) } }
     else Some P_OTHER }"

text \<open>\<^verbatim>\<open>parse_contact_class\<close> and \<^verbatim>\<open>parse_uri_class\<close> on parameter \<open>i\<close>; an unknown name changes nothing.\<close>

definition apply_class :: "(mem \<Rightarrow> ptr \<Rightarrow> int \<Rightarrow> ptype option) \<Rightarrow> mem \<Rightarrow> nat \<Rightarrow> param_hooks \<Rightarrow> param \<Rightarrow>
    (param_hooks \<times> param) option" where
  "apply_class f m i h p =
     (case str_s (p_name p) of
        None \<Rightarrow> Some (h, p)
      | Some s \<Rightarrow> do {
          ty \<leftarrow> f m s (str_len (p_name p));
          Some (if ty = P_OTHER then (h, p) else set_hook ty i (h, p)) })"

definition parse_contact_class :: "mem \<Rightarrow> nat \<Rightarrow> param_hooks \<Rightarrow> param \<Rightarrow> (param_hooks \<times> param) option" where
  "parse_contact_class = apply_class contact_type"

definition parse_uri_class :: "mem \<Rightarrow> nat \<Rightarrow> param_hooks \<Rightarrow> param \<Rightarrow> (param_hooks \<times> param) option" where
  "parse_uri_class = apply_class uri_class_type"

text \<open>
  The string \<^verbatim>\<open>*_s\<close> that the functions consume is the pair of its pointer and its length.
  \<^verbatim>\<open>parse_quoted_param\<close> and \<^verbatim>\<open>parse_token_param\<close>: return code, remaining string and \<^verbatim>\<open>*_r\<close>.
\<close>

type_synonym cursor = "ptr \<times> int"

definition parse_quoted_param :: "mem \<Rightarrow> cursor \<Rightarrow> str \<Rightarrow> (int \<times> cursor \<times> str) option" where
  "parse_quoted_param m cur r = (case cur of (s, len) \<Rightarrow>
     if len < 2 then Some (-1, (s, len), r)
     else do {
       let s1 = s + 1;
       let len1 = len - 1;
       eq \<leftarrow> q_memchr m s1 DQUOTE (s1 + nat len1);
       case eq of
         None \<Rightarrow> Some (-2, (s1, len1), r)
       | Some q \<Rightarrow> Some (0, (q + 1, len1 - (int q - int s1 + 1)), mk_str s1 q) })"

definition token_end_char :: "char \<Rightarrow> bool" where
  "token_end_char c \<longleftrightarrow> c \<in> {SPC, TAB, CR, LF, CHR '','', CHR '';''}"

definition parse_token_param :: "mem \<Rightarrow> cursor \<Rightarrow> str \<Rightarrow> (int \<times> cursor \<times> str) option" where
  "parse_token_param m cur r = (case cur of (s, len) \<Rightarrow>
     if len = 0 then Some (-1, (s, len), r)
     else do {
       q \<leftarrow> scan_while (\<lambda>c. \<not> token_end_char c) m s (s + nat len);
       if q = s then Some (-1, (s, len), r\<lparr>str_s := Some s\<rparr>)
       else Some (0, (q, len - (int q - int s)), mk_str s q) })"

text \<open>The loop \<^verbatim>\<open>while(_s->len)\<close> of \<^verbatim>\<open>parse_param_name\<close>.\<close>

definition name_end_char :: "char \<Rightarrow> bool" where
  "name_end_char c \<longleftrightarrow> c \<in> {SPC, TAB, CR, LF, CHR '';'', CHR '','', CHR ''=''}"

function param_name_loop :: "mem \<Rightarrow> ptr \<Rightarrow> int \<Rightarrow> cursor option" where
  "param_name_loop m s len =
     (if len = 0 then Some (s, len)
      else case rd m s of
          None \<Rightarrow> None
        | Some c \<Rightarrow> if name_end_char c then Some (s, len) else param_name_loop m (Suc s) (len - 1))"
  by pat_completeness auto
termination
  by (relation "measure (\<lambda>(m, s, len). length m - s)") (auto simp: rd_eq_Some)

declare param_name_loop.simps [simp del]

definition parse_param_name :: "mem \<Rightarrow> cursor \<Rightarrow> pclass \<Rightarrow> nat \<Rightarrow> param_hooks \<Rightarrow> param \<Rightarrow>
    (cursor \<times> param_hooks \<times> param) option" where
  "parse_param_name m cur cl i h p = do {
     (s', len') \<leftarrow> param_name_loop m (fst cur) (snd cur);
     let p1 = p\<lparr>p_name := mk_str (fst cur) s'\<rparr>;
     hp \<leftarrow> (case cl of
              CLASS_CONTACT \<Rightarrow> parse_contact_class m i h p1
            | CLASS_URI \<Rightarrow> parse_uri_class m i h p1
            | CLASS_ANY \<Rightarrow> Some (h, p1));
     Some ((s', len'), hp) }"

definition parse_param_body :: "mem \<Rightarrow> cursor \<Rightarrow> param \<Rightarrow> (int \<times> cursor \<times> param) option" where
  "parse_param_body m cur p = do {
     c \<leftarrow> rd m (fst cur);
     if c = DQUOTE then do {
       (rc, cur', b) \<leftarrow> parse_quoted_param m cur (p_body p);
       Some (if rc < 0 then -2 else 0, cur', p\<lparr>p_body := b\<rparr>) }
     else do {
       (rc, cur', b) \<leftarrow> parse_token_param m cur (p_body p);
       Some (if rc < 0 then -3 else 0, cur', p\<lparr>p_body := b\<rparr>) } }"

text \<open>
  One turn of the loop of \<^verbatim>\<open>parse_params\<close> after the allocation: \<open>PErr\<close> is \<^verbatim>\<open>goto error\<close>, \<open>POk\<close> is \<^verbatim>\<open>goto ok\<close>
  with the parameter, \<open>PMore\<close> links the parameter and goes on.
\<close>

datatype pturn = PErr cursor param_hooks | POk cursor param_hooks param | PMore cursor param_hooks param

definition param_sep :: "mem \<Rightarrow> cursor \<Rightarrow> param_hooks \<Rightarrow> param \<Rightarrow> pturn option" where
  "param_sep m cur h p = do {
     c \<leftarrow> rd m (fst cur);
     if c = CHR '','' then Some (POk cur h p)
     else if c = CHR ''>'' then Some (POk cur h p)
     else if c \<noteq> CHR '';'' then Some (PErr cur h)
     else do {
       cur' \<leftarrow> trim_leading m (fst cur + 1) (snd cur - 1);
       if snd cur' = 0 then Some (PErr cur' h) else Some (PMore cur' h p) } }"

definition param_value :: "mem \<Rightarrow> cursor \<Rightarrow> param_hooks \<Rightarrow> param \<Rightarrow> pturn option" where
  "param_value m cur h p = do {
     cur1 \<leftarrow> trim_leading m (fst cur + 1) (snd cur - 1);
     if snd cur1 = 0 then Some (PErr cur1 h)
     else do {
       (rc, cur2, p1) \<leftarrow> parse_param_body m cur1 p;
       if rc < 0 then Some (PErr cur2 h)
       else do {
         let p2 = p1\<lparr>p_len := int (fst cur2) - int (the (str_s (p_name p1)))\<rparr>;
         cur3 \<leftarrow> trim_leading m (fst cur2) (snd cur2);
         if snd cur3 = 0 then Some (POk cur3 h p2) else param_sep m cur3 h p2 } } }"

definition param_turn :: "mem \<Rightarrow> cursor \<Rightarrow> pclass \<Rightarrow> nat \<Rightarrow> param_hooks \<Rightarrow> pturn option" where
  "param_turn m cur cl i h = do {
     (cur1, h1, p1) \<leftarrow> parse_param_name m cur cl i h param_zero;
     cur2 \<leftarrow> trim_leading m (fst cur1) (snd cur1);
     let p2 = p1\<lparr>p_len := str_len (p_name p1)\<rparr>;
     if snd cur2 = 0 then Some (POk cur2 h1 p2)
     else do {
       c \<leftarrow> rd m (fst cur2);
       if c = CHR ''='' then param_value m cur2 h1 p1 else param_sep m cur2 h1 p2 } }"

text \<open>The result: return code, remaining string, hooks and the list (empty after an error: it was freed).\<close>

type_synonym params_result = "int \<times> cursor \<times> param_hooks \<times> param list"

partial_function (option) params_loop ::
  "(nat \<Rightarrow> bool) \<Rightarrow> mem \<Rightarrow> pclass \<Rightarrow> cursor \<Rightarrow> param_hooks \<Rightarrow> param list \<Rightarrow> params_result option" where
  "params_loop alloc m cl cur h ps =
     (if \<not> alloc (length ps) then Some (-2, cur, h, [])
      else Option.bind (param_turn m cur cl (length ps) h) (\<lambda>t. case t of
          PErr cur' h' \<Rightarrow> Some (-2, cur', h', [])
        | POk cur' h' p \<Rightarrow> Some (0, cur', h'\<lparr>hk_last := Some (length ps)\<rparr>, ps @ [p])
        | PMore cur' h' p \<Rightarrow> params_loop alloc m cl cur' h' (ps @ [p])))"

definition parse_params :: "(nat \<Rightarrow> bool) \<Rightarrow> mem \<Rightarrow> str \<Rightarrow> pclass \<Rightarrow> (int \<times> str \<times> param_hooks \<times> param list) option" where
  "parse_params alloc m x cl =
     (case str_s x of
        None \<Rightarrow> Some (0, x, hooks_zero, [])
      | Some s \<Rightarrow> do {
          (rc, cur, h, ps) \<leftarrow> params_loop alloc m cl (s, str_len x) hooks_zero [];
          Some (rc, \<lparr>str_s = Some (fst cur), str_len = snd cur\<rparr>, h, ps) })"

text \<open>
  \<^verbatim>\<open>do_duplicate_params\<close>: the copy of the list, or the return code -2 when an allocation fails; the
  copies made so far are freed and \<^verbatim>\<open>*_n\<close> still points to the first of them (\<open>Dangling\<close>).
\<close>

datatype dup_list = Copied "param list" | Dangling "param list"

fun duplicate_loop :: "(nat \<Rightarrow> bool) \<Rightarrow> param list \<Rightarrow> param list \<Rightarrow> int \<times> dup_list" where
  "duplicate_loop alloc [] done_ps = (0, Copied done_ps)"
| "duplicate_loop alloc (p # ps) done_ps =
     (if \<not> alloc (length done_ps) then (-2, if done_ps = [] then Copied [] else Dangling done_ps)
      else duplicate_loop alloc ps (done_ps @ [p]))"

definition do_duplicate_params :: "(nat \<Rightarrow> bool) \<Rightarrow> param list \<Rightarrow> int \<times> dup_list" where
  "do_duplicate_params alloc ps = duplicate_loop alloc ps []"

section \<open>The classification of names\<close>

definition contact_table :: "(char list \<times> ptype) list" where
  "contact_table = [(''q'', P_Q), (''expires'', P_EXPIRES), (''methods'', P_METHODS),
     (''received'', P_RECEIVED), (''+sip.instance'', P_INSTANCE)]"

definition uri_table :: "(char list \<times> ptype) list" where
  "uri_table = [(''transport'', P_TRANSPORT), (''lr'', P_LR), (''r2'', P_R2), (''maddr'', P_MADDR),
     (''dstip'', P_DSTIP), (''dstport'', P_DSTPORT)]"

definition table_type :: "(char list \<times> ptype) list \<Rightarrow> char list \<Rightarrow> ptype" where
  "table_type tb name = (case map_of tb (map tolower_c name) of None \<Rightarrow> P_OTHER | Some ty \<Rightarrow> ty)"

lemma tolower_c_eq_plus [simp]: "tolower_c c = CHR ''+'' \<longleftrightarrow> c = CHR ''+''"
  "tolower_c c = CHR ''.'' \<longleftrightarrow> c = CHR ''.''" "tolower_c c = CHR ''2'' \<longleftrightarrow> c = CHR ''2''"
  by (auto simp: tolower_c_def uchar_def char_of_eq_iff take_bit_nat_def
      of_char_eq_iff [where 'a = nat, symmetric] simp del: of_char_eq_iff)

lemma tolower_c_dot [simp]: "tolower_c CHR ''.'' = CHR ''.''" "tolower_c CHR ''2'' = CHR ''2''"
  by (simp_all add: tolower_c_def uchar_def)

lemmas letter_eq_tolower_c =
  tolower_c_eq_letter [unfolded eq_commute [of "tolower_c c" d for c d]]

lemma name_is_in:
  assumes "s + Suc n \<le> length m"
  shows "name_is m s (int (Suc n)) rest =
    Some (map tolower_c (seg m (s + 1) (s + Suc n)) = map tolower_c rest)"
proof (cases "n = length rest")
  case True
  then show ?thesis using assms strncaseeq_in [of "s + 1" rest m] by (simp add: name_is_def)
next
  case False
  moreover have "length (map tolower_c (seg m (s + 1) (s + Suc n))) = n" using assms by simp
  ultimately show ?thesis by (auto simp: name_is_def dest: arg_cong [of _ _ length])
qed

lemma contact_type_table:
  assumes "s + Suc n \<le> length m"
  shows "contact_type m s (int (Suc n)) = Some (table_type contact_table (seg m s (s + Suc n)))"
proof -
  define r where "r = map tolower_c (seg m (s + 1) (s + Suc n))"
  have name: "map tolower_c (seg m s (s + Suc n)) = tolower_c (m ! s) # r"
    using assms by (simp add: seg_Cons r_def)
  have one: "(int (Suc n) = 1) = (r = [])"
    using assms by (auto simp: r_def dest: arg_cong [of _ _ length])
  have rd0: "rd m s = Some (m ! s)" using assms by simp
  show ?thesis
    unfolding contact_type_def table_type_def contact_table_def name name_is_in [OF assms] r_def [symmetric] rd0 one
    by (simp add: tolower_c_eq_letter letter_eq_tolower_c)
qed

lemma uri_class_type_table:
  assumes "s + Suc n \<le> length m" and "map tolower_c (seg m s (s + Suc n)) \<noteq> ''tt''"
  shows "uri_class_type m s (int (Suc n)) = Some (table_type uri_table (seg m s (s + Suc n)))"
proof -
  define r where "r = map tolower_c (seg m (s + 1) (s + Suc n))"
  have name: "map tolower_c (seg m s (s + Suc n)) = tolower_c (m ! s) # r"
    using assms by (simp add: seg_Cons r_def)
  have rd0: "rd m s = Some (m ! s)" using assms by simp
  show ?thesis
  proof (cases "n = 1")
    case True
    then have r1: "r = [tolower_c (m ! (s + 1))]" and rd1: "rd m (s + 1) = Some (m ! (s + 1))"
      using assms seg_Cons [of "s + 1" "s + 2" m] by (simp_all add: r_def)
    show ?thesis
      using assms(2) True
      unfolding uri_class_type_def uri_type_t_def table_type_def uri_table_def name name_is_in [OF assms(1)]
        r_def [symmetric] rd0 r1 rd1
      by (auto simp: tolower_c_eq_letter letter_eq_tolower_c)
  next
    case False
    then have two: "(int (Suc n) = 2) = False" and "length r \<noteq> 1"
      using assms by (auto simp: r_def)
    then show ?thesis
      unfolding uri_class_type_def uri_type_t_def table_type_def uri_table_def name name_is_in [OF assms(1)]
        r_def [symmetric] rd0 two
      by (auto simp: tolower_c_eq_letter letter_eq_tolower_c)
  qed
qed

text \<open>
  The type the code gives to a name of \<open>n\<close> bytes at \<open>s\<close> (the name alone decides, apart from the
  over-read for \<^verbatim>\<open>tt\<close>). The \<^verbatim>\<open>switch\<close> reads \<^verbatim>\<open>name.s[0]\<close> even of an empty name, so the byte after the
  string has to be readable.
\<close>

definition class_fun :: "pclass \<Rightarrow> mem \<Rightarrow> ptr \<Rightarrow> int \<Rightarrow> ptype option" where
  "class_fun cl = (case cl of CLASS_CONTACT \<Rightarrow> contact_type | CLASS_URI \<Rightarrow> uri_class_type
     | CLASS_ANY \<Rightarrow> (\<lambda>_ _ _. Some P_OTHER))"

lemma class_fun_total:
  assumes "s + n < length m"
  shows "\<exists>ty. class_fun cl m s (int n) = Some ty"
proof (cases n)
  case 0
  with assms show ?thesis
    by (cases cl) (auto simp: class_fun_def contact_type_def uri_class_type_def uri_type_t_def name_is_def)
next
  case (Suc k)
  then have n: "int n = int (Suc k)" and le: "s + Suc k \<le> length m" using assms by auto
  show ?thesis
  proof (cases "map tolower_c (seg m s (s + Suc k)) = ''tt''")
    case True
    then have "length (seg m s (s + Suc k)) = 2"
      by (metis length_map length_Cons list.size(3) numeral_2_eq_2)
    with le Suc assms have "int n = 2" "s + 2 < length m" by auto
    then show ?thesis
      using contact_type_table [OF le] n
      by (cases cl) (auto simp: class_fun_def uri_class_type_def uri_type_t_def name_is_def)
  next
    case False
    with n contact_type_table [OF le] uri_class_type_table [OF le] show ?thesis
      by (cases cl) (simp_all add: class_fun_def del: of_nat_Suc)
  qed
qed

lemma param_name_loop_eq:
  assumes "p \<le> e" and "e \<le> length m"
  shows "param_name_loop m p (int e - int p) =
    map_option (\<lambda>q. (q, int e - int q)) (scan_while (\<lambda>c. \<not> name_end_char c) m p e)"
  using assms(1)
proof (induction "e - p" arbitrary: p)
  case 0
  then show ?case by (subst param_name_loop.simps) (simp add: scan_while.simps)
next
  case (Suc k)
  then have lt: "p < e" and k: "k = e - Suc p" by auto
  then have i: "int e - int p - 1 = int e - int (Suc p)" by simp
  show ?case
    using Suc.hyps(1) [OF k] lt assms(2)
    by (subst param_name_loop.simps, subst scan_while.simps) (simp add: i del: of_nat_Suc)
qed

definition hooks_upd :: "param_hooks \<Rightarrow> nat \<Rightarrow> param \<Rightarrow> param_hooks" where
  "hooks_upd h i p = (if p_type p = P_OTHER then h else h\<lparr>hk_slot := (hk_slot h)(p_type p := Some i)\<rparr>)"

lemma parse_param_name_eq:
  assumes "p \<le> e" and "e < length m"
    and "scan_while (\<lambda>c. \<not> name_end_char c) m p e = Some q" and "p \<le> q" and "q \<le> e"
    and "class_fun cl m p (int q - int p) = Some ty" and "p_type pr = P_OTHER"
  shows "parse_param_name m (p, int e - int p) cl i h pr =
    (let pr' = pr\<lparr>p_name := mk_str p q, p_type := ty\<rparr> in Some ((q, int e - int q), hooks_upd h i pr', pr'))"
proof -
  have "param_name_loop m p (int e - int p) = Some (q, int e - int q)"
    using assms by (simp add: param_name_loop_eq)
  then show ?thesis
    using assms(6,7)
    by (cases cl) (auto simp: parse_param_name_def parse_contact_class_def parse_uri_class_def apply_class_def
        mk_str_def class_fun_def set_hook_def hooks_upd_def Let_def intro!: param.equality)
qed

lemma trim_at:
  assumes "p \<le> e" and "e \<le> length m"
  obtains q where "trim_leading m p (int e - int p) = Some (q, int e - int q)" and "p \<le> q" and "q \<le> e"
    and "\<And>i. p \<le> i \<Longrightarrow> i < q \<Longrightarrow> is_ws (m ! i)" and "q < e \<Longrightarrow> \<not> is_ws (m ! q)"
proof -
  have "p + nat (int e - int p) = e" and "0 \<le> int e - int p" using assms(1) by auto
  moreover from this obtain q where "trim_leading m p (int e - int p) = Some (q, int e - int p - (int q - int p))"
    and "p \<le> q" and "q \<le> e" and "\<And>i. p \<le> i \<Longrightarrow> i < q \<Longrightarrow> is_ws (m ! i)" and "q < e \<Longrightarrow> \<not> is_ws (m ! q)"
    using trim_leading_total [of p "int e - int p" m] assms by metis
  ultimately show thesis by (intro that [of q]) auto
qed

section \<open>Every turn consumes a parameter\<close>

text \<open>What a turn at \<open>p\<close> of a string that ends at \<open>e\<close> gives.\<close>

definition param_in :: "ptr \<Rightarrow> ptr \<Rightarrow> param \<Rightarrow> bool" where
  "param_in b e p \<longleftrightarrow> (\<exists>s. str_s (p_name p) = Some s) \<and> str_within b e (p_name p) \<and> str_within b e (p_body p)"

fun turn_ok :: "ptr \<Rightarrow> ptr \<Rightarrow> nat \<Rightarrow> param_hooks \<Rightarrow> pturn \<Rightarrow> bool" where
  "turn_ok p e i h (PErr cur h') \<longleftrightarrow> (\<exists>q. cur = (q, int e - int q) \<and> p \<le> q \<and> q \<le> e)"
| "turn_ok p e i h (POk cur h' pr) \<longleftrightarrow> (\<exists>q. cur = (q, int e - int q) \<and> p \<le> q \<and> q \<le> e) \<and>
     param_in p e pr \<and> h' = hooks_upd h i pr"
| "turn_ok p e i h (PMore cur h' pr) \<longleftrightarrow> (\<exists>q. cur = (q, int e - int q) \<and> p < q \<and> q < e) \<and>
     param_in p e pr \<and> h' = hooks_upd h i pr"

lemma param_sep_ok:
  assumes "p \<le> q" and "q < e" and "e \<le> length m" and "param_in p e pr"
  shows "\<exists>t. param_sep m (q, int e - int q) (hooks_upd h i pr) pr = Some t \<and> turn_ok p e i h t"
proof -
  obtain q' where t: "trim_leading m (Suc q) (int e - int (Suc q)) = Some (q', int e - int q')" "Suc q \<le> q'" "q' \<le> e"
    using trim_at [of "Suc q" e m] assms by auto
  have i: "int e - int q - 1 = int e - int (Suc q)" by simp
  show ?thesis
    using t assms by (auto simp: param_sep_def i simp del: of_nat_Suc)
qed

lemma parse_quoted_param_ok:
  assumes "q < e" and "e \<le> length m"
  shows "\<exists>rc q' bd. parse_quoted_param m (q, int e - int q) r = Some (rc, (q', int e - int q'), bd) \<and>
    q \<le> q' \<and> q' \<le> e \<and> (0 \<le> rc \<longrightarrow> str_within q e bd)"
proof (cases "int e - int q < 2")
  case True
  then show ?thesis using assms by (auto simp: parse_quoted_param_def)
next
  case False
  then have e: "q + 1 + nat (int e - int q - 1) = e" by simp
  consider "q_memchr m (q + 1) DQUOTE e = Some None"
    | c where "q_memchr m (q + 1) DQUOTE e = Some (Some c)" "q + 1 \<le> c" "c < e"
    using q_memchr_cases [of e m "q + 1" DQUOTE] assms(2) by blast
  then show ?thesis
  proof cases
    case 1
    have "parse_quoted_param m (q, int e - int q) r = Some (-2, (q + 1, int e - int (q + 1)), r)"
      using False 1 unfolding parse_quoted_param_def Let_def prod.case e by simp
    with assms show ?thesis by fastforce
  next
    case 2
    have "parse_quoted_param m (q, int e - int q) r = Some (0, (c + 1, int e - int (c + 1)), mk_str (q + 1) c)"
      using False 2 unfolding parse_quoted_param_def Let_def prod.case e by simp
    moreover have "str_within q e (mk_str (q + 1) c)" using 2 by simp
    ultimately show ?thesis using 2 by fastforce
  qed
qed

lemma parse_token_param_ok:
  assumes "q < e" and "e \<le> length m"
  shows "\<exists>rc q' bd. parse_token_param m (q, int e - int q) r = Some (rc, (q', int e - int q'), bd) \<and>
    q \<le> q' \<and> q' \<le> e \<and> (0 \<le> rc \<longrightarrow> str_within q e bd)"
proof -
  obtain c where c: "scan_while (\<lambda>c. \<not> token_end_char c) m q e = Some c" "q \<le> c" "c \<le> e"
    using sw.scan_total [of q e m "\<lambda>c. \<not> token_end_char c"] assms by auto
  have e: "q + nat (int e - int q) = e" using assms by simp
  show ?thesis
  proof (cases "c = q")
    case True
    have "parse_token_param m (q, int e - int q) r = Some (-1, (q, int e - int q), r\<lparr>str_s := Some q\<rparr>)"
      using assms c True unfolding parse_token_param_def prod.case e by simp
    with assms show ?thesis by fastforce
  next
    case False
    have "parse_token_param m (q, int e - int q) r = Some (0, (c, int e - int c), mk_str q c)"
      using assms c False unfolding parse_token_param_def prod.case e by simp
    moreover have "str_within q e (mk_str q c)" using c by simp
    ultimately show ?thesis using c by blast
  qed
qed

lemma parse_param_body_ok:
  assumes "q < e" and "e \<le> length m"
  shows "\<exists>rc q' bd. parse_param_body m (q, int e - int q) pr = Some (rc, (q', int e - int q'), pr\<lparr>p_body := bd\<rparr>) \<and>
    q \<le> q' \<and> q' \<le> e \<and> (0 \<le> rc \<longrightarrow> str_within q e bd)"
  using parse_quoted_param_ok [OF assms, of "p_body pr"] parse_token_param_ok [OF assms, of "p_body pr"] assms
  by (auto simp: parse_param_body_def)

lemma param_value_ok:
  assumes "p \<le> q" and "q < e" and "e \<le> length m" and "param_in p e pr"
  shows "\<exists>t. param_value m (q, int e - int q) (hooks_upd h i pr) pr = Some t \<and> turn_ok p e i h t"
proof -
  have "int e - int q - 1 = int e - int (Suc q)" by simp
  then obtain q1 where t1: "trim_leading m (q + 1) (int e - int q - 1) = Some (q1, int e - int q1)" "Suc q \<le> q1" "q1 \<le> e"
    using trim_at [of "Suc q" e m] assms by auto
  show ?thesis
  proof (cases "q1 = e")
    case True
    with t1 assms show ?thesis by (auto simp: param_value_def)
  next
    case False
    obtain rc q2 bd where b: "parse_param_body m (q1, int e - int q1) pr = Some (rc, (q2, int e - int q2), pr\<lparr>p_body := bd\<rparr>)"
      "q1 \<le> q2" "q2 \<le> e" "0 \<le> rc \<longrightarrow> str_within q1 e bd"
      using parse_param_body_ok [of q1 e m pr] False t1 assms by auto
    obtain q3 where t3: "trim_leading m q2 (int e - int q2) = Some (q3, int e - int q3)" "q2 \<le> q3" "q3 \<le> e"
      using trim_at [of q2 e m] b assms by auto
    define pr2 where "pr2 = pr\<lparr>p_body := bd, p_len := int q2 - int (the (str_s (p_name pr)))\<rparr>"
    have pin: "param_in p e pr2" if "0 \<le> rc"
      using assms(4) b(4) that str_within_mono [of q1 e bd p e] t1 assms(1) by (simp add: param_in_def pr2_def)
    have hk: "hooks_upd h i pr = hooks_upd h i pr2"
      by (simp add: hooks_upd_def pr2_def)
    have "param_value m (q, int e - int q) (hooks_upd h i pr) pr =
      (if rc < 0 then Some (PErr (q2, int e - int q2) (hooks_upd h i pr))
       else if q3 = e then Some (POk (q3, int e - int q3) (hooks_upd h i pr2) pr2)
       else param_sep m (q3, int e - int q3) (hooks_upd h i pr2) pr2)"
      using t1 False b(1) t3 unfolding hk by (simp add: param_value_def pr2_def Let_def)
    then show ?thesis
      using param_sep_ok [of p q3 e m pr2 h i] pin t1 b t3 assms by auto
  qed
qed

lemma param_turn_ok:
  assumes "p \<le> e" and "e < length m"
  shows "\<exists>t. param_turn m (p, int e - int p) cl i h = Some t \<and> turn_ok p e i h t"
proof -
  obtain q where q: "scan_while (\<lambda>c. \<not> name_end_char c) m p e = Some q" "p \<le> q" "q \<le> e"
    using sw.scan_total [of p e m "\<lambda>c. \<not> name_end_char c"] assms by auto
  have "p + (q - p) < length m" using q assms by simp
  then obtain ty where ty: "class_fun cl m p (int q - int p) = Some ty"
    using class_fun_total [of p "q - p" m cl] q by (auto simp: of_nat_diff)
  obtain q1 where t: "trim_leading m q (int e - int q) = Some (q1, int e - int q1)" "q \<le> q1" "q1 \<le> e"
    using trim_at [of q e m] q assms by auto
  define pr where "pr = param_zero\<lparr>p_name := mk_str p q, p_type := ty\<rparr>"
  have name: "parse_param_name m (p, int e - int p) cl i h param_zero = Some ((q, int e - int q), hooks_upd h i pr, pr)"
    using parse_param_name_eq [OF assms q ty, of param_zero i h] by (simp add: pr_def Let_def param_zero_def)
  define pr2 where "pr2 = pr\<lparr>p_len := str_len (p_name pr)\<rparr>"
  have pin: "param_in p e pr" "param_in p e pr2"
    using q by (simp_all add: param_in_def pr_def pr2_def param_zero_def, simp_all add: mk_str_def)
  have hk: "hooks_upd h i pr2 = hooks_upd h i pr"
    by (simp add: hooks_upd_def pr2_def)
  have "param_turn m (p, int e - int p) cl i h =
    (if q1 = e then Some (POk (q1, int e - int q1) (hooks_upd h i pr2) pr2)
     else if m ! q1 = CHR ''='' then param_value m (q1, int e - int q1) (hooks_upd h i pr) pr
     else param_sep m (q1, int e - int q1) (hooks_upd h i pr2) pr2)"
    using name t assms by (simp add: param_turn_def Let_def hk, simp add: pr2_def)
  then show ?thesis
    using param_value_ok [of p q1 e m pr h i] param_sep_ok [of p q1 e m pr2 h i] pin q t assms by auto
qed

section \<open>The list\<close>

text \<open>Each hook points to a parameter of its type, and the last one of that type.\<close>

definition hooks_ok :: "param_hooks \<Rightarrow> param list \<Rightarrow> bool" where
  "hooks_ok h ps \<longleftrightarrow> (\<forall>ty j. hk_slot h ty = Some j \<longleftrightarrow>
     ty \<noteq> P_OTHER \<and> j < length ps \<and> p_type (ps ! j) = ty \<and>
     (\<forall>k. j < k \<longrightarrow> k < length ps \<longrightarrow> p_type (ps ! k) \<noteq> ty))"

lemma hooks_ok_snoc:
  assumes "hooks_ok h ps"
  shows "hooks_ok (hooks_upd h (length ps) p) (ps @ [p])"
  unfolding hooks_ok_def
proof (intro allI)
  fix ty j
  have old: "hk_slot h ty = Some j \<longleftrightarrow> ty \<noteq> P_OTHER \<and> j < length ps \<and> p_type (ps ! j) = ty \<and>
     (\<forall>k. j < k \<longrightarrow> k < length ps \<longrightarrow> p_type (ps ! k) \<noteq> ty)"
    using assms unfolding hooks_ok_def by blast
  show "hk_slot (hooks_upd h (length ps) p) ty = Some j \<longleftrightarrow>
     ty \<noteq> P_OTHER \<and> j < length (ps @ [p]) \<and> p_type ((ps @ [p]) ! j) = ty \<and>
     (\<forall>k. j < k \<longrightarrow> k < length (ps @ [p]) \<longrightarrow> p_type ((ps @ [p]) ! k) \<noteq> ty)"
  proof (cases "p_type p = ty \<and> ty \<noteq> P_OTHER")
    case True
    then show ?thesis by (auto simp: hooks_upd_def nth_append less_Suc_eq)
  next
    case False
    then have "hk_slot (hooks_upd h (length ps) p) ty = Some j \<longleftrightarrow> hk_slot h ty = Some j"
      by (auto simp: hooks_upd_def)
    with False show ?thesis
      unfolding old by (auto simp: nth_append less_Suc_eq)
  qed
qed

lemma params_loop_ok:
  assumes "p \<le> e" and "e < length m" and "b \<le> p" and "hooks_ok h ps" and "list_all (param_in b e) ps"
  shows "\<exists>rc q h' ps'. params_loop alloc m cl (p, int e - int p) h ps = Some (rc, (q, int e - int q), h', ps') \<and>
    p \<le> q \<and> q \<le> e \<and>
    (rc = -2 \<and> ps' = [] \<or>
     rc = 0 \<and> ps' \<noteq> [] \<and> list_all (param_in b e) ps' \<and> hooks_ok h' ps' \<and> hk_last h' = Some (length ps' - 1))"
  using assms
proof (induction "e - p" arbitrary: p h ps rule: less_induct)
  case less
  note unf = params_loop.simps [of alloc m cl "(p, int e - int p)" h ps]
  have mono: "param_in b e pr" if "param_in p e pr" for pr
    using that less.prems(3) str_within_mono [of p e _ b e] by (auto simp: param_in_def)
  obtain t where t: "param_turn m (p, int e - int p) cl (length ps) h = Some t" "turn_ok p e (length ps) h t"
    using param_turn_ok [OF less.prems(1,2)] by blast
  consider "\<not> alloc (length ps)" | cur h' where "alloc (length ps)" "t = PErr cur h'"
    | cur h' pr where "alloc (length ps)" "t = POk cur h' pr" | cur h' pr where "alloc (length ps)" "t = PMore cur h' pr"
    by (cases t) auto
  then show ?case
  proof cases
    case 1
    with less.prems show ?thesis by (subst unf) auto
  next
    case 2
    with t show ?thesis by (subst unf) auto
  next
    case 3
    with t have "h' = hooks_upd h (length ps) pr" "param_in p e pr" by auto
    with 3 t less.prems mono hooks_ok_snoc [OF less.prems(4), of pr] show ?thesis
      by (subst unf) (auto simp: hooks_ok_def)
  next
    case 4
    with t obtain q where q: "cur = (q, int e - int q)" "p < q" "q < e" and h': "h' = hooks_upd h (length ps) pr"
      and pin: "param_in p e pr" by auto
    then have "e - q < e - p" "q \<le> e" "b \<le> q" using less.prems by auto
    from less.hyps [OF this(1,2) less.prems(2) this(3) hooks_ok_snoc [OF less.prems(4), of pr]]
    have IH: "\<exists>rc q' h'' ps'. params_loop alloc m cl cur h' (ps @ [pr]) = Some (rc, (q', int e - int q'), h'', ps') \<and>
      q \<le> q' \<and> q' \<le> e \<and> (rc = -2 \<and> ps' = [] \<or>
       rc = 0 \<and> ps' \<noteq> [] \<and> list_all (param_in b e) ps' \<and> hooks_ok h'' ps' \<and> hk_last h'' = Some (length ps' - 1))"
      using less.prems(5) mono [OF pin] q h' by simp
    have "params_loop alloc m cl (p, int e - int p) h ps = params_loop alloc m cl cur h' (ps @ [pr])"
      using 4 t by (subst unf) simp
    then show ?thesis using IH q by (auto intro: order_trans less_imp_le)
  qed
qed

lemma hooks_ok_zero [simp]: "hooks_ok hooks_zero []"
  by (simp add: hooks_ok_def hooks_zero_def)

section \<open>Printed parameters\<close>

type_synonym param_view = "char list \<times> char list option"

fun param_text :: "param_view \<Rightarrow> char list" where
  "param_text (n, None) = n"
| "param_text (n, Some b) = n @ CHR ''='' # b"

fun params_text :: "param_view list \<Rightarrow> char list" where
  "params_text [] = []"
| "params_text [x] = param_text x"
| "params_text (x # y # xs) = param_text x @ CHR '';'' # params_text (y # xs)"

fun view_ok :: "param_view \<Rightarrow> bool" where
  "view_ok (n, b) \<longleftrightarrow> n \<noteq> [] \<and> (\<forall>c \<in> set n. \<not> name_end_char c) \<and>
     (case b of None \<Rightarrow> True
      | Some t \<Rightarrow> t \<noteq> [] \<and> hd t \<noteq> DQUOTE \<and> (\<forall>c \<in> set t. \<not> token_end_char c))"

definition view_of :: "mem \<Rightarrow> param \<Rightarrow> param_view" where
  "view_of m p = (str_text m (p_name p),
     if str_s (p_body p) = None then None else Some (str_text m (p_body p)))"

lemma ws_name_end: "is_ws c \<Longrightarrow> name_end_char c" "is_ws c \<Longrightarrow> token_end_char c"
  by (auto simp: is_ws_iff name_end_char_def token_end_char_def)

lemma trim_stay:
  assumes "q \<le> e" and "e \<le> length m" and "q < e \<Longrightarrow> \<not> is_ws (m ! q)"
  shows "trim_leading m q (int e - int q) = Some (q, int e - int q)"
proof -
  obtain r where "trim_leading m q (int e - int q) = Some (r, int e - int r)" "q \<le> r" "r \<le> e"
      "\<And>i. q \<le> i \<Longrightarrow> i < r \<Longrightarrow> is_ws (m ! i)"
    using trim_at [OF assms(1,2)] by blast
  with assms(3) show ?thesis by (metis le_eq_less_or_eq order_less_le_trans)
qed

text \<open>A separator after the parameter, or the end of the string.\<close>

definition after_param :: "mem \<Rightarrow> ptr \<Rightarrow> ptr \<Rightarrow> bool" where
  "after_param m q e \<longleftrightarrow> q = e \<or> q + 1 < e \<and> m ! q = CHR '';'' \<and> \<not> is_ws (m ! (q + 1))"

definition after_turn :: "ptr \<Rightarrow> ptr \<Rightarrow> param_hooks \<Rightarrow> param \<Rightarrow> pturn" where
  "after_turn q e h pr = (if q = e then POk (e, 0) h pr else PMore (q + 1, int e - int (q + 1)) h pr)"

lemma param_sep_after:
  assumes "after_param m q e" and "q < e" and "e \<le> length m"
  shows "param_sep m (q, int e - int q) h pr = Some (after_turn q e h pr)"
proof -
  have i: "int e - int q - 1 = int e - (1 + int q)" by simp
  have "trim_leading m (q + 1) (int e - int (q + 1)) = Some (q + 1, int e - int (q + 1))"
    using assms by (intro trim_stay) (auto simp: after_param_def)
  then show ?thesis
    using assms by (auto simp: param_sep_def after_param_def after_turn_def i)
qed

lemma after_not_ws: "after_param m q e \<Longrightarrow> q < e \<Longrightarrow> \<not> is_ws (m ! q)"
  by (auto simp: after_param_def is_ws_iff)

lemma param_value_print:
  assumes "b \<le> q" and "q + 1 < r" and "r \<le> e" and "e \<le> length m" and "after_param m r e"
    and "\<forall>c \<in> set (seg m (q + 1) r). \<not> token_end_char c" and "m ! (q + 1) \<noteq> DQUOTE"
    and "p_name pr = mk_str b n" and "b \<le> n"
  shows "param_value m (q, int e - int q) h pr =
    Some (after_turn r e h (pr\<lparr>p_body := mk_str (q + 1) r, p_len := int r - int b\<rparr>))"
proof -
  have tk: "\<not> token_end_char (m ! i)" if "q + 1 \<le> i" "i < r" for i
    using that assms(3,4,6) seg_all [of m "q + 1" r "\<lambda>c. \<not> token_end_char c" i] by simp
  have i: "int e - int q - 1 = int e - (1 + int q)" by simp
  have t1: "trim_leading m (q + 1) (int e - int (q + 1)) = Some (q + 1, int e - int (q + 1))"
    using assms tk [of "q + 1"] ws_name_end(2) by (intro trim_stay) auto
  have stop: "token_end_char (m ! r)" if "r < e"
    using that assms(5) by (auto simp: after_param_def token_end_char_def)
  have "scan_while (\<lambda>c. \<not> token_end_char c) m (q + 1) e = Some r"
    using assms tk stop by (intro sw.scan_eqI) auto
  moreover have "q + 1 + nat (int e - int (q + 1)) = e" using assms by simp
  ultimately have b: "parse_param_body m (q + 1, int e - int (q + 1)) pr =
      Some (0, (r, int e - int r), pr\<lparr>p_body := mk_str (q + 1) r\<rparr>)"
    using assms by (simp add: parse_param_body_def parse_token_param_def)
  have t3: "trim_leading m r (int e - int r) = Some (r, int e - int r)"
    using assms(3,4) after_not_ws [OF assms(5)] by (intro trim_stay) auto
  show ?thesis
  proof (cases "r = e")
    case True
    then show ?thesis
      using t1 b t3 assms by (simp add: param_value_def after_turn_def mk_str_def i)
  next
    case False
    with param_sep_after [OF assms(5) _ assms(4)] show ?thesis
      using t1 b t3 assms by (simp add: param_value_def mk_str_def i)
  qed
qed

lemma param_turn_print:
  assumes "view_ok x" and "seg m p r = param_text x" and "p \<le> r" and "r \<le> e" and "e < length m" and "after_param m r e"
  shows "\<exists>h' pr. param_turn m (p, int e - int p) cl i h = Some (after_turn r e h' pr) \<and> view_of m pr = x"
proof -
  obtain nm bo where x: "x = (nm, bo)" by fastforce
  define q where "q = p + length nm"
  have len: "r - p = length (param_text x)" using assms by (metis length_seg less_imp_le order_trans)
  have "\<exists>post. param_text x = nm @ post" unfolding x by (cases bo) auto
  then obtain post where post: "param_text x = nm @ post" by blast
  then have q: "p < q" "q \<le> r" using len assms(1,3) x by (auto simp: q_def)
  have "seg m p r = seg m p q @ seg m q r" using q assms by (simp add: seg_append)
  then have nm: "seg m p q = nm" and rest: "seg m q r = post"
    using assms(2) post q assms by (auto simp: append_eq_append_conv q_def)
  have nc: "\<not> name_end_char (m ! i)" if "p \<le> i" "i < q" for i
    using that seg_all [of m p q "\<lambda>c. \<not> name_end_char c" i] nm assms(1) x q assms by auto
  have eq: "bo \<noteq> None \<Longrightarrow> q < r \<and> m ! q = CHR ''=''" and nb: "bo = None \<Longrightarrow> q = r"
  proof -
    assume "bo \<noteq> None"
    then obtain b where "post = CHR ''='' # b" using post x by auto
    then show "q < r \<and> m ! q = CHR ''=''"
      using rest q assms by (cases "q < r") (auto simp: seg_Cons)
  next
    assume "bo = None"
    then show "q = r" using post x len q assms by (simp add: q_def)
  qed
  have stop: "name_end_char (m ! q)" if "q < e"
    using that eq nb assms(6) by (cases bo) (auto simp: after_param_def name_end_char_def)
  have scan: "scan_while (\<lambda>c. \<not> name_end_char c) m p e = Some q"
    using q assms nc stop by (intro sw.scan_eqI) auto
  have "p + (q - p) < length m" using q assms by simp
  then obtain ty where ty: "class_fun cl m p (int q - int p) = Some ty"
    using class_fun_total [of p "q - p" m cl] q by (auto simp: of_nat_diff)
  define pr where "pr = param_zero\<lparr>p_name := mk_str p q, p_type := ty\<rparr>"
  have "p \<le> e" "p \<le> q" "q \<le> e" using q assms by auto
  from parse_param_name_eq [OF this(1) assms(5) scan this(2,3) ty, of param_zero i h]
  have name: "parse_param_name m (p, int e - int p) cl i h param_zero = Some ((q, int e - int q), hooks_upd h i pr, pr)"
    by (simp add: pr_def Let_def param_zero_def)
  have nws: "\<not> is_ws (m ! q)" if "q < e"
    using that eq nb assms(6) by (cases bo) (auto simp: after_param_def is_ws_iff)
  have t: "trim_leading m q (int e - int q) = Some (q, int e - int q)"
    using q assms nws by (intro trim_stay) auto
  show ?thesis
  proof (cases bo)
    case None
    then have "q = r" using nb by simp
    define pr2 where "pr2 = pr\<lparr>p_len := str_len (p_name pr)\<rparr>"
    have "param_turn m (p, int e - int p) cl i h = Some (after_turn r e (hooks_upd h i pr) pr2)"
    proof (cases "q = e")
      case True
      then show ?thesis using name t \<open>q = r\<close> by (simp add: param_turn_def after_turn_def pr2_def)
    next
      case False
      then have "q < e" "m ! q \<noteq> CHR ''=''" using \<open>q = r\<close> assms by (auto simp: after_param_def)
      then show ?thesis
        using name t \<open>q = r\<close> assms param_sep_after [OF assms(6)] by (simp add: param_turn_def pr2_def)
    qed
    moreover have "view_of m pr2 = x"
      using q nm x None by (simp add: view_of_def pr2_def pr_def param_zero_def str_null_def)
    ultimately show ?thesis by blast
  next
    case (Some b)
    with eq have q': "q < r" "m ! q = CHR ''=''" by auto
    have "post = CHR ''='' # b" using post x Some by simp
    then have b: "seg m (q + 1) r = b" using rest q' assms by (simp add: seg_Cons)
    moreover have vb: "b \<noteq> []" "hd b \<noteq> DQUOTE" "\<forall>c \<in> set b. \<not> token_end_char c" using assms(1) x Some by auto
    ultimately have q1: "q + 1 < r" by (metis not_less seg_empty)
    then have "m ! (q + 1) \<noteq> DQUOTE" using b vb seg_Cons [of "q + 1" r m] assms by auto
    then have "param_turn m (p, int e - int p) cl i h =
      Some (after_turn r e (hooks_upd h i pr) (pr\<lparr>p_body := mk_str (q + 1) r, p_len := int r - int p\<rparr>))"
      using param_value_print [of p q r e m pr q "hooks_upd h i pr"] name t q q' q1 b vb assms
      by (simp add: param_turn_def pr_def)
    moreover have "view_of m (pr\<lparr>p_body := mk_str (q + 1) r, p_len := int r - int p\<rparr>) = x"
      using q nm x Some b q1 by (simp add: view_of_def pr_def, simp add: mk_str_def)
    ultimately show ?thesis by blast
  qed
qed

lemma params_loop_print:
  assumes "xs \<noteq> []" and "\<forall>x \<in> set xs. view_ok x" and "seg m p e = params_text xs" and "p \<le> e" and "e < length m"
  shows "\<exists>h' ps'. params_loop (\<lambda>_. True) m cl (p, int e - int p) h ps = Some (0, (e, 0), h', ps @ ps') \<and> map (view_of m) ps' = xs"
  using assms
proof (induction xs arbitrary: p h ps rule: params_text.induct)
  case 1
  then show ?case by simp
next
  case (2 x)
  then obtain h' pr where "param_turn m (p, int e - int p) cl (length ps) h = Some (after_turn e e h' pr)" "view_of m pr = x"
    using param_turn_print [of x m p e e cl "length ps" h] by (auto simp: after_param_def)
  then show ?case
    by (subst params_loop.simps) (auto simp: after_turn_def)
next
  case (3 x y xs)
  define r where "r = p + length (param_text x)"
  have len: "e - p = length (params_text (x # y # xs))" using 3 by (metis length_seg less_imp_le)
  then have r: "p \<le> r" "r + 1 \<le> e" using "3.prems"(4) by (auto simp: r_def)
  have "seg m p r @ seg m r e = param_text x @ CHR '';'' # params_text (y # xs)"
    using "3.prems" r by (simp add: seg_append)
  moreover have "length (seg m p r) = length (param_text x)" using r "3.prems" by (simp add: r_def)
  ultimately have s1: "seg m p r = param_text x" and s2: "seg m r e = CHR '';'' # params_text (y # xs)" by auto
  from s2 r "3.prems" have c: "m ! r = CHR '';''" and s3: "seg m (r + 1) e = params_text (y # xs)"
    by (auto simp: seg_Cons)
  obtain c0 cs where y: "params_text (y # xs) = c0 # cs" and c0: "\<not> name_end_char c0"
  proof -
    obtain n bo where "y = (n, bo)" by fastforce
    then obtain c0 ns where n: "n = c0 # ns" "\<not> name_end_char c0" using "3.prems"(2) by (cases n) auto
    then have "\<exists>cs. params_text (y # xs) = c0 # cs"
      using \<open>y = (n, bo)\<close> by (cases xs; cases bo) auto
    with n that show thesis by blast
  qed
  then have "r + 1 < e" using s3 by (metis list.distinct(1) not_less seg_empty)
  moreover from this have "m ! (r + 1) = c0" using s3 y seg_Cons [of "r + 1" e m] "3.prems" by simp
  ultimately have after: "after_param m r e"
    using c c0 ws_name_end(1) by (auto simp: after_param_def)
  obtain h' pr where turn: "param_turn m (p, int e - int p) cl (length ps) h = Some (after_turn r e h' pr)" "view_of m pr = x"
    using param_turn_print [OF _ s1 r(1) _ "3.prems"(5) after, of cl "length ps" h] "3.prems"(2) r by auto
  have "\<exists>h'' ps'. params_loop (\<lambda>_. True) m cl (r + 1, int e - int (r + 1)) h' (ps @ [pr]) =
      Some (0, (e, 0), h'', (ps @ [pr]) @ ps') \<and> map (view_of m) ps' = y # xs"
    using "3.prems" r s3 by (intro "3.IH") auto
  then obtain h'' ps' where rec: "params_loop (\<lambda>_. True) m cl (r + 1, int e - int (r + 1)) h' (ps @ [pr]) =
      Some (0, (e, 0), h'', (ps @ [pr]) @ ps')" "map (view_of m) ps' = y # xs" by auto
  have "params_loop (\<lambda>_. True) m cl (p, int e - int p) h ps = Some (0, (e, 0), h'', ps @ pr # ps')"
    using turn rec \<open>r + 1 < e\<close> by (subst params_loop.simps) (simp add: after_turn_def)
  with rec turn show ?case by (intro exI [of _ h''] exI [of _ "pr # ps'"]) simp
qed

section \<open>Properties\<close>

text \<open>
  C31: \<^verbatim>\<open>parse_params\<close> terminates on every string, whatever allocations fail, and reads nothing outside the
  string but the byte after it. It returns 0 or -2; on success the list is not empty, the name and the body of every
  parameter lie in the string, each hook points to the last parameter of its type, \<^verbatim>\<open>last_param\<close> to the
  end of the list, and \<^verbatim>\<open>*_s\<close> is the rest of the string. On failure the list is empty.
\<close>

theorem parse_params_correct:
  assumes "s + n < length m"
  shows "\<exists>rc q h ps. parse_params alloc m \<lparr>str_s = Some s, str_len = int n\<rparr> cl = Some (rc, mk_str q (s + n), h, ps) \<and>
    s \<le> q \<and> q \<le> s + n \<and>
    (rc = -2 \<and> ps = [] \<or>
     rc = 0 \<and> ps \<noteq> [] \<and> list_all (param_in s (s + n)) ps \<and> hooks_ok h ps \<and> hk_last h = Some (length ps - 1))"
proof -
  have "int n = int (s + n) - int s" by simp
  then show ?thesis
    using params_loop_ok [of s "s + n" m s hooks_zero "[]" alloc cl] assms
    by (fastforce simp: parse_params_def mk_str_def)
qed

theorem parse_params_correct_witness:
  "\<exists>rc q h ps. parse_params (\<lambda>_. True) ''lr;a=b>'' \<lparr>str_s = Some 0, str_len = int 6\<rparr> CLASS_URI =
     Some (rc, mk_str q (0 + 6), h, ps) \<and> q \<le> 6"
  using parse_params_correct [of 0 6 "''lr;a=b>''" "\<lambda>_. True" CLASS_URI] by force

text \<open>
  The type a URI or Contact parameter gets is the one of a table of names, looked up
  case-insensitively. \<^verbatim>\<open>ttl\<close> is not in the table of the URI class although the code means to
  recognise it: the test compares the length with 2. The exception is the name \<^verbatim>\<open>tt\<close>, for which the code
  reads the byte after the name.
\<close>

theorem param_class_table:
  assumes "s + Suc n \<le> length m"
  shows "contact_type m s (int (Suc n)) = Some (table_type contact_table (seg m s (s + Suc n))) \<and>
    (map tolower_c (seg m s (s + Suc n)) \<noteq> ''tt'' \<longrightarrow>
       uri_class_type m s (int (Suc n)) = Some (table_type uri_table (seg m s (s + Suc n))))"
  using contact_type_table [OF assms] uri_class_type_table [OF assms] by blast

theorem param_class_table_witness:
  "contact_type ''Expires'' 0 7 = Some P_EXPIRES \<and> uri_class_type ''ttl'' 0 3 = Some P_OTHER"
  using param_class_table [of 0 6 "''Expires''"] param_class_table [of 0 2 "''ttl''"]
  by (simp add: seg_def table_type_def contact_table_def uri_table_def)

text \<open>
  C32: Printing and parsing: a string \<open>n1=b1;n2;n3=b3\<close> of parameters with and without a body is read back to
  exactly these names and bodies in this order, whatever the class of parameters, and all of it is consumed.
\<close>

theorem parse_params_roundtrip:
  assumes "m = pre @ params_text xs @ post" and "post \<noteq> []" and "xs \<noteq> []" and "\<forall>x \<in> set xs. view_ok x"
  shows "\<exists>h ps. parse_params (\<lambda>_. True) m \<lparr>str_s = Some (length pre), str_len = int (length (params_text xs))\<rparr> cl =
      Some (0, \<lparr>str_s = Some (length pre + length (params_text xs)), str_len = 0\<rparr>, h, ps) \<and>
    map (view_of m) ps = xs"
proof -
  let ?p = "length pre" and ?e = "length pre + length (params_text xs)"
  have "seg m ?p ?e = params_text xs" unfolding assms(1) by (rule seg_mid)
  moreover have "?e < length m" using assms(1,2) by simp
  ultimately obtain h ps where "params_loop (\<lambda>_. True) m cl (?p, int ?e - int ?p) hooks_zero [] = Some (0, (?e, 0), h, [] @ ps)"
      "map (view_of m) ps = xs"
    using params_loop_print [OF assms(3,4), of m ?p ?e cl hooks_zero "[]"] by auto
  then show ?thesis by (simp add: parse_params_def)
qed

theorem parse_params_roundtrip_witness:
  "\<exists>h ps. parse_params (\<lambda>_. True) ''lr;ttl=3>'' \<lparr>str_s = Some 0, str_len = 8\<rparr> CLASS_URI =
      Some (0, \<lparr>str_s = Some 8, str_len = 0\<rparr>, h, ps) \<and>
    map (view_of ''lr;ttl=3>'') ps = [(''lr'', None), (''ttl'', Some ''3'')]"
  using parse_params_roundtrip [of "''lr;ttl=3>''" "[]" "[(''lr'', None), (''ttl'', Some ''3'')]" "''>''" CLASS_URI]
  by (simp add: name_end_char_def token_end_char_def numeral_nat)

end
