(* ===== verification/To_Param.thy ===== *)
theory To_Param
  imports Cseq
begin

text \<open>
  The parameters of a To-like header (\<^verbatim>\<open>parse_to_param\<close> of \<^verbatim>\<open>parse_to.c\<close>): a hand-written state machine as a step
  function for the loop \<open>for_chars\<close>, one definition per \<^verbatim>\<open>case\<close> of the \<^verbatim>\<open>switch\<close> on the character. A \<^verbatim>\<open>NULL\<close> pointer that
  the code would dereference or subtract is \<open>None\<close> in the option monad, as a read out of bounds is. Linked lists are
  lists in the order of their links; \<open>alloc i\<close> tells whether the \<open>i\<close>-th \<^verbatim>\<open>pkg_malloc\<close> of the call succeeds. The
  \<^verbatim>\<open>parsed_uri\<close> slot of a body is left out: these functions only clear it.

  The invariant \<open>tp_inv\<close> says where every string of the parameter under construction lies in each status; the loop is an
  instance of the locale \<open>char_loop\<close>, and \<open>parse_to_param_ok\<close> is what the header machine relies on.
\<close>

section \<open>The code\<close>

datatype to_status =
    START_TO | DISPLAY_QUOTED | E_DISPLAY_QUOTED | DISPLAY_TOKEN | DISPLAY_TOKEN2
  | S_URI_ENCLOSED | URI_ENCLOSED | E_URI_ENCLOSED | URI_OR_TOKEN | MAYBE_URI_END | END_TO
  | F_CR | F_LF | F_CRLF
  | S_PARA_NAME | PARA_NAME | S_EQUAL | S_PARA_VALUE | TAG1 | TAG2 | TAG3
  | PARA_VALUE_TOKEN | PARA_VALUE_QUOTED | E_PARA_VALUE

datatype to_ptype = TAG_PARAM | GENERAL_PARAM

record to_param =
  tp_type :: to_ptype
  tp_name :: str
  tp_value :: str

record to_body =
  tb_error :: int
  tb_body :: str
  tb_uri :: str
  tb_display :: str
  tb_tag_value :: str
  tb_params :: "to_param list"

definition to_body_zero :: to_body where
  "to_body_zero = \<lparr>tb_error = PARSE_OK, tb_body = str_null, tb_uri = str_null, tb_display = str_null,
     tb_tag_value = str_null, tb_params = []\<rparr>"

definition to_param_zero :: to_param where
  "to_param_zero = \<lparr>tp_type = GENERAL_PARAM, tp_name = str_null, tp_value = str_null\<rparr>"

text \<open>\<open>end_at\<close>: \<^verbatim>\<open>x.len = tmp - x.s\<close>.\<close>

definition end_at :: "ptr \<Rightarrow> str \<Rightarrow> str option" where
  "end_at tmp x = map_option (\<lambda>b. mk_str b tmp) (str_s x)"

subsection \<open>\<^verbatim>\<open>parse_to_param\<close>\<close>

record tp_state =
  ts_param :: "to_param option"
  ts_status :: to_status
  ts_saved :: to_status
  ts_body :: to_body
  ts_allocs :: nat

datatype to_label = To_endofheader | To_parse_error | To_error

type_synonym tp_act = "(to_label, tp_state) act option"

definition link_param :: "to_param \<Rightarrow> to_body \<Rightarrow> to_body" where
  "link_param p b =
     (let b1 = b\<lparr>tb_params := tb_params b @ [p]\<rparr>
      in if tp_type p = TAG_PARAM then b1\<lparr>tb_tag_value := tp_value p\<rparr> else b1)"

definition add_param :: "tp_state \<Rightarrow> tp_state option" where
  "add_param s = do {
     p \<leftarrow> ts_param s; Some (s\<lparr>ts_body := link_param p (ts_body s), ts_param := None\<rparr>) }"

text \<open>Assignments to fields of \<^verbatim>\<open>*param\<close>.\<close>

definition tp_name_end :: "ptr \<Rightarrow> bool \<Rightarrow> tp_state \<Rightarrow> tp_state option" where
  "tp_name_end tmp is_tag s = do {
     p \<leftarrow> ts_param s;
     n \<leftarrow> end_at tmp (tp_name p);
     Some (s\<lparr>ts_param := Some (p\<lparr>tp_type := (if is_tag then TAG_PARAM else tp_type p), tp_name := n\<rparr>)\<rparr>) }"

definition tp_value_end :: "ptr \<Rightarrow> tp_state \<Rightarrow> tp_state option" where
  "tp_value_end tmp s = do {
     p \<leftarrow> ts_param s;
     v \<leftarrow> end_at tmp (tp_value p);
     Some (s\<lparr>ts_param := Some (p\<lparr>tp_value := v\<rparr>)\<rparr>) }"

definition tp_name_start :: "ptr \<Rightarrow> tp_state \<Rightarrow> tp_state option" where
  "tp_name_start tmp s = do {
     p \<leftarrow> ts_param s;
     Some (s\<lparr>ts_param := Some (p\<lparr>tp_name := (tp_name p)\<lparr>str_s := Some tmp\<rparr>\<rparr>)\<rparr>) }"

definition tp_value_start :: "ptr \<Rightarrow> tp_state \<Rightarrow> tp_state option" where
  "tp_value_start tmp s = do {
     p \<leftarrow> ts_param s;
     Some (s\<lparr>ts_param := Some (p\<lparr>tp_value := (tp_value p)\<lparr>str_s := Some tmp\<rparr>\<rparr>)\<rparr>) }"

definition name_states :: "to_status set" where
  "name_states = {PARA_NAME, TAG1, TAG2, TAG3}"

definition eol_states :: "to_status set" where
  "eol_states = {F_CRLF, F_LF, F_CR}"

definition tp_space :: "ptr \<Rightarrow> tp_state \<Rightarrow> tp_act" where
  "tp_space tmp s = (let st = ts_status s in
     if st \<in> name_states then do {
       s1 \<leftarrow> tp_name_end tmp (st = TAG3) s; Some (Next tmp (s1\<lparr>ts_status := S_EQUAL\<rparr>)) }
     else if st = PARA_VALUE_TOKEN then do {
       s1 \<leftarrow> tp_value_end tmp s; s2 \<leftarrow> add_param (s1\<lparr>ts_status := E_PARA_VALUE\<rparr>); Some (Next tmp s2) }
     else if st \<in> eol_states then Some (Next tmp (s\<lparr>ts_status := ts_saved s\<rparr>))
     else Some (Next tmp s))"

text \<open>The cases \<^verbatim>\<open>'\n'\<close> and \<^verbatim>\<open>'\r'\<close> differ in the state entered (\<open>fst\<close>) and in \<^verbatim>\<open>F_CR\<close>.\<close>

definition tp_eol :: "to_status \<Rightarrow> ptr \<Rightarrow> tp_state \<Rightarrow> tp_act" where
  "tp_eol f tmp s = (let st = ts_status s in
     if st \<in> {S_PARA_NAME, S_EQUAL, S_PARA_VALUE, E_PARA_VALUE} then
       Some (Next tmp (s\<lparr>ts_saved := st, ts_status := f\<rparr>))
     else if st \<in> name_states then do {
       s1 \<leftarrow> tp_name_end tmp (st = TAG3) s; Some (Next tmp (s1\<lparr>ts_saved := S_EQUAL, ts_status := f\<rparr>)) }
     else if st = PARA_VALUE_TOKEN then do {
       s1 \<leftarrow> tp_value_end tmp s;
       s2 \<leftarrow> add_param (s1\<lparr>ts_saved := E_PARA_VALUE, ts_status := f\<rparr>);
       Some (Next tmp s2) }
     else if f = F_LF \<and> st = F_CR then Some (Next tmp (s\<lparr>ts_status := F_CRLF\<rparr>))
     else if st \<in> eol_states then Some (Goto To_endofheader tmp (s\<lparr>ts_status := ts_saved s\<rparr>))
     else Some (Goto To_parse_error tmp s))"

definition tp_lf :: "ptr \<Rightarrow> tp_state \<Rightarrow> tp_act" where
  "tp_lf = tp_eol F_LF"

definition tp_cr :: "ptr \<Rightarrow> tp_state \<Rightarrow> tp_act" where
  "tp_cr = tp_eol F_CR"

text \<open>
  The fall-through that \<^verbatim>\<open>','\<close> and \<^verbatim>\<open>';'\<close> share: from \<^verbatim>\<open>PARA_NAME\<close> on, close the parameter with an empty value, or
  the value token; \<open>Inl s\<close> is \<^verbatim>\<open>goto parse_error\<close>. \<open>upd\<close> is what the code does just before the length of the
  value is set.
\<close>

definition tp_close :: "ptr \<Rightarrow> (tp_state \<Rightarrow> tp_state) \<Rightarrow> tp_state \<Rightarrow> (tp_state + tp_state) option" where
  "tp_close tmp upd s = (let st = ts_status s in
     if st = E_PARA_VALUE then Some (Inr s)
     else do {
       s1 \<leftarrow> (if st = PARA_NAME then tp_name_end tmp False s else Some s);
       if st = PARA_VALUE_TOKEN then do {
         s3 \<leftarrow> tp_value_end tmp (upd s1); s4 \<leftarrow> add_param s3; Some (Inr s4) }
       else do {
         p \<leftarrow> ts_param s1;
         if tp_type p = TAG_PARAM then Some (Inl s1)
         else do {
           s2 \<leftarrow> tp_value_start tmp s1;
           s3 \<leftarrow> tp_value_end tmp (upd s2);
           s4 \<leftarrow> add_param s3;
           Some (Inr s4) } } })"

definition tp_comma :: "bool \<Rightarrow> ptr \<Rightarrow> char \<Rightarrow> tp_state \<Rightarrow> tp_act" where
  "tp_comma multi tmp c s = (let st = ts_status s in
     if st = PARA_VALUE_QUOTED then Some (Next tmp s)
     else if st \<in> {PARA_NAME, S_EQUAL, S_PARA_VALUE, PARA_VALUE_TOKEN, E_PARA_VALUE} then do {
       r \<leftarrow> tp_close tmp (\<lambda>s. s\<lparr>ts_status := E_PARA_VALUE\<rparr>) s;
       case r of
         Inl s1 \<Rightarrow> Some (Goto To_parse_error tmp s1)
       | Inr s1 \<Rightarrow>
           (let s2 = s1\<lparr>ts_saved := ts_status s1\<rparr>
            in if \<not> multi \<and> c = CHR '','' then Some (Goto To_parse_error tmp s2)
               else Some (Goto To_endofheader tmp s2)) }
     else Some (Goto To_parse_error tmp s))"

definition tp_backslash :: "mem \<Rightarrow> ptr \<Rightarrow> tp_state \<Rightarrow> tp_act" where
  "tp_backslash m tmp s =
     (if ts_status s = PARA_VALUE_QUOTED then do {
        c \<leftarrow> rd m (tmp + 1);
        Some (Next (if c = CR \<or> c = LF then tmp else tmp + 1) s) }
      else Some (Goto To_parse_error tmp s))"

definition tp_quote :: "ptr \<Rightarrow> tp_state \<Rightarrow> tp_act" where
  "tp_quote tmp s = (let st = ts_status s in
     if st = S_PARA_VALUE then do {
       s1 \<leftarrow> tp_value_start (tmp + 1) s; Some (Next tmp (s1\<lparr>ts_status := PARA_VALUE_QUOTED\<rparr>)) }
     else if st = PARA_VALUE_QUOTED then do {
       s1 \<leftarrow> tp_value_end tmp s; s2 \<leftarrow> add_param s1; Some (Next tmp (s2\<lparr>ts_status := E_PARA_VALUE\<rparr>)) }
     else if st \<in> eol_states then Some (Goto To_endofheader tmp s)
     else Some (Goto To_parse_error tmp s))"

definition tp_semi :: "(nat \<Rightarrow> bool) \<Rightarrow> ptr \<Rightarrow> tp_state \<Rightarrow> tp_act" where
  "tp_semi alloc tmp s = (let st = ts_status s in
     if st = PARA_VALUE_QUOTED then Some (Next tmp s)
     else if st \<in> {PARA_NAME, S_EQUAL, S_PARA_VALUE, PARA_VALUE_TOKEN, E_PARA_VALUE} then do {
       r \<leftarrow> tp_close tmp (\<lambda>s. s) s;
       case r of
         Inl s1 \<Rightarrow> Some (Goto To_parse_error tmp s1)
       | Inr s1 \<Rightarrow>
           (if \<not> alloc (ts_allocs s1) then Some (Goto To_error tmp (s1\<lparr>ts_param := None, ts_allocs := Suc (ts_allocs s1)\<rparr>))
            else Some (Next tmp (s1\<lparr>ts_param := Some to_param_zero, ts_allocs := Suc (ts_allocs s1),
                                   ts_status := S_PARA_NAME\<rparr>))) }
     else if st \<in> eol_states then Some (Goto To_endofheader tmp s)
     else Some (Goto To_parse_error tmp s))"

text \<open>
  The cases of the letters \<^verbatim>\<open>t\<close>, \<^verbatim>\<open>a\<close>, \<^verbatim>\<open>g\<close> and the default case: \<open>s0\<close> is the state that the first letter of a name
  enters, \<open>nx\<close> the next state of \<^verbatim>\<open>TAG1\<close>, \<^verbatim>\<open>TAG2\<close> and \<^verbatim>\<open>TAG3\<close>, \<open>err\<close> the label of the default branch.
\<close>

definition tp_letter :: "to_status \<Rightarrow> (to_status \<Rightarrow> to_status) \<Rightarrow> to_label \<Rightarrow> ptr \<Rightarrow> tp_state \<Rightarrow> tp_act" where
  "tp_letter s0 nx err tmp s = (let st = ts_status s in
     if st \<in> {PARA_VALUE_QUOTED, PARA_VALUE_TOKEN, PARA_NAME} then Some (Next tmp s)
     else if st = S_PARA_NAME then do {
       s1 \<leftarrow> tp_name_start tmp s; Some (Next tmp (s1\<lparr>ts_status := s0\<rparr>)) }
     else if st = S_PARA_VALUE then do {
       s1 \<leftarrow> tp_value_start tmp s; Some (Next tmp (s1\<lparr>ts_status := PARA_VALUE_TOKEN\<rparr>)) }
     else if st \<in> {TAG1, TAG2, TAG3} then Some (Next tmp (s\<lparr>ts_status := nx st\<rparr>))
     else if st \<in> eol_states then Some (Goto To_endofheader tmp s)
     else Some (Goto err tmp s))"

definition tp_t :: "ptr \<Rightarrow> tp_state \<Rightarrow> tp_act" where
  "tp_t = tp_letter TAG1 (\<lambda>_. PARA_NAME) To_parse_error"

definition tp_a :: "ptr \<Rightarrow> tp_state \<Rightarrow> tp_act" where
  "tp_a = tp_letter PARA_NAME (\<lambda>st. if st = TAG1 then TAG2 else PARA_NAME) To_parse_error"

definition tp_g :: "ptr \<Rightarrow> tp_state \<Rightarrow> tp_act" where
  "tp_g = tp_letter PARA_NAME (\<lambda>st. if st = TAG2 then TAG3 else PARA_NAME) To_parse_error"

definition tp_default :: "ptr \<Rightarrow> tp_state \<Rightarrow> tp_act" where
  "tp_default = tp_letter PARA_NAME (\<lambda>_. PARA_NAME) To_error"

definition tp_equal :: "ptr \<Rightarrow> tp_state \<Rightarrow> tp_act" where
  "tp_equal tmp s = (let st = ts_status s in
     if st = PARA_VALUE_QUOTED then Some (Next tmp s)
     else if st \<in> name_states then do {
       s1 \<leftarrow> tp_name_end tmp (st = TAG3) s; Some (Next tmp (s1\<lparr>ts_status := S_PARA_VALUE\<rparr>)) }
     else if st = S_EQUAL then Some (Next tmp (s\<lparr>ts_status := S_PARA_VALUE\<rparr>))
     else if st \<in> eol_states then Some (Goto To_endofheader tmp s)
     else Some (Goto To_parse_error tmp s))"

definition tp_step :: "(nat \<Rightarrow> bool) \<Rightarrow> bool \<Rightarrow> mem \<Rightarrow> ptr \<Rightarrow> char \<Rightarrow> tp_state \<Rightarrow> tp_act" where
  "tp_step alloc multi m tmp c s =
     (if c \<in> {SPC, TAB} then tp_space tmp s
      else if c = LF then tp_lf tmp s
      else if c = CR then tp_cr tmp s
      else if c \<in> {NUL, CHR '',''} then tp_comma multi tmp c s
      else if c = BACKSLASH then tp_backslash m tmp s
      else if c = DQUOTE then tp_quote tmp s
      else if c = CHR '';'' then tp_semi alloc tmp s
      else if c \<in> {CHR ''T'', CHR ''t''} then tp_t tmp s
      else if c \<in> {CHR ''A'', CHR ''a''} then tp_a tmp s
      else if c \<in> {CHR ''G'', CHR ''g''} then tp_g tmp s
      else if c = CHR ''='' then tp_equal tmp s
      else tp_default tmp s)"

text \<open>\<^verbatim>\<open>free_to_params\<close>, and the labels after the loop: the returned pointer, body, \<^verbatim>\<open>*returned_status\<close> and allocation count.\<close>

definition free_to_params :: "to_body \<Rightarrow> to_body" where
  "free_to_params b = b\<lparr>tb_params := []\<rparr>"

type_synonym tp_result = "ptr \<times> to_body \<times> to_status \<times> nat"

definition tp_error :: "ptr \<Rightarrow> tp_state \<Rightarrow> tp_result" where
  "tp_error tmp s = (tmp, (free_to_params (ts_body s))\<lparr>tb_error := PARSE_ERROR\<rparr>, ts_status s, ts_allocs s)"

definition tp_endofheader :: "ptr \<Rightarrow> tp_state \<Rightarrow> tp_result option" where
  "tp_endofheader tmp s =
     (case ts_param s of
        None \<Rightarrow> Some (tmp, ts_body s, ts_saved s, ts_allocs s)
      | Some p \<Rightarrow>
          if ts_saved s = S_EQUAL \<or> ts_saved s = S_PARA_VALUE then
            (if tp_type p = TAG_PARAM then Some (tp_error tmp s)
             else do {
               s1 \<leftarrow> add_param (s\<lparr>ts_param := Some (p\<lparr>tp_value := str_null\<rparr>)\<rparr>);
               Some (tmp, ts_body s1, E_PARA_VALUE, ts_allocs s1) })
          else Some (tmp, ts_body s, ts_saved s, ts_allocs s))"

definition tp_init :: "to_body \<Rightarrow> nat \<Rightarrow> tp_state" where
  "tp_init b n = \<lparr>ts_param = None, ts_status = E_PARA_VALUE, ts_saved = E_PARA_VALUE, ts_body = b, ts_allocs = n\<rparr>"

definition parse_to_param :: "(nat \<Rightarrow> bool) \<Rightarrow> bool \<Rightarrow> mem \<Rightarrow> ptr \<Rightarrow> ptr \<Rightarrow> to_body \<Rightarrow> nat \<Rightarrow> tp_result option" where
  "parse_to_param alloc multi m buffer e b n = do {
     (l, tmp, s) \<leftarrow> for_chars (tp_step alloc multi m) m buffer e (tp_init b n);
     case l of
       None \<Rightarrow> tp_endofheader tmp s
     | Some To_endofheader \<Rightarrow> tp_endofheader tmp s
     | Some To_parse_error \<Rightarrow> Some (tp_error tmp s)
     | Some To_error \<Rightarrow> Some (tp_error tmp s) }"

section \<open>The parameters: invariant\<close>

text \<open>The type of a parameter that has its name: \<^verbatim>\<open>TAG_PARAM\<close> for \<^verbatim>\<open>tag\<close> in any case, and only for it.\<close>

definition tag_typed :: "mem \<Rightarrow> to_param \<Rightarrow> bool" where
  "tag_typed m pr \<longleftrightarrow> (tp_type pr = TAG_PARAM \<longleftrightarrow> map tolower_c (str_text m (tp_name pr)) = ''tag'')"

definition param_ok :: "mem \<Rightarrow> ptr \<Rightarrow> ptr \<Rightarrow> to_param \<Rightarrow> bool" where
  "param_ok m b e pr \<longleftrightarrow> str_within b e (tp_name pr) \<and> str_within b e (tp_value pr) \<and> tag_typed m pr"

definition tag_of :: "to_param list \<Rightarrow> str" where
  "tag_of ps = (let ts = filter (\<lambda>p. tp_type p = TAG_PARAM) ps in if ts = [] then str_null else tp_value (last ts))"

definition body_in :: "mem \<Rightarrow> ptr \<Rightarrow> ptr \<Rightarrow> to_body \<Rightarrow> bool" where
  "body_in m b e x \<longleftrightarrow> str_within b e (tb_body x) \<and> str_within b e (tb_uri x) \<and> str_within b e (tb_display x) \<and>
     str_within b e (tb_tag_value x) \<and> list_all (param_ok m b e) (tb_params x) \<and>
     (tb_error x \<noteq> PARSE_ERROR \<longrightarrow> tb_tag_value x = tag_of (tb_params x))"

text \<open>A name that has started at \<open>n\<close> and whose length is not set yet, with a condition on its text so far.\<close>

definition open_str :: "ptr \<Rightarrow> str" where
  "open_str n = \<lparr>str_s = Some n, str_len = 0\<rparr>"

definition name_open :: "mem \<Rightarrow> ptr \<Rightarrow> ptr \<Rightarrow> to_param \<Rightarrow> (char list \<Rightarrow> bool) \<Rightarrow> bool" where
  "name_open m b p pr P \<longleftrightarrow> (\<exists>n. tp_name pr = open_str n \<and> b \<le> n \<and> n < p \<and> P (map tolower_c (seg m n p))) \<and>
     tp_value pr = str_null \<and> tp_type pr = GENERAL_PARAM"

definition name_closed :: "mem \<Rightarrow> ptr \<Rightarrow> ptr \<Rightarrow> to_param \<Rightarrow> bool" where
  "name_closed m b p pr \<longleftrightarrow> str_within b p (tp_name pr) \<and> tag_typed m pr"

definition not_tag :: "char list \<Rightarrow> bool" where
  "not_tag l \<longleftrightarrow> l \<noteq> [] \<and> l \<noteq> ''t'' \<and> l \<noteq> ''ta'' \<and> l \<noteq> ''tag''"

fun tp_pinv :: "mem \<Rightarrow> ptr \<Rightarrow> ptr \<Rightarrow> to_status \<Rightarrow> to_param \<Rightarrow> bool" where
  "tp_pinv m b p S_PARA_NAME pr \<longleftrightarrow> pr = to_param_zero"
| "tp_pinv m b p TAG1 pr \<longleftrightarrow> name_open m b p pr (\<lambda>l. l = ''t'')"
| "tp_pinv m b p TAG2 pr \<longleftrightarrow> name_open m b p pr (\<lambda>l. l = ''ta'')"
| "tp_pinv m b p TAG3 pr \<longleftrightarrow> name_open m b p pr (\<lambda>l. l = ''tag'')"
| "tp_pinv m b p PARA_NAME pr \<longleftrightarrow> name_open m b p pr not_tag"
| "tp_pinv m b p S_EQUAL pr \<longleftrightarrow> name_closed m b p pr \<and> tp_value pr = str_null"
| "tp_pinv m b p S_PARA_VALUE pr \<longleftrightarrow> name_closed m b p pr \<and> tp_value pr = str_null"
| "tp_pinv m b p PARA_VALUE_TOKEN pr \<longleftrightarrow> name_closed m b p pr \<and> (\<exists>v. tp_value pr = open_str v \<and> b \<le> v \<and> v \<le> p)"
| "tp_pinv m b p PARA_VALUE_QUOTED pr \<longleftrightarrow> name_closed m b p pr \<and> (\<exists>v. tp_value pr = open_str v \<and> b \<le> v \<and> v \<le> p)"
| "tp_pinv m b p _ pr \<longleftrightarrow> False"

definition tp_eff :: "tp_state \<Rightarrow> to_status" where
  "tp_eff s = (if ts_status s \<in> eol_states then ts_saved s else ts_status s)"

definition save_states :: "to_status set" where
  "save_states = {S_PARA_NAME, S_EQUAL, S_PARA_VALUE, E_PARA_VALUE}"

definition tp_inv :: "mem \<Rightarrow> ptr \<Rightarrow> ptr \<Rightarrow> tp_state \<Rightarrow> bool" where
  "tp_inv m b p s \<longleftrightarrow> b \<le> p \<and> body_in m b p (ts_body s) \<and> tb_error (ts_body s) \<noteq> PARSE_ERROR \<and>
     ts_saved s \<in> save_states \<and>
     (case ts_param s of None \<Rightarrow> tp_eff s = E_PARA_VALUE | Some pr \<Rightarrow> tp_pinv m b p (tp_eff s) pr)"

text \<open>What holds when the loop is left, with \<^verbatim>\<open>tmp\<close> at \<open>q\<close>.\<close>

definition tp_out :: "mem \<Rightarrow> ptr \<Rightarrow> ptr \<Rightarrow> ptr \<Rightarrow> tp_state \<Rightarrow> bool" where
  "tp_out m b e q s \<longleftrightarrow> b \<le> q \<and> q \<le> e \<and> body_in m b e (ts_body s) \<and> tb_error (ts_body s) \<noteq> PARSE_ERROR \<and>
     (\<forall>pr. ts_param s = Some pr \<longrightarrow> param_ok m b e pr)"

subsection \<open>Monotonicity and the elementary updates\<close>

lemma param_ok_mono: "param_ok m b e pr \<Longrightarrow> e \<le> e' \<Longrightarrow> param_ok m b e' pr"
  by (auto simp: param_ok_def intro: str_within_mono)

lemma body_in_mono: "body_in m b e x \<Longrightarrow> e \<le> e' \<Longrightarrow> body_in m b e' x"
  by (auto simp: body_in_def list_all_iff intro: str_within_mono param_ok_mono)

lemma name_closed_mono: "name_closed m b e x \<Longrightarrow> e \<le> e' \<Longrightarrow> name_closed m b e' x"
  by (auto simp: name_closed_def intro: str_within_mono)

lemma str_within_open [simp]: "str_within b e (open_str n) \<longleftrightarrow> b \<le> n \<and> n \<le> e"
  by (auto simp: str_within_def open_str_def)

lemma str_text_open [simp]: "str_text m (open_str n) = []"
  by (simp add: str_text_def open_str_def)

lemma end_at_open [simp]: "end_at q (open_str n) = Some (mk_str n q)"
  by (simp add: end_at_def open_str_def)

lemma start_null [simp]: "str_null\<lparr>str_s := Some p\<rparr> = open_str p"
  by (simp add: str_null_def open_str_def)

lemma tp_pinv_ok: "tp_pinv m b p st pr \<Longrightarrow> p \<le> e \<Longrightarrow> param_ok m b e pr"
  by (induction m b p st pr rule: tp_pinv.induct)
    (auto simp: param_ok_def to_param_zero_def name_open_def name_closed_def tag_typed_def intro: str_within_mono)

lemma tp_inv_out: "tp_inv m b p s \<Longrightarrow> p \<le> e \<Longrightarrow> tp_out m b e p s"
  by (auto simp: tp_inv_def tp_out_def intro: body_in_mono tp_pinv_ok split: option.splits)

lemma tag_of_snoc: "tag_of (ps @ [p]) = (if tp_type p = TAG_PARAM then tp_value p else tag_of ps)"
  by (simp add: tag_of_def)

lemma link_param_in:
  assumes "param_ok m b e pr" and "body_in m b e x" and "tb_error x \<noteq> PARSE_ERROR"
  shows "body_in m b e (link_param pr x) \<and> tb_error (link_param pr x) \<noteq> PARSE_ERROR"
  using assms by (auto simp: link_param_def body_in_def tag_of_snoc param_ok_def Let_def)

lemma name_open_snoc:
  assumes "name_open m b p pr P" and "p < length m" and "\<And>l. P l \<Longrightarrow> Q (l @ [tolower_c (m ! p)])"
  shows "name_open m b (Suc p) pr Q"
proof -
  obtain n where n: "tp_name pr = open_str n" "b \<le> n" "n < p" "P (map tolower_c (seg m n p))"
    using assms(1) by (auto simp: name_open_def)
  have "seg m n (Suc p) = seg m n p @ [m ! p]"
    using seg_snoc [of n "Suc p" m] n assms(2) by simp
  then have "Q (map tolower_c (seg m n (Suc p)))" using assms(3) [OF n(4)] by simp
  with n assms(1) show ?thesis by (auto simp: name_open_def)
qed

lemma name_start_open:
  assumes "p < length m" and "b \<le> p" and "P [tolower_c (m ! p)]"
  shows "name_open m b (Suc p) (to_param_zero\<lparr>tp_name := open_str p\<rparr>) P"
  unfolding name_open_def using assms seg_Cons [of p "Suc p" m]
  by (intro conjI exI [of _ p]) (simp_all add: to_param_zero_def)

lemma not_tag_snoc: "not_tag l \<Longrightarrow> not_tag (l @ [x])"
  by (cases l rule: rev_cases) (auto simp: not_tag_def append_eq_Cons_conv Cons_eq_append_conv)

lemma tp_name_end_ok:
  assumes "ts_param s = Some pr" and "tp_pinv m b p st pr" and "st \<in> name_states"
  shows "\<exists>pr'. tp_name_end p (st = TAG3) s = Some (s\<lparr>ts_param := Some pr'\<rparr>) \<and> name_closed m b p pr' \<and>
    tp_value pr' = str_null \<and> (st \<noteq> TAG3 \<longrightarrow> tp_type pr' = GENERAL_PARAM)"
proof -
  obtain n where n: "tp_name pr = open_str n" "b \<le> n" "n < p" "tp_value pr = str_null" "tp_type pr = GENERAL_PARAM"
    and l: "st = TAG3 \<longleftrightarrow> map tolower_c (seg m n p) = ''tag''"
    using assms(2,3) by (auto simp: name_states_def name_open_def not_tag_def)
  then show ?thesis
    using assms(1) by (auto simp: tp_name_end_def name_closed_def tag_typed_def)
qed

lemma param_closed_ok:
  assumes "name_closed m b p pr" and "b \<le> v" and "v \<le> p"
  shows "param_ok m b p (pr\<lparr>tp_value := mk_str v p\<rparr>)"
  using assms by (auto simp: param_ok_def name_closed_def tag_typed_def)

text \<open>The two ways a step can be right.\<close>

definition tp_step_ok :: "mem \<Rightarrow> ptr \<Rightarrow> ptr \<Rightarrow> ptr \<Rightarrow> tp_act \<Rightarrow> bool" where
  "tp_step_ok m b e p a \<longleftrightarrow>
     (\<exists>q s'. a = Some (Next q s') \<and> p \<le> q \<and> q \<le> p + 1 \<and> tp_inv m b (Suc q) s') \<or>
     (\<exists>l q s'. a = Some (Goto l q s') \<and> p \<le> q \<and> tp_out m b e q s')"

lemma tp_goto_ok:
  assumes "tp_inv m b p s" and "p < e"
  shows "tp_step_ok m b e p (Some (Goto l p s))" "tp_step_ok m b e p (Some (Goto l p (s\<lparr>ts_status := st\<rparr>)))"
  using tp_inv_out [OF assms(1), of e] assms(2) by (auto simp: tp_step_ok_def tp_out_def)

text \<open>A step that keeps the parameter and its status.\<close>

lemma tp_stay:
  assumes "tp_inv m b p s" and "p \<le> q" and "tp_eff s \<notin> name_states"
  shows "tp_inv m b (Suc q) s"
proof -
  have "tp_pinv m b p st pr \<Longrightarrow> st \<notin> name_states \<Longrightarrow> tp_pinv m b (Suc q) st pr" for st pr
    using assms(2) by (cases st) (auto simp: name_states_def intro: name_closed_mono)
  with assms show ?thesis
    by (auto simp: tp_inv_def intro: body_in_mono split: option.splits)
qed

lemma tp_inv_param:
  assumes "tp_inv m b p s" and "tp_eff s \<noteq> E_PARA_VALUE"
  obtains pr where "ts_param s = Some pr" and "tp_pinv m b p (tp_eff s) pr"
  using assms by (auto simp: tp_inv_def split: option.splits)

lemma tp_inv_set:
  assumes "tp_inv m b p s" and "p \<le> q" and "st \<notin> eol_states" and "tp_pinv m b (Suc q) st pr"
  shows "tp_inv m b (Suc q) (s\<lparr>ts_param := Some pr, ts_status := st\<rparr>)"
  using assms by (auto simp: tp_inv_def tp_eff_def intro: body_in_mono)

lemma tp_letter_ok:
  assumes inv: "tp_inv m b p s" and "p < e" and "e \<le> length m"
    and s0: "tp_pinv m b (Suc p) s0 (to_param_zero\<lparr>tp_name := open_str p\<rparr>)" "s0 \<in> name_states"
    and nx: "\<And>st pr. st \<in> {TAG1, TAG2, TAG3} \<Longrightarrow> tp_pinv m b p st pr \<Longrightarrow> tp_pinv m b (Suc p) (nx st) pr \<and> nx st \<in> name_states"
  shows "tp_step_ok m b e p (tp_letter s0 nx err p s)"
proof -
  let ?st = "ts_status s"
  have name: "x \<in> name_states \<Longrightarrow> x \<notin> eol_states" for x by (auto simp: name_states_def eol_states_def)
  consider "?st \<in> {PARA_VALUE_QUOTED, PARA_VALUE_TOKEN}" | "?st = PARA_NAME" | "?st = S_PARA_NAME" | "?st = S_PARA_VALUE"
    | "?st \<in> {TAG1, TAG2, TAG3}" | "?st \<notin> {PARA_VALUE_QUOTED, PARA_VALUE_TOKEN, PARA_NAME, S_PARA_NAME, S_PARA_VALUE, TAG1, TAG2, TAG3}"
    by blast
  then show ?thesis
  proof cases
    case 1
    then have "tp_inv m b (Suc p) s"
      using inv by (intro tp_stay) (auto simp: tp_eff_def eol_states_def name_states_def)
    with 1 show ?thesis by (auto simp: tp_letter_def tp_step_ok_def Let_def)
  next
    case 2
    then have e: "tp_eff s = PARA_NAME" by (simp add: tp_eff_def eol_states_def)
    then obtain pr where pr: "ts_param s = Some pr" "tp_pinv m b p PARA_NAME pr" using tp_inv_param [OF inv] by force
    then have "tp_pinv m b (Suc p) PARA_NAME pr"
      using assms(2,3) by (auto intro: name_open_snoc not_tag_snoc)
    then have "tp_inv m b (Suc p) s"
      using inv pr(1) e by (auto simp: tp_inv_def intro: body_in_mono)
    with 2 show ?thesis by (auto simp: tp_letter_def tp_step_ok_def Let_def)
  next
    case 3
    then have "tp_eff s = S_PARA_NAME" by (simp add: tp_eff_def eol_states_def)
    then have "ts_param s = Some to_param_zero" using tp_inv_param [OF inv] by force
    then have "tp_name_start p s = Some (s\<lparr>ts_param := Some (to_param_zero\<lparr>tp_name := open_str p\<rparr>)\<rparr>)"
      by (simp add: tp_name_start_def, simp add: to_param_zero_def)
    with 3 tp_inv_set [OF inv order_refl name [OF s0(2)] s0(1)] show ?thesis
      by (auto simp: tp_letter_def tp_step_ok_def Let_def)
  next
    case 4
    then have "tp_eff s = S_PARA_VALUE" by (simp add: tp_eff_def eol_states_def)
    then obtain pr where pr: "ts_param s = Some pr" "name_closed m b p pr" "tp_value pr = str_null"
      using tp_inv_param [OF inv] by force
    then have "tp_value_start p s = Some (s\<lparr>ts_param := Some (pr\<lparr>tp_value := open_str p\<rparr>)\<rparr>)"
      by (simp add: tp_value_start_def)
    moreover have "tp_pinv m b (Suc p) PARA_VALUE_TOKEN (pr\<lparr>tp_value := open_str p\<rparr>)"
      using pr(2) inv by (auto simp: name_closed_def tag_typed_def tp_inv_def intro: str_within_mono)
    then have "tp_inv m b (Suc p) (s\<lparr>ts_param := Some (pr\<lparr>tp_value := open_str p\<rparr>), ts_status := PARA_VALUE_TOKEN\<rparr>)"
      by (intro tp_inv_set [OF inv]) (auto simp: eol_states_def)
    ultimately show ?thesis
      using 4 by (auto simp: tp_letter_def tp_step_ok_def Let_def)
  next
    case 5
    then have "tp_eff s = ?st" by (auto simp: tp_eff_def eol_states_def)
    moreover from this 5 have "tp_eff s \<noteq> E_PARA_VALUE" by auto
    ultimately obtain pr where pr: "ts_param s = Some pr" "tp_pinv m b p ?st pr" using tp_inv_param [OF inv] by force
    from nx [OF 5 pr(2)] have "tp_inv m b (Suc p) (s\<lparr>ts_param := Some pr, ts_status := nx ?st\<rparr>)"
      by (intro tp_inv_set [OF inv]) (auto dest: name)
    moreover have "s\<lparr>ts_param := Some pr, ts_status := nx ?st\<rparr> = s\<lparr>ts_status := nx ?st\<rparr>" using pr by simp
    ultimately have "tp_inv m b (Suc p) (s\<lparr>ts_status := nx ?st\<rparr>)" by simp
    with 5 show ?thesis by (auto simp: tp_letter_def tp_step_ok_def Let_def)
  next
    case 6
    then have "\<exists>l. tp_letter s0 nx err p s = Some (Goto l p s)"
      by (auto simp: tp_letter_def Let_def)
    with tp_goto_ok(1) [OF inv assms(2)] show ?thesis by auto
  qed
qed

text \<open>Entering a state with a closed name, or with no parameter.\<close>

lemma tp_inv_cong:
  assumes "tp_inv m b p s" and "tp_eff s' = tp_eff s" and "ts_param s' = ts_param s" and "ts_body s' = ts_body s"
    and "ts_saved s' \<in> save_states"
  shows "tp_inv m b p s'"
  using assms by (simp add: tp_inv_def split: option.splits)

lemma save_states_disj: "st \<in> save_states \<Longrightarrow> st \<notin> eol_states \<and> st \<notin> name_states"
  by (auto simp: save_states_def eol_states_def name_states_def)

lemma in_save_states [simp]: "S_EQUAL \<in> save_states" "E_PARA_VALUE \<in> save_states"
  by (simp_all add: save_states_def)

lemma tp_inv_named:
  assumes "tp_inv m b p s" and "name_closed m b p pr" and "tp_value pr = str_null"
    and "ts_param s' = Some pr" and "tp_eff s' \<in> {S_EQUAL, S_PARA_VALUE}" and "ts_body s' = ts_body s"
    and "ts_saved s' \<in> save_states"
  shows "tp_inv m b (Suc p) s'"
proof -
  have "body_in m b (Suc p) (ts_body s)" "name_closed m b (Suc p) pr"
    using assms(1,2) body_in_mono [of m b p _ "Suc p"] name_closed_mono [of m b p _ "Suc p"] by (auto simp: tp_inv_def)
  with assms show ?thesis by (auto simp: tp_inv_def)
qed

lemma tp_inv_linked:
  assumes "tp_inv m b p s" and "param_ok m b p pr"
    and "ts_body s' = link_param pr (ts_body s)" and "ts_param s' = None" and "tp_eff s' = E_PARA_VALUE"
    and "ts_saved s' \<in> save_states"
  shows "tp_inv m b (Suc p) s'"
proof -
  have "body_in m b p (link_param pr (ts_body s)) \<and> tb_error (link_param pr (ts_body s)) \<noteq> PARSE_ERROR" and "b \<le> p"
    using link_param_in [OF assms(2), of "ts_body s"] assms(1) by (auto simp: tp_inv_def)
  with assms(3-6) body_in_mono [of m b p _ "Suc p"] show ?thesis by (auto simp: tp_inv_def)
qed

lemmas tp_eff_simps = tp_eff_def eol_states_def

lemma tp_inv_saved: "tp_inv m b p s \<Longrightarrow> ts_saved s \<in> save_states"
  by (simp add: tp_inv_def)

lemma tp_name_step:
  assumes "tp_inv m b p s" and "ts_status s \<in> name_states"
  obtains pr where "tp_name_end p (ts_status s = TAG3) s = Some (s\<lparr>ts_param := Some pr\<rparr>)"
    and "name_closed m b p pr" and "tp_value pr = str_null" and "ts_status s \<noteq> TAG3 \<Longrightarrow> tp_type pr = GENERAL_PARAM"
proof -
  have e: "tp_eff s = ts_status s" and "tp_eff s \<noteq> E_PARA_VALUE"
    using assms(2) by (auto simp: tp_eff_def eol_states_def name_states_def)
  then obtain pr where "ts_param s = Some pr" "tp_pinv m b p (ts_status s) pr" using tp_inv_param [OF assms(1)] by force
  from tp_name_end_ok [OF this assms(2)] that show thesis by blast
qed

lemma tp_value_step:
  assumes "tp_inv m b p s" and "ts_status s \<in> {PARA_VALUE_TOKEN, PARA_VALUE_QUOTED}"
  obtains pr where "tp_value_end p s = Some (s\<lparr>ts_param := Some pr\<rparr>)" and "param_ok m b p pr"
    and "\<And>st. tp_value_end p (s\<lparr>ts_status := st\<rparr>) = Some (s\<lparr>ts_param := Some pr, ts_status := st\<rparr>)"
proof -
  have e: "tp_eff s = ts_status s" and "tp_eff s \<noteq> E_PARA_VALUE"
    using assms(2) by (auto simp: tp_eff_def eol_states_def)
  then obtain pr where pr: "ts_param s = Some pr" "tp_pinv m b p (ts_status s) pr" using tp_inv_param [OF assms(1)] by force
  then obtain v where "tp_value pr = open_str v" "b \<le> v" "v \<le> p" "name_closed m b p pr" using assms(2) by auto
  with pr show thesis
    by (intro that [of "pr\<lparr>tp_value := mk_str v p\<rparr>"]) (auto simp: tp_value_end_def param_closed_ok)
qed

lemma tp_space_ok:
  assumes inv: "tp_inv m b p s" and "p < e"
  shows "tp_step_ok m b e p (tp_space p s)"
proof -
  consider "ts_status s \<in> name_states" | "ts_status s = PARA_VALUE_TOKEN" | "ts_status s \<in> eol_states"
    | "ts_status s \<notin> name_states" "ts_status s \<noteq> PARA_VALUE_TOKEN" "ts_status s \<notin> eol_states" by blast
  then show ?thesis
  proof cases
    case 1
    from tp_name_step [OF inv 1] obtain pr where "tp_name_end p (ts_status s = TAG3) s = Some (s\<lparr>ts_param := Some pr\<rparr>)"
      "name_closed m b p pr" "tp_value pr = str_null" by blast
    with 1 tp_inv_named [OF inv this(2,3), of "s\<lparr>ts_param := Some pr, ts_status := S_EQUAL\<rparr>"] tp_inv_saved [OF inv]
    show ?thesis by (auto simp: tp_space_def tp_step_ok_def Let_def tp_eff_simps)
  next
    case 2
    then obtain pr where "tp_value_end p s = Some (s\<lparr>ts_param := Some pr\<rparr>)" "param_ok m b p pr"
      using tp_value_step [OF inv] by auto
    with 2 tp_inv_saved [OF inv] show ?thesis
      by (auto simp: tp_space_def tp_step_ok_def Let_def add_param_def name_states_def tp_eff_simps
          intro!: tp_inv_linked [OF inv])
  next
    case 3
    note sv = save_states_disj [OF tp_inv_saved [OF inv]]
    have "tp_inv m b p (s\<lparr>ts_status := ts_saved s\<rparr>)"
      using 3 sv tp_inv_saved [OF inv] by (intro tp_inv_cong [OF inv]) (auto simp: tp_eff_def)
    then have "tp_inv m b (Suc p) (s\<lparr>ts_status := ts_saved s\<rparr>)"
      using sv by (intro tp_stay) (auto simp: tp_eff_def)
    with 3 show ?thesis
      by (auto simp: tp_space_def tp_step_ok_def Let_def eol_states_def name_states_def)
  next
    case 4
    then have "tp_inv m b (Suc p) s" using inv by (intro tp_stay) (auto simp: tp_eff_def)
    with 4 show ?thesis by (auto simp: tp_space_def tp_step_ok_def Let_def)
  qed
qed

lemma tp_eol_ok:
  assumes inv: "tp_inv m b p s" and "p < e" and f: "f \<in> {F_LF, F_CR}"
  shows "tp_step_ok m b e p (tp_eol f p s)"
proof -
  have fe: "f \<in> eol_states" using f by (auto simp: eol_states_def)
  consider "ts_status s \<in> save_states" | "ts_status s \<in> name_states"
    | "ts_status s = PARA_VALUE_TOKEN" | "f = F_LF" "ts_status s = F_CR"
    | "ts_status s \<notin> save_states" "ts_status s \<noteq> PARA_VALUE_TOKEN" "ts_status s \<notin> name_states" "\<not> (f = F_LF \<and> ts_status s = F_CR)"
    by blast
  then show ?thesis
  proof cases
    case 1
    then have ne: "ts_status s \<notin> eol_states" "ts_status s \<notin> name_states" using save_states_disj by auto
    then have "tp_inv m b (Suc p) s" using inv by (intro tp_stay) (auto simp: tp_eff_def)
    then have "tp_inv m b (Suc p) (s\<lparr>ts_saved := ts_status s, ts_status := f\<rparr>)"
      by (rule tp_inv_cong) (use ne 1 fe in \<open>auto simp: tp_eff_def\<close>)
    moreover have "tp_eol f p s = Some (Next p (s\<lparr>ts_saved := ts_status s, ts_status := f\<rparr>))"
      using 1 by (simp add: tp_eol_def Let_def save_states_def)
    ultimately show ?thesis by (auto simp: tp_step_ok_def)
  next
    case 2
    from tp_name_step [OF inv 2] obtain pr where "tp_name_end p (ts_status s = TAG3) s = Some (s\<lparr>ts_param := Some pr\<rparr>)"
      "name_closed m b p pr" "tp_value pr = str_null" by blast
    with 2 fe tp_inv_named [OF inv this(2,3), of "s\<lparr>ts_param := Some pr, ts_saved := S_EQUAL, ts_status := f\<rparr>"]
    show ?thesis by (auto simp: tp_eol_def tp_step_ok_def Let_def name_states_def tp_eff_def)
  next
    case 3
    then obtain pr where "tp_value_end p s = Some (s\<lparr>ts_param := Some pr\<rparr>)" "param_ok m b p pr"
      using tp_value_step [OF inv] by auto
    with 3 fe show ?thesis
      by (auto simp: tp_eol_def tp_step_ok_def Let_def add_param_def name_states_def tp_eff_def
          intro!: tp_inv_linked [OF inv])
  next
    case 4
    then have "tp_eff s = ts_saved s" by (simp add: tp_eff_def eol_states_def)
    then have "tp_inv m b (Suc p) s"
      using save_states_disj [OF tp_inv_saved [OF inv]] inv by (intro tp_stay) auto
    then have "tp_inv m b (Suc p) (s\<lparr>ts_status := F_CRLF\<rparr>)"
      by (rule tp_inv_cong) (use 4 tp_inv_saved [OF inv] in \<open>auto simp: tp_eff_simps\<close>)
    with 4 show ?thesis by (auto simp: tp_eol_def tp_step_ok_def Let_def name_states_def)
  next
    case 5
    then have "tp_eol f p s = Some (Goto To_parse_error p s) \<or>
        tp_eol f p s = Some (Goto To_endofheader p (s\<lparr>ts_status := ts_saved s\<rparr>))"
      by (simp add: tp_eol_def Let_def save_states_def)
    with tp_goto_ok [OF inv assms(2)] show ?thesis by auto
  qed
qed

text \<open>Closing a parameter at a separator.\<close>

definition tp_closed :: "mem \<Rightarrow> ptr \<Rightarrow> ptr \<Rightarrow> tp_state \<Rightarrow> tp_state \<Rightarrow> bool" where
  "tp_closed m b p s s1 \<longleftrightarrow> ts_param s1 = None \<and> ts_saved s1 = ts_saved s \<and> ts_allocs s1 = ts_allocs s \<and>
     body_in m b p (ts_body s1) \<and> tb_error (ts_body s1) \<noteq> PARSE_ERROR"

lemma tp_close_ok:
  assumes inv: "tp_inv m b p s" and "ts_status s \<in> {PARA_NAME, S_EQUAL, S_PARA_VALUE, PARA_VALUE_TOKEN, E_PARA_VALUE}"
    and upd: "upd = (\<lambda>s. s) \<or> upd = (\<lambda>s. s\<lparr>ts_status := E_PARA_VALUE\<rparr>)"
  shows "(\<exists>s1 pr. tp_close p upd s = Some (Inl s1) \<and> s1 = s\<lparr>ts_param := Some pr\<rparr> \<and> param_ok m b p pr) \<or>
    (\<exists>s1. tp_close p upd s = Some (Inr s1) \<and> tp_closed m b p s s1)"
proof -
  have bd: "body_in m b p (ts_body s)" "tb_error (ts_body s) \<noteq> PARSE_ERROR" "b \<le> p" using inv by (auto simp: tp_inv_def)
  have empty: "\<exists>s5. (do { s2 \<leftarrow> tp_value_start p s1; s3 \<leftarrow> tp_value_end p (upd s2); s4 \<leftarrow> add_param s3; Some (Inr s4) }) =
      Some (Inr s5 :: tp_state + tp_state) \<and> tp_closed m b p s s5"
    if "name_closed m b p pr" "tp_value pr = str_null" "s1 = s\<lparr>ts_param := Some pr\<rparr>" for s1 pr
  proof -
    have "param_ok m b p (pr\<lparr>tp_value := mk_str p p\<rparr>)" using param_closed_ok [OF that(1), of p] bd by simp
    from link_param_in [OF this bd(1,2)] show ?thesis
      using that upd by (auto simp: tp_value_start_def tp_value_end_def add_param_def tp_closed_def)
  qed
  consider "ts_status s = E_PARA_VALUE" | "ts_status s = PARA_VALUE_TOKEN" | "ts_status s = PARA_NAME" | "ts_status s \<in> {S_EQUAL, S_PARA_VALUE}"
    using assms(2) by auto
  then show ?thesis
  proof cases
    case 1
    then have "tp_eff s = E_PARA_VALUE" by (simp add: tp_eff_def eol_states_def)
    then have "ts_param s = None" using inv by (auto simp: tp_inv_def split: option.splits)
    with 1 bd show ?thesis by (auto simp: tp_close_def Let_def tp_closed_def)
  next
    case 2
    then obtain pr where "tp_value_end p s = Some (s\<lparr>ts_param := Some pr\<rparr>)" "param_ok m b p pr"
      "\<And>st. tp_value_end p (s\<lparr>ts_status := st\<rparr>) = Some (s\<lparr>ts_param := Some pr, ts_status := st\<rparr>)"
      using tp_value_step [OF inv] by auto
    with 2 link_param_in [OF this(2) bd(1,2)] upd show ?thesis
      by (auto simp: tp_close_def Let_def add_param_def tp_closed_def)
  next
    case 3
    then have "ts_status s \<in> name_states" by (simp add: name_states_def)
    from tp_name_step [OF inv this] 3 obtain pr where pr: "tp_name_end p False s = Some (s\<lparr>ts_param := Some pr\<rparr>)"
      "name_closed m b p pr" "tp_value pr = str_null" "tp_type pr = GENERAL_PARAM" by auto
    with empty [OF pr(2,3) refl] 3 show ?thesis by (auto simp: tp_close_def Let_def)
  next
    case 4
    then have "tp_eff s = ts_status s" "tp_eff s \<noteq> E_PARA_VALUE" by (auto simp: tp_eff_def eol_states_def)
    then obtain pr where pr: "ts_param s = Some pr" "name_closed m b p pr" "tp_value pr = str_null"
      using tp_inv_param [OF inv] 4 by force
    then have s: "s = s\<lparr>ts_param := Some pr\<rparr>" by simp
    have "param_ok m b p pr" using pr by (auto simp: param_ok_def name_closed_def)
    then have "\<exists>s1 pr. s = s1 \<and> s1 = s\<lparr>ts_param := Some pr\<rparr> \<and> param_ok m b p pr" using s by blast
    with empty [OF pr(2,3) s] pr(1) 4 show ?thesis
      by (cases "tp_type pr = TAG_PARAM") (auto simp: tp_close_def Let_def)
  qed
qed

lemma tp_comma_ok:
  assumes inv: "tp_inv m b p s" and "p < e"
  shows "tp_step_ok m b e p (tp_comma multi p c s)"
proof -
  have le: "p \<le> e" "b \<le> p" using assms by (auto simp: tp_inv_def)
  have bd: "body_in m b e (ts_body s)" "tb_error (ts_body s) \<noteq> PARSE_ERROR"
    using inv body_in_mono [of m b p _ e] le by (auto simp: tp_inv_def)
  consider "ts_status s = PARA_VALUE_QUOTED" | "ts_status s \<in> {PARA_NAME, S_EQUAL, S_PARA_VALUE, PARA_VALUE_TOKEN, E_PARA_VALUE}"
    | "ts_status s \<notin> {PARA_VALUE_QUOTED, PARA_NAME, S_EQUAL, S_PARA_VALUE, PARA_VALUE_TOKEN, E_PARA_VALUE}" by blast
  then show ?thesis
  proof cases
    case 1
    then have "tp_inv m b (Suc p) s" using inv by (intro tp_stay) (auto simp: tp_eff_def eol_states_def name_states_def)
    with 1 show ?thesis by (auto simp: tp_comma_def tp_step_ok_def Let_def)
  next
    case 2
    define u :: "tp_state \<Rightarrow> tp_state" where "u = (\<lambda>s. s\<lparr>ts_status := E_PARA_VALUE\<rparr>)"
    have un: "tp_comma multi p c s = (do {
       r \<leftarrow> tp_close p u s;
       case r of
         Inl s1 \<Rightarrow> Some (Goto To_parse_error p s1)
       | Inr s1 \<Rightarrow> Some (Goto (if \<not> multi \<and> c = CHR '','' then To_parse_error else To_endofheader) p
                             (s1\<lparr>ts_saved := ts_status s1\<rparr>)) })"
      using 2 by (auto simp: tp_comma_def Let_def u_def cong: option.case_cong sum.case_cong)
    consider (err) s1 pr where "tp_close p u s = Some (Inl s1)" "s1 = s\<lparr>ts_param := Some pr\<rparr>" "param_ok m b p pr"
      | (ok) s1 where "tp_close p u s = Some (Inr s1)" "tp_closed m b p s s1"
      using tp_close_ok [OF inv 2, of u] by (auto simp: u_def)
    then show ?thesis
    proof cases
      case err
      then have "tp_out m b e p s1" using bd le param_ok_mono [of m b p pr e] by (auto simp: tp_out_def)
      with err show ?thesis unfolding un by (auto simp: tp_step_ok_def)
    next
      case ok
      then have "tp_out m b e p (s1\<lparr>ts_saved := ts_status s1\<rparr>)"
        using le body_in_mono [of m b p _ e] by (auto simp: tp_out_def tp_closed_def)
      with ok show ?thesis unfolding un by (auto simp: tp_step_ok_def)
    qed
  next
    case 3
    with tp_goto_ok(1) [OF inv assms(2)] show ?thesis by (simp add: tp_comma_def Let_def)
  qed
qed

lemma tp_semi_ok:
  assumes inv: "tp_inv m b p s" and "p < e"
  shows "tp_step_ok m b e p (tp_semi alloc p s)"
proof -
  have le: "p \<le> e" "b \<le> p" using assms by (auto simp: tp_inv_def)
  have sv: "ts_saved s \<in> save_states" using inv by (simp add: tp_inv_def)
  have bd: "body_in m b e (ts_body s)" "tb_error (ts_body s) \<noteq> PARSE_ERROR"
    using inv body_in_mono [of m b p _ e] le by (auto simp: tp_inv_def)
  consider "ts_status s = PARA_VALUE_QUOTED" | "ts_status s \<in> {PARA_NAME, S_EQUAL, S_PARA_VALUE, PARA_VALUE_TOKEN, E_PARA_VALUE}"
    | "ts_status s \<notin> {PARA_VALUE_QUOTED, PARA_NAME, S_EQUAL, S_PARA_VALUE, PARA_VALUE_TOKEN, E_PARA_VALUE}" by blast
  then show ?thesis
  proof cases
    case 1
    then have "tp_inv m b (Suc p) s" using inv by (intro tp_stay) (auto simp: tp_eff_def eol_states_def name_states_def)
    with 1 show ?thesis by (auto simp: tp_semi_def tp_step_ok_def Let_def)
  next
    case 2
    consider (err) s1 pr where "tp_close p (\<lambda>s. s) s = Some (Inl s1)" "s1 = s\<lparr>ts_param := Some pr\<rparr>" "param_ok m b p pr"
      | (ok) s1 where "tp_close p (\<lambda>s. s) s = Some (Inr s1)" "tp_closed m b p s s1"
      using tp_close_ok [OF inv 2, of "\<lambda>s. s"] by blast
    then show ?thesis
    proof cases
      case err
      with 2 bd le show ?thesis by (auto simp: tp_semi_def tp_step_ok_def tp_out_def Let_def intro: param_ok_mono)
    next
      case ok
      then have "tp_inv m b (Suc p) (s1\<lparr>ts_param := Some to_param_zero, ts_allocs := Suc (ts_allocs s1),
          ts_status := S_PARA_NAME\<rparr>)"
        using le sv body_in_mono [of m b p _ "Suc p"] by (auto simp: tp_inv_def tp_eff_simps tp_closed_def)
      with ok 2 le body_in_mono [of m b p _ e] show ?thesis
        by (auto simp: tp_semi_def tp_step_ok_def tp_out_def Let_def tp_closed_def)
    qed
  next
    case 3
    with tp_goto_ok(1) [OF inv assms(2)] show ?thesis by (auto simp: tp_semi_def Let_def)
  qed
qed

lemma tp_quote_ok:
  assumes inv: "tp_inv m b p s" and "p < e"
  shows "tp_step_ok m b e p (tp_quote p s)"
proof -
  consider "ts_status s = S_PARA_VALUE" | "ts_status s = PARA_VALUE_QUOTED" | "ts_status s \<notin> {S_PARA_VALUE, PARA_VALUE_QUOTED}"
    by blast
  then show ?thesis
  proof cases
    case 1
    then have "tp_eff s = S_PARA_VALUE" by (simp add: tp_eff_def eol_states_def)
    then obtain pr where pr: "ts_param s = Some pr" "name_closed m b p pr" "tp_value pr = str_null"
      using tp_inv_param [OF inv] by force
    have "tp_pinv m b (Suc p) PARA_VALUE_QUOTED (pr\<lparr>tp_value := open_str (p + 1)\<rparr>)"
      using pr(2) inv by (auto simp: name_closed_def tag_typed_def tp_inv_def intro: str_within_mono)
    then have "tp_inv m b (Suc p) (s\<lparr>ts_param := Some (pr\<lparr>tp_value := open_str (p + 1)\<rparr>), ts_status := PARA_VALUE_QUOTED\<rparr>)"
      by (intro tp_inv_set [OF inv]) (auto simp: eol_states_def)
    with 1 pr show ?thesis by (auto simp: tp_quote_def tp_step_ok_def Let_def tp_value_start_def)
  next
    case 2
    then obtain pr where "tp_value_end p s = Some (s\<lparr>ts_param := Some pr\<rparr>)" "param_ok m b p pr"
      using tp_value_step [OF inv] by auto
    with 2 tp_inv_saved [OF inv] show ?thesis
      by (auto simp: tp_quote_def tp_step_ok_def Let_def add_param_def tp_eff_simps intro!: tp_inv_linked [OF inv])
  next
    case 3
    with tp_goto_ok(1) [OF inv assms(2)] show ?thesis by (auto simp: tp_quote_def Let_def)
  qed
qed

lemma tp_equal_ok:
  assumes inv: "tp_inv m b p s" and "p < e"
  shows "tp_step_ok m b e p (tp_equal p s)"
proof -
  consider "ts_status s = PARA_VALUE_QUOTED" | "ts_status s \<in> name_states" | "ts_status s = S_EQUAL"
    | "ts_status s \<notin> {PARA_VALUE_QUOTED, S_EQUAL}" "ts_status s \<notin> name_states" by blast
  then show ?thesis
  proof cases
    case 1
    then have "tp_inv m b (Suc p) s" using inv by (intro tp_stay) (auto simp: tp_eff_def eol_states_def name_states_def)
    with 1 show ?thesis by (auto simp: tp_equal_def tp_step_ok_def Let_def)
  next
    case 2
    from tp_name_step [OF inv 2] obtain pr where "tp_name_end p (ts_status s = TAG3) s = Some (s\<lparr>ts_param := Some pr\<rparr>)"
      "name_closed m b p pr" "tp_value pr = str_null" by blast
    with 2 tp_inv_named [OF inv this(2,3), of "s\<lparr>ts_param := Some pr, ts_status := S_PARA_VALUE\<rparr>"] tp_inv_saved [OF inv]
    show ?thesis by (auto simp: tp_equal_def tp_step_ok_def Let_def name_states_def tp_eff_simps)
  next
    case 3
    then have "tp_eff s = S_EQUAL" by (simp add: tp_eff_def eol_states_def)
    then obtain pr where pr: "ts_param s = Some pr" "name_closed m b p pr" "tp_value pr = str_null"
      using tp_inv_param [OF inv] by force
    then show ?thesis
      using 3 tp_inv_named [OF inv pr(2,3), of "s\<lparr>ts_status := S_PARA_VALUE\<rparr>"] tp_inv_saved [OF inv]
      by (auto simp: tp_equal_def tp_step_ok_def Let_def name_states_def tp_eff_simps)
  next
    case 4
    with tp_goto_ok(1) [OF inv assms(2)] show ?thesis by (auto simp: tp_equal_def Let_def)
  qed
qed

lemma tp_backslash_ok:
  assumes inv: "tp_inv m b p s" and "p < e" and "e < length m"
  shows "tp_step_ok m b e p (tp_backslash m p s)"
proof (cases "ts_status s = PARA_VALUE_QUOTED")
  case True
  then have ne: "tp_eff s \<notin> name_states" by (simp add: tp_eff_simps name_states_def)
  have "tp_inv m b (Suc p) s" "tp_inv m b (Suc (Suc p)) s"
    using tp_stay [OF inv _ ne, of p] tp_stay [OF inv _ ne, of "Suc p"] by auto
  with True assms show ?thesis by (auto simp: tp_backslash_def tp_step_ok_def)
next
  case False
  with tp_goto_ok(1) [OF inv assms(2)] show ?thesis by (simp add: tp_backslash_def)
qed

lemma tp_step_good:
  assumes inv: "tp_inv m b p s" and "p < e" and "e < length m"
  shows "tp_step_ok m b e p (tp_step alloc multi m p (m ! p) s)"
proof -
  have "b \<le> p" "p < length m" using assms by (auto simp: tp_inv_def)
  note start = name_start_open [OF this(2,1)] and snoc = name_open_snoc [OF _ this(2)]
  note letter = tp_letter_ok [OF inv assms(2) less_imp_le [OF assms(3)]]
  have t: "tp_step_ok m b e p (tp_t p s)" if "tolower_c (m ! p) = CHR ''t''"
    unfolding tp_t_def using that start snoc by (intro letter) (auto simp: name_states_def not_tag_def)
  have a: "tp_step_ok m b e p (tp_a p s)" if "tolower_c (m ! p) = CHR ''a''"
    unfolding tp_a_def using that start snoc by (intro letter) (auto simp: name_states_def not_tag_def)
  have g: "tp_step_ok m b e p (tp_g p s)" if "tolower_c (m ! p) = CHR ''g''"
    unfolding tp_g_def using that start snoc by (intro letter) (auto simp: name_states_def not_tag_def)
  have d: "tp_step_ok m b e p (tp_default p s)" if "tolower_c (m ! p) \<notin> {CHR ''t'', CHR ''a'', CHR ''g''}"
    unfolding tp_default_def using that start snoc by (intro letter) (auto simp: name_states_def not_tag_def)
  show ?thesis
    unfolding tp_step_def tp_lf_def tp_cr_def
    using tp_space_ok [OF inv assms(2)] tp_eol_ok [OF inv assms(2)] tp_comma_ok [OF inv assms(2)]
      tp_backslash_ok [OF assms] tp_quote_ok [OF inv assms(2)] tp_semi_ok [OF inv assms(2)] tp_equal_ok [OF inv assms(2)]
      t a g d by (simp add: tolower_c_eq_letter)
qed

subsection \<open>The parameters leave the rest of the body alone\<close>

definition frame :: "to_body \<Rightarrow> str \<times> str \<times> str" where
  "frame x = (tb_body x, tb_uri x, tb_display x)"

fun act_state :: "('l, 's) act \<Rightarrow> 's" where
  "act_state (Next q s) = s"
| "act_state (Goto l q s) = s"

lemma link_simps [simp]:
  "tb_body (link_param p x) = tb_body x" "tb_uri (link_param p x) = tb_uri x" "tb_display (link_param p x) = tb_display x"
  by (simp_all add: link_param_def Let_def)

lemma frame_link [simp]: "frame (link_param p x) = frame x"
  by (simp add: frame_def)

lemma tp_ops_frame:
  "tp_name_end q t s = Some s' \<Longrightarrow> ts_body s' = ts_body s"
  "tp_value_end q s = Some s' \<Longrightarrow> ts_body s' = ts_body s"
  "tp_name_start q s = Some s' \<Longrightarrow> ts_body s' = ts_body s"
  "tp_value_start q s = Some s' \<Longrightarrow> ts_body s' = ts_body s"
  "add_param s = Some s' \<Longrightarrow> frame (ts_body s') = frame (ts_body s)"
  by (auto simp: tp_name_end_def tp_value_end_def tp_name_start_def tp_value_start_def add_param_def bind_eq_Some_conv)

lemma tp_close_frame:
  assumes "tp_close q upd s = Some r" and "\<And>z. ts_body (upd z) = ts_body z"
  shows "frame (ts_body (case r of Inl z \<Rightarrow> z | Inr z \<Rightarrow> z)) = frame (ts_body s)"
  using assms by (auto simp: tp_close_def Let_def bind_eq_Some_conv dest!: tp_ops_frame split: if_splits)

named_theorems tp_frames \<open>the cases of the switch keep the frame\<close>

lemma tp_space_frame [tp_frames]: "tp_space q s = Some a \<Longrightarrow> frame (ts_body (act_state a)) = frame (ts_body s)"
  by (auto simp: tp_space_def Let_def bind_eq_Some_conv dest!: tp_ops_frame split: if_splits)

lemma tp_eol_frame [tp_frames]: "tp_eol f q s = Some a \<Longrightarrow> frame (ts_body (act_state a)) = frame (ts_body s)"
  by (auto simp: tp_eol_def Let_def bind_eq_Some_conv dest!: tp_ops_frame split: if_splits)

lemma tp_comma_frame [tp_frames]:
  assumes "tp_comma multi q c s = Some a"
  shows "frame (ts_body (act_state a)) = frame (ts_body s)"
proof (cases "tp_close q (\<lambda>s. s\<lparr>ts_status := E_PARA_VALUE\<rparr>) s")
  case None
  with assms show ?thesis by (auto simp: tp_comma_def Let_def split: if_splits)
next
  case (Some r)
  from tp_close_frame [OF this] Some assms show ?thesis
    by (cases r) (auto simp: tp_comma_def Let_def split: if_splits)
qed

lemma tp_semi_frame [tp_frames]:
  assumes "tp_semi alloc q s = Some a"
  shows "frame (ts_body (act_state a)) = frame (ts_body s)"
proof (cases "tp_close q (\<lambda>s. s) s")
  case None
  with assms show ?thesis by (auto simp: tp_semi_def Let_def split: if_splits)
next
  case (Some r)
  from tp_close_frame [OF this] Some assms show ?thesis
    by (cases r) (auto simp: tp_semi_def Let_def split: if_splits)
qed

lemma tp_backslash_frame [tp_frames]: "tp_backslash m q s = Some a \<Longrightarrow> frame (ts_body (act_state a)) = frame (ts_body s)"
  by (auto simp: tp_backslash_def bind_eq_Some_conv split: if_splits)

lemma tp_quote_frame [tp_frames]: "tp_quote q s = Some a \<Longrightarrow> frame (ts_body (act_state a)) = frame (ts_body s)"
  by (auto simp: tp_quote_def Let_def bind_eq_Some_conv dest!: tp_ops_frame split: if_splits)

lemma tp_letter_frame [tp_frames]: "tp_letter s0 nx err q s = Some a \<Longrightarrow> frame (ts_body (act_state a)) = frame (ts_body s)"
  by (auto simp: tp_letter_def Let_def bind_eq_Some_conv dest!: tp_ops_frame split: if_splits)

lemma tp_equal_frame [tp_frames]: "tp_equal q s = Some a \<Longrightarrow> frame (ts_body (act_state a)) = frame (ts_body s)"
  by (auto simp: tp_equal_def Let_def bind_eq_Some_conv dest!: tp_ops_frame split: if_splits)

lemma tp_step_frame:
  assumes "tp_step alloc multi m q c s = Some a"
  shows "frame (ts_body (act_state a)) = frame (ts_body s)"
  using assms unfolding tp_step_def tp_lf_def tp_cr_def tp_t_def tp_a_def tp_g_def tp_default_def
  by (simp split: if_splits) (erule tp_frames)+

text \<open>The statuses of \<^verbatim>\<open>parse_to_param\<close> are its own.\<close>

definition para_states :: "to_status set" where
  "para_states = {S_PARA_NAME, PARA_NAME, S_EQUAL, S_PARA_VALUE, TAG1, TAG2, TAG3, PARA_VALUE_TOKEN, PARA_VALUE_QUOTED,
     E_PARA_VALUE, F_CR, F_LF, F_CRLF}"

definition in_para :: "tp_state \<Rightarrow> bool" where
  "in_para s \<longleftrightarrow> ts_status s \<in> para_states \<and> ts_saved s \<in> para_states"

lemma para_states_mem [simp]:
  "S_PARA_NAME \<in> para_states" "PARA_NAME \<in> para_states" "S_EQUAL \<in> para_states" "S_PARA_VALUE \<in> para_states"
  "TAG1 \<in> para_states" "TAG2 \<in> para_states" "TAG3 \<in> para_states" "PARA_VALUE_TOKEN \<in> para_states"
  "PARA_VALUE_QUOTED \<in> para_states" "E_PARA_VALUE \<in> para_states" "F_CR \<in> para_states" "F_LF \<in> para_states"
  "F_CRLF \<in> para_states" "MAYBE_URI_END \<notin> para_states" "END_TO \<notin> para_states"
  by (simp_all add: para_states_def)

lemma tp_ops_status:
  "tp_name_end q t s = Some s' \<Longrightarrow> ts_status s' = ts_status s \<and> ts_saved s' = ts_saved s"
  "tp_value_end q s = Some s' \<Longrightarrow> ts_status s' = ts_status s \<and> ts_saved s' = ts_saved s"
  "tp_name_start q s = Some s' \<Longrightarrow> ts_status s' = ts_status s \<and> ts_saved s' = ts_saved s"
  "tp_value_start q s = Some s' \<Longrightarrow> ts_status s' = ts_status s \<and> ts_saved s' = ts_saved s"
  "add_param s = Some s' \<Longrightarrow> ts_status s' = ts_status s \<and> ts_saved s' = ts_saved s"
  by (auto simp: tp_name_end_def tp_value_end_def tp_name_start_def tp_value_start_def add_param_def bind_eq_Some_conv)

lemma tp_ops_para:
  "tp_name_end q t s = Some s' \<Longrightarrow> in_para s' = in_para s"
  "tp_value_end q s = Some s' \<Longrightarrow> in_para s' = in_para s"
  "tp_name_start q s = Some s' \<Longrightarrow> in_para s' = in_para s"
  "tp_value_start q s = Some s' \<Longrightarrow> in_para s' = in_para s"
  "add_param s = Some s' \<Longrightarrow> in_para s' = in_para s"
  by (auto simp: in_para_def dest!: tp_ops_status)

lemma tp_close_status:
  assumes "tp_close q upd s = Some r" and "\<And>z. in_para z \<Longrightarrow> in_para (upd z)" and "in_para s"
  shows "in_para (case r of Inl z \<Rightarrow> z | Inr z \<Rightarrow> z)"
proof -
  have s1: "in_para s1" if "tp_name_end q False s = Some s1" for s1
    using that assms(3) by (auto dest: tp_ops_para)
  have s4: "in_para s4" if "tp_value_end q (upd s2) = Some s3" "add_param s3 = Some s4" "in_para s2" for s2 s3 s4
    using that assms(2) by (auto dest!: tp_ops_para)
  have s2: "in_para s2" if "tp_value_start q s1 = Some s2" "in_para s1" for s1 s2
    using that by (auto dest!: tp_ops_para)
  have s24: "in_para s4" if "tp_value_start q s1 = Some s2" "tp_value_end q (upd s2) = Some s3" "add_param s3 = Some s4"
    "in_para s1" for s1 s2 s3 s4
    using s4 [OF that(2,3)] s2 [OF that(1,4)] by blast
  show ?thesis
    using assms(1) unfolding tp_close_def Let_def
    by (auto simp: bind_eq_Some_conv assms(3) split: if_split_asm intro: s1 s4 s24)
qed

lemma tp_step_status:
  assumes "tp_step alloc multi m q c s = Some a" and "in_para s"
  shows "in_para (act_state a)"
proof -
  have "in_para (act_state a)" if "tp_comma multi q c s = Some a"
  proof (cases "tp_close q (\<lambda>s. s\<lparr>ts_status := E_PARA_VALUE\<rparr>) s")
    case None
    with that assms(2) show ?thesis by (auto simp: tp_comma_def Let_def split: if_splits)
  next
    case (Some r)
    from tp_close_status [OF this] Some that assms(2) show ?thesis
      by (cases r) (auto simp: tp_comma_def Let_def in_para_def split: if_splits)
  qed
  moreover have "in_para (act_state a)" if "tp_semi alloc q s = Some a"
  proof (cases "tp_close q (\<lambda>s. s) s")
    case None
    with that assms(2) show ?thesis by (auto simp: tp_semi_def Let_def split: if_splits)
  next
    case (Some r)
    from tp_close_status [OF this] Some that assms(2) show ?thesis
      by (cases r) (auto simp: tp_semi_def Let_def in_para_def split: if_splits)
  qed
  moreover have "in_para (act_state a)" if "tp_space q s = Some a"
    using that assms(2)
    by (auto simp: tp_space_def Let_def bind_eq_Some_conv in_para_def dest!: tp_ops_status split: if_splits)
  moreover have "in_para (act_state a)" if "tp_eol f q s = Some a" "f \<in> {F_LF, F_CR}" for f
    using that assms(2)
    by (auto simp: tp_eol_def Let_def bind_eq_Some_conv in_para_def dest!: tp_ops_status split: if_splits)
  moreover have "in_para (act_state a)" if "tp_quote q s = Some a"
    using that assms(2)
    by (auto simp: tp_quote_def Let_def bind_eq_Some_conv in_para_def dest!: tp_ops_status split: if_splits)
  moreover have "in_para (act_state a)" if "tp_equal q s = Some a"
    using that assms(2)
    by (auto simp: tp_equal_def Let_def bind_eq_Some_conv in_para_def dest!: tp_ops_status split: if_splits)
  moreover have "in_para (act_state a)" if "tp_backslash m q s = Some a"
    using that assms(2) by (auto simp: tp_backslash_def bind_eq_Some_conv split: if_splits)
  moreover have "in_para (act_state a)"
    if "tp_letter s0 nx err q s = Some a" "s0 \<in> para_states" "\<And>x. nx x \<in> para_states" for s0 nx err
    using that assms(2)
    by (auto simp: tp_letter_def Let_def bind_eq_Some_conv in_para_def dest!: tp_ops_status split: if_splits)
  ultimately show ?thesis
    using assms(1) unfolding tp_step_def tp_lf_def tp_cr_def tp_t_def tp_a_def tp_g_def tp_default_def
    by (simp split: if_splits)
qed

text \<open>The loop of \<^verbatim>\<open>parse_to_param\<close> satisfies the contract of a character loop.\<close>

interpretation tpl: char_loop "tp_step alloc multi m" m e
    "\<lambda>p s. e < length m \<and> tp_inv m b p s \<and> p0 \<le> p \<and> p \<le> e + 1 \<and> frame (ts_body s) = fr \<and> in_para s"
    "\<lambda>l q s. p0 \<le> q \<and> tp_out m b e q s \<and> frame (ts_body s) = fr \<and> in_para s" for alloc multi m e b p0 fr
proof
  fix p s
  assume p: "p < e" and I: "e < length m \<and> tp_inv m b p s \<and> p0 \<le> p \<and> p \<le> e + 1 \<and> frame (ts_body s) = fr \<and> in_para s"
  then show "p < length m" by simp
  show "(\<exists>q s'. tp_step alloc multi m p (m ! p) s = Some (Next q s') \<and> p \<le> q \<and>
        e < length m \<and> tp_inv m b (Suc q) s' \<and> p0 \<le> Suc q \<and> Suc q \<le> e + 1 \<and> frame (ts_body s') = fr \<and> in_para s') \<or>
      (\<exists>l q s'. tp_step alloc multi m p (m ! p) s = Some (Goto l q s') \<and> p0 \<le> q \<and> tp_out m b e q s' \<and> frame (ts_body s') = fr \<and> in_para s')"
    using tp_step_good [of m b p s e alloc multi] tp_step_frame [of alloc multi m p "m ! p" s]
      tp_step_status [of alloc multi m p "m ! p" s] I p
    unfolding tp_step_ok_def by fastforce
qed

text \<open>What \<^verbatim>\<open>parse_to_param\<close> returns.\<close>

lemma tp_endofheader_ok:
  assumes "b \<le> q" and "q \<le> e + 1" and "body_in m b (e + 1) (ts_body s)" and "tb_error (ts_body s) \<noteq> PARSE_ERROR"
    and "\<forall>pr. ts_param s = Some pr \<longrightarrow> param_ok m b (e + 1) pr" and "in_para s"
  shows "\<exists>x st n. tp_endofheader q s = Some (q, x, st, n) \<and> body_in m b (e + 1) x \<and> frame x = frame (ts_body s) \<and> st \<in> para_states"
proof (cases "ts_param s")
  case None
  with assms show ?thesis by (simp add: tp_endofheader_def in_para_def)
next
  case (Some pr)
  then have "param_ok m b (e + 1) (pr\<lparr>tp_value := str_null\<rparr>)"
    using assms(5) by (auto simp: param_ok_def tag_typed_def)
  from link_param_in [OF this assms(3,4)] Some assms show ?thesis
    by (auto simp: tp_endofheader_def tp_error_def free_to_params_def add_param_def body_in_def frame_def in_para_def)
qed

lemma parse_to_param_ok:
  assumes "b \<le> p" and "p \<le> e" and "e < length m" and "body_in m b p x" and "tb_error x \<noteq> PARSE_ERROR"
  shows "\<exists>q y st n'. parse_to_param alloc multi m p e x n = Some (q, y, st, n') \<and> p \<le> q \<and> q \<le> e + 1 \<and>
    body_in m b (e + 1) y \<and> frame y = frame x \<and> st \<in> para_states"
proof -
  have init: "e < length m \<and> tp_inv m b p (tp_init x n) \<and> p \<le> p \<and> p \<le> e + 1 \<and> frame (ts_body (tp_init x n)) = frame x \<and> in_para (tp_init x n)"
    using assms by (simp add: tp_inv_def tp_init_def tp_eff_simps in_para_def)
  consider (eof) q s where "for_chars (tp_step alloc multi m) m p e (tp_init x n) = Some (None, q, s)"
      "tp_inv m b q s" "p \<le> q" "q \<le> e + 1" "frame (ts_body s) = frame x" "in_para s"
    | (lab) l q s where "for_chars (tp_step alloc multi m) m p e (tp_init x n) = Some (Some l, q, s)" "p \<le> q" "tp_out m b e q s"
      "frame (ts_body s) = frame x" "in_para s"
    using tpl.loop_total [OF init, of alloc multi] by blast
  then show ?thesis
  proof cases
    case eof
    then have "tp_out m b (e + 1) q s" using tp_inv_out by blast
    then have "\<exists>y st n'. tp_endofheader q s = Some (q, y, st, n') \<and> body_in m b (e + 1) y \<and> frame y = frame (ts_body s) \<and> st \<in> para_states"
      by (intro tp_endofheader_ok) (auto simp: tp_out_def eof)
    with eof show ?thesis by (auto simp: parse_to_param_def)
  next
    case lab
    then have out: "body_in m b (e + 1) (ts_body s)" "b \<le> q" "q \<le> e + 1" "tb_error (ts_body s) \<noteq> PARSE_ERROR"
      "\<forall>pr. ts_param s = Some pr \<longrightarrow> param_ok m b (e + 1) pr"
      using body_in_mono [of m b e _ "e + 1"] param_ok_mono [of m b e _ "e + 1"] by (auto simp: tp_out_def)
    then have "\<exists>y st n'. tp_endofheader q s = Some (q, y, st, n') \<and> body_in m b (e + 1) y \<and> frame y = frame (ts_body s) \<and> st \<in> para_states"
      by (intro tp_endofheader_ok) (auto simp: lab)
    moreover have "body_in m b (e + 1) (fst (snd (tp_error q s)))" "frame (fst (snd (tp_error q s))) = frame (ts_body s)"
        "ts_status s \<in> para_states"
      using out(1) lab by (auto simp: tp_error_def free_to_params_def body_in_def frame_def in_para_def)
    ultimately show ?thesis
      using lab out by (cases l) (auto simp: parse_to_param_def tp_error_def)
  qed
qed

end
