(* ===== verification/To_Hdr.thy ===== *)
theory To_Hdr
  imports To_Param
begin

text \<open>
  \<^verbatim>\<open>_parse_to\<close> of \<^verbatim>\<open>parse_to.c\<close>: the body of To, From and similar headers, \<open>display <uri>;param=value\<close>, possibly several
  of them separated by commas (\<^verbatim>\<open>multi\<close>), as a step function over the characters like the one of the parameters. The
  invariant \<open>to_inv\<close> of its loop gives the safety of \<^verbatim>\<open>parse_to\<close> and \<^verbatim>\<open>parse_multi_to\<close>; a round trip and the behaviours that
  a reader of the code would not expect follow.
\<close>

section \<open>The code\<close>

text \<open>\<open>to_done\<close> are the bodies before the current one, \<open>to_cur\<close> is \<^verbatim>\<open>*to_b\<close>; \<^verbatim>\<open>*first_b\<close> is the first of all.\<close>

record to_state =
  to_status :: to_status
  to_saved :: to_status
  to_end_mark :: "ptr option"
  to_done :: "to_body list"
  to_cur :: to_body
  to_allocs :: nat

type_synonym to_act = "(to_label, to_state) act option"

definition to_uri_end :: "ptr \<Rightarrow> to_state \<Rightarrow> to_state option" where
  "to_uri_end q s = do {
     u \<leftarrow> end_at q (tb_uri (to_cur s)); Some (s\<lparr>to_cur := (to_cur s)\<lparr>tb_uri := u\<rparr>\<rparr>) }"

definition to_display_end :: "ptr \<Rightarrow> to_state \<Rightarrow> to_state option" where
  "to_display_end q s = do {
     d \<leftarrow> end_at q (tb_display (to_cur s)); Some (s\<lparr>to_cur := (to_cur s)\<lparr>tb_display := d\<rparr>\<rparr>) }"

definition to_body_end :: "ptr \<Rightarrow> to_state \<Rightarrow> to_state option" where
  "to_body_end q s = do {
     d \<leftarrow> end_at q (tb_body (to_cur s)); Some (s\<lparr>to_cur := (to_cur s)\<lparr>tb_body := d\<rparr>\<rparr>) }"

definition str_start :: "ptr \<Rightarrow> str \<Rightarrow> str" where
  "str_start p x = x\<lparr>str_s := Some p\<rparr>"

text \<open>A new body after a comma; \<open>None\<close> inside is a failed allocation.\<close>

definition new_to_body :: "(nat \<Rightarrow> bool) \<Rightarrow> ptr \<Rightarrow> to_state \<Rightarrow> to_act" where
  "new_to_body alloc tmp s =
     (if \<not> alloc (to_allocs s) then Some (Goto To_error tmp (s\<lparr>to_allocs := Suc (to_allocs s)\<rparr>))
      else Some (Next tmp (s\<lparr>to_allocs := Suc (to_allocs s), to_done := to_done s @ [to_cur s], to_cur := to_body_zero,
                             to_saved := START_TO, to_status := START_TO, to_end_mark := None\<rparr>)))"

definition to_space :: "ptr \<Rightarrow> to_state \<Rightarrow> to_act" where
  "to_space tmp s = (let st = to_status s in
     if st \<in> eol_states then Some (Next tmp (s\<lparr>to_status := to_saved s\<rparr>))
     else if st = URI_ENCLOSED then do {
       s1 \<leftarrow> to_uri_end tmp s; Some (Next tmp (s1\<lparr>to_status := E_URI_ENCLOSED\<rparr>)) }
     else if st = URI_OR_TOKEN then Some (Next tmp (s\<lparr>to_status := MAYBE_URI_END, to_end_mark := Some tmp\<rparr>))
     else if st = DISPLAY_TOKEN then Some (Next tmp (s\<lparr>to_end_mark := Some tmp, to_status := DISPLAY_TOKEN2\<rparr>))
     else Some (Next tmp s))"

definition to_eol :: "to_status \<Rightarrow> ptr \<Rightarrow> to_state \<Rightarrow> to_act" where
  "to_eol f tmp s = (let st = to_status s in
     if st = URI_OR_TOKEN then
       Some (Next tmp (s\<lparr>to_end_mark := Some tmp, to_saved := MAYBE_URI_END, to_status := f\<rparr>))
     else if st \<in> {MAYBE_URI_END, DISPLAY_TOKEN, DISPLAY_TOKEN2, E_DISPLAY_QUOTED, END_TO} then
       Some (Next tmp (s\<lparr>to_saved := st, to_status := f\<rparr>))
     else if f = F_LF \<and> st = F_CR then Some (Next tmp (s\<lparr>to_status := F_CRLF\<rparr>))
     else if st \<in> eol_states then Some (Goto To_endofheader tmp (s\<lparr>to_status := to_saved s\<rparr>))
     else Some (Goto To_parse_error tmp s))"

definition to_lf :: "ptr \<Rightarrow> to_state \<Rightarrow> to_act" where
  "to_lf = to_eol F_LF"

definition to_cr :: "ptr \<Rightarrow> to_state \<Rightarrow> to_act" where
  "to_cr = to_eol F_CR"

definition to_nul :: "ptr \<Rightarrow> to_state \<Rightarrow> to_act" where
  "to_nul tmp s = (let st = to_status s in
     if st \<in> {URI_OR_TOKEN, MAYBE_URI_END} then do {
       s1 \<leftarrow> to_uri_end tmp s; Some (Goto To_endofheader tmp (s1\<lparr>to_status := END_TO, to_saved := END_TO\<rparr>)) }
     else if st = END_TO then Some (Goto To_endofheader tmp (s\<lparr>to_status := END_TO, to_saved := END_TO\<rparr>))
     else Some (Goto To_parse_error tmp s))"

definition to_comma :: "(nat \<Rightarrow> bool) \<Rightarrow> bool \<Rightarrow> ptr \<Rightarrow> to_state \<Rightarrow> to_act" where
  "to_comma alloc multi tmp s = (let st = to_status s in
     if st \<in> {DISPLAY_QUOTED, URI_ENCLOSED} then Some (Next tmp s)
     else if st = URI_OR_TOKEN \<and> \<not> multi then Some (Next tmp s)
     else if st \<in> {URI_OR_TOKEN, MAYBE_URI_END, END_TO} then do {
       s1 \<leftarrow> (if st = END_TO then Some s else to_uri_end tmp s);
       if \<not> multi then Some (Goto To_parse_error tmp s1) else new_to_body alloc tmp s1 }
     else Some (Goto To_parse_error tmp s))"

definition to_backslash :: "ptr \<Rightarrow> to_state \<Rightarrow> to_act" where
  "to_backslash tmp s =
     (if to_status s = DISPLAY_QUOTED then Some (Next (tmp + 1) s) else Some (Goto To_parse_error tmp s))"

definition to_lt :: "ptr \<Rightarrow> to_state \<Rightarrow> to_act" where
  "to_lt tmp s = (let st = to_status s in
     if st = START_TO then
       Some (Next tmp (s\<lparr>to_cur := (to_cur s)\<lparr>tb_body := str_start tmp (tb_body (to_cur s))\<rparr>, to_status := S_URI_ENCLOSED\<rparr>))
     else if st = DISPLAY_QUOTED then Some (Next tmp s)
     else if st = E_DISPLAY_QUOTED then Some (Next tmp (s\<lparr>to_status := S_URI_ENCLOSED\<rparr>))
     else if st \<in> {URI_OR_TOKEN, DISPLAY_TOKEN, DISPLAY_TOKEN2, MAYBE_URI_END} then do {
       let s1 = (if st \<in> {URI_OR_TOKEN, DISPLAY_TOKEN} then s\<lparr>to_end_mark := Some tmp\<rparr> else s);
       em \<leftarrow> to_end_mark s1;
       s2 \<leftarrow> to_display_end em s1;
       Some (Next tmp (s2\<lparr>to_status := S_URI_ENCLOSED\<rparr>)) }
     else if st \<in> eol_states then Some (Goto To_endofheader tmp s)
     else Some (Goto To_parse_error tmp s))"

definition to_gt :: "ptr \<Rightarrow> to_state \<Rightarrow> to_act" where
  "to_gt tmp s = (let st = to_status s in
     if st = DISPLAY_QUOTED then Some (Next tmp s)
     else if st = URI_ENCLOSED then do {
       s1 \<leftarrow> to_uri_end tmp s; Some (Next tmp (s1\<lparr>to_status := END_TO\<rparr>)) }
     else if st = E_URI_ENCLOSED then Some (Next tmp (s\<lparr>to_status := END_TO\<rparr>))
     else if st \<in> eol_states then Some (Goto To_endofheader tmp s)
     else Some (Goto To_parse_error tmp s))"

definition to_quote :: "ptr \<Rightarrow> to_state \<Rightarrow> to_act" where
  "to_quote tmp s = (let st = to_status s; b = to_cur s in
     if st = START_TO then
       Some (Next tmp (s\<lparr>to_cur := b\<lparr>tb_body := str_start tmp (tb_body b), tb_display := str_start tmp (tb_display b)\<rparr>,
                         to_status := DISPLAY_QUOTED\<rparr>))
     else if st = DISPLAY_QUOTED then do {
       s1 \<leftarrow> to_display_end (tmp + 1) s; Some (Next tmp (s1\<lparr>to_status := E_DISPLAY_QUOTED\<rparr>)) }
     else if st \<in> eol_states then Some (Goto To_endofheader tmp s)
     else Some (Goto To_parse_error tmp s))"

definition to_semi :: "(nat \<Rightarrow> bool) \<Rightarrow> bool \<Rightarrow> mem \<Rightarrow> ptr \<Rightarrow> ptr \<Rightarrow> to_state \<Rightarrow> to_act" where
  "to_semi alloc multi m e tmp s = (let st = to_status s in
     if st \<in> {DISPLAY_QUOTED, DISPLAY_TOKEN, URI_ENCLOSED} then Some (Next tmp s)
     else if st \<in> {URI_OR_TOKEN, MAYBE_URI_END, END_TO} then do {
       let s1 = (if st = URI_OR_TOKEN then s\<lparr>to_end_mark := Some tmp\<rparr> else s);
       s2 \<leftarrow> (if st = END_TO then Some s1 else do { em \<leftarrow> to_end_mark s1; to_uri_end em s1 });
       s3 \<leftarrow> to_body_end tmp s2;
       (tmp2, b, rs, n) \<leftarrow> parse_to_param alloc multi m tmp e (to_cur s3) (to_allocs s3);
       let s4 = s3\<lparr>to_cur := b, to_saved := rs, to_allocs := n\<rparr>;
       again \<leftarrow> (if tb_error b \<noteq> PARSE_ERROR \<and> multi then do { c \<leftarrow> rd m tmp2; Some (c = CHR '','') } else Some False);
       if again then new_to_body alloc tmp2 s4 else Some (Goto To_endofheader tmp2 s4) }
     else if st \<in> eol_states then Some (Goto To_endofheader tmp s)
     else Some (Goto To_parse_error tmp s))"

definition to_default :: "ptr \<Rightarrow> to_state \<Rightarrow> to_act" where
  "to_default tmp s = (let st = to_status s; b = to_cur s in
     if st = START_TO then
       Some (Next tmp (s\<lparr>to_cur := b\<lparr>tb_uri := str_start tmp (tb_uri b), tb_body := str_start tmp (tb_body b),
                                    tb_display := str_start tmp (tb_display b)\<rparr>,
                         to_status := URI_OR_TOKEN\<rparr>))
     else if st = S_URI_ENCLOSED then
       Some (Next tmp (s\<lparr>to_cur := b\<lparr>tb_uri := str_start tmp (tb_uri b)\<rparr>, to_status := URI_ENCLOSED\<rparr>))
     else if st \<in> {MAYBE_URI_END, DISPLAY_TOKEN2} then Some (Next tmp (s\<lparr>to_status := DISPLAY_TOKEN\<rparr>))
     else if st \<in> {DISPLAY_QUOTED, DISPLAY_TOKEN, URI_ENCLOSED, URI_OR_TOKEN} then Some (Next tmp s)
     else if st \<in> eol_states then Some (Goto To_endofheader tmp s)
     else Some (Goto To_error tmp s))"

definition to_step :: "(nat \<Rightarrow> bool) \<Rightarrow> bool \<Rightarrow> mem \<Rightarrow> ptr \<Rightarrow> ptr \<Rightarrow> char \<Rightarrow> to_state \<Rightarrow> to_act" where
  "to_step alloc multi m e tmp c s =
     (if c \<in> {SPC, TAB} then to_space tmp s
      else if c = LF then to_lf tmp s
      else if c = CR then to_cr tmp s
      else if c = NUL then to_nul tmp s
      else if c = CHR '','' then to_comma alloc multi tmp s
      else if c = BACKSLASH then to_backslash tmp s
      else if c = CHR ''<'' then to_lt tmp s
      else if c = CHR ''>'' then to_gt tmp s
      else if c = DQUOTE then to_quote tmp s
      else if c = CHR '';'' then to_semi alloc multi m e tmp s
      else to_default tmp s)"

text \<open>
  The result: the pointer and the bodies. After an error only the first body is left, with its error code set and without
  parameters; the others are freed.
\<close>

type_synonym to_result = "ptr \<times> to_body list"

definition to_bodies :: "to_state \<Rightarrow> to_body list" where
  "to_bodies s = to_done s @ [to_cur s]"

definition to_fail :: "ptr \<Rightarrow> to_state \<Rightarrow> to_result" where
  "to_fail tmp s = (tmp, [(free_to_params (hd (to_bodies s)))\<lparr>tb_error := PARSE_ERROR\<rparr>])"

definition to_endofheader :: "ptr \<Rightarrow> to_state \<Rightarrow> to_result option" where
  "to_endofheader tmp s = (
     let b = to_cur s;
         s1 = s\<lparr>to_cur := (if str_len (tb_display b) = 0 then b\<lparr>tb_display := (tb_display b)\<lparr>str_s := None\<rparr>\<rparr> else b)\<rparr>;
         st = to_saved s
     in if st = MAYBE_URI_END then do {
          em \<leftarrow> to_end_mark s1; s2 \<leftarrow> to_uri_end em s1; s3 \<leftarrow> to_body_end tmp s2; Some (tmp, to_bodies s3) }
        else if st = END_TO then do { s3 \<leftarrow> to_body_end tmp s1; Some (tmp, to_bodies s3) }
        else if st = E_PARA_VALUE then Some (tmp, to_bodies s1)
        else Some (to_fail tmp s1))"

definition to_init :: to_state where
  "to_init = \<lparr>to_status = START_TO, to_saved = START_TO, to_end_mark = None, to_done = [], to_cur = to_body_zero,
     to_allocs = 0\<rparr>"

definition parse_to_multi :: "(nat \<Rightarrow> bool) \<Rightarrow> bool \<Rightarrow> mem \<Rightarrow> ptr \<Rightarrow> ptr \<Rightarrow> to_result option" where
  "parse_to_multi alloc multi m buffer e = do {
     (l, tmp, s) \<leftarrow> for_chars (to_step alloc multi m e) m buffer e to_init;
     case l of
       None \<Rightarrow> to_endofheader tmp s
     | Some To_endofheader \<Rightarrow> to_endofheader tmp s
     | Some To_parse_error \<Rightarrow> Some (to_fail tmp s)
     | Some To_error \<Rightarrow> Some (to_fail tmp s) }"

definition parse_to :: "(nat \<Rightarrow> bool) \<Rightarrow> mem \<Rightarrow> ptr \<Rightarrow> ptr \<Rightarrow> to_result option" where
  "parse_to alloc = parse_to_multi alloc False"

definition parse_multi_to :: "(nat \<Rightarrow> bool) \<Rightarrow> mem \<Rightarrow> ptr \<Rightarrow> ptr \<Rightarrow> to_result option" where
  "parse_multi_to alloc = parse_to_multi alloc True"

section \<open>The header body: invariant\<close>

definition is_open :: "ptr \<Rightarrow> ptr \<Rightarrow> str \<Rightarrow> bool" where
  "is_open b p x \<longleftrightarrow> (\<exists>n. x = open_str n \<and> b \<le> n \<and> n < p)"

definition uri_set :: "ptr \<Rightarrow> ptr \<Rightarrow> str \<Rightarrow> bool" where
  "uri_set b p x \<longleftrightarrow> (\<exists>u q. x = mk_str u q \<and> b \<le> u \<and> u < q \<and> q \<le> p)"

text \<open>The display name or URI that is still open ends at the mark.\<close>

definition marked :: "ptr \<Rightarrow> ptr \<Rightarrow> ptr option \<Rightarrow> str \<Rightarrow> bool" where
  "marked b p em x \<longleftrightarrow> (\<exists>n k. x = open_str n \<and> em = Some k \<and> b \<le> n \<and> n < k \<and> k \<le> p)"

fun to_cinv :: "ptr \<Rightarrow> ptr \<Rightarrow> to_status \<Rightarrow> ptr option \<Rightarrow> to_body \<Rightarrow> bool" where
  "to_cinv b p START_TO em x \<longleftrightarrow> x = to_body_zero"
| "to_cinv b p DISPLAY_QUOTED em x \<longleftrightarrow> is_open b p (tb_body x) \<and> is_open b p (tb_display x) \<and> str_len (tb_uri x) = 0"
| "to_cinv b p E_DISPLAY_QUOTED em x \<longleftrightarrow> is_open b p (tb_body x) \<and> str_len (tb_uri x) = 0"
| "to_cinv b p S_URI_ENCLOSED em x \<longleftrightarrow> is_open b p (tb_body x) \<and> str_len (tb_uri x) = 0"
| "to_cinv b p DISPLAY_TOKEN em x \<longleftrightarrow> is_open b p (tb_body x) \<and> is_open b p (tb_display x) \<and> str_len (tb_uri x) = 0"
| "to_cinv b p DISPLAY_TOKEN2 em x \<longleftrightarrow> is_open b p (tb_body x) \<and> marked b p em (tb_display x) \<and> str_len (tb_uri x) = 0"
| "to_cinv b p URI_ENCLOSED em x \<longleftrightarrow> is_open b p (tb_body x) \<and> is_open b p (tb_uri x)"
| "to_cinv b p E_URI_ENCLOSED em x \<longleftrightarrow> is_open b p (tb_body x) \<and> uri_set b p (tb_uri x)"
| "to_cinv b p END_TO em x \<longleftrightarrow> is_open b p (tb_body x) \<and> uri_set b p (tb_uri x)"
| "to_cinv b p URI_OR_TOKEN em x \<longleftrightarrow> is_open b p (tb_body x) \<and> is_open b p (tb_uri x) \<and> is_open b p (tb_display x)"
| "to_cinv b p MAYBE_URI_END em x \<longleftrightarrow> is_open b p (tb_body x) \<and> marked b p em (tb_uri x) \<and> marked b p em (tb_display x)"
| "to_cinv b p _ em x \<longleftrightarrow> False"

definition to_eff :: "to_state \<Rightarrow> to_status" where
  "to_eff s = (if to_status s \<in> eol_states then to_saved s else to_status s)"

definition to_save_states :: "to_status set" where
  "to_save_states = {START_TO, MAYBE_URI_END, DISPLAY_TOKEN, DISPLAY_TOKEN2, E_DISPLAY_QUOTED, END_TO}"

definition done_ok :: "mem \<Rightarrow> ptr \<Rightarrow> ptr \<Rightarrow> to_body \<Rightarrow> bool" where
  "done_ok m b p x \<longleftrightarrow> body_in m b p x \<and> uri_set b p (tb_uri x)"

text \<open>
  A saved state from before may outlive its URI; what it still guarantees are pointers that are not \<^verbatim>\<open>NULL\<close>.
\<close>

definition stale_ok :: "to_state \<Rightarrow> bool" where
  "stale_ok s \<longleftrightarrow>
     (to_saved s \<in> {MAYBE_URI_END, END_TO} \<longrightarrow> str_s (tb_body (to_cur s)) \<noteq> None) \<and>
     (to_saved s = MAYBE_URI_END \<longrightarrow> to_end_mark s \<noteq> None \<and> str_s (tb_uri (to_cur s)) \<noteq> None)"

definition to_inv :: "mem \<Rightarrow> ptr \<Rightarrow> ptr \<Rightarrow> ptr \<Rightarrow> to_state \<Rightarrow> bool" where
  "to_inv m b z p s \<longleftrightarrow> b \<le> p \<and> body_in m b p (to_cur s) \<and> tb_error (to_cur s) \<noteq> PARSE_ERROR \<and>
     list_all (done_ok m b z) (to_done s) \<and> to_saved s \<in> to_save_states \<and> stale_ok s \<and>
     to_cinv b p (to_eff s) (to_end_mark s) (to_cur s)"

text \<open>What holds at \<^verbatim>\<open>endofheader\<close> with \<^verbatim>\<open>tmp\<close> at \<open>q\<close>; \<open>z\<close> bounds all pointers.\<close>

definition to_out :: "mem \<Rightarrow> ptr \<Rightarrow> ptr \<Rightarrow> ptr \<Rightarrow> to_state \<Rightarrow> bool" where
  "to_out m b z q s \<longleftrightarrow> body_in m b z (to_cur s) \<and> list_all (done_ok m b z) (to_done s) \<and>
     (to_saved s = MAYBE_URI_END \<longrightarrow> marked b z (to_end_mark s) (tb_uri (to_cur s)) \<and> is_open b (Suc q) (tb_body (to_cur s))) \<and>
     (to_saved s = END_TO \<longrightarrow> uri_set b z (tb_uri (to_cur s)) \<and> is_open b (Suc q) (tb_body (to_cur s))) \<and>
     (to_saved s = E_PARA_VALUE \<longrightarrow> uri_set b z (tb_uri (to_cur s)))"

lemma is_open_mono: "is_open b p x \<Longrightarrow> p \<le> q \<Longrightarrow> is_open b q x"
  by (auto simp: is_open_def)

lemma uri_set_mono: "uri_set b p x \<Longrightarrow> p \<le> q \<Longrightarrow> uri_set b q x"
  unfolding uri_set_def by (elim exE conjE) (intro exI conjI, assumption+, simp)

lemma uri_set_mk [simp]: "b \<le> u \<Longrightarrow> u < q \<Longrightarrow> q \<le> p \<Longrightarrow> uri_set b p (mk_str u q)"
  unfolding uri_set_def by blast

lemma is_open_iff [simp]: "is_open b p (open_str n) \<longleftrightarrow> b \<le> n \<and> n < p"
  by (auto simp: is_open_def open_str_def)

lemma str_s_simps [simp]: "str_s (mk_str u q) = Some u" "str_s (open_str u) = Some u" "str_s str_null = None"
  "str_len str_null = 0" "str_start p str_null = open_str p"
  by (simp_all add: mk_str_def open_str_def str_null_def str_start_def)

lemma marked_mono: "marked b p em x \<Longrightarrow> p \<le> q \<Longrightarrow> marked b q em x"
  by (auto simp: marked_def)

lemma done_ok_mono: "done_ok m b p x \<Longrightarrow> p \<le> q \<Longrightarrow> done_ok m b q x"
  by (auto simp: done_ok_def intro: body_in_mono uri_set_mono)

lemma to_cinv_mono: "to_cinv b p st em x \<Longrightarrow> p \<le> q \<Longrightarrow> to_cinv b q st em x"
  by (cases st) (auto intro: is_open_mono uri_set_mono marked_mono)

lemma to_inv_mono: "to_inv m b z p s \<Longrightarrow> p \<le> q \<Longrightarrow> to_inv m b z q s"
  using body_in_mono [of m b p _ q] to_cinv_mono [of b p _ _ _ q] by (auto simp: to_inv_def)

text \<open>The two ways a step can be right.\<close>

definition to_step_ok :: "mem \<Rightarrow> ptr \<Rightarrow> ptr \<Rightarrow> ptr \<Rightarrow> to_act \<Rightarrow> bool" where
  "to_step_ok m b z p a \<longleftrightarrow>
     (\<exists>q s'. a = Some (Next q s') \<and> p \<le> q \<and> q < z \<and> to_inv m b z (Suc q) s') \<or>
     (\<exists>l q s'. a = Some (Goto l q s') \<and> p \<le> q \<and> q \<le> z \<and> (l = To_endofheader \<longrightarrow> to_out m b z q s'))"

lemma to_nextI: "p \<le> q \<Longrightarrow> q < z \<Longrightarrow> to_inv m b z (Suc q) s \<Longrightarrow> to_step_ok m b z p (Some (Next q s))"
  by (simp add: to_step_ok_def)

lemma to_stay: "to_inv m b z p s \<Longrightarrow> p < z \<Longrightarrow> to_step_ok m b z p (Some (Next p s))"
  by (auto simp: to_step_ok_def intro: to_inv_mono)

lemma to_errI [simp]: "p \<le> z \<Longrightarrow> l \<noteq> To_endofheader \<Longrightarrow> to_step_ok m b z p (Some (Goto l p s))"
  by (simp add: to_step_ok_def)

lemma to_eol_exit:
  assumes "to_inv m b z p s" and "p < z" and "to_status s \<in> eol_states"
  shows "to_step_ok m b z p (Some (Goto To_endofheader p s))"
    "to_step_ok m b z p (Some (Goto To_endofheader p (s\<lparr>to_status := st\<rparr>)))"
proof -
  have cinv: "to_cinv b p (to_saved s) (to_end_mark s) (to_cur s)" and "to_saved s \<in> to_save_states"
    and "body_in m b p (to_cur s)"
    using assms by (auto simp: to_inv_def to_eff_def)
  then have "to_out m b z p s"
    using assms by (auto simp: to_out_def to_inv_def to_save_states_def
        intro: body_in_mono marked_mono uri_set_mono is_open_mono)
  then show "to_step_ok m b z p (Some (Goto To_endofheader p s))"
    "to_step_ok m b z p (Some (Goto To_endofheader p (s\<lparr>to_status := st\<rparr>)))"
    using assms(2) by (simp_all add: to_step_ok_def to_out_def)
qed

lemma to_eff_simps:
  "to_status s \<notin> eol_states \<Longrightarrow> to_eff s = to_status s" "to_status s \<in> eol_states \<Longrightarrow> to_eff s = to_saved s"
  by (simp_all add: to_eff_def)

lemma to_save_not_eol: "to_saved s \<in> to_save_states \<Longrightarrow> to_saved s \<notin> eol_states"
  by (auto simp: to_save_states_def eol_states_def)

lemma eol_mem [simp]: "F_CR \<in> eol_states" "F_LF \<in> eol_states" "F_CRLF \<in> eol_states"
  "START_TO \<notin> eol_states" "DISPLAY_QUOTED \<notin> eol_states" "E_DISPLAY_QUOTED \<notin> eol_states" "DISPLAY_TOKEN \<notin> eol_states"
  "DISPLAY_TOKEN2 \<notin> eol_states" "S_URI_ENCLOSED \<notin> eol_states" "URI_ENCLOSED \<notin> eol_states"
  "E_URI_ENCLOSED \<notin> eol_states" "URI_OR_TOKEN \<notin> eol_states" "MAYBE_URI_END \<notin> eol_states" "END_TO \<notin> eol_states"
  by (simp_all add: eol_states_def)

lemma to_space_ok:
  assumes inv: "to_inv m b z p s" and "p < z"
  shows "to_step_ok m b z p (to_space p s)"
proof -
  have inv': "to_inv m b z (Suc p) s" using inv by (rule to_inv_mono) simp
  consider "to_status s \<in> eol_states" | "to_status s = URI_ENCLOSED" | "to_status s = URI_OR_TOKEN"
    | "to_status s = DISPLAY_TOKEN"
    | "to_status s \<notin> eol_states" "to_status s \<notin> {URI_ENCLOSED, URI_OR_TOKEN, DISPLAY_TOKEN}"
    by blast
  then show ?thesis
  proof cases
    case 1
    then have "to_inv m b z (Suc p) (s\<lparr>to_status := to_saved s\<rparr>)"
      using inv' by (auto simp: to_inv_def stale_ok_def to_eff_def)
    with 1 assms(2) show ?thesis by (simp add: to_space_def Let_def to_nextI)
  next
    case 2
    then obtain u where u: "tb_uri (to_cur s) = open_str u" "b \<le> u" "u < p"
      using inv by (auto simp: to_inv_def to_eff_simps is_open_def)
    then have "to_inv m b z (Suc p) (s\<lparr>to_cur := (to_cur s)\<lparr>tb_uri := mk_str u p\<rparr>, to_status := E_URI_ENCLOSED\<rparr>)"
      using inv' 2 by (auto simp: to_inv_def stale_ok_def to_eff_simps body_in_def)
    with 2 u assms(2) show ?thesis by (simp add: to_space_def to_uri_end_def to_nextI)
  next
    case 3
    then have "to_inv m b z (Suc p) (s\<lparr>to_status := MAYBE_URI_END, to_end_mark := Some p\<rparr>)"
      using inv' inv by (auto simp: to_inv_def stale_ok_def to_eff_simps is_open_def marked_def)
    with 3 assms(2) show ?thesis by (simp add: to_space_def to_nextI)
  next
    case 4
    then have "to_inv m b z (Suc p) (s\<lparr>to_end_mark := Some p, to_status := DISPLAY_TOKEN2\<rparr>)"
      using inv' inv by (auto simp: to_inv_def stale_ok_def to_eff_simps is_open_def marked_def)
    with 4 assms(2) show ?thesis by (simp add: to_space_def to_nextI)
  next
    case 5
    with to_stay [OF assms] show ?thesis by (simp add: to_space_def Let_def)
  qed
qed


lemma to_cinv_stale:
  assumes "to_cinv b p st em x"
  shows "st \<in> {MAYBE_URI_END, END_TO} \<Longrightarrow> str_s (tb_body x) \<noteq> None"
    and "st = MAYBE_URI_END \<Longrightarrow> em \<noteq> None \<and> str_s (tb_uri x) \<noteq> None"
  using assms by (auto simp: is_open_def marked_def)

lemma to_eol_ok:
  assumes inv: "to_inv m b z p s" and "p < z" and f: "f \<in> {F_LF, F_CR}"
  shows "to_step_ok m b z p (to_eol f p s)"
proof -
  have inv': "to_inv m b z (Suc p) s" using inv by (rule to_inv_mono) simp
  consider "to_status s = URI_OR_TOKEN"
    | "to_status s \<in> {MAYBE_URI_END, DISPLAY_TOKEN, DISPLAY_TOKEN2, E_DISPLAY_QUOTED, END_TO}"
    | "f = F_LF" "to_status s = F_CR" | "to_status s \<in> eol_states" "\<not> (f = F_LF \<and> to_status s = F_CR)"
    | "to_status s \<notin> eol_states"
      "to_status s \<notin> {URI_OR_TOKEN, MAYBE_URI_END, DISPLAY_TOKEN, DISPLAY_TOKEN2, E_DISPLAY_QUOTED, END_TO}"
    by auto
  then show ?thesis
  proof cases
    case 1
    then have "to_inv m b z (Suc p) (s\<lparr>to_end_mark := Some p, to_saved := MAYBE_URI_END, to_status := f\<rparr>)"
      using inv inv' f by (auto simp: to_inv_def stale_ok_def to_eff_def is_open_def marked_def to_save_states_def)
    with 1 assms(2) show ?thesis by (simp add: to_eol_def to_nextI)
  next
    case 2
    then have ne: "to_status s \<notin> eol_states" and sv: "to_status s \<in> to_save_states"
      by (auto simp: to_save_states_def)
    then have ci: "to_cinv b (Suc p) (to_status s) (to_end_mark s) (to_cur s)"
      using inv' by (simp add: to_inv_def to_eff_simps)
    then have "stale_ok (s\<lparr>to_saved := to_status s, to_status := f\<rparr>)"
      using to_cinv_stale [OF ci] by (simp add: stale_ok_def)
    then have "to_inv m b z (Suc p) (s\<lparr>to_saved := to_status s, to_status := f\<rparr>)"
      using inv' f ne sv ci by (auto simp: to_inv_def to_eff_def)
    with 2 assms(2) show ?thesis by (auto simp add: to_eol_def Let_def to_nextI)
  next
    case 3
    then have "to_inv m b z (Suc p) (s\<lparr>to_status := F_CRLF\<rparr>)"
      using inv' by (auto simp: to_inv_def stale_ok_def to_eff_def)
    with 3 assms(2) show ?thesis by (simp add: to_eol_def to_nextI)
  next
    case 4
    then have "to_status s \<notin> {URI_OR_TOKEN, MAYBE_URI_END, DISPLAY_TOKEN, DISPLAY_TOKEN2, E_DISPLAY_QUOTED, END_TO}"
      by auto
    with 4 to_eol_exit(2) [OF assms(1,2) 4(1)] show ?thesis by (auto simp: to_eol_def Let_def)
  next
    case 5
    then show ?thesis using assms(2) by (auto simp: to_eol_def Let_def)
  qed
qed

text \<open>The URI and the display name that are complete at \<open>k\<close>.\<close>

lemma to_uri_endI:
  assumes "tb_uri (to_cur s) = open_str u"
  shows "to_uri_end k s = Some (s\<lparr>to_cur := (to_cur s)\<lparr>tb_uri := mk_str u k\<rparr>\<rparr>)"
  using assms by (simp add: to_uri_end_def)

lemma body_in_uri: "body_in m b p x \<Longrightarrow> b \<le> u \<Longrightarrow> u \<le> k \<Longrightarrow> k \<le> p \<Longrightarrow> body_in m b p (x\<lparr>tb_uri := mk_str u k\<rparr>)"
  by (simp add: body_in_def)

lemma body_in_display: "body_in m b p x \<Longrightarrow> b \<le> u \<Longrightarrow> u \<le> k \<Longrightarrow> k \<le> p \<Longrightarrow> body_in m b p (x\<lparr>tb_display := mk_str u k\<rparr>)"
  by (simp add: body_in_def)

lemma body_in_body: "body_in m b p x \<Longrightarrow> b \<le> u \<Longrightarrow> u \<le> k \<Longrightarrow> k \<le> p \<Longrightarrow> body_in m b p (x\<lparr>tb_body := mk_str u k\<rparr>)"
  by (simp add: body_in_def)

text \<open>In \<^verbatim>\<open>URI_OR_TOKEN\<close> and \<^verbatim>\<open>MAYBE_URI_END\<close> the URI is open.\<close>

lemma to_uri_open:
  assumes "to_inv m b z p s" and "to_status s \<in> {URI_OR_TOKEN, MAYBE_URI_END}"
  obtains u n where "tb_uri (to_cur s) = open_str u" and "b \<le> u" and "u < p"
    and "tb_body (to_cur s) = open_str n" and "b \<le> n" and "n < p"
    and "to_status s = MAYBE_URI_END \<Longrightarrow> \<exists>k. to_end_mark s = Some k \<and> u < k \<and> k \<le> p"
  using assms by (auto simp: to_inv_def to_eff_simps is_open_def marked_def)

lemma to_nul_ok:
  assumes inv: "to_inv m b z p s" and "p < z"
  shows "to_step_ok m b z p (to_nul p s)"
proof -
  consider "to_status s \<in> {URI_OR_TOKEN, MAYBE_URI_END}" | "to_status s = END_TO"
    | "to_status s \<notin> {URI_OR_TOKEN, MAYBE_URI_END, END_TO}" by blast
  then show ?thesis
  proof cases
    case 1
    from to_uri_open [OF inv 1] obtain u n where u: "tb_uri (to_cur s) = open_str u" "b \<le> u" "u < p"
      "tb_body (to_cur s) = open_str n" "b \<le> n" "n < p" by metis
    have "body_in m b z (to_cur s)" using inv assms(2) by (auto simp: to_inv_def intro: body_in_mono)
    then have "to_out m b z p (s\<lparr>to_cur := (to_cur s)\<lparr>tb_uri := mk_str u p\<rparr>, to_status := END_TO, to_saved := END_TO\<rparr>)"
      using inv u assms(2) by (simp add: to_out_def body_in_uri to_inv_def)
    with 1 u assms(2) show ?thesis by (auto simp: to_nul_def to_uri_endI to_step_ok_def)
  next
    case 2
    have "to_out m b z p (s\<lparr>to_status := END_TO, to_saved := END_TO\<rparr>)"
      using inv assms(2) 2 by (auto simp: to_out_def to_inv_def to_eff_simps intro: body_in_mono uri_set_mono is_open_mono)
    with 2 assms(2) show ?thesis by (simp add: to_nul_def to_step_ok_def)
  next
    case 3
    then show ?thesis using assms(2) by (simp add: to_nul_def)
  qed
qed

lemma new_to_body_ok:
  assumes "done_ok m b z (to_cur s)" and "list_all (done_ok m b z) (to_done s)" and "b \<le> q" and "p \<le> q" and "q < z"
  shows "to_step_ok m b z p (new_to_body alloc q s)"
  using assms
  by (auto simp: new_to_body_def to_step_ok_def to_inv_def to_eff_simps to_save_states_def stale_ok_def
      body_in_def to_body_zero_def tag_of_def)

lemma to_comma_ok:
  assumes inv: "to_inv m b z p s" and "p < z"
  shows "to_step_ok m b z p (to_comma alloc multi p s)"
proof -
  have bz: "body_in m b z (to_cur s)" and bp: "b \<le> p" and dn: "list_all (done_ok m b z) (to_done s)"
    using inv assms(2) by (auto simp: to_inv_def intro: body_in_mono)
  consider "to_status s \<in> {URI_OR_TOKEN, MAYBE_URI_END}" | "to_status s = END_TO"
    | "to_status s \<notin> {URI_OR_TOKEN, MAYBE_URI_END, END_TO}" by blast
  then show ?thesis
  proof cases
    case 1
    from to_uri_open [OF inv 1] obtain u where u: "tb_uri (to_cur s) = open_str u" "b \<le> u" "u < p" by metis
    have "to_step_ok m b z p (new_to_body alloc p (s\<lparr>to_cur := (to_cur s)\<lparr>tb_uri := mk_str u p\<rparr>\<rparr>))"
      by (rule new_to_body_ok) (use u bz bp dn assms(2) in \<open>simp_all add: done_ok_def body_in_uri\<close>)
    with 1 u assms(2) to_stay [OF assms] show ?thesis by (auto simp: to_comma_def to_uri_endI)
  next
    case 2
    then have "uri_set b p (tb_uri (to_cur s))" using inv by (simp add: to_inv_def to_eff_simps)
    then have "done_ok m b z (to_cur s)"
      using bz assms(2) uri_set_mono [of b p _ z] by (simp add: done_ok_def)
    from new_to_body_ok [OF this dn bp order_refl assms(2)] 2 assms(2) show ?thesis by (simp add: to_comma_def)
  next
    case 3
    with assms(2) to_stay [OF assms] show ?thesis by (auto simp: to_comma_def Let_def)
  qed
qed

lemma to_backslash_ok:
  assumes "to_inv m b z p s" and "Suc p < z"
  shows "to_step_ok m b z p (to_backslash p s)"
  using assms to_inv_mono [OF assms(1), of "Suc (Suc p)"]
  by (simp add: to_backslash_def to_step_ok_def)

lemma to_gt_ok:
  assumes inv: "to_inv m b z p s" and "p < z"
  shows "to_step_ok m b z p (to_gt p s)"
proof -
  have inv': "to_inv m b z (Suc p) s" using inv by (rule to_inv_mono) simp
  consider "to_status s = DISPLAY_QUOTED" | "to_status s = URI_ENCLOSED" | "to_status s = E_URI_ENCLOSED"
    | "to_status s \<in> eol_states" | "to_status s \<notin> eol_states" "to_status s \<notin> {DISPLAY_QUOTED, URI_ENCLOSED, E_URI_ENCLOSED}"
    by blast
  then show ?thesis
  proof cases
    case 1
    with to_stay [OF assms] show ?thesis by (simp add: to_gt_def)
  next
    case 2
    then obtain u where u: "tb_uri (to_cur s) = open_str u" "b \<le> u" "u < p"
      using inv by (auto simp: to_inv_def to_eff_simps is_open_def)
    then have "to_inv m b z (Suc p) (s\<lparr>to_cur := (to_cur s)\<lparr>tb_uri := mk_str u p\<rparr>, to_status := END_TO\<rparr>)"
      using inv' 2 by (auto simp: to_inv_def stale_ok_def to_eff_simps body_in_uri)
    with 2 u assms(2) show ?thesis by (simp add: to_gt_def to_uri_endI to_nextI)
  next
    case 3
    then have "to_inv m b z (Suc p) (s\<lparr>to_status := END_TO\<rparr>)"
      using inv' by (auto simp: to_inv_def stale_ok_def to_eff_simps)
    with 3 assms(2) show ?thesis by (simp add: to_gt_def to_nextI)
  next
    case 4
    then have "to_status s \<notin> {DISPLAY_QUOTED, URI_ENCLOSED, E_URI_ENCLOSED}" by auto
    with 4 to_eol_exit(1) [OF assms 4] show ?thesis by (simp add: to_gt_def Let_def)
  next
    case 5
    with assms(2) show ?thesis by (simp add: to_gt_def Let_def)
  qed
qed


lemma to_lt_ok:
  assumes inv: "to_inv m b z p s" and "p < z"
  shows "to_step_ok m b z p (to_lt p s)"
proof -
  have inv': "to_inv m b z (Suc p) s" using inv by (rule to_inv_mono) simp
  consider "to_status s = START_TO" | "to_status s = DISPLAY_QUOTED" | "to_status s = E_DISPLAY_QUOTED"
    | (disp) "to_status s \<in> {URI_OR_TOKEN, DISPLAY_TOKEN, DISPLAY_TOKEN2, MAYBE_URI_END}"
    | (eol) "to_status s \<in> eol_states"
    | (err) "to_status s \<notin> eol_states" "to_status s \<notin> {START_TO, DISPLAY_QUOTED, E_DISPLAY_QUOTED}"
      "to_status s \<notin> {URI_OR_TOKEN, DISPLAY_TOKEN, DISPLAY_TOKEN2, MAYBE_URI_END}"
    by blast
  then show ?thesis
  proof cases
    case 1
    then have "to_inv m b z (Suc p)
        (s\<lparr>to_cur := (to_cur s)\<lparr>tb_body := str_start p (tb_body (to_cur s))\<rparr>, to_status := S_URI_ENCLOSED\<rparr>)"
      using inv' inv by (auto simp: to_inv_def stale_ok_def to_eff_simps body_in_def to_body_zero_def)
    with 1 assms(2) show ?thesis by (simp add: to_lt_def to_nextI)
  next
    case 2
    with to_stay [OF assms] show ?thesis by (simp add: to_lt_def)
  next
    case 3
    then have "to_inv m b z (Suc p) (s\<lparr>to_status := S_URI_ENCLOSED\<rparr>)"
      using inv' by (auto simp: to_inv_def stale_ok_def to_eff_simps)
    with 3 assms(2) show ?thesis by (simp add: to_lt_def to_nextI)
  next
    case disp
    define s1 where "s1 = (if to_status s \<in> {URI_OR_TOKEN, DISPLAY_TOKEN} then s\<lparr>to_end_mark := Some p\<rparr> else s)"
    have ne: "to_status s \<notin> eol_states" using disp by auto
    then obtain d k where d: "tb_display (to_cur s) = open_str d" "b \<le> d" "d < k" "k \<le> p" and k: "to_end_mark s1 = Some k"
      using disp inv by (auto simp: to_inv_def to_eff_simps is_open_def marked_def s1_def)
    have cur: "to_cur s1 = to_cur s" "to_done s1 = to_done s" "to_saved s1 = to_saved s" by (simp_all add: s1_def)
    have st: "is_open b (Suc p) (tb_body (to_cur s))" "str_len (tb_uri (to_cur s)) = 0"
      using disp inv' ne by (auto simp: to_inv_def to_eff_simps marked_def open_str_def is_open_def)
    have "to_inv m b z (Suc p) (s1\<lparr>to_cur := (to_cur s)\<lparr>tb_display := mk_str d k\<rparr>, to_status := S_URI_ENCLOSED\<rparr>)"
      using inv' k d st by (auto simp: to_inv_def stale_ok_def to_eff_simps cur body_in_display)
    moreover have "to_lt p s = Some (Next p (s1\<lparr>to_cur := (to_cur s)\<lparr>tb_display := mk_str d k\<rparr>, to_status := S_URI_ENCLOSED\<rparr>))"
      using disp k d(1) cur(1) by (auto simp: to_lt_def s1_def to_display_end_def)
    ultimately show ?thesis using assms(2) by (simp add: to_nextI)
  next
    case eol
    then have "to_status s \<notin> {START_TO, DISPLAY_QUOTED, E_DISPLAY_QUOTED}"
      "to_status s \<notin> {URI_OR_TOKEN, DISPLAY_TOKEN, DISPLAY_TOKEN2, MAYBE_URI_END}" by auto
    with eol to_eol_exit(1) [OF assms eol] show ?thesis by (simp add: to_lt_def Let_def)
  next
    case err
    with assms(2) show ?thesis by (simp add: to_lt_def Let_def)
  qed
qed

lemma to_quote_ok:
  assumes inv: "to_inv m b z p s" and "p < z"
  shows "to_step_ok m b z p (to_quote p s)"
proof -
  have inv': "to_inv m b z (Suc p) s" using inv by (rule to_inv_mono) simp
  consider "to_status s = START_TO" | "to_status s = DISPLAY_QUOTED" | "to_status s \<in> eol_states"
    | "to_status s \<notin> eol_states" "to_status s \<notin> {START_TO, DISPLAY_QUOTED}"
    by blast
  then show ?thesis
  proof cases
    case 1
    then have "to_inv m b z (Suc p)
        (s\<lparr>to_cur := (to_cur s)\<lparr>tb_body := str_start p (tb_body (to_cur s)), tb_display := str_start p (tb_display (to_cur s))\<rparr>,
          to_status := DISPLAY_QUOTED\<rparr>)"
      using inv' inv by (auto simp: to_inv_def stale_ok_def to_eff_simps body_in_def to_body_zero_def)
    with 1 assms(2) show ?thesis by (simp add: to_quote_def Let_def to_nextI)
  next
    case 2
    then obtain d where d: "tb_display (to_cur s) = open_str d" "b \<le> d" "d < p"
      using inv by (auto simp: to_inv_def to_eff_simps is_open_def)
    then have "to_inv m b z (Suc p) (s\<lparr>to_cur := (to_cur s)\<lparr>tb_display := mk_str d (Suc p)\<rparr>, to_status := E_DISPLAY_QUOTED\<rparr>)"
      using inv' 2 by (auto simp: to_inv_def stale_ok_def to_eff_simps body_in_display)
    with 2 d assms(2) show ?thesis by (simp add: to_quote_def to_display_end_def Let_def to_nextI)
  next
    case 3
    then have "to_status s \<notin> {START_TO, DISPLAY_QUOTED}" by auto
    with 3 to_eol_exit(1) [OF assms 3] show ?thesis by (simp add: to_quote_def Let_def)
  next
    case 4
    with assms(2) show ?thesis by (simp add: to_quote_def Let_def)
  qed
qed

lemma to_default_ok:
  assumes inv: "to_inv m b z p s" and "p < z"
  shows "to_step_ok m b z p (to_default p s)"
proof -
  have inv': "to_inv m b z (Suc p) s" using inv by (rule to_inv_mono) simp
  consider "to_status s = START_TO" | "to_status s = S_URI_ENCLOSED" | "to_status s \<in> {MAYBE_URI_END, DISPLAY_TOKEN2}"
    | "to_status s \<in> {DISPLAY_QUOTED, DISPLAY_TOKEN, URI_ENCLOSED, URI_OR_TOKEN}" | (eol) "to_status s \<in> eol_states"
    | (err) "to_status s \<notin> eol_states" "to_status s \<notin> {START_TO, S_URI_ENCLOSED}" "to_status s \<notin> {MAYBE_URI_END, DISPLAY_TOKEN2}"
      "to_status s \<notin> {DISPLAY_QUOTED, DISPLAY_TOKEN, URI_ENCLOSED, URI_OR_TOKEN}"
    by blast
  then show ?thesis
  proof cases
    case 1
    then have "to_inv m b z (Suc p)
        (s\<lparr>to_cur := (to_cur s)\<lparr>tb_uri := str_start p (tb_uri (to_cur s)), tb_body := str_start p (tb_body (to_cur s)),
             tb_display := str_start p (tb_display (to_cur s))\<rparr>, to_status := URI_OR_TOKEN\<rparr>)"
      using inv' inv by (auto simp: to_inv_def stale_ok_def to_eff_simps body_in_def to_body_zero_def)
    with 1 assms(2) show ?thesis by (simp add: to_default_def Let_def to_nextI)
  next
    case 2
    have st: "str_start p (tb_uri (to_cur s)) = open_str p"
      using inv 2 by (simp add: to_inv_def to_eff_simps str_start_def open_str_def)
    have "to_inv m b z (Suc p) (s\<lparr>to_cur := (to_cur s)\<lparr>tb_uri := open_str p\<rparr>, to_status := URI_ENCLOSED\<rparr>)"
      using inv' inv 2 by (auto simp: to_inv_def stale_ok_def to_eff_simps body_in_def)
    with 2 st assms(2) show ?thesis by (simp add: to_default_def Let_def to_nextI)
  next
    case 3
    then have "is_open b (Suc p) (tb_body (to_cur s))" "is_open b (Suc p) (tb_display (to_cur s))"
      "str_len (tb_uri (to_cur s)) = 0"
      using inv' by (auto simp: to_inv_def to_eff_simps marked_def open_str_def is_open_def)
    then have "to_inv m b z (Suc p) (s\<lparr>to_status := DISPLAY_TOKEN\<rparr>)"
      using inv' by (auto simp: to_inv_def stale_ok_def to_eff_simps)
    with 3 assms(2) show ?thesis by (auto simp: to_default_def Let_def to_nextI)
  next
    case 4
    with to_stay [OF assms] show ?thesis by (auto simp: to_default_def Let_def)
  next
    case eol
    then have "to_status s \<notin> {START_TO, S_URI_ENCLOSED}" "to_status s \<notin> {MAYBE_URI_END, DISPLAY_TOKEN2}"
      "to_status s \<notin> {DISPLAY_QUOTED, DISPLAY_TOKEN, URI_ENCLOSED, URI_OR_TOKEN}" by auto
    with eol to_eol_exit(1) [OF assms eol] show ?thesis by (simp add: to_default_def Let_def)
  next
    case err
    with assms(2) show ?thesis by (simp add: to_default_def Let_def)
  qed
qed


text \<open>What \<^verbatim>\<open>;\<close> does once the URI and the body are closed; \<open>z\<close> is \<open>e + 1\<close>, or \<open>e + 2\<close> when another body may follow.\<close>

lemma to_semi_close:
  assumes inv: "to_inv m b z p s" and st: "to_status s \<in> {URI_OR_TOKEN, MAYBE_URI_END, END_TO}"
  obtains x where "to_semi alloc multi m e p s = (let s1 = (if to_status s = URI_OR_TOKEN then s\<lparr>to_end_mark := Some p\<rparr> else s);
       s3 = s1\<lparr>to_cur := x\<rparr> in do {
       (tmp2, b, rs, n) \<leftarrow> parse_to_param alloc multi m p e x (to_allocs s);
       let s4 = s3\<lparr>to_cur := b, to_saved := rs, to_allocs := n\<rparr>;
       again \<leftarrow> (if tb_error b \<noteq> PARSE_ERROR \<and> multi then do { c \<leftarrow> rd m tmp2; Some (c = CHR '','') } else Some False);
       if again then new_to_body alloc tmp2 s4 else Some (Goto To_endofheader tmp2 s4) })"
    and "body_in m b p x" and "tb_error x \<noteq> PARSE_ERROR" and "uri_set b p (tb_uri x)"
proof (cases "to_status s = END_TO")
  case True
  then obtain n where n: "tb_body (to_cur s) = open_str n" "b \<le> n" "n < p" and u: "uri_set b p (tb_uri (to_cur s))"
    using inv by (auto simp: to_inv_def to_eff_simps is_open_def)
  show ?thesis
    by (rule that [of "(to_cur s)\<lparr>tb_body := mk_str n p\<rparr>"])
      (use True inv n u in \<open>simp_all add: to_semi_def to_body_end_def to_inv_def body_in_body\<close>)
next
  case False
  with st have "to_status s \<in> {URI_OR_TOKEN, MAYBE_URI_END}" by blast
  from to_uri_open [OF inv this] obtain u n where un: "tb_uri (to_cur s) = open_str u" "b \<le> u" "u < p"
    "tb_body (to_cur s) = open_str n" "b \<le> n" "n < p"
    "to_status s = MAYBE_URI_END \<Longrightarrow> \<exists>k. to_end_mark s = Some k \<and> u < k \<and> k \<le> p" by blast
  then obtain k where k: "(if to_status s = URI_OR_TOKEN then Some p else to_end_mark s) = Some k" "u < k" "k \<le> p"
    using st False by auto
  show ?thesis
    by (rule that [of "(to_cur s)\<lparr>tb_uri := mk_str u k, tb_body := mk_str n p\<rparr>"])
      (use False st inv un(1-6) k in \<open>auto simp: to_semi_def to_body_end_def to_uri_endI to_inv_def body_in_def\<close>)
qed

lemma to_semi_ok:
  assumes inv: "to_inv m b z p s" and p: "p < e" and z: "z = e + 1 + of_bool multi" "z \<le> length m"
  shows "to_step_ok m b z p (to_semi alloc multi m e p s)"
proof -
  have pz: "p < z" using p z by simp
  consider (stay) "to_status s \<in> {DISPLAY_QUOTED, DISPLAY_TOKEN, URI_ENCLOSED}"
    | (close) "to_status s \<in> {URI_OR_TOKEN, MAYBE_URI_END, END_TO}" | (eol) "to_status s \<in> eol_states"
    | (err) "to_status s \<notin> eol_states" "to_status s \<notin> {DISPLAY_QUOTED, DISPLAY_TOKEN, URI_ENCLOSED}"
      "to_status s \<notin> {URI_OR_TOKEN, MAYBE_URI_END, END_TO}"
    by blast
  then show ?thesis
  proof cases
    case close
    obtain x where sem: "to_semi alloc multi m e p s = (let s1 = (if to_status s = URI_OR_TOKEN then s\<lparr>to_end_mark := Some p\<rparr> else s);
       s3 = s1\<lparr>to_cur := x\<rparr> in do {
       (tmp2, b, rs, n) \<leftarrow> parse_to_param alloc multi m p e x (to_allocs s);
       let s4 = s3\<lparr>to_cur := b, to_saved := rs, to_allocs := n\<rparr>;
       again \<leftarrow> (if tb_error b \<noteq> PARSE_ERROR \<and> multi then do { c \<leftarrow> rd m tmp2; Some (c = CHR '','') } else Some False);
       if again then new_to_body alloc tmp2 s4 else Some (Goto To_endofheader tmp2 s4) })"
      and x: "body_in m b p x" "tb_error x \<noteq> PARSE_ERROR" "uri_set b p (tb_uri x)"
      by (rule to_semi_close [OF inv close])
    have "b \<le> p" using inv by (simp add: to_inv_def)
    from parse_to_param_ok [OF this _ _ x(1,2), of e alloc multi "to_allocs s"] p z
    obtain q y st n where y: "parse_to_param alloc multi m p e x (to_allocs s) = Some (q, y, st, n)" "p \<le> q" "q \<le> e + 1"
      "body_in m b (e + 1) y" "frame y = frame x" "st \<in> para_states" by auto
    define s4 where "s4 = (if to_status s = URI_OR_TOKEN then s\<lparr>to_end_mark := Some p\<rparr> else s)
      \<lparr>to_cur := x, to_cur := y, to_saved := st, to_allocs := n\<rparr>"
    have dn: "list_all (done_ok m b z) (to_done s4)" and s4: "to_cur s4 = y" "to_saved s4 = st"
      using inv by (auto simp: s4_def to_inv_def)
    have yz: "body_in m b z y" using y(4) z by (auto intro: body_in_mono)
    have uz: "uri_set b z (tb_uri y)" using x(3) y(5) pz uri_set_mono [of b p _ z] by (simp add: frame_def)
    have nb: "to_step_ok m b z p (new_to_body alloc q s4)" if "multi"
      using that y z \<open>b \<le> p\<close> dn yz uz s4 by (intro new_to_body_ok) (auto simp: done_ok_def)
    have "to_out m b z q s4"
      using dn yz uz s4 y(6) by (auto simp: to_out_def)
    then have ex: "to_step_ok m b z p (Some (Goto To_endofheader q s4))"
      using y z by (auto simp: to_step_ok_def)
    show ?thesis
      unfolding sem Let_def y(1) using nb ex y(3) z by (auto simp: s4_def)
  next
    case eol
    then have "to_status s \<notin> {DISPLAY_QUOTED, DISPLAY_TOKEN, URI_ENCLOSED}"
      "to_status s \<notin> {URI_OR_TOKEN, MAYBE_URI_END, END_TO}" by auto
    with eol to_eol_exit(1) [OF inv pz eol] show ?thesis by (simp add: to_semi_def Let_def)
  next
    case stay
    with to_stay [OF inv pz] show ?thesis by (auto simp: to_semi_def)
  next
    case err
    with pz show ?thesis by (simp add: to_semi_def Let_def)
  qed
qed

lemma to_step_good:
  assumes inv: "to_inv m b z p s" and p: "p < e" and z: "z = e + 1 + of_bool multi" "z \<le> length m"
  shows "to_step_ok m b z p (to_step alloc multi m e p c s)"
proof -
  have pz: "p < z" "Suc p < z" using p z by simp_all
  show ?thesis
    unfolding to_step_def to_lf_def to_cr_def
    using to_space_ok [OF inv pz(1)] to_eol_ok [OF inv pz(1)] to_nul_ok [OF inv pz(1)] to_comma_ok [OF inv pz(1)]
      to_backslash_ok [OF inv pz(2)] to_lt_ok [OF inv pz(1)] to_gt_ok [OF inv pz(1)] to_quote_ok [OF inv pz(1)]
      to_semi_ok [OF assms] to_default_ok [OF inv pz(1)] by simp
qed

text \<open>A header that is not a list has one body.\<close>

lemma to_step_single:
  assumes "to_step alloc False m e p c s = Some a"
  shows "to_done (act_state a) = to_done s"
proof -
  note [simp] = Let_def bind_eq_Some_conv to_uri_end_def to_display_end_def to_body_end_def
  have "to_done (act_state a) = to_done s" if "to_semi alloc False m e p s = Some a"
    using that by (auto simp: to_semi_def split: if_splits)
  moreover have "to_done (act_state a) = to_done s" if "to_comma alloc False p s = Some a"
    using that by (auto simp: to_comma_def split: if_splits)
  moreover have "to_done (act_state a) = to_done s" if "to_lt p s = Some a"
    using that by (auto simp: to_lt_def split: if_splits)
  moreover have "to_done (act_state a) = to_done s"
    if "to_space p s = Some a \<or> to_nul p s = Some a \<or> to_backslash p s = Some a"
    using that by (auto simp: to_space_def to_nul_def to_backslash_def split: if_splits)
  moreover have "to_done (act_state a) = to_done s" if "to_eol f p s = Some a" for f
    using that by (auto simp: to_eol_def split: if_splits)
  moreover have "to_done (act_state a) = to_done s"
    if "to_gt p s = Some a \<or> to_quote p s = Some a \<or> to_default p s = Some a"
    using that by (auto simp: to_gt_def to_quote_def to_default_def split: if_splits)
  ultimately show ?thesis
    using assms unfolding to_step_def to_lf_def to_cr_def by (simp split: if_splits)
qed

interpretation tol: char_loop "to_step alloc multi m e" m e
    "\<lambda>p s. z = e + 1 + of_bool multi \<and> z \<le> length m \<and> to_inv m b z p s \<and> p \<le> z \<and> (\<not> multi \<longrightarrow> to_done s = [])"
    "\<lambda>l q s. b \<le> q \<and> q \<le> z \<and> (l = To_endofheader \<longrightarrow> to_out m b z q s) \<and> (\<not> multi \<longrightarrow> to_done s = [])" for alloc multi m e z b
proof
  fix p s
  assume p: "p < e" and I: "z = e + 1 + of_bool multi \<and> z \<le> length m \<and> to_inv m b z p s \<and> p \<le> z \<and> (\<not> multi \<longrightarrow> to_done s = [])"
  then show "p < length m" by simp
  have "b \<le> p" using I by (simp add: to_inv_def)
  then show "(\<exists>q s'. to_step alloc multi m e p (m ! p) s = Some (Next q s') \<and> p \<le> q \<and>
        z = e + 1 + of_bool multi \<and> z \<le> length m \<and> to_inv m b z (Suc q) s' \<and> Suc q \<le> z \<and> (\<not> multi \<longrightarrow> to_done s' = [])) \<or>
      (\<exists>l q s'. to_step alloc multi m e p (m ! p) s = Some (Goto l q s') \<and>
        b \<le> q \<and> q \<le> z \<and> (l = To_endofheader \<longrightarrow> to_out m b z q s') \<and> (\<not> multi \<longrightarrow> to_done s' = []))"
    using to_step_good [of m b z p s e multi alloc "m ! p"] to_step_single [of alloc m e p "m ! p" s] I p
    unfolding to_step_ok_def by (cases multi) fastforce+
qed


text \<open>After the loop.\<close>

lemma to_endofheader_total:
  assumes "stale_ok s" and "to_saved s \<in> to_save_states \<or> to_out m b z q s"
  shows "\<exists>x. to_endofheader q s = Some (q, x) \<and> x \<noteq> [] \<and> (to_done s = [] \<longrightarrow> length x = 1)"
  using assms(1)
  by (auto simp: to_endofheader_def Let_def to_fail_def to_bodies_def stale_ok_def to_uri_end_def to_body_end_def end_at_def)

lemma to_out_stale: "to_out m b z q s \<Longrightarrow> stale_ok s"
  by (auto simp: to_out_def stale_ok_def is_open_def marked_def)

lemma body_in_drop_display:
  assumes "body_in m b z x" and "str_len (tb_display x) = 0"
  shows "body_in m b z (x\<lparr>tb_display := (tb_display x)\<lparr>str_s := None\<rparr>\<rparr>)"
  using assms by (simp add: body_in_def str_within_def)

lemma to_endofheader_ok:
  assumes out: "to_out m b z q s" and "q \<le> z" and "to_endofheader q s = Some (q, xs)" and "tb_error (hd xs) \<noteq> PARSE_ERROR"
  shows "list_all (done_ok m b z) xs"
proof -
  define c where "c = (if str_len (tb_display (to_cur s)) = 0
    then (to_cur s)\<lparr>tb_display := (tb_display (to_cur s))\<lparr>str_s := None\<rparr>\<rparr> else to_cur s)"
  have c: "body_in m b z c" "tb_uri c = tb_uri (to_cur s)" "tb_body c = tb_body (to_cur s)"
    using out body_in_drop_display [of m b z "to_cur s"] by (auto simp: c_def to_out_def)
  have eoh: "to_endofheader q s = (let s1 = s\<lparr>to_cur := c\<rparr>; st = to_saved s
     in if st = MAYBE_URI_END then do {
          em \<leftarrow> to_end_mark s1; s2 \<leftarrow> to_uri_end em s1; s3 \<leftarrow> to_body_end q s2; Some (q, to_bodies s3) }
        else if st = END_TO then do { s3 \<leftarrow> to_body_end q s1; Some (q, to_bodies s3) }
        else if st = E_PARA_VALUE then Some (q, to_bodies s1)
        else Some (to_fail q s1))"
    by (simp add: to_endofheader_def c_def Let_def)
  have dn: "list_all (done_ok m b z) (to_done s)" using out by (simp add: to_out_def)
  consider "to_saved s = MAYBE_URI_END" | "to_saved s = END_TO" | "to_saved s = E_PARA_VALUE"
    | "to_saved s \<notin> {MAYBE_URI_END, END_TO, E_PARA_VALUE}" by blast
  then show ?thesis
  proof cases
    case 1
    then obtain u k n where "tb_uri (to_cur s) = open_str u" "to_end_mark s = Some k" "b \<le> u" "u < k" "k \<le> z"
      "tb_body (to_cur s) = open_str n" "b \<le> n" "n \<le> q"
      using out by (auto simp: to_out_def marked_def is_open_def)
    with 1 eoh assms(2,3) dn c show ?thesis
      by (auto simp: to_uri_end_def to_body_end_def to_bodies_def done_ok_def body_in_def)
  next
    case 2
    then obtain n where "uri_set b z (tb_uri (to_cur s))" "tb_body (to_cur s) = open_str n" "b \<le> n" "n \<le> q"
      using out by (auto simp: to_out_def is_open_def)
    with 2 eoh assms(2,3) dn c show ?thesis
      by (auto simp: to_body_end_def to_bodies_def done_ok_def body_in_def)
  next
    case 3
    with eoh assms(3) dn c out show ?thesis by (auto simp: to_bodies_def done_ok_def to_out_def)
  next
    case 4
    with eoh assms(3,4) show ?thesis by (auto simp: to_fail_def)
  qed
qed

section \<open>Properties\<close>

lemma parse_to_total:
  assumes "b \<le> e" and "e + 1 + of_bool multi \<le> length m"
  shows "\<exists>q xs. parse_to_multi alloc multi m b e = Some (q, xs) \<and> b \<le> q \<and> q \<le> e + 1 + of_bool multi \<and>
    xs \<noteq> [] \<and> (\<not> multi \<longrightarrow> length xs = 1) \<and>
    (q < e \<and> tb_error (hd xs) \<noteq> PARSE_ERROR \<longrightarrow>
      list_all (\<lambda>x. body_in m b (e + 1 + of_bool multi) x \<and> uri_set b (e + 1 + of_bool multi) (tb_uri x)) xs)"
proof -
  define z where "z = e + 1 + of_bool multi"
  have "to_inv m b z b to_init"
    by (simp add: to_inv_def to_init_def to_eff_simps body_in_def to_body_zero_def tag_of_def to_save_states_def stale_ok_def)
  then have init: "z = e + 1 + of_bool multi \<and> z \<le> length m \<and> to_inv m b z b to_init \<and> b \<le> z \<and> (\<not> multi \<longrightarrow> to_done to_init = [])"
    using assms by (simp add: z_def to_init_def)
  consider (eof) q s where "for_chars (to_step alloc multi m e) m b e to_init = Some (None, q, s)" "e \<le> q"
      "to_inv m b z q s" "q \<le> z" "\<not> multi \<longrightarrow> to_done s = []"
    | (lab) l q s where "for_chars (to_step alloc multi m e) m b e to_init = Some (Some l, q, s)" "b \<le> q" "q \<le> z"
      "l = To_endofheader \<longrightarrow> to_out m b z q s" "\<not> multi \<longrightarrow> to_done s = []"
    using tol.loop_total [OF init, of alloc] by blast
  then have "\<exists>q xs. parse_to_multi alloc multi m b e = Some (q, xs) \<and> b \<le> q \<and> q \<le> z \<and> xs \<noteq> [] \<and>
    (\<not> multi \<longrightarrow> length xs = 1) \<and> (q < e \<and> tb_error (hd xs) \<noteq> PARSE_ERROR \<longrightarrow> list_all (done_ok m b z) xs)"
  proof cases
    case eof
    then have "stale_ok s" "to_saved s \<in> to_save_states" "b \<le> q" by (auto simp: to_inv_def)
    with to_endofheader_total [of s m b z q] eof show ?thesis by (auto simp: parse_to_multi_def)
  next
    case lab
    show ?thesis
    proof (cases "l = To_endofheader")
      case True
      with lab have out: "to_out m b z q s" by simp
      from to_endofheader_total [OF to_out_stale [OF out], of m b z q] out
      obtain x where "to_endofheader q s = Some (q, x)" "x \<noteq> []" "to_done s = [] \<longrightarrow> length x = 1" by blast
      with True lab to_endofheader_ok [OF out lab(3), of x] show ?thesis by (auto simp: parse_to_multi_def)
    next
      case False
      with lab show ?thesis by (cases l) (auto simp: parse_to_multi_def to_fail_def)
    qed
  qed
  then show ?thesis unfolding z_def done_ok_def by simp
qed


text \<open>
  \<^verbatim>\<open>parse_to\<close> and \<^verbatim>\<open>parse_multi_to\<close> always return: for every buffer and every outcome of the allocations the state
  machine ends without following a \<^verbatim>\<open>NULL\<close> pointer and reads at most one byte past \<^verbatim>\<open>end\<close> (two in a list of bodies). The
  pointer they return lies in the same range; there is at least one body and, for \<^verbatim>\<open>parse_to\<close>, exactly one. When the
  header ended before \<^verbatim>\<open>end\<close> and no error is reported, every string of every body and of every parameter lies inside
  the header, the URI is not empty, a parameter has type \<^verbatim>\<open>TAG_PARAM\<close> exactly when its name is \<^verbatim>\<open>tag\<close>, and the tag of the body
  is the value of its last tag parameter.
\<close>

theorem parse_to_safe:
  assumes "b \<le> e" and "e + 1 + of_bool multi \<le> length m"
  shows "\<exists>q xs. parse_to_multi alloc multi m b e = Some (q, xs) \<and> b \<le> q \<and> q \<le> e + 1 + of_bool multi \<and>
    xs \<noteq> [] \<and> (\<not> multi \<longrightarrow> length xs = 1) \<and>
    (q < e \<and> tb_error (hd xs) \<noteq> PARSE_ERROR \<longrightarrow>
      list_all (\<lambda>x. body_in m b (e + 1 + of_bool multi) x \<and> uri_set b (e + 1 + of_bool multi) (tb_uri x)) xs)"
  using assms by (rule parse_to_total)

theorem parse_to_safe_witness:
  "\<exists>q xs. parse_to_multi (\<lambda>_. True) False (''<sip:a>;tag=1'' @ [CR, LF, CHR ''C'']) 0 15 = Some (q, xs) \<and> 0 \<le> q \<and> q \<le> 15 + 1 + of_bool False \<and>
    xs \<noteq> [] \<and> (\<not> False \<longrightarrow> length xs = 1) \<and>
    (q < 15 \<and> tb_error (hd xs) \<noteq> PARSE_ERROR \<longrightarrow>
      list_all (\<lambda>x. body_in (''<sip:a>;tag=1'' @ [CR, LF, CHR ''C'']) 0 (15 + 1 + of_bool False) x \<and>
        uri_set 0 (15 + 1 + of_bool False) (tb_uri x)) xs)"
  by (rule parse_to_safe) simp_all


subsection \<open>Round trip\<close>

text \<open>The characters that a quoted display name, a URI in angle brackets and a tag may have.\<close>

definition disp_char :: "char \<Rightarrow> bool" where
  "disp_char c \<longleftrightarrow> c \<notin> {LF, CR, NUL, BACKSLASH, DQUOTE}"

definition uri_char :: "char \<Rightarrow> bool" where
  "uri_char c \<longleftrightarrow> c \<notin> {SPC, TAB, LF, CR, NUL, BACKSLASH, CHR ''<'', CHR ''>'', DQUOTE}"

definition tag_char :: "char \<Rightarrow> bool" where
  "tag_char c \<longleftrightarrow> c \<notin> {SPC, TAB, LF, CR, NUL, CHR '','', BACKSLASH, DQUOTE, CHR '';'', CHR ''=''}"

definition next_line_char :: "char \<Rightarrow> bool" where
  "next_line_char c \<longleftrightarrow> c \<notin> {SPC, TAB, NUL, CHR '','', BACKSLASH}"

definition tag_body :: "to_body \<Rightarrow> ptr \<Rightarrow> ptr \<Rightarrow> to_body" where
  "tag_body x p q = x\<lparr>tb_params := tb_params x @ [\<lparr>tp_type = TAG_PARAM, tp_name = mk_str p (p + 3), tp_value = mk_str (p + 4) q\<rparr>],
     tb_tag_value := mk_str (p + 4) q\<rparr>"

lemma parse_to_param_tag:
  assumes a: "alloc n" and e: "q + 2 < e" "e \<le> length m" "p + 5 < q"
    and t: "m ! p = CHR '';''" "m ! (p + 1) = CHR ''t''" "m ! (p + 2) = CHR ''a''" "m ! (p + 3) = CHR ''g''" "m ! (p + 4) = CHR ''=''"
    and v: "\<And>i. p + 5 \<le> i \<Longrightarrow> i < q \<Longrightarrow> tag_char (m ! i)"
    and z: "m ! q = CR" "m ! (q + 1) = LF" "next_line_char (m ! (q + 2))"
  shows "parse_to_param alloc multi m p e x n = Some (q + 2, tag_body x (p + 1) q, E_PARA_VALUE, n + 1)"
proof -
  let ?f = "for_chars (tp_step alloc multi m) m"
  let ?s = "\<lambda>ty nm v st. \<lparr>ts_param = Some \<lparr>tp_type = ty, tp_name = nm, tp_value = v\<rparr>, ts_status = st, ts_saved = E_PARA_VALUE,
    ts_body = x, ts_allocs = n + 1\<rparr>"
  let ?nm = "mk_str (p + 1) (p + 4)" and ?b = "tag_body x (p + 1) q"
  let ?d = "\<lambda>st. \<lparr>ts_param = None, ts_status = st, ts_saved = E_PARA_VALUE, ts_body = ?b, ts_allocs = n + 1\<rparr>"
  note defs = tp_step_def tp_lf_def tp_cr_def tp_t_def tp_a_def tp_g_def tp_default_def tp_letter_def tp_eol_def tp_equal_def
    tp_semi_def tp_close_def tp_name_start_def tp_value_start_def tp_name_end_def tp_value_end_def add_param_def
    name_states_def eol_states_def Let_def
  have "?f p e (tp_init x n) = ?f (p + 1) e (?s GENERAL_PARAM str_null str_null S_PARA_NAME)"
    using a e t by (intro for_chars_turn) (simp_all add: tp_init_def defs to_param_zero_def)
  also have "\<dots> = ?f (p + 2) e (?s GENERAL_PARAM (open_str (p + 1)) str_null TAG1)"
    using e t by (intro for_chars_turn) (simp_all add: defs)
  also have "\<dots> = ?f (p + 3) e (?s GENERAL_PARAM (open_str (p + 1)) str_null TAG2)"
    using e t by (intro for_chars_turn) (simp_all add: defs)
  also have "\<dots> = ?f (p + 4) e (?s GENERAL_PARAM (open_str (p + 1)) str_null TAG3)"
    using e t by (intro for_chars_turn) (simp_all add: defs)
  also have "\<dots> = ?f (p + 5) e (?s TAG_PARAM ?nm str_null S_PARA_VALUE)"
    using e t by (intro for_chars_turn) (simp_all add: defs)
  also have "\<dots> = ?f (p + 6) e (?s TAG_PARAM ?nm (open_str (p + 5)) PARA_VALUE_TOKEN)"
    using e v [of "p + 5"] by (intro for_chars_turn)
      (simp_all add: defs tag_char_def)
  also have "\<dots> = ?f q e (?s TAG_PARAM ?nm (open_str (p + 5)) PARA_VALUE_TOKEN)"
    using e v by (intro for_chars_run) (auto simp: defs tag_char_def)
  also have "\<dots> = ?f (q + 1) e (?d F_CR)"
    using e z by (intro for_chars_turn) (auto simp: defs link_param_def tag_body_def add.commute)
  also have "\<dots> = ?f (q + 2) e (?d F_CRLF)"
    using e z by (intro for_chars_turn) (auto simp: defs)
  also have "\<dots> = Some (Some To_endofheader, q + 2, ?d (if m ! (q + 2) \<in> {CR, LF} then E_PARA_VALUE else F_CRLF))"
    using e z(3) by (intro for_chars_goto) (auto simp: defs next_line_char_def tp_quote_def)
  finally show ?thesis
    by (simp add: parse_to_param_def tp_endofheader_def)
qed


lemma parse_to_at:
  assumes a: "alloc 0" and e: "z + 2 < e" "e \<le> length m" "b < d" "d + 3 < q" "q + 6 < z"
    and dq: "m ! b = DQUOTE" "m ! d = DQUOTE" "m ! (d + 1) = SPC" "m ! (d + 2) = CHR ''<''"
    and di: "\<And>i. b < i \<Longrightarrow> i < d \<Longrightarrow> disp_char (m ! i)"
    and ur: "\<And>i. d + 3 \<le> i \<Longrightarrow> i < q \<Longrightarrow> uri_char (m ! i)" and first: "m ! (d + 3) \<notin> {CHR '','', CHR '';''}"
    and t: "m ! q = CHR ''>''" "m ! (q + 1) = CHR '';''" "m ! (q + 2) = CHR ''t''" "m ! (q + 3) = CHR ''a''" "m ! (q + 4) = CHR ''g''"
      "m ! (q + 5) = CHR ''=''"
    and v: "\<And>i. q + 6 \<le> i \<Longrightarrow> i < z \<Longrightarrow> tag_char (m ! i)"
    and zz: "m ! z = CR" "m ! (z + 1) = LF" "next_line_char (m ! (z + 2))"
  shows "parse_to alloc m b e = Some (z + 2, [tag_body
    \<lparr>tb_error = PARSE_OK, tb_body = mk_str b (q + 1), tb_uri = mk_str (d + 3) q, tb_display = mk_str b (d + 1),
      tb_tag_value = str_null, tb_params = []\<rparr> (q + 2) z])"
proof -
  let ?f = "for_chars (to_step alloc False m e) m"
  let ?x = "\<lambda>u di. \<lparr>tb_error = PARSE_OK, tb_body = open_str b, tb_uri = u, tb_display = di, tb_tag_value = str_null, tb_params = []\<rparr>"
  let ?s = "\<lambda>st u di. \<lparr>to_status = st, to_saved = START_TO, to_end_mark = None, to_done = [], to_cur = ?x u di, to_allocs = 0\<rparr>"
  let ?y = "tag_body ((?x (mk_str (d + 3) q) (mk_str b (d + 1)))\<lparr>tb_body := mk_str b (q + 1)\<rparr>) (q + 2) z"
  note defs = to_step_def to_quote_def to_space_def to_lt_def to_gt_def to_default_def to_comma_def to_semi_def Let_def
    to_display_end_def to_uri_endI to_body_end_def eol_states_def
  have param: "parse_to_param alloc False m (q + 1) e x 0 = Some (z + 2, tag_body x (q + 2) z, E_PARA_VALUE, 1)" for x
    using parse_to_param_tag [of alloc 0 z e m "q + 1" False x] a e t v zz by (simp add: eval_nat_numeral)
  have "?f b e to_init = ?f (b + 1) e (?s DISPLAY_QUOTED str_null (open_str b))"
    using e dq by (intro for_chars_turn) (simp_all add: defs to_init_def to_body_zero_def)
  also have "\<dots> = ?f d e (?s DISPLAY_QUOTED str_null (open_str b))"
    using e di by (intro for_chars_run) (auto simp: defs disp_char_def)
  also have "\<dots> = ?f (d + 1) e (?s E_DISPLAY_QUOTED str_null (mk_str b (d + 1)))"
    using e dq by (intro for_chars_turn) (simp_all add: defs)
  also have "\<dots> = ?f (d + 2) e (?s E_DISPLAY_QUOTED str_null (mk_str b (d + 1)))"
    using e dq by (intro for_chars_turn) (simp_all add: defs)
  also have "\<dots> = ?f (d + 3) e (?s S_URI_ENCLOSED str_null (mk_str b (d + 1)))"
    using e dq by (intro for_chars_turn) (simp_all add: defs)
  also have "\<dots> = ?f (d + 4) e (?s URI_ENCLOSED (open_str (d + 3)) (mk_str b (d + 1)))"
    using e ur [of "d + 3"] first by (intro for_chars_turn) (auto simp: defs uri_char_def)
  also have "\<dots> = ?f q e (?s URI_ENCLOSED (open_str (d + 3)) (mk_str b (d + 1)))"
    using e ur by (intro for_chars_run) (auto simp: defs uri_char_def)
  also have "\<dots> = ?f (q + 1) e (?s END_TO (mk_str (d + 3) q) (mk_str b (d + 1)))"
    using e t by (intro for_chars_turn) (simp_all add: defs)
  also have "\<dots> = Some (Some To_endofheader, z + 2, \<lparr>to_status = END_TO, to_saved = E_PARA_VALUE, to_end_mark = None,
      to_done = [], to_cur = ?y, to_allocs = 1\<rparr>)"
    using e t param by (intro for_chars_goto) (simp_all add: defs)
  finally show ?thesis
    using e by (simp add: parse_to_def parse_to_multi_def to_endofheader_def to_bodies_def tag_body_def mk_str_def Let_def)
qed

text \<open>
  C30: round trip of a To header. A header body printed as a quoted display name, a URI in angle brackets and a tag, ended by
  CRLF and followed by a byte that does not continue the line, is parsed back to exactly this display name, URI and tag;
  the pointer returned is the one of the next line, and the body ends after the closing bracket.
\<close>

theorem parse_to_roundtrip:
  assumes "alloc 0" and "list_all disp_char disp" and "list_all uri_char uri" and "uri \<noteq> []" and "hd uri \<notin> {CHR '','', CHR '';''}"
    and "list_all tag_char tag" and "tag \<noteq> []" and "next_line_char x"
    and m: "m = pre @ [DQUOTE] @ disp @ [DQUOTE, SPC] @ ''<'' @ uri @ ''>;tag='' @ tag @ [CR, LF, x] @ post"
  shows "\<exists>y. parse_to alloc m (length pre) (length m) = Some (length m - length post - 1, [y]) \<and> tb_error y = PARSE_OK \<and>
    str_text m (tb_display y) = [DQUOTE] @ disp @ [DQUOTE] \<and> str_text m (tb_uri y) = uri \<and> str_text m (tb_tag_value y) = tag \<and>
    str_text m (tb_body y) = [DQUOTE] @ disp @ [DQUOTE, SPC] @ ''<'' @ uri @ ''>''"
proof -
  define b d q z where "b = length pre" and "d = b + 1 + length disp" and "q = d + 3 + length uri" and "z = q + 6 + length tag"
  note pos = b_def d_def q_def z_def
  have sg: "seg m i j = r" if "m = l @ r @ o2" "i = length l" "j = i + length r" for i j l r o2
    using that by (simp add: seg_def)
  have segs: "seg m (b + 1) d = disp" "seg m (d + 3) q = uri" "seg m (q + 6) z = tag" "seg m b (d + 1) = [DQUOTE] @ disp @ [DQUOTE]"
    "seg m b (q + 1) = [DQUOTE] @ disp @ [DQUOTE, SPC] @ ''<'' @ uri @ ''>''"
    by (rule sg [of "pre @ [DQUOTE]"] sg [of "pre @ [DQUOTE] @ disp @ [DQUOTE, SPC] @ ''<''"]
        sg [of "pre @ [DQUOTE] @ disp @ [DQUOTE, SPC] @ ''<'' @ uri @ ''>;tag=''"] sg [of pre]; simp add: m pos)+
  have "z + 2 < length m" using m by (simp add: pos)
  then have ln: "d \<le> length m" "q \<le> length m" "z \<le> length m" by (simp_all add: z_def q_def)
  have "parse_to alloc m b (length m) = Some (z + 2, [tag_body
    \<lparr>tb_error = PARSE_OK, tb_body = mk_str b (q + 1), tb_uri = mk_str (d + 3) q, tb_display = mk_str b (d + 1),
      tb_tag_value = str_null, tb_params = []\<rparr> (q + 2) z])"
  proof (rule parse_to_at)
    fix i
    show "disp_char (m ! i)" if "b < i" "i < d"
      using assms(2) that ln segs(1) by (intro seg_all [of m "b + 1" d disp_char i]) (auto simp: list_all_iff)
    show "uri_char (m ! i)" if "d + 3 \<le> i" "i < q"
      using assms(3) that ln segs(2) by (intro seg_all [of m "d + 3" q uri_char i]) (auto simp: list_all_iff)
    show "tag_char (m ! i)" if "q + 6 \<le> i" "i < z"
      using assms(6) that ln segs(3) by (intro seg_all [of m "q + 6" z tag_char i]) (auto simp: list_all_iff)
  qed (use assms in \<open>simp_all add: pos nth_append hd_conv_nth\<close>)
  then show ?thesis
    using m segs by (simp add: tag_body_def pos)
qed


theorem parse_to_roundtrip_witness:
  "let m = [DQUOTE] @ ''Al'' @ [DQUOTE, SPC] @ ''<'' @ ''sip:a@b'' @ ''>;tag='' @ ''77'' @ [CR, LF, CHR ''C''] @ ''S'' in
   (\<exists>y. parse_to (\<lambda>_. True) m 0 (length m) = Some (length m - 1 - 1, [y]) \<and> tb_error y = PARSE_OK \<and>
    str_text m (tb_display y) = [DQUOTE] @ ''Al'' @ [DQUOTE] \<and> str_text m (tb_uri y) = ''sip:a@b'' \<and>
    str_text m (tb_tag_value y) = ''77'' \<and>
    str_text m (tb_body y) = [DQUOTE] @ ''Al'' @ [DQUOTE, SPC] @ ''<'' @ ''sip:a@b'' @ ''>'')"
  unfolding Let_def
  using parse_to_roundtrip [of "\<lambda>_. True" "''Al''" "''sip:a@b''" "''77''" "CHR ''C''" _ "[]" "''S''",
      OF _ _ _ _ _ _ _ _ refl]
  by (simp add: disp_char_def uri_char_def tag_char_def next_line_char_def)

subsection \<open>Behaviours a reader would not expect\<close>

text \<open>
  on five concrete inputs. (1) A display name that continues on a second line and is cut off inside \<^verbatim>\<open><\<close>: the saved
  state of the first line outlives its URI and the function reports success with a URI of negative length. (2) A header
  cut off inside its tag is accepted and the tag is dropped. (3) A parameter named \<^verbatim>\<open>t\<close> without a value is rejected when
  another parameter follows, (4) while one named \<^verbatim>\<open>a\<close> is accepted. (5) In a list, an error in the parameters of the second
  body leaves the error code of the first body, the one callers test, at \<^verbatim>\<open>PARSE_OK\<close>.
\<close>

theorem parse_to_quirks:
  "map_option (\<lambda>(q, ys). (q, map (\<lambda>y. (tb_error y, str_len (tb_uri y), str_len (tb_tag_value y))) ys))
     (parse_to (\<lambda>_. True) (''sip:a'' @ [CR, LF] @ '' <x'') 0 10) = Some (10, [(PARSE_OK, -4, 0)]) \<and>
   map_option (\<lambda>(q, ys). (q, map (\<lambda>y. (tb_error y, str_len (tb_uri y), str_len (tb_tag_value y))) ys))
     (parse_to (\<lambda>_. True) ''<s>;tag=x'' 0 9) = Some (9, [(PARSE_OK, 1, 0)]) \<and>
   map_option (\<lambda>(q, ys). map tb_error ys) (parse_to (\<lambda>_. True) (''<s>;t;x'' @ [CR, LF] @ ''CC'') 0 11) = Some [PARSE_ERROR] \<and>
   map_option (\<lambda>(q, ys). map tb_error ys) (parse_to (\<lambda>_. True) (''<s>;a;x'' @ [CR, LF] @ ''CC'') 0 11) = Some [PARSE_OK] \<and>
   map_option (\<lambda>(q, ys). map tb_error ys) (parse_multi_to (\<lambda>_. True) (''<s>,<b>;x=1 y'' @ [CR, LF] @ ''CC'') 0 17) =
     Some [PARSE_OK, PARSE_ERROR]"
  by (intro conjI; code_simp)

end
