(* ===== verification/Uri.thy ===== *)
theory Uri
  imports Hname
begin

text \<open>
  \<^verbatim>\<open>parse_uri\<close> of \<^verbatim>\<open>parse_uri.c\<close>: the one-pass state machine for SIP, SIPS, TEL and URN service URIs, with the parameters it
  knows. The macros of the function (\<^verbatim>\<open>still_at_user\<close>, \<^verbatim>\<open>param_switch\<close>, \<^verbatim>\<open>value_switch\<close>, \<^verbatim>\<open>transport_fin\<close>, ...) are definitions
  of the same names, the states keep their names and are grouped by the parameter they belong to, and the big \<^verbatim>\<open>switch\<close> is
  a step function for the loop \<open>for_chars\<close>.

  The twelve \<^verbatim>\<open>str\<close> fields of known parameters and the twelve fields of their values are two functions on the type
  \<open>pfield\<close>, so that the pointers \<^verbatim>\<open>param\<close> and \<^verbatim>\<open>param_val\<close> of the code are values of this type. \<open>uri_env\<close> has the two facts
  about addresses that the code depends on: the address of the literal \<^verbatim>\<open>""\<close>, and the value of \<^verbatim>\<open>p - NULL\<close>.
  \<^verbatim>\<open>port_no\<close> is a 32-bit word (its signed overflow wraps on the targets of the parser).
\<close>

section \<open>Data\<close>

datatype uri_type = ERROR_URI_T | SIP_URI_T | SIPS_URI_T | TEL_URI_T | TELS_URI_T | URN_SERVICE_URI_T | URN_NENA_SERVICE_URI_T

datatype sip_protos =
    PROTO_NONE | PROTO_UDP | PROTO_TCP | PROTO_TLS | PROTO_SCTP | PROTO_WS | PROTO_WSS | PROTO_BIN
  | PROTO_HEP_UDP | PROTO_HEP_TCP | PROTO_SMPP | PROTO_OTHER

datatype pfield =
    F_transport | F_ttl | F_user_param | F_maddr | F_method | F_lr | F_r2 | F_gr
  | F_pn_provider | F_pn_prid | F_pn_param | F_pn_purr

record sip_uri =
  u_user :: str
  u_passwd :: str
  u_host :: str
  u_port :: str
  u_params :: str
  u_headers :: str
  u_port_no :: "16 word"
  u_proto :: sip_protos
  u_type :: uri_type
  u_par :: "pfield \<Rightarrow> str"
  u_par_val :: "pfield \<Rightarrow> str"
  u_name :: "str list"
  u_val :: "str list"
  u_params_no :: nat

definition URI_MAX_U_PARAMS :: nat where
  "URI_MAX_U_PARAMS = 10"

definition sip_uri_zero :: sip_uri where
  "sip_uri_zero = \<lparr>u_user = str_null, u_passwd = str_null, u_host = str_null, u_port = str_null, u_params = str_null,
     u_headers = str_null, u_port_no = 0, u_proto = PROTO_NONE, u_type = ERROR_URI_T, u_par = (\<lambda>_. str_null),
     u_par_val = (\<lambda>_. str_null), u_name = replicate URI_MAX_U_PARAMS str_null, u_val = replicate URI_MAX_U_PARAMS str_null,
     u_params_no = 0\<rparr>"

record uri_env =
  ue_empty :: ptr
  ue_addr :: "ptr \<Rightarrow> int"

text \<open>The states, in the groups of the source's \<^verbatim>\<open>enum\<close>.\<close>

datatype pstate =
    PT_T | PT_R | PT_A | PT_N | PT_S | PT_P | PT_O | PT_R2 | PT_T2 | PT_eq
  | PTTL_T2 | PTTL_L | PTTL_eq
  | PU_U | PU_S | PU_E | PU_R | PU_eq
  | PM_M | PM_E | PM_T | PM_H | PM_O | PM_D | PM_eq
  | PMA_A | PMA_D | PMA_D2 | PMA_R | PMA_eq
  | PLR_L | PLR_R_FIN | PLR_eq
  | PG_G | PG_G_FIN | PG_eq
  | PR2_R | PR2_2_FIN | PR2_eq

datatype vstate =
    VU_U | VU_D | VU_P_FIN
  | VT_T | VT_C | VT_P_FIN
  | VTLS_L | VTLS_S_FIN
  | VS_S | VS_C | VS_T | VS_P_FIN
  | VW_W | VW_S | VW_S_FIN | VWS_S_FIN

datatype nstate =
    PN_P | PN_N | PN_dash | PN_P2 | PN_PR
  | PN1_O | PN1_V | PN1_I | PN1_D | PN1_E | PN1_FIN | PN1_eq
  | PN2_I | PN2_D | PN2_eq
  | PN3_A | PN3_R | PN3_A2 | PN3_M | PN3_eq
  | PN4_U | PN4_R | PN4_R2 | PN4_eq

datatype ustate =
    URI_INIT | URI_USER | URI_PASSWORD | URI_PASSWORD_ALPHA | URI_HOST | URI_HOST_P | URI_HOST6_P | URI_HOST6_END | URI_PORT
  | URI_PARAM | URI_PARAM_P | URI_PARAM_VAL_P | URI_VAL_P | URI_HEADERS
  | Par pstate | Val vstate | Pn nstate

datatype uri_error =
    Error_too_short | Error_bad_char | Error_bad_host | Error_bad_port | Error_bad_uri | Error_headers | Error_bug

text \<open>The local variables.\<close>

record uvars =
  uv_state :: ustate
  uv_s :: ptr
  uv_b :: "ptr option"
  uv_v :: "ptr option"
  uv_param :: "pfield option"
  uv_param_val :: "pfield option"
  uv_port_no :: "32 word"
  uv_pass :: "ptr option"
  uv_found_user :: bool
  uv_error_headers :: bool
  uv_uri :: sip_uri

type_synonym uact = "(uri_error, uvars) act option"

section \<open>The macros\<close>

definition upd_uri :: "(sip_uri \<Rightarrow> sip_uri) \<Rightarrow> uvars \<Rightarrow> uvars" where
  "upd_uri f s = s\<lparr>uv_uri := f (uv_uri s)\<rparr>"

definition case_port :: "char \<Rightarrow> 32 word \<Rightarrow> 32 word" where
  "case_port c n = n * 10 + of_nat (digit_val c)"

definition still_at_user :: "ptr \<Rightarrow> uvars \<Rightarrow> uact" where
  "still_at_user p s =
     (if \<not> uv_found_user s then do {
        us \<leftarrow> str_s (u_host (uv_uri s));
        let user = (case uv_pass s of Some q \<Rightarrow> mk_str us q | None \<Rightarrow> mk_str us p);
        let passwd = (case uv_pass s of Some q \<Rightarrow> mk_str (q + 1) p | None \<Rightarrow> str_null);
        let uri = sip_uri_zero\<lparr>u_type := u_type (uv_uri s), u_user := user, u_passwd := passwd\<rparr>;
        Some (Next p (s\<lparr>uv_uri := uri, uv_s := p + 1, uv_found_user := True, uv_error_headers := False, uv_state := URI_HOST\<rparr>)) }
      else Some (Goto Error_bad_char p s))"

text \<open>\<^verbatim>\<open>check_host_end\<close> with the code that follows it in the \<^verbatim>\<open>switch\<close>.\<close>

definition check_host_end :: "ptr \<Rightarrow> char \<Rightarrow> uvars \<Rightarrow> uact \<Rightarrow> uact" where
  "check_host_end p c s k =
     (let s' = upd_uri (\<lambda>u. u\<lparr>u_host := mk_str (uv_s s) p\<rparr>) s in
      if c = CHR '':'' then Some (Next p (s'\<lparr>uv_state := URI_PORT, uv_s := p + 1\<rparr>))
      else if c = CHR '';'' then Some (Next p (s'\<lparr>uv_state := URI_PARAM, uv_s := p + 1\<rparr>))
      else if c = CHR ''?'' then Some (Next p (s'\<lparr>uv_state := URI_HEADERS, uv_s := p + 1\<rparr>))
      else if c \<in> {CHR ''&'', CHR ''@''} then Some (Goto Error_bad_char p s)
      else k)"

text \<open>Differences and comparisons of pointers that may be \<^verbatim>\<open>NULL\<close>.\<close>

definition pdiff :: "uri_env \<Rightarrow> ptr \<Rightarrow> ptr option \<Rightarrow> int" where
  "pdiff E p b = (case b of Some q \<Rightarrow> int p - int q | None \<Rightarrow> ue_addr E p)"

definition pgt :: "ptr option \<Rightarrow> ptr option \<Rightarrow> bool" where
  "pgt v b = (case v of None \<Rightarrow> False | Some y \<Rightarrow> (case b of None \<Rightarrow> True | Some x \<Rightarrow> x < y))"

definition param_set :: "uri_env \<Rightarrow> ptr \<Rightarrow> uvars \<Rightarrow> uvars option" where
  "param_set E p s = do {
     f \<leftarrow> uv_param s;
     g \<leftarrow> uv_param_val s;
     Some (upd_uri (\<lambda>u. u\<lparr>u_par := (u_par u)(f := \<lparr>str_s = uv_b s, str_len = pdiff E p (uv_b s)\<rparr>),
                          u_par_val := (u_par_val u)(g := \<lparr>str_s = uv_v s, str_len = pdiff E p (uv_v s)\<rparr>)\<rparr>) s) }"

definition u_param_set :: "uri_env \<Rightarrow> ptr \<Rightarrow> uvars \<Rightarrow> uvars" where
  "u_param_set E p s =
     (let u = uv_uri s; n = u_params_no u in
      if n < URI_MAX_U_PARAMS then
        upd_uri (\<lambda>u.
          (case uv_v s of
             Some v \<Rightarrow>
               (if pgt (uv_v s) (uv_b s) then
                  u\<lparr>u_name := (u_name u)[n := \<lparr>str_s = uv_b s, str_len = pdiff E v (uv_b s) - 1\<rparr>],
                    u_val := (if p > v then (u_val u)[n := mk_str v p] else u_val u), u_params_no := n + 1\<rparr>
                else u\<lparr>u_name := (u_name u)[n := \<lparr>str_s = uv_b s, str_len = pdiff E p (uv_b s)\<rparr>], u_params_no := n + 1\<rparr>)
           | None \<Rightarrow> u\<lparr>u_name := (u_name u)[n := \<lparr>str_s = uv_b s, str_len = pdiff E p (uv_b s)\<rparr>], u_params_no := n + 1\<rparr>)) s
      else s)"

definition no_pass :: "uvars \<Rightarrow> uvars" where
  "no_pass s = (if uv_pass s \<noteq> None then s\<lparr>uv_found_user := True, uv_pass := None\<rparr> else s)"

definition semicolon_case :: "uvars \<Rightarrow> uvars" where
  "semicolon_case s = (no_pass s)\<lparr>uv_state := URI_PARAM\<rparr>"

definition question_case :: "ptr \<Rightarrow> uvars \<Rightarrow> uvars" where
  "question_case p s =
     no_pass ((upd_uri (\<lambda>u. u\<lparr>u_params := mk_str (uv_s s) p\<rparr>) s)\<lparr>uv_state := URI_HEADERS, uv_s := p + 1\<rparr>)"

definition maybe_pass :: "ptr \<Rightarrow> uvars \<Rightarrow> uvars" where
  "maybe_pass p s =
     (if \<not> uv_found_user s then
        (if uv_pass s \<noteq> None then s\<lparr>uv_found_user := True, uv_pass := None\<rparr> else s\<lparr>uv_pass := Some p\<rparr>)
      else s)"

definition colon_case :: "ptr \<Rightarrow> uvars \<Rightarrow> uvars" where
  "colon_case p s = (maybe_pass p s)\<lparr>uv_state := URI_PARAM_P\<rparr>"

text \<open>
  The shared cases of the parameter states; \<open>f\<close> is what follows \<^verbatim>\<open>semicolon_case\<close> and \<^verbatim>\<open>question_case\<close> before the \<^verbatim>\<open>break\<close>,
  \<open>g\<close> what follows \<^verbatim>\<open>colon_case\<close>, \<open>k\<close> the other cases of the \<^verbatim>\<open>switch\<close>.
\<close>

definition common_cases :: "(uvars \<Rightarrow> uvars option) \<Rightarrow> (uvars \<Rightarrow> uvars) \<Rightarrow> ptr \<Rightarrow> char \<Rightarrow> uvars \<Rightarrow> uact \<Rightarrow> uact" where
  "common_cases f g p c s k =
     (if c = CHR ''@'' then still_at_user p s
      else if c = CHR '';'' then map_option (Next p) (f (semicolon_case s))
      else if c = CHR ''?'' then map_option (Next p) (f (question_case p s))
      else if c = CHR '':'' then Some (Next p (g (colon_case p s)))
      else k)"

definition param_common_cases :: "ptr \<Rightarrow> char \<Rightarrow> uvars \<Rightarrow> uact \<Rightarrow> uact" where
  "param_common_cases = common_cases Some (\<lambda>s. s)"

definition u_param_common_cases :: "uri_env \<Rightarrow> ptr \<Rightarrow> char \<Rightarrow> uvars \<Rightarrow> uact \<Rightarrow> uact" where
  "u_param_common_cases E p = common_cases (\<lambda>s. Some (u_param_set E p s)) (\<lambda>s. s) p"

definition value_common_cases :: "uri_env \<Rightarrow> ptr \<Rightarrow> char \<Rightarrow> uvars \<Rightarrow> uact \<Rightarrow> uact" where
  "value_common_cases E p = common_cases (param_set E p) (\<lambda>s. s\<lparr>uv_state := URI_VAL_P\<rparr>) p"

definition goto_state :: "ustate \<Rightarrow> ptr \<Rightarrow> uvars \<Rightarrow> uact" where
  "goto_state st p s = Some (Next p (s\<lparr>uv_state := st\<rparr>))"

text \<open>The letters that lead on are given with their next states; \<open>ci c x\<close>: \<^verbatim>\<open>c\<close> is the letter \<open>x\<close> in either case.\<close>

definition ci :: "char \<Rightarrow> char \<Rightarrow> bool" where
  "ci c x \<longleftrightarrow> tolower_c c = x"

definition param_switch :: "uri_env \<Rightarrow> char \<Rightarrow> ustate \<Rightarrow> ptr \<Rightarrow> char \<Rightarrow> uvars \<Rightarrow> uact" where
  "param_switch E x nx p c s =
     (if ci c x then goto_state nx p s else u_param_common_cases E p c s (goto_state URI_PARAM_P p s))"

definition param_switch1 :: "char \<Rightarrow> ustate \<Rightarrow> ptr \<Rightarrow> char \<Rightarrow> uvars \<Rightarrow> uact" where
  "param_switch1 x nx p c s =
     (if c = x then goto_state nx p s else param_common_cases p c s (goto_state URI_PARAM_P p s))"

definition param_xswitch1 :: "char \<Rightarrow> ustate \<Rightarrow> ptr \<Rightarrow> char \<Rightarrow> uvars \<Rightarrow> uact" where
  "param_xswitch1 x nx p c s = (if c = x then goto_state nx p s else Some (Goto Error_bad_char p s))"

definition param_switch_big :: "uri_env \<Rightarrow> char \<Rightarrow> char \<Rightarrow> ustate \<Rightarrow> ustate \<Rightarrow> ptr \<Rightarrow> char \<Rightarrow> uvars \<Rightarrow> uact" where
  "param_switch_big E x y nx ny p c s =
     (if ci c x then goto_state nx p s else if ci c y then goto_state ny p s
      else u_param_common_cases E p c s (goto_state URI_PARAM_P p s))"

definition param_switch_bigger ::
  "uri_env \<Rightarrow> char \<Rightarrow> char \<Rightarrow> char \<Rightarrow> ustate \<Rightarrow> ustate \<Rightarrow> ustate \<Rightarrow> ptr \<Rightarrow> char \<Rightarrow> uvars \<Rightarrow> uact" where
  "param_switch_bigger E x y z nx ny nz p c s =
     (if ci c x then goto_state nx p s else if ci c y then goto_state ny p s else if ci c z then goto_state nz p s
      else u_param_common_cases E p c s (goto_state URI_PARAM_P p s))"

definition value_switch :: "uri_env \<Rightarrow> char \<Rightarrow> ustate \<Rightarrow> ptr \<Rightarrow> char \<Rightarrow> uvars \<Rightarrow> uact" where
  "value_switch E x nx p c s =
     (if ci c x then goto_state nx p s else value_common_cases E p c s (goto_state URI_VAL_P p s))"

definition value_switch_big :: "uri_env \<Rightarrow> char \<Rightarrow> char \<Rightarrow> ustate \<Rightarrow> ustate \<Rightarrow> ptr \<Rightarrow> char \<Rightarrow> uvars \<Rightarrow> uact" where
  "value_switch_big E x y nx ny p c s =
     (if ci c x then goto_state nx p s else if ci c y then goto_state ny p s
      else value_common_cases E p c s (goto_state URI_VAL_P p s))"

definition set_proto :: "sip_protos \<Rightarrow> uvars \<Rightarrow> uvars" where
  "set_proto pr = upd_uri (\<lambda>u. u\<lparr>u_proto := pr\<rparr>)"

definition transport_fin :: "uri_env \<Rightarrow> sip_protos \<Rightarrow> ptr \<Rightarrow> char \<Rightarrow> uvars \<Rightarrow> uact" where
  "transport_fin E pr p c s =
     common_cases (\<lambda>s. map_option (set_proto pr) (param_set E p s)) (\<lambda>s. s\<lparr>uv_state := URI_VAL_P\<rparr>) p c s
       (goto_state URI_VAL_P p s)"

text \<open>The states after \<^verbatim>\<open>=\<close>, and the end of the parameters that need no value.\<close>

definition param_eq :: "pfield \<Rightarrow> ptr \<Rightarrow> char \<Rightarrow> uvars \<Rightarrow> uact" where
  "param_eq f p c s0 =
     (let s = s0\<lparr>uv_param := Some f, uv_param_val := Some f\<rparr>
      in param_common_cases p c s (Some (Next p (s\<lparr>uv_v := Some p, uv_state := URI_VAL_P\<rparr>))))"

definition transport_eq :: "ptr \<Rightarrow> char \<Rightarrow> uvars \<Rightarrow> uact" where
  "transport_eq p c s0 =
     (let s = set_proto PROTO_OTHER (s0\<lparr>uv_param := Some F_transport, uv_param_val := Some F_transport\<rparr>);
          v = (\<lambda>st. Some (Next p (s\<lparr>uv_v := Some p, uv_state := st\<rparr>)))
      in param_common_cases p c s
           (if ci c CHR ''u'' then v (Val VU_U)
            else if ci c CHR ''t'' then v (Val VT_T)
            else if ci c CHR ''s'' then v (Val VS_S)
            else if ci c CHR ''w'' then v (Val VW_W)
            else v URI_VAL_P))"

definition set_flag :: "uri_env \<Rightarrow> pfield \<Rightarrow> ptr \<Rightarrow> uvars \<Rightarrow> uvars" where
  "set_flag E f p s = upd_uri (\<lambda>u. u\<lparr>u_par := (u_par u)(f := \<lparr>str_s = uv_b s, str_len = pdiff E p (uv_b s)\<rparr>)\<rparr>) s"

definition flag_fin :: "uri_env \<Rightarrow> pfield \<Rightarrow> ustate \<Rightarrow> ptr \<Rightarrow> char \<Rightarrow> uvars \<Rightarrow> uact" where
  "flag_fin E f st_eq p c s =
     (if c = CHR ''='' then goto_state st_eq p s
      else common_cases (\<lambda>s. Some (set_flag E f p s)) (\<lambda>s. s) p c s (goto_state URI_PARAM_P p s))"

section \<open>The states\<close>

definition uri_init :: "ptr \<Rightarrow> char \<Rightarrow> uvars \<Rightarrow> uact" where
  "uri_init p c s =
     (if c = CHR ''['' then Some (Next p (s\<lparr>uv_state := URI_HOST6_P, uv_s := p\<rparr>))
      else if c \<in> {CHR '']'', CHR '':'', CHR ''@''} then Some (Goto Error_bad_char p s)
      else goto_state URI_USER p s)"

definition uri_user :: "ptr \<Rightarrow> char \<Rightarrow> uvars \<Rightarrow> uact" where
  "uri_user p c s =
     (let x = mk_str (uv_s s) p in
      if c = CHR ''@'' then
        Some (Next p ((upd_uri (\<lambda>u. u\<lparr>u_user := x\<rparr>) s)\<lparr>uv_state := URI_HOST, uv_found_user := True, uv_s := p + 1\<rparr>))
      else if c = CHR '':'' then Some (Next p ((upd_uri (\<lambda>u. u\<lparr>u_user := x\<rparr>) s)\<lparr>uv_state := URI_PASSWORD, uv_s := p + 1\<rparr>))
      else if c = CHR '';'' then Some (Next p ((upd_uri (\<lambda>u. u\<lparr>u_host := x\<rparr>) s)\<lparr>uv_state := URI_PARAM, uv_s := p + 1\<rparr>))
      else if c = CHR ''?'' then Some (Next p ((upd_uri (\<lambda>u. u\<lparr>u_host := x\<rparr>) s)\<lparr>uv_state := URI_HEADERS, uv_s := p + 1\<rparr>))
      else if c \<in> {CHR ''['', CHR '']''} then Some (Goto Error_bad_char p s)
      else Some (Next p s))"

text \<open>"upps this is the port": the user is the host, and what looked like a password is the port.\<close>

definition set_port :: "ptr \<Rightarrow> uvars \<Rightarrow> uvars" where
  "set_port p s = upd_uri (\<lambda>u. u\<lparr>u_port := mk_str (uv_s s) p, u_port_no := ucast (uv_port_no s)\<rparr>) s"

definition user_is_host :: "uvars \<Rightarrow> uvars" where
  "user_is_host = upd_uri (\<lambda>u. u\<lparr>u_host := u_user u, u_user := str_null\<rparr>)"

definition uri_password :: "ptr \<Rightarrow> char \<Rightarrow> uvars \<Rightarrow> uact" where
  "uri_password p c s =
     (if c = CHR ''@'' then
        Some (Next p ((upd_uri (\<lambda>u. u\<lparr>u_passwd := mk_str (uv_s s) p\<rparr>) s)
          \<lparr>uv_port_no := 0, uv_state := URI_HOST, uv_found_user := True, uv_s := p + 1\<rparr>))
      else if c = CHR '';'' then
        Some (Next p ((user_is_host (set_port p s))\<lparr>uv_state := URI_PARAM, uv_found_user := True, uv_s := p + 1\<rparr>))
      else if c = CHR ''?'' then
        Some (Next p ((user_is_host (set_port p s))\<lparr>uv_state := URI_HEADERS, uv_found_user := True, uv_s := p + 1\<rparr>))
      else if is_digit c then Some (Next p (s\<lparr>uv_port_no := case_port c (uv_port_no s)\<rparr>))
      else if c \<in> {CHR ''['', CHR '']'', CHR '':''} then Some (Goto Error_bad_char p s)
      else Some (Next p (s\<lparr>uv_port_no := 0, uv_state := URI_PASSWORD_ALPHA\<rparr>)))"

definition uri_password_alpha :: "ptr \<Rightarrow> char \<Rightarrow> uvars \<Rightarrow> uact" where
  "uri_password_alpha p c s =
     (if c = CHR ''@'' then
        Some (Next p ((upd_uri (\<lambda>u. u\<lparr>u_passwd := mk_str (uv_s s) p\<rparr>) s)\<lparr>uv_state := URI_HOST, uv_found_user := True, uv_s := p + 1\<rparr>))
      else if c \<in> {CHR '';'', CHR ''?''} then Some (Goto Error_bad_port p s)
      else if c \<in> {CHR ''['', CHR '']'', CHR '':''} then Some (Goto Error_bad_char p s)
      else Some (Next p s))"

definition uri_host :: "ptr \<Rightarrow> char \<Rightarrow> uvars \<Rightarrow> uact" where
  "uri_host p c s =
     (if c = CHR ''['' then goto_state URI_HOST6_P p s
      else if c \<in> {CHR '':'', CHR '';'', CHR ''?'', CHR ''&'', CHR ''@''} then Some (Goto Error_bad_host p s)
      else goto_state URI_HOST_P p s)"

definition uri_host6_p :: "ptr \<Rightarrow> char \<Rightarrow> uvars \<Rightarrow> uact" where
  "uri_host6_p p c s =
     (if c = CHR '']'' then goto_state URI_HOST6_END p s
      else if c \<in> {CHR ''['', CHR ''&'', CHR ''@'', CHR '';'', CHR ''?''} then Some (Goto Error_bad_host p s)
      else Some (Next p s))"

definition uri_port :: "ptr \<Rightarrow> char \<Rightarrow> uvars \<Rightarrow> uact" where
  "uri_port p c s =
     (if c = CHR '';'' then Some (Next p ((set_port p s)\<lparr>uv_state := URI_PARAM, uv_s := p + 1\<rparr>))
      else if c = CHR ''?'' then Some (Next p ((set_port p s)\<lparr>uv_state := URI_HEADERS, uv_s := p + 1\<rparr>))
      else if is_digit c then Some (Next p (s\<lparr>uv_port_no := case_port c (uv_port_no s)\<rparr>))
      else Some (Goto Error_bad_port p s))"

definition uri_param :: "ptr \<Rightarrow> char \<Rightarrow> uvars \<Rightarrow> uact" where
  "uri_param p c s =
     (let k = (\<lambda>st. Some (Next p (s\<lparr>uv_b := Some p, uv_state := st\<rparr>)))
      in param_common_cases p c s
           (if ci c CHR ''t'' then k (Par PT_T)
            else if ci c CHR ''u'' then k (Par PU_U)
            else if ci c CHR ''m'' then k (Par PM_M)
            else if ci c CHR ''l'' then k (Par PLR_L)
            else if ci c CHR ''g'' then k (Par PG_G)
            else if ci c CHR ''r'' then k (Par PR2_R)
            else if ci c CHR ''p'' then k (Pn PN_P)
            else k URI_PARAM_P))"

definition uri_param_p :: "uri_env \<Rightarrow> ptr \<Rightarrow> char \<Rightarrow> uvars \<Rightarrow> uact" where
  "uri_param_p E p c s =
     u_param_common_cases E p c s
       (if c = CHR ''='' then Some (Next p (s\<lparr>uv_v := Some (p + 1), uv_state := URI_PARAM_VAL_P\<rparr>)) else Some (Next p s))"

definition par_step :: "uri_env \<Rightarrow> pstate \<Rightarrow> ptr \<Rightarrow> char \<Rightarrow> uvars \<Rightarrow> uact" where
  "par_step E st = (case st of
       PT_T \<Rightarrow> param_switch_big E CHR ''r'' CHR ''t'' (Par PT_R) (Par PTTL_T2)
     | PT_R \<Rightarrow> param_switch E CHR ''a'' (Par PT_A)
     | PT_A \<Rightarrow> param_switch E CHR ''n'' (Par PT_N)
     | PT_N \<Rightarrow> param_switch E CHR ''s'' (Par PT_S)
     | PT_S \<Rightarrow> param_switch E CHR ''p'' (Par PT_P)
     | PT_P \<Rightarrow> param_switch E CHR ''o'' (Par PT_O)
     | PT_O \<Rightarrow> param_switch E CHR ''r'' (Par PT_R2)
     | PT_R2 \<Rightarrow> param_switch E CHR ''t'' (Par PT_T2)
     | PT_T2 \<Rightarrow> param_switch1 CHR ''='' (Par PT_eq)
     | PT_eq \<Rightarrow> transport_eq
     | PTTL_T2 \<Rightarrow> param_switch E CHR ''l'' (Par PTTL_L)
     | PTTL_L \<Rightarrow> param_switch1 CHR ''='' (Par PTTL_eq)
     | PTTL_eq \<Rightarrow> param_eq F_ttl
     | PU_U \<Rightarrow> param_switch E CHR ''s'' (Par PU_S)
     | PU_S \<Rightarrow> param_switch E CHR ''e'' (Par PU_E)
     | PU_E \<Rightarrow> param_switch E CHR ''r'' (Par PU_R)
     | PU_R \<Rightarrow> param_switch1 CHR ''='' (Par PU_eq)
     | PU_eq \<Rightarrow> param_eq F_user_param
     | PM_M \<Rightarrow> param_switch_big E CHR ''e'' CHR ''a'' (Par PM_E) (Par PMA_A)
     | PM_E \<Rightarrow> param_switch E CHR ''t'' (Par PM_T)
     | PM_T \<Rightarrow> param_switch E CHR ''h'' (Par PM_H)
     | PM_H \<Rightarrow> param_switch E CHR ''o'' (Par PM_O)
     | PM_O \<Rightarrow> param_switch E CHR ''d'' (Par PM_D)
     | PM_D \<Rightarrow> param_switch1 CHR ''='' (Par PM_eq)
     | PM_eq \<Rightarrow> param_eq F_method
     | PMA_A \<Rightarrow> param_switch E CHR ''d'' (Par PMA_D)
     | PMA_D \<Rightarrow> param_switch E CHR ''d'' (Par PMA_D2)
     | PMA_D2 \<Rightarrow> param_switch E CHR ''r'' (Par PMA_R)
     | PMA_R \<Rightarrow> param_switch1 CHR ''='' (Par PMA_eq)
     | PMA_eq \<Rightarrow> param_eq F_maddr
     | PLR_L \<Rightarrow> param_switch E CHR ''r'' (Par PLR_R_FIN)
     | PLR_R_FIN \<Rightarrow> flag_fin E F_lr (Par PLR_eq)
     | PLR_eq \<Rightarrow> param_eq F_lr
     | PR2_R \<Rightarrow> param_switch1 CHR ''2'' (Par PR2_2_FIN)
     | PR2_2_FIN \<Rightarrow> flag_fin E F_r2 (Par PR2_eq)
     | PR2_eq \<Rightarrow> param_eq F_r2
     | PG_G \<Rightarrow> param_switch E CHR ''r'' (Par PG_G_FIN)
     | PG_G_FIN \<Rightarrow> flag_fin E F_gr (Par PG_eq)
     | PG_eq \<Rightarrow> param_eq F_gr)"

definition val_step :: "uri_env \<Rightarrow> vstate \<Rightarrow> ptr \<Rightarrow> char \<Rightarrow> uvars \<Rightarrow> uact" where
  "val_step E st = (case st of
       VU_U \<Rightarrow> value_switch E CHR ''d'' (Val VU_D)
     | VU_D \<Rightarrow> value_switch E CHR ''p'' (Val VU_P_FIN)
     | VU_P_FIN \<Rightarrow> transport_fin E PROTO_UDP
     | VT_T \<Rightarrow> value_switch_big E CHR ''c'' CHR ''l'' (Val VT_C) (Val VTLS_L)
     | VT_C \<Rightarrow> value_switch E CHR ''p'' (Val VT_P_FIN)
     | VT_P_FIN \<Rightarrow> transport_fin E PROTO_TCP
     | VTLS_L \<Rightarrow> value_switch E CHR ''s'' (Val VTLS_S_FIN)
     | VTLS_S_FIN \<Rightarrow> transport_fin E PROTO_TLS
     | VS_S \<Rightarrow> value_switch E CHR ''c'' (Val VS_C)
     | VS_C \<Rightarrow> value_switch E CHR ''t'' (Val VS_T)
     | VS_T \<Rightarrow> value_switch E CHR ''p'' (Val VS_P_FIN)
     | VS_P_FIN \<Rightarrow> transport_fin E PROTO_SCTP
     | VW_W \<Rightarrow> value_switch E CHR ''s'' (Val VW_S)
     | VW_S \<Rightarrow> (\<lambda>p c s. if ci c CHR ''s'' then goto_state (Val VWS_S_FIN) p s
                       else transport_fin E PROTO_WS p c (s\<lparr>uv_state := Val VW_S_FIN\<rparr>))
     | VW_S_FIN \<Rightarrow> transport_fin E PROTO_WS
     | VWS_S_FIN \<Rightarrow> transport_fin E PROTO_WSS)"

definition pn_step :: "uri_env \<Rightarrow> nstate \<Rightarrow> ptr \<Rightarrow> char \<Rightarrow> uvars \<Rightarrow> uact" where
  "pn_step E st = (case st of
       PN_P \<Rightarrow> param_switch E CHR ''n'' (Pn PN_N)
     | PN_N \<Rightarrow> param_switch1 CHR ''-'' (Pn PN_dash)
     | PN_dash \<Rightarrow> param_switch E CHR ''p'' (Pn PN_P2)
     | PN_P2 \<Rightarrow> param_switch_bigger E CHR ''r'' CHR ''a'' CHR ''u'' (Pn PN_PR) (Pn PN3_A) (Pn PN4_U)
     | PN_PR \<Rightarrow> param_switch_big E CHR ''o'' CHR ''i'' (Pn PN1_O) (Pn PN2_I)
     | PN1_O \<Rightarrow> param_switch E CHR ''v'' (Pn PN1_V)
     | PN1_V \<Rightarrow> param_switch E CHR ''i'' (Pn PN1_I)
     | PN1_I \<Rightarrow> param_switch E CHR ''d'' (Pn PN1_D)
     | PN1_D \<Rightarrow> param_switch E CHR ''e'' (Pn PN1_E)
     | PN1_E \<Rightarrow> param_switch E CHR ''r'' (Pn PN1_FIN)
     | PN1_FIN \<Rightarrow> (\<lambda>p c s. flag_fin E F_pn_provider (Pn PN1_eq) p c (s\<lparr>uv_param := Some F_pn_provider\<rparr>))
     | PN1_eq \<Rightarrow> param_eq F_pn_provider
     | PN2_I \<Rightarrow> param_switch E CHR ''d'' (Pn PN2_D)
     | PN2_D \<Rightarrow> param_xswitch1 CHR ''='' (Pn PN2_eq)
     | PN2_eq \<Rightarrow> param_eq F_pn_prid
     | PN3_A \<Rightarrow> param_switch E CHR ''r'' (Pn PN3_R)
     | PN3_R \<Rightarrow> param_switch E CHR ''a'' (Pn PN3_A2)
     | PN3_A2 \<Rightarrow> param_switch E CHR ''m'' (Pn PN3_M)
     | PN3_M \<Rightarrow> param_xswitch1 CHR ''='' (Pn PN3_eq)
     | PN3_eq \<Rightarrow> param_eq F_pn_param
     | PN4_U \<Rightarrow> param_switch E CHR ''r'' (Pn PN4_R)
     | PN4_R \<Rightarrow> param_switch E CHR ''r'' (Pn PN4_R2)
     | PN4_R2 \<Rightarrow> param_xswitch1 CHR ''='' (Pn PN4_eq)
     | PN4_eq \<Rightarrow> param_eq F_pn_purr)"

definition uri_headers :: "ptr \<Rightarrow> char \<Rightarrow> uvars \<Rightarrow> uact" where
  "uri_headers p c s =
     (if c = CHR ''@'' then still_at_user p s
      else if c = CHR '';'' then
        (if uv_found_user s then Some (Goto Error_bad_char p s)
         else if uv_pass s \<noteq> None then Some (Goto Error_headers p (s\<lparr>uv_error_headers := True\<rparr>))
         else Some (Next p (s\<lparr>uv_error_headers := True\<rparr>)))
      else if c = CHR '':'' then Some (Next p (maybe_pass p s))
      else if c = CHR ''?'' then Some (Next p (no_pass s))
      else Some (Next p s))"

definition uri_step :: "uri_env \<Rightarrow> ptr \<Rightarrow> char \<Rightarrow> uvars \<Rightarrow> uact" where
  "uri_step E p c s = (case uv_state s of
       URI_INIT \<Rightarrow> uri_init p c s
     | URI_USER \<Rightarrow> uri_user p c s
     | URI_PASSWORD \<Rightarrow> uri_password p c s
     | URI_PASSWORD_ALPHA \<Rightarrow> uri_password_alpha p c s
     | URI_HOST \<Rightarrow> uri_host p c s
     | URI_HOST_P \<Rightarrow> check_host_end p c s (Some (Next p s))
     | URI_HOST6_END \<Rightarrow> check_host_end p c s (Some (Goto Error_bad_host p s))
     | URI_HOST6_P \<Rightarrow> uri_host6_p p c s
     | URI_PORT \<Rightarrow> uri_port p c s
     | URI_PARAM \<Rightarrow> uri_param p c s
     | URI_PARAM_P \<Rightarrow> uri_param_p E p c s
     | URI_PARAM_VAL_P \<Rightarrow> u_param_common_cases E p c s (Some (Next p s))
     | URI_VAL_P \<Rightarrow> value_common_cases E p c s (Some (Next p s))
     | Par st \<Rightarrow> par_step E st p c s
     | Val st \<Rightarrow> val_step E st p c s
     | Pn st \<Rightarrow> pn_step E st p c s
     | URI_HEADERS \<Rightarrow> uri_headers p c s)"

section \<open>The end of the URI\<close>

definition set_params :: "ptr \<Rightarrow> uvars \<Rightarrow> uvars" where
  "set_params p s = upd_uri (\<lambda>u. u\<lparr>u_params := mk_str (uv_s s) p\<rparr>) s"

type_synonym uend = "(uri_error \<times> uvars + uvars) option"

definition par_end :: "uri_env \<Rightarrow> ptr \<Rightarrow> pstate \<Rightarrow> uvars \<Rightarrow> uend" where
  "par_end E p st s =
     (if st \<in> {PMA_A, PMA_D, PMA_D2, PMA_R, PMA_eq} then Some (Inl (Error_bug, s))
      else if st \<in> {PLR_R_FIN, PLR_eq} then Some (Inr (set_flag E F_lr p (set_params p s)))
      else if st \<in> {PR2_2_FIN, PR2_eq} then Some (Inr (set_flag E F_r2 p (set_params p s)))
      else if st \<in> {PG_G_FIN, PG_eq} then Some (Inr (set_flag E F_gr p (set_params p s)))
      else Some (Inr (set_params p s)))"

definition val_end :: "uri_env \<Rightarrow> ptr \<Rightarrow> vstate \<Rightarrow> uvars \<Rightarrow> uend" where
  "val_end E p st s = do {
     s1 \<leftarrow> param_set E p (set_params p s);
     Some (Inr (case st of
         VU_P_FIN \<Rightarrow> set_proto PROTO_UDP s1
       | VT_P_FIN \<Rightarrow> set_proto PROTO_TCP s1
       | VTLS_S_FIN \<Rightarrow> set_proto PROTO_TLS s1
       | VS_P_FIN \<Rightarrow> set_proto PROTO_SCTP s1
       | VW_S \<Rightarrow> set_proto PROTO_WS s1
       | VW_S_FIN \<Rightarrow> set_proto PROTO_WS s1
       | VWS_S_FIN \<Rightarrow> set_proto PROTO_WSS s1
       | _ \<Rightarrow> s1)) }"

definition pn_end :: "uri_env \<Rightarrow> ptr \<Rightarrow> nstate \<Rightarrow> uvars \<Rightarrow> uend" where
  "pn_end E p st s =
     (if st \<in> {PN1_FIN, PN1_eq} then Some (Inr (set_flag E F_pn_provider p (set_params p s)))
      else if st \<in> {PN2_D, PN2_eq, PN3_M, PN3_eq, PN4_R2, PN4_eq} then Some (Inl (Error_bad_uri, s))
      else Some (Inr (set_params p s)))"

definition uri_end :: "uri_env \<Rightarrow> ptr \<Rightarrow> uvars \<Rightarrow> uend" where
  "uri_end E p s =
     (let hosted = upd_uri (\<lambda>u. u\<lparr>u_host := mk_str (uv_s s) p\<rparr>) s in
      case uv_state s of
        URI_INIT \<Rightarrow> Some (Inl (Error_too_short, s))
      | URI_USER \<Rightarrow> if uv_found_user s then Some (Inl (Error_bad_uri, s)) else Some (Inr hosted)
      | URI_PASSWORD \<Rightarrow> if uv_found_user s then Some (Inl (Error_bad_port, s)) else Some (Inr (user_is_host (set_port p s)))
      | URI_PASSWORD_ALPHA \<Rightarrow> Some (Inl (Error_bad_port, s))
      | URI_HOST_P \<Rightarrow> Some (Inr hosted)
      | URI_HOST6_END \<Rightarrow> Some (Inr hosted)
      | URI_HOST \<Rightarrow> Some (Inl (Error_bad_host, s))
      | URI_HOST6_P \<Rightarrow> Some (Inl (Error_bad_host, s))
      | URI_PORT \<Rightarrow> Some (Inr (set_port p s))
      | URI_PARAM \<Rightarrow> Some (Inr (set_params p (u_param_set E p s)))
      | URI_PARAM_P \<Rightarrow> Some (Inr (set_params p (u_param_set E p s)))
      | URI_PARAM_VAL_P \<Rightarrow> Some (Inr (set_params p (u_param_set E p s)))
      | Par st \<Rightarrow> par_end E p st s
      | URI_VAL_P \<Rightarrow> map_option Inr (param_set E p (set_params p s))
      | Val st \<Rightarrow> val_end E p st s
      | URI_HEADERS \<Rightarrow>
          (let s' = upd_uri (\<lambda>u. u\<lparr>u_headers := mk_str (uv_s s) p\<rparr>) s
           in if uv_error_headers s then Some (Inl (Error_headers, s')) else Some (Inr s'))
      | Pn st \<Rightarrow> pn_end E p st s)"

definition fix_type :: "uri_env \<Rightarrow> sip_uri \<Rightarrow> sip_uri option" where
  "fix_type E u = (
     let empty = \<lparr>str_s = Some (ue_empty E), str_len = 0\<rparr> in
     if u_type u \<in> {TEL_URI_T, TELS_URI_T} then Some (u\<lparr>u_user := u_host u, u_host := empty\<rparr>)
     else if u_type u = URN_NENA_SERVICE_URI_T then Some (u\<lparr>u_user := str_null, u_host := empty\<rparr>)
     else if u_type u = ERROR_URI_T then None
     else Some u)"

definition E_BAD_URI :: int where
  "E_BAD_URI = -475"

definition uri_fail :: "sip_uri \<Rightarrow> int \<times> sip_uri" where
  "uri_fail u = (E_BAD_URI, u\<lparr>u_type := ERROR_URI_T\<rparr>)"

text \<open>\<^verbatim>\<open>memcmp(p, lit, strlen(lit)) == 0\<close>; all the bytes have to be readable.\<close>

definition memeq :: "mem \<Rightarrow> ptr \<Rightarrow> char list \<Rightarrow> bool option" where
  "memeq m p l = (if p + length l \<le> length m then Some (seg m p (p + length l) = l) else None)"

abbreviation (input) SIP_SCH :: "32 word" where "SIP_SCH \<equiv> 0x3a706973"
abbreviation (input) SIPS_SCH :: "32 word" where "SIPS_SCH \<equiv> 0x73706973"
abbreviation (input) TEL_SCH :: "32 word" where "TEL_SCH \<equiv> 0x3a6c6574"
abbreviation (input) URN_SERVICE_SCH :: "32 word" where "URN_SERVICE_SCH \<equiv> 0x3a6e7275"

definition URN_SERVICE_STR :: "char list" where
  "URN_SERVICE_STR = '':service:''"

definition URN_NENA_SERVICE_STR :: "char list" where
  "URN_NENA_SERVICE_STR = '':nena:service:''"

text \<open>The scheme: its type and where the rest of the URI begins; \<open>None\<close> inside is \<^verbatim>\<open>goto error_bad_uri\<close>.\<close>

definition uri_scheme :: "mem \<Rightarrow> ptr \<Rightarrow> (uri_type \<times> ptr) option option" where
  "uri_scheme m buf = do {
     w \<leftarrow> READ m buf;
     let scheme = LOWER_DWORD w;
     if scheme = SIP_SCH then Some (Some (SIP_URI_T, buf + 4))
     else if scheme = SIPS_SCH then do {
       c \<leftarrow> rd m (buf + 4);
       Some (if c = CHR '':'' then Some (SIPS_URI_T, buf + 5) else None) }
     else if scheme = TEL_SCH then Some (Some (TEL_URI_T, buf + 4))
     else if scheme = URN_SERVICE_SCH then do {
       a \<leftarrow> memeq m (buf + 3) URN_SERVICE_STR;
       if a then Some (Some (URN_SERVICE_URI_T, buf + 4 + length URN_SERVICE_STR - 1))
       else do {
         b \<leftarrow> memeq m (buf + 3) URN_NENA_SERVICE_STR;
         Some (if b then Some (URN_NENA_SERVICE_URI_T, buf + 4 + length URN_NENA_SERVICE_STR - 1) else None) } }
     else Some None }"

definition uvars_init :: "uri_type \<Rightarrow> ptr \<Rightarrow> uvars" where
  "uvars_init ty p = \<lparr>uv_state = URI_INIT, uv_s = p, uv_b = None, uv_v = None, uv_param = None, uv_param_val = None,
     uv_port_no = 0, uv_pass = None, uv_found_user = False, uv_error_headers = False,
     uv_uri = sip_uri_zero\<lparr>u_type := ty\<rparr>\<rparr>"

definition uri_finish :: "uri_env \<Rightarrow> ptr \<Rightarrow> uvars \<Rightarrow> (int \<times> sip_uri) option" where
  "uri_finish E p s = do {
     r \<leftarrow> uri_end E p s;
     case r of
       Inl (e, s') \<Rightarrow> Some (uri_fail (uv_uri s'))
     | Inr s' \<Rightarrow> (case fix_type E (uv_uri s') of None \<Rightarrow> Some (uri_fail (uv_uri s')) | Some u \<Rightarrow> Some (0, u)) }"

definition parse_uri :: "uri_env \<Rightarrow> mem \<Rightarrow> ptr \<Rightarrow> int \<Rightarrow> (int \<times> sip_uri) option" where
  "parse_uri E m buf len =
     (if len < 5 then Some (uri_fail sip_uri_zero)
      else do {
        sch \<leftarrow> uri_scheme m buf;
        case sch of
          None \<Rightarrow> Some (uri_fail sip_uri_zero)
        | Some (ty, p) \<Rightarrow> do {
            (l, q, s) \<leftarrow> for_chars (uri_step E) m p (buf + nat len) (uvars_init ty p);
            case l of None \<Rightarrow> uri_finish E q s | Some e \<Rightarrow> Some (uri_fail (uv_uri s)) } })"

end
