(* ===== verification/Uri_Safe.thy ===== *)
theory Uri_Safe
  imports Uri
begin

text \<open>
  Safety of \<^verbatim>\<open>parse_uri\<close>: an invariant of its state machine (where the strings of the result, the start pointers and the
  possible password lie, and what each group of states may rely on), one preservation lemma per macro of the code, and from
  them that the function always returns with every string of an accepted URI inside the text it was given.
\<close>

section \<open>Invariant\<close>

definition opt_in :: "ptr \<Rightarrow> ptr \<Rightarrow> ptr option \<Rightarrow> bool" where
  "opt_in a p x \<longleftrightarrow> (\<forall>y. x = Some y \<longrightarrow> a \<le> y \<and> y \<le> p)"

definition uname_ok :: "ptr \<Rightarrow> ptr \<Rightarrow> str \<Rightarrow> bool" where
  "uname_ok a p x \<longleftrightarrow> str_s x = None \<or> str_within a p x"

definition uri_in :: "ptr \<Rightarrow> ptr \<Rightarrow> sip_uri \<Rightarrow> bool" where
  "uri_in a p u \<longleftrightarrow>
     str_within a p (u_user u) \<and> str_within a p (u_passwd u) \<and> str_within a p (u_host u) \<and> str_within a p (u_port u) \<and>
     str_within a p (u_params u) \<and> str_within a p (u_headers u) \<and>
     (\<forall>f. str_within a p (u_par u f)) \<and> (\<forall>f. str_within a p (u_par_val u f)) \<and>
     length (u_name u) = URI_MAX_U_PARAMS \<and> length (u_val u) = URI_MAX_U_PARAMS \<and> u_params_no u \<le> URI_MAX_U_PARAMS \<and>
     list_all (uname_ok a p) (u_name u) \<and> list_all (str_within a p) (u_val u)"

text \<open>The states after a possible host, those of a parameter name that has begun, and those of its value.\<close>

fun after_host :: "ustate \<Rightarrow> bool" where
  "after_host URI_PARAM = True" | "after_host URI_PARAM_P = True" | "after_host URI_PARAM_VAL_P = True"
| "after_host URI_VAL_P = True" | "after_host URI_HEADERS = True" | "after_host (Par _) = True"
| "after_host (Val _) = True" | "after_host (Pn _) = True" | "after_host _ = False"

fun valued :: "ustate \<Rightarrow> bool" where
  "valued URI_VAL_P = True" | "valued (Val _) = True" | "valued _ = False"

fun named :: "ustate \<Rightarrow> bool" where
  "named (Par _) = True" | "named (Pn _) = True" | "named st = valued st"

definition host_ok :: "ptr \<Rightarrow> ptr \<Rightarrow> uvars \<Rightarrow> bool" where
  "host_ok a p s \<longleftrightarrow> (\<not> uv_found_user s \<longrightarrow>
     (if after_host (uv_state s) then
        (\<exists>h. str_s (u_host (uv_uri s)) = Some h \<and> a \<le> h \<and> h \<le> p \<and> (\<forall>q. uv_pass s = Some q \<longrightarrow> h \<le> q \<and> q < p))
      else uv_pass s = None \<and>
        (uv_state s = URI_PORT \<longrightarrow> (\<exists>h. str_s (u_host (uv_uri s)) = Some h \<and> a \<le> h \<and> h \<le> p))))"

definition vars_ok :: "uvars \<Rightarrow> bool" where
  "vars_ok s \<longleftrightarrow> (named (uv_state s) \<longrightarrow> uv_b s \<noteq> None) \<and>
     (valued (uv_state s) \<longrightarrow> uv_v s \<noteq> None \<and> uv_param s \<noteq> None \<and> uv_param_val s \<noteq> None)"

definition uinv :: "ptr \<Rightarrow> ptr \<Rightarrow> uvars \<Rightarrow> bool" where
  "uinv a p s \<longleftrightarrow> a \<le> uv_s s \<and> uv_s s \<le> p \<and> uri_in a p (uv_uri s) \<and> opt_in a p (uv_b s) \<and> opt_in a p (uv_v s) \<and>
     host_ok a p s \<and> vars_ok s \<and> u_type (uv_uri s) \<noteq> ERROR_URI_T"

definition same_vars :: "uvars \<Rightarrow> uvars \<Rightarrow> bool" where
  "same_vars s t \<longleftrightarrow> uv_b t = uv_b s \<and> uv_v t = uv_v s \<and> uv_param t = uv_param s \<and> uv_param_val t = uv_param_val s"

definition ustep_ok :: "ptr \<Rightarrow> ptr \<Rightarrow> uact \<Rightarrow> bool" where
  "ustep_ok a p r \<longleftrightarrow> (\<exists>s. r = Some (Next p s) \<and> uinv a (Suc p) s) \<or> (\<exists>l s. r = Some (Goto l p s))"

subsection \<open>Monotonicity and elementary updates\<close>

lemma opt_in_mono: "opt_in a p x \<Longrightarrow> p \<le> q \<Longrightarrow> opt_in a q x"
  by (auto simp: opt_in_def)

lemma uname_ok_mono: "uname_ok a p x \<Longrightarrow> p \<le> q \<Longrightarrow> uname_ok a q x"
  by (auto simp: uname_ok_def intro: str_within_mono)

lemma uri_in_mono: "uri_in a p u \<Longrightarrow> p \<le> q \<Longrightarrow> uri_in a q u"
  using str_within_mono [of a p _ a q] uname_ok_mono [of a p _ q] by (auto simp: uri_in_def list_all_iff)

definition host_at :: "ptr \<Rightarrow> ptr \<Rightarrow> uvars \<Rightarrow> ptr \<Rightarrow> bool" where
  "host_at a p s h \<longleftrightarrow> str_s (u_host (uv_uri s)) = Some h \<and> a \<le> h \<and> h \<le> p \<and> (\<forall>q. uv_pass s = Some q \<longrightarrow> h \<le> q \<and> q < p)"

lemma host_at_mono: "host_at a p s h \<Longrightarrow> p \<le> q \<Longrightarrow> host_at a q s h"
  unfolding host_at_def by (meson order_trans order_less_le_trans)

lemma host_ok_mono:
  assumes "host_ok a p s" and "p \<le> q"
  shows "host_ok a q s"
proof -
  have "(\<exists>h. host_at a p s h) \<Longrightarrow> (\<exists>h. host_at a q s h)"
    using host_at_mono [OF _ assms(2)] by blast
  with assms show ?thesis
    unfolding host_ok_def host_at_def [symmetric] by (meson order_trans)
qed

lemma uinv_mono: "uinv a p s \<Longrightarrow> p \<le> q \<Longrightarrow> uinv a q s"
  using uri_in_mono [of a p "uv_uri s" q] opt_in_mono [of a p _ q] host_ok_mono [of a p s q]
  by (simp add: uinv_def)

lemma list_all_update: "list_all P xs \<Longrightarrow> P x \<Longrightarrow> list_all P (xs[i := x])"
  by (auto simp: list_all_iff dest!: set_update_subset_insert [THEN subsetD])

lemma uri_in_zero [simp]: "uri_in a p (sip_uri_zero\<lparr>u_type := ty\<rparr>)"
  by (simp add: uri_in_def sip_uri_zero_def list_all_iff uname_ok_def)

lemma uri_in_upd:
  assumes "uri_in a p u" and "a \<le> x" and "x \<le> y" and "y \<le> p"
  shows "uri_in a p (u\<lparr>u_user := mk_str x y\<rparr>)" "uri_in a p (u\<lparr>u_passwd := mk_str x y\<rparr>)"
    "uri_in a p (u\<lparr>u_host := mk_str x y\<rparr>)" "uri_in a p (u\<lparr>u_port := mk_str x y, u_port_no := n\<rparr>)"
    "uri_in a p (u\<lparr>u_params := mk_str x y\<rparr>)" "uri_in a p (u\<lparr>u_headers := mk_str x y\<rparr>)"
  using assms by (simp_all add: uri_in_def)

lemma uri_in_proto [simp]: "uri_in a p (u\<lparr>u_proto := x\<rparr>) = uri_in a p u"
  by (simp add: uri_in_def)

lemma uri_in_user_host: "uri_in a p u \<Longrightarrow> uri_in a p (u\<lparr>u_host := u_user u, u_user := str_null\<rparr>)"
  by (simp add: uri_in_def)

text \<open>A string from a pointer that may be \<^verbatim>\<open>NULL\<close> up to \<open>p\<close>.\<close>

lemma pstr_within:
  assumes "opt_in a p x" and "x \<noteq> None"
  shows "str_within a p \<lparr>str_s = x, str_len = pdiff E p x\<rparr>"
  using assms by (auto simp: opt_in_def pdiff_def str_within_def)

lemma uri_in_par:
  assumes "uri_in a p u" and "str_within a p x"
  shows "uri_in a p (u\<lparr>u_par := (u_par u)(f := x)\<rparr>)"
  using assms by (simp add: uri_in_def)

lemma uri_in_par_val:
  assumes "uri_in a p u" and "str_within a p x" and "str_within a p y"
  shows "uri_in a p (u\<lparr>u_par := (u_par u)(f := x), u_par_val := (u_par_val u)(g := y)\<rparr>)"
  using assms by (simp add: uri_in_def)

text \<open>Moves between states.\<close>

lemma uinv_state:
  assumes "uinv a p s" and "after_host st = after_host (uv_state s) \<and> st \<noteq> URI_PORT" and "named st \<longrightarrow> uv_b s \<noteq> None"
    and "valued st \<longrightarrow> uv_v s \<noteq> None \<and> uv_param s \<noteq> None \<and> uv_param_val s \<noteq> None"
  shows "uinv a p (s\<lparr>uv_state := st\<rparr>)"
  using assms by (simp add: uinv_def host_ok_def vars_ok_def)

lemma ustep_nextI: "uinv a (Suc p) s \<Longrightarrow> ustep_ok a p (Some (Next p s))"
  by (simp add: ustep_ok_def)

lemma ustep_gotoI [simp]: "ustep_ok a p (Some (Goto l p s))"
  by (simp add: ustep_ok_def)

lemma ustep_stay: "uinv a p s \<Longrightarrow> ustep_ok a p (Some (Next p s))"
  by (rule ustep_nextI) (erule uinv_mono, simp)

lemma goto_state_ok:
  assumes "uinv a p s" and "after_host st = after_host (uv_state s) \<and> st \<noteq> URI_PORT" and "named st \<longrightarrow> uv_b s \<noteq> None"
    and "valued st \<longrightarrow> uv_v s \<noteq> None \<and> uv_param s \<noteq> None \<and> uv_param_val s \<noteq> None"
  shows "ustep_ok a p (goto_state st p s)"
  unfolding goto_state_def by (rule ustep_nextI) (rule uinv_mono [OF uinv_state [OF assms]], simp)

subsection \<open>The macros\<close>

lemma still_at_user_ok:
  assumes "uinv a p s" and "after_host (uv_state s)"
  shows "ustep_ok a p (still_at_user p s)"
proof (cases "uv_found_user s")
  case True
  then show ?thesis by (simp add: still_at_user_def)
next
  case False
  then obtain h where h: "str_s (u_host (uv_uri s)) = Some h" "a \<le> h" "h \<le> p" "\<And>q. uv_pass s = Some q \<Longrightarrow> h \<le> q \<and> q < p"
    using assms by (auto simp: uinv_def host_ok_def)
  have z: "uri_in a (Suc p) (sip_uri_zero\<lparr>u_type := ty, u_user := x, u_passwd := y\<rparr>)"
    if "str_within a (Suc p) x" "str_within a (Suc p) y" for ty x y
    using that by (simp add: uri_in_def sip_uri_zero_def list_all_iff uname_ok_def)
  show ?thesis
    using False h assms(1) h(4)
    by (cases "uv_pass s")
      (auto simp: still_at_user_def ustep_ok_def uinv_def host_ok_def vars_ok_def intro!: z elim: opt_in_mono)
qed

lemma no_pass_ok: "uinv a p s \<Longrightarrow> after_host (uv_state s) \<Longrightarrow> uinv a p (no_pass s)"
  by (auto simp: no_pass_def uinv_def host_ok_def vars_ok_def)

lemma no_pass_simps [simp]: "uv_state (no_pass s) = uv_state s" "same_vars t (no_pass s) = same_vars t s"
  by (simp_all add: no_pass_def same_vars_def)

lemma semicolon_case_ok:
  assumes "uinv a p s" and "after_host (uv_state s)"
  shows "uinv a (Suc p) (semicolon_case s)" "same_vars s (semicolon_case s)"
proof -
  have "uinv a p (semicolon_case s)"
    unfolding semicolon_case_def by (rule uinv_state [OF no_pass_ok [OF assms]]) (simp_all add: assms(2))
  then show "uinv a (Suc p) (semicolon_case s)" by (rule uinv_mono) simp
  show "same_vars s (semicolon_case s)" by (simp add: semicolon_case_def no_pass_def same_vars_def)
qed

lemma question_case_ok:
  assumes "uinv a p s" and "after_host (uv_state s)"
  shows "uinv a (Suc p) (question_case p s)" "same_vars s (question_case p s)"
proof -
  let ?t = "(upd_uri (\<lambda>u. u\<lparr>u_params := mk_str (uv_s s) p\<rparr>) s)\<lparr>uv_state := URI_HEADERS, uv_s := p + 1\<rparr>"
  have s: "uinv a (Suc p) s" using assms(1) by (rule uinv_mono) simp
  have "uri_in a (Suc p) ((uv_uri s)\<lparr>u_params := mk_str (uv_s s) p\<rparr>)"
    using s assms(1) by (intro uri_in_upd) (auto simp: uinv_def)
  then have "uinv a (Suc p) ?t"
    using s assms by (auto simp: uinv_def upd_uri_def host_ok_def vars_ok_def)
  then show "uinv a (Suc p) (question_case p s)"
    unfolding question_case_def by (rule no_pass_ok) simp
  show "same_vars s (question_case p s)" by (simp add: question_case_def no_pass_def same_vars_def upd_uri_def)
qed

lemma maybe_pass_ok:
  assumes "uinv a p s" and "after_host (uv_state s)"
  shows "uinv a (Suc p) (maybe_pass p s)" "same_vars s (maybe_pass p s)" "uv_state (maybe_pass p s) = uv_state s"
proof -
  have "uinv a (Suc p) s" using assms(1) by (rule uinv_mono) simp
  then show "uinv a (Suc p) (maybe_pass p s)"
    using assms by (auto simp: maybe_pass_def uinv_def host_ok_def vars_ok_def)
qed (simp_all add: maybe_pass_def same_vars_def)

lemma colon_case_ok:
  assumes "uinv a p s" and "after_host (uv_state s)"
  shows "uinv a (Suc p) (colon_case p s)" "same_vars s (colon_case p s)"
  unfolding colon_case_def
  by (rule uinv_state [OF maybe_pass_ok(1) [OF assms]]) (use assms maybe_pass_ok [OF assms] in \<open>simp_all add: same_vars_def\<close>)

lemma common_cases_ok:
  assumes inv: "uinv a p s" and ah: "after_host (uv_state s)"
    and f: "\<And>t. uinv a (Suc p) t \<Longrightarrow> same_vars s t \<Longrightarrow> \<exists>t'. f t = Some t' \<and> uinv a (Suc p) t'"
    and g: "\<And>t. uinv a (Suc p) t \<Longrightarrow> same_vars s t \<Longrightarrow> uv_state t = URI_PARAM_P \<Longrightarrow> uinv a (Suc p) (g t)"
    and k: "ustep_ok a p k"
  shows "ustep_ok a p (common_cases f g p c s k)"
proof -
  have "ustep_ok a p (map_option (Next p) (f t))" if "uinv a (Suc p) t" "same_vars s t" for t
    using f [OF that] by (auto simp: ustep_ok_def)
  moreover have "uinv a (Suc p) (g (colon_case p s))"
    using colon_case_ok [OF inv ah] by (intro g) (simp_all add: colon_case_def)
  ultimately show ?thesis
    using still_at_user_ok [OF inv ah] semicolon_case_ok [OF inv ah] question_case_ok [OF inv ah] k
    by (simp add: common_cases_def ustep_nextI)
qed

lemma param_common_ok:
  assumes "uinv a p s" and "after_host (uv_state s)" and "ustep_ok a p k"
  shows "ustep_ok a p (param_common_cases p c s k)"
  unfolding param_common_cases_def using assms by (intro common_cases_ok) auto

lemma u_param_set_in:
  assumes u: "uri_in a z (uv_uri t)" and b: "opt_in a p (uv_b t)" and v: "opt_in a p (uv_v t)" and "p \<le> z"
  shows "uri_in a z (uv_uri (u_param_set E p t))"
proof -
  let ?b = "uv_b t"
  have nm: "uname_ok a z \<lparr>str_s = ?b, str_len = pdiff E p ?b\<rparr>"
    using b \<open>p \<le> z\<close> by (auto simp: uname_ok_def opt_in_def str_within_def pdiff_def split: option.splits)
  have nv: "uname_ok a z \<lparr>str_s = ?b, str_len = pdiff E y ?b - 1\<rparr>" if "uv_v t = Some y" "pgt (uv_v t) ?b" for y
    using b v \<open>p \<le> z\<close> that by (auto simp: uname_ok_def opt_in_def str_within_def pdiff_def pgt_def split: option.splits)
  have vl: "str_within a z (mk_str y p)" if "uv_v t = Some y" "p > y" for y
    using v \<open>p \<le> z\<close> that by (simp add: opt_in_def)
  show ?thesis
    using u nm nv vl by (auto simp: u_param_set_def upd_uri_def Let_def uri_in_def list_all_update split: option.splits)
qed

lemma u_param_set_fields [simp]:
  "u_type (uv_uri (u_param_set E p t)) = u_type (uv_uri t)" "uv_s (u_param_set E p t) = uv_s t"
  "uv_b (u_param_set E p t) = uv_b t" "uv_v (u_param_set E p t) = uv_v t"
  by (auto simp: u_param_set_def upd_uri_def Let_def split: option.splits)

lemma u_param_set_ok:
  assumes "uinv a (Suc p) t" and "opt_in a p (uv_b t)" and "opt_in a p (uv_v t)"
  shows "uinv a (Suc p) (u_param_set E p t)"
proof -
  have "uri_in a (Suc p) (uv_uri (u_param_set E p t))"
    using assms by (intro u_param_set_in) (auto simp: uinv_def)
  moreover have "host_ok a (Suc p) (u_param_set E p t)" "vars_ok (u_param_set E p t)"
    using assms(1) by (auto simp: u_param_set_def upd_uri_def Let_def uinv_def host_ok_def vars_ok_def split: option.splits)
  ultimately show ?thesis
    using assms(1) by (simp add: uinv_def)
qed

lemma u_param_common_ok:
  assumes "uinv a p s" and "after_host (uv_state s)" and "ustep_ok a p k"
  shows "ustep_ok a p (u_param_common_cases E p c s k)"
proof -
  have "opt_in a p (uv_b s)" "opt_in a p (uv_v s)" using assms(1) by (simp_all add: uinv_def)
  then show ?thesis
    unfolding u_param_common_cases_def using assms
    by (intro common_cases_ok) (auto simp: same_vars_def intro: u_param_set_ok)
qed


lemma param_set_ok:
  assumes "uinv a (Suc p) t" and "opt_in a p (uv_b t)" and "opt_in a p (uv_v t)" and "uv_b t \<noteq> None" and "uv_v t \<noteq> None"
    and "uv_param t \<noteq> None" and "uv_param_val t \<noteq> None"
  shows "\<exists>t'. param_set E p t = Some t' \<and> uinv a (Suc p) t' \<and> uinv a (Suc p) (set_proto pr t')"
proof -
  obtain f g where fg: "uv_param t = Some f" "uv_param_val t = Some g" using assms(6,7) by blast
  let ?u = "(uv_uri t)\<lparr>u_par := (u_par (uv_uri t))(f := \<lparr>str_s = uv_b t, str_len = pdiff E p (uv_b t)\<rparr>),
    u_par_val := (u_par_val (uv_uri t))(g := \<lparr>str_s = uv_v t, str_len = pdiff E p (uv_v t)\<rparr>)\<rparr>"
  have "str_within a (Suc p) \<lparr>str_s = uv_b t, str_len = pdiff E p (uv_b t)\<rparr>"
    "str_within a (Suc p) \<lparr>str_s = uv_v t, str_len = pdiff E p (uv_v t)\<rparr>"
    using pstr_within [OF assms(2,4), of E] pstr_within [OF assms(3,5), of E] by (auto elim: str_within_mono)
  then have "uri_in a (Suc p) ?u"
    using assms(1) by (intro uri_in_par_val) (auto simp: uinv_def)
  then have "uinv a (Suc p) (t\<lparr>uv_uri := ?u\<rparr>)" "uinv a (Suc p) (t\<lparr>uv_uri := ?u\<lparr>u_proto := pr\<rparr>\<rparr>)"
    using assms(1) by (simp_all add: uinv_def host_ok_def vars_ok_def)
  then show ?thesis
    using fg by (simp add: param_set_def upd_uri_def set_proto_def)
qed

lemma valuedD:
  assumes "uinv a p s" and "valued (uv_state s)"
  shows "uv_b s \<noteq> None" "uv_v s \<noteq> None" "uv_param s \<noteq> None" "uv_param_val s \<noteq> None" "after_host (uv_state s)"
    "opt_in a p (uv_b s)" "opt_in a p (uv_v s)"
  using assms by (cases "uv_state s"; simp add: uinv_def vars_ok_def)+

lemma value_cases_ok:
  assumes "uinv a p s" and "valued (uv_state s)" and "ustep_ok a p k"
    and f: "\<And>t. f t = param_set E p t \<or> f t = map_option (set_proto pr) (param_set E p t)"
  shows "ustep_ok a p (common_cases f (\<lambda>s. s\<lparr>uv_state := URI_VAL_P\<rparr>) p c s k)"
proof (rule common_cases_ok [OF assms(1) _ _ _ assms(3)])
  note v = valuedD [OF assms(1,2)]
  show "after_host (uv_state s)" by (rule v)
  show "\<exists>t'. f t = Some t' \<and> uinv a (Suc p) t'" if "uinv a (Suc p) t" "same_vars s t" for t
    using param_set_ok [OF that(1), of E pr] v f [of t] that(2) by (auto simp: same_vars_def)
  show "uinv a (Suc p) (t\<lparr>uv_state := URI_VAL_P\<rparr>)" if "uinv a (Suc p) t" "same_vars s t" "uv_state t = URI_PARAM_P" for t
    using that v by (intro uinv_state) (auto simp: same_vars_def)
qed

lemma value_common_ok:
  assumes "uinv a p s" and "valued (uv_state s)" and "ustep_ok a p k"
  shows "ustep_ok a p (value_common_cases E p c s k)"
  unfolding value_common_cases_def by (rule value_cases_ok [where E = E, OF assms]) simp

lemma transport_fin_ok:
  assumes "uinv a p s" and "valued (uv_state s)"
  shows "ustep_ok a p (transport_fin E pr p c s)"
  unfolding transport_fin_def
  using valuedD [OF assms] by (intro value_cases_ok [where E = E and pr = pr, OF assms] goto_state_ok assms) auto

text \<open>The switches on the letters of a name or a value.\<close>

lemma name_goto_ok:
  assumes "uinv a p s" and "named (uv_state s)" and "after_host st" and "\<not> valued st"
  shows "ustep_ok a p (goto_state st p s)"
proof (rule goto_state_ok [OF assms(1)])
  show "after_host st = after_host (uv_state s) \<and> st \<noteq> URI_PORT" using assms(2,3) by (cases "uv_state s") auto
  show "named st \<longrightarrow> uv_b s \<noteq> None" using assms(1,2) by (simp add: uinv_def vars_ok_def)
qed (use assms(4) in simp)

lemma named_after_host: "named st \<Longrightarrow> after_host st"
  by (cases st) auto

lemma param_switch_ok:
  assumes "uinv a p s" and "named (uv_state s)" and "after_host n" and "\<not> valued n"
  shows "ustep_ok a p (param_switch E x n p c s)" "ustep_ok a p (param_switch1 x n p c s)" "ustep_ok a p (param_xswitch1 x n p c s)"
  using name_goto_ok [OF assms] name_goto_ok [OF assms(1,2), of URI_PARAM_P] named_after_host [OF assms(2)]
  by (simp_all add: param_switch_def param_switch1_def param_xswitch1_def assms(1) u_param_common_ok param_common_ok)

lemma param_switch_big_ok:
  assumes "uinv a p s" and "named (uv_state s)" and "after_host n" "\<not> valued n" "after_host n'" "\<not> valued n'" "after_host n''" "\<not> valued n''"
  shows "ustep_ok a p (param_switch_big E x y n n' p c s)" "ustep_ok a p (param_switch_bigger E x y w n n' n'' p c s)"
  using name_goto_ok [OF assms(1,2)] assms(3-) named_after_host [OF assms(2)]
  by (simp_all add: param_switch_big_def param_switch_bigger_def assms(1) u_param_common_ok)

lemma value_switch_ok:
  assumes "uinv a p s" and "valued (uv_state s)" and "valued n" and "valued n'"
  shows "ustep_ok a p (value_switch E x n p c s)" "ustep_ok a p (value_switch_big E x y n n' p c s)"
proof -
  have "ustep_ok a p (goto_state st p s)" if "valued st" for st
    using that valuedD [OF assms(1,2)] by (intro goto_state_ok assms) (cases st; simp)+
  with assms show "ustep_ok a p (value_switch E x n p c s)" "ustep_ok a p (value_switch_big E x y n n' p c s)"
    by (simp_all add: value_switch_def value_switch_big_def value_common_ok)
qed

lemma set_flag_ok:
  assumes "uinv a (Suc p) t" and "opt_in a p (uv_b t)" and "uv_b t \<noteq> None"
  shows "uinv a (Suc p) (set_flag E f p t)"
proof -
  have "str_within a (Suc p) \<lparr>str_s = uv_b t, str_len = pdiff E p (uv_b t)\<rparr>"
    using pstr_within [OF assms(2,3), of E] by (auto elim: str_within_mono)
  then have "uri_in a (Suc p) ((uv_uri t)\<lparr>u_par := (u_par (uv_uri t))(f := \<lparr>str_s = uv_b t, str_len = pdiff E p (uv_b t)\<rparr>)\<rparr>)"
    using assms(1) by (intro uri_in_par) (auto simp: uinv_def)
  then show ?thesis
    using assms(1) by (simp add: set_flag_def upd_uri_def uinv_def host_ok_def vars_ok_def)
qed

lemma namedD: "uinv a p s \<Longrightarrow> named (uv_state s) \<Longrightarrow> uv_b s \<noteq> None \<and> opt_in a p (uv_b s)"
  by (simp add: uinv_def vars_ok_def)

lemma flag_fin_ok:
  assumes "uinv a p s" and "named (uv_state s)" and "after_host n" and "\<not> valued n"
  shows "ustep_ok a p (flag_fin E f n p c s)"
proof -
  have "ustep_ok a p (common_cases (\<lambda>s. Some (set_flag E f p s)) (\<lambda>s. s) p c s (goto_state URI_PARAM_P p s))"
    using assms namedD [OF assms(1,2)] name_goto_ok [OF assms(1,2), of URI_PARAM_P] named_after_host [OF assms(2)]
    by (intro common_cases_ok) (auto simp: same_vars_def intro: set_flag_ok)
  with name_goto_ok [OF assms] show ?thesis by (simp add: flag_fin_def)
qed

lemma value_start_ok:
  assumes "uinv a p s" and "named (uv_state s)" and "valued st" and "uv_param s \<noteq> None" and "uv_param_val s \<noteq> None"
  shows "ustep_ok a p (Some (Next p (s\<lparr>uv_v := Some p, uv_state := st\<rparr>)))"
proof (rule ustep_nextI)
  have "uinv a (Suc p) s" using assms(1) by (rule uinv_mono) simp
  moreover have "after_host st" using assms(3) by (cases st) auto
  moreover have "a \<le> p" using assms(1) by (auto simp: uinv_def)
  ultimately show "uinv a (Suc p) (s\<lparr>uv_v := Some p, uv_state := st\<rparr>)"
    using assms named_after_host [OF assms(2)] namedD [OF assms(1,2)]
    by (auto simp: uinv_def host_ok_def vars_ok_def opt_in_def)
qed

lemma uinv_params:
  assumes "uinv a p s" and "\<not> valued (uv_state s)"
  shows "uinv a p (s\<lparr>uv_param := x\<rparr>)" "uinv a p (s\<lparr>uv_param := x, uv_param_val := y\<rparr>)"
    "uinv a p (set_proto pr (s\<lparr>uv_param := x, uv_param_val := y\<rparr>))"
  using assms by (simp_all add: uinv_def host_ok_def vars_ok_def set_proto_def upd_uri_def)

lemma param_eq_ok:
  assumes "uinv a p s" and "named (uv_state s)" and "\<not> valued (uv_state s)"
  shows "ustep_ok a p (param_eq f p c s)" "ustep_ok a p (transport_eq p c s)"
proof -
  note up = uinv_params [OF assms(1,3)]
  show "ustep_ok a p (param_eq f p c s)"
    unfolding param_eq_def Let_def using assms(2) named_after_host [OF assms(2)]
    by (intro param_common_ok value_start_ok up) auto
  let ?s = "set_proto PROTO_OTHER (s\<lparr>uv_param := Some F_transport, uv_param_val := Some F_transport\<rparr>)"
  have "ustep_ok a p (Some (Next p (?s\<lparr>uv_v := Some p, uv_state := st\<rparr>)))" if "valued st" for st
    using that assms(2) by (intro value_start_ok up) (simp_all add: set_proto_def upd_uri_def)
  then show "ustep_ok a p (transport_eq p c s)"
    unfolding transport_eq_def Let_def using assms(2) named_after_host [OF assms(2)]
    by (intro param_common_ok up) (simp_all add: set_proto_def upd_uri_def)
qed


subsection \<open>The states\<close>

lemmas name_steps = param_switch_ok param_switch_big_ok(1) [where n'' = URI_PARAM] param_switch_big_ok(2) flag_fin_ok param_eq_ok

lemmas value_steps = value_switch_ok(1) [where n' = URI_VAL_P] value_switch_ok(2) transport_fin_ok

lemma par_step_ok:
  assumes "uinv a p s" and "uv_state s = Par st"
  shows "ustep_ok a p (par_step E st p c s)"
proof -
  have nm: "named (uv_state s)" "\<not> valued (uv_state s)" using assms(2) by simp_all
  show ?thesis
    by (cases st) (simp_all add: par_step_def name_steps assms(1) nm)
qed

lemma pn_step_ok:
  assumes "uinv a p s" and "uv_state s = Pn st"
  shows "ustep_ok a p (pn_step E st p c s)"
proof -
  have nm: "named (uv_state s)" "\<not> valued (uv_state s)" using assms(2) by simp_all
  have "uinv a p (s\<lparr>uv_param := Some F_pn_provider\<rparr>)" by (rule uinv_params [OF assms(1) nm(2)])
  then have "ustep_ok a p (flag_fin E F_pn_provider (Pn PN1_eq) p c (s\<lparr>uv_param := Some F_pn_provider\<rparr>))"
    using nm by (intro flag_fin_ok) simp_all
  then show ?thesis
    by (cases st) (simp_all add: pn_step_def name_steps assms(1) nm)
qed

lemma val_step_ok:
  assumes "uinv a p s" and "uv_state s = Val st"
  shows "ustep_ok a p (val_step E st p c s)"
proof -
  have vl: "valued (uv_state s)" using assms(2) by simp
  have st: "uinv a p (s\<lparr>uv_state := Val n\<rparr>)" for n
    using valuedD [OF assms(1) vl] by (intro uinv_state assms) simp_all
  have g: "ustep_ok a p (goto_state (Val n) p s)" for n
    unfolding goto_state_def by (rule ustep_nextI) (rule uinv_mono [OF st], simp)
  show ?thesis
    by (cases st) (simp_all add: val_step_def value_steps assms(1) vl st g)
qed

text \<open>The states before the parameters, where the text since \<^verbatim>\<open>s\<close> becomes a part of the URI.\<close>

lemma part_ok:
  assumes "uinv a p s" and "uri_in a (Suc p) (uv_uri t)" and "u_type (uv_uri t) \<noteq> ERROR_URI_T"
    and "uv_s t = p + 1" and "uv_b t = uv_b s" and "uv_v t = uv_v s" and "\<not> named (uv_state t)"
    and "\<not> uv_found_user t \<longrightarrow> uv_pass t = None \<and>
      (after_host (uv_state t) \<or> uv_state t = URI_PORT \<longrightarrow> (\<exists>h. str_s (u_host (uv_uri t)) = Some h \<and> a \<le> h \<and> h \<le> p))"
  shows "ustep_ok a p (Some (Next p t))"
proof (rule ustep_nextI)
  have "uinv a (Suc p) s" using assms(1) by (rule uinv_mono) simp
  moreover have "\<not> valued (uv_state t)" using assms(7) by (cases "uv_state t") auto
  moreover have "a \<le> p" using assms(1) by (auto simp: uinv_def)
  ultimately show "uinv a (Suc p) t"
    using assms(2-) by (auto simp: uinv_def host_ok_def vars_ok_def)
qed

text \<open>What holds before the host is known.\<close>

lemma before_hostD:
  assumes "uinv a p s" and "\<not> after_host (uv_state s)"
  shows "uri_in a (Suc p) (uv_uri s)" "a \<le> uv_s s" "uv_s s \<le> p" "\<not> uv_found_user s \<Longrightarrow> uv_pass s = None"
    "u_type (uv_uri s) \<noteq> ERROR_URI_T" "a \<le> p" "\<not> named (uv_state s)"
proof -
  show "\<not> named (uv_state s)" using assms(2) named_after_host by blast
qed (use assms uri_in_mono [of a p "uv_uri s" "Suc p"] in \<open>auto simp: uinv_def host_ok_def\<close>)

lemma str_s_mk [simp]: "str_s (mk_str x y) = Some x"
  by (simp add: mk_str_def)

lemma set_port_fields [simp]:
  "uv_s (set_port p s) = uv_s s" "uv_b (set_port p s) = uv_b s" "uv_v (set_port p s) = uv_v s"
  "uv_found_user (set_port p s) = uv_found_user s" "uv_pass (set_port p s) = uv_pass s" "uv_state (set_port p s) = uv_state s"
  "u_type (uv_uri (set_port p s)) = u_type (uv_uri s)" "u_host (uv_uri (set_port p s)) = u_host (uv_uri s)"
  by (simp_all add: set_port_def upd_uri_def)

lemma user_is_host_fields [simp]:
  "uv_s (user_is_host s) = uv_s s" "uv_b (user_is_host s) = uv_b s" "uv_v (user_is_host s) = uv_v s"
  "u_type (uv_uri (user_is_host s)) = u_type (uv_uri s)"
  by (simp_all add: user_is_host_def upd_uri_def)

lemma port_uri_in:
  assumes "uri_in a (Suc p) (uv_uri s)" and "a \<le> uv_s s" and "uv_s s \<le> p"
  shows "uri_in a (Suc p) (uv_uri (set_port p s))" "uri_in a (Suc p) (uv_uri (user_is_host (set_port p s)))"
proof -
  show "uri_in a (Suc p) (uv_uri (set_port p s))"
    using assms by (simp add: set_port_def upd_uri_def uri_in_upd)
  then show "uri_in a (Suc p) (uv_uri (user_is_host (set_port p s)))"
    using uri_in_user_host by (auto simp: user_is_host_def upd_uri_def)
qed

named_theorems uri_steps \<open>the cases of the switch keep the invariant\<close>

lemma uri_init_ok [uri_steps]:
  assumes "uinv a p s" and "uv_state s = URI_INIT"
  shows "ustep_ok a p (uri_init p c s)"
proof -
  have "ustep_ok a p (Some (Next p (s\<lparr>uv_state := URI_HOST6_P, uv_s := p\<rparr>)))"
    using uinv_mono [OF assms(1), of "Suc p"] assms
    by (intro ustep_nextI) (auto simp: uinv_def host_ok_def vars_ok_def)
  then show ?thesis
    using goto_state_ok [OF assms(1), of URI_USER] assms(2) by (simp add: uri_init_def)
qed

lemma uri_user_ok [uri_steps]:
  assumes "uinv a p s" and "uv_state s = URI_USER"
  shows "ustep_ok a p (uri_user p c s)"
proof -
  note d = before_hostD [OF assms(1)] assms(2)
  have "ustep_ok a p (Some (Next p ((upd_uri (\<lambda>u. u\<lparr>u_user := mk_str (uv_s s) p\<rparr>) s)\<lparr>uv_state := st, uv_found_user := True, uv_s := p + 1\<rparr>)))"
    "ustep_ok a p (Some (Next p ((upd_uri (\<lambda>u. u\<lparr>u_user := mk_str (uv_s s) p\<rparr>) s)\<lparr>uv_state := st, uv_s := p + 1\<rparr>)))"
    if "\<not> after_host st" "st \<noteq> URI_PORT" for st
    using d that named_after_host by (intro part_ok [OF assms(1)]; simp add: upd_uri_def uri_in_upd; blast)+
  moreover have "ustep_ok a p (Some (Next p ((upd_uri (\<lambda>u. u\<lparr>u_host := mk_str (uv_s s) p\<rparr>) s)\<lparr>uv_state := st, uv_s := p + 1\<rparr>)))"
    if "\<not> named st" for st
    using d that by (intro part_ok [OF assms(1)]; simp add: upd_uri_def uri_in_upd)
  ultimately show ?thesis
    using ustep_stay [OF assms(1)] by (simp add: uri_user_def Let_def)
qed


lemma uri_passwd_ok:
  assumes "uinv a p s" and "\<not> after_host (uv_state s)" and "\<not> after_host st"
  shows "ustep_ok a p (Some (Next p ((upd_uri (\<lambda>u. u\<lparr>u_passwd := mk_str (uv_s s) p\<rparr>) s)
      \<lparr>uv_port_no := n, uv_state := st, uv_found_user := True, uv_s := p + 1\<rparr>)))"
    "ustep_ok a p (Some (Next p ((upd_uri (\<lambda>u. u\<lparr>u_passwd := mk_str (uv_s s) p\<rparr>) s)\<lparr>uv_state := st, uv_found_user := True, uv_s := p + 1\<rparr>)))"
  using before_hostD [OF assms(1,2)] assms(3) named_after_host
  by (intro part_ok [OF assms(1)]; simp add: upd_uri_def uri_in_upd; blast)+

lemma uinv_port_no [simp]: "uinv a p (s\<lparr>uv_port_no := n\<rparr>) = uinv a p s"
  by (simp add: uinv_def host_ok_def vars_ok_def)

lemma uri_password_ok [uri_steps]:
  assumes "uinv a p s" and "uv_state s = URI_PASSWORD"
  shows "ustep_ok a p (uri_password p c s)"
proof -
  note d = before_hostD [OF assms(1)] assms(2)
  have "ustep_ok a p (Some (Next p ((user_is_host (set_port p s))\<lparr>uv_state := st, uv_found_user := True, uv_s := p + 1\<rparr>)))"
    if "\<not> named st" for st
    using d that by (intro part_ok [OF assms(1)]) (simp_all add: port_uri_in)
  moreover have "ustep_ok a p (Some (Next p (s\<lparr>uv_port_no := n\<rparr>)))" for n
    using uinv_mono [OF assms(1), of "Suc p"] by (intro ustep_nextI) simp
  moreover have "ustep_ok a p (Some (Next p (s\<lparr>uv_port_no := 0, uv_state := URI_PASSWORD_ALPHA\<rparr>)))"
    using uinv_mono [OF assms(1), of "Suc p"] assms(2) by (intro ustep_nextI uinv_state) simp_all
  ultimately show ?thesis
    using uri_passwd_ok(1) [OF assms(1), of URI_HOST 0] assms(2) by (simp add: uri_password_def)
qed

lemma uri_password_alpha_ok [uri_steps]:
  assumes "uinv a p s" and "uv_state s = URI_PASSWORD_ALPHA"
  shows "ustep_ok a p (uri_password_alpha p c s)"
  using uri_passwd_ok(2) [OF assms(1), of URI_HOST] ustep_stay [OF assms(1)] assms(2) by (simp add: uri_password_alpha_def)

lemma uri_host_ok [uri_steps]:
  assumes "uinv a p s"
  shows "uv_state s = URI_HOST \<Longrightarrow> ustep_ok a p (uri_host p c s)" "uv_state s = URI_HOST6_P \<Longrightarrow> ustep_ok a p (uri_host6_p p c s)"
  using goto_state_ok [OF assms, of URI_HOST6_P] goto_state_ok [OF assms, of URI_HOST_P] goto_state_ok [OF assms, of URI_HOST6_END]
    ustep_stay [OF assms] by (simp_all add: uri_host_def uri_host6_p_def)

lemma check_host_end_ok [uri_steps]:
  assumes "uinv a p s" and "\<not> after_host (uv_state s)" and "ustep_ok a p k"
  shows "ustep_ok a p (check_host_end p c s k)"
proof -
  note d = before_hostD [OF assms(1,2)]
  have "ustep_ok a p (Some (Next p ((upd_uri (\<lambda>u. u\<lparr>u_host := mk_str (uv_s s) p\<rparr>) s)\<lparr>uv_state := st, uv_s := p + 1\<rparr>)))"
    if "\<not> named st" for st
    using d that by (intro part_ok [OF assms(1)]; simp add: upd_uri_def uri_in_upd)
  with assms(3) show ?thesis by (simp add: check_host_end_def Let_def)
qed

text \<open>At \<^verbatim>\<open>URI_PORT\<close> the host is known as well.\<close>

lemma uri_port_ok [uri_steps]:
  assumes "uinv a p s" and "uv_state s = URI_PORT"
  shows "ustep_ok a p (uri_port p c s)"
proof -
  have "\<not> uv_found_user s \<longrightarrow> (\<exists>h. str_s (u_host (uv_uri s)) = Some h \<and> a \<le> h \<and> h \<le> p)"
    using assms by (simp add: uinv_def host_ok_def)
  note d = this before_hostD [OF assms(1)] assms(2)
  have "ustep_ok a p (Some (Next p ((set_port p s)\<lparr>uv_state := st, uv_s := p + 1\<rparr>)))" if "\<not> named st" for st
    using d that by (intro part_ok [OF assms(1)]) (simp_all add: port_uri_in)
  moreover have "ustep_ok a p (Some (Next p (s\<lparr>uv_port_no := n\<rparr>)))" for n
    using uinv_mono [OF assms(1), of "Suc p"] by (intro ustep_nextI) simp
  ultimately show ?thesis by (simp add: uri_port_def)
qed

lemma uri_param_ok [uri_steps]:
  assumes "uinv a p s" and "uv_state s = URI_PARAM"
  shows "ustep_ok a p (uri_param p c s)"
proof -
  have "ustep_ok a p (Some (Next p (s\<lparr>uv_b := Some p, uv_state := st\<rparr>)))" if "after_host st" "\<not> valued st" for st
    using that uinv_mono [OF assms(1), of "Suc p"] assms
    by (intro ustep_nextI) (auto simp: uinv_def host_ok_def vars_ok_def opt_in_def)
  then show ?thesis
    unfolding uri_param_def Let_def using assms by (intro param_common_ok) simp_all
qed

lemma uri_param_p_ok [uri_steps]:
  assumes "uinv a p s" and "uv_state s = URI_PARAM_P"
  shows "ustep_ok a p (uri_param_p E p c s)"
proof -
  have "ustep_ok a p (Some (Next p (s\<lparr>uv_v := Some (p + 1), uv_state := URI_PARAM_VAL_P\<rparr>)))"
    using uinv_mono [OF assms(1), of "Suc p"] assms
    by (intro ustep_nextI) (auto simp: uinv_def host_ok_def vars_ok_def opt_in_def)
  then show ?thesis
    unfolding uri_param_p_def using assms ustep_stay [OF assms(1)] by (intro u_param_common_ok) simp_all
qed

lemma uri_headers_ok [uri_steps]:
  assumes "uinv a p s" and "uv_state s = URI_HEADERS"
  shows "ustep_ok a p (uri_headers p c s)"
proof -
  have ah: "after_host (uv_state s)" using assms(2) by simp
  have "ustep_ok a p (Some (Next p (s\<lparr>uv_error_headers := True\<rparr>)))"
    using uinv_mono [OF assms(1), of "Suc p"] by (intro ustep_nextI) (simp add: uinv_def host_ok_def vars_ok_def)
  then show ?thesis
    using still_at_user_ok [OF assms(1) ah] maybe_pass_ok(1) [OF assms(1) ah] ustep_stay [OF no_pass_ok [OF assms(1) ah]]
      ustep_stay [OF assms(1)]
    by (simp add: uri_headers_def ustep_nextI)
qed


lemma uri_step_ok:
  assumes "uinv a p s"
  shows "ustep_ok a p (uri_step E p c s)"
  using assms ustep_stay [OF assms]
  by (cases "uv_state s")
    (simp_all add: uri_step_def uri_steps par_step_ok val_step_ok pn_step_ok u_param_common_ok value_common_ok)

interpretation uril: char_loop "uri_step E" m e "\<lambda>p s. e \<le> length m \<and> uinv a p s \<and> p \<le> max b e" "\<lambda>l q s. True" for E m e a b
proof
  fix p s
  assume p: "p < e" and I: "e \<le> length m \<and> uinv a p s \<and> p \<le> max b e"
  then show "p < length m" by simp
  show "(\<exists>q s'. uri_step E p (m ! p) s = Some (Next q s') \<and> p \<le> q \<and> e \<le> length m \<and> uinv a (Suc q) s' \<and> Suc q \<le> max b e) \<or>
      (\<exists>l q s'. uri_step E p (m ! p) s = Some (Goto l q s') \<and> True)"
    using uri_step_ok [of a p s E "m ! p"] I p by (auto simp: ustep_ok_def)
qed

section \<open>The end of the URI\<close>

lemma uri_in_flag:
  assumes "uri_in a p (uv_uri s)" and "opt_in a p (uv_b s)" and "uv_b s \<noteq> None"
  shows "uri_in a p (uv_uri (set_flag E f p s))"
  using assms pstr_within [OF assms(2,3), of E] by (simp add: set_flag_def upd_uri_def uri_in_par)

lemma uri_in_set_params:
  assumes "uinv a p s"
  shows "uri_in a p (uv_uri (set_params p s))" "uv_b (set_params p s) = uv_b s" "uv_v (set_params p s) = uv_v s"
    "uv_param (set_params p s) = uv_param s" "uv_param_val (set_params p s) = uv_param_val s"
    "u_type (uv_uri (set_params p s)) = u_type (uv_uri s)"
  using assms by (auto simp: set_params_def upd_uri_def uinv_def intro: uri_in_upd)

definition uend_ok :: "ptr \<Rightarrow> ptr \<Rightarrow> uend \<Rightarrow> bool" where
  "uend_ok a p r \<longleftrightarrow> (\<exists>x. r = Some (Inl x)) \<or> (\<exists>s. r = Some (Inr s) \<and> uri_in a p (uv_uri s))"

lemma uend_simps [simp]: "uend_ok a p (Some (Inl x))" "uend_ok a p (Some (Inr s)) = uri_in a p (uv_uri s)"
  by (simp_all add: uend_ok_def)

lemma param_set_in:
  assumes "uri_in a p (uv_uri s)" and "opt_in a p (uv_b s)" and "opt_in a p (uv_v s)" and "uv_b s \<noteq> None" and "uv_v s \<noteq> None"
    and "uv_param s \<noteq> None" and "uv_param_val s \<noteq> None"
  shows "\<exists>s'. param_set E p s = Some s' \<and> uri_in a p (uv_uri s')"
  using assms pstr_within [OF assms(2,4), of E] pstr_within [OF assms(3,5), of E]
  by (auto simp: param_set_def upd_uri_def uri_in_par_val)

lemma uri_in_set_proto [simp]: "uri_in a p (uv_uri (set_proto pr s)) = uri_in a p (uv_uri s)"
  by (simp add: set_proto_def upd_uri_def)

lemma uri_end_ok:
  assumes inv: "uinv a p s"
  shows "uend_ok a p (uri_end E p s)"
proof -
  note sp = uri_in_set_params [OF inv]
  have ob: "opt_in a p (uv_b s)" "opt_in a p (uv_v s)" and u: "uri_in a p (uv_uri s)" "a \<le> uv_s s" "uv_s s \<le> p"
    using inv by (simp_all add: uinv_def)
  have flag: "uri_in a p (uv_uri (set_flag E f p (set_params p s)))" if "named (uv_state s)" for f
    using namedD [OF inv that] sp by (intro uri_in_flag) simp_all
  have ps: "\<exists>s'. param_set E p (set_params p s) = Some s' \<and> uri_in a p (uv_uri s')" if "valued (uv_state s)"
    using valuedD [OF inv that] sp by (intro param_set_in) simp_all
  have up: "uri_in a p (uv_uri (set_params p (u_param_set E p s)))"
    using u_param_set_in [OF u(1) ob order_refl, of E] u by (auto simp: set_params_def upd_uri_def intro: uri_in_upd)
  have port: "uri_in a p (uv_uri (set_port p s))" "uri_in a p (uv_uri (user_is_host (set_port p s)))"
    using uri_in_upd(4) [OF u(1-3) order_refl, of "ucast (uv_port_no s)"]
      uri_in_user_host [OF uri_in_upd(4) [OF u(1-3) order_refl, of "ucast (uv_port_no s)"]]
    by (simp_all add: set_port_def user_is_host_def upd_uri_def)
  have upd: "uri_in a p (uv_uri (upd_uri (\<lambda>u. u\<lparr>u_host := mk_str (uv_s s) p\<rparr>) s))"
    "uri_in a p (uv_uri (upd_uri (\<lambda>u. u\<lparr>u_headers := mk_str (uv_s s) p\<rparr>) s))"
    using u by (auto simp: upd_uri_def intro: uri_in_upd)
  show ?thesis
  proof (cases "uv_state s")
    case (Val st)
    with ps show ?thesis by (auto simp: uri_end_def val_end_def Let_def split: vstate.splits)
  next
    case URI_VAL_P
    with ps show ?thesis by (auto simp: uri_end_def Let_def)
  qed (use flag up port upd sp in \<open>simp_all add: uri_end_def par_end_def pn_end_def Let_def\<close>)
qed

lemma uri_in_fix_type:
  assumes "uri_in a p u" and "fix_type E u = Some u'"
  shows "uri_in a p (u'\<lparr>u_host := str_null\<rparr>) \<and>
    (u_type u \<notin> {TEL_URI_T, TELS_URI_T, URN_NENA_SERVICE_URI_T} \<longrightarrow> u' = u) \<and>
    (u_type u \<in> {TEL_URI_T, TELS_URI_T, URN_NENA_SERVICE_URI_T} \<longrightarrow> u_host u' = \<lparr>str_s = Some (ue_empty E), str_len = 0\<rparr>)"
  using assms by (auto simp: fix_type_def uri_in_def Let_def split: if_splits)


lemma uri_scheme_total:
  assumes "buf + 17 \<le> length m"
  obtains "uri_scheme m buf = Some None"
    | ty p where "uri_scheme m buf = Some (Some (ty, p))" "buf + 4 \<le> p" "ty \<noteq> ERROR_URI_T"
proof -
  have "READ m buf = Some (dword (m ! buf) (m ! (buf + 1)) (m ! (buf + 2)) (m ! (buf + 3)))"
    using assms by (simp add: READ_def)
  moreover have "rd m (buf + 4) = Some (m ! (buf + 4))" using assms by simp
  moreover have "\<exists>x y. memeq m (buf + 3) URN_SERVICE_STR = Some x \<and> memeq m (buf + 3) URN_NENA_SERVICE_STR = Some y"
    using assms by (simp add: memeq_def URN_SERVICE_STR_def URN_NENA_SERVICE_STR_def)
  ultimately have "\<exists>r. uri_scheme m buf = Some r \<and> (\<forall>ty p. r = Some (ty, p) \<longrightarrow> buf + 4 \<le> p \<and> ty \<noteq> ERROR_URI_T)"
    by (auto simp: uri_scheme_def URN_SERVICE_STR_def URN_NENA_SERVICE_STR_def Let_def)
  with that show thesis by (metis option.exhaust prod.exhaust)
qed

text \<open>What \<^verbatim>\<open>parse_uri\<close> promises of the result.\<close>

definition uri_result_ok :: "uri_env \<Rightarrow> ptr \<Rightarrow> ptr \<Rightarrow> int \<times> sip_uri \<Rightarrow> bool" where
  "uri_result_ok E a e r \<longleftrightarrow> (case r of (rc, u) \<Rightarrow>
     (rc = E_BAD_URI \<and> u_type u = ERROR_URI_T) \<or>
     (rc = 0 \<and> u_type u \<noteq> ERROR_URI_T \<and> uri_in a e (u\<lparr>u_host := str_null\<rparr>) \<and>
        (str_within a e (u_host u) \<or> u_host u = \<lparr>str_s = Some (ue_empty E), str_len = 0\<rparr>)))"

lemma uri_fail_ok [simp]: "uri_result_ok E a e (uri_fail u)"
  by (simp add: uri_result_ok_def uri_fail_def)

lemma uri_finish_ok:
  assumes "uinv a p s"
  shows "\<exists>r. uri_finish E p s = Some r \<and> uri_result_ok E a p r"
proof -
  consider x where "uri_end E p s = Some (Inl x)" | t where "uri_end E p s = Some (Inr t)" "uri_in a p (uv_uri t)"
    using uri_end_ok [OF assms, of E] by (auto simp: uend_ok_def)
  then show ?thesis
  proof cases
    case 1
    then show ?thesis by (cases x) (simp add: uri_finish_def)
  next
    case 2
    have "uri_result_ok E a p (0, u)" if "fix_type E (uv_uri t) = Some u" for u
    proof -
      have "u_type u \<noteq> ERROR_URI_T" "str_within a p (u_host (uv_uri t))"
        using that 2(2) by (auto simp: fix_type_def uri_in_def Let_def split: if_splits)
      with uri_in_fix_type [OF 2(2) that] show ?thesis by (auto simp: uri_result_ok_def)
    qed
    with 2 show ?thesis by (cases "fix_type E (uv_uri t)") (simp_all add: uri_finish_def)
  qed
qed

lemma parse_uri_total:
  assumes "buf + nat len \<le> length m" and "buf + 17 \<le> length m"
  shows "\<exists>r. parse_uri E m buf len = Some r \<and> uri_result_ok E (buf + 4) (buf + nat len) r"
proof (cases "len < 5")
  case True
  then show ?thesis by (simp add: parse_uri_def)
next
  case False
  show ?thesis
  proof (rule uri_scheme_total [OF assms(2)])
    assume "uri_scheme m buf = Some None"
    with False show ?thesis by (simp add: parse_uri_def)
  next
    fix ty p
    let ?e = "buf + nat len"
    assume sch: "uri_scheme m buf = Some (Some (ty, p))" "buf + 4 \<le> p" "ty \<noteq> ERROR_URI_T"
    have un: "parse_uri E m buf len = do {
        (l, q, s) \<leftarrow> for_chars (uri_step E) m p ?e (uvars_init ty p);
        case l of None \<Rightarrow> uri_finish E q s | Some er \<Rightarrow> Some (uri_fail (uv_uri s)) }"
      using False sch(1) by (simp add: parse_uri_def)
    show ?thesis
    proof (cases "p \<le> ?e")
      case True
      have "uinv (buf + 4) p (uvars_init ty p)"
        using sch by (simp add: uinv_def uvars_init_def opt_in_def host_ok_def vars_ok_def)
      then have "?e \<le> length m \<and> uinv (buf + 4) p (uvars_init ty p) \<and> p \<le> max 0 ?e"
        using assms(1) True by simp
      from uril.loop_total [OF this, of E] consider
          q s where "for_chars (uri_step E) m p ?e (uvars_init ty p) = Some (None, q, s)" "q = ?e" "uinv (buf + 4) q s"
        | l q s where "for_chars (uri_step E) m p ?e (uvars_init ty p) = Some (Some l, q, s)"
        by fastforce
      then show ?thesis
        using uri_finish_ok un by cases auto
    next
      case False
      then have "for_chars (uri_step E) m p ?e (uvars_init ty p) = Some (None, p, uvars_init ty p)"
        by (subst for_chars.simps) simp
      then show ?thesis
        using un by (simp add: uri_finish_def uri_end_def uvars_init_def Let_def)
    qed
  qed
qed

section \<open>Properties\<close>

text \<open>
  C28: \<^verbatim>\<open>parse_uri\<close> always returns, for every buffer: its loop ends, it never follows a \<^verbatim>\<open>NULL\<close> pointer, and it reads only
  the \<open>len\<close> bytes it is given and the bytes the comparison with the URN prefixes needs. It returns \<open>E_BAD_URI\<close> with the type
  \<open>ERROR_URI_T\<close>, or 0 with a type that is not an error; then the user, password, port, parameters, headers, the twelve known
  parameters and their values, and the values of the unknown parameters all lie inside the URI after its scheme, the
  host does too (or is the literal empty string of a tel URI), there are at most ten unknown parameters and each of their
  names lies inside the URI or has a \<^verbatim>\<open>NULL\<close> pointer.
\<close>

theorem parse_uri_safe:
  assumes "buf + nat len \<le> length m" and "buf + 17 \<le> length m"
  shows "\<exists>r. parse_uri E m buf len = Some r \<and> uri_result_ok E (buf + 4) (buf + nat len) r"
  using assms by (rule parse_uri_total)

theorem parse_uri_safe_witness:
  "\<exists>r. parse_uri \<lparr>ue_empty = 100, ue_addr = int\<rparr> ''sip:bob@example.org;lr'' 0 22 = Some r \<and>
     uri_result_ok \<lparr>ue_empty = 100, ue_addr = int\<rparr> (0 + 4) (0 + nat 22) r"
  by (rule parse_uri_safe) simp_all

end
