(* ===== verification/Uri_Round.thy ===== *)
theory Uri_Round
  imports Uri_Safe Ut
begin

text \<open>
  What \<^verbatim>\<open>parse_uri\<close> computes: the round trip of a printed SIP URI with a user, an optional password, a host, an optional port
  and a list of parameters that the parser does not know, and the inputs on which the function surprises.
\<close>

section \<open>Printed URIs\<close>

definition user_char :: "char \<Rightarrow> bool" where
  "user_char c \<longleftrightarrow> c \<notin> {CHR ''@'', CHR '':'', CHR '';'', CHR ''?'', CHR ''['', CHR '']''}"

definition host_char :: "char \<Rightarrow> bool" where
  "host_char c \<longleftrightarrow> c \<notin> {CHR ''@'', CHR '':'', CHR '';'', CHR ''?'', CHR ''&'', CHR ''[''}"

definition pname_char :: "char \<Rightarrow> bool" where
  "pname_char c \<longleftrightarrow> c \<notin> {CHR ''@'', CHR '':'', CHR '';'', CHR ''?'', CHR ''=''}"

definition pvalue_char :: "char \<Rightarrow> bool" where
  "pvalue_char c \<longleftrightarrow> c \<notin> {CHR ''@'', CHR '':'', CHR '';'', CHR ''?''}"

text \<open>A parameter that is none of the known ones: its name does not begin with one of their letters.\<close>

fun uparam_ok :: "char list \<times> char list option \<Rightarrow> bool" where
  "uparam_ok (n, v) \<longleftrightarrow> n \<noteq> [] \<and> list_all pname_char n \<and> tolower_c (hd n) \<notin> set ''tumlgrp'' \<and>
     (case v of None \<Rightarrow> True | Some w \<Rightarrow> w \<noteq> [] \<and> list_all pvalue_char w)"

fun uparam_text :: "char list \<times> char list option \<Rightarrow> char list" where
  "uparam_text (n, v) = n @ (case v of None \<Rightarrow> [] | Some w \<Rightarrow> ''='' @ w)"

definition uparams_text :: "(char list \<times> char list option) list \<Rightarrow> char list" where
  "uparams_text ps = concat (map (\<lambda>x. '';'' @ uparam_text x) ps)"

text \<open>The effect of one unknown parameter that begins at \<open>p\<close>, and of a list of them.\<close>

definition add_uparam :: "ptr \<Rightarrow> char list \<times> char list option \<Rightarrow> sip_uri \<Rightarrow> sip_uri" where
  "add_uparam p x u = (let k = u_params_no u; q = p + length (fst x) in
     u\<lparr>u_name := (u_name u)[k := mk_str p q],
       u_val := (case snd x of None \<Rightarrow> u_val u | Some w \<Rightarrow> (u_val u)[k := mk_str (q + 1) (q + 1 + length w)]),
       u_params_no := k + 1\<rparr>)"

fun add_uparams :: "ptr \<Rightarrow> (char list \<times> char list option) list \<Rightarrow> sip_uri \<Rightarrow> sip_uri" where
  "add_uparams p [] u = u"
| "add_uparams p (x # xs) u = add_uparams (p + length (uparam_text x) + 1) xs (add_uparam p x u)"

section \<open>One part after the other\<close>

lemma list_seg_all:
  assumes "seg m p q = xs" and "list_all P xs" and "q \<le> length m" and "p \<le> i" and "i < q"
  shows "P (m ! i)"
  using seg_all [of m p q P i] assms by (auto simp: list_all_iff)

lemma seg_first: "seg m p q = x # xs \<Longrightarrow> p < q \<Longrightarrow> q \<le> length m \<Longrightarrow> m ! p = x"
  by (simp add: seg_Cons)

lemma seg_prefix:
  assumes "seg m p q = a @ b"
  shows "seg m p (p + length a) = a"
proof -
  have "length (seg m p q) \<le> q - p" by (simp add: seg_def)
  then have "length a \<le> q - p" using assms by simp
  then have "take (length a) (seg m p q) = take (length a) (drop p m)"
    by (simp add: seg_def min_absorb1)
  with assms show ?thesis by (simp add: seg_def)
qed

lemma run_user:
  assumes "seg m p q = user" and "user \<noteq> []" and "list_all user_char user" and "p < q" and "q \<le> e" and "e \<le> length m"
  shows "for_chars (uri_step E) m p e (uvars_init ty p) = for_chars (uri_step E) m q e ((uvars_init ty p)\<lparr>uv_state := URI_USER\<rparr>)"
proof -
  have u: "user_char (m ! i)" if "p \<le> i" "i < q" for i
    using list_seg_all [OF assms(1,3) _ that] assms(5,6) by simp
  have "for_chars (uri_step E) m p e (uvars_init ty p) = for_chars (uri_step E) m (p + 1) e ((uvars_init ty p)\<lparr>uv_state := URI_USER\<rparr>)"
    using assms u [of p]
    by (intro for_chars_turn) (auto simp: uri_step_def uri_init_def goto_state_def uvars_init_def user_char_def)
  also have "\<dots> = for_chars (uri_step E) m q e ((uvars_init ty p)\<lparr>uv_state := URI_USER\<rparr>)"
    using assms u by (intro for_chars_run) (auto simp: uri_step_def uri_user_def user_char_def Let_def)
  finally show ?thesis .
qed

text \<open>The password, which may look like a port.\<close>

lemma run_password:
  assumes "p \<le> q" and "q < e" and "e \<le> length m" and "\<And>i. p \<le> i \<Longrightarrow> i < q \<Longrightarrow> user_char (m ! i)" and "m ! q = CHR ''@''"
    and "uv_state s = URI_PASSWORD \<or> uv_state s = URI_PASSWORD_ALPHA \<and> uv_port_no s = 0"
  shows "for_chars (uri_step E) m p e s = for_chars (uri_step E) m (q + 1) e
    (s\<lparr>uv_uri := (uv_uri s)\<lparr>u_passwd := mk_str (uv_s s) q\<rparr>, uv_port_no := 0, uv_state := URI_HOST, uv_found_user := True, uv_s := q + 1\<rparr>)"
  using assms
proof (induction "q - p" arbitrary: p s)
  case 0
  then have pq: "p = q" by simp
  show ?case
  proof (cases "uv_state s = URI_PASSWORD")
    case True
    with 0 pq show ?thesis
      by (intro for_chars_turn) (simp_all add: uri_step_def uri_password_def upd_uri_def)
  next
    case False
    then have "s\<lparr>uv_port_no := 0\<rparr> = s" using "0.prems" by simp
    then have "s\<lparr>uv_uri := (uv_uri s)\<lparr>u_passwd := mk_str (uv_s s) q\<rparr>, uv_port_no := 0, uv_state := URI_HOST, uv_found_user := True, uv_s := q + 1\<rparr>
      = s\<lparr>uv_uri := (uv_uri s)\<lparr>u_passwd := mk_str (uv_s s) q\<rparr>, uv_state := URI_HOST, uv_found_user := True, uv_s := q + 1\<rparr>"
      by (cases s) simp
    with False 0 pq show ?thesis
      by (intro for_chars_turn) (simp_all add: uri_step_def uri_password_alpha_def upd_uri_def)
  qed
next
  case (Suc n)
  define s' where "s' = (if uv_state s = URI_PASSWORD then (if is_digit (m ! p) then s\<lparr>uv_port_no := case_port (m ! p) (uv_port_no s)\<rparr>
    else s\<lparr>uv_port_no := 0, uv_state := URI_PASSWORD_ALPHA\<rparr>) else s)"
  have "user_char (m ! p)" using Suc by auto
  then have "for_chars (uri_step E) m p e s = for_chars (uri_step E) m (p + 1) e s'"
    using Suc.prems Suc.hyps(2)
    by (intro for_chars_turn) (auto simp: s'_def uri_step_def uri_password_def uri_password_alpha_def user_char_def)
  also have "\<dots> = for_chars (uri_step E) m (q + 1) e
    (s'\<lparr>uv_uri := (uv_uri s')\<lparr>u_passwd := mk_str (uv_s s') q\<rparr>, uv_port_no := 0, uv_state := URI_HOST, uv_found_user := True, uv_s := q + 1\<rparr>)"
    using Suc.prems Suc.hyps(2) by (intro Suc.hyps(1)) (auto simp: s'_def)
  also have "\<dots> = for_chars (uri_step E) m (q + 1) e
    (s\<lparr>uv_uri := (uv_uri s)\<lparr>u_passwd := mk_str (uv_s s) q\<rparr>, uv_port_no := 0, uv_state := URI_HOST, uv_found_user := True, uv_s := q + 1\<rparr>)"
    by (simp add: s'_def)
  finally show ?case .
qed

lemma run_host:
  assumes "seg m p q = host" and "list_all host_char host" and "p < q" and "q \<le> e" and "e \<le> length m" and "uv_state s = URI_HOST"
  shows "for_chars (uri_step E) m p e s = for_chars (uri_step E) m q e (s\<lparr>uv_state := URI_HOST_P\<rparr>)"
proof -
  have u: "host_char (m ! i)" if "p \<le> i" "i < q" for i
    using list_seg_all [OF assms(1,2) _ that] assms(4,5) by simp
  have "for_chars (uri_step E) m p e s = for_chars (uri_step E) m (p + 1) e (s\<lparr>uv_state := URI_HOST_P\<rparr>)"
    using assms u [of p] by (intro for_chars_turn) (auto simp: uri_step_def uri_host_def goto_state_def host_char_def)
  also have "\<dots> = for_chars (uri_step E) m q e (s\<lparr>uv_state := URI_HOST_P\<rparr>)"
    using assms u by (intro for_chars_run) (auto simp: uri_step_def check_host_end_def host_char_def Let_def)
  finally show ?thesis .
qed

lemma run_port:
  assumes "p \<le> q" and "q \<le> e" and "e \<le> length m" and "\<And>i. p \<le> i \<Longrightarrow> i < q \<Longrightarrow> is_digit (m ! i)" and "uv_state s = URI_PORT"
    and "uv_port_no s = 0"
  shows "for_chars (uri_step E) m p e s = for_chars (uri_step E) m q e (s\<lparr>uv_port_no := of_nat (dec_val (seg m p q))\<rparr>)"
  using assms
proof (induction "q - p" arbitrary: q)
  case 0
  then have "p = q" "s\<lparr>uv_port_no := 0\<rparr> = s" by simp_all
  then show ?case by simp
next
  case (Suc n)
  then have pq: "p < q" by simp
  obtain r where r: "q = Suc r" using pq by (cases q) auto
  have "for_chars (uri_step E) m p e s = for_chars (uri_step E) m r e (s\<lparr>uv_port_no := of_nat (dec_val (seg m p r))\<rparr>)"
    using Suc.prems Suc.hyps(2) r by (intro Suc.hyps(1)) auto
  also have "\<dots> = for_chars (uri_step E) m q e (s\<lparr>uv_port_no := of_nat (dec_val (seg m p q))\<rparr>)"
  proof (rule for_chars_turn)
    have "is_digit (m ! r)" using Suc.prems r pq by simp
    moreover have "m ! r \<notin> {CHR '';'', CHR ''?''}" using calculation by (auto simp: is_digit_def schar_def uchar_def)
    moreover have "seg m p q = seg m p r @ [m ! r]" using seg_snoc [of p q m] pq r Suc.prems by simp
    ultimately show "uri_step E r (m ! r) (s\<lparr>uv_port_no := of_nat (dec_val (seg m p r))\<rparr>)
        = Some (Next r (s\<lparr>uv_port_no := of_nat (dec_val (seg m p q))\<rparr>))"
      using Suc.prems by (simp add: uri_step_def uri_port_def case_port_def mult.commute)
  qed (use Suc.prems r in auto)
  finally show ?case .
qed


text \<open>A parameter, from its first character to the end of its value.\<close>

definition uparam_vars :: "ptr \<Rightarrow> char list \<times> char list option \<Rightarrow> uvars \<Rightarrow> uvars" where
  "uparam_vars p x s = s\<lparr>uv_b := Some p,
     uv_v := (case snd x of None \<Rightarrow> uv_v s | Some w \<Rightarrow> Some (p + length (fst x) + 1)),
     uv_state := (case snd x of None \<Rightarrow> URI_PARAM_P | Some w \<Rightarrow> URI_PARAM_VAL_P)\<rparr>"

lemma run_uparam_name:
  assumes "uv_state s = URI_PARAM" and "seg m p q = n" and "n \<noteq> []" and "list_all pname_char n" and "tolower_c (hd n) \<notin> set ''tumlgrp''"
    and "p < q" and "q \<le> e" and "e \<le> length m"
  shows "for_chars (uri_step E) m p e s = for_chars (uri_step E) m q e (s\<lparr>uv_b := Some p, uv_state := URI_PARAM_P\<rparr>)"
proof -
  have c: "pname_char (m ! i)" if "p \<le> i" "i < q" for i
    using list_seg_all [OF assms(2,4) _ that] assms(7,8) by simp
  have "m ! p = hd n" using assms seg_Cons [of p q m] by auto
  then have "for_chars (uri_step E) m p e s = for_chars (uri_step E) m (p + 1) e (s\<lparr>uv_b := Some p, uv_state := URI_PARAM_P\<rparr>)"
    using assms(1,5-8) c [of p]
    by (intro for_chars_turn) (simp_all add: uri_step_def uri_param_def param_common_cases_def common_cases_def pname_char_def ci_def Let_def)
  also have "\<dots> = for_chars (uri_step E) m q e (s\<lparr>uv_b := Some p, uv_state := URI_PARAM_P\<rparr>)"
    using assms(6-8) c
    by (intro for_chars_run) (simp_all add: uri_step_def uri_param_p_def u_param_common_cases_def common_cases_def pname_char_def)
  finally show ?thesis .
qed

lemma run_uparam:
  assumes "uv_state s = URI_PARAM" and sg: "seg m p q = uparam_text x" and ok: "uparam_ok x" and q: "q = p + length (uparam_text x)"
    and "q \<le> e" and "e \<le> length m"
  shows "for_chars (uri_step E) m p e s = for_chars (uri_step E) m q e (uparam_vars p x s)"
proof (cases x)
  case (Pair n v)
  let ?r = "p + length n"
  let ?s = "s\<lparr>uv_b := Some p, uv_state := URI_PARAM_P\<rparr>"
  have sn: "seg m p ?r = n"
    using sg Pair by (intro seg_prefix [of m p q n "case v of None \<Rightarrow> [] | Some w \<Rightarrow> ''='' @ w"]) simp
  have nm: "for_chars (uri_step E) m p e s = for_chars (uri_step E) m ?r e ?s"
    using ok Pair assms(5,6) q by (intro run_uparam_name [OF assms(1) sn]) auto
  show ?thesis
  proof (cases v)
    case None
    with nm Pair q show ?thesis by (simp add: uparam_vars_def)
  next
    case (Some w)
    then have "seg m p ?r @ seg m ?r q = n @ CHR ''='' # w"
      using sg Pair assms(5,6) q by (simp add: seg_append)
    then have rest: "seg m ?r q = CHR ''='' # w" using sn by simp
    then have eq: "m ! ?r = CHR ''=''" and sw: "seg m (?r + 1) q = w"
      using seg_Cons [of ?r q m] Some Pair assms(5,6) q by auto
    have c: "pvalue_char (m ! i)" if "?r + 1 \<le> i" "i < q" for i
      using list_seg_all [of m "?r + 1" q w pvalue_char i] sw that ok Pair Some assms(5,6) by simp
    let ?t = "?s\<lparr>uv_v := Some (?r + 1), uv_state := URI_PARAM_VAL_P\<rparr>"
    have "for_chars (uri_step E) m ?r e ?s = for_chars (uri_step E) m (?r + 1) e ?t"
      using eq Some Pair assms(5,6) q
      by (intro for_chars_turn) (simp_all add: uri_step_def uri_param_p_def u_param_common_cases_def common_cases_def)
    also have "\<dots> = for_chars (uri_step E) m q e ?t"
      using c assms(5,6) q Some Pair
      by (intro for_chars_run) (simp_all add: uri_step_def u_param_common_cases_def common_cases_def pvalue_char_def)
    finally show ?thesis using nm Some Pair by (simp add: uparam_vars_def)
  qed
qed

text \<open>Recording it.\<close>

lemma record_uparam:
  assumes "uparam_ok x" and "q = p + length (uparam_text x)" and "u_params_no (uv_uri s) < URI_MAX_U_PARAMS"
    and "uv_b s = Some p" and "uv_v s = (case snd x of None \<Rightarrow> v0 | Some w \<Rightarrow> Some (p + length (fst x) + 1))"
    and "\<forall>y. v0 = Some y \<longrightarrow> y \<le> p"
  shows "u_param_set E q s = s\<lparr>uv_uri := add_uparam p x (uv_uri s)\<rparr>"
proof (cases x)
  case (Pair n v)
  show ?thesis
  proof (cases v)
    case None
    then have "\<not> pgt (uv_v s) (uv_b s)" using assms Pair by (auto simp: pgt_def split: option.splits)
    then show ?thesis
      using assms(2-5) None Pair
      by (auto simp: u_param_set_def upd_uri_def add_uparam_def Let_def pdiff_def mk_str_def split: option.splits)
  next
    case (Some w)
    then have "w \<noteq> []" using assms(1) Pair by simp
    then show ?thesis
      using assms(2-5) Some Pair
      by (simp add: u_param_set_def upd_uri_def add_uparam_def Let_def pdiff_def mk_str_def pgt_def)
  qed
qed


text \<open>All parameters, up to the end of the URI.\<close>

lemma run_uparams:
  assumes "list_all uparam_ok (x # xs)" and "seg m p e = uparam_text x @ uparams_text xs"
    and "e = p + length (uparam_text x @ uparams_text xs)" and "e \<le> length m"
    and "uv_state s = URI_PARAM" and "uv_pass s = None" and "\<forall>y. uv_v s = Some y \<longrightarrow> y \<le> p"
    and "u_params_no (uv_uri s) + length (x # xs) \<le> URI_MAX_U_PARAMS"
  shows "\<exists>s' t. for_chars (uri_step E) m p e s = Some (None, e, s') \<and> uri_end E e s' = Some (Inr t) \<and>
    uv_uri t = (add_uparams p (x # xs) (uv_uri s))\<lparr>u_params := mk_str (uv_s s) e\<rparr>"
  using assms
proof (induction xs arbitrary: x p s)
  case Nil
  then have e: "e = p + length (uparam_text x)" by (simp add: uparams_text_def)
  have run: "for_chars (uri_step E) m p e s = for_chars (uri_step E) m e e (uparam_vars p x s)"
    using Nil.prems e by (intro run_uparam) (simp_all add: uparams_text_def)
  have "u_param_set E e (uparam_vars p x s) = (uparam_vars p x s)\<lparr>uv_uri := add_uparam p x (uv_uri s)\<rparr>"
    using Nil.prems e record_uparam [of x e p "uparam_vars p x s" "uv_v s" E] by (simp add: uparam_vars_def)
  then have "uri_end E e (uparam_vars p x s) = Some (Inr (set_params e ((uparam_vars p x s)\<lparr>uv_uri := add_uparam p x (uv_uri s)\<rparr>)))"
    by (cases "snd x") (simp_all add: uri_end_def uparam_vars_def Let_def)
  then show ?case
    using run by (subst (asm) for_chars.simps [of _ _ e e]) (simp add: set_params_def upd_uri_def uparam_vars_def)
next
  case (Cons y ys)
  let ?q = "p + length (uparam_text x)"
  let ?s1 = "uparam_vars p x s"
  let ?s2 = "?s1\<lparr>uv_state := URI_PARAM, uv_uri := add_uparam p x (uv_uri s)\<rparr>"
  have e: "e = ?q + 1 + length (uparam_text y @ uparams_text ys)" using Cons.prems(3) by (simp add: uparams_text_def)
  have sx: "seg m p ?q = uparam_text x" using seg_prefix [OF Cons.prems(2)] .
  have "seg m p ?q @ seg m ?q e = uparam_text x @ CHR '';'' # uparam_text y @ uparams_text ys"
    using Cons.prems(2,4) e seg_append [of p ?q e m] by (simp add: uparams_text_def)
  then have rest: "seg m ?q e = CHR '';'' # uparam_text y @ uparams_text ys" using sx by simp
  then have semi: "m ! ?q = CHR '';''" and tl: "seg m (?q + 1) e = uparam_text y @ uparams_text ys"
    using seg_Cons [of ?q e m] e Cons.prems(4) by auto
  have "for_chars (uri_step E) m p e s = for_chars (uri_step E) m ?q e ?s1"
    using Cons.prems e sx by (intro run_uparam) simp_all
  also have "\<dots> = for_chars (uri_step E) m (?q + 1) e ?s2"
  proof (rule for_chars_turn)
    have "semicolon_case ?s1 = ?s1\<lparr>uv_state := URI_PARAM\<rparr>"
      using Cons.prems(6) by (simp add: semicolon_case_def no_pass_def uparam_vars_def)
    moreover have "u_param_set E ?q (?s1\<lparr>uv_state := URI_PARAM\<rparr>) = ?s2"
      using Cons.prems record_uparam [of x ?q p "?s1\<lparr>uv_state := URI_PARAM\<rparr>" "uv_v s" E] by (simp add: uparam_vars_def)
    ultimately have "u_param_common_cases E ?q CHR '';'' ?s1 k = Some (Next ?q ?s2)" for k
      by (simp add: u_param_common_cases_def common_cases_def)
    then show "uri_step E ?q (m ! ?q) ?s1 = Some (Next ?q ?s2)"
      using semi by (cases "snd x") (simp_all add: uri_step_def uri_param_p_def uparam_vars_def)
  qed (use e Cons.prems(4) in simp_all)
  finally have run: "for_chars (uri_step E) m p e s = for_chars (uri_step E) m (?q + 1) e ?s2" .
  have "\<exists>s' t. for_chars (uri_step E) m (?q + 1) e ?s2 = Some (None, e, s') \<and> uri_end E e s' = Some (Inr t) \<and>
    uv_uri t = (add_uparams (?q + 1) (y # ys) (uv_uri ?s2))\<lparr>u_params := mk_str (uv_s ?s2) e\<rparr>"
  proof (rule Cons.IH)
    show "\<forall>z. uv_v ?s2 = Some z \<longrightarrow> z \<le> ?q + 1"
      using Cons.prems(7) by (cases x; cases "snd x") (auto simp: uparam_vars_def)
  qed (use Cons.prems e tl in \<open>simp_all add: uparam_vars_def add_uparam_def Let_def\<close>)
  then show ?case
    unfolding run by (simp add: uparam_vars_def)
qed


text \<open>The end of the host or of the port, and what follows.\<close>

definition close_host :: "ptr \<Rightarrow> uvars \<Rightarrow> uvars" where
  "close_host q s = (if uv_state s = URI_HOST_P then s\<lparr>uv_uri := (uv_uri s)\<lparr>u_host := mk_str (uv_s s) q\<rparr>\<rparr> else set_port q s)"

definition set_uparams :: "ptr \<Rightarrow> ptr \<Rightarrow> (char list \<times> char list option) list \<Rightarrow> sip_uri \<Rightarrow> sip_uri" where
  "set_uparams p e ps u = (if ps = [] then u else (add_uparams p ps u)\<lparr>u_params := mk_str p e\<rparr>)"

lemma run_end:
  assumes "uv_state s \<in> {URI_HOST_P, URI_PORT}" and "seg m q e = uparams_text ps" and "e = q + length (uparams_text ps)" and "e \<le> length m"
    and "list_all uparam_ok ps" and "uv_pass s = None" and "uv_v s = None" and "u_params_no (uv_uri s) + length ps \<le> URI_MAX_U_PARAMS"
  shows "\<exists>s' t. for_chars (uri_step E) m q e s = Some (None, e, s') \<and> uri_end E e s' = Some (Inr t) \<and>
    uv_uri t = set_uparams (q + 1) e ps (uv_uri (close_host q s))"
proof (cases ps)
  case Nil
  with assms(1,3) show ?thesis
    by (subst for_chars.simps) (auto simp: uparams_text_def uri_end_def close_host_def upd_uri_def set_uparams_def Let_def)
next
  case (Cons x xs)
  let ?s = "(close_host q s)\<lparr>uv_state := URI_PARAM, uv_s := q + 1\<rparr>"
  have ut: "uparams_text ps = CHR '';'' # uparam_text x @ uparams_text xs" using Cons by (simp add: uparams_text_def)
  then have semi: "m ! q = CHR '';''" and tl: "seg m (q + 1) e = uparam_text x @ uparams_text xs"
    using seg_Cons [of q e m] assms(2-4) by auto
  have "for_chars (uri_step E) m q e s = for_chars (uri_step E) m (q + 1) e ?s"
    using assms(1,3,4) ut semi
    by (intro for_chars_turn) (auto simp: uri_step_def check_host_end_def uri_port_def close_host_def upd_uri_def Let_def)
  moreover have "\<exists>s' t. for_chars (uri_step E) m (q + 1) e ?s = Some (None, e, s') \<and> uri_end E e s' = Some (Inr t) \<and>
      uv_uri t = (add_uparams (q + 1) (x # xs) (uv_uri ?s))\<lparr>u_params := mk_str (uv_s ?s) e\<rparr>"
    using assms(3-) ut tl Cons
    by (intro run_uparams) (simp_all add: close_host_def set_port_def upd_uri_def)
  ultimately show ?thesis
    using Cons by (simp add: set_uparams_def)
qed

definition port_text :: "char list option \<Rightarrow> char list" where
  "port_text port = (case port of None \<Rightarrow> [] | Some d \<Rightarrow> '':'' @ d)"

definition host_port :: "ptr \<Rightarrow> char list \<Rightarrow> char list option \<Rightarrow> sip_uri \<Rightarrow> sip_uri" where
  "host_port p host port u = (let q = p + length host in
     case port of None \<Rightarrow> u\<lparr>u_host := mk_str p q\<rparr>
     | Some d \<Rightarrow> u\<lparr>u_host := mk_str p q, u_port := mk_str (q + 1) (q + 1 + length d), u_port_no := of_nat (dec_val d)\<rparr>)"

lemma ucast_of_nat_16: "(ucast (of_nat n :: 32 word) :: 16 word) = of_nat n"
  by (simp add: unsigned_of_nat word_of_nat_eq_iff)

lemma run_host_on:
  assumes "uv_state s = URI_HOST" and "uv_s s = p" and "uv_pass s = None" and "uv_v s = None" and "uv_port_no s = 0"
    and "seg m p e = host @ port_text port @ uparams_text ps" and e: "e = p + length (host @ port_text port @ uparams_text ps)"
    and m: "e \<le> length m" and "host \<noteq> []" and "list_all host_char host" and "\<And>d. port = Some d \<Longrightarrow> list_all is_digit d"
    and "list_all uparam_ok ps" and "u_params_no (uv_uri s) + length ps \<le> URI_MAX_U_PARAMS"
  shows "\<exists>s' t. for_chars (uri_step E) m p e s = Some (None, e, s') \<and> uri_end E e s' = Some (Inr t) \<and>
    uv_uri t = set_uparams (p + length (host @ port_text port) + 1) e ps (host_port p host port (uv_uri s))"
proof -
  let ?q = "p + length host"
  let ?h = "s\<lparr>uv_state := URI_HOST_P\<rparr>"
  have sh: "seg m p ?q = host" using seg_prefix [OF assms(6)] .
  have "seg m p ?q @ seg m ?q e = host @ port_text port @ uparams_text ps"
    using assms(6) e m by (simp add: seg_append)
  then have rest: "seg m ?q e = port_text port @ uparams_text ps" using sh by simp
  have run: "for_chars (uri_step E) m p e s = for_chars (uri_step E) m ?q e ?h"
    using assms(1,9) e m by (intro run_host [OF sh assms(10)]) auto
  show ?thesis
  proof (cases port)
    case None
    have "\<exists>s' t. for_chars (uri_step E) m ?q e ?h = Some (None, e, s') \<and> uri_end E e s' = Some (Inr t) \<and>
        uv_uri t = set_uparams (?q + 1) e ps (uv_uri (close_host ?q ?h))"
      using assms rest None by (intro run_end) (simp_all add: port_text_def)
    then show ?thesis
      using run None assms(2) by (simp add: port_text_def host_port_def close_host_def Let_def)
  next
    case (Some d)
    let ?r = "?q + 1 + length d"
    let ?u = "(uv_uri s)\<lparr>u_host := mk_str p ?q\<rparr>"
    let ?p = "s\<lparr>uv_uri := ?u, uv_state := URI_PORT, uv_s := ?q + 1\<rparr>"
    have r: "seg m ?q e = CHR '':'' # d @ uparams_text ps" using rest Some by (simp add: port_text_def)
    then have col: "m ! ?q = CHR '':''" and tl: "seg m (?q + 1) e = d @ uparams_text ps"
      using seg_Cons [of ?q e m] e m Some by (auto simp: port_text_def)
    have sd: "seg m (?q + 1) ?r = d" using seg_prefix [OF tl] .
    have "seg m (?q + 1) ?r @ seg m ?r e = d @ uparams_text ps"
      using tl e m Some by (simp add: seg_append port_text_def)
    then have su: "seg m ?r e = uparams_text ps" using sd by simp
    have "for_chars (uri_step E) m ?q e ?h = for_chars (uri_step E) m (?q + 1) e ?p"
      using col e m Some assms(2)
      by (intro for_chars_turn) (simp_all add: uri_step_def check_host_end_def upd_uri_def port_text_def Let_def)
    also have "\<dots> = for_chars (uri_step E) m ?r e (?p\<lparr>uv_port_no := of_nat (dec_val d)\<rparr>)"
    proof -
      have "is_digit (m ! i)" if "?q + 1 \<le> i" "i < ?r" for i
        using list_seg_all [OF sd assms(11) [OF Some] _ that] e m Some by (simp add: port_text_def)
      then show ?thesis
        using run_port [of "?q + 1" ?r e m ?p E] sd e m Some assms(5) by (simp add: port_text_def)
    qed
    finally have run2: "for_chars (uri_step E) m p e s = for_chars (uri_step E) m ?r e (?p\<lparr>uv_port_no := of_nat (dec_val d)\<rparr>)"
      using run by simp
    have "\<exists>s' t. for_chars (uri_step E) m ?r e (?p\<lparr>uv_port_no := of_nat (dec_val d)\<rparr>) = Some (None, e, s') \<and>
        uri_end E e s' = Some (Inr t) \<and> uv_uri t = set_uparams (?r + 1) e ps (uv_uri (close_host ?r (?p\<lparr>uv_port_no := of_nat (dec_val d)\<rparr>)))"
      using assms su Some by (intro run_end) (simp_all add: port_text_def)
    then show ?thesis
      using run2 Some by (simp add: port_text_def host_port_def close_host_def set_port_def upd_uri_def ucast_of_nat_16 Let_def add.assoc)
  qed
qed


text \<open>The user and the password.\<close>

definition passwd_text :: "char list option \<Rightarrow> char list" where
  "passwd_text pw = (case pw of None \<Rightarrow> [] | Some w \<Rightarrow> '':'' @ w)"

definition user_passwd :: "ptr \<Rightarrow> char list \<Rightarrow> char list option \<Rightarrow> sip_uri \<Rightarrow> sip_uri" where
  "user_passwd p user pw u = (let q = p + length user in
     case pw of None \<Rightarrow> u\<lparr>u_user := mk_str p q\<rparr>
     | Some w \<Rightarrow> u\<lparr>u_user := mk_str p q, u_passwd := mk_str (q + 1) (q + 1 + length w)\<rparr>)"

lemma run_user_passwd:
  assumes sg: "seg m p e = user @ passwd_text pw @ ''@'' @ rest" and e: "e = p + length (user @ passwd_text pw @ ''@'' @ rest)"
    and m: "e \<le> length m" and "user \<noteq> []" and "list_all user_char user" and "\<And>w. pw = Some w \<Longrightarrow> list_all user_char w"
  shows "\<exists>s. for_chars (uri_step E) m p e (uvars_init ty p) = for_chars (uri_step E) m (p + length (user @ passwd_text pw) + 1) e s \<and>
    uv_state s = URI_HOST \<and> uv_s s = p + length (user @ passwd_text pw) + 1 \<and> uv_pass s = None \<and> uv_v s = None \<and>
    uv_port_no s = 0 \<and> uv_uri s = user_passwd p user pw (sip_uri_zero\<lparr>u_type := ty\<rparr>)"
proof -
  let ?q = "p + length user"
  let ?i = "(uvars_init ty p)\<lparr>uv_state := URI_USER\<rparr>"
  have su: "seg m p ?q = user" using seg_prefix [OF sg] .
  have "seg m p ?q @ seg m ?q e = user @ passwd_text pw @ ''@'' @ rest" using sg e m by (simp add: seg_append)
  then have r1: "seg m ?q e = passwd_text pw @ ''@'' @ rest" using su by simp
  have run: "for_chars (uri_step E) m p e (uvars_init ty p) = for_chars (uri_step E) m ?q e ?i"
    using assms by (intro run_user [OF su]) simp_all
  show ?thesis
  proof (cases pw)
    case None
    then have at: "m ! ?q = CHR ''@''" using r1 seg_Cons [of ?q e m] e m by (simp add: passwd_text_def)
    let ?s = "?i\<lparr>uv_uri := (uv_uri ?i)\<lparr>u_user := mk_str p ?q\<rparr>, uv_state := URI_HOST, uv_found_user := True, uv_s := ?q + 1\<rparr>"
    have "for_chars (uri_step E) m ?q e ?i = for_chars (uri_step E) m (?q + 1) e ?s"
      using at e m None
      by (intro for_chars_turn) (simp_all add: uri_step_def uri_user_def upd_uri_def uvars_init_def passwd_text_def Let_def)
    then show ?thesis
      using run None by (intro exI [of _ ?s]) (simp add: passwd_text_def user_passwd_def uvars_init_def Let_def)
  next
    case (Some w)
    let ?r = "?q + 1 + length w"
    have r2: "seg m ?q e = CHR '':'' # w @ ''@'' @ rest" using r1 Some by (simp add: passwd_text_def)
    then have col: "m ! ?q = CHR '':''" and tl: "seg m (?q + 1) e = w @ ''@'' @ rest"
      using seg_Cons [of ?q e m] e m Some by (auto simp: passwd_text_def)
    have sw: "seg m (?q + 1) ?r = w" using seg_prefix [OF tl] .
    have "seg m (?q + 1) ?r @ seg m ?r e = w @ ''@'' @ rest" using tl e m Some by (simp add: seg_append passwd_text_def)
    then have "seg m ?r e = ''@'' @ rest" using sw by simp
    then have at: "m ! ?r = CHR ''@''" using seg_Cons [of ?r e m] e m Some by (simp add: passwd_text_def)
    have c: "user_char (m ! i)" if "?q + 1 \<le> i" "i < ?r" for i
      using list_seg_all [OF sw assms(6) [OF Some] _ that] e m Some by (simp add: passwd_text_def)
    let ?j = "?i\<lparr>uv_uri := (uv_uri ?i)\<lparr>u_user := mk_str p ?q\<rparr>, uv_state := URI_PASSWORD, uv_s := ?q + 1\<rparr>"
    let ?s = "?j\<lparr>uv_uri := (uv_uri ?j)\<lparr>u_passwd := mk_str (?q + 1) ?r\<rparr>, uv_port_no := 0, uv_state := URI_HOST, uv_found_user := True,
      uv_s := ?r + 1\<rparr>"
    have "for_chars (uri_step E) m ?q e ?i = for_chars (uri_step E) m (?q + 1) e ?j"
      using col e m Some
      by (intro for_chars_turn) (simp_all add: uri_step_def uri_user_def upd_uri_def uvars_init_def passwd_text_def Let_def)
    also have "\<dots> = for_chars (uri_step E) m (?r + 1) e ?s"
      using run_password [of "?q + 1" ?r e m ?j E] c at e m Some by (simp add: passwd_text_def)
    finally show ?thesis
      using run Some by (intro exI [of _ ?s]) (simp add: passwd_text_def user_passwd_def uvars_init_def Let_def add.assoc)
  qed
qed

text \<open>The texts that the lists of unknown parameters denote.\<close>

lemma take_update_snoc: "k < length xs \<Longrightarrow> take (Suc k) (xs[k := x]) = take k xs @ [x]"
  by (simp add: take_Suc_conv_app_nth)

definition val_text :: "char list option \<Rightarrow> char list" where
  "val_text v = (case v of None \<Rightarrow> [] | Some w \<Rightarrow> w)"

definition params_denote :: "mem \<Rightarrow> sip_uri \<Rightarrow> (char list \<times> char list option) list \<Rightarrow> bool" where
  "params_denote m u ps \<longleftrightarrow> u_params_no u = length ps \<and>
     map (str_text m) (take (length ps) (u_name u)) = map fst ps \<and> map (str_text m) (take (length ps) (u_val u)) = map (val_text \<circ> snd) ps"

definition params_room :: "sip_uri \<Rightarrow> bool" where
  "params_room u \<longleftrightarrow> length (u_name u) = URI_MAX_U_PARAMS \<and> length (u_val u) = URI_MAX_U_PARAMS \<and>
     (\<forall>j \<ge> u_params_no u. j < URI_MAX_U_PARAMS \<longrightarrow> u_val u ! j = str_null)"

lemma uparams_text_Cons: "uparams_text (x # xs) = CHR '';'' # uparam_text x @ uparams_text xs"
  by (simp add: uparams_text_def)

lemma add_uparam_text:
  assumes "params_denote m u ps" and "params_room u" and "u_params_no u < URI_MAX_U_PARAMS"
    and sg: "seg m p e = uparam_text x @ r" and e: "e = p + length (uparam_text x @ r)" and m: "e \<le> length m"
  shows "params_denote m (add_uparam p x u) (ps @ [x]) \<and> params_room (add_uparam p x u)"
proof -
  let ?q = "p + length (fst x)"
  have name: "seg m p ?q = fst x"
    using seg_prefix [of m p e "fst x"] sg by (cases x) simp
  have val: "seg m (?q + 1) (?q + 1 + length w) = w" if w: "snd x = Some w" for w
  proof -
    have "seg m p (?q + 1) = fst x @ ''=''" using w sg seg_prefix [of m p e "fst x @ ''=''"] by (cases x) simp
    moreover have "seg m p (?q + 1) @ seg m (?q + 1) e = seg m p e"
      using w e m by (cases x) (simp add: seg_append)
    ultimately have "seg m (?q + 1) e = w @ r" using w sg by (cases x) simp
    then show ?thesis by (rule seg_prefix)
  qed
  show ?thesis
    using assms(1-3) name val
    by (cases "snd x")
      (auto simp: params_denote_def params_room_def add_uparam_def take_update_snoc take_Suc_conv_app_nth val_text_def str_text_null Let_def)
qed

lemma add_uparams_text:
  assumes "params_denote m u ps" and "params_room u" and "u_params_no u + length xs \<le> URI_MAX_U_PARAMS"
    and "seg m p e = uparams_text xs" and "e = p + length (uparams_text xs)" and "e \<le> length m"
  shows "params_denote m (add_uparams (p + 1) xs u) (ps @ xs)"
  using assms
proof (induction xs arbitrary: p u ps)
  case Nil
  then show ?case by simp
next
  case (Cons x xs)
  let ?q = "p + 1 + length (uparam_text x)"
  have tl: "seg m (p + 1) e = uparam_text x @ uparams_text xs"
    using seg_Cons [of p e m] Cons.prems(4-6) by (simp add: uparams_text_Cons)
  have e: "e = p + 1 + length (uparam_text x @ uparams_text xs)" using Cons.prems(5) by (simp add: uparams_text_def)
  have "seg m (p + 1) ?q @ seg m ?q e = seg m (p + 1) e" using e Cons.prems(6) by (intro seg_append) simp_all
  then have rest: "seg m ?q e = uparams_text xs" using tl seg_prefix [OF tl] by simp
  have one: "params_denote m (add_uparam (p + 1) x u) (ps @ [x]) \<and> params_room (add_uparam (p + 1) x u)"
    using Cons.prems e tl by (intro add_uparam_text) auto
  have "params_denote m (add_uparams (?q + 1) xs (add_uparam (p + 1) x u)) ((ps @ [x]) @ xs)"
    using one rest e Cons.prems by (intro Cons.IH) (simp_all add: add_uparam_def Let_def)
  then show ?case by simp
qed

section \<open>The round trip\<close>

definition sip_text :: "char list \<Rightarrow> char list option \<Rightarrow> char list \<Rightarrow> char list option \<Rightarrow> (char list \<times> char list option) list \<Rightarrow> char list" where
  "sip_text user pw host port ps = ''sip:'' @ user @ passwd_text pw @ ''@'' @ host @ port_text port @ uparams_text ps"

text \<open>What the parsed URI says about the text of the buffer.\<close>

definition uri_denotes :: "mem \<Rightarrow> sip_uri \<Rightarrow> char list \<Rightarrow> char list option \<Rightarrow> char list \<Rightarrow> char list option
    \<Rightarrow> (char list \<times> char list option) list \<Rightarrow> bool" where
  "uri_denotes m u user pw host port ps \<longleftrightarrow>
     u_type u = SIP_URI_T \<and> str_text m (u_user u) = user \<and> str_text m (u_passwd u) = val_text pw \<and> str_text m (u_host u) = host \<and>
     str_text m (u_port u) = val_text port \<and> u_port_no u = (case port of None \<Rightarrow> 0 | Some d \<Rightarrow> of_nat (dec_val d)) \<and>
     params_denote m u ps"

lemma seg_after: "seg m p e = a @ b \<Longrightarrow> e = p + length (a @ b) \<Longrightarrow> e \<le> length m \<Longrightarrow> seg m (p + length a) e = b"
  using seg_append [of p "p + length a" e m] seg_prefix [of m p e a b] by simp

lemma add_uparams_other:
  "u_user (add_uparams p xs u) = u_user u \<and> u_passwd (add_uparams p xs u) = u_passwd u \<and> u_host (add_uparams p xs u) = u_host u \<and>
   u_port (add_uparams p xs u) = u_port u \<and> u_port_no (add_uparams p xs u) = u_port_no u \<and> u_type (add_uparams p xs u) = u_type u"
  by (induction xs arbitrary: p u) (simp_all add: add_uparam_def Let_def)

lemma params_denote_other: "params_denote m (u\<lparr>u_params := x\<rparr>) ps = params_denote m u ps"
  by (simp add: params_denote_def)

lemma uri_denotes_fields:
  assumes "seg m p e = user @ passwd_text pw @ ''@'' @ host @ port_text port @ uparams_text ps"
    and "e = p + length (user @ passwd_text pw @ ''@'' @ host @ port_text port @ uparams_text ps)" and "e \<le> length m"
    and "length ps \<le> URI_MAX_U_PARAMS"
  shows "uri_denotes m (set_uparams (p + length (user @ passwd_text pw) + 1 + length (host @ port_text port) + 1) e ps
    (host_port (p + length (user @ passwd_text pw) + 1) host port (user_passwd p user pw (sip_uri_zero\<lparr>u_type := SIP_URI_T\<rparr>))))
    user pw host port ps"
proof -
  let ?h = "p + length (user @ passwd_text pw) + 1"
  let ?q = "?h + length (host @ port_text port)"
  let ?u = "host_port ?h host port (user_passwd p user pw (sip_uri_zero\<lparr>u_type := SIP_URI_T\<rparr>))"
  have s1: "seg m (p + length user) e = passwd_text pw @ ''@'' @ host @ port_text port @ uparams_text ps"
    using assms(1-3) by (intro seg_after) simp_all
  have s2: "seg m ?h e = host @ port_text port @ uparams_text ps"
    using seg_after [of m p e "user @ passwd_text pw @ ''@''" "host @ port_text port @ uparams_text ps"] assms(1-3) by simp
  have s3: "seg m (?h + length host) e = port_text port @ uparams_text ps"
    using s2 assms(2,3) by (intro seg_after) simp_all
  have s4: "seg m ?q e = uparams_text ps"
    using seg_after [of m ?h e "host @ port_text port" "uparams_text ps"] s2 assms(2,3) by simp
  have pw: "seg m (p + length user + 1) (p + length user + 1 + length w) = w" if "pw = Some w" for w
  proof (rule seg_prefix)
    show "seg m (p + length user + 1) e = w @ ''@'' @ host @ port_text port @ uparams_text ps"
      using s1 that assms(2,3) seg_Cons [of "p + length user" e m] by (simp add: passwd_text_def)
  qed
  have port: "seg m (?h + length host + 1) (?h + length host + 1 + length d) = d" if "port = Some d" for d
  proof (rule seg_prefix)
    show "seg m (?h + length host + 1) e = d @ uparams_text ps"
      using s3 that assms(2,3) seg_Cons [of "?h + length host" e m] by (simp add: port_text_def)
  qed
  have base: "uri_denotes m ?u user pw host port []"
    using pw port seg_prefix [OF assms(1)] seg_prefix [OF s2]
    by (cases pw; cases port)
      (simp_all add: uri_denotes_def host_port_def user_passwd_def sip_uri_zero_def params_denote_def str_text_null val_text_def Let_def)
  have room: "params_room ?u" and no: "u_params_no ?u = 0"
    by (cases pw; cases port; simp add: params_room_def host_port_def user_passwd_def sip_uri_zero_def Let_def)+
  have "params_denote m (add_uparams (?q + 1) ps ?u) ([] @ ps)"
    using base room no s4 assms(2-4) by (intro add_uparams_text) (simp_all add: uri_denotes_def)
  then show ?thesis
    using base by (simp add: set_uparams_def uri_denotes_def add_uparams_other params_denote_other)
qed

lemma sip_dword: "LOWER_DWORD (dword CHR ''s'' CHR ''i'' CHR ''p'' CHR '':'') = 0x3a706973"
  by code_simp

lemma uri_scheme_sip: "uri_scheme (pre @ ''sip:'' @ r) (length pre) = Some (Some (SIP_URI_T, length pre + 4))"
  by (simp add: uri_scheme_def READ_def rd_def nth_append sip_dword)

text \<open>
  C27: \<^verbatim>\<open>parse_uri\<close> reads back what a URI prints. For a user and an optional password without delimiters, a host, an optional
  port of decimal digits, and up to ten parameters of names the parser does not know, with or without values, the
  function succeeds on the printed URI wherever it lies in the buffer, and the fields of the result are exactly these
  parts; the port number is the value of the digits modulo 65536.
\<close>

theorem parse_uri_roundtrip:
  assumes "user \<noteq> []" and "list_all user_char user" and "\<And>w. pw = Some w \<Longrightarrow> list_all user_char w"
    and "host \<noteq> []" and "list_all host_char host" and "\<And>d. port = Some d \<Longrightarrow> list_all is_digit d"
    and "list_all uparam_ok ps" and "length ps \<le> URI_MAX_U_PARAMS"
  shows "\<exists>u. parse_uri E (pre @ sip_text user pw host port ps @ post) (length pre) (int (length (sip_text user pw host port ps))) = Some (0, u) \<and>
    uri_denotes (pre @ sip_text user pw host port ps @ post) u user pw host port ps"
proof -
  let ?t = "sip_text user pw host port ps"
  let ?m = "pre @ ?t @ post"
  let ?p = "length pre + 4"
  let ?e = "length pre + length ?t"
  let ?h = "?p + length (user @ passwd_text pw) + 1"
  let ?r = "user @ passwd_text pw @ ''@'' @ host @ port_text port @ uparams_text ps"
  have e: "?e = ?p + length ?r" and m: "?e \<le> length ?m" by (simp_all add: sip_text_def)
  have sg: "seg ?m ?p ?e = ?r"
    using seg_mid [of "pre @ ''sip:''" ?r post] by (simp add: sip_text_def add.assoc numeral_nat)
  have "seg ?m (?p + length (user @ passwd_text pw @ ''@'')) ?e = host @ port_text port @ uparams_text ps"
    by (rule seg_after [OF _ _ m]) (use sg in simp, simp add: sip_text_def)
  then have s2: "seg ?m ?h ?e = host @ port_text port @ uparams_text ps" by simp
  obtain s where s: "for_chars (uri_step E) ?m ?p ?e (uvars_init SIP_URI_T ?p) = for_chars (uri_step E) ?m ?h ?e s"
      "uv_state s = URI_HOST" "uv_s s = ?h" "uv_pass s = None" "uv_v s = None" "uv_port_no s = 0"
      "uv_uri s = user_passwd ?p user pw (sip_uri_zero\<lparr>u_type := SIP_URI_T\<rparr>)"
    using run_user_passwd [OF sg e m assms(1-3), of E SIP_URI_T] by blast
  have no: "u_params_no (uv_uri s) = 0"
    unfolding s(7) by (cases pw) (simp_all add: user_passwd_def sip_uri_zero_def Let_def)
  obtain s' t where t: "for_chars (uri_step E) ?m ?h ?e s = Some (None, ?e, s')" "uri_end E ?e s' = Some (Inr t)"
      "uv_uri t = set_uparams (?h + length (host @ port_text port) + 1) ?e ps (host_port ?h host port (uv_uri s))"
    using run_host_on [OF s(2-6) s2 _ m assms(4-7), of E] no assms(8) e by auto
  have d: "uri_denotes ?m (uv_uri t) user pw host port ps"
    using uri_denotes_fields [OF sg e m assms(8)] t(3) s(7) by simp
  then have "uri_finish E ?e s' = Some (0, uv_uri t)"
    using t(2) by (simp add: uri_finish_def fix_type_def uri_denotes_def)
  moreover have "uri_scheme ?m (length pre) = Some (Some (SIP_URI_T, ?p))"
    using uri_scheme_sip [of pre "?r @ post"] by (simp add: sip_text_def)
  moreover have "5 \<le> length ?t" using assms(1) by (cases user) (simp_all add: sip_text_def)
  ultimately show ?thesis
    using s(1) t(1) d by (simp add: parse_uri_def)
qed

theorem parse_uri_roundtrip_witness:
  "\<exists>u. parse_uri \<lparr>ue_empty = 100, ue_addr = int\<rparr>
      (''<'' @ sip_text ''alice'' (Some ''pw1'') ''example.org'' (Some ''5060'') [(''x'', Some ''1''), (''ob'', None)] @ ''>'') (length ''<'')
      (int (length (sip_text ''alice'' (Some ''pw1'') ''example.org'' (Some ''5060'') [(''x'', Some ''1''), (''ob'', None)]))) = Some (0, u) \<and>
    uri_denotes (''<'' @ sip_text ''alice'' (Some ''pw1'') ''example.org'' (Some ''5060'') [(''x'', Some ''1''), (''ob'', None)] @ ''>'') u
      ''alice'' (Some ''pw1'') ''example.org'' (Some ''5060'') [(''x'', Some ''1''), (''ob'', None)]"
proof (rule parse_uri_roundtrip)
  show "list_all user_char w" if "Some ''pw1'' = Some w" for w
    using that by (auto simp: user_char_def)
  show "list_all is_digit d" if "Some ''5060'' = Some d" for d
  proof -
    have "list_all is_digit ''5060''" by code_simp
    with that show ?thesis by simp
  qed
qed (simp_all, code_simp+)

text \<open>
  inputs on which the state machine surprises. A trailing semicolon is recorded as one more parameter, with a null
  name or with the name and the longer value of the parameter before it; a URI that ends inside the name
  \<^verbatim>\<open>maddr\<close> is rejected although it ends inside \<^verbatim>\<open>method\<close> without complaint; a parameter whose name begins like a known one
  is lost when it comes last, and \<^verbatim>\<open>r\<close> is lost everywhere; a port above 65535 is accepted modulo 65536.
\<close>

definition uri_params_of :: "uri_env \<Rightarrow> char list \<Rightarrow> (int \<times> (char list \<times> char list) list) option" where
  "uri_params_of E t = map_option (\<lambda>(r, u). (r, take (u_params_no u) (zip (map (str_text t) (u_name u)) (map (str_text t) (u_val u)))))
     (parse_uri E t 0 (int (length t)))"

theorem parse_uri_quirks:
  "map_option (\<lambda>(r, u). (r, u_params_no u, u_name u ! 0)) (parse_uri \<lparr>ue_empty = 100, ue_addr = int\<rparr> (''sip:host;'') 0 9) =
     Some (0, 1, \<lparr>str_s = None, str_len = 9\<rparr>) \<and>
   uri_params_of \<lparr>ue_empty = 100, ue_addr = int\<rparr> ''sip:host;a=1;'' = Some (0, [(''a'', ''1''), (''a'', ''1;'')]) \<and>
   uri_params_of \<lparr>ue_empty = 100, ue_addr = int\<rparr> ''sip:host;transport=udp;'' = Some (0, [(''transport'', ''udp;'')]) \<and>
   map_option fst (parse_uri \<lparr>ue_empty = 100, ue_addr = int\<rparr> (''sip:host;maddr'') 0 14) = Some E_BAD_URI \<and>
   map_option fst (parse_uri \<lparr>ue_empty = 100, ue_addr = int\<rparr> (''sip:host;method'') 0 15) = Some 0 \<and>
   uri_params_of \<lparr>ue_empty = 100, ue_addr = int\<rparr> ''sip:host;x;r;tr'' = Some (0, [(''x'', [])]) \<and>
   map_option (\<lambda>(r, u). (r, u_port_no u)) (parse_uri \<lparr>ue_empty = 100, ue_addr = int\<rparr> (''sip:host:70000'') 0 14) = Some (0, 4464)"
  by (intro conjI; code_simp)

end
