(* ===== verification/Nul_Loop.thy ===== *)
theory Nul_Loop
  imports Cmem
begin

text \<open>
  The loop \<^verbatim>\<open>for (; *tmp; tmp++) switch (*tmp) ...\<close> of the state machines that stop at a zero byte and at no end pointer. It is
  the loop \<open>for_chars\<close> over the whole buffer with one more exit, so that a buffer without a zero byte makes the
  loop run out of it (\<open>None\<close>). The locale \<open>nul_loop\<close> is the contract of such a machine: with a zero byte ahead it stops.
\<close>

definition nul_step :: "(ptr \<Rightarrow> char \<Rightarrow> 's \<Rightarrow> ('l, 's) act option) \<Rightarrow> ptr \<Rightarrow> char \<Rightarrow> 's \<Rightarrow> ('l option, 's) act option" where
  "nul_step step p c s = (if c = NUL then Some (Goto None p s)
     else map_option (\<lambda>a. case a of Next q s' \<Rightarrow> Next q s' | Goto l q s' \<Rightarrow> Goto (Some l) q s') (step p c s))"

definition for_nul :: "(ptr \<Rightarrow> char \<Rightarrow> 's \<Rightarrow> ('l, 's) act option) \<Rightarrow> mem \<Rightarrow> ptr \<Rightarrow> 's \<Rightarrow> ('l option \<times> ptr \<times> 's) option" where
  "for_nul step m p s = do {
     (l, q, s') \<leftarrow> for_chars (nul_step step) m p (length m) s;
     x \<leftarrow> l;
     Some (x, q, s') }"

locale nul_loop =
  fixes step :: "ptr \<Rightarrow> char \<Rightarrow> 's \<Rightarrow> ('l, 's) act option"
    and m :: mem and z :: ptr
    and I :: "ptr \<Rightarrow> 's \<Rightarrow> bool"
    and Q :: "'l \<Rightarrow> ptr \<Rightarrow> 's \<Rightarrow> bool"
  assumes nul_step_ok: "z < length m \<Longrightarrow> m ! z = NUL \<Longrightarrow> p < z \<Longrightarrow> m ! p \<noteq> NUL \<Longrightarrow> I p s \<Longrightarrow>
      (\<exists>q s'. step p (m ! p) s = Some (Next q s') \<and> p \<le> q \<and> q < z \<and> I (Suc q) s') \<or>
      (\<exists>l q s'. step p (m ! p) s = Some (Goto l q s') \<and> Q l q s')"
begin

definition nul_inv :: "ptr \<Rightarrow> 's \<Rightarrow> bool" where
  "nul_inv p s \<longleftrightarrow> z < length m \<and> m ! z = NUL \<and> p \<le> z \<and> I p s"

definition nul_out :: "'l option \<Rightarrow> ptr \<Rightarrow> 's \<Rightarrow> bool" where
  "nul_out l q s \<longleftrightarrow> (case l of None \<Rightarrow> q \<le> z \<and> m ! q = NUL \<and> I q s | Some l' \<Rightarrow> Q l' q s)"

end

sublocale nul_loop \<subseteq> chars: char_loop "nul_step step" m "length m" nul_inv nul_out
proof
  fix p s
  assume p: "p < length m" and i: "nul_inv p s"
  show "(\<exists>q s'. nul_step step p (m ! p) s = Some (Next q s') \<and> p \<le> q \<and> nul_inv (Suc q) s') \<or>
    (\<exists>l q s'. nul_step step p (m ! p) s = Some (Goto l q s') \<and> nul_out l q s')"
  proof (cases "m ! p = NUL")
    case True
    with i show ?thesis by (simp add: nul_step_def nul_inv_def nul_out_def)
  next
    case False
    with i have "z < length m" "m ! z = NUL" "p < z" "I p s"
      by (auto simp: nul_inv_def intro: le_neq_implies_less)
    from nul_step_ok [OF this(1-3) False this(4)] this(1,2) show ?thesis
      using False by (fastforce simp: nul_step_def nul_inv_def nul_out_def)
  qed
qed auto

context nul_loop
begin

lemma nul_total:
  assumes "z < length m" and "m ! z = NUL" and "p \<le> z" and "I p s"
  shows "(\<exists>q s'. for_nul step m p s = Some (None, q, s') \<and> q \<le> z \<and> m ! q = NUL \<and> I q s') \<or>
   (\<exists>l q s'. for_nul step m p s = Some (Some l, q, s') \<and> Q l q s')"
proof -
  have "nul_inv p s" using assms by (simp add: nul_inv_def)
  from chars.loop_total [OF this] show ?thesis
  proof (elim disjE exE conjE)
    fix q s' assume "length m \<le> q" "nul_inv q s'"
    then show ?thesis by (simp add: nul_inv_def)
  next
    fix l q s' assume "for_chars (nul_step step) m p (length m) s = Some (Some l, q, s')" "nul_out l q s'"
    then show ?thesis by (cases l) (auto simp: for_nul_def nul_out_def)
  qed
qed

end

text \<open>One turn, an exit, and a run of characters that change nothing.\<close>

lemma for_nul_turn:
  assumes "p < length m" and "m ! p \<noteq> NUL" and "step p (m ! p) s = Some (Next q s')" and "r = Suc q"
  shows "for_nul step m p s = for_nul step m r s'"
  using assms for_chars_next [of p "length m" m "nul_step step" s q s'] by (simp add: for_nul_def nul_step_def)

lemma for_nul_goto:
  assumes "p < length m" and "m ! p \<noteq> NUL" and "step p (m ! p) s = Some (Goto l q s')"
  shows "for_nul step m p s = Some (Some l, q, s')"
  using assms for_chars_goto [of p "length m" m "nul_step step" s "Some l" q s'] by (simp add: for_nul_def nul_step_def)

lemma for_nul_end: "p < length m \<Longrightarrow> m ! p = NUL \<Longrightarrow> for_nul step m p s = Some (None, p, s)"
  using for_chars_goto [of p "length m" m "nul_step step" s None p s] by (simp add: for_nul_def nul_step_def)

lemma for_nul_run:
  assumes "p \<le> q" and "q \<le> length m" and "\<And>i. p \<le> i \<Longrightarrow> i < q \<Longrightarrow> m ! i \<noteq> NUL \<and> step i (m ! i) s = Some (Next i s)"
  shows "for_nul step m p s = for_nul step m q s"
  using assms for_chars_run [of p q "length m" m "nul_step step" s] by (simp add: for_nul_def nul_step_def)

text \<open>
  A run of a machine over a list of characters, one at a time: it turns a run over the buffer into a computation on
  the list.
\<close>

fun run_chars :: "(ptr \<Rightarrow> char \<Rightarrow> 's \<Rightarrow> ('l, 's) act option) \<Rightarrow> ptr \<Rightarrow> char list \<Rightarrow> 's \<Rightarrow> 's option" where
  "run_chars step p [] s = Some s"
| "run_chars step p (c # cs) s =
     (case step p c s of Some (Next q s') \<Rightarrow> if q = p then run_chars step (Suc p) cs s' else None | _ \<Rightarrow> None)"

lemma run_chars_append: "run_chars step p (xs @ ys) s = Option.bind (run_chars step p xs s) (run_chars step (p + length xs) ys)"
  by (induction xs arbitrary: p s) (auto split: option.splits act.splits)

lemma run_chars_stay: "(\<And>c i. c \<in> set cs \<Longrightarrow> step i c s = Some (Next i s)) \<Longrightarrow> run_chars step p cs s = Some s"
  by (induction cs arbitrary: p) auto

lemma run_chars_step: "run_chars step p (c # cs) s = Some t \<Longrightarrow> \<exists>s'. step p c s = Some (Next p s') \<and> run_chars step (Suc p) cs s' = Some t"
  by (auto split: option.splits act.splits if_splits)

lemma seg_ConsD:
  assumes "seg m p (p + length (c # cs)) = c # cs" and "p + length (c # cs) \<le> length m"
  shows "m ! p = c" and "seg m (Suc p) (Suc p + length cs) = cs" and "p < length m"
  using assms seg_Cons [of p "p + length (c # cs)" m] by auto

lemma for_chars_list:
  assumes "run_chars step p cs s = Some t" and "seg m p (p + length cs) = cs" and "p + length cs \<le> e" and "e \<le> length m"
  shows "for_chars step m p e s = for_chars step m (p + length cs) e t"
  using assms
proof (induction cs arbitrary: p s)
  case (Cons c cs)
  obtain s' where s': "step p c s = Some (Next p s')" "run_chars step (Suc p) cs s' = Some t"
    using run_chars_step [OF Cons.prems(1)] by blast
  have mp: "m ! p = c" "seg m (Suc p) (Suc p + length cs) = cs" "p < length m"
    using seg_ConsD [OF Cons.prems(2)] Cons.prems(3,4) by auto
  have "for_chars step m p e s = for_chars step m (Suc p) e s'"
    using s'(1) mp Cons.prems by (intro for_chars_turn) simp_all
  also have "\<dots> = for_chars step m (Suc p + length cs) e t"
    using s'(2) mp Cons.prems by (intro Cons.IH) simp_all
  finally show ?case by simp
qed simp

lemma for_nul_list:
  assumes "run_chars step p cs s = Some t" and "seg m p (p + length cs) = cs" and "p + length cs \<le> length m" and "NUL \<notin> set cs"
  shows "for_nul step m p s = for_nul step m (p + length cs) t"
  using assms
proof (induction cs arbitrary: p s)
  case (Cons c cs)
  obtain s' where s': "step p c s = Some (Next p s')" "run_chars step (Suc p) cs s' = Some t"
    using run_chars_step [OF Cons.prems(1)] by blast
  have mp: "m ! p = c" "seg m (Suc p) (Suc p + length cs) = cs" "p < length m"
    using seg_ConsD [OF Cons.prems(2,3)] by auto
  have "for_nul step m p s = for_nul step m (Suc p) s'"
    using s'(1) mp Cons.prems by (intro for_nul_turn) auto
  also have "\<dots> = for_nul step m (Suc p + length cs) t"
    using s'(2) mp Cons.prems by (intro Cons.IH) auto
  finally show ?case by simp
qed simp

end
