(* ===== verification/Via_Param.thy ===== *)
theory Via_Param
  imports Uri Ut Nul_Loop
begin

text \<open>
  \<^verbatim>\<open>parse_via\<close> and \<^verbatim>\<open>parse_via_param\<close> of \<^verbatim>\<open>parse_via.c\<close>: four loops of hand-written state machines. The start of a Via body
  (\<^verbatim>\<open>SIP/2.0/UDP\<close>) and the name of a parameter are read up to the end pointer (\<open>for_chars\<close>); the rest of the
  body and the value of a parameter are read up to a zero byte (\<open>for_nul\<close>), as in the code. One definition per \<^verbatim>\<open>case\<close> of a
  \<^verbatim>\<open>switch\<close> on the character.

  The \<^verbatim>\<open>enum\<close>s of the states are five data types under the sum \<open>via_state\<close>. The codes of the final parameter states and of the parameter
  types coincide in the source (\<^verbatim>\<open>FIN_BRANCH == PARAM_BRANCH\<close>), so the type \<open>via_ptype\<close> has both roles. The bodies of a
  compact Via are a list in the order of their \<^verbatim>\<open>next\<close> pointers; \<^verbatim>\<open>tid\<close>, which is only cleared here, is left out. \<open>uri_env\<close> gives
  the value of \<^verbatim>\<open>p - NULL\<close>, which the code computes for strings it never started.
\<close>

section \<open>States and data\<close>

datatype via_main =
    F_HOST | P_HOST | L_PORT | F_PORT | P_PORT | L_PARAM | F_PARAM | P_PARAM | L_VIA | F_VIA
  | F_COMMENT | P_COMMENT | F_IP6HOST | P_IP6HOST | F_CRLF | F_LF | F_CR | END_OF_HEADER

datatype via_start =
    F_SIP | SIP1 | SIP2 | FIN_SIP | L_VER | F_VER | VER1 | VER2 | FIN_VER
  | UDP1 | UDP2 | FIN_UDP | TCP_TLS1 | TCP2 | FIN_TCP | TLS2 | FIN_TLS
  | SCTP1 | SCTP2 | SCTP3 | FIN_SCTP | WS1 | WS_WSS | FIN_WS | FIN_WSS | OTHER_PROTO | L_PROTO | F_PROTO

datatype via_val = L_VALUE | F_VALUE | P_VALUE | P_STRING

datatype via_name =
    HIDDEN1 | HIDDEN2 | HIDDEN3 | HIDDEN4 | HIDDEN5 | TTL1 | TTL2
  | BRANCH1 | BRANCH2 | BRANCH3 | BRANCH4 | BRANCH5 | MADDR1 | MADDR2 | MADDR3 | MADDR4
  | RECEIVED1 | RECEIVED2 | RECEIVED3 | RECEIVED4 | RECEIVED5 | RECEIVED6 | RECEIVED7
  | RPORT1 | RPORT2 | RPORT3 | ALIAS1 | ALIAS2 | ALIAS3 | ALIAS4

datatype via_ptype =
    FIN_HIDDEN | FIN_TTL | FIN_BRANCH | FIN_MADDR | FIN_RECEIVED | FIN_RPORT | FIN_I | FIN_ALIAS | GEN_PARAM | PARAM_ERROR

datatype via_state = Mst via_main | Sst via_start | Vst via_val | Nst via_name | Tst via_ptype

record via_param =
  vp_type :: via_ptype
  vp_name :: str
  vp_value :: str
  vp_start :: "ptr option"
  vp_size :: int

record via_body =
  vb_error :: int
  vb_hdr :: str
  vb_name :: str
  vb_version :: str
  vb_transport :: str
  vb_host :: str
  vb_proto :: sip_protos
  vb_port :: "16 word"
  vb_port_str :: str
  vb_params :: str
  vb_comment :: str
  vb_bsize :: int
  vb_param_lst :: "via_param list"
  vb_branch :: "via_param option"
  vb_received :: "via_param option"
  vb_rport :: "via_param option"
  vb_i :: "via_param option"
  vb_alias :: "via_param option"
  vb_maddr :: "via_param option"

definition via_body_zero :: via_body where
  "via_body_zero = \<lparr>vb_error = 0, vb_hdr = str_null, vb_name = str_null, vb_version = str_null, vb_transport = str_null,
     vb_host = str_null, vb_proto = PROTO_NONE, vb_port = 0, vb_port_str = str_null, vb_params = str_null, vb_comment = str_null,
     vb_bsize = 0, vb_param_lst = [], vb_branch = None, vb_received = None, vb_rport = None, vb_i = None, vb_alias = None,
     vb_maddr = None\<rparr>"

text \<open>\<open>sclose\<close>: \<^verbatim>\<open>x.len = tmp - x.s\<close>; \<open>sopen\<close>: \<^verbatim>\<open>x.s = tmp\<close>.\<close>

definition sclose :: "uri_env \<Rightarrow> ptr \<Rightarrow> str \<Rightarrow> str" where
  "sclose E tmp x = x\<lparr>str_len := pdiff E tmp (str_s x)\<rparr>"

definition sopen :: "ptr \<Rightarrow> str \<Rightarrow> str" where
  "sopen tmp x = x\<lparr>str_s := Some tmp\<rparr>"

definition eol_state :: "via_state \<Rightarrow> bool" where
  "eol_state st \<longleftrightarrow> st \<in> {Mst F_CRLF, Mst F_LF, Mst F_CR}"

section \<open>The name of a parameter\<close>

record vp_vars =
  pv_state :: via_state
  pv_saved :: via_state
  pv_param :: via_param

datatype vp_label = Find_value | Endofparam | End_via | Vp_error

type_synonym vp_act = "(vp_label, vp_vars) act option"

text \<open>The type that the current state gives to the parameter: the \<^verbatim>\<open>default\<close> of the code is \<^verbatim>\<open>GEN_PARAM\<close>.\<close>

definition state_type :: "via_state \<Rightarrow> via_ptype" where
  "state_type st = (case st of Tst t \<Rightarrow> if t = PARAM_ERROR then GEN_PARAM else t | _ \<Rightarrow> GEN_PARAM)"

definition flag_types :: "via_ptype set" where
  "flag_types = {FIN_HIDDEN, FIN_ALIAS}"

definition vp_named :: "uri_env \<Rightarrow> ptr \<Rightarrow> vp_vars \<Rightarrow> vp_vars" where
  "vp_named E tmp s = s\<lparr>pv_param := (pv_param s)\<lparr>vp_type := state_type (pv_state s), vp_name := sclose E tmp (vp_name (pv_param s))\<rparr>\<rparr>"

definition set_size :: "ptr \<Rightarrow> vp_vars \<Rightarrow> vp_vars option" where
  "set_size tmp s = do { b \<leftarrow> vp_start (pv_param s); Some (s\<lparr>pv_param := (pv_param s)\<lparr>vp_size := int tmp - int b\<rparr>\<rparr>) }"

definition end_via_at :: "ptr \<Rightarrow> vp_vars \<Rightarrow> vp_act" where
  "end_via_at tmp s = Some (Goto End_via tmp (s\<lparr>pv_state := Mst END_OF_HEADER\<rparr>))"

definition vp_space :: "uri_env \<Rightarrow> ptr \<Rightarrow> vp_vars \<Rightarrow> vp_act" where
  "vp_space E tmp s = (let st = pv_state s in
     if st = Mst F_PARAM then Some (Next tmp s)
     else if eol_state st then Some (Next tmp (s\<lparr>pv_state := pv_saved s\<rparr>))
     else if state_type st \<in> flag_types then Some (Goto Endofparam tmp ((vp_named E tmp s)\<lparr>pv_state := Mst L_PARAM\<rparr>))
     else Some (Goto Find_value tmp ((vp_named E tmp s)\<lparr>pv_state := Vst L_VALUE\<rparr>)))"

text \<open>The end of a line: \<open>f\<close> is \<^verbatim>\<open>F_LF\<close> or \<^verbatim>\<open>F_CR\<close>; the code has no case for \<^verbatim>\<open>F_LF\<close> at a carriage return.\<close>

definition vp_eol :: "uri_env \<Rightarrow> via_main \<Rightarrow> ptr \<Rightarrow> vp_vars \<Rightarrow> vp_act" where
  "vp_eol E f tmp s = (let st = pv_state s in
     if st = Mst F_PARAM then Some (Next tmp (s\<lparr>pv_saved := st, pv_state := Mst f\<rparr>))
     else if st \<in> {Mst f, Mst F_CRLF} then end_via_at tmp s
     else if f = F_LF \<and> st = Mst F_CR then Some (Next tmp (s\<lparr>pv_state := Mst F_CRLF\<rparr>))
     else do {
       s1 \<leftarrow> set_size tmp (vp_named E tmp s);
       if state_type st \<in> flag_types then Some (Goto Endofparam tmp (s1\<lparr>pv_saved := Mst L_PARAM, pv_state := Mst f\<rparr>))
       else Some (Goto Find_value tmp (s1\<lparr>pv_saved := Vst L_VALUE, pv_state := Mst f\<rparr>)) })"

definition vp_lf :: "uri_env \<Rightarrow> ptr \<Rightarrow> vp_vars \<Rightarrow> vp_act" where
  "vp_lf E = vp_eol E F_LF"

definition vp_cr :: "uri_env \<Rightarrow> ptr \<Rightarrow> vp_vars \<Rightarrow> vp_act" where
  "vp_cr E = vp_eol E F_CR"

definition vp_equal :: "uri_env \<Rightarrow> ptr \<Rightarrow> vp_vars \<Rightarrow> vp_act" where
  "vp_equal E tmp s = (let st = pv_state s in
     if st = Mst F_PARAM \<or> state_type st \<in> flag_types then Some (Goto Vp_error tmp s)
     else if eol_state st then end_via_at tmp s
     else Some (Goto Find_value tmp ((vp_named E tmp s)\<lparr>pv_state := Vst F_VALUE\<rparr>)))"

text \<open>\<^verbatim>\<open>';'\<close> and \<^verbatim>\<open>','\<close> end a parameter without a value; \<open>nxt\<close> is \<^verbatim>\<open>F_PARAM\<close> or \<^verbatim>\<open>F_VIA\<close>.\<close>

definition vp_sep :: "uri_env \<Rightarrow> via_main \<Rightarrow> ptr \<Rightarrow> vp_vars \<Rightarrow> vp_act" where
  "vp_sep E nxt tmp s = (let st = pv_state s in
     if state_type st \<in> {FIN_BRANCH, FIN_MADDR, FIN_TTL, FIN_RECEIVED, FIN_I} then Some (Goto Vp_error tmp s)
     else if eol_state st then end_via_at tmp s
     else Some (Goto Endofparam tmp ((vp_named E tmp s)\<lparr>pv_state := Mst nxt\<rparr>)))"

definition vp_semi :: "uri_env \<Rightarrow> ptr \<Rightarrow> vp_vars \<Rightarrow> vp_act" where
  "vp_semi E = vp_sep E F_PARAM"

definition vp_comma :: "uri_env \<Rightarrow> ptr \<Rightarrow> vp_vars \<Rightarrow> vp_act" where
  "vp_comma E = vp_sep E F_VIA"

text \<open>
  A letter of a name: the state it enters from \<^verbatim>\<open>F_PARAM\<close>, and the transitions from inside a known name; any other
  state of a name becomes \<^verbatim>\<open>GEN_PARAM\<close>.
\<close>

definition vp_letter :: "via_state \<Rightarrow> (via_name \<Rightarrow> via_state option) \<Rightarrow> ptr \<Rightarrow> vp_vars \<Rightarrow> vp_act" where
  "vp_letter s0 nx tmp s = (let st = pv_state s; p = pv_param s in
     if st = Mst F_PARAM then Some (Next tmp (s\<lparr>pv_state := s0, pv_param := p\<lparr>vp_name := sopen tmp (vp_name p)\<rparr>\<rparr>))
     else if eol_state st then end_via_at tmp s
     else Some (Next tmp (s\<lparr>pv_state := (case st of Nst n \<Rightarrow> (case nx n of None \<Rightarrow> Tst GEN_PARAM | Some st' \<Rightarrow> st')
                                            | _ \<Rightarrow> Tst GEN_PARAM)\<rparr>)))"

definition name_first :: "char \<Rightarrow> via_state" where
  "name_first c =
     (if c = CHR ''h'' then Nst HIDDEN1 else if c = CHR ''i'' then Tst FIN_I else if c = CHR ''t'' then Nst TTL1
      else if c = CHR ''m'' then Nst MADDR1 else if c = CHR ''a'' then Nst ALIAS1 else if c = CHR ''r'' then Nst RECEIVED1
      else if c = CHR ''b'' then Nst BRANCH1 else Tst GEN_PARAM)"

definition name_next :: "char \<Rightarrow> via_name \<Rightarrow> via_state option" where
  "name_next c n = map_of
     [((CHR ''h'', BRANCH5), Tst FIN_BRANCH),
      ((CHR ''i'', HIDDEN1), Nst HIDDEN2), ((CHR ''i'', RECEIVED4), Nst RECEIVED5), ((CHR ''i'', ALIAS2), Nst ALIAS3),
      ((CHR ''d'', HIDDEN2), Nst HIDDEN3), ((CHR ''d'', HIDDEN3), Nst HIDDEN4), ((CHR ''d'', MADDR2), Nst MADDR3),
      ((CHR ''d'', MADDR3), Nst MADDR4), ((CHR ''d'', RECEIVED7), Tst FIN_RECEIVED),
      ((CHR ''e'', HIDDEN4), Nst HIDDEN5), ((CHR ''e'', RECEIVED1), Nst RECEIVED2), ((CHR ''e'', RECEIVED3), Nst RECEIVED4),
      ((CHR ''e'', RECEIVED6), Nst RECEIVED7),
      ((CHR ''n'', HIDDEN5), Tst FIN_HIDDEN), ((CHR ''n'', BRANCH3), Nst BRANCH4),
      ((CHR ''t'', TTL1), Nst TTL2), ((CHR ''t'', RPORT3), Tst FIN_RPORT),
      ((CHR ''l'', TTL2), Tst FIN_TTL), ((CHR ''l'', ALIAS1), Nst ALIAS2),
      ((CHR ''a'', MADDR1), Nst MADDR2), ((CHR ''a'', BRANCH2), Nst BRANCH3), ((CHR ''a'', ALIAS3), Nst ALIAS4),
      ((CHR ''r'', MADDR4), Tst FIN_MADDR), ((CHR ''r'', BRANCH1), Nst BRANCH2), ((CHR ''r'', RPORT2), Nst RPORT3),
      ((CHR ''c'', RECEIVED2), Nst RECEIVED3), ((CHR ''c'', BRANCH4), Nst BRANCH5),
      ((CHR ''v'', RECEIVED5), Nst RECEIVED6),
      ((CHR ''p'', RECEIVED1), Nst RPORT1),
      ((CHR ''o'', RPORT1), Nst RPORT2),
      ((CHR ''s'', ALIAS4), Tst FIN_ALIAS)] (c, n)"

definition vp_step :: "uri_env \<Rightarrow> ptr \<Rightarrow> char \<Rightarrow> vp_vars \<Rightarrow> vp_act" where
  "vp_step E tmp c s =
     (if c \<in> {SPC, TAB} then vp_space E tmp s
      else if c = LF then vp_lf E tmp s
      else if c = CR then vp_cr E tmp s
      else if c = CHR ''='' then vp_equal E tmp s
      else if c = CHR '';'' then vp_semi E tmp s
      else if c = CHR '','' then vp_comma E tmp s
      else vp_letter (name_first (tolower_c c)) (name_next (tolower_c c)) tmp s)"

section \<open>The value of a parameter\<close>

definition value_end :: "uri_env \<Rightarrow> ptr \<Rightarrow> vp_vars \<Rightarrow> vp_vars" where
  "value_end E tmp s = s\<lparr>pv_param := (pv_param s)\<lparr>vp_value := sclose E tmp (vp_value (pv_param s))\<rparr>\<rparr>"

definition value_start :: "ptr \<Rightarrow> vp_vars \<Rightarrow> vp_vars" where
  "value_start tmp s = s\<lparr>pv_param := (pv_param s)\<lparr>vp_value := sopen tmp (vp_value (pv_param s))\<rparr>\<rparr>"

definition fv_space :: "uri_env \<Rightarrow> ptr \<Rightarrow> vp_vars \<Rightarrow> vp_act" where
  "fv_space E tmp s = (let st = pv_state s in
     if st \<in> {Vst L_VALUE, Vst F_VALUE, Vst P_STRING} then Some (Next tmp s)
     else if st = Vst P_VALUE then Some (Goto Endofparam tmp ((value_end E tmp s)\<lparr>pv_state := Mst L_PARAM\<rparr>))
     else if eol_state st then Some (Next tmp (s\<lparr>pv_state := pv_saved s\<rparr>))
     else Some (Goto Vp_error tmp s))"

definition fv_eol :: "uri_env \<Rightarrow> via_main \<Rightarrow> ptr \<Rightarrow> vp_vars \<Rightarrow> vp_act" where
  "fv_eol E f tmp s = (let st = pv_state s in
     if st \<in> {Vst L_VALUE, Vst F_VALUE, Vst P_STRING} then do {
       s1 \<leftarrow> set_size tmp s; Some (Next tmp (s1\<lparr>pv_saved := st, pv_state := Mst f\<rparr>)) }
     else if st = Vst P_VALUE then Some (Goto Endofparam tmp ((value_end E tmp s)\<lparr>pv_saved := Mst L_PARAM, pv_state := Mst f\<rparr>))
     else if f = F_LF \<and> st = Mst F_CR then Some (Next tmp (s\<lparr>pv_state := Mst F_CRLF\<rparr>))
     else if eol_state st then end_via_at tmp s
     else Some (Goto Vp_error tmp s))"

definition fv_lf :: "uri_env \<Rightarrow> ptr \<Rightarrow> vp_vars \<Rightarrow> vp_act" where
  "fv_lf E = fv_eol E F_LF"

definition fv_cr :: "uri_env \<Rightarrow> ptr \<Rightarrow> vp_vars \<Rightarrow> vp_act" where
  "fv_cr E = fv_eol E F_CR"

definition fv_equal :: "ptr \<Rightarrow> vp_vars \<Rightarrow> vp_act" where
  "fv_equal tmp s = (let st = pv_state s in
     if st = Vst L_VALUE then Some (Next tmp (s\<lparr>pv_state := Vst F_VALUE\<rparr>))
     else if st = Vst P_STRING then Some (Next tmp s)
     else if eol_state st then end_via_at tmp s
     else Some (Goto Vp_error tmp s))"

text \<open>\<^verbatim>\<open>rport\<close> is the one valued parameter that may end without its value.\<close>

definition null_value :: "via_main \<Rightarrow> ptr \<Rightarrow> vp_vars \<Rightarrow> vp_act" where
  "null_value nxt tmp s =
     (if vp_type (pv_param s) = FIN_RPORT
      then Some (Goto Endofparam tmp (s\<lparr>pv_param := (pv_param s)\<lparr>vp_value := str_null\<rparr>, pv_state := Mst nxt\<rparr>))
      else Some (Goto Vp_error tmp s))"

definition fv_semi :: "uri_env \<Rightarrow> ptr \<Rightarrow> vp_vars \<Rightarrow> vp_act" where
  "fv_semi E tmp s = (let st = pv_state s; p = pv_param s in
     if st = Vst P_VALUE then Some (Goto Endofparam tmp ((value_end E tmp s)\<lparr>pv_state := Mst F_PARAM\<rparr>))
     else if st = Vst F_VALUE then
       Some (Goto Endofparam tmp (s\<lparr>pv_param := p\<lparr>vp_value := (vp_value p)\<lparr>str_len := 0\<rparr>\<rparr>, pv_state := Mst F_PARAM\<rparr>))
     else if st = Vst P_STRING then Some (Next tmp s)
     else if eol_state st then end_via_at tmp s
     else if st = Vst L_VALUE then null_value F_PARAM tmp s
     else Some (Goto Vp_error tmp s))"

definition fv_comma :: "uri_env \<Rightarrow> ptr \<Rightarrow> vp_vars \<Rightarrow> vp_act" where
  "fv_comma E tmp s = (let st = pv_state s in
     if st = Vst P_VALUE then Some (Goto Endofparam tmp ((value_end E tmp s)\<lparr>pv_state := Mst F_VIA\<rparr>))
     else if st = Vst P_STRING \<or> eol_state st then end_via_at tmp s
     else if st = Vst L_VALUE then null_value F_VIA tmp s
     else Some (Goto Vp_error tmp s))"

definition fv_quote :: "uri_env \<Rightarrow> ptr \<Rightarrow> vp_vars \<Rightarrow> vp_act" where
  "fv_quote E tmp s = (let st = pv_state s in
     if st = Vst F_VALUE then Some (Next tmp ((value_start (tmp + 1) s)\<lparr>pv_state := Vst P_STRING\<rparr>))
     else if st = Vst P_STRING then Some (Goto Endofparam tmp ((value_end E tmp s)\<lparr>pv_state := Mst L_PARAM\<rparr>))
     else if eol_state st then end_via_at tmp s
     else Some (Goto Vp_error tmp s))"

definition fv_default :: "ptr \<Rightarrow> vp_vars \<Rightarrow> vp_act" where
  "fv_default tmp s = (let st = pv_state s in
     if st = Vst F_VALUE then Some (Next tmp ((value_start tmp s)\<lparr>pv_state := Vst P_VALUE\<rparr>))
     else if st \<in> {Vst P_VALUE, Vst P_STRING} then Some (Next tmp s)
     else if eol_state st then end_via_at tmp s
     else Some (Goto Vp_error tmp s))"

definition fv_step :: "uri_env \<Rightarrow> ptr \<Rightarrow> char \<Rightarrow> vp_vars \<Rightarrow> vp_act" where
  "fv_step E tmp c s =
     (if c \<in> {SPC, TAB} then fv_space E tmp s
      else if c = LF then fv_lf E tmp s
      else if c = CR then fv_cr E tmp s
      else if c = CHR ''='' then fv_equal tmp s
      else if c = CHR '';'' then fv_semi E tmp s
      else if c = CHR '','' then fv_comma E tmp s
      else if c = DQUOTE then fv_quote E tmp s
      else fv_default tmp s)"

section \<open>\<^verbatim>\<open>parse_via_param\<close>\<close>

text \<open>The labels after the loops: the returned pointer and the final variables.\<close>

definition vp_fail :: "ptr \<Rightarrow> vp_vars \<Rightarrow> ptr \<times> vp_vars" where
  "vp_fail tmp s = (tmp, s\<lparr>pv_param := (pv_param s)\<lparr>vp_type := PARAM_ERROR\<rparr>, pv_saved := pv_state s, pv_state := Tst PARAM_ERROR\<rparr>)"

definition vp_exit :: "vp_label \<Rightarrow> ptr \<Rightarrow> vp_vars \<Rightarrow> (ptr \<times> vp_vars) option" where
  "vp_exit l tmp s = (case l of
       Endofparam \<Rightarrow> do { s1 \<leftarrow> set_size tmp s; Some (tmp, s1) }
     | End_via \<Rightarrow> (if vp_type (pv_param s) \<in> {GEN_PARAM, FIN_RPORT} then Some (tmp, s\<lparr>pv_saved := Mst L_PARAM\<rparr>)
                   else Some (vp_fail tmp s))
     | _ \<Rightarrow> Some (vp_fail tmp s))"

definition vp_no_end :: "ptr \<Rightarrow> vp_vars \<Rightarrow> ptr \<times> vp_vars" where
  "vp_no_end tmp s = vp_fail tmp (s\<lparr>pv_saved := pv_state s, pv_state := Mst END_OF_HEADER\<rparr>)"

definition vp_init :: "ptr option \<Rightarrow> via_state \<Rightarrow> via_state \<Rightarrow> vp_vars" where
  "vp_init start st saved = \<lparr>pv_state = st, pv_saved = saved,
     pv_param = \<lparr>vp_type = PARAM_ERROR, vp_name = str_null, vp_value = str_null, vp_start = start, vp_size = 0\<rparr>\<rparr>"

definition parse_via_param :: "uri_env \<Rightarrow> mem \<Rightarrow> ptr \<Rightarrow> ptr \<Rightarrow> vp_vars \<Rightarrow> (ptr \<times> vp_vars) option" where
  "parse_via_param E m p e s0 = do {
     (l, tmp, s) \<leftarrow> for_chars (vp_step E) m p e s0;
     case l of
       None \<Rightarrow> Some (vp_no_end tmp s)
     | Some l1 \<Rightarrow>
         (if l1 = Find_value then do {
            (l', tmp', s') \<leftarrow> for_nul (fv_step E) m (tmp + 1) s;
            case l' of None \<Rightarrow> Some (vp_no_end tmp' s') | Some l2 \<Rightarrow> vp_exit l2 tmp' s' }
          else vp_exit l1 tmp s) }"

section \<open>The names the machine knows\<close>

text \<open>The text of a prefix of a known name, and the names themselves.\<close>

fun name_text :: "via_name \<Rightarrow> char list" where
  "name_text HIDDEN1 = ''h''" | "name_text HIDDEN2 = ''hi''" | "name_text HIDDEN3 = ''hid''" | "name_text HIDDEN4 = ''hidd''"
| "name_text HIDDEN5 = ''hidde''" | "name_text TTL1 = ''t''" | "name_text TTL2 = ''tt''"
| "name_text BRANCH1 = ''b''" | "name_text BRANCH2 = ''br''" | "name_text BRANCH3 = ''bra''" | "name_text BRANCH4 = ''bran''"
| "name_text BRANCH5 = ''branc''" | "name_text MADDR1 = ''m''" | "name_text MADDR2 = ''ma''" | "name_text MADDR3 = ''mad''"
| "name_text MADDR4 = ''madd''" | "name_text RECEIVED1 = ''r''" | "name_text RECEIVED2 = ''re''" | "name_text RECEIVED3 = ''rec''"
| "name_text RECEIVED4 = ''rece''" | "name_text RECEIVED5 = ''recei''" | "name_text RECEIVED6 = ''receiv''"
| "name_text RECEIVED7 = ''receive''" | "name_text RPORT1 = ''rp''" | "name_text RPORT2 = ''rpo''" | "name_text RPORT3 = ''rpor''"
| "name_text ALIAS1 = ''a''" | "name_text ALIAS2 = ''al''" | "name_text ALIAS3 = ''ali''" | "name_text ALIAS4 = ''alia''"

definition via_names :: "(char list \<times> via_ptype) list" where
  "via_names = [(''hidden'', FIN_HIDDEN), (''ttl'', FIN_TTL), (''branch'', FIN_BRANCH), (''maddr'', FIN_MADDR),
     (''received'', FIN_RECEIVED), (''rport'', FIN_RPORT), (''i'', FIN_I), (''alias'', FIN_ALIAS)]"

definition via_name_type :: "char list \<Rightarrow> via_ptype" where
  "via_name_type l = (case map_of via_names l of None \<Rightarrow> GEN_PARAM | Some t \<Rightarrow> t)"

definition no_prefix :: "char list \<Rightarrow> bool" where
  "no_prefix l \<longleftrightarrow> list_all (\<lambda>x. take (length l) (fst x) \<noteq> l) via_names"

text \<open>The state says what has been read of the name.\<close>

definition reads_name :: "via_state \<Rightarrow> char list \<Rightarrow> bool" where
  "reads_name st l \<longleftrightarrow> (case st of Nst n \<Rightarrow> l = name_text n
     | Tst t \<Rightarrow> (if t = GEN_PARAM then l \<noteq> [] \<and> no_prefix l else (l, t) \<in> set via_names) | _ \<Rightarrow> False)"

definition name_step :: "char \<Rightarrow> via_state \<Rightarrow> via_state" where
  "name_step c st = (case st of Nst n \<Rightarrow> (case name_next c n of None \<Rightarrow> Tst GEN_PARAM | Some st' \<Rightarrow> st') | _ \<Rightarrow> Tst GEN_PARAM)"

lemma take_snocD: "take (length (l @ [c])) x = l @ [c] \<Longrightarrow> take (length l) x = l"
  by (drule arg_cong [where f = "take (length l)"]) simp

lemma no_prefix_snoc: "no_prefix l \<Longrightarrow> no_prefix (l @ [c])"
  unfolding no_prefix_def list_all_iff by (blast dest: take_snocD)

lemma via_names_known: "(l, t) \<in> set via_names \<Longrightarrow> map_of via_names l = Some t \<and> t \<noteq> PARAM_ERROR"
  by (rule conjI, rule map_of_is_SomeI) (auto simp: via_names_def)

lemma reads_first: "reads_name (name_first c) [c]"
  by (auto simp: name_first_def reads_name_def no_prefix_def via_names_def)

lemma name_step_ok: "reads_name (Nst n) l \<Longrightarrow> reads_name (name_step c (Nst n)) (l @ [c])"
  by (cases n) (auto simp: reads_name_def name_step_def name_next_def no_prefix_def via_names_def)

lemma name_step_any:
  assumes "reads_name st l"
  shows "reads_name (name_step c st) (l @ [c])"
proof (cases st)
  case (Nst n)
  with assms show ?thesis by (simp add: name_step_ok)
next
  case (Tst t)
  have "no_prefix (l @ [c])"
  proof (cases "t = GEN_PARAM")
    case True
    with assms Tst show ?thesis by (simp add: reads_name_def no_prefix_snoc)
  next
    case False
    with assms Tst show ?thesis by (auto simp: reads_name_def no_prefix_def via_names_def)
  qed
  with Tst show ?thesis by (simp add: reads_name_def name_step_def)
qed (use assms in \<open>simp_all add: reads_name_def\<close>)

lemma reads_name_type:
  assumes "reads_name st l"
  shows "state_type st = via_name_type l"
proof (cases st)
  case (Nst n)
  with assms show ?thesis by (cases n) (simp_all add: reads_name_def state_type_def via_name_type_def via_names_def)
next
  case (Tst t)
  show ?thesis
  proof (cases "t = GEN_PARAM")
    case True
    then have "no_prefix l" using assms Tst by (simp add: reads_name_def)
    then have "map_of via_names l = None" by (auto simp: no_prefix_def list_all_iff map_of_eq_None_iff)
    with True Tst show ?thesis by (simp add: state_type_def via_name_type_def)
  next
    case False
    then have "(l, t) \<in> set via_names" using assms Tst by (simp add: reads_name_def)
    with Tst show ?thesis using via_names_known by (simp add: state_type_def via_name_type_def)
  qed
qed (use assms in \<open>simp_all add: reads_name_def\<close>)

lemma reads_name_not_main: "reads_name st l \<Longrightarrow> st \<noteq> Mst x \<and> \<not> eol_state st"
  by (auto simp: reads_name_def eol_state_def)

section \<open>The invariant of a parameter\<close>

lemma sopen_null [simp]: "sopen p str_null = mk_str p p"
  by (simp add: sopen_def str_null_def mk_str_def)

lemma sclose_mk_str [simp]: "sclose E q (mk_str n x) = mk_str n q"
  by (simp add: sclose_def mk_str_def pdiff_def)

text \<open>A parameter inside the buffer whose type is the one of its name; \<open>b\<close> is where it starts.\<close>

definition vparam_in :: "mem \<Rightarrow> ptr \<Rightarrow> ptr \<Rightarrow> via_param \<Rightarrow> bool" where
  "vparam_in m b q p \<longleftrightarrow> str_s (vp_name p) \<noteq> None \<and> str_within b q (vp_name p) \<and> str_within b q (vp_value p) \<and>
     vp_type p = via_name_type (map tolower_c (str_text m (vp_name p))) \<and>
     vp_start p = Some b \<and> 0 \<le> vp_size p \<and> vp_size p \<le> int q - int b"

definition name_inv :: "mem \<Rightarrow> ptr \<Rightarrow> ptr \<Rightarrow> ptr \<Rightarrow> vp_vars \<Rightarrow> bool" where
  "name_inv m b n q s \<longleftrightarrow> b \<le> n \<and> n < q \<and> reads_name (pv_state s) (map tolower_c (seg m n q)) \<and>
     vp_name (pv_param s) = mk_str n n \<and> vp_value (pv_param s) = str_null \<and> vp_start (pv_param s) = Some b \<and> vp_size (pv_param s) = 0"

definition value_for :: "ptr \<Rightarrow> ptr \<Rightarrow> via_state \<Rightarrow> via_param \<Rightarrow> bool" where
  "value_for b q st p \<longleftrightarrow> (st \<in> {Vst L_VALUE, Vst F_VALUE} \<and> vp_value p = str_null) \<or>
     (st \<in> {Vst P_VALUE, Vst P_STRING} \<and> (\<exists>v. vp_value p = mk_str v v \<and> b \<le> v \<and> v \<le> q))"

definition value_inv :: "mem \<Rightarrow> ptr \<Rightarrow> ptr \<Rightarrow> vp_vars \<Rightarrow> bool" where
  "value_inv m b q s \<longleftrightarrow> vparam_in m b q (pv_param s) \<and>
     (if eol_state (pv_state s) then pv_saved s \<noteq> Vst P_VALUE \<and> value_for b q (pv_saved s) (pv_param s)
      else value_for b q (pv_state s) (pv_param s))"

text \<open>How a parameter may end: with its separator, at a line end, or at the end of the header.\<close>

definition param_out :: "mem \<Rightarrow> ptr \<Rightarrow> ptr \<Rightarrow> vp_vars \<Rightarrow> bool" where
  "param_out m b q s \<longleftrightarrow> vparam_in m b q (pv_param s) \<and>
     (pv_state s \<in> {Mst L_PARAM, Mst F_PARAM, Mst F_VIA} \<or> pv_state s \<in> {Mst F_LF, Mst F_CR} \<and> pv_saved s = Mst L_PARAM)"

fun vp_out :: "mem \<Rightarrow> ptr \<Rightarrow> vp_label \<Rightarrow> ptr \<Rightarrow> vp_vars \<Rightarrow> bool" where
  "vp_out m b Find_value q s \<longleftrightarrow> value_inv m b (Suc q) s"
| "vp_out m b Endofparam q s \<longleftrightarrow> param_out m b q s"
| "vp_out m b End_via q s \<longleftrightarrow> vparam_in m b q (pv_param s) \<and> pv_state s = Mst END_OF_HEADER"
| "vp_out m b Vp_error q s \<longleftrightarrow> True"

lemma vparam_in_mono: "vparam_in m b q p \<Longrightarrow> q \<le> r \<Longrightarrow> vparam_in m b r p"
  by (auto simp: vparam_in_def intro: str_within_mono)

lemma value_for_mono: "value_for b q st p \<Longrightarrow> q \<le> r \<Longrightarrow> value_for b r st p"
  by (auto simp: value_for_def)

lemma value_inv_mono: "value_inv m b q s \<Longrightarrow> q \<le> r \<Longrightarrow> value_inv m b r s"
  by (auto simp: value_inv_def intro: vparam_in_mono value_for_mono)

lemma named_in:
  assumes "name_inv m b n q s" and "q \<le> r"
  shows "vparam_in m b r (pv_param (vp_named E q s))"
  using assms reads_name_type [of "pv_state s" "map tolower_c (seg m n q)"]
  by (auto simp: name_inv_def vparam_in_def vp_named_def mk_str_def [symmetric]) (simp_all add: mk_str_def)

definition vp_good :: "(ptr \<Rightarrow> vp_vars \<Rightarrow> bool) \<Rightarrow> mem \<Rightarrow> ptr \<Rightarrow> ptr \<Rightarrow> vp_act \<Rightarrow> bool" where
  "vp_good I m b q r \<longleftrightarrow> (\<exists>s'. r = Some (Next q s') \<and> I (Suc q) s') \<or> (\<exists>l s'. r = Some (Goto l q s') \<and> vp_out m b l q s')"

lemma vp_good_simps [simp]:
  "vp_good I m b q (Some (Next q s')) \<longleftrightarrow> I (Suc q) s'"
  "vp_good I m b q (Some (Goto l q s')) \<longleftrightarrow> vp_out m b l q s'"
  by (auto simp: vp_good_def)

lemma named_fields [simp]:
  "pv_saved (vp_named E q s) = pv_saved s" "vp_value (pv_param (vp_named E q s)) = vp_value (pv_param s)"
  "vp_start (pv_param (vp_named E q s)) = vp_start (pv_param s)"
  by (simp_all add: vp_named_def)

lemma vparam_in_size: "vparam_in m b r p \<Longrightarrow> b \<le> q \<Longrightarrow> q \<le> r \<Longrightarrow> vparam_in m b r (p\<lparr>vp_size := int q - int b\<rparr>)"
  by (simp add: vparam_in_def)

text \<open>The two ways a name ends: the parameter is complete, or its value is next.\<close>

lemma name_done:
  assumes "name_inv m b n q s"
  shows "vparam_in m b q (pv_param (vp_named E q s)) \<and> vparam_in m b (Suc q) (pv_param (vp_named E q s)) \<and>
    vp_value (pv_param s) = str_null \<and> vp_start (pv_param s) = Some b \<and> b \<le> q \<and>
    \<not> eol_state (pv_state s) \<and> (\<forall>x. pv_state s \<noteq> Mst x)"
  using assms named_in [OF assms] reads_name_not_main [of "pv_state s"] by (auto simp: name_inv_def)

lemma vp_space_ok: "name_inv m b n q s \<Longrightarrow> vp_good I m b q (vp_space E q s)"
  using name_done [of m b n q s E]
  by (simp add: vp_space_def Let_def param_out_def value_inv_def value_for_def eol_state_def)

lemma vp_eol_ok: "name_inv m b n q s \<Longrightarrow> f \<in> {F_LF, F_CR} \<Longrightarrow> vp_good I m b q (vp_eol E f q s)"
  using name_done [of m b n q s E]
  by (auto simp: vp_eol_def Let_def param_out_def value_inv_def value_for_def eol_state_def set_size_def vparam_in_size)

lemma vp_equal_ok: "name_inv m b n q s \<Longrightarrow> vp_good I m b q (vp_equal E q s)"
  using name_done [of m b n q s E]
  by (simp add: vp_equal_def Let_def value_inv_def value_for_def eol_state_def)

lemma vp_sep_ok: "name_inv m b n q s \<Longrightarrow> f \<in> {F_PARAM, F_VIA} \<Longrightarrow> vp_good I m b q (vp_sep E f q s)"
  using name_done [of m b n q s E]
  by (auto simp: vp_sep_def Let_def param_out_def)

lemma vp_letter_ok:
  assumes "name_inv m b n q s" and "q < length m"
  shows "vp_good (name_inv m b n) m b q (vp_letter s0 (name_next (tolower_c (m ! q))) q s)"
proof -
  have "map tolower_c (seg m n (Suc q)) = map tolower_c (seg m n q) @ [tolower_c (m ! q)]"
    using assms seg_snoc [of n "Suc q" m] by (simp add: name_inv_def)
  moreover have "vp_letter s0 (name_next (tolower_c (m ! q))) q s = Some (Next q (s\<lparr>pv_state := name_step (tolower_c (m ! q)) (pv_state s)\<rparr>))"
    using name_done [OF assms(1)] by (simp add: vp_letter_def name_step_def Let_def)
  ultimately show ?thesis
    using assms(1) by (simp add: name_inv_def name_step_any)
qed

lemma vp_step_ok:
  assumes "name_inv m b n q s" and "q < length m"
  shows "vp_good (name_inv m b n) m b q (vp_step E q (m ! q) s)"
  using assms vp_space_ok [OF assms(1)] vp_eol_ok [OF assms(1)] vp_equal_ok [OF assms(1)] vp_sep_ok [OF assms(1)] vp_letter_ok [OF assms]
  by (simp add: vp_step_def vp_lf_def vp_cr_def vp_semi_def vp_comma_def)

text \<open>The steps of the value loop.\<close>

lemma end_via_ok: "vparam_in m b q (pv_param s) \<Longrightarrow> vp_good I m b q (end_via_at q s)"
  by (simp add: end_via_at_def)

lemma vparam_in_value: "vparam_in m b r p \<Longrightarrow> str_within b r x \<Longrightarrow> vparam_in m b r (p\<lparr>vp_value := x\<rparr>)"
  by (simp add: vparam_in_def)

lemma value_end_in:
  assumes "vparam_in m b q (pv_param s)" and "value_for b q st (pv_param s)" and "st \<in> {Vst P_VALUE, Vst P_STRING}"
  shows "vparam_in m b q (pv_param (value_end E q s))"
  using assms by (auto simp: value_for_def value_end_def intro!: vparam_in_value)

lemma value_start_in:
  assumes "vparam_in m b q (pv_param s)" and "vp_value (pv_param s) = str_null" and "v \<in> {q, Suc q}" and "b \<le> q"
  shows "vparam_in m b (Suc q) (pv_param (value_start v s)) \<and> vp_value (pv_param (value_start v s)) = mk_str v v"
  using assms vparam_in_mono [of m b q "pv_param s" "Suc q"]
  by (auto simp: value_start_def intro!: vparam_in_value)

lemma value_end_fields [simp]: "pv_saved (value_end E q s) = pv_saved s" "pv_state (value_end E q s) = pv_state s"
  by (simp_all add: value_end_def)

lemma vparam_in_ge: "vparam_in m b q p \<Longrightarrow> b \<le> q"
  by (auto simp: vparam_in_def str_within_def)

lemma value_invD:
  assumes "value_inv m b q s"
  shows "vparam_in m b q (pv_param s)" and "value_inv m b (Suc q) s" and "b \<le> q"
    and "eol_state (pv_state s) \<Longrightarrow> value_for b (Suc q) (pv_saved s) (pv_param s) \<and> pv_saved s \<noteq> Vst P_VALUE"
    and "\<not> eol_state (pv_state s) \<Longrightarrow> value_for b q (pv_state s) (pv_param s)"
    and "vparam_in m b (Suc q) (pv_param s)"
  using assms value_inv_mono [OF assms, of "Suc q"] vparam_in_ge [of m b q "pv_param s"]
  by (auto simp: value_inv_def intro: vparam_in_mono value_for_mono)

lemma value_for_state: "value_for b q st p \<Longrightarrow> st \<in> {Vst L_VALUE, Vst F_VALUE, Vst P_VALUE, Vst P_STRING}"
  by (auto simp: value_for_def)

lemma fv_space_ok:
  assumes "value_inv m b q s"
  shows "vp_good (value_inv m b) m b q (fv_space E q s)"
proof (cases "eol_state (pv_state s)")
  case True
  then have "pv_state s \<notin> {Vst L_VALUE, Vst F_VALUE, Vst P_STRING, Vst P_VALUE}" by (auto simp: eol_state_def)
  moreover have "\<not> eol_state (pv_saved s)"
    using value_invD(4) [OF assms True] value_for_state [of b "Suc q" "pv_saved s"] by (auto simp: eol_state_def)
  ultimately show ?thesis
    using True value_invD(4,6) [OF assms] by (simp add: fv_space_def value_inv_def)
next
  case False
  then show ?thesis
    using value_invD [OF assms] value_for_state value_end_in [of m b q s "pv_state s" E]
    by (auto simp: fv_space_def param_out_def Let_def)
qed

text \<open>The value loop is between two lines, before the value, or inside it.\<close>

lemma value_cases:
  assumes "value_inv m b q s"
  obtains (eol) x where "pv_state s = Mst x" "x \<in> {F_CRLF, F_LF, F_CR}" "value_for b (Suc q) (pv_saved s) (pv_param s)" "pv_saved s \<noteq> Vst P_VALUE"
  | (before) x where "pv_state s = Vst x" "x \<in> {L_VALUE, F_VALUE}" "vp_value (pv_param s) = str_null"
  | (inside) x v where "pv_state s = Vst x" "x \<in> {P_VALUE, P_STRING}" "vp_value (pv_param s) = mk_str v v" "b \<le> v" "v \<le> q"
  using value_invD(4,5) [OF assms]
  by (cases "eol_state (pv_state s)") (auto simp: value_for_def eol_state_def)

lemma eol_state_simps [simp]: "\<not> eol_state (Vst y)" "eol_state (Mst x) \<longleftrightarrow> x \<in> {F_CRLF, F_LF, F_CR}"
  by (auto simp: eol_state_def)

lemmas fv_defs = fv_eol_def fv_equal_def fv_semi_def fv_comma_def fv_quote_def fv_default_def null_value_def param_out_def Let_def

lemma value_inv_eol: 
  assumes "value_inv m b q s" and "f \<in> {F_LF, F_CR}" and "pv_state s \<in> {Vst L_VALUE, Vst F_VALUE, Vst P_STRING}"
  shows "value_inv m b (Suc q) (s\<lparr>pv_param := (pv_param s)\<lparr>vp_size := int q - int b\<rparr>, pv_saved := pv_state s, pv_state := Mst f\<rparr>)"
  using assms value_invD [OF assms(1)] vparam_in_size [of m b "Suc q" "pv_param s" q]
  by (auto simp: value_inv_def value_for_def)

lemma fv_eol_ok:
  assumes "value_inv m b q s" and "f \<in> {F_LF, F_CR}"
  shows "vp_good (value_inv m b) m b q (fv_eol E f q s)"
proof -
  have start: "vp_start (pv_param s) = Some b" using value_invD(1) [OF assms(1)] by (simp add: vparam_in_def)
  from assms(1) show ?thesis
  proof (cases rule: value_cases)
    case (eol x)
    then show ?thesis
      using assms value_invD(1,6) [OF assms(1)] by (auto simp: fv_defs value_inv_def intro: end_via_ok)
  next
    case (before x)
    then show ?thesis
      using start value_inv_eol [OF assms] by (auto simp: fv_defs set_size_def)
  next
    case (inside x v)
    then show ?thesis
      using assms(2) start value_inv_eol [OF assms] value_invD(1,5) [OF assms(1)] value_end_in [of m b q s "pv_state s" E]
      by (auto simp: fv_defs set_size_def)
  qed
qed

lemma fv_equal_ok:
  assumes "value_inv m b q s"
  shows "vp_good (value_inv m b) m b q (fv_equal q s)"
  using assms
  by (cases rule: value_cases)
    (use value_invD(1,2,6) [OF assms] in \<open>auto simp: fv_defs value_inv_def value_for_def intro: end_via_ok\<close>)

lemma null_value_ok: "value_inv m b q s \<Longrightarrow> f \<in> {F_PARAM, F_VIA} \<Longrightarrow> vp_good I m b q (null_value f q s)"
  using value_invD(1) [of m b q s] by (auto simp: null_value_def param_out_def intro: vparam_in_value)

lemma vparam_in_value_null:
  "vparam_in m b q p \<Longrightarrow> vp_value p = str_null \<Longrightarrow> vparam_in m b q (p\<lparr>vp_value := (vp_value p)\<lparr>str_len := 0\<rparr>\<rparr>)"
  by (simp add: vparam_in_def str_null_def)

lemma fv_semi_ok:
  assumes "value_inv m b q s"
  shows "vp_good (value_inv m b) m b q (fv_semi E q s)"
  using assms
proof (cases rule: value_cases)
  case (eol x)
  then show ?thesis using end_via_ok [OF value_invD(1) [OF assms]] by (auto simp: fv_semi_def Let_def)
next
  case (before x)
  then show ?thesis
    using null_value_ok [OF assms, of F_PARAM] value_invD(1) [OF assms] vparam_in_value_null [of m b q "pv_param s"]
    by (auto simp: fv_semi_def param_out_def Let_def)
next
  case (inside x v)
  then show ?thesis
    using value_invD [OF assms] value_end_in [of m b q s "pv_state s" E] by (auto simp: fv_semi_def param_out_def Let_def)
qed

lemma fv_comma_ok:
  assumes "value_inv m b q s"
  shows "vp_good (value_inv m b) m b q (fv_comma E q s)"
  using assms
proof (cases rule: value_cases)
  case (before x)
  then show ?thesis using null_value_ok [OF assms, of F_VIA] by (auto simp: fv_comma_def Let_def)
next
  case (inside x v)
  then show ?thesis
    using end_via_ok [OF value_invD(1) [OF assms]] value_invD [OF assms] value_end_in [of m b q s "pv_state s" E]
    by (auto simp: fv_comma_def param_out_def Let_def)
qed (use end_via_ok [OF value_invD(1) [OF assms]] in \<open>auto simp: fv_comma_def Let_def\<close>)

lemma value_inv_start:
  assumes "value_inv m b q s" and "vp_value (pv_param s) = str_null" and "v \<in> {q, Suc q}" and "st \<in> {Vst P_VALUE, Vst P_STRING}"
  shows "value_inv m b (Suc q) ((value_start v s)\<lparr>pv_state := st\<rparr>)"
  using assms value_start_in [of m b q s v] value_invD(1,3) [OF assms(1)]
  by (auto simp: value_inv_def value_for_def)

lemma fv_quote_ok:
  assumes "value_inv m b q s"
  shows "vp_good (value_inv m b) m b q (fv_quote E q s)"
  using assms
proof (cases rule: value_cases)
  case (before x)
  then show ?thesis using value_inv_start [OF assms] by (auto simp: fv_quote_def Let_def)
next
  case (inside x v)
  then show ?thesis
    using value_invD [OF assms] value_end_in [of m b q s "pv_state s" E] by (auto simp: fv_quote_def param_out_def Let_def)
qed (use end_via_ok [OF value_invD(1) [OF assms]] in \<open>auto simp: fv_quote_def Let_def\<close>)

lemma fv_default_ok:
  assumes "value_inv m b q s"
  shows "vp_good (value_inv m b) m b q (fv_default q s)"
  using assms
proof (cases rule: value_cases)
  case (before x)
  then show ?thesis using value_inv_start [OF assms] by (auto simp: fv_default_def Let_def)
next
  case (inside x v)
  then show ?thesis using value_invD(2) [OF assms] by (auto simp: fv_default_def Let_def)
qed (use end_via_ok [OF value_invD(1) [OF assms]] in \<open>auto simp: fv_default_def Let_def\<close>)

lemma fv_step_ok: "value_inv m b q s \<Longrightarrow> vp_good (value_inv m b) m b q (fv_step E q c s)"
  by (simp add: fv_step_def fv_lf_def fv_cr_def fv_space_ok fv_eol_ok fv_equal_ok fv_semi_ok fv_comma_ok fv_quote_ok fv_default_ok)

section \<open>\<^verbatim>\<open>parse_via_param\<close> returns\<close>

interpretation vpl: char_loop "vp_step E" m e "\<lambda>q s. e < length m \<and> q \<le> e \<and> name_inv m b n q s"
  "\<lambda>l q s. vp_out m b l q s \<and> n < q \<and> q < e" for E m e b n
proof
  fix q s
  assume q: "q < e" and i: "e < length m \<and> q \<le> e \<and> name_inv m b n q s"
  then have n: "n < q" by (simp add: name_inv_def)
  from i q vp_step_ok [of m b n q s E] have "vp_good (name_inv m b n) m b q (vp_step E q (m ! q) s)" by simp
  then show "(\<exists>q' s'. vp_step E q (m ! q) s = Some (Next q' s') \<and> q \<le> q' \<and> e < length m \<and> Suc q' \<le> e \<and> name_inv m b n (Suc q') s') \<or>
    (\<exists>l q' s'. vp_step E q (m ! q) s = Some (Goto l q' s') \<and> vp_out m b l q' s' \<and> n < q' \<and> q' < e)"
    using n q i unfolding vp_good_def by fastforce
qed simp

interpretation fvl: nul_loop "fv_step E" m z "\<lambda>q s. n \<le> q \<and> value_inv m b q s" "\<lambda>l q s. vp_out m b l q s \<and> n \<le> q \<and> q < z"
  for E m z b n
proof
  fix q s
  assume "q < z" and "n \<le> q \<and> value_inv m b q s"
  moreover from this fv_step_ok [of m b q s E "m ! q"] have "vp_good (value_inv m b) m b q (fv_step E q (m ! q) s)" by simp
  ultimately show "(\<exists>q' s'. fv_step E q (m ! q) s = Some (Next q' s') \<and> q \<le> q' \<and> q' < z \<and> n \<le> Suc q' \<and> value_inv m b (Suc q') s') \<or>
    (\<exists>l q' s'. fv_step E q (m ! q) s = Some (Goto l q' s') \<and> vp_out m b l q' s' \<and> n \<le> q' \<and> q' < z)"
    unfolding vp_good_def by fastforce
qed

text \<open>What the caller sees: an error, a parameter that ended before \<open>z\<close>, or one that ended the header.\<close>

definition param_result :: "mem \<Rightarrow> ptr \<Rightarrow> ptr \<Rightarrow> ptr \<Rightarrow> ptr \<times> vp_vars \<Rightarrow> bool" where
  "param_result m b p z r \<longleftrightarrow> (let q = fst r; v = snd r in p \<le> q \<and> q \<le> z \<and>
     (pv_state v = Tst PARAM_ERROR \<or> q < z \<and> param_out m b q v \<or>
      q < z \<and> pv_state v = Mst END_OF_HEADER \<and> pv_saved v = Mst L_PARAM \<and> vparam_in m b q (pv_param v)))"

lemma vp_fail_result: "p \<le> q \<Longrightarrow> q \<le> z \<Longrightarrow> param_result m b p z (vp_fail q s)"
  by (simp add: param_result_def vp_fail_def)

lemma vp_exit_ok:
  assumes "vp_out m b l q s" and "p \<le> q" and "q < z"
  shows "\<exists>r. vp_exit l q s = Some r \<and> param_result m b p z r"
proof (cases l)
  case Endofparam
  then have "vparam_in m b q (pv_param s)" using assms(1) by (simp add: param_out_def)
  then have "b \<le> q" "vp_start (pv_param s) = Some b" "vparam_in m b q ((pv_param s)\<lparr>vp_size := int q - int b\<rparr>)"
    using vparam_in_ge vparam_in_size [of m b q "pv_param s" q] by (auto simp: vparam_in_def)
  then show ?thesis
    using Endofparam assms by (auto simp: vp_exit_def set_size_def param_result_def param_out_def)
qed (use assms in \<open>auto simp: vp_exit_def param_result_def vp_fail_def\<close>)

lemma vp_no_end_result: "p \<le> q \<Longrightarrow> q \<le> z \<Longrightarrow> param_result m b p z (vp_no_end q s)"
  by (simp add: vp_no_end_def vp_fail_result)

lemma find_value_ok:
  assumes "z < length m" and "m ! z = NUL" and "value_inv m b q s" and "q \<le> z" and "p \<le> q"
  shows "\<exists>l q' s'. for_nul (fv_step E) m q s = Some (l, q', s') \<and>
    (case l of None \<Rightarrow> p \<le> q' \<and> q' \<le> z | Some l' \<Rightarrow> vp_out m b l' q' s' \<and> p \<le> q' \<and> q' < z)"
  using fvl.nul_total [OF assms(1,2,4), of p b s E] assms(3,5) by fastforce

lemma parse_via_param_named:
  assumes z: "z < length m" "m ! z = NUL" "e \<le> z"
    and l: "for_chars (vp_step E) m p e s0 = Some (Some l, q, s)" "vp_out m b l q s" "p \<le> q" "q < e"
  shows "\<exists>r. parse_via_param E m p e s0 = Some r \<and> param_result m b p z r"
proof (cases "l = Find_value")
  case True
  then have vi: "value_inv m b (Suc q) s" using l by simp
  have "Suc q \<le> z" "p \<le> Suc q" using l z by simp_all
  from find_value_ok [OF z(1,2) vi this] obtain l' q' s' where
      f: "for_nul (fv_step E) m (Suc q) s = Some (l', q', s')"
      and o: "case l' of None \<Rightarrow> p \<le> q' \<and> q' \<le> z | Some x \<Rightarrow> vp_out m b x q' s' \<and> p \<le> q' \<and> q' < z" by blast
  show ?thesis
  proof (cases l')
    case None
    then show ?thesis using l f o True by (simp add: parse_via_param_def vp_no_end_result)
  next
    case (Some x)
    then show ?thesis using l f o True vp_exit_ok [of m b x q' s' p z] by (simp add: parse_via_param_def)
  qed
next
  case False
  then show ?thesis using l vp_exit_ok [of m b l q s p z] z by (simp add: parse_via_param_def)
qed

lemma parse_via_param_ok:
  assumes z: "z < length m" "m ! z = NUL" "e \<le> z" and p: "b \<le> p" "p < z"
    and c: "m ! p \<notin> {SPC, TAB, LF, CR, CHR '';'', CHR '',''}"
  shows "\<exists>r. parse_via_param E m p e (vp_init (Some b) (Mst F_PARAM) saved) = Some r \<and> param_result m b p z r"
proof -
  let ?s = "vp_init (Some b) (Mst F_PARAM) saved"
  consider "e \<le> p" | "p < e" "m ! p = CHR ''=''" | "p < e" "m ! p \<noteq> CHR ''=''" by linarith
  then show ?thesis
  proof cases
    case 1
    then show ?thesis using p by (simp add: parse_via_param_def for_chars.simps [of _ m p] vp_no_end_result)
  next
    case 2
    then have "vp_step E p (m ! p) ?s = Some (Goto Vp_error p ?s)" by (simp add: vp_step_def vp_equal_def vp_init_def)
    then have "for_chars (vp_step E) m p e ?s = Some (Some Vp_error, p, ?s)" using 2 z by (intro for_chars_goto) simp_all
    then show ?thesis using vp_exit_ok [of m b Vp_error p ?s p z] p by (simp add: parse_via_param_def)
  next
    case 3
    let ?s1 = "?s\<lparr>pv_state := name_first (tolower_c (m ! p)), pv_param := (pv_param ?s)\<lparr>vp_name := mk_str p p\<rparr>\<rparr>"
    have "for_chars (vp_step E) m p e ?s = for_chars (vp_step E) m (Suc p) e ?s1"
      using 3 c z by (intro for_chars_turn) (simp_all add: vp_step_def vp_letter_def vp_init_def Let_def)
    moreover have "e < length m \<and> Suc p \<le> e \<and> name_inv m b p (Suc p) ?s1"
      using p z 3 seg_Cons [of p "Suc p" m] reads_first by (simp add: name_inv_def vp_init_def)
    ultimately consider q s where "for_chars (vp_step E) m p e ?s = Some (None, q, s)" "p \<le> q" "q \<le> z"
      | l q s where "for_chars (vp_step E) m p e ?s = Some (Some l, q, s)" "vp_out m b l q s" "p \<le> q" "q < e"
      using vpl.loop_total [of e m "Suc p" b p ?s1 E] z(3) by (fastforce simp: name_inv_def)
    then show ?thesis
      by cases (simp add: parse_via_param_def vp_no_end_result, rule parse_via_param_named [OF z])
  qed
qed

end
