(* ===== verification/Via.thy ===== *)
theory Via
  imports Via_Param Cseq
begin

text \<open>
  \<^verbatim>\<open>parse_via\<close> of \<^verbatim>\<open>parse_via.c\<close>: the start of a body (\<open>vs_step\<close>, the loop up to the end pointer), the rest of it (\<open>vm_step\<close>,
  the loop up to a zero byte) which calls \<^verbatim>\<open>parse_via_param\<close> for every parameter, the labels after the loops, and the
  jump back to \<^verbatim>\<open>parse_again\<close> for the next body of a compact header.
\<close>

record via_vars =
  vv_state :: via_state
  vv_saved :: via_state
  vv_vb :: via_body
  vv_param_start :: "ptr option"
  vv_nest :: int
  vv_allocs :: nat

datatype via_label = Main_via | Via_endofheader | Via_nextvia | Via_parse_error | Via_error

type_synonym via_act = "(via_label, via_vars) act option"

definition upd_vb :: "(via_body \<Rightarrow> via_body) \<Rightarrow> via_vars \<Rightarrow> via_vars" where
  "upd_vb f s = s\<lparr>vv_vb := f (vv_vb s)\<rparr>"

definition goto_st :: "via_state \<Rightarrow> ptr \<Rightarrow> via_vars \<Rightarrow> via_act" where
  "goto_st st tmp s = Some (Next tmp (s\<lparr>vv_state := st\<rparr>))"

definition via_stop :: "via_label \<Rightarrow> ptr \<Rightarrow> via_vars \<Rightarrow> via_act" where
  "via_stop l tmp s = Some (Goto l tmp s)"

section \<open>The start of a body\<close>

definition name_len :: "uri_env \<Rightarrow> ptr \<Rightarrow> via_vars \<Rightarrow> via_vars" where
  "name_len E tmp = upd_vb (\<lambda>b. b\<lparr>vb_name := sclose E tmp (vb_name b)\<rparr>)"

definition version_len :: "uri_env \<Rightarrow> ptr \<Rightarrow> via_vars \<Rightarrow> via_vars" where
  "version_len E tmp = upd_vb (\<lambda>b. b\<lparr>vb_version := sclose E tmp (vb_version b)\<rparr>)"

definition proto_done :: "uri_env \<Rightarrow> sip_protos \<Rightarrow> ptr \<Rightarrow> via_vars \<Rightarrow> via_vars" where
  "proto_done E pr tmp = upd_vb (\<lambda>b. b\<lparr>vb_transport := sclose E tmp (vb_transport b), vb_proto := pr\<rparr>)"

text \<open>The protocol of a final state, at a blank, at a line feed and at a carriage return.\<close>

definition space_proto :: "via_start \<Rightarrow> sip_protos option" where
  "space_proto x = (case x of FIN_UDP \<Rightarrow> Some PROTO_UDP | FIN_TCP \<Rightarrow> Some PROTO_TCP | FIN_TLS \<Rightarrow> Some PROTO_TLS
     | FIN_SCTP \<Rightarrow> Some PROTO_SCTP | FIN_WS \<Rightarrow> Some PROTO_WS | WS_WSS \<Rightarrow> Some PROTO_WS | FIN_WSS \<Rightarrow> Some PROTO_WSS
     | OTHER_PROTO \<Rightarrow> Some PROTO_OTHER | _ \<Rightarrow> None)"

definition lf_proto :: "via_start \<Rightarrow> sip_protos option" where
  "lf_proto x = (case x of FIN_UDP \<Rightarrow> Some PROTO_UDP | FIN_TCP \<Rightarrow> Some PROTO_TCP | FIN_TLS \<Rightarrow> Some PROTO_TLS
     | FIN_WS \<Rightarrow> Some PROTO_WS | WS_WSS \<Rightarrow> Some PROTO_WS | FIN_WSS \<Rightarrow> Some PROTO_WS
     | OTHER_PROTO \<Rightarrow> Some PROTO_OTHER | _ \<Rightarrow> None)"

definition cr_proto :: "via_start \<Rightarrow> sip_protos option" where
  "cr_proto x = (case x of FIN_UDP \<Rightarrow> Some PROTO_UDP | FIN_TCP \<Rightarrow> Some PROTO_TCP | FIN_TLS \<Rightarrow> Some PROTO_TLS
     | FIN_WS \<Rightarrow> Some PROTO_WS | WS_WSS \<Rightarrow> Some PROTO_WS | FIN_WSS \<Rightarrow> Some PROTO_WSS
     | OTHER_PROTO \<Rightarrow> Some PROTO_OTHER | _ \<Rightarrow> None)"

definition start_blanks :: "via_start set" where
  "start_blanks = {L_VER, L_PROTO, F_SIP, F_VER, F_PROTO}"

definition vs_space :: "uri_env \<Rightarrow> ptr \<Rightarrow> via_vars \<Rightarrow> via_act" where
  "vs_space E tmp s = (case vv_state s of
       Sst x \<Rightarrow>
         (if x \<in> start_blanks then Some (Next tmp s)
          else if x = FIN_SIP then goto_st (Sst L_VER) tmp (name_len E tmp s)
          else if x = FIN_VER then goto_st (Sst L_PROTO) tmp (version_len E tmp s)
          else (case space_proto x of
                  None \<Rightarrow> via_stop Via_parse_error tmp s
                | Some pr \<Rightarrow> via_stop Main_via tmp ((proto_done E pr tmp s)\<lparr>vv_state := Mst F_HOST\<rparr>)))
     | st \<Rightarrow> (if eol_state st then goto_st (vv_saved s) tmp s else via_stop Via_parse_error tmp s))"

definition vs_eol :: "uri_env \<Rightarrow> via_main \<Rightarrow> (via_start \<Rightarrow> sip_protos option) \<Rightarrow> ptr \<Rightarrow> via_vars \<Rightarrow> via_act" where
  "vs_eol E f protos tmp s = (case vv_state s of
       Sst x \<Rightarrow>
         (if x \<in> start_blanks then goto_st (Mst f) tmp (s\<lparr>vv_saved := Sst x\<rparr>)
          else if x = FIN_SIP then goto_st (Mst f) tmp ((name_len E tmp s)\<lparr>vv_saved := Sst L_VER\<rparr>)
          else if x = FIN_VER then goto_st (Mst f) tmp ((version_len E tmp s)\<lparr>vv_saved := Sst L_PROTO\<rparr>)
          else (case protos x of
                  None \<Rightarrow> via_stop Via_parse_error tmp s
                | Some pr \<Rightarrow> via_stop Main_via tmp ((proto_done E pr tmp s)\<lparr>vv_state := Mst f, vv_saved := Mst F_HOST\<rparr>)))
     | st \<Rightarrow>
         (if f = F_LF \<and> st = Mst F_CR then goto_st (Mst F_CRLF) tmp s
          else if eol_state st then via_stop Via_endofheader tmp (s\<lparr>vv_state := vv_saved s\<rparr>)
          else via_stop Via_parse_error tmp s))"

definition vs_lf :: "uri_env \<Rightarrow> ptr \<Rightarrow> via_vars \<Rightarrow> via_act" where
  "vs_lf E = vs_eol E F_LF lf_proto"

definition vs_cr :: "uri_env \<Rightarrow> ptr \<Rightarrow> via_vars \<Rightarrow> via_act" where
  "vs_cr E = vs_eol E F_CR cr_proto"

definition vs_slash :: "uri_env \<Rightarrow> ptr \<Rightarrow> via_vars \<Rightarrow> via_act" where
  "vs_slash E tmp s = (let st = vv_state s in
     if st = Sst FIN_SIP then goto_st (Sst F_VER) tmp (name_len E tmp s)
     else if st = Sst FIN_VER then goto_st (Sst F_PROTO) tmp (version_len E tmp s)
     else if st = Sst L_VER then goto_st (Sst F_VER) tmp s
     else if st = Sst L_PROTO then goto_st (Sst F_PROTO) tmp s
     else via_stop Via_parse_error tmp s)"

text \<open>
  The other characters: \<open>start_first\<close> are the transitions from \<^verbatim>\<open>F_SIP\<close>, \<^verbatim>\<open>F_VER\<close> and \<^verbatim>\<open>F_PROTO\<close>, which also start a string,
  \<open>start_next\<close> those inside a known word; inside a protocol every other character leads to \<^verbatim>\<open>OTHER_PROTO\<close>.
\<close>

definition in_proto :: "via_start set" where
  "in_proto = {UDP1, UDP2, FIN_UDP, TCP_TLS1, TCP2, FIN_TCP, TLS2, FIN_TLS, SCTP1, SCTP2, SCTP3, FIN_SCTP, WS1, WS_WSS,
     FIN_WS, FIN_WSS, OTHER_PROTO}"

definition start_next :: "char \<Rightarrow> via_start \<Rightarrow> via_start option" where
  "start_next c x = map_of
     [((CHR ''s'', TLS2), FIN_TLS), ((CHR ''s'', WS1), WS_WSS), ((CHR ''s'', WS_WSS), FIN_WSS),
      ((CHR ''i'', SIP1), SIP2),
      ((CHR ''p'', SIP2), FIN_SIP), ((CHR ''p'', UDP2), FIN_UDP), ((CHR ''p'', TCP2), FIN_TCP), ((CHR ''p'', SCTP3), FIN_SCTP),
      ((CHR ''d'', UDP1), UDP2),
      ((CHR ''t'', SCTP2), SCTP3),
      ((CHR ''c'', TCP_TLS1), TCP2), ((CHR ''c'', SCTP1), SCTP2),
      ((CHR ''l'', TCP_TLS1), TLS2),
      ((CHR ''.'', VER1), VER2),
      ((CHR ''0'', VER2), FIN_VER)] (c, x)"

definition proto_first :: "char \<Rightarrow> via_start option" where
  "proto_first c =
     (if c = CHR ''s'' then Some SCTP1 else if c = CHR ''u'' then Some UDP1 else if c = CHR ''t'' then Some TCP_TLS1
      else if c = CHR ''w'' then Some WS1 else if c \<in> set ''ipdcl2.0'' then None else Some OTHER_PROTO)"

definition vs_word :: "ptr \<Rightarrow> char \<Rightarrow> via_vars \<Rightarrow> via_act" where
  "vs_word tmp c s = (case vv_state s of
       Sst x \<Rightarrow>
         (if x = F_SIP \<and> c = CHR ''s'' then
            goto_st (Sst SIP1) tmp (upd_vb (\<lambda>b. b\<lparr>vb_name := sopen tmp (vb_name b)\<rparr>) s)
          else if x = F_VER \<and> c = CHR ''2'' then
            goto_st (Sst VER1) tmp (upd_vb (\<lambda>b. b\<lparr>vb_version := sopen tmp (vb_version b)\<rparr>) s)
          else if x = F_PROTO then
            (case proto_first c of
               None \<Rightarrow> via_stop Via_parse_error tmp s
             | Some y \<Rightarrow> goto_st (Sst y) tmp (upd_vb (\<lambda>b. b\<lparr>vb_transport := sopen tmp (vb_transport b)\<rparr>) s))
          else (case start_next c x of
                  Some y \<Rightarrow> goto_st (Sst y) tmp s
                | None \<Rightarrow> if x \<in> in_proto then goto_st (Sst OTHER_PROTO) tmp s else via_stop Via_parse_error tmp s))
     | _ \<Rightarrow> via_stop Via_parse_error tmp s)"

definition vs_step :: "uri_env \<Rightarrow> ptr \<Rightarrow> char \<Rightarrow> via_vars \<Rightarrow> via_act" where
  "vs_step E tmp c s =
     (if c \<in> {SPC, TAB} then vs_space E tmp s
      else if c = LF then vs_lf E tmp s
      else if c = CR then vs_cr E tmp s
      else if c = CHR ''/'' then vs_slash E tmp s
      else vs_word tmp (tolower_c c) s)"

section \<open>The rest of a body\<close>

definition host_len :: "uri_env \<Rightarrow> ptr \<Rightarrow> via_vars \<Rightarrow> via_vars" where
  "host_len E tmp = upd_vb (\<lambda>b. b\<lparr>vb_host := sclose E tmp (vb_host b)\<rparr>)"

definition port_len :: "uri_env \<Rightarrow> ptr \<Rightarrow> via_vars \<Rightarrow> via_vars" where
  "port_len E tmp = upd_vb (\<lambda>b. b\<lparr>vb_port_str := sclose E tmp (vb_port_str b)\<rparr>)"

definition params_len :: "uri_env \<Rightarrow> ptr \<Rightarrow> via_vars \<Rightarrow> via_vars" where
  "params_len E tmp = upd_vb (\<lambda>b. b\<lparr>vb_params := sclose E tmp (vb_params b)\<rparr>)"

definition comment_start :: "ptr \<Rightarrow> via_vars \<Rightarrow> via_vars" where
  "comment_start tmp = upd_vb (\<lambda>b. b\<lparr>vb_comment := sopen tmp (vb_comment b)\<rparr>)"

definition vm_space :: "uri_env \<Rightarrow> ptr \<Rightarrow> via_vars \<Rightarrow> via_act" where
  "vm_space E tmp s = (let st = vv_state s in
     if st \<in> {Mst F_HOST, Mst L_PORT, Mst F_PORT, Mst L_PARAM, Mst F_PARAM, Mst L_VIA, Mst F_VIA, Mst F_COMMENT, Mst P_COMMENT}
     then Some (Next tmp s)
     else if st = Mst P_HOST then goto_st (Mst L_PORT) tmp (host_len E tmp s)
     else if st = Mst P_PORT then goto_st (Mst L_PARAM) tmp (port_len E tmp s)
     else if st = Mst P_PARAM then goto_st (Mst L_PARAM) tmp s
     else if eol_state st then goto_st (vv_saved s) tmp s
     else via_stop Via_parse_error tmp s)"

definition vm_eol :: "uri_env \<Rightarrow> via_main \<Rightarrow> ptr \<Rightarrow> via_vars \<Rightarrow> via_act" where
  "vm_eol E f tmp s = (let st = vv_state s in
     if st \<in> {Mst F_HOST, Mst L_PORT, Mst F_PORT, Mst L_PARAM, Mst F_PARAM, Mst F_VIA, Mst L_VIA, Mst F_COMMENT, Mst P_COMMENT,
              Mst F_IP6HOST, Mst P_IP6HOST}
     then goto_st (Mst f) tmp (s\<lparr>vv_saved := st\<rparr>)
     else if st = Mst P_HOST then goto_st (Mst f) tmp ((host_len E tmp s)\<lparr>vv_saved := Mst L_PORT\<rparr>)
     else if st = Mst P_PORT then goto_st (Mst f) tmp ((port_len E tmp s)\<lparr>vv_saved := Mst L_PARAM\<rparr>)
     else if st = Mst P_PARAM then goto_st (Mst f) tmp (s\<lparr>vv_saved := Mst L_PARAM\<rparr>)
     else if f = F_LF \<and> st = Mst F_CR then goto_st (Mst F_CRLF) tmp s
     else if eol_state st then via_stop Via_endofheader tmp (s\<lparr>vv_state := vv_saved s\<rparr>)
     else via_stop Via_parse_error tmp s)"

definition vm_lf :: "uri_env \<Rightarrow> ptr \<Rightarrow> via_vars \<Rightarrow> via_act" where
  "vm_lf E = vm_eol E F_LF"

definition vm_cr :: "uri_env \<Rightarrow> ptr \<Rightarrow> via_vars \<Rightarrow> via_act" where
  "vm_cr E = vm_eol E F_CR"

text \<open>What the punctuation cases share: everything is allowed in a comment, and a character other than a blank after a line end ends the header.\<close>

definition vm_other :: "ptr \<Rightarrow> via_vars \<Rightarrow> via_act" where
  "vm_other tmp s = (let st = vv_state s in
     if st = Mst F_COMMENT then goto_st (Mst P_COMMENT) tmp (comment_start tmp s)
     else if st = Mst P_COMMENT then Some (Next tmp s)
     else if eol_state st then via_stop Via_endofheader tmp s
     else via_stop Via_parse_error tmp s)"

definition vm_colon :: "uri_env \<Rightarrow> ptr \<Rightarrow> via_vars \<Rightarrow> via_act" where
  "vm_colon E tmp s = (let st = vv_state s in
     if st \<in> {Mst F_HOST, Mst F_IP6HOST} then goto_st (Mst P_IP6HOST) tmp s
     else if st = Mst P_IP6HOST then Some (Next tmp s)
     else if st = Mst P_HOST then goto_st (Mst F_PORT) tmp (host_len E tmp s)
     else if st = Mst L_PORT then goto_st (Mst F_PORT) tmp s
     else vm_other tmp s)"

definition vm_semi :: "uri_env \<Rightarrow> ptr \<Rightarrow> via_vars \<Rightarrow> via_act" where
  "vm_semi E tmp s = (let st = vv_state s; s1 = s\<lparr>vv_param_start := Some (tmp + 1)\<rparr> in
     if st = Mst P_HOST then goto_st (Mst F_PARAM) tmp (host_len E tmp s1)
     else if st = Mst P_PORT then goto_st (Mst F_PARAM) tmp (port_len E tmp s1)
     else if st \<in> {Mst L_PORT, Mst L_PARAM, Mst P_PARAM} then goto_st (Mst F_PARAM) tmp s1
     else vm_other tmp s)"

definition vm_comma :: "uri_env \<Rightarrow> ptr \<Rightarrow> via_vars \<Rightarrow> via_act" where
  "vm_comma E tmp s = (let st = vv_state s in
     if st = Mst P_HOST then goto_st (Mst F_VIA) tmp (host_len E tmp s)
     else if st = Mst P_PORT then goto_st (Mst F_VIA) tmp (port_len E tmp s)
     else if st \<in> {Mst L_PORT, Mst L_PARAM, Mst P_PARAM, Mst L_VIA} then goto_st (Mst F_VIA) tmp s
     else if st = Mst F_VIA then Some (Next tmp s)
     else vm_other tmp s)"

definition vm_lparen :: "uri_env \<Rightarrow> ptr \<Rightarrow> via_vars \<Rightarrow> via_act" where
  "vm_lparen E tmp s = (let st = vv_state s; s1 = s\<lparr>vv_nest := vv_nest s + 1\<rparr> in
     if st = Mst P_HOST then goto_st (Mst F_COMMENT) tmp (host_len E tmp s1)
     else if st = Mst P_PORT then goto_st (Mst F_COMMENT) tmp (port_len E tmp s1)
     else if st \<in> {Mst P_PARAM, Mst L_PORT, Mst L_PARAM, Mst L_VIA} then goto_st (Mst F_COMMENT) tmp (params_len E tmp s1)
     else if st \<in> {Mst P_COMMENT, Mst F_COMMENT} then Some (Next tmp s1)
     else if eol_state st then via_stop Via_endofheader tmp s
     else via_stop Via_parse_error tmp s)"

definition vm_rparen :: "uri_env \<Rightarrow> ptr \<Rightarrow> via_vars \<Rightarrow> via_act" where
  "vm_rparen E tmp s = (let st = vv_state s in
     if st \<in> {Mst F_COMMENT, Mst P_COMMENT} then
       (if vv_nest s \<noteq> 0 then
          (let s1 = s\<lparr>vv_nest := vv_nest s - 1\<rparr> in
           if vv_nest s1 = 0 then goto_st (Mst L_VIA) tmp (upd_vb (\<lambda>b. b\<lparr>vb_comment := sclose E tmp (vb_comment b)\<rparr>) s1)
           else Some (Next tmp s1))
        else via_stop Via_parse_error tmp s)
     else if eol_state st then via_stop Via_endofheader tmp s
     else via_stop Via_parse_error tmp s)"

definition vm_lbrack :: "ptr \<Rightarrow> via_vars \<Rightarrow> via_act" where
  "vm_lbrack tmp s =
     (if vv_state s = Mst F_HOST then goto_st (Mst F_IP6HOST) tmp (upd_vb (\<lambda>b. b\<lparr>vb_host := sopen tmp (vb_host b)\<rparr>) s)
      else vm_other tmp s)"

definition vm_rbrack :: "uri_env \<Rightarrow> ptr \<Rightarrow> via_vars \<Rightarrow> via_act" where
  "vm_rbrack E tmp s =
     (if vv_state s = Mst P_IP6HOST then
        goto_st (Mst L_PORT) tmp (upd_vb (\<lambda>b. b\<lparr>vb_host := (vb_host b)\<lparr>str_len := pdiff E tmp (str_s (vb_host b)) + 1\<rparr>\<rparr>) s)
      else vm_other tmp s)"

definition host_char_ok :: "char \<Rightarrow> bool" where
  "host_char_ok c \<longleftrightarrow> \<not> ((schar c < 97 \<or> schar c > 122) \<and> (schar c < 65 \<or> schar c > 90) \<and> (schar c < 48 \<or> schar c > 57) \<and>
     c \<noteq> CHR ''-'' \<and> c \<noteq> CHR ''.'')"

definition ip6_char_ok :: "char \<Rightarrow> bool" where
  "ip6_char_ok c \<longleftrightarrow> \<not> ((schar c < 97 \<or> schar c > 102) \<and> (schar c < 65 \<or> schar c > 70) \<and> (schar c < 48 \<or> schar c > 57) \<and>
     c \<noteq> CHR '':'')"

text \<open>A parameter: allocate it, parse it, set the length of all parameters, link it and set its shortcut.\<close>

definition shortcut :: "via_param \<Rightarrow> via_body \<Rightarrow> via_body" where
  "shortcut p b = (case vp_type p of
       FIN_BRANCH \<Rightarrow> b\<lparr>vb_branch := Some p\<rparr>
     | FIN_RECEIVED \<Rightarrow> b\<lparr>vb_received := Some p\<rparr>
     | FIN_RPORT \<Rightarrow> b\<lparr>vb_rport := Some p\<rparr>
     | FIN_I \<Rightarrow> b\<lparr>vb_i := Some p\<rparr>
     | FIN_ALIAS \<Rightarrow> b\<lparr>vb_alias := Some p\<rparr>
     | FIN_MADDR \<Rightarrow> b\<lparr>vb_maddr := Some p\<rparr>
     | _ \<Rightarrow> b)"

definition link_via_param :: "via_param \<Rightarrow> via_body \<Rightarrow> via_body" where
  "link_via_param p b = shortcut p (b\<lparr>vb_param_lst := vb_param_lst b @ [p]\<rparr>)"

definition with_params :: "ptr option \<Rightarrow> via_body \<Rightarrow> via_body" where
  "with_params st vb = (if str_s (vb_params vb) = None then vb\<lparr>vb_params := (vb_params vb)\<lparr>str_s := st\<rparr>\<rparr> else vb)"

definition vm_param :: "(nat \<Rightarrow> bool) \<Rightarrow> uri_env \<Rightarrow> mem \<Rightarrow> ptr \<Rightarrow> ptr \<Rightarrow> via_vars \<Rightarrow> via_act" where
  "vm_param alloc E m e tmp0 s0 =
     (let s = upd_vb (with_params (vv_param_start s0)) s0;
          n = vv_allocs s; s1 = s\<lparr>vv_allocs := Suc n\<rparr>
      in if \<not> alloc n then via_stop Via_error tmp0 s1
         else do {
           (tmp, v) \<leftarrow> parse_via_param E m tmp0 e (vp_init (vv_param_start s) (vv_state s) (vv_saved s));
           let s2 = s1\<lparr>vv_state := pv_state v, vv_saved := pv_saved v\<rparr>;
           let s3 = (if pv_state v = Mst F_PARAM then s2\<lparr>vv_param_start := Some (tmp + 1)\<rparr> else s2);
           let p = pv_param v;
           if pv_state v \<in> {Mst F_PARAM, Mst L_PARAM, Mst F_LF, Mst F_CR} then
             Some (Next tmp (upd_vb (link_via_param p) (params_len E tmp s3)))
           else if pv_state v \<in> {Mst F_VIA, Mst END_OF_HEADER} then do {
             b \<leftarrow> vp_start p;
             let s4 = upd_vb (link_via_param p)
               (upd_vb (\<lambda>x. x\<lparr>vb_params := (vb_params x)\<lparr>str_len := pdiff E b (str_s (vb_params x)) + vp_size p\<rparr>\<rparr>) s3);
             if pv_state v = Mst END_OF_HEADER then via_stop Via_endofheader tmp (s4\<lparr>vv_state := vv_saved s4\<rparr>)
             else Some (Next tmp s4) }
           else via_stop Via_parse_error tmp s2 })"

definition vm_default :: "(nat \<Rightarrow> bool) \<Rightarrow> uri_env \<Rightarrow> mem \<Rightarrow> ptr \<Rightarrow> ptr \<Rightarrow> char \<Rightarrow> via_vars \<Rightarrow> via_act" where
  "vm_default alloc E m e tmp c s = (let st = vv_state s in
     if st \<in> {Mst F_HOST, Mst P_HOST} then
       (let s1 = (if st = Mst F_HOST then (upd_vb (\<lambda>b. b\<lparr>vb_host := sopen tmp (vb_host b)\<rparr>) s)\<lparr>vv_state := Mst P_HOST\<rparr> else s)
        in if host_char_ok c then Some (Next tmp s1) else via_stop Via_parse_error tmp s1)
     else if st \<in> {Mst F_PORT, Mst P_PORT} then
       (let s1 = (if st = Mst F_PORT then (upd_vb (\<lambda>b. b\<lparr>vb_port_str := sopen tmp (vb_port_str b)\<rparr>) s)\<lparr>vv_state := Mst P_PORT\<rparr> else s)
        in if is_digit c then Some (Next tmp s1) else via_stop Via_parse_error tmp s1)
     else if st = Mst F_PARAM then vm_param alloc E m e tmp s
     else if st = Mst P_PARAM then Some (Next tmp s)
     else if st = Mst F_VIA then via_stop Via_nextvia tmp s
     else if st \<in> {Mst F_IP6HOST, Mst P_IP6HOST} then
       (if ip6_char_ok c then goto_st (Mst P_IP6HOST) tmp s else via_stop Via_parse_error tmp (s\<lparr>vv_state := Mst P_IP6HOST\<rparr>))
     else vm_other tmp s)"

definition vm_step :: "(nat \<Rightarrow> bool) \<Rightarrow> uri_env \<Rightarrow> mem \<Rightarrow> ptr \<Rightarrow> ptr \<Rightarrow> char \<Rightarrow> via_vars \<Rightarrow> via_act" where
  "vm_step alloc E m e tmp c s =
     (if c \<in> {SPC, TAB} then vm_space E tmp s
      else if c = LF then vm_lf E tmp s
      else if c = CR then vm_cr E tmp s
      else if c = CHR '':'' then vm_colon E tmp s
      else if c = CHR '';'' then vm_semi E tmp s
      else if c = CHR '','' then vm_comma E tmp s
      else if c = CHR ''('' then vm_lparen E tmp s
      else if c = CHR '')'' then vm_rparen E tmp s
      else if c = CHR ''['' then vm_lbrack tmp s
      else if c = CHR '']'' then vm_rbrack E tmp s
      else vm_default alloc E m e tmp c s)"

section \<open>The labels and the function\<close>

type_synonym via_result = "ptr \<times> via_body list \<times> nat"

text \<open>The error label marks the current body and the first one.\<close>

definition via_fail :: "ptr \<Rightarrow> via_body list \<Rightarrow> via_vars \<Rightarrow> via_result" where
  "via_fail tmp done s =
     (tmp, (case done @ [(vv_vb s)\<lparr>vb_error := PARSE_ERROR\<rparr>] of [] \<Rightarrow> [] | b # bs \<Rightarrow> b\<lparr>vb_error := PARSE_ERROR\<rparr> # bs), vv_allocs s)"

definition via_end_states :: "via_state set" where
  "via_end_states = {Mst P_HOST, Mst L_PORT, Mst P_PORT, Mst L_PARAM, Mst P_PARAM, Vst P_VALUE, Tst GEN_PARAM, Tst FIN_HIDDEN, Mst L_VIA}"

text \<open>The body is complete: its size and its port; \<open>None\<close> inside when the port is not a number.\<close>

definition via_close :: "mem \<Rightarrow> ptr \<Rightarrow> ptr \<Rightarrow> via_vars \<Rightarrow> (via_vars \<times> bool) option" where
  "via_close m buffer tmp s =
     (let s1 = upd_vb (\<lambda>b. b\<lparr>vb_error := PARSE_OK, vb_bsize := int tmp - int buffer\<rparr>) s
      in case str_s (vb_port_str (vv_vb s1)) of
           None \<Rightarrow> Some (s1, True)
         | Some p \<Rightarrow> do {
             (port, err) \<leftarrow> str2s m p (nat (str_len (vb_port_str (vv_vb s1))));
             Some (upd_vb (\<lambda>b. b\<lparr>vb_port := port\<rparr>) s1, err = 0) })"

definition via_endofpacket :: "mem \<Rightarrow> ptr \<Rightarrow> ptr \<Rightarrow> via_body list \<Rightarrow> via_vars \<Rightarrow> via_result option" where
  "via_endofpacket m buffer tmp done s =
     (if vv_state s \<in> via_end_states then do {
        (s1, ok) \<leftarrow> via_close m buffer tmp s;
        Some (if ok then (tmp, done @ [vv_vb s1], vv_allocs s1) else via_fail tmp done s1) }
      else Some (via_fail tmp done s))"

definition via_init :: "via_body \<Rightarrow> nat \<Rightarrow> via_vars" where
  "via_init b n = \<lparr>vv_state = Sst F_SIP, vv_saved = Mst F_HOST, vv_vb = b\<lparr>vb_error := PARSE_ERROR\<rparr>, vv_param_start = None,
     vv_nest = 0, vv_allocs = n\<rparr>"

text \<open>
  The second loop and the labels it leads to: the result of the function, or where the next body starts.
\<close>

definition via_nextvia :: "(nat \<Rightarrow> bool) \<Rightarrow> mem \<Rightarrow> ptr \<Rightarrow> ptr \<Rightarrow> via_body list \<Rightarrow> via_vars
    \<Rightarrow> (via_result + (ptr \<times> via_body list \<times> nat)) option" where
  "via_nextvia alloc m buffer tmp done s = do {
     (s1, ok) \<leftarrow> via_close m buffer tmp s;
     if \<not> ok then Some (Inl (via_fail tmp done s1))
     else (let k = vv_allocs s1; s2 = s1\<lparr>vv_allocs := Suc k\<rparr>
           in if alloc k then Some (Inr (tmp, done @ [vv_vb s2], vv_allocs s2)) else Some (Inl (via_fail tmp done s2))) }"

definition main_via :: "(nat \<Rightarrow> bool) \<Rightarrow> uri_env \<Rightarrow> mem \<Rightarrow> ptr \<Rightarrow> ptr \<Rightarrow> via_body list \<Rightarrow> ptr \<Rightarrow> via_vars
    \<Rightarrow> (via_result + (ptr \<times> via_body list \<times> nat)) option" where
  "main_via alloc E m e buffer done tmp0 s0 = do {
     (l, tmp, s) \<leftarrow> for_nul (vm_step alloc E m e) m (tmp0 + 1) s0;
     case l of
       None \<Rightarrow> map_option Inl (via_endofpacket m buffer tmp done s)
     | Some Via_endofheader \<Rightarrow> map_option Inl (via_endofpacket m buffer tmp done (s\<lparr>vv_state := vv_saved s\<rparr>))
     | Some Via_nextvia \<Rightarrow> via_nextvia alloc m buffer tmp done s
     | Some _ \<Rightarrow> Some (Inl (via_fail tmp done s)) }"

definition via_one :: "(nat \<Rightarrow> bool) \<Rightarrow> uri_env \<Rightarrow> mem \<Rightarrow> ptr \<Rightarrow> ptr \<Rightarrow> via_body list \<Rightarrow> via_body \<Rightarrow> nat
    \<Rightarrow> (via_result + (ptr \<times> via_body list \<times> nat)) option" where
  "via_one alloc E m e buffer done b n = do {
     (l, tmp, s) \<leftarrow> for_chars (vs_step E) m buffer e (via_init b n);
     if l = Some Main_via then main_via alloc E m e buffer done tmp s
     else if l = Some Via_endofheader then map_option Inl (via_endofpacket m buffer tmp done (s\<lparr>vv_state := vv_saved s\<rparr>))
     else Some (Inl (via_fail tmp done s)) }"

partial_function (option) parse_again ::
  "(nat \<Rightarrow> bool) \<Rightarrow> uri_env \<Rightarrow> mem \<Rightarrow> ptr \<Rightarrow> ptr \<Rightarrow> via_body list \<Rightarrow> via_body \<Rightarrow> nat \<Rightarrow> via_result option"
where
  "parse_again alloc E m e buffer done b n =
     Option.bind (via_one alloc E m e buffer done b n) (\<lambda>r. case r of
       Inl res \<Rightarrow> Some res
     | Inr x \<Rightarrow> parse_again alloc E m e (fst x) (fst (snd x)) via_body_zero (snd (snd x)))"

lemmas [code] = parse_again.simps

definition parse_via :: "(nat \<Rightarrow> bool) \<Rightarrow> uri_env \<Rightarrow> mem \<Rightarrow> ptr \<Rightarrow> ptr \<Rightarrow> via_body \<Rightarrow> nat \<Rightarrow> via_result option" where
  "parse_via alloc E m buffer e vbody n = parse_again alloc E m e buffer [] vbody n"

end
