(* ===== verification/Via_Safe.thy ===== *)
theory Via_Safe
  imports Via
begin

text \<open>
  What \<^verbatim>\<open>parse_via\<close> guarantees. \<open>start_inv\<close> says what the first loop has read in each state (the words \<^verbatim>\<open>SIP\<close>, \<^verbatim>\<open>2.0\<close> and a
  protocol), \<open>main_inv\<close> where the strings and parameters of the body lie during the second loop; both loops are
  instances of the loop locales, and the bodies of a compact header follow by induction.
\<close>

section \<open>The start of a body\<close>

definition protos :: "(char list \<times> sip_protos) list" where
  "protos = [(''udp'', PROTO_UDP), (''tcp'', PROTO_TCP), (''tls'', PROTO_TLS), (''sctp'', PROTO_SCTP), (''ws'', PROTO_WS), (''wss'', PROTO_WSS)]"

definition via_proto :: "char list \<Rightarrow> sip_protos" where
  "via_proto l = (case map_of protos l of None \<Rightarrow> PROTO_OTHER | Some p \<Rightarrow> p)"

text \<open>The protocol belongs to the transport, except that a line feed after \<^verbatim>\<open>WSS\<close> makes it \<^verbatim>\<open>WS\<close>.\<close>

definition proto_ok :: "char list \<Rightarrow> sip_protos \<Rightarrow> bool" where
  "proto_ok l pr \<longleftrightarrow> pr = via_proto l \<or> l = ''wss'' \<and> pr = PROTO_WS"

fun word_text :: "via_start \<Rightarrow> char list" where
  "word_text SIP1 = ''s''" | "word_text SIP2 = ''si''" | "word_text FIN_SIP = ''sip''"
| "word_text VER1 = ''2''" | "word_text VER2 = ''2.''" | "word_text FIN_VER = ''2.0''"
| "word_text UDP1 = ''u''" | "word_text UDP2 = ''ud''" | "word_text FIN_UDP = ''udp''"
| "word_text TCP_TLS1 = ''t''" | "word_text TCP2 = ''tc''" | "word_text FIN_TCP = ''tcp''"
| "word_text TLS2 = ''tl''" | "word_text FIN_TLS = ''tls''"
| "word_text SCTP1 = ''s''" | "word_text SCTP2 = ''sc''" | "word_text SCTP3 = ''sct''" | "word_text FIN_SCTP = ''sctp''"
| "word_text WS1 = ''w''" | "word_text WS_WSS = ''ws''" | "word_text FIN_WSS = ''wss''"
| "word_text _ = []"

definition reads_word :: "via_start \<Rightarrow> char list \<Rightarrow> bool" where
  "reads_word x l \<longleftrightarrow> (if x = OTHER_PROTO then l \<noteq> [] \<and> list_all (\<lambda>w. take (length l) (fst w) \<noteq> l) protos else l = word_text x \<and> l \<noteq> [])"

lemma other_word_snoc: "reads_word OTHER_PROTO l \<Longrightarrow> reads_word OTHER_PROTO (l @ [c])"
  unfolding reads_word_def list_all_iff by (auto dest: take_snocD simp del: length_append)

lemma word_next:
  assumes "reads_word x l" and "start_next c x = Some y"
  shows "reads_word y (l @ [c])"
  using assms by (auto simp: start_next_def reads_word_def split: if_splits)

lemma word_other:
  assumes "reads_word x l" and "start_next c x = None" and "x \<in> in_proto"
  shows "reads_word OTHER_PROTO (l @ [c])"
proof (cases "x = OTHER_PROTO")
  case True
  with assms(1) show ?thesis using other_word_snoc by simp
next
  case False
  with assms show ?thesis
    by (cases x) (simp_all add: in_proto_def start_next_def reads_word_def protos_def split: if_splits)
qed

lemma word_first: "proto_first c = Some y \<Longrightarrow> reads_word y [c]"
  by (auto simp: proto_first_def reads_word_def protos_def split: if_splits)

lemma other_proto: "reads_word OTHER_PROTO l \<Longrightarrow> via_proto l = PROTO_OTHER"
  by (auto simp: reads_word_def via_proto_def list_all_iff map_of_eq_None_iff split: option.splits dest!: map_of_SomeD)

lemma proto_okI:
  assumes "reads_word x l" and "space_proto x = Some pr \<or> lf_proto x = Some pr \<or> cr_proto x = Some pr"
  shows "proto_ok l pr"
proof (cases "x = OTHER_PROTO")
  case True
  with assms show ?thesis using other_proto by (auto simp: proto_ok_def space_proto_def lf_proto_def cr_proto_def)
next
  case False
  with assms show ?thesis
    by (cases x) (auto simp: reads_word_def proto_ok_def via_proto_def protos_def space_proto_def lf_proto_def cr_proto_def)
qed

definition open_word :: "mem \<Rightarrow> ptr \<Rightarrow> ptr \<Rightarrow> via_start \<Rightarrow> str \<Rightarrow> bool" where
  "open_word m b q x s \<longleftrightarrow> (\<exists>n. s = mk_str n n \<and> b \<le> n \<and> n < q \<and> reads_word x (map tolower_c (seg m n q)))"

definition closed_word :: "mem \<Rightarrow> ptr \<Rightarrow> ptr \<Rightarrow> (char list \<Rightarrow> bool) \<Rightarrow> str \<Rightarrow> bool" where
  "closed_word m b q P s \<longleftrightarrow> (\<exists>n k. s = mk_str n k \<and> b \<le> n \<and> n \<le> k \<and> k \<le> q \<and> P (map tolower_c (seg m n k)))"

definition rest_zero :: "via_body \<Rightarrow> bool" where
  "rest_zero vb \<longleftrightarrow> vb_host vb = str_null \<and> vb_port_str vb = str_null \<and> vb_params vb = str_null \<and> vb_comment vb = str_null \<and>
     vb_port vb = 0 \<and> vb_param_lst vb = [] \<and> vb_branch vb = None \<and> vb_received vb = None \<and> vb_rport vb = None \<and> vb_i vb = None \<and>
     vb_alias vb = None \<and> vb_maddr vb = None"

definition sip_states :: "via_start set" where
  "sip_states = {SIP1, SIP2, FIN_SIP}"

definition ver_states :: "via_start set" where
  "ver_states = {VER1, VER2, FIN_VER}"

definition start_inv :: "mem \<Rightarrow> ptr \<Rightarrow> ptr \<Rightarrow> via_start \<Rightarrow> via_body \<Rightarrow> bool" where
  "start_inv m b q x vb \<longleftrightarrow> rest_zero vb \<and>
     (if x = F_SIP then vb_name vb = str_null
      else if x \<in> sip_states then open_word m b q x (vb_name vb) else closed_word m b q (\<lambda>l. l = ''sip'') (vb_name vb)) \<and>
     (if x \<in> sip_states \<union> {F_SIP, L_VER, F_VER} then vb_version vb = str_null
      else if x \<in> ver_states then open_word m b q x (vb_version vb) else closed_word m b q (\<lambda>l. l = ''2.0'') (vb_version vb)) \<and>
     (if x \<in> in_proto then open_word m b q x (vb_transport vb) else vb_transport vb = str_null)"

definition vs_inv :: "mem \<Rightarrow> ptr \<Rightarrow> ptr \<Rightarrow> via_vars \<Rightarrow> bool" where
  "vs_inv m b q s \<longleftrightarrow> b \<le> q \<and> (\<exists>x. start_inv m b q x (vv_vb s) \<and>
     (vv_state s = Sst x \<or> eol_state (vv_state s) \<and> vv_saved s = Sst x \<and> x \<in> start_blanks))"

text \<open>A body whose start has been read.\<close>

definition via_head :: "mem \<Rightarrow> ptr \<Rightarrow> ptr \<Rightarrow> via_body \<Rightarrow> bool" where
  "via_head m b q vb \<longleftrightarrow> closed_word m b q (\<lambda>l. l = ''sip'') (vb_name vb) \<and> closed_word m b q (\<lambda>l. l = ''2.0'') (vb_version vb) \<and>
     closed_word m b q (\<lambda>l. proto_ok l (vb_proto vb)) (vb_transport vb)"

fun vs_out :: "mem \<Rightarrow> ptr \<Rightarrow> via_label \<Rightarrow> ptr \<Rightarrow> via_vars \<Rightarrow> bool" where
  "vs_out m b Main_via q s \<longleftrightarrow> rest_zero (vv_vb s) \<and> via_head m b q (vv_vb s) \<and>
     (vv_state s = Mst F_HOST \<or> vv_state s \<in> {Mst F_LF, Mst F_CR} \<and> vv_saved s = Mst F_HOST)"
| "vs_out m b Via_endofheader q s \<longleftrightarrow> (\<exists>x. vv_saved s = Sst x)"
| "vs_out m b _ q s \<longleftrightarrow> True"

definition vs_good :: "mem \<Rightarrow> ptr \<Rightarrow> ptr \<Rightarrow> nat \<Rightarrow> via_act \<Rightarrow> bool" where
  "vs_good m b q n r \<longleftrightarrow> (\<exists>s'. r = Some (Next q s') \<and> vs_inv m b (Suc q) s' \<and> vv_allocs s' = n) \<or>
     (\<exists>l s'. r = Some (Goto l q s') \<and> vs_out m b l q s' \<and> vv_allocs s' = n)"

lemma vs_good_simps [simp]:
  "vs_good m b q n (goto_st st q s) \<longleftrightarrow> vs_inv m b (Suc q) (s\<lparr>vv_state := st\<rparr>) \<and> vv_allocs s = n"
  "vs_good m b q n (Some (Next q s)) \<longleftrightarrow> vs_inv m b (Suc q) s \<and> vv_allocs s = n"
  "vs_good m b q n (via_stop l q s) \<longleftrightarrow> vs_out m b l q s \<and> vv_allocs s = n"
  by (auto simp: vs_good_def goto_st_def via_stop_def)

lemma mk_str_eq [simp]: "mk_str a c = mk_str b d \<longleftrightarrow> a = b \<and> c = d"
  by (auto simp: mk_str_def)

lemma closed_word_mono: "closed_word m b q P s \<Longrightarrow> q \<le> r \<Longrightarrow> closed_word m b r P s"
  by (auto simp: closed_word_def)

lemma open_word_close: "open_word m b q x s \<Longrightarrow> (\<And>l. reads_word x l \<Longrightarrow> P l) \<Longrightarrow> q \<le> r \<Longrightarrow> closed_word m b r P (sclose E q s)"
  by (fastforce simp: open_word_def closed_word_def)

lemma open_word_next:
  assumes "open_word m b q x s" and "q < length m" and "\<And>l. reads_word x l \<Longrightarrow> reads_word y (l @ [tolower_c (m ! q)])"
  shows "open_word m b (Suc q) y s"
  using assms seg_snoc [of _ "Suc q" m] by (fastforce simp: open_word_def)

lemma open_word_first: "b \<le> q \<Longrightarrow> q < length m \<Longrightarrow> reads_word y [tolower_c (m ! q)] \<Longrightarrow> open_word m b (Suc q) y (mk_str q q)"
  using seg_Cons [of q "Suc q" m] by (simp add: open_word_def)

lemma upd_vb_simps [simp]:
  "vv_state (upd_vb f s) = vv_state s" "vv_saved (upd_vb f s) = vv_saved s" "vv_vb (upd_vb f s) = f (vv_vb s)"
  "vv_allocs (upd_vb f s) = vv_allocs s" "vv_param_start (upd_vb f s) = vv_param_start s" "vv_nest (upd_vb f s) = vv_nest s"
  by (simp_all add: upd_vb_def)

lemma rest_zero_start [simp]:
  "rest_zero (vb\<lparr>vb_name := x\<rparr>) = rest_zero vb" "rest_zero (vb\<lparr>vb_version := x\<rparr>) = rest_zero vb"
  "rest_zero (vb\<lparr>vb_transport := x\<rparr>) = rest_zero vb" "rest_zero (vb\<lparr>vb_proto := pr\<rparr>) = rest_zero vb"
  by (simp_all add: rest_zero_def)

lemmas state_sets = sip_states_def ver_states_def in_proto_def start_blanks_def

lemma start_blank_mono: "start_inv m b q x vb \<Longrightarrow> x \<in> start_blanks \<Longrightarrow> q \<le> r \<Longrightarrow> start_inv m b r x vb"
  by (auto simp: start_inv_def state_sets intro: closed_word_mono)

lemma start_inv_name: "start_inv m b q FIN_SIP vb \<Longrightarrow> x \<in> {L_VER, F_VER} \<Longrightarrow> start_inv m b (Suc q) x (vb\<lparr>vb_name := sclose E q (vb_name vb)\<rparr>)"
  using open_word_close [of m b q FIN_SIP "vb_name vb" "\<lambda>l. l = ''sip''" "Suc q" E]
  by (auto simp: start_inv_def state_sets reads_word_def)

lemma start_inv_version: "start_inv m b q FIN_VER vb \<Longrightarrow> x \<in> {L_PROTO, F_PROTO} \<Longrightarrow> start_inv m b (Suc q) x (vb\<lparr>vb_version := sclose E q (vb_version vb)\<rparr>)"
  using open_word_close [of m b q FIN_VER "vb_version vb" "\<lambda>l. l = ''2.0''" "Suc q" E] closed_word_mono [of m b q _ "vb_name vb" "Suc q"]
  by (auto simp: start_inv_def state_sets reads_word_def)

lemma start_inv_proto:
  assumes "start_inv m b q x vb" and "x \<in> in_proto" and "space_proto x = Some pr \<or> lf_proto x = Some pr \<or> cr_proto x = Some pr"
  shows "via_head m b q (vb\<lparr>vb_transport := sclose E q (vb_transport vb), vb_proto := pr\<rparr>) \<and> rest_zero vb"
  using assms open_word_close [of m b q x "vb_transport vb" "\<lambda>l. proto_ok l pr" q E] proto_okI [of x _ pr]
  by (auto simp: start_inv_def via_head_def state_sets)

lemma proto_state:
  "space_proto x = Some pr \<Longrightarrow> x \<in> in_proto" "lf_proto x = Some pr \<Longrightarrow> x \<in> in_proto" "cr_proto x = Some pr \<Longrightarrow> x \<in> in_proto"
  by (cases x; simp add: space_proto_def lf_proto_def cr_proto_def in_proto_def)+

lemma eol_not_Sst [simp]: "\<not> eol_state (Sst x)"
  by (simp add: eol_state_def)

lemma vs_cases:
  assumes "vs_inv m b q s"
  obtains (word) x where "vv_state s = Sst x" "start_inv m b q x (vv_vb s)"
  | (eol) y x where "vv_state s = Mst y" "y \<in> {F_CRLF, F_LF, F_CR}" "vv_saved s = Sst x" "x \<in> start_blanks" "start_inv m b q x (vv_vb s)"
  using assms by (auto simp: vs_inv_def eol_state_def)

lemma vs_space_ok:
  assumes "vs_inv m b q s"
  shows "vs_good m b q (vv_allocs s) (vs_space E q s)"
  using assms
proof (cases rule: vs_cases)
  case (word x)
  have "b \<le> q" using assms by (simp add: vs_inv_def)
  with word show ?thesis
    using start_blank_mono [of m b q x "vv_vb s" "Suc q"] start_inv_name [of m b q "vv_vb s" L_VER E]
      start_inv_version [of m b q "vv_vb s" L_PROTO E] start_inv_proto [of m b q x "vv_vb s" _ E] proto_state(1) [of x]
    by (auto simp: vs_space_def name_len_def version_len_def proto_done_def vs_inv_def split: option.splits)
next
  case (eol y x)
  then show ?thesis
    using assms start_blank_mono [of m b q x "vv_vb s" "Suc q"] by (auto simp: vs_space_def vs_inv_def)
qed

lemma vs_eol_ok:
  assumes "vs_inv m b q s" and "f \<in> {F_LF, F_CR}" and "P = lf_proto \<or> P = cr_proto"
  shows "vs_good m b q (vv_allocs s) (vs_eol E f P q s)"
  using assms(1)
proof (cases rule: vs_cases)
  case (word x)
  have b: "b \<le> q" and f: "eol_state (Mst f)" using assms by (auto simp: vs_inv_def)
  have bl: "L_VER \<in> start_blanks" "L_PROTO \<in> start_blanks" by (simp_all add: start_blanks_def)
  show ?thesis
  proof (cases "P x")
    case None
    with word b f bl show ?thesis
      using start_blank_mono [of m b q x "vv_vb s" "Suc q"] start_inv_name [of m b q "vv_vb s" L_VER E]
        start_inv_version [of m b q "vv_vb s" L_PROTO E]
      by (auto simp: vs_eol_def name_len_def version_len_def vs_inv_def)
  next
    case (Some pr)
    with assms(3) have "x \<in> in_proto" "lf_proto x = Some pr \<or> cr_proto x = Some pr" using proto_state(2,3) by auto
    with word b f bl Some assms(2) show ?thesis
      using start_inv_proto [of m b q x "vv_vb s" pr E]
      by (auto simp: vs_eol_def proto_done_def state_sets)
  qed
next
  case (eol y x)
  then show ?thesis
    using assms start_blank_mono [of m b q x "vv_vb s" "Suc q"] by (auto simp: vs_eol_def vs_inv_def)
qed

lemma vs_slash_ok:
  assumes "vs_inv m b q s"
  shows "vs_good m b q (vv_allocs s) (vs_slash E q s)"
  using assms
proof (cases rule: vs_cases)
  case (word x)
  have "b \<le> q" using assms by (simp add: vs_inv_def)
  with word show ?thesis
    using start_inv_name [of m b q "vv_vb s" F_VER E] start_inv_version [of m b q "vv_vb s" F_PROTO E]
    by (auto simp: vs_slash_def name_len_def version_len_def vs_inv_def start_inv_def state_sets Let_def intro: closed_word_mono)
qed (simp add: vs_slash_def)

lemma start_next_class:
  "start_next c x = Some y \<Longrightarrow> x \<in> sip_states \<and> y \<in> sip_states \<or> x \<in> ver_states \<and> y \<in> ver_states \<or> x \<in> in_proto \<and> y \<in> in_proto"
  by (auto simp: start_next_def state_sets split: if_splits)

lemma state_classes:
  "x \<in> sip_states \<Longrightarrow> x \<noteq> F_SIP \<and> x \<notin> ver_states \<and> x \<notin> in_proto"
  "x \<in> ver_states \<Longrightarrow> x \<notin> {F_SIP, L_VER, F_VER} \<and> x \<notin> sip_states \<and> x \<notin> in_proto"
  "x \<in> in_proto \<Longrightarrow> x \<notin> {F_SIP, L_VER, F_VER} \<and> x \<notin> sip_states \<and> x \<notin> ver_states"
  by (auto simp: state_sets)

lemma start_inv_next:
  assumes inv: "start_inv m b q x vb" and q: "q < length m" and w: "\<And>l. reads_word x l \<Longrightarrow> reads_word y (l @ [tolower_c (m ! q)])"
    and "x \<in> sip_states \<and> y \<in> sip_states \<or> x \<in> ver_states \<and> y \<in> ver_states \<or> x \<in> in_proto \<and> y \<in> in_proto"
  shows "start_inv m b (Suc q) y vb"
proof -
  have o: "open_word m b (Suc q) y s" if "open_word m b q x s" for s
    using open_word_next [OF that q w] .
  have c: "closed_word m b (Suc q) P s" if "closed_word m b q P s" for P s
    using closed_word_mono [OF that, of "Suc q"] by simp
  from assms(4) show ?thesis
    using inv o c state_classes [of x] state_classes [of y] by (elim disjE conjE) (simp_all add: start_inv_def)
qed

lemma start_inv_first:
  assumes "start_inv m b q x vb" and "b \<le> q" and "q < length m"
  shows "x = F_SIP \<Longrightarrow> tolower_c (m ! q) = CHR ''s'' \<Longrightarrow> start_inv m b (Suc q) SIP1 (vb\<lparr>vb_name := sopen q (vb_name vb)\<rparr>)"
    and "x = F_VER \<Longrightarrow> tolower_c (m ! q) = CHR ''2'' \<Longrightarrow> start_inv m b (Suc q) VER1 (vb\<lparr>vb_version := sopen q (vb_version vb)\<rparr>)"
    and "x = F_PROTO \<Longrightarrow> proto_first (tolower_c (m ! q)) = Some y \<Longrightarrow> start_inv m b (Suc q) y (vb\<lparr>vb_transport := sopen q (vb_transport vb)\<rparr>)"
proof -
  have c: "closed_word m b (Suc q) P s" if "closed_word m b q P s" for P s
    using closed_word_mono [OF that, of "Suc q"] by simp
  show "start_inv m b (Suc q) SIP1 (vb\<lparr>vb_name := sopen q (vb_name vb)\<rparr>)" if "x = F_SIP" "tolower_c (m ! q) = CHR ''s''"
    using assms that open_word_first [OF assms(2,3), of SIP1] by (simp add: start_inv_def state_sets reads_word_def)
  show "start_inv m b (Suc q) VER1 (vb\<lparr>vb_version := sopen q (vb_version vb)\<rparr>)" if "x = F_VER" "tolower_c (m ! q) = CHR ''2''"
    using assms that open_word_first [OF assms(2,3), of VER1] c by (simp add: start_inv_def state_sets reads_word_def)
  show "start_inv m b (Suc q) y (vb\<lparr>vb_transport := sopen q (vb_transport vb)\<rparr>)" if "x = F_PROTO" "proto_first (tolower_c (m ! q)) = Some y"
  proof -
    have y: "y \<in> in_proto" using that(2) by (auto simp: proto_first_def in_proto_def split: if_splits)
    then show ?thesis
      using assms that open_word_first [OF assms(2,3) word_first [OF that(2)]] c state_classes(3) [OF y]
      by (simp add: start_inv_def) (simp add: state_sets)
  qed
qed

lemma vs_word_ok:
  assumes "vs_inv m b q s" and "q < length m"
  shows "vs_good m b q (vv_allocs s) (vs_word q (tolower_c (m ! q)) s)"
  using assms(1)
proof (cases rule: vs_cases)
  case (word x)
  have b: "b \<le> q" using assms by (simp add: vs_inv_def)
  let ?c = "tolower_c (m ! q)"
  have nx: "start_inv m b (Suc q) y (vv_vb s)" if "start_next ?c x = Some y" for y
    using start_inv_next [OF word(2) assms(2) word_next [OF _ that] start_next_class [OF that]] .
  have ot: "start_inv m b (Suc q) OTHER_PROTO (vv_vb s)" if "start_next ?c x = None" "x \<in> in_proto"
    using start_inv_next [OF word(2) assms(2) word_other [OF _ that]] that(2) by (simp add: in_proto_def)
  show ?thesis
    using word b nx ot start_inv_first [OF word(2) b assms(2)]
    by (auto simp: vs_word_def vs_inv_def split: option.splits)
qed (simp add: vs_word_def)

lemma vs_step_ok:
  assumes "vs_inv m b q s" and "q < length m"
  shows "vs_good m b q (vv_allocs s) (vs_step E q (m ! q) s)"
  using vs_space_ok [OF assms(1)] vs_eol_ok [OF assms(1)] vs_slash_ok [OF assms(1)] vs_word_ok [OF assms]
  by (simp add: vs_step_def vs_lf_def vs_cr_def)

section \<open>The rest of a body\<close>

text \<open>A string that lies inside the buffer, or has a null pointer (and then any length).\<close>

definition loose :: "ptr \<Rightarrow> ptr \<Rightarrow> str \<Rightarrow> bool" where
  "loose b q x \<longleftrightarrow> (case str_s x of None \<Rightarrow> True | Some c \<Rightarrow> b \<le> c \<and> 0 \<le> str_len x \<and> c + nat (str_len x) \<le> q)"

definition eff :: "via_vars \<Rightarrow> via_state" where
  "eff s = (if eol_state (vv_state s) then vv_saved s else vv_state s)"

definition last_param :: "via_ptype \<Rightarrow> via_param list \<Rightarrow> via_param option" where
  "last_param t ps = (let xs = filter (\<lambda>p. vp_type p = t) ps in if xs = [] then None else Some (last xs))"

text \<open>The parameters are inside the buffer and well typed, and every shortcut is the last parameter of its type.\<close>

definition plist_ok :: "mem \<Rightarrow> ptr \<Rightarrow> ptr \<Rightarrow> via_body \<Rightarrow> bool" where
  "plist_ok m b q vb \<longleftrightarrow> list_all (\<lambda>p. \<exists>c \<ge> b. vparam_in m c q p) (vb_param_lst vb) \<and>
     vb_branch vb = last_param FIN_BRANCH (vb_param_lst vb) \<and> vb_received vb = last_param FIN_RECEIVED (vb_param_lst vb) \<and>
     vb_rport vb = last_param FIN_RPORT (vb_param_lst vb) \<and> vb_i vb = last_param FIN_I (vb_param_lst vb) \<and>
     vb_alias vb = last_param FIN_ALIAS (vb_param_lst vb) \<and> vb_maddr vb = last_param FIN_MADDR (vb_param_lst vb)"

definition before_port :: "via_state set" where
  "before_port = {Mst F_HOST, Mst P_HOST, Mst F_IP6HOST, Mst P_IP6HOST, Mst L_PORT, Mst F_PORT}"

definition strs_ok :: "ptr \<Rightarrow> ptr \<Rightarrow> via_state \<Rightarrow> via_body \<Rightarrow> bool" where
  "strs_ok b q st vb \<longleftrightarrow> loose b q (vb_host vb) \<and> loose b q (vb_port_str vb) \<and> loose b q (vb_params vb) \<and>
     (st = Mst F_HOST \<longrightarrow> vb_host vb = str_null) \<and>
     (st \<in> before_port \<longrightarrow> vb_port_str vb = str_null) \<and>
     (if st = Mst P_COMMENT then \<exists>c. str_s (vb_comment vb) = Some c \<and> b \<le> c \<and> c \<le> q else loose b q (vb_comment vb))"

definition start_ok :: "ptr \<Rightarrow> ptr \<Rightarrow> via_vars \<Rightarrow> bool" where
  "start_ok b q s \<longleftrightarrow> (eff s = Mst F_PARAM \<longrightarrow> (\<exists>ps. vv_param_start s = Some ps \<and> b \<le> ps \<and> ps \<le> q \<and>
     (\<forall>c. str_s (vb_params (vv_vb s)) = Some c \<longrightarrow> c \<le> ps)))"

definition body_inv :: "mem \<Rightarrow> ptr \<Rightarrow> ptr \<Rightarrow> via_state \<Rightarrow> via_body \<Rightarrow> bool" where
  "body_inv m b q st vb \<longleftrightarrow> b \<le> q \<and> via_head m b q vb \<and> plist_ok m b q vb \<and> vb_port vb = 0 \<and> strs_ok b q st vb"

definition main_inv :: "mem \<Rightarrow> ptr \<Rightarrow> ptr \<Rightarrow> via_vars \<Rightarrow> bool" where
  "main_inv m b q s \<longleftrightarrow> body_inv m b q (eff s) (vv_vb s) \<and> start_ok b q s \<and> \<not> eol_state (eff s)"

fun vm_out :: "mem \<Rightarrow> ptr \<Rightarrow> ptr \<Rightarrow> via_label \<Rightarrow> ptr \<Rightarrow> via_vars \<Rightarrow> bool" where
  "vm_out m b z Via_endofheader q s \<longleftrightarrow> q < z \<and> body_inv m b q (vv_saved s) (vv_vb s)"
| "vm_out m b z Via_nextvia q s \<longleftrightarrow> q < z \<and> body_inv m b q (vv_state s) (vv_vb s) \<and> vv_state s = Mst F_VIA"
| "vm_out m b z _ q s \<longleftrightarrow> True"

definition vm_good :: "mem \<Rightarrow> ptr \<Rightarrow> ptr \<Rightarrow> ptr \<Rightarrow> nat \<Rightarrow> via_act \<Rightarrow> bool" where
  "vm_good m b z q n r \<longleftrightarrow> (\<exists>q' s'. r = Some (Next q' s') \<and> q \<le> q' \<and> q' < z \<and> main_inv m b (Suc q') s' \<and> n \<le> vv_allocs s') \<or>
     (\<exists>l q' s'. r = Some (Goto l q' s') \<and> q \<le> q' \<and> q' \<le> z \<and> vm_out m b z l q' s' \<and> n \<le> vv_allocs s')"

lemma vm_good_simps:
  "q < z \<Longrightarrow> main_inv m b (Suc q) (s\<lparr>vv_state := st\<rparr>) \<Longrightarrow> n \<le> vv_allocs s \<Longrightarrow> vm_good m b z q n (goto_st st q s)"
  "q < z \<Longrightarrow> main_inv m b (Suc q) s \<Longrightarrow> n \<le> vv_allocs s \<Longrightarrow> vm_good m b z q n (Some (Next q s))"
  "q \<le> z \<Longrightarrow> vm_out m b z l q s \<Longrightarrow> n \<le> vv_allocs s \<Longrightarrow> vm_good m b z q n (via_stop l q s)"
  by (auto simp: vm_good_def goto_st_def via_stop_def)

lemma loose_null [simp]: "loose b q str_null"
  by (simp add: loose_def str_null_def)

lemma loose_mk_str [simp]: "c \<le> k \<Longrightarrow> loose b q (mk_str c k) \<longleftrightarrow> b \<le> c \<and> k \<le> q"
  by (auto simp: loose_def mk_str_def)

lemma loose_mono: "loose b q x \<Longrightarrow> q \<le> r \<Longrightarrow> loose b r x"
  by (auto simp: loose_def split: option.splits)

lemma loose_close: "loose b q x \<Longrightarrow> q \<le> r \<Longrightarrow> loose b r (sclose E q x)"
  by (auto simp: loose_def sclose_def pdiff_def split: option.splits)

lemma loose_close_open: "str_s x = Some c \<Longrightarrow> b \<le> c \<Longrightarrow> c \<le> q \<Longrightarrow> q \<le> r \<Longrightarrow> loose b r (sclose E q x)"
  by (auto simp: loose_def sclose_def pdiff_def)

lemma plist_ok_mono: "plist_ok m b q vb \<Longrightarrow> q \<le> r \<Longrightarrow> plist_ok m b r vb"
  by (simp add: plist_ok_def list_all_iff) (meson vparam_in_mono)

lemma via_head_mono: "via_head m b q vb \<Longrightarrow> q \<le> r \<Longrightarrow> via_head m b r vb"
  by (auto simp: via_head_def intro: closed_word_mono)

lemma plist_ok_strs [simp]:
  "plist_ok m b q (vb\<lparr>vb_host := x\<rparr>) = plist_ok m b q vb" "plist_ok m b q (vb\<lparr>vb_port_str := x\<rparr>) = plist_ok m b q vb"
  "plist_ok m b q (vb\<lparr>vb_params := x\<rparr>) = plist_ok m b q vb" "plist_ok m b q (vb\<lparr>vb_comment := x\<rparr>) = plist_ok m b q vb"
  by (simp_all add: plist_ok_def)

lemma via_head_strs [simp]:
  "via_head m b q (vb\<lparr>vb_host := x\<rparr>) = via_head m b q vb" "via_head m b q (vb\<lparr>vb_port_str := x\<rparr>) = via_head m b q vb"
  "via_head m b q (vb\<lparr>vb_params := x\<rparr>) = via_head m b q vb" "via_head m b q (vb\<lparr>vb_comment := x\<rparr>) = via_head m b q vb"
  by (simp_all add: via_head_def)

lemma via_head_port [simp]: "via_head m b q (vb\<lparr>vb_port := x\<rparr>) = via_head m b q vb"
  by (simp add: via_head_def)

text \<open>Moves between states that keep the strings, and moves that end or start one.\<close>

definition moves :: "via_state \<Rightarrow> via_state \<Rightarrow> bool" where
  "moves st st' \<longleftrightarrow> (st' = Mst F_HOST \<longrightarrow> st = Mst F_HOST) \<and> (st' \<in> before_port \<longrightarrow> st \<in> before_port) \<and>
     (st' = Mst P_COMMENT \<longleftrightarrow> st = Mst P_COMMENT)"

lemma body_move:
  assumes "body_inv m b q st vb" and "moves st st'" and "q \<le> r"
  shows "body_inv m b r st' vb"
  using assms
  by (auto simp: body_inv_def strs_ok_def moves_def intro: via_head_mono plist_ok_mono loose_mono split: if_splits)

lemma body_stay: "body_inv m b q st vb \<Longrightarrow> body_inv m b (Suc q) st vb"
  by (rule body_move [of _ _ q st _ st]) (simp_all add: moves_def)

lemma body_host:
  assumes "body_inv m b q st vb" and "moves st st'" and "st' \<noteq> Mst F_HOST"
  shows "body_inv m b (Suc q) st' (vb\<lparr>vb_host := sclose E q (vb_host vb)\<rparr>)"
  using body_move [OF assms(1,2), of "Suc q"] assms loose_close [of b q "vb_host vb" "Suc q" E]
  by (simp add: body_inv_def strs_ok_def)

lemma body_port:
  assumes "body_inv m b q st vb" and "moves st st'" and "st' \<notin> before_port"
  shows "body_inv m b (Suc q) st' (vb\<lparr>vb_port_str := sclose E q (vb_port_str vb)\<rparr>)"
  using body_move [OF assms(1,2), of "Suc q"] assms loose_close [of b q "vb_port_str vb" "Suc q" E]
  by (simp add: body_inv_def strs_ok_def)

lemma body_params:
  assumes "body_inv m b q st vb" and "moves st st'"
  shows "body_inv m b (Suc q) st' (vb\<lparr>vb_params := sclose E q (vb_params vb)\<rparr>)"
  using body_move [OF assms(1,2), of "Suc q"] assms loose_close [of b q "vb_params vb" "Suc q" E]
  by (simp add: body_inv_def strs_ok_def)

lemma body_comment_start:
  assumes "body_inv m b q st vb" and "st = Mst F_COMMENT"
  shows "body_inv m b (Suc q) (Mst P_COMMENT) (vb\<lparr>vb_comment := sopen q (vb_comment vb)\<rparr>)"
  using body_move [OF assms(1), of st "Suc q"] assms
  by (auto simp: body_inv_def strs_ok_def sopen_def before_port_def moves_def)

lemma body_comment_end:
  assumes "body_inv m b q st vb" and "st \<in> {Mst F_COMMENT, Mst P_COMMENT}"
  shows "body_inv m b (Suc q) (Mst L_VIA) (vb\<lparr>vb_comment := sclose E q (vb_comment vb)\<rparr>)"
proof -
  have "loose b (Suc q) (sclose E q (vb_comment vb))"
    using assms loose_close [of b q "vb_comment vb" "Suc q" E] loose_close_open [of "vb_comment vb" _ b q "Suc q" E]
    by (auto simp: body_inv_def strs_ok_def)
  then show ?thesis
    using body_stay [OF assms(1)] by (simp add: body_inv_def strs_ok_def before_port_def)
qed

lemma body_open:
  assumes "body_inv m b q st vb"
  shows "st = Mst F_HOST \<Longrightarrow> st' \<in> {Mst P_HOST, Mst F_IP6HOST} \<Longrightarrow> body_inv m b (Suc q) st' (vb\<lparr>vb_host := sopen q (vb_host vb)\<rparr>)"
    and "st = Mst F_PORT \<Longrightarrow> body_inv m b (Suc q) (Mst P_PORT) (vb\<lparr>vb_port_str := sopen q (vb_port_str vb)\<rparr>)"
  using assms body_stay [OF assms] by (auto simp: body_inv_def strs_ok_def before_port_def)

lemma body_ip6:
  assumes "body_inv m b q st vb" and "st = Mst P_IP6HOST"
  shows "body_inv m b (Suc q) (Mst L_PORT) (vb\<lparr>vb_host := (vb_host vb)\<lparr>str_len := pdiff E q (str_s (vb_host vb)) + 1\<rparr>\<rparr>)"
  using assms body_stay [OF assms(1)]
  by (auto simp: body_inv_def strs_ok_def before_port_def loose_def pdiff_def nat_add_distrib split: option.splits)

text \<open>The invariant after a step into a state that is not a line end, and after one into a line end.\<close>

lemma main_state:
  assumes "body_inv m b q (Mst x) (vv_vb s)" and "x \<notin> {F_CRLF, F_LF, F_CR, F_PARAM}" and "vv_state s = Mst x"
  shows "main_inv m b q s"
  using assms by (auto simp: main_inv_def eff_def start_ok_def)

lemma main_eol:
  assumes "body_inv m b q (vv_saved s) (vv_vb s)" and "vv_state s = Mst f" and "f \<in> {F_CRLF, F_LF, F_CR}" and "\<not> eol_state (vv_saved s)"
    and "vv_saved s = Mst F_PARAM \<Longrightarrow> start_ok b q s"
  shows "main_inv m b q s"
  using assms by (auto simp: main_inv_def eff_def start_ok_def)

lemma main_param:
  assumes "body_inv m b q (Mst F_PARAM) (vv_vb s)" and "vv_state s = Mst F_PARAM" and "vv_param_start s = Some q"
  shows "main_inv m b q s"
  using assms
  by (auto simp: main_inv_def eff_def start_ok_def body_inv_def strs_ok_def loose_def split: option.splits)

lemma main_stay:
  assumes "main_inv m b q s"
  shows "main_inv m b (Suc q) s"
  using assms body_stay [of m b q "eff s" "vv_vb s"] by (auto simp: main_inv_def start_ok_def)

lemma main_resume:
  assumes "main_inv m b q s" and "eol_state (vv_state s)"
  shows "main_inv m b (Suc q) (s\<lparr>vv_state := vv_saved s\<rparr>)"
  using main_stay [OF assms(1)] assms(2) by (auto simp: main_inv_def eff_def start_ok_def)

lemma main_body:
  assumes "main_inv m b q s"
  shows "eol_state (vv_state s) \<Longrightarrow> body_inv m b q (vv_saved s) (vv_vb s)"
    and "\<not> eol_state (vv_state s) \<Longrightarrow> body_inv m b q (vv_state s) (vv_vb s)"
  using assms by (auto simp: main_inv_def eff_def)

lemma main_stop: "main_inv m b q s \<Longrightarrow> eol_state (vv_state s) \<Longrightarrow> q < z \<Longrightarrow> vm_out m b z Via_endofheader q s"
  by (simp add: main_body)

lemmas via_ends = host_len_def port_len_def params_len_def comment_start_def

lemma moves_main [simp]:
  "moves (Mst x) (Mst y) \<longleftrightarrow> (y = F_HOST \<longrightarrow> x = F_HOST) \<and> (y \<in> {F_HOST, P_HOST, F_IP6HOST, P_IP6HOST, L_PORT, F_PORT} \<longrightarrow>
     x \<in> {F_HOST, P_HOST, F_IP6HOST, P_IP6HOST, L_PORT, F_PORT}) \<and> (y = P_COMMENT \<longleftrightarrow> x = P_COMMENT)"
  by (auto simp: moves_def before_port_def)

lemma vm_other_ok:
  assumes inv: "main_inv m b q s" and q: "q < z"
  shows "vm_good m b z q (vv_allocs s) (vm_other q s)"
proof (cases "vv_state s = Mst F_COMMENT")
  case True
  then have "body_inv m b (Suc q) (Mst P_COMMENT) (vv_vb (comment_start q s))"
    using body_comment_start [OF main_body(2) [OF inv]] by (simp add: via_ends)
  with True q show ?thesis
    by (auto simp: vm_other_def Let_def comment_start_def intro!: vm_good_simps main_state [where x = P_COMMENT])
next
  case False
  then show ?thesis
    using q main_stay [OF inv] main_stop [OF inv _ q] by (auto simp: vm_other_def Let_def intro!: vm_good_simps)
qed

lemma vm_space_ok:
  assumes inv: "main_inv m b q s" and q: "q < z"
  shows "vm_good m b z q (vv_allocs s) (vm_space E q s)"
proof -
  have h: "main_inv m b (Suc q) ((host_len E q s)\<lparr>vv_state := Mst L_PORT\<rparr>)" if "vv_state s = Mst P_HOST"
    using that body_host [OF main_body(2) [OF inv], of "Mst L_PORT" E] by (intro main_state [where x = L_PORT]) (simp_all add: via_ends)
  have p: "main_inv m b (Suc q) ((port_len E q s)\<lparr>vv_state := Mst L_PARAM\<rparr>)" if "vv_state s = Mst P_PORT"
    using that body_port [OF main_body(2) [OF inv], of "Mst L_PARAM" E]
    by (intro main_state [where x = L_PARAM]) (simp_all add: via_ends before_port_def)
  have l: "main_inv m b (Suc q) (s\<lparr>vv_state := Mst L_PARAM\<rparr>)" if "vv_state s = Mst P_PARAM"
    using that body_move [OF main_body(2) [OF inv], of "Mst L_PARAM" "Suc q"] by (intro main_state [where x = L_PARAM]) simp_all
  show ?thesis
    using q h p l main_stay [OF inv] main_resume [OF inv]
    by (auto simp: vm_space_def Let_def via_ends intro!: vm_good_simps)
qed

lemma main_goto:
  "body_inv m b (Suc q) (Mst y) (vv_vb t) \<Longrightarrow> y \<notin> {F_CRLF, F_LF, F_CR, F_PARAM} \<Longrightarrow> main_inv m b (Suc q) (t\<lparr>vv_state := Mst y\<rparr>)"
  by (rule main_state) simp_all

lemma main_goto_param:
  "body_inv m b (Suc q) (Mst F_PARAM) (vv_vb t) \<Longrightarrow> vv_param_start t = Some (Suc q) \<Longrightarrow> main_inv m b (Suc q) (t\<lparr>vv_state := Mst F_PARAM\<rparr>)"
  by (rule main_param) simp_all

lemma main_goto_eol:
  "body_inv m b (Suc q) (Mst y) (vv_vb t) \<Longrightarrow> f \<in> {F_CRLF, F_LF, F_CR} \<Longrightarrow> y \<notin> {F_CRLF, F_LF, F_CR, F_PARAM} \<Longrightarrow>
   main_inv m b (Suc q) (t\<lparr>vv_saved := Mst y, vv_state := Mst f\<rparr>)"
  by (rule main_eol [where f = f]) simp_all

lemma ends_simps [simp]:
  "vv_vb (host_len E q s) = (vv_vb s)\<lparr>vb_host := sclose E q (vb_host (vv_vb s))\<rparr>"
  "vv_vb (port_len E q s) = (vv_vb s)\<lparr>vb_port_str := sclose E q (vb_port_str (vv_vb s))\<rparr>"
  "vv_vb (params_len E q s) = (vv_vb s)\<lparr>vb_params := sclose E q (vb_params (vv_vb s))\<rparr>"
  "vv_allocs (host_len E q s) = vv_allocs s" "vv_allocs (port_len E q s) = vv_allocs s" "vv_allocs (params_len E q s) = vv_allocs s"
  "vv_param_start (host_len E q s) = vv_param_start s" "vv_param_start (port_len E q s) = vv_param_start s"
  "vv_param_start (params_len E q s) = vv_param_start s"
  by (simp_all add: via_ends)

lemma body_moves:
  assumes "main_inv m b q s" and "vv_state s = Mst x" and "x \<notin> {F_CRLF, F_LF, F_CR}" and "moves (Mst x) (Mst y)"
  shows "body_inv m b (Suc q) (Mst y) (vv_vb s)"
    and "y \<noteq> F_HOST \<Longrightarrow> body_inv m b (Suc q) (Mst y) ((vv_vb s)\<lparr>vb_host := sclose E q (vb_host (vv_vb s))\<rparr>)"
    and "y \<notin> {F_HOST, P_HOST, F_IP6HOST, P_IP6HOST, L_PORT, F_PORT} \<Longrightarrow>
      body_inv m b (Suc q) (Mst y) ((vv_vb s)\<lparr>vb_port_str := sclose E q (vb_port_str (vv_vb s))\<rparr>)"
    and "body_inv m b (Suc q) (Mst y) ((vv_vb s)\<lparr>vb_params := sclose E q (vb_params (vv_vb s))\<rparr>)"
proof -
  have i: "body_inv m b q (Mst x) (vv_vb s)" using main_body(2) [OF assms(1)] assms(2,3) by simp
  show "body_inv m b (Suc q) (Mst y) (vv_vb s)" using body_move [OF i assms(4)] by simp
  show "body_inv m b (Suc q) (Mst y) ((vv_vb s)\<lparr>vb_host := sclose E q (vb_host (vv_vb s))\<rparr>)" if "y \<noteq> F_HOST"
    using body_host [OF i assms(4)] that by simp
  show "body_inv m b (Suc q) (Mst y) ((vv_vb s)\<lparr>vb_port_str := sclose E q (vb_port_str (vv_vb s))\<rparr>)"
    if "y \<notin> {F_HOST, P_HOST, F_IP6HOST, P_IP6HOST, L_PORT, F_PORT}"
    using body_port [OF i assms(4)] that by (simp add: before_port_def)
  show "body_inv m b (Suc q) (Mst y) ((vv_vb s)\<lparr>vb_params := sclose E q (vb_params (vv_vb s))\<rparr>)"
    using body_params [OF i assms(4)] .
qed

lemma vm_eol_ok:
  assumes inv: "main_inv m b q s" and q: "q < z" and f: "f \<in> {F_LF, F_CR}"
  shows "vm_good m b z q (vv_allocs s) (vm_eol E f q s)"
proof -
  note mv = body_moves [OF inv]
  have st: "main_inv m b (Suc q) (s\<lparr>vv_saved := vv_state s, vv_state := Mst f\<rparr>)" if "\<not> eol_state (vv_state s)"
    using main_stay [OF inv] that f by (auto simp: main_inv_def eff_def start_ok_def)
  have ft: "main_inv m b (Suc q) (s\<lparr>vv_state := Mst F_CRLF\<rparr>)" if "vv_state s = Mst F_CR"
    using main_stay [OF inv] that by (auto simp: main_inv_def eff_def start_ok_def)
  have out: "vm_out m b z Via_endofheader q (s\<lparr>vv_state := vv_saved s\<rparr>)" if "eol_state (vv_state s)"
    using main_stop [OF inv that q] by simp
  have ends: "vv_state s = Mst P_HOST \<Longrightarrow> main_inv m b (Suc q) ((host_len E q s)\<lparr>vv_saved := Mst L_PORT, vv_state := Mst f\<rparr>)"
      "vv_state s = Mst P_PORT \<Longrightarrow> main_inv m b (Suc q) ((port_len E q s)\<lparr>vv_saved := Mst L_PARAM, vv_state := Mst f\<rparr>)"
      "vv_state s = Mst P_PARAM \<Longrightarrow> main_inv m b (Suc q) (s\<lparr>vv_saved := Mst L_PARAM, vv_state := Mst f\<rparr>)"
    using f by (auto intro!: main_goto_eol mv)
  show ?thesis
    using q st ft out f ends by (auto simp: vm_eol_def Let_def intro!: vm_good_simps)
qed

lemma vm_colon_ok:
  assumes inv: "main_inv m b q s" and q: "q < z"
  shows "vm_good m b z q (vv_allocs s) (vm_colon E q s)"
  using q main_stay [OF inv] by (auto simp: vm_colon_def Let_def intro!: vm_good_simps main_goto body_moves [OF inv] vm_other_ok [OF inv])

lemma vm_semi_ok:
  assumes inv: "main_inv m b q s" and q: "q < z"
  shows "vm_good m b z q (vv_allocs s) (vm_semi E q s)"
  using q by (auto simp: vm_semi_def Let_def intro!: vm_good_simps main_goto_param body_moves [OF inv] vm_other_ok [OF inv])

lemma vm_comma_ok:
  assumes inv: "main_inv m b q s" and q: "q < z"
  shows "vm_good m b z q (vv_allocs s) (vm_comma E q s)"
  using q main_stay [OF inv] by (auto simp: vm_comma_def Let_def intro!: vm_good_simps main_goto body_moves [OF inv] vm_other_ok [OF inv])

lemma main_nest: "main_inv m b q (s\<lparr>vv_nest := k\<rparr>) = main_inv m b q s"
  by (simp add: main_inv_def eff_def start_ok_def)

lemma vm_lparen_ok:
  assumes inv: "main_inv m b q s" and q: "q < z"
  shows "vm_good m b z q (vv_allocs s) (vm_lparen E q s)"
proof -
  have "main_inv m b (Suc q) (s\<lparr>vv_nest := vv_nest s + 1\<rparr>)" using main_stay [OF inv] by (simp add: main_nest)
  moreover have "eol_state (vv_state s) \<Longrightarrow> vm_out m b z Via_endofheader q s" using main_stop [OF inv _ q] .
  ultimately show ?thesis
    using q by (auto simp: vm_lparen_def Let_def intro!: vm_good_simps main_goto body_moves [OF inv])
qed

lemma vm_rparen_ok:
  assumes inv: "main_inv m b q s" and q: "q < z"
  shows "vm_good m b z q (vv_allocs s) (vm_rparen E q s)"
proof -
  let ?s = "s\<lparr>vv_nest := vv_nest s - 1\<rparr>"
  have "main_inv m b (Suc q) ?s" using main_stay [OF inv] by (simp add: main_nest)
  moreover have "main_inv m b (Suc q) ((upd_vb (\<lambda>x. x\<lparr>vb_comment := sclose E q (vb_comment x)\<rparr>) ?s)\<lparr>vv_state := Mst L_VIA\<rparr>)"
    if "vv_state s \<in> {Mst F_COMMENT, Mst P_COMMENT}"
    using body_comment_end [OF main_body(2) [OF inv], of E] that by (intro main_goto) auto
  moreover have "eol_state (vv_state s) \<Longrightarrow> vm_out m b z Via_endofheader q s" using main_stop [OF inv _ q] .
  ultimately show ?thesis
    using q by (auto simp: vm_rparen_def Let_def intro!: vm_good_simps)
qed

lemma vm_brack_ok:
  assumes inv: "main_inv m b q s" and q: "q < z"
  shows "vm_good m b z q (vv_allocs s) (vm_lbrack q s)" and "vm_good m b z q (vv_allocs s) (vm_rbrack E q s)"
proof -
  show "vm_good m b z q (vv_allocs s) (vm_lbrack q s)"
  proof (cases "vv_state s = Mst F_HOST")
    case True
    then have "body_inv m b (Suc q) (Mst F_IP6HOST) ((vv_vb s)\<lparr>vb_host := sopen q (vb_host (vv_vb s))\<rparr>)"
      using body_open(1) [OF main_body(2) [OF inv]] by simp
    with True q show ?thesis by (auto simp: vm_lbrack_def intro!: vm_good_simps main_goto)
  next
    case False
    then show ?thesis using vm_other_ok [OF inv q] by (simp add: vm_lbrack_def)
  qed
  show "vm_good m b z q (vv_allocs s) (vm_rbrack E q s)"
  proof (cases "vv_state s = Mst P_IP6HOST")
    case True
    then have "body_inv m b (Suc q) (Mst L_PORT)
        ((vv_vb s)\<lparr>vb_host := (vb_host (vv_vb s))\<lparr>str_len := pdiff E q (str_s (vb_host (vv_vb s))) + 1\<rparr>\<rparr>)"
      using body_ip6 [OF main_body(2) [OF inv]] by simp
    with True q show ?thesis by (auto simp: vm_rbrack_def intro!: vm_good_simps main_goto)
  next
    case False
    then show ?thesis using vm_other_ok [OF inv q] by (simp add: vm_rbrack_def)
  qed
qed

text \<open>A parameter is linked.\<close>

lemma last_param_snoc: "last_param t (ps @ [p]) = (if vp_type p = t then Some p else last_param t ps)"
  by (simp add: last_param_def Let_def)

lemma link_plist:
  assumes "plist_ok m b q vb" and "vparam_in m c q p" and "b \<le> c"
  shows "plist_ok m b q (link_via_param p vb)"
  using assms by (cases "vp_type p") (auto simp: plist_ok_def link_via_param_def shortcut_def last_param_snoc)

lemma link_other:
  "via_head m b q (link_via_param p vb) = via_head m b q vb" "vb_port (link_via_param p vb) = vb_port vb"
  "strs_ok b q st (link_via_param p vb) = strs_ok b q st vb" "vb_params (link_via_param p vb) = vb_params vb"
  by (cases "vp_type p"; simp add: link_via_param_def shortcut_def via_head_def strs_ok_def)+

lemma link_body: "body_inv m b q st vb \<Longrightarrow> vparam_in m c q p \<Longrightarrow> b \<le> c \<Longrightarrow> body_inv m b q st (link_via_param p vb)"
  by (simp add: body_inv_def link_other link_plist)

lemma body_set_params:
  assumes "body_inv m b q (Mst F_PARAM) vb" and "q \<le> r" and "str_s x = Some c" and "b \<le> c" and "0 \<le> str_len x" and "c + nat (str_len x) \<le> r"
    and "y \<in> {F_PARAM, L_PARAM, F_VIA}"
  shows "body_inv m b r (Mst y) (vb\<lparr>vb_params := x\<rparr>)"
  using body_move [OF assms(1) _ assms(2), of "Mst y"] assms(3-)
  by (auto simp: body_inv_def strs_ok_def loose_def)

text \<open>The parameter list starts where it started before, or at this parameter.\<close>

lemma vm_param_start:
  assumes "main_inv m b q s" and "vv_state s = Mst F_PARAM"
  obtains ps c where "vv_param_start s = Some ps" "b \<le> ps" "ps \<le> q" "b \<le> c" "c \<le> ps"
    "(case str_s (vb_params (vv_vb s)) of None \<Rightarrow> Some ps | Some c' \<Rightarrow> Some c') = Some c" "body_inv m b q (Mst F_PARAM) (vv_vb s)"
  using assms main_body(2) [OF assms(1)]
  by (auto simp: main_inv_def eff_def start_ok_def body_inv_def strs_ok_def loose_def split: option.splits)

lemma with_params_s: "str_s (vb_params (with_params st vb)) = (case str_s (vb_params vb) of None \<Rightarrow> st | Some c \<Rightarrow> Some c)"
  by (cases "str_s (vb_params vb)") (simp_all add: with_params_def)

lemma with_params_set: "(with_params st vb)\<lparr>vb_params := x\<rparr> = vb\<lparr>vb_params := x\<rparr>"
  by (simp add: with_params_def)

lemma param_linked:
  assumes "body_inv m b q (Mst F_PARAM) vb" and "b \<le> ps" and "ps \<le> q" and "b \<le> c" and "c \<le> ps" and "q \<le> tmp" and "tmp \<le> k"
    and vs: "str_s (vb_params (with_params (Some ps) vb)) = Some c" and vi: "vparam_in m ps tmp p"
  defines "w \<equiv> with_params (Some ps) vb"
  shows "y \<in> {F_PARAM, L_PARAM} \<Longrightarrow> body_inv m b k (Mst y) (link_via_param p (w\<lparr>vb_params := sclose E tmp (vb_params w)\<rparr>))"
    and "y \<in> {F_VIA, L_PARAM} \<Longrightarrow>
      body_inv m b k (Mst y) (link_via_param p (w\<lparr>vb_params := (vb_params w)\<lparr>str_len := int ps - int c + vp_size p\<rparr>\<rparr>))"
proof -
  have vk: "vparam_in m ps k p" using vparam_in_mono [OF vi assms(7)] .
  have size: "0 \<le> vp_size p" "vp_size p \<le> int tmp - int ps" using vi by (simp_all add: vparam_in_def)
  show "body_inv m b k (Mst y) (link_via_param p (w\<lparr>vb_params := sclose E tmp (vb_params w)\<rparr>))" if "y \<in> {F_PARAM, L_PARAM}"
    unfolding w_def with_params_set using assms that vk
    by (intro link_body [where c = ps] body_set_params [where q = q and c = c]) (auto simp: sclose_def pdiff_def)
  show "body_inv m b k (Mst y) (link_via_param p (w\<lparr>vb_params := (vb_params w)\<lparr>str_len := int ps - int c + vp_size p\<rparr>\<rparr>))"
    if "y \<in> {F_VIA, L_PARAM}"
    unfolding w_def with_params_set using assms that vk size
    by (intro link_body [where c = ps] body_set_params [where q = q and c = c]) auto
qed

text \<open>The variables after a parameter that did not end the header.\<close>

definition param_vars :: "uri_env \<Rightarrow> ptr \<Rightarrow> ptr \<Rightarrow> ptr \<Rightarrow> vp_vars \<Rightarrow> via_vars \<Rightarrow> via_vars" where
  "param_vars E ps c tmp v s =
     (let s1 = (upd_vb (with_params (Some ps)) s)\<lparr>vv_allocs := Suc (vv_allocs s), vv_state := pv_state v, vv_saved := pv_saved v\<rparr>;
          s2 = (if pv_state v = Mst F_PARAM then s1\<lparr>vv_param_start := Some (Suc tmp)\<rparr> else s1)
      in upd_vb (link_via_param (pv_param v))
           (if pv_state v = Mst F_VIA
            then upd_vb (\<lambda>x. x\<lparr>vb_params := (vb_params x)\<lparr>str_len := int ps - int c + vp_size (pv_param v)\<rparr>\<rparr>) s2
            else params_len E tmp s2))"

lemma param_vars_inv:
  assumes "body_inv m b q (Mst F_PARAM) (vv_vb s)" and "b \<le> ps" and "ps \<le> q" and "b \<le> c" and "c \<le> ps" and "q \<le> tmp"
    and vs: "str_s (vb_params (with_params (Some ps) (vv_vb s))) = Some c" and out: "param_out m ps tmp v"
  shows "main_inv m b (Suc tmp) (param_vars E ps c tmp v s)"
proof -
  have vi: "vparam_in m ps tmp (pv_param v)" using out by (simp add: param_out_def)
  note linked = param_linked [OF assms(1-6) _ vs vi, of "Suc tmp"]
  from out consider "pv_state v = Mst F_PARAM" | "pv_state v = Mst L_PARAM" | "pv_state v = Mst F_VIA"
    | f where "pv_state v = Mst f" "f \<in> {F_LF, F_CR}" "pv_saved v = Mst L_PARAM"
    by (auto simp: param_out_def)
  then show ?thesis
  proof cases
    case 1
    then show ?thesis using linked(1) [of F_PARAM E] by (intro main_param) (simp_all add: param_vars_def via_ends Let_def)
  next
    case 2
    then show ?thesis
      using linked(1) [of L_PARAM E] by (intro main_state [where x = L_PARAM]) (simp_all add: param_vars_def via_ends Let_def)
  next
    case 3
    then show ?thesis using linked(2) [of F_VIA] by (intro main_state [where x = F_VIA]) (simp_all add: param_vars_def Let_def)
  next
    case (4 f)
    then show ?thesis
      using linked(1) [of L_PARAM E] by (intro main_eol [where f = f]) (auto simp: param_vars_def via_ends Let_def)
  qed
qed

lemma vm_param_ok:
  assumes inv: "main_inv m b q s" and q: "q < z" and z: "z < length m" "m ! z = NUL" "e \<le> z" and st: "vv_state s = Mst F_PARAM"
    and c: "m ! q \<notin> {SPC, TAB, LF, CR, CHR '';'', CHR '',''}"
  shows "vm_good m b z q (vv_allocs s) (vm_param alloc E m e q s)"
proof -
  obtain ps c where ps: "vv_param_start s = Some ps" "b \<le> ps" "ps \<le> q" "b \<le> c" "c \<le> ps"
      "(case str_s (vb_params (vv_vb s)) of None \<Rightarrow> Some ps | Some c' \<Rightarrow> Some c') = Some c" "body_inv m b q (Mst F_PARAM) (vv_vb s)"
    using vm_param_start [OF inv st] .
  have vs: "str_s (vb_params (with_params (Some ps) (vv_vb s))) = Some c" using ps(6) by (simp add: with_params_s)
  obtain tmp v where r: "parse_via_param E m q e (vp_init (Some ps) (Mst F_PARAM) (vv_saved s)) = Some (tmp, v)"
      and pr: "param_result m ps q z (tmp, v)"
    using parse_via_param_ok [OF z ps(3) q c] by (metis surj_pair)
  have qt: "q \<le> tmp" using pr by (simp add: param_result_def)
  consider "\<not> alloc (vv_allocs s)" | "alloc (vv_allocs s)" "pv_state v = Tst PARAM_ERROR"
    | "alloc (vv_allocs s)" "tmp < z" "param_out m ps tmp v"
    | "alloc (vv_allocs s)" "tmp < z" "pv_state v = Mst END_OF_HEADER" "pv_saved v = Mst L_PARAM" "vparam_in m ps tmp (pv_param v)"
    using pr by (auto simp: param_result_def)
  then show ?thesis
  proof cases
    case 1
    then show ?thesis using q ps(1) by (auto simp: vm_param_def Let_def intro!: vm_good_simps)
  next
    case 2
    then show ?thesis
      using pr r ps(1) st by (auto simp: vm_param_def vm_good_def via_stop_def param_result_def Let_def)
  next
    case 3
    then have "vp_start (pv_param v) = Some ps" by (simp add: param_out_def vparam_in_def)
    with 3 have "vm_param alloc E m e q s = Some (Next tmp (param_vars E ps c tmp v s))"
      using r ps(1) st vs by (auto simp: vm_param_def param_vars_def param_out_def pdiff_def upd_vb_def Let_def)
    then show ?thesis
      using param_vars_inv [OF ps(7,2-5) qt vs 3(3)] qt 3(2)
      by (auto simp: vm_good_def param_vars_def via_ends Let_def)
  next
    case 4
    then have "vp_start (pv_param v) = Some ps" by (simp add: vparam_in_def)
    with 4 show ?thesis
      using r ps(1) st vs qt param_linked(2) [OF ps(7,2-5) qt order_refl vs 4(5), of L_PARAM]
      by (auto simp: vm_param_def vm_good_def via_stop_def pdiff_def Let_def)
  qed
qed

lemma vm_default_ok:
  assumes inv: "main_inv m b q s" and q: "q < z" and z: "z < length m" "m ! z = NUL" "e \<le> z"
    and c: "m ! q \<notin> {SPC, TAB, LF, CR, CHR '';'', CHR '',''}"
  shows "vm_good m b z q (vv_allocs s) (vm_default alloc E m e q (m ! q) s)"
proof -
  have h: "main_inv m b (Suc q) ((upd_vb (\<lambda>x. x\<lparr>vb_host := sopen q (vb_host x)\<rparr>) s)\<lparr>vv_state := Mst P_HOST\<rparr>)" if "vv_state s = Mst F_HOST"
    using that body_open(1) [OF main_body(2) [OF inv]] by (intro main_goto) simp_all
  have p: "main_inv m b (Suc q) ((upd_vb (\<lambda>x. x\<lparr>vb_port_str := sopen q (vb_port_str x)\<rparr>) s)\<lparr>vv_state := Mst P_PORT\<rparr>)" if "vv_state s = Mst F_PORT"
    using that body_open(2) [OF main_body(2) [OF inv]] by (intro main_goto) simp_all
  have i: "main_inv m b (Suc q) (s\<lparr>vv_state := Mst P_IP6HOST\<rparr>)" if "vv_state s = Mst x" "x \<in> {F_IP6HOST, P_IP6HOST}" for x
    using that by (intro main_goto body_moves(1) [OF inv that(1)]) auto
  have n: "vm_out m b z Via_nextvia q s" if "vv_state s = Mst F_VIA"
    using that q main_body(2) [OF inv] by simp
  show ?thesis
    using q h p i n main_stay [OF inv] vm_param_ok [OF inv q z _ c] vm_other_ok [OF inv q]
    by (auto simp: vm_default_def Let_def intro!: vm_good_simps)
qed

lemma vm_step_ok:
  assumes inv: "main_inv m b q s" and q: "q < z" and z: "z < length m" "m ! z = NUL" "e \<le> z"
  shows "vm_good m b z q (vv_allocs s) (vm_step alloc E m e q (m ! q) s)"
  using vm_space_ok [OF inv q] vm_eol_ok [OF inv q] vm_colon_ok [OF inv q] vm_semi_ok [OF inv q] vm_comma_ok [OF inv q]
    vm_lparen_ok [OF inv q] vm_rparen_ok [OF inv q] vm_brack_ok [OF inv q] vm_default_ok [OF inv q z]
  by (simp add: vm_step_def vm_lf_def vm_cr_def)

section \<open>The loops\<close>

interpretation vsl: char_loop "vs_step E" m e "\<lambda>q s. e < length m \<and> q \<le> max b e \<and> vs_inv m b q s \<and> vv_allocs s = n"
  "\<lambda>l q s. vs_out m b l q s \<and> b \<le> q \<and> q < e \<and> vv_allocs s = n" for E m e b n
proof
  fix q s
  assume q: "q < e" and i: "e < length m \<and> q \<le> max b e \<and> vs_inv m b q s \<and> vv_allocs s = n"
  then have b: "b \<le> q" by (simp add: vs_inv_def)
  from i q vs_step_ok [of m b q s E] have "vs_good m b q n (vs_step E q (m ! q) s)" by auto
  then show "(\<exists>q' s'. vs_step E q (m ! q) s = Some (Next q' s') \<and> q \<le> q' \<and> e < length m \<and> Suc q' \<le> max b e \<and> vs_inv m b (Suc q') s' \<and> vv_allocs s' = n) \<or>
    (\<exists>l q' s'. vs_step E q (m ! q) s = Some (Goto l q' s') \<and> vs_out m b l q' s' \<and> b \<le> q' \<and> q' < e \<and> vv_allocs s' = n)"
    using b q i unfolding vs_good_def by fastforce
qed simp

interpretation vml: nul_loop "vm_step alloc E m e" m z "\<lambda>q s. e \<le> z \<and> k \<le> q \<and> n \<le> vv_allocs s \<and> main_inv m b q s"
  "\<lambda>l q s. vm_out m b z l q s \<and> k \<le> q \<and> q \<le> z \<and> n \<le> vv_allocs s" for alloc E m e z b n k
proof
  fix q s
  assume z: "z < length m" "m ! z = NUL" and q: "q < z" and i: "e \<le> z \<and> k \<le> q \<and> n \<le> vv_allocs s \<and> main_inv m b q s"
  then have "vm_good m b z q (vv_allocs s) (vm_step alloc E m e q (m ! q) s)" by (intro vm_step_ok) simp_all
  then show "(\<exists>q' s'. vm_step alloc E m e q (m ! q) s = Some (Next q' s') \<and> q \<le> q' \<and> q' < z \<and>
      e \<le> z \<and> k \<le> Suc q' \<and> n \<le> vv_allocs s' \<and> main_inv m b (Suc q') s') \<or>
    (\<exists>l q' s'. vm_step alloc E m e q (m ! q) s = Some (Goto l q' s') \<and> vm_out m b z l q' s' \<and> k \<le> q' \<and> q' \<le> z \<and> n \<le> vv_allocs s')"
    using i unfolding vm_good_def by (meson le_SucI le_trans)
qed

section \<open>A header\<close>

definition port_ok :: "mem \<Rightarrow> via_body \<Rightarrow> bool" where
  "port_ok m vb \<longleftrightarrow> (if str_s (vb_port_str vb) = None then vb_port vb = 0
     else (let d = str_text m (vb_port_str vb) in list_all is_digit d \<and> length d \<le> 5 \<and> vb_port vb = of_nat (dec_val d)))"

definition via_ok :: "mem \<Rightarrow> ptr \<Rightarrow> ptr \<Rightarrow> via_body \<Rightarrow> bool" where
  "via_ok m b q vb \<longleftrightarrow> vb_error vb = PARSE_OK \<and> via_head m b q vb \<and> plist_ok m b q vb \<and> port_ok m vb \<and>
     loose b q (vb_host vb) \<and> loose b q (vb_port_str vb) \<and> loose b q (vb_params vb) \<and> loose b q (vb_comment vb)"

lemma loose_lower: "loose b q x \<Longrightarrow> a \<le> b \<Longrightarrow> q \<le> r \<Longrightarrow> loose a r x"
  by (auto simp: loose_def split: option.splits)

lemma via_ok_mono:
  assumes "via_ok m b q vb" and "a \<le> b" and "q \<le> r"
  shows "via_ok m a r vb"
proof -
  have "closed_word m a r P s" if "closed_word m b q P s" for P s
    using that assms(2,3) by (auto simp: closed_word_def)
  moreover have "plist_ok m a r vb" if "plist_ok m b q vb"
    using plist_ok_mono [OF that assms(3)] assms(2) by (simp add: plist_ok_def list_all_iff) (meson le_trans)
  ultimately show ?thesis
    using assms loose_lower [OF _ assms(2,3)] by (simp add: via_ok_def via_head_def)
qed

lemma str2s_total:
  assumes "p + k \<le> length m"
  shows "\<exists>w err. str2s m p k = Some (w, err) \<and>
    (err = 0 \<longrightarrow> list_all is_digit (seg m p (p + k)) \<and> length (seg m p (p + k)) \<le> 5 \<and> w = of_nat (dec_val (seg m p (p + k))))"
  using str2s_loop_eq [OF assms, of p 0 0] by (auto simp: str2s_def list_all_iff Let_def)

lemma via_close_ok:
  assumes "body_inv m b q st (vv_vb s)" and "st \<noteq> Mst P_COMMENT" and "q \<le> length m"
  shows "\<exists>s' ok. via_close m b q s = Some (s', ok) \<and> vv_allocs s' = vv_allocs s \<and> (ok \<longrightarrow> via_ok m b q (vv_vb s'))"
proof (cases "str_s (vb_port_str (vv_vb s))")
  case None
  with assms show ?thesis
    by (auto simp: via_close_def body_inv_def strs_ok_def via_ok_def port_ok_def via_head_def plist_ok_def Let_def)
next
  case (Some p)
  let ?k = "nat (str_len (vb_port_str (vv_vb s)))"
  have "p + ?k \<le> length m" using assms Some by (auto simp: body_inv_def strs_ok_def loose_def)
  from str2s_total [OF this] obtain w err where
    "str2s m p ?k = Some (w, err)" "err = 0 \<longrightarrow> list_all is_digit (seg m p (p + ?k)) \<and> length (seg m p (p + ?k)) \<le> 5 \<and> w = of_nat (dec_val (seg m p (p + ?k)))"
    by blast
  then show ?thesis
    using assms(1,2) Some
    by (auto simp: via_close_def body_inv_def strs_ok_def via_ok_def port_ok_def via_head_def plist_ok_def str_text_def Let_def)
qed

definition result_ok :: "mem \<Rightarrow> ptr \<Rightarrow> ptr \<Rightarrow> ptr \<Rightarrow> nat \<Rightarrow> via_result \<Rightarrow> bool" where
  "result_ok m b0 b z n r \<longleftrightarrow> (let (tmp, bs, k) = r in b \<le> tmp \<and> tmp \<le> z \<and> n \<le> k \<and> bs \<noteq> [] \<and>
     (vb_error (hd bs) \<noteq> PARSE_ERROR \<longrightarrow> list_all (via_ok m b0 z) bs))"

lemma fail_ok: "b \<le> tmp \<Longrightarrow> tmp \<le> z \<Longrightarrow> n \<le> vv_allocs s \<Longrightarrow> result_ok m b0 b z n (via_fail tmp done s)"
  by (cases "done") (simp_all add: result_ok_def via_fail_def)

lemma endofpacket_ok:
  assumes "vv_state s \<in> via_end_states \<Longrightarrow> body_inv m b q (vv_state s) (vv_vb s)"
    and "list_all (via_ok m b0 z) done" and "b0 \<le> b" and "b \<le> q" and "q \<le> z" and "z < length m" and "n \<le> vv_allocs s"
  shows "\<exists>r. via_endofpacket m b q done s = Some r \<and> result_ok m b0 b z n r"
proof (cases "vv_state s \<in> via_end_states")
  case True
  then have "vv_state s \<noteq> Mst P_COMMENT" by (auto simp: via_end_states_def)
  from via_close_ok [OF assms(1) [OF True] this] assms(5,6) obtain s' ok where
    c: "via_close m b q s = Some (s', ok)" "vv_allocs s' = vv_allocs s" "ok \<longrightarrow> via_ok m b q (vv_vb s')" by auto
  then show ?thesis
    using True assms(2-7) fail_ok [of b q z n s' m b0 "done"] via_ok_mono [of m b q "vv_vb s'" b0 z]
    by (auto simp: via_endofpacket_def result_ok_def)
next
  case False
  then show ?thesis using assms fail_ok [of b q z n s m b0 "done"] by (simp add: via_endofpacket_def)
qed

text \<open>The second loop of one body and what follows it.\<close>

definition one_ok :: "mem \<Rightarrow> ptr \<Rightarrow> ptr \<Rightarrow> ptr \<Rightarrow> nat \<Rightarrow> via_result + (ptr \<times> via_body list \<times> nat) \<Rightarrow> bool" where
  "one_ok m b0 b z n r \<longleftrightarrow> (case r of
       Inl res \<Rightarrow> result_ok m b0 b z n res
     | Inr (q, bs, k) \<Rightarrow> b < q \<and> q \<le> z \<and> n \<le> k \<and> list_all (via_ok m b0 z) bs)"

lemma main_start:
  assumes "vs_out m b Main_via q s" and "b \<le> q"
  shows "main_inv m b (Suc q) s"
proof -
  have z: "rest_zero (vv_vb s)" and h: "via_head m b (Suc q) (vv_vb s)" using assms via_head_mono [of m b q "vv_vb s" "Suc q"] by simp_all
  have "body_inv m b (Suc q) (Mst F_HOST) (vv_vb s)"
    using z h assms(2) by (simp add: body_inv_def rest_zero_def strs_ok_def plist_ok_def last_param_def)
  moreover have "vv_state s = Mst F_HOST \<or> vv_state s \<in> {Mst F_LF, Mst F_CR} \<and> vv_saved s = Mst F_HOST" using assms(1) by simp
  ultimately show ?thesis
    by (auto simp: main_inv_def eff_def start_ok_def)
qed

lemma nextvia_ok:
  assumes "vm_out m b z Via_nextvia q s" and "list_all (via_ok m b0 z) done" and "b0 \<le> b" and "b < q" and "q \<le> z" and "z < length m" and "n \<le> vv_allocs s"
  shows "\<exists>r. via_nextvia alloc m b q done s = Some r \<and> one_ok m b0 b z n r"
proof -
  have "body_inv m b q (vv_state s) (vv_vb s)" "vv_state s \<noteq> Mst P_COMMENT" using assms(1) by auto
  from via_close_ok [OF this] assms(5,6) obtain s' ok where
    c: "via_close m b q s = Some (s', ok)" "vv_allocs s' = vv_allocs s" "ok \<longrightarrow> via_ok m b q (vv_vb s')" by auto
  then show ?thesis
    using assms(2-7) fail_ok [of b q z n s' m b0 "done"] fail_ok [of b q z n "s'\<lparr>vv_allocs := Suc (vv_allocs s')\<rparr>" m b0 "done"]
      via_ok_mono [of m b q "vv_vb s'" b0 z]
    by (auto simp: via_nextvia_def one_ok_def Let_def)
qed

lemma main_via_ok:
  assumes z: "z < length m" "m ! z = NUL" "e \<le> z" and b: "b0 \<le> b" "b \<le> tmp" "tmp < z" and d: "list_all (via_ok m b0 z) done"
    and inv: "main_inv m b (Suc tmp) s" and n: "n \<le> vv_allocs s"
  shows "\<exists>r. main_via alloc E m e b done tmp s = Some r \<and> one_ok m b0 b z n r"
proof -
  have i: "e \<le> z \<and> Suc b \<le> Suc tmp \<and> n \<le> vv_allocs s \<and> main_inv m b (Suc tmp) s" using z(3) b(2) n inv by simp
  have tz: "Suc tmp \<le> z" using b(3) by simp
  from vml.nul_total [OF z(1,2) tz i, of alloc E] consider
      q s' where "for_nul (vm_step alloc E m e) m (Suc tmp) s = Some (None, q, s')" "q \<le> z" "main_inv m b q s'" "b < q" "n \<le> vv_allocs s'"
    | l q s' where "for_nul (vm_step alloc E m e) m (Suc tmp) s = Some (Some l, q, s')" "vm_out m b z l q s'" "b < q" "q \<le> z" "n \<le> vv_allocs s'"
    by fastforce
  then show ?thesis
  proof cases
    case 1
    have "body_inv m b q (vv_state s') (vv_vb s')" if "vv_state s' \<in> via_end_states"
      using main_body(2) [OF 1(3)] that by (auto simp: via_end_states_def eol_state_def)
    from endofpacket_ok [OF this d b(1) _ 1(2) z(1) 1(5)] 1(1,4) show ?thesis
      by (auto simp: main_via_def one_ok_def)
  next
    case (2 l q s')
    show ?thesis
    proof (cases "l \<in> {Via_endofheader, Via_nextvia}")
      case True
      then show ?thesis
        using 2 nextvia_ok [OF _ d b(1) 2(3,4) z(1) 2(5), of alloc]
          endofpacket_ok [of "s'\<lparr>vv_state := vv_saved s'\<rparr>" m b q b0 z "done" n] d b(1) z(1)
        by (auto simp: main_via_def one_ok_def)
    next
      case False
      then show ?thesis using 2 fail_ok [of b q z n s' m b0 "done"] by (cases l) (auto simp: main_via_def one_ok_def)
    qed
  qed
qed

lemma via_one_ok:
  assumes z: "z < length m" "m ! z = NUL" "e \<le> z" and b: "b0 \<le> b" "b \<le> z" and d: "list_all (via_ok m b0 z) done"
  shows "\<exists>r. via_one alloc E m e b done via_body_zero n = Some r \<and> one_ok m b0 b z n r"
proof -
  let ?s = "via_init via_body_zero n"
  have "start_inv m b b F_SIP (vv_vb ?s)"
    by (simp add: start_inv_def rest_zero_def via_init_def via_body_zero_def state_sets)
  then have "e < length m \<and> b \<le> max b e \<and> vs_inv m b b ?s \<and> vv_allocs ?s = n"
    using z by (simp add: vs_inv_def via_init_def)
  from vsl.loop_total [OF this, of E] consider
      q s where "for_chars (vs_step E) m b e ?s = Some (None, q, s)" "b \<le> q" "q \<le> z" "vv_allocs s = n"
    | l q s where "for_chars (vs_step E) m b e ?s = Some (Some l, q, s)" "vs_out m b l q s" "b \<le> q" "q < e" "vv_allocs s = n"
    using z b by (fastforce simp: vs_inv_def)
  then show ?thesis
  proof cases
    case 1
    then show ?thesis using fail_ok [of b q z n s m b0 "done"] by (simp add: via_one_def one_ok_def)
  next
    case (2 l q s)
    then show ?thesis
      using z b d main_start [of m b q s] main_via_ok [OF z b(1), of q "done" s n alloc E] fail_ok [of b q z n s m b0 "done"]
        endofpacket_ok [of "s\<lparr>vv_state := vv_saved s\<rparr>" m b q b0 z "done" n]
      by (cases l) (auto simp: via_one_def one_ok_def via_end_states_def)
  qed
qed

lemma parse_again_ok:
  assumes z: "z < length m" "m ! z = NUL" "e \<le> z" and "b0 \<le> b" "b \<le> z" and "list_all (via_ok m b0 z) done" and "n0 \<le> n"
  shows "\<exists>r. parse_again alloc E m e b done via_body_zero n = Some r \<and> result_ok m b0 b0 z n0 r"
  using assms(4-)
proof (induction "z - b" arbitrary: b "done" n rule: less_induct)
  case less
  obtain r where r: "via_one alloc E m e b done via_body_zero n = Some r" "one_ok m b0 b z n r"
    using via_one_ok [OF z less.prems(1-3)] by blast
  show ?case
  proof (cases r)
    case (Inl res)
    then show ?thesis
      using r less.prems by (auto simp: parse_again.simps [of _ _ _ _ b] one_ok_def result_ok_def)
  next
    case (Inr x)
    then obtain q bs k where x: "x = (q, bs, k)" by (cases x)
    have "z - q < z - b" "b0 \<le> q" "q \<le> z" "list_all (via_ok m b0 z) bs" "n0 \<le> k"
      using r(2) Inr x less.prems by (auto simp: one_ok_def)
    from less.hyps [OF this] show ?thesis
      using r(1) Inr x by (simp add: parse_again.simps [of _ _ _ _ b])
  qed
qed

lemma parse_via_total:
  assumes "z < length m" and "m ! z = NUL" and "e \<le> z" and "buffer \<le> z"
  shows "\<exists>tmp bs k. parse_via alloc E m buffer e via_body_zero n = Some (tmp, bs, k) \<and> buffer \<le> tmp \<and> tmp \<le> z \<and> n \<le> k \<and> bs \<noteq> [] \<and>
    (vb_error (hd bs) \<noteq> PARSE_ERROR \<longrightarrow> list_all (via_ok m buffer z) bs)"
  using parse_again_ok [OF assms(1-3) order_refl assms(4), of "[]" n n alloc E] by (auto simp: parse_via_def result_ok_def)

text \<open>
  C3: \<^verbatim>\<open>parse_via\<close> returns for every header in a buffer that has a zero byte at or after the end pointer, with a pointer
  between the start and that byte, and never reads outside the buffer. When the first body is not marked as an error, no
  body is: every body begins with \<^verbatim>\<open>SIP\<close>, \<^verbatim>\<open>2.0\<close> and a transport whose protocol it has (\<^verbatim>\<open>WSS\<close> before a line feed apart),
  every string is inside the buffer or has a null pointer, every parameter is inside the buffer and has the type that
  its name has, every shortcut is the last parameter of its type, and the port is the value of at most five digits
  modulo 65536.
\<close>

theorem parse_via_safe:
  assumes "z < length m" and "m ! z = NUL" and "e \<le> z" and "buffer \<le> z"
  shows "\<exists>tmp bs k. parse_via alloc E m buffer e via_body_zero n = Some (tmp, bs, k) \<and> buffer \<le> tmp \<and> tmp \<le> z \<and> n \<le> k \<and> bs \<noteq> [] \<and>
    (vb_error (hd bs) = PARSE_OK \<longrightarrow> list_all (via_ok m buffer z) bs)"
  using parse_via_total [OF assms, of alloc E n] by fastforce

theorem parse_via_safe_witness:
  "\<exists>tmp bs k. parse_via (\<lambda>_. True) \<lparr>ue_empty = 100, ue_addr = int\<rparr> (''SIP/2.0/UDP host;branch=z9hG4bK1'' @ [CR, LF, NUL]) 0 34 via_body_zero 0 = Some (tmp, bs, k) \<and>
    0 \<le> tmp \<and> tmp \<le> 34 \<and> 0 \<le> k \<and> bs \<noteq> [] \<and>
    (vb_error (hd bs) = PARSE_OK \<longrightarrow> list_all (via_ok (''SIP/2.0/UDP host;branch=z9hG4bK1'' @ [CR, LF, NUL]) 0 34) bs)"
  by (rule parse_via_safe) simp_all

end
