(* ===== verification/Via_Round.thy ===== *)
theory Via_Round
  imports Via_Safe Uri_Round
begin

text \<open>
  What \<^verbatim>\<open>parse_via\<close> computes: the round trip of a printed Via body with a known transport, a host, an optional port and a list
  of parameters with values, and the inputs on which the function surprises.
\<close>

section \<open>A printed parameter\<close>

definition vname_char :: "char \<Rightarrow> bool" where
  "vname_char c \<longleftrightarrow> c \<notin> {SPC, TAB, LF, CR, CHR ''='', CHR '';'', CHR '',''}"

definition vvalue_char :: "char \<Rightarrow> bool" where
  "vvalue_char c \<longleftrightarrow> c \<notin> {SPC, TAB, LF, CR, CHR ''='', CHR '';'', CHR '','', DQUOTE, NUL}"

fun vparam_ok :: "char list \<times> char list \<Rightarrow> bool" where
  "vparam_ok (n, v) \<longleftrightarrow> n \<noteq> [] \<and> list_all vname_char n \<and> hd n \<notin> {NUL, CHR '':'', CHR ''('', CHR '')'', CHR ''['', CHR '']''} \<and>
     via_name_type (map tolower_c n) \<notin> flag_types \<and> v \<noteq> [] \<and> list_all vvalue_char v"

fun vparam_text :: "char list \<times> char list \<Rightarrow> char list" where
  "vparam_text (n, v) = n @ ''='' @ v"

definition vparams_text :: "(char list \<times> char list) list \<Rightarrow> char list" where
  "vparams_text ps = concat (map (\<lambda>x. '';'' @ vparam_text x) ps)"

text \<open>The parameter that the text at \<open>p\<close> gives.\<close>

definition via_par :: "ptr \<Rightarrow> char list \<times> char list \<Rightarrow> via_param" where
  "via_par p x = (let q = p + length (fst x); r = p + length (vparam_text x) in
     \<lparr>vp_type = via_name_type (map tolower_c (fst x)), vp_name = mk_str p q, vp_value = mk_str (q + 1) r, vp_start = Some p,
      vp_size = int r - int p\<rparr>)"

lemma run_name_tail:
  "reads_name (pv_state s) l \<Longrightarrow> list_all vname_char cs \<Longrightarrow>
   \<exists>st. run_chars (vp_step E) q cs s = Some (s\<lparr>pv_state := st\<rparr>) \<and> reads_name st (l @ map tolower_c cs)"
proof (induction cs arbitrary: q s l)
  case Nil
  then show ?case by (intro exI [of _ "pv_state s"]) simp
next
  case (Cons c cs)
  let ?st = "name_step (tolower_c c) (pv_state s)"
  have "vp_step E q c s = Some (Next q (s\<lparr>pv_state := ?st\<rparr>))"
    using Cons.prems reads_name_not_main [OF Cons.prems(1)]
    by (auto simp: vp_step_def vname_char_def vp_letter_def name_step_def Let_def)
  moreover have "reads_name ?st (l @ [tolower_c c])" using name_step_any [OF Cons.prems(1)] .
  ultimately show ?case
    using Cons.IH [of "s\<lparr>pv_state := ?st\<rparr>" "l @ [tolower_c c]" "Suc q"] Cons.prems(2) by auto
qed

lemma run_name:
  assumes "n \<noteq> []" and "list_all vname_char n"
  shows "\<exists>st. run_chars (vp_step E) p n (vp_init b (Mst F_PARAM) sv) =
    Some (vp_init b st sv\<lparr>pv_param := (pv_param (vp_init b st sv))\<lparr>vp_name := mk_str p p\<rparr>\<rparr>) \<and> reads_name st (map tolower_c n)"
proof -
  obtain c cs where n: "n = c # cs" using assms(1) by (cases n) auto
  let ?s = "vp_init b (Mst F_PARAM) sv"
  let ?s1 = "?s\<lparr>pv_state := name_first (tolower_c c), pv_param := (pv_param ?s)\<lparr>vp_name := mk_str p p\<rparr>\<rparr>"
  have "vp_step E p c ?s = Some (Next p ?s1)"
    using assms n by (simp add: vp_step_def vname_char_def vp_letter_def vp_init_def Let_def)
  moreover have "\<exists>st. run_chars (vp_step E) (Suc p) cs ?s1 = Some (?s1\<lparr>pv_state := st\<rparr>) \<and> reads_name st ([tolower_c c] @ map tolower_c cs)"
    using assms(2) n by (intro run_name_tail) (simp_all add: reads_first)
  ultimately show ?thesis
    using n by (auto simp: vp_init_def)
qed

lemma run_value:
  assumes "v \<noteq> []" and "list_all vvalue_char v" and "vp_value (pv_param s) = str_null" and "pv_state s = Vst F_VALUE"
  shows "run_chars (fv_step E) p v s = Some (s\<lparr>pv_state := Vst P_VALUE, pv_param := (pv_param s)\<lparr>vp_value := mk_str p p\<rparr>\<rparr>)"
proof -
  obtain c cs where v: "v = c # cs" using assms(1) by (cases v) auto
  let ?s1 = "s\<lparr>pv_state := Vst P_VALUE, pv_param := (pv_param s)\<lparr>vp_value := mk_str p p\<rparr>\<rparr>"
  have "fv_step E p c s = Some (Next p ?s1)"
    using assms v by (simp add: fv_step_def vvalue_char_def fv_default_def value_start_def Let_def)
  moreover have "run_chars (fv_step E) (Suc p) cs ?s1 = Some ?s1"
    using assms(2) v by (intro run_chars_stay) (auto simp: list_all_iff fv_step_def vvalue_char_def fv_default_def Let_def)
  ultimately show ?thesis using v by simp
qed

lemma value_step_end:
  assumes "pv_state s = Vst P_VALUE" and "t \<in> {CHR '';'', CR}"
  shows "fv_step E q t s = Some (Goto Endofparam q ((value_end E q s)\<lparr>pv_saved := (if t = CR then Mst L_PARAM else pv_saved s),
    pv_state := (if t = CR then Mst F_CR else Mst F_PARAM)\<rparr>))"
  using assms by (auto simp: fv_step_def fv_cr_def fv_eol_def fv_semi_def value_end_def Let_def)

lemma print_name:
  assumes "n \<noteq> []" and "list_all vname_char n" and ty: "via_name_type (map tolower_c n) \<notin> flag_types"
    and sn: "seg m p r = n" and r: "r = p + length n" "r < e" "e \<le> length m" and eq: "m ! r = CHR ''=''"
  shows "for_chars (vp_step E) m p e (vp_init (Some p) (Mst F_PARAM) sv) = Some (Some Find_value, r,
    \<lparr>pv_state = Vst F_VALUE, pv_saved = sv, pv_param = \<lparr>vp_type = via_name_type (map tolower_c n), vp_name = mk_str p r,
       vp_value = str_null, vp_start = Some p, vp_size = 0\<rparr>\<rparr>)"
proof -
  obtain st where st: "run_chars (vp_step E) p n (vp_init (Some p) (Mst F_PARAM) sv) =
      Some (vp_init (Some p) st sv\<lparr>pv_param := (pv_param (vp_init (Some p) st sv))\<lparr>vp_name := mk_str p p\<rparr>\<rparr>)" "reads_name st (map tolower_c n)"
    using run_name [OF assms(1,2), of E p "Some p" sv] by blast
  let ?s1 = "vp_init (Some p) st sv\<lparr>pv_param := (pv_param (vp_init (Some p) st sv))\<lparr>vp_name := mk_str p p\<rparr>\<rparr>"
  have "for_chars (vp_step E) m p e (vp_init (Some p) (Mst F_PARAM) sv) = for_chars (vp_step E) m r e ?s1"
    using for_chars_list [OF st(1), of m e] sn r by simp
  also have "\<dots> = Some (Some Find_value, r, (vp_named E r ?s1)\<lparr>pv_state := Vst F_VALUE\<rparr>)"
    using eq r ty reads_name_not_main [OF st(2)] reads_name_type [OF st(2)]
    by (intro for_chars_goto) (simp_all add: vp_step_def vp_equal_def vp_init_def Let_def)
  finally show ?thesis
    using reads_name_type [OF st(2)] by (simp add: vp_named_def vp_init_def)
qed

lemma print_value:
  assumes v: "v \<noteq> []" "list_all vvalue_char v" and s: "vp_value (pv_param s) = str_null" "pv_state s = Vst F_VALUE"
    and sv: "seg m r q = v" and q: "q = r + length v" "q < length m" and t: "m ! q = t" "t \<in> {CHR '';'', CR}"
  shows "for_nul (fv_step E) m r s = Some (Some Endofparam, q,
    \<lparr>pv_state = (if t = CR then Mst F_CR else Mst F_PARAM), pv_saved = (if t = CR then Mst L_PARAM else pv_saved s),
     pv_param = (pv_param s)\<lparr>vp_value := mk_str r q\<rparr>\<rparr>)"
proof -
  let ?s = "s\<lparr>pv_state := Vst P_VALUE, pv_param := (pv_param s)\<lparr>vp_value := mk_str r r\<rparr>\<rparr>"
  have "NUL \<notin> set v" using v(2) by (auto simp: list_all_iff vvalue_char_def)
  then have "for_nul (fv_step E) m r s = for_nul (fv_step E) m (r + length v) ?s"
    using sv q by (intro for_nul_list [OF run_value [OF v s]]) simp_all
  also have "\<dots> = Some (Some Endofparam, q, (value_end E q ?s)\<lparr>pv_saved := (if t = CR then Mst L_PARAM else pv_saved s),
      pv_state := (if t = CR then Mst F_CR else Mst F_PARAM)\<rparr>)"
    unfolding q(1) [symmetric]
  proof (rule for_nul_goto)
    show "q < length m" "m ! q \<noteq> NUL" using q t by auto
    show "fv_step E q (m ! q) ?s = Some (Goto Endofparam q ((value_end E q ?s)\<lparr>pv_saved := (if t = CR then Mst L_PARAM else pv_saved s),
        pv_state := (if t = CR then Mst F_CR else Mst F_PARAM)\<rparr>))"
      unfolding t(1) using value_step_end [OF _ t(2), of ?s E q] by simp
  qed
  finally show ?thesis by (simp add: value_end_def)
qed

lemma parse_via_param_print:
  assumes x: "vparam_ok x" and sg: "seg m p q = vparam_text x" and q: "q = p + length (vparam_text x)" "q < e" "e \<le> length m"
    and t: "m ! q = t" "t \<in> {CHR '';'', CR}"
  shows "parse_via_param E m p e (vp_init (Some p) (Mst F_PARAM) sv) =
    Some (q, \<lparr>pv_state = (if t = CR then Mst F_CR else Mst F_PARAM), pv_saved = (if t = CR then Mst L_PARAM else sv), pv_param = via_par p x\<rparr>)"
proof -
  obtain n v where nv: "x = (n, v)" by (cases x)
  let ?r = "p + length n"
  have ok: "n \<noteq> []" "list_all vname_char n" "via_name_type (map tolower_c n) \<notin> flag_types" "v \<noteq> []" "list_all vvalue_char v"
    using x nv by auto
  have sn: "seg m p ?r = n" using seg_prefix [of m p q n "''='' @ v"] sg nv by simp
  have sr: "seg m ?r q = ''='' @ v" using sg nv q by (intro seg_after) simp_all
  then have eq: "m ! ?r = CHR ''=''" and sv: "seg m (?r + 1) q = v" using seg_Cons [of ?r q m] q nv by auto
  have rq: "q = ?r + 1 + length v" "?r < e" "q < length m" using q nv by simp_all
  show ?thesis
    using print_name [OF ok(1-3) sn refl rq(2) q(3) eq, of E sv] print_value [OF ok(4,5) _ _ sv rq(1,3) t, of _ E]
    by (simp add: parse_via_param_def vp_exit_def set_size_def via_par_def nv q(1) Let_def)
qed

section \<open>A list of parameters\<close>

definition add_vpar :: "uri_env \<Rightarrow> ptr \<Rightarrow> char list \<times> char list \<Rightarrow> via_body \<Rightarrow> via_body" where
  "add_vpar E p x vb = (let w = with_params (Some p) vb in
     link_via_param (via_par p x) (w\<lparr>vb_params := sclose E (p + length (vparam_text x)) (vb_params w)\<rparr>))"

fun add_vpars :: "uri_env \<Rightarrow> ptr \<Rightarrow> (char list \<times> char list) list \<Rightarrow> via_body \<Rightarrow> via_body" where
  "add_vpars E p [] vb = vb"
| "add_vpars E p (x # xs) vb = add_vpars E (p + length (vparam_text x) + 1) xs (add_vpar E p x vb)"

lemma vm_step_param:
  assumes "vparam_ok x" and "m ! p = hd (fst x)" and "vv_state s = Mst F_PARAM"
  shows "vm_step alloc E m e p (m ! p) s = vm_param alloc E m e p s" and "m ! p \<noteq> NUL"
proof -
  have "vname_char (m ! p)" using assms by (cases x; cases "fst x") auto
  then show "vm_step alloc E m e p (m ! p) s = vm_param alloc E m e p s" "m ! p \<noteq> NUL"
    using assms by (cases x; auto simp: vname_char_def vm_step_def vm_default_def Let_def)+
qed

lemma vm_param_print:
  assumes x: "vparam_ok x" and sg: "seg m p q = vparam_text x" and q: "q = p + length (vparam_text x)" "q < e" "e \<le> length m"
    and t: "m ! q = t" "t \<in> {CHR '';'', CR}" and s: "vv_state s = Mst F_PARAM" "vv_param_start s = Some p" and a: "\<And>i. alloc i"
  shows "\<exists>s'. for_nul (vm_step alloc E m e) m p s = for_nul (vm_step alloc E m e) m (q + 1) s' \<and>
    vv_vb s' = add_vpar E p x (vv_vb s) \<and> vv_allocs s' = Suc (vv_allocs s) \<and>
    (if t = CR then vv_state s' = Mst F_CR \<and> vv_saved s' = Mst L_PARAM else vv_state s' = Mst F_PARAM \<and> vv_param_start s' = Some (q + 1))"
proof -
  have "seg m p q \<noteq> [] \<and> hd (seg m p q) = hd (fst x)" using sg x by (cases x; cases "fst x") auto
  then have hd: "m ! p = hd (fst x)" "p < length m" using q seg_Cons [of p q m] by (cases "p < q"; simp)+
  let ?v = "\<lparr>pv_state = (if t = CR then Mst F_CR else Mst F_PARAM), pv_saved = (if t = CR then Mst L_PARAM else vv_saved s), pv_param = via_par p x\<rparr>"
  let ?s = "(upd_vb (with_params (Some p)) s)\<lparr>vv_allocs := Suc (vv_allocs s), vv_state := pv_state ?v, vv_saved := pv_saved ?v\<rparr>"
  let ?s' = "upd_vb (link_via_param (via_par p x)) (params_len E q (if t = CR then ?s else ?s\<lparr>vv_param_start := Some (q + 1)\<rparr>))"
  have "vm_param alloc E m e p s = Some (Next q ?s')"
    using parse_via_param_print [OF x sg q t, of E "vv_saved s"] a s t(2) by (auto simp: vm_param_def Let_def)
  then have "for_nul (vm_step alloc E m e) m p s = for_nul (vm_step alloc E m e) m (q + 1) ?s'"
    using vm_step_param [OF x hd(1) s(1)] hd(2) by (intro for_nul_turn) simp_all
  moreover have "vv_vb ?s' = add_vpar E p x (vv_vb s)" using q(1) by (simp add: add_vpar_def Let_def)
  ultimately show ?thesis by (intro exI [of _ ?s']) (simp add: params_len_def)
qed

lemma vparams_text_Cons: "vparams_text (x # xs) = CHR '';'' # vparam_text x @ vparams_text xs"
  by (simp add: vparams_text_def)

lemma run_vparams:
  assumes "seg m p q = vparam_text x @ vparams_text xs" and "q = p + length (vparam_text x @ vparams_text xs)" and "q < e" and "e \<le> length m"
    and "m ! q = CR" and "list_all vparam_ok (x # xs)" and "vv_state s = Mst F_PARAM" and "vv_param_start s = Some p" and "\<And>i. alloc i"
  shows "\<exists>s'. for_nul (vm_step alloc E m e) m p s = for_nul (vm_step alloc E m e) m (q + 1) s' \<and>
    vv_vb s' = add_vpars E p (x # xs) (vv_vb s) \<and> vv_allocs s' = vv_allocs s + length (x # xs) \<and> vv_state s' = Mst F_CR \<and> vv_saved s' = Mst L_PARAM"
  using assms(1-8)
proof (induction xs arbitrary: x p s)
  case Nil
  then have "vparam_ok x" "seg m p q = vparam_text x" "q = p + length (vparam_text x)" by (simp_all add: vparams_text_def)
  from vm_param_print [where alloc = alloc and E = E, OF this Nil.prems(3-5) _ Nil.prems(7,8)] obtain s' where
    "for_nul (vm_step alloc E m e) m p s = for_nul (vm_step alloc E m e) m (q + 1) s'" "vv_vb s' = add_vpar E p x (vv_vb s)"
    "vv_allocs s' = Suc (vv_allocs s)" "vv_state s' = Mst F_CR" "vv_saved s' = Mst L_PARAM"
    using assms(9) by auto
  then show ?case by (intro exI [of _ s']) simp
next
  case (Cons y ys)
  let ?r = "p + length (vparam_text x)"
  have sx: "seg m p ?r = vparam_text x" using seg_prefix [OF Cons.prems(1)] .
  have rest: "seg m ?r q = CHR '';'' # vparam_text y @ vparams_text ys"
    using Cons.prems(1-4) by (intro seg_after) (simp_all add: vparams_text_Cons)
  have rq: "?r < q" "q = ?r + 1 + length (vparam_text y @ vparams_text ys)" using Cons.prems(2) by (simp_all add: vparams_text_Cons)
  have semi: "m ! ?r = CHR '';''" and tl: "seg m (?r + 1) q = vparam_text y @ vparams_text ys"
    using rest rq seg_Cons [of ?r q m] Cons.prems(3,4) by auto
  obtain s1 where s1: "for_nul (vm_step alloc E m e) m p s = for_nul (vm_step alloc E m e) m (?r + 1) s1"
      "vv_vb s1 = add_vpar E p x (vv_vb s)" "vv_allocs s1 = Suc (vv_allocs s)" "vv_state s1 = Mst F_PARAM" "vv_param_start s1 = Some (?r + 1)"
    using vm_param_print [OF _ sx refl _ Cons.prems(4) semi _ Cons.prems(7,8), of alloc E] Cons.prems(3,6) rq(1) assms(9) by auto
  from Cons.IH [OF tl rq(2) Cons.prems(3-5) _ s1(4,5)] Cons.prems(6) show ?case
    using s1(1-3) by (simp add: add.assoc)
qed

section \<open>The body\<close>

text \<open>The end of the header: the line end has been read, and the next character is not a blank.\<close>

lemma vm_header_end:
  assumes "vv_state s = Mst F_CRLF" and "c \<notin> {SPC, TAB}"
  shows "\<exists>s'. vm_step alloc E m e q c s = Some (Goto Via_endofheader q s') \<and> vv_saved s' = vv_saved s \<and> vv_vb s' = vv_vb s \<and> vv_allocs s' = vv_allocs s"
  using assms
  by (auto simp: vm_step_def vm_lf_def vm_cr_def vm_eol_def vm_colon_def vm_semi_def vm_comma_def vm_lparen_def vm_rparen_def vm_lbrack_def
      vm_rbrack_def vm_default_def vm_other_def via_stop_def Let_def)

lemma run_crlf:
  assumes "vv_state s = Mst F_CR" and "m ! q = LF" and "m ! (q + 1) = c" and "q + 1 < length m" and "c \<notin> {SPC, TAB, NUL}"
  shows "\<exists>s'. for_nul (vm_step alloc E m e) m q s = Some (Some Via_endofheader, q + 1, s') \<and>
    vv_saved s' = vv_saved s \<and> vv_vb s' = vv_vb s \<and> vv_allocs s' = vv_allocs s"
proof -
  let ?s = "s\<lparr>vv_state := Mst F_CRLF\<rparr>"
  have "for_nul (vm_step alloc E m e) m q s = for_nul (vm_step alloc E m e) m (q + 1) ?s"
    using assms by (intro for_nul_turn) (simp_all add: vm_step_def vm_lf_def vm_eol_def goto_st_def Let_def)
  moreover obtain s' where s': "vm_step alloc E m e (q + 1) c ?s = Some (Goto Via_endofheader (q + 1) s')"
      "vv_saved s' = vv_saved s" "vv_vb s' = vv_vb s" "vv_allocs s' = vv_allocs s"
    using vm_header_end [of ?s c alloc E m e "q + 1"] assms(5) by auto
  moreover have "for_nul (vm_step alloc E m e) m (q + 1) ?s = Some (Some Via_endofheader, q + 1, s')"
    using s'(1) assms(3-5) by (intro for_nul_goto) auto
  ultimately show ?thesis by auto
qed

text \<open>The state after the host and the port, at the character that ends them.\<close>

definition vhost_port :: "ptr \<Rightarrow> char list \<Rightarrow> char list option \<Rightarrow> via_body \<Rightarrow> via_body" where
  "vhost_port p host port vb = (let q = p + length host in
     case port of None \<Rightarrow> vb\<lparr>vb_host := mk_str p p\<rparr>
     | Some d \<Rightarrow> vb\<lparr>vb_host := mk_str p q, vb_port_str := mk_str (q + 1) (q + 1)\<rparr>)"

lemma host_not_special: "host_char_ok c \<Longrightarrow> c \<notin> {SPC, TAB, LF, CR, CHR '':'', CHR '';'', CHR '','', CHR ''('', CHR '')'', CHR ''['', CHR '']'', NUL}"
  by (auto simp: host_char_ok_def schar_def uchar_def)

lemma run_vhost:
  assumes "host \<noteq> []" and "list_all host_char_ok host" and "vv_state s = Mst F_HOST" and "vb_host (vv_vb s) = str_null"
  shows "run_chars (vm_step alloc E m e) p host s = Some ((upd_vb (\<lambda>b. b\<lparr>vb_host := mk_str p p\<rparr>) s)\<lparr>vv_state := Mst P_HOST\<rparr>)"
proof -
  obtain c cs where h: "host = c # cs" using assms(1) by (cases host) auto
  let ?s = "(upd_vb (\<lambda>b. b\<lparr>vb_host := mk_str p p\<rparr>) s)\<lparr>vv_state := Mst P_HOST\<rparr>"
  have "vm_step alloc E m e p c s = Some (Next p ?s)"
    using assms h host_not_special [of c] by (simp add: vm_step_def vm_default_def upd_vb_def Let_def)
  moreover have "run_chars (vm_step alloc E m e) (Suc p) cs ?s = Some ?s"
    using assms(2) h host_not_special by (intro run_chars_stay) (auto simp: list_all_iff vm_step_def vm_default_def Let_def)
  ultimately show ?thesis using h by simp
qed

lemma run_vport:
  assumes "d \<noteq> []" and "list_all is_digit d" and "vv_state s = Mst F_PORT" and "vb_port_str (vv_vb s) = str_null"
  shows "run_chars (vm_step alloc E m e) p d s = Some ((upd_vb (\<lambda>b. b\<lparr>vb_port_str := mk_str p p\<rparr>) s)\<lparr>vv_state := Mst P_PORT\<rparr>)"
proof -
  have digit: "c \<notin> {SPC, TAB, LF, CR, CHR '':'', CHR '';'', CHR '','', CHR ''('', CHR '')'', CHR ''['', CHR '']''}" if "is_digit c" for c
    using that by (auto simp: is_digit_def schar_def uchar_def)
  obtain c cs where h: "d = c # cs" using assms(1) by (cases d) auto
  let ?s = "(upd_vb (\<lambda>b. b\<lparr>vb_port_str := mk_str p p\<rparr>) s)\<lparr>vv_state := Mst P_PORT\<rparr>"
  have "vm_step alloc E m e p c s = Some (Next p ?s)"
    using assms h digit [of c] by (simp add: vm_step_def vm_default_def upd_vb_def Let_def)
  moreover have "run_chars (vm_step alloc E m e) (Suc p) cs ?s = Some ?s"
    using assms(2) h digit by (intro run_chars_stay) (auto simp: list_all_iff vm_step_def vm_default_def Let_def)
  ultimately show ?thesis using h by simp
qed

lemma run_host_port:
  assumes "host \<noteq> []" and "list_all host_char_ok host" and "\<And>d. port = Some d \<Longrightarrow> d \<noteq> [] \<and> list_all is_digit d"
    and "vv_state s = Mst F_HOST" and "vb_host (vv_vb s) = str_null" and "vb_port_str (vv_vb s) = str_null"
  shows "run_chars (vm_step alloc E m e) p (host @ port_text port) s =
    Some (s\<lparr>vv_vb := vhost_port p host port (vv_vb s), vv_state := (if port = None then Mst P_HOST else Mst P_PORT)\<rparr>)"
proof (cases port)
  case None
  then show ?thesis using run_vhost [OF assms(1,2,4,5)] by (simp add: port_text_def vhost_port_def upd_vb_def Let_def)
next
  case (Some d)
  let ?q = "p + length host"
  let ?s = "s\<lparr>vv_vb := (vv_vb s)\<lparr>vb_host := mk_str p ?q\<rparr>, vv_state := Mst F_PORT\<rparr>"
  have "run_chars (vm_step alloc E m e) (Suc ?q) d ?s = Some ((upd_vb (\<lambda>b. b\<lparr>vb_port_str := mk_str (Suc ?q) (Suc ?q)\<rparr>) ?s)\<lparr>vv_state := Mst P_PORT\<rparr>)"
    using assms(3) [OF Some] assms(6) by (intro run_vport) simp_all
  then show ?thesis
    using Some run_vhost [OF assms(1,2,4,5), of alloc E m e p]
    by (simp add: port_text_def run_chars_append vm_step_def vm_colon_def goto_st_def host_len_def vhost_port_def upd_vb_def Let_def)
qed

text \<open>The start of the body.\<close>

lemma space_of_word: "x \<in> in_proto \<Longrightarrow> reads_word x l \<Longrightarrow> map_of protos l = Some pr \<Longrightarrow> space_proto x = Some pr"
  by (cases "x = OTHER_PROTO")
    (auto simp: reads_word_def list_all_iff dest: map_of_SomeD, auto simp: in_proto_def protos_def space_proto_def split: if_splits)

lemma run_proto:
  assumes "list_all (\<lambda>c. c \<notin> {SPC, TAB, LF, CR, CHR ''/''}) cs" and "vv_state s = Sst x" and "x \<in> in_proto" and "reads_word x l"
  shows "\<exists>y. run_chars (vs_step E) q cs s = Some (s\<lparr>vv_state := Sst y\<rparr>) \<and> y \<in> in_proto \<and> reads_word y (l @ map tolower_c cs)"
  using assms
proof (induction cs arbitrary: q s x l)
  case Nil
  then show ?case by (intro exI [of _ x]) simp
next
  case (Cons c cs)
  let ?c = "tolower_c c"
  let ?y = "case start_next ?c x of Some y \<Rightarrow> y | None \<Rightarrow> OTHER_PROTO"
  have y: "reads_word ?y (l @ [?c])" "?y \<in> in_proto"
    using word_next [OF Cons.prems(4)] word_other [OF Cons.prems(4) _ Cons.prems(3)] start_next_class [of ?c x] state_classes(3) [OF Cons.prems(3)]
    by (auto simp: in_proto_def split: option.splits)
  have "x \<notin> {F_SIP, F_VER, F_PROTO}" using Cons.prems(3) by (auto simp: in_proto_def)
  then have "vs_step E q c s = Some (Next q (s\<lparr>vv_state := Sst ?y\<rparr>))"
    using Cons.prems(1-3) by (auto simp: vs_step_def vs_word_def goto_st_def split: option.splits)
  then show ?case
    using Cons.IH [OF _ _ y(2,1), of "s\<lparr>vv_state := Sst ?y\<rparr>" "Suc q"] Cons.prems(1) by auto
qed

lemma tolower_c_version: "tolower_c CHR ''2'' = CHR ''2''" "tolower_c CHR ''.'' = CHR ''.''" "tolower_c CHR ''0'' = CHR ''0''"
  "tolower_c CHR ''S'' = CHR ''s''" "tolower_c CHR ''I'' = CHR ''i''" "tolower_c CHR ''P'' = CHR ''p''"
  by code_simp+

lemma run_sip:
  "run_chars (vs_step E) p (''SIP/2.0/'') (via_init via_body_zero n) = Some (via_init (via_body_zero\<lparr>vb_name := mk_str p (p + 3),
     vb_version := mk_str (p + 4) (p + 7)\<rparr>) n\<lparr>vv_state := Sst F_PROTO\<rparr>)"
  by (simp add: vs_step_def vs_word_def vs_slash_def goto_st_def upd_vb_def name_len_def version_len_def start_next_def via_init_def via_body_zero_def
      tolower_c_version sopen_def sclose_def in_proto_def mk_str_def pdiff_def str_null_def Let_def)

lemma transport_chars:
  assumes "map_of protos (map tolower_c T) = Some pr"
  shows "T \<noteq> []" and "list_all (\<lambda>c. c \<notin> {SPC, TAB, LF, CR, CHR ''/''}) T" and "\<exists>y. proto_first (tolower_c (hd T)) = Some y \<and> y \<in> in_proto"
proof -
  have mem: "map tolower_c T \<in> fst ` set protos" using map_of_SomeD [OF assms] by force
  then show ne: "T \<noteq> []" by (auto simp: protos_def)
  have fixed: "tolower_c c = c" if "c \<in> {SPC, TAB, LF, CR, CHR ''/''}" for c
    using that by (auto simp: tolower_c_def uchar_def)
  have all: "P (map tolower_c T)" if "list_all P (map fst protos)" for P
    using that mem unfolding list_all_iff by (metis list.set_map)
  have "list_all (list_all (\<lambda>c. c \<notin> {SPC, TAB, LF, CR, CHR ''/''})) (map fst protos)" by (simp add: protos_def)
  from all [OF this] have l: "tolower_c c \<notin> {SPC, TAB, LF, CR, CHR ''/''}" if "c \<in> set T" for c
    using that unfolding list_all_iff list.set_map by (metis imageI)
  show "list_all (\<lambda>c. c \<notin> {SPC, TAB, LF, CR, CHR ''/''}) T"
    unfolding list_all_iff
  proof
    fix c assume "c \<in> set T"
    from l [OF this] fixed [of c] show "c \<notin> {SPC, TAB, LF, CR, CHR ''/''}" by metis
  qed
  have "list_all (\<lambda>w. case proto_first (hd w) of Some y \<Rightarrow> y \<in> in_proto | None \<Rightarrow> False) (map fst protos)"
    by (simp add: protos_def proto_first_def in_proto_def)
  from all [OF this] show "\<exists>y. proto_first (tolower_c (hd T)) = Some y \<and> y \<in> in_proto"
    using ne by (simp add: hd_map split: option.splits)
qed

lemma seg_mid_of:
  assumes "seg m p q = t" and "q = p + length t" and "q \<le> length m" and "take (length a + length x) t = a @ x"
  shows "seg m (p + length a) (p + length a + length x) = x"
proof -
  have "t = a @ x @ drop (length a + length x) t" using assms(4) by (metis append.assoc append_take_drop_id)
  with assms(1-3) have "seg m (p + length a) q = x @ drop (length a + length x) t" by (intro seg_after) simp_all
  then show ?thesis by (rule seg_prefix)
qed

definition via_started :: "ptr \<Rightarrow> char list \<Rightarrow> sip_protos \<Rightarrow> via_body" where
  "via_started p T pr = via_body_zero\<lparr>vb_error := PARSE_ERROR, vb_name := mk_str p (p + 3), vb_version := mk_str (p + 4) (p + 7),
     vb_transport := mk_str (p + 8) (p + 8 + length T), vb_proto := pr\<rparr>"

lemma run_start:
  assumes T: "map_of protos (map tolower_c T) = Some pr" and sg: "seg m p (p + length (''SIP/2.0/'' @ T)) = ''SIP/2.0/'' @ T"
    and r: "r = p + 8 + length T" "r < e" "e \<le> length m" and sp: "m ! r = SPC"
  shows "for_chars (vs_step E) m p e (via_init via_body_zero n) =
    Some (Some Main_via, r, \<lparr>vv_state = Mst F_HOST, vv_saved = Mst F_HOST, vv_vb = via_started p T pr, vv_param_start = None, vv_nest = 0, vv_allocs = n\<rparr>)"
proof -
  let ?b = "via_body_zero\<lparr>vb_name := mk_str p (p + 3), vb_version := mk_str (p + 4) (p + 7)\<rparr>"
  let ?s = "\<lambda>st. \<lparr>vv_state = Sst st, vv_saved = Mst F_HOST, vv_vb = ?b\<lparr>vb_error := PARSE_ERROR, vb_transport := mk_str (p + 8) (p + 8)\<rparr>,
    vv_param_start = None, vv_nest = 0, vv_allocs = n\<rparr>"
  obtain c cs where cs: "T = c # cs" using transport_chars(1) [OF T] by (cases T) auto
  obtain y where y: "proto_first (tolower_c c) = Some y" "y \<in> in_proto" using transport_chars(3) [OF T] cs by auto
  have chars: "c \<notin> {SPC, TAB, LF, CR, CHR ''/''}" "list_all (\<lambda>c. c \<notin> {SPC, TAB, LF, CR, CHR ''/''}) cs"
    using transport_chars(2) [OF T] cs by auto
  obtain z where z: "run_chars (vs_step E) (p + 9) cs (?s y) = Some (?s z)" "z \<in> in_proto" "reads_word z (map tolower_c T)"
    using run_proto [OF chars(2) _ y(2) word_first [OF y(1)], of "?s y" E "p + 9"] cs by auto
  have "vs_step E (p + 8) c (via_init ?b n\<lparr>vv_state := Sst F_PROTO\<rparr>) = Some (Next (p + 8) (?s y))"
    using chars(1) y(1) by (simp add: vs_step_def vs_word_def goto_st_def upd_vb_def via_init_def via_body_zero_def)
  then have "run_chars (vs_step E) p (''SIP/2.0/'' @ T) (via_init via_body_zero n) = Some (?s z)"
    unfolding run_chars_append run_sip using z(1) cs by (simp add: numeral_nat)
  from for_chars_list [OF this sg] r have "for_chars (vs_step E) m p e (via_init via_body_zero n) = for_chars (vs_step E) m r e (?s z)"
    by (simp add: add.assoc numeral_nat)
  moreover have "vs_step E r (m ! r) (?s z) = Some (Goto Main_via r
      \<lparr>vv_state = Mst F_HOST, vv_saved = Mst F_HOST, vv_vb = via_started p T pr, vv_param_start = None, vv_nest = 0, vv_allocs = n\<rparr>)"
    using sp z(2) space_of_word [OF z(2,3) T] r(1)
    by (auto simp: vs_step_def vs_space_def via_stop_def proto_done_def upd_vb_def via_started_def in_proto_def start_blanks_def)
  ultimately show ?thesis using r(2,3) for_chars_goto [of r e m "vs_step E"] by simp
qed

text \<open>The character that ends the host or the port, and everything up to the end of the header.\<close>

definition via_hp :: "ptr \<Rightarrow> char list \<Rightarrow> char list option \<Rightarrow> via_body \<Rightarrow> via_body" where
  "via_hp p host port vb = (let q = p + length host in
     case port of None \<Rightarrow> vb\<lparr>vb_host := mk_str p q\<rparr>
     | Some d \<Rightarrow> vb\<lparr>vb_host := mk_str p q, vb_port_str := mk_str (q + 1) (q + 1 + length d)\<rparr>)"

lemma host_port_end:
  assumes "vv_state s = (if port = None then Mst P_HOST else Mst P_PORT)" and "vv_vb s = vhost_port p host port vb"
    and "q = p + length (host @ port_text port)" and "t \<in> {CHR '';'', CR}"
  shows "\<exists>s'. vm_step alloc E m e q t s = Some (Next q s') \<and> vv_vb s' = via_hp p host port vb \<and> vv_allocs s' = vv_allocs s \<and>
    (if t = CR then vv_state s' = Mst F_CR \<and> vv_saved s' \<in> {Mst L_PORT, Mst L_PARAM} else vv_state s' = Mst F_PARAM \<and> vv_param_start s' = Some (q + 1))"
  using assms
  by (cases port) (auto simp: vm_step_def vm_cr_def vm_eol_def vm_semi_def goto_st_def host_len_def port_len_def upd_vb_def vhost_port_def
      via_hp_def port_text_def Let_def)

lemma run_main:
  assumes sg: "seg m p q = host @ port_text port @ vparams_text ps" and q: "q = p + length (host @ port_text port @ vparams_text ps)" "q < e" "e \<le> length m"
    and host: "host \<noteq> []" "list_all host_char_ok host" and port: "\<And>d. port = Some d \<Longrightarrow> d \<noteq> [] \<and> list_all is_digit d"
    and ps: "list_all vparam_ok ps" and a: "\<And>i. alloc i"
    and eol: "m ! q = CR" "m ! (q + 1) = LF" "m ! (q + 2) = c" "q + 2 < length m" "c \<notin> {SPC, TAB, NUL}"
    and s: "vv_state s = Mst F_HOST" "vb_host (vv_vb s) = str_null" "vb_port_str (vv_vb s) = str_null"
  shows "\<exists>s'. for_nul (vm_step alloc E m e) m p s = Some (Some Via_endofheader, q + 2, s') \<and> vv_saved s' \<in> {Mst L_PORT, Mst L_PARAM} \<and>
    vv_vb s' = add_vpars E (p + length (host @ port_text port) + 1) ps (via_hp p host port (vv_vb s)) \<and> vv_allocs s' = vv_allocs s + length ps"
proof -
  let ?h = "host @ port_text port"
  let ?r = "p + length ?h"
  let ?step = "vm_step alloc E m e"
  let ?s = "s\<lparr>vv_vb := vhost_port p host port (vv_vb s), vv_state := (if port = None then Mst P_HOST else Mst P_PORT)\<rparr>"
  have sh: "seg m p ?r = ?h" and sr: "seg m ?r q = vparams_text ps"
    using seg_prefix [of m p q ?h] seg_after [of m p q ?h] sg q by simp_all
  have "NUL \<notin> set host" using host(2) host_not_special by (fastforce simp: list_all_iff)
  moreover have "NUL \<notin> set (port_text port)"
    using port by (cases port) (auto simp: port_text_def list_all_iff is_digit_def schar_def uchar_def)
  ultimately have run: "for_nul ?step m p s = for_nul ?step m ?r ?s"
    using q sh by (intro for_nul_list [OF run_host_port [OF host port s]]) auto
  have after: "\<exists>s1. for_nul ?step m p s = for_nul ?step m (?r + 1) s1 \<and> vv_vb s1 = via_hp p host port (vv_vb s) \<and> vv_allocs s1 = vv_allocs s \<and>
      (if t = CR then vv_state s1 = Mst F_CR \<and> vv_saved s1 \<in> {Mst L_PORT, Mst L_PARAM} else vv_state s1 = Mst F_PARAM \<and> vv_param_start s1 = Some (?r + 1))"
    if t: "m ! ?r = t" "t \<in> {CHR '';'', CR}" for t
  proof -
    obtain s1 where s1: "?step ?r t ?s = Some (Next ?r s1)" "vv_vb s1 = via_hp p host port (vv_vb s)" "vv_allocs s1 = vv_allocs s"
      "if t = CR then vv_state s1 = Mst F_CR \<and> vv_saved s1 \<in> {Mst L_PORT, Mst L_PARAM} else vv_state s1 = Mst F_PARAM \<and> vv_param_start s1 = Some (?r + 1)"
      using host_port_end [of ?s port p host "vv_vb s" ?r t alloc E m e] t(2) by auto
    have "for_nul ?step m ?r ?s = for_nul ?step m (?r + 1) s1"
      using s1(1) t q by (intro for_nul_turn) auto
    with run s1(2-4) show ?thesis by auto
  qed
  obtain s2 where s2: "for_nul ?step m p s = for_nul ?step m (q + 1) s2" "vv_state s2 = Mst F_CR" "vv_saved s2 \<in> {Mst L_PORT, Mst L_PARAM}"
      "vv_vb s2 = add_vpars E (?r + 1) ps (via_hp p host port (vv_vb s))" "vv_allocs s2 = vv_allocs s + length ps"
  proof (cases ps)
    case Nil
    then have "?r = q" using q(1) by (simp add: vparams_text_def)
    with after [of CR] eol(1) Nil that show ?thesis by auto
  next
    case (Cons x xs)
    have "m ! ?r = CHR '';''" and tl: "seg m (?r + 1) q = vparam_text x @ vparams_text xs"
      using sr Cons seg_Cons [of ?r q m] q by (auto simp: vparams_text_Cons)
    from after [OF this(1)] obtain s1 where s1: "for_nul ?step m p s = for_nul ?step m (?r + 1) s1" "vv_vb s1 = via_hp p host port (vv_vb s)"
        "vv_allocs s1 = vv_allocs s" "vv_state s1 = Mst F_PARAM" "vv_param_start s1 = Some (?r + 1)"
      by auto
    have "q = ?r + 1 + length (vparam_text x @ vparams_text xs)" using q(1) Cons by (simp add: vparams_text_Cons)
    from run_vparams [where alloc = alloc and E = E, OF tl this q(2,3) eol(1) _ s1(4,5) a] ps Cons s1(1-3) that show ?thesis by auto
  qed
  have "q + 1 + 1 = q + 2" by simp
  from run_crlf [OF s2(2) eol(2), of c alloc E e] eol(3-5) s2 this show ?thesis by auto
qed

section \<open>The texts of the result\<close>

fun via_pars :: "ptr \<Rightarrow> (char list \<times> char list) list \<Rightarrow> via_param list" where
  "via_pars p [] = []"
| "via_pars p (x # xs) = via_par p x # via_pars (p + length (vparam_text x) + 1) xs"

lemma shortcut_other [simp]:
  "vb_name (shortcut p b) = vb_name b" "vb_version (shortcut p b) = vb_version b" "vb_transport (shortcut p b) = vb_transport b"
  "vb_proto (shortcut p b) = vb_proto b" "vb_host (shortcut p b) = vb_host b" "vb_port_str (shortcut p b) = vb_port_str b"
  "vb_port (shortcut p b) = vb_port b" "vb_params (shortcut p b) = vb_params b" "vb_param_lst (shortcut p b) = vb_param_lst b"
  by (simp_all add: shortcut_def split: via_ptype.split)

lemma shortcut_branch: "vb_branch (shortcut p b) = (if vp_type p = FIN_BRANCH then Some p else vb_branch b)"
  by (simp add: shortcut_def split: via_ptype.split)

definition same_head :: "via_body \<Rightarrow> via_body \<Rightarrow> bool" where
  "same_head b b' \<longleftrightarrow> vb_name b' = vb_name b \<and> vb_version b' = vb_version b \<and> vb_transport b' = vb_transport b \<and> vb_proto b' = vb_proto b \<and>
     vb_host b' = vb_host b \<and> vb_port_str b' = vb_port_str b \<and> vb_port b' = vb_port b"

lemma add_vpars_head: "same_head vb (add_vpars E p xs vb)"
  by (induction xs arbitrary: p vb) (simp_all add: same_head_def add_vpar_def link_via_param_def with_params_def Let_def)

lemma add_vpars_lst: "vb_param_lst (add_vpars E p xs vb) = vb_param_lst vb @ via_pars p xs"
  by (induction xs arbitrary: p vb) (simp_all add: add_vpar_def link_via_param_def with_params_def Let_def)

lemma add_vpars_branch:
  "vb_branch vb = find (\<lambda>x. vp_type x = FIN_BRANCH) (rev (vb_param_lst vb)) \<Longrightarrow>
   vb_branch (add_vpars E p xs vb) = find (\<lambda>x. vp_type x = FIN_BRANCH) (rev (vb_param_lst (add_vpars E p xs vb)))"
  by (induction xs arbitrary: p vb) (simp_all add: add_vpar_def link_via_param_def with_params_def shortcut_branch Let_def)

lemma add_vpars_params:
  "vb_params vb = mk_str b q \<Longrightarrow> xs \<noteq> [] \<Longrightarrow> vb_params (add_vpars E p xs vb) = mk_str b (p + length (vparams_text xs) - 1)"
proof (induction xs arbitrary: p q vb)
  case (Cons x xs)
  let ?v = "add_vpar E p x vb"
  have v: "vb_params ?v = mk_str b (p + length (vparam_text x))"
    using Cons.prems(1) by (simp add: add_vpar_def link_via_param_def with_params_def mk_str_def Let_def sclose_def pdiff_def)
  show ?case
  proof (cases xs)
    case Nil
    with v show ?thesis by (simp add: vparams_text_def)
  next
    case (Cons y ys)
    then have "xs \<noteq> []" by simp
    from Cons.IH [OF v this] show ?thesis by (simp add: vparams_text_Cons algebra_simps)
  qed
qed simp

lemma add_vpars_params_first:
  assumes "vb_params vb = str_null" and "xs \<noteq> []"
  shows "vb_params (add_vpars E p xs vb) = mk_str p (p + length (vparams_text xs) - 1)"
proof (cases xs)
  case (Cons x ys)
  let ?v = "vb\<lparr>vb_params := mk_str p p\<rparr>"
  have "add_vpar E p x ?v = add_vpar E p x vb"
    using assms(1) by (simp add: add_vpar_def with_params_def str_null_def mk_str_def sclose_def pdiff_def Let_def)
  then show ?thesis using add_vpars_params [of ?v p p xs E p] Cons by simp
qed (use assms(2) in simp)

lemma via_par_text:
  assumes "seg m p q = vparam_text x" and "q = p + length (vparam_text x)" and "q \<le> length m"
  shows "(str_text m (vp_name (via_par p x)), str_text m (vp_value (via_par p x))) = x" and "vp_type (via_par p x) = via_name_type (map tolower_c (fst x))"
proof -
  obtain n v where x: "x = (n, v)" by (cases x)
  have "seg m p (p + length n) = n" using seg_prefix [of m p q n] assms(1) x by simp
  moreover have "seg m (p + length (n @ ''='')) q = v" using assms x by (intro seg_after) simp_all
  ultimately show "(str_text m (vp_name (via_par p x)), str_text m (vp_value (via_par p x))) = x" "vp_type (via_par p x) = via_name_type (map tolower_c (fst x))"
    using x assms(2) by (simp_all add: via_par_def Let_def)
qed

definition vparam_texts :: "mem \<Rightarrow> via_param list \<Rightarrow> (char list \<times> char list) list" where
  "vparam_texts m = map (\<lambda>x. (str_text m (vp_name x), str_text m (vp_value x)))"

lemma via_pars_text:
  assumes "seg m p q = vparams_text xs" and "q = p + length (vparams_text xs)" and "q \<le> length m"
  shows "vparam_texts m (via_pars (p + 1) xs) = xs \<and> map vp_type (via_pars (p + 1) xs) = map (\<lambda>x. via_name_type (map tolower_c (fst x))) xs"
  using assms
proof (induction xs arbitrary: p)
  case (Cons x xs)
  let ?r = "p + 1 + length (vparam_text x)"
  have sg: "seg m (p + 1) q = vparam_text x @ vparams_text xs"
    using Cons.prems seg_Cons [of p q m] by (simp add: vparams_text_Cons)
  have "seg m (p + 1) ?r = vparam_text x" using seg_prefix [OF sg] .
  moreover have "seg m ?r q = vparams_text xs"
    using sg Cons.prems by (intro seg_after) (simp_all add: vparams_text_Cons)
  ultimately show ?case
    using Cons.IH [of ?r] via_par_text [of m "p + 1" ?r x] Cons.prems by (simp add: vparams_text_Cons vparam_texts_def)
qed (simp add: vparam_texts_def)

text \<open>What the body of a printed header means.\<close>

definition via_denotes :: "mem \<Rightarrow> via_body \<Rightarrow> char list \<Rightarrow> sip_protos \<Rightarrow> char list \<Rightarrow> char list option \<Rightarrow> (char list \<times> char list) list \<Rightarrow> bool" where
  "via_denotes m vb T pr host port ps \<longleftrightarrow>
     vb_error vb = PARSE_OK \<and> str_text m (vb_name vb) = ''SIP'' \<and> str_text m (vb_version vb) = ''2.0'' \<and>
     str_text m (vb_transport vb) = T \<and> vb_proto vb = pr \<and> str_text m (vb_host vb) = host \<and>
     str_text m (vb_port_str vb) = (case port of None \<Rightarrow> [] | Some d \<Rightarrow> d) \<and>
     vb_port vb = (case port of None \<Rightarrow> 0 | Some d \<Rightarrow> of_nat (dec_val d)) \<and>
     str_text m (vb_params vb) = drop 1 (vparams_text ps) \<and>
     vparam_texts m (vb_param_lst vb) = ps \<and>
     map vp_type (vb_param_lst vb) = map (\<lambda>x. via_name_type (map tolower_c (fst x))) ps \<and>
     vb_branch vb = find (\<lambda>x. vp_type x = FIN_BRANCH) (rev (vb_param_lst vb))"

definition via_text :: "char list \<Rightarrow> char list \<Rightarrow> char list option \<Rightarrow> (char list \<times> char list) list \<Rightarrow> char list" where
  "via_text T host port ps = ''SIP/2.0/'' @ T @ '' '' @ host @ port_text port @ vparams_text ps"

lemma via_close_port:
  assumes "p + length d \<le> length m" and "seg m p (p + length d) = d" and "list_all is_digit d" and "length d \<le> 5"
  shows "str2s m p (length d) = Some (of_nat (dec_val d), 0)"
  using str2s_loop_eq [of "p + length d" m p 0 0] assms by (simp add: str2s_def list_all_iff Let_def)

lemma via_denotes_fields:
  assumes sg: "seg m p q = via_text T host port ps" and q: "q = p + length (via_text T host port ps)" "q \<le> length m"
    and port: "\<And>d. port = Some d \<Longrightarrow> list_all is_digit d \<and> length d \<le> 5" and h: "h = p + 9 + length T" and st: "vv_state s \<in> via_end_states"
    and vb: "vv_vb s = add_vpars E (h + length (host @ port_text port) + 1) ps (via_hp h host port (via_started p T pr))"
  shows "\<exists>vb. via_endofpacket m b r [] s = Some (r, [vb], vv_allocs s) \<and> via_denotes m vb T pr host port ps"
proof -
  let ?w = "via_hp h host port (via_started p T pr)"
  let ?k = "h + length (host @ port_text port)"
  let ?t = "vv_vb (upd_vb (\<lambda>b'. b'\<lparr>vb_error := PARSE_OK, vb_bsize := int r - int b\<rparr>) s)"
  let ?vb = "?t\<lparr>vb_port := (case port of None \<Rightarrow> 0 | Some d \<Rightarrow> of_nat (dec_val d))\<rparr>"
  have s0: "seg m p (p + 3) = ''SIP''" "seg m (p + 4) (p + 7) = ''2.0''" "seg m (p + 8) (p + 8 + length T) = T"
    using seg_mid_of [OF sg q, of "[]" "''SIP''"] seg_mid_of [OF sg q, of "''SIP/''" "''2.0''"] seg_mid_of [OF sg q, of "''SIP/2.0/''" T]
    by (simp_all add: via_text_def add.assoc numeral_nat)
  have s1: "seg m h (h + length host) = host" "seg m ?k q = vparams_text ps"
    using seg_mid_of [OF sg q, of "''SIP/2.0/'' @ T @ '' ''" host] seg_mid_of [OF sg q, of "''SIP/2.0/'' @ T @ '' '' @ host @ port_text port" "vparams_text ps"]
      h q(1) by (simp_all add: via_text_def add.assoc numeral_nat)
  have s2: "seg m (h + length host + 1) (h + length host + 1 + length d) = d" if "port = Some d" for d
    using seg_mid_of [OF sg q, of "''SIP/2.0/'' @ T @ '' '' @ host @ '':''" d] that h by (simp add: via_text_def port_text_def add.assoc numeral_nat)
  have kq: "q = ?k + length (vparams_text ps)" using q(1) h by (simp add: via_text_def)
  have head: "same_head ?w (vv_vb s)" using add_vpars_head vb by simp
  have lst: "vb_param_lst (vv_vb s) = via_pars (?k + 1) ps"
    unfolding vb add_vpars_lst by (cases port) (simp_all add: via_hp_def via_started_def via_body_zero_def Let_def)
  have br: "vb_branch (vv_vb s) = find (\<lambda>x. vp_type x = FIN_BRANCH) (rev (vb_param_lst (vv_vb s)))"
    unfolding vb by (intro add_vpars_branch) (cases port; simp add: via_hp_def via_started_def via_body_zero_def Let_def)
  have wp: "vb_params ?w = str_null" by (cases port) (simp_all add: via_hp_def via_started_def via_body_zero_def Let_def)
  have par: "str_text m (vb_params (vv_vb s)) = drop 1 (vparams_text ps)"
  proof (cases ps)
    case Nil
    then show ?thesis using vb wp by (simp add: vparams_text_def)
  next
    case (Cons x xs)
    then have "vb_params (vv_vb s) = mk_str (?k + 1) q"
      using add_vpars_params_first [OF wp, of ps E "?k + 1"] vb kq by simp
    moreover have "seg m (?k + 1) q = drop 1 (vparams_text ps)"
      using s1(2) seg_Cons [of ?k q m] kq q(2) Cons by (simp add: vparams_text_Cons)
    ultimately show ?thesis using kq Cons by (simp add: vparams_text_Cons)
  qed
  have "via_denotes m ?vb T pr host port ps"
    using s0 s1(1) s2 head lst br par via_pars_text [OF s1(2) kq q(2)]
    by (cases port) (simp_all add: via_denotes_def same_head_def via_hp_def via_started_def via_body_zero_def Let_def)
  moreover have "via_endofpacket m b r [] s = Some (r, [?vb], vv_allocs s)"
  proof (cases port)
    case None
    then have "vb_port_str (vv_vb s) = str_null" "vb_port (vv_vb s) = 0"
      using head by (simp_all add: same_head_def via_hp_def via_started_def via_body_zero_def Let_def)
    then show ?thesis using st None by (simp add: via_endofpacket_def via_close_def str_null_def)
  next
    case (Some d)
    then have "vb_port_str (vv_vb s) = mk_str (h + length host + 1) (h + length host + 1 + length d)"
      using head by (simp add: same_head_def via_hp_def Let_def)
    moreover have "h + length host + 1 + length d \<le> length m" using q h Some by (simp add: via_text_def port_text_def)
    ultimately show ?thesis
      using st Some via_close_port [of "h + length host + 1" d m] s2 [OF Some] port [OF Some]
      by (simp add: via_endofpacket_def via_close_def mk_str_def upd_vb_def)
  qed
  ultimately show ?thesis by blast
qed

text \<open>
  C2: \<^verbatim>\<open>parse_via\<close> reads back what a Via header prints. A body with protocol SIP, version 2.0, one of the six known transports in
  any mixture of cases, a host, an optional port of one to five digits and any number of parameters with values, followed by
  the line end and a character that does not continue the line, is accepted wherever it lies in the buffer: the function stops after
  the line end, allocates one parameter per printed one, and the strings, the protocol, the port number modulo 65536, the
  types, names and values of the parameters and the branch are those that were printed.
\<close>

theorem parse_via_roundtrip:
  assumes T: "map_of protos (map tolower_c T) = Some pr" and host: "host \<noteq> []" "list_all host_char_ok host"
    and port: "\<And>d. port = Some d \<Longrightarrow> d \<noteq> [] \<and> list_all is_digit d \<and> length d \<le> 5"
    and ps: "list_all vparam_ok ps" and a: "\<And>i. alloc i" and c: "c \<notin> {SPC, TAB, NUL}"
    and e: "length (pre @ via_text T host port ps) < e" "e \<le> length (pre @ via_text T host port ps @ [CR, LF, c] @ post)"
  shows "\<exists>vb. parse_via alloc E (pre @ via_text T host port ps @ [CR, LF, c] @ post) (length pre) e via_body_zero n =
      Some (length (pre @ via_text T host port ps) + 2, [vb], n + length ps) \<and>
    via_denotes (pre @ via_text T host port ps @ [CR, LF, c] @ post) vb T pr host port ps"
proof -
  let ?t = "via_text T host port ps"
  let ?m = "pre @ ?t @ [CR, LF, c] @ post"
  let ?p = "length pre"
  let ?q = "?p + length ?t"
  let ?r = "?p + 8 + length T"
  let ?s = "\<lparr>vv_state = Mst F_HOST, vv_saved = Mst F_HOST, vv_vb = via_started ?p T pr, vv_param_start = None, vv_nest = 0, vv_allocs = n\<rparr>"
  have sg: "seg ?m ?p ?q = ?t" by (rule seg_mid)
  have qm: "?q \<le> length ?m" "?q < e" "e \<le> length ?m" using e by simp_all
  have s1: "seg ?m ?p (?p + length (''SIP/2.0/'' @ T)) = ''SIP/2.0/'' @ T"
    using seg_mid_of [OF sg refl qm(1), of "[]" "''SIP/2.0/'' @ T"] by (simp add: via_text_def)
  have s2: "seg ?m (?r + 1) ?q = host @ port_text port @ vparams_text ps"
    using seg_after [of ?m ?p ?q "''SIP/2.0/'' @ T @ '' ''" "host @ port_text port @ vparams_text ps"] sg qm(1)
    by (simp add: via_text_def add.assoc numeral_nat)
  have qr: "?q = ?r + 1 + length (host @ port_text port @ vparams_text ps)" by (simp add: via_text_def)
  have "seg ?m ?r ?q = '' '' @ host @ port_text port @ vparams_text ps"
    using seg_after [of ?m ?p ?q "''SIP/2.0/'' @ T" "'' '' @ host @ port_text port @ vparams_text ps"] sg qm(1)
    by (simp add: via_text_def add.assoc numeral_nat)
  then have sp: "?m ! ?r = SPC" using seg_Cons [of ?r ?q ?m] qr qm(1) by simp
  have start: "for_chars (vs_step E) ?m ?p e (via_init via_body_zero n) = Some (Some Main_via, ?r, ?s)"
    using run_start [OF T s1 refl _ qm(3) sp] qr qm(2) by simp
  have eol: "?m ! ?q = CR" "?m ! (?q + 1) = LF" "?m ! (?q + 2) = c" "?q + 2 < length ?m"
    by (simp_all add: nth_append)
  have head: "vb_host (via_started ?p T pr) = str_null" "vb_port_str (via_started ?p T pr) = str_null"
    by (simp_all add: via_started_def via_body_zero_def)
  have port': "d \<noteq> [] \<and> list_all is_digit d" "list_all is_digit d \<and> length d \<le> 5" if "port = Some d" for d using port [OF that] by simp_all
  obtain s' where s': "for_nul (vm_step alloc E ?m e) ?m (?r + 1) ?s = Some (Some Via_endofheader, ?q + 2, s')" "vv_saved s' \<in> {Mst L_PORT, Mst L_PARAM}"
      "vv_vb s' = add_vpars E (?r + 1 + length (host @ port_text port) + 1) ps (via_hp (?r + 1) host port (via_started ?p T pr))" "vv_allocs s' = n + length ps"
    using run_main [where alloc = alloc and s = ?s and E = E, OF s2 qr qm(2,3) host port'(1) ps a eol c] head by auto
  obtain vb where vb: "via_endofpacket ?m ?p (?q + 2) [] (s'\<lparr>vv_state := vv_saved s'\<rparr>) = Some (?q + 2, [vb], n + length ps)"
      "via_denotes ?m vb T pr host port ps"
    using via_denotes_fields [OF sg refl qm(1) port'(2), of "?r + 1" "s'\<lparr>vv_state := vv_saved s'\<rparr>" E pr ?p "?q + 2"] s'(2-4)
    by (auto simp: via_end_states_def)
  have "via_one alloc E ?m e ?p [] via_body_zero n = Some (Inl (?q + 2, [vb], n + length ps))"
    using start s'(1) vb(1) by (simp add: via_one_def main_via_def)
  then show ?thesis using vb(2) by (simp add: parse_via_def parse_again.simps)
qed

theorem parse_via_roundtrip_witness:
  "\<exists>vb. parse_via (\<lambda>_. True) \<lparr>ue_empty = 100, ue_addr = int\<rparr>
      (''Via: '' @ via_text ''Udp'' ''pc33.example.org'' (Some ''5060'') [(''branch'', ''z9hG4bK776''), (''x'', ''1'')] @ [CR, LF, CHR ''T''] @ ''o:'') (length ''Via: '')
      62 via_body_zero 3 =
      Some (length (''Via: '' @ via_text ''Udp'' ''pc33.example.org'' (Some ''5060'') [(''branch'', ''z9hG4bK776''), (''x'', ''1'')]) + 2, [vb],
        3 + length [(''branch'', ''z9hG4bK776''), (''x'', ''1'')]) \<and>
    via_denotes (''Via: '' @ via_text ''Udp'' ''pc33.example.org'' (Some ''5060'') [(''branch'', ''z9hG4bK776''), (''x'', ''1'')] @ [CR, LF, CHR ''T''] @ ''o:'')
      vb ''Udp'' PROTO_UDP ''pc33.example.org'' (Some ''5060'') [(''branch'', ''z9hG4bK776''), (''x'', ''1'')]"
proof (rule parse_via_roundtrip)
  show "d \<noteq> [] \<and> list_all is_digit d \<and> length d \<le> 5" if "Some ''5060'' = Some d" for d
  proof -
    have "list_all is_digit ''5060''" by code_simp
    with that show ?thesis by auto
  qed
qed (simp_all, code_simp+)

text \<open>
  inputs on which the machine surprises. A bracket that closes a host that was never opened is accepted, with a null host of
  garbage length; a comma inside a quoted value ends the header, with success; the transport \<^verbatim>\<open>DTLS\<close> is an
  error although \<^verbatim>\<open>XTLS\<close> is accepted as another protocol; \<^verbatim>\<open>WSS\<close> before a line feed is taken for \<^verbatim>\<open>WS\<close>, and \<^verbatim>\<open>SCTP\<close> before a line end
  is an error; a message that is cut after the port has port 0; a port above 65535 is accepted modulo 65536.
\<close>

definition via_of :: "char list \<Rightarrow> (ptr \<times> int \<times> via_body) option" where
  "via_of t = map_option (\<lambda>(p, bs, n). (p, vb_error (hd bs), hd bs))
     (parse_via (\<lambda>_. True) \<lparr>ue_empty = 100, ue_addr = (\<lambda>p. 1000 + int p)\<rparr> (t @ [NUL]) 0 (length t) via_body_zero 0)"

theorem parse_via_quirks:
  "map_option (\<lambda>(p, err, b). (err, vb_host b)) (via_of (''SIP/2.0/UDP :1]'' @ [CR, LF, CHR ''X''])) = Some (PARSE_OK, \<lparr>str_s = None, str_len = 1015\<rparr>) \<and>
   map_option (\<lambda>(p, err, b). (p, err, str_len (vb_params b))) (via_of (''SIP/2.0/UDP h;x='' @ [DQUOTE] @ ''a,b'' @ [DQUOTE, CR, LF, CHR ''X''])) = Some (18, PARSE_OK, 0) \<and>
   map_option (\<lambda>(p, err, b). err) (via_of (''SIP/2.0/DTLS h'' @ [CR, LF, CHR ''X''])) = Some PARSE_ERROR \<and>
   map_option (\<lambda>(p, err, b). (err, vb_proto b)) (via_of (''SIP/2.0/XTLS h'' @ [CR, LF, CHR ''X''])) = Some (PARSE_OK, PROTO_OTHER) \<and>
   map_option (\<lambda>(p, err, b). (err, vb_proto b)) (via_of (''SIP/2.0/WSS'' @ [LF] @ '' h'' @ [CR, LF, CHR ''X''])) = Some (PARSE_OK, PROTO_WS) \<and>
   map_option (\<lambda>(p, err, b). err) (via_of (''SIP/2.0/SCTP'' @ [CR, LF] @ '' h'' @ [CR, LF, CHR ''X''])) = Some PARSE_ERROR \<and>
   map_option (\<lambda>(p, err, b). (err, vb_port b)) (via_of ''SIP/2.0/UDP h:50'') = Some (PARSE_OK, 0) \<and>
   map_option (\<lambda>(p, err, b). (err, vb_port b)) (via_of (''SIP/2.0/UDP h:70000'' @ [CR, LF, CHR ''X''])) = Some (PARSE_OK, 4464)"
  by (intro conjI; code_simp)

end
