(* ===== verification/Msg_Parser.thy ===== *)
theory Msg_Parser
  imports First_Line Hname Cseq To_Hdr Uri_Safe Via_Safe
begin

text \<open>
  The message parser \<^verbatim>\<open>msg_parser.c\<close>, which joins the header parsers: \<^verbatim>\<open>parse_content_length\<close> (of \<^verbatim>\<open>parse_content.c\<close>), \<^verbatim>\<open>get_hdr_field\<close>,
  \<^verbatim>\<open>parse_headers\<close> and \<^verbatim>\<open>parse_msg\<close>, and \<^verbatim>\<open>parse_sip_msg_uri\<close> (of \<^verbatim>\<open>parse_uri.c\<close>). The lists of headers, \<^verbatim>\<open>next\<close> and \<^verbatim>\<open>sibling\<close>, are lists; the
  pointers of a message to its headers are the function \<open>sm_hook\<close> from the type of a header to the list that the pointer heads. \<open>alloc p i\<close> tells
  whether the \<open>i\<close>-th allocation made for the header at \<open>p\<close> succeeds. Statistics, the counter \<^verbatim>\<open>via_cnt\<close> and the error texts are left out.
\<close>

section \<open>The length of the content\<close>

function content_skip :: "bool \<Rightarrow> mem \<Rightarrow> ptr \<Rightarrow> ptr \<Rightarrow> ptr option" where
  "content_skip cr m p e =
     (if p < e then do {
        c \<leftarrow> rd m p;
        if c = SPC \<or> c = TAB then content_skip cr m (p + 1) e
        else if cr \<and> c = CR then do { d \<leftarrow> rd m (p + 1); if d = LF then content_skip cr m (p + 1) e else Some p }
        else if c = LF then do { d \<leftarrow> rd m (p + 1); if d = SPC \<or> d = TAB then content_skip cr m (p + 1) e else Some p }
        else Some p }
      else Some p)"
  by pat_completeness auto
termination
  by (relation "measure (\<lambda>(cr, m, p, e). e - p)") auto

text \<open>The number is a signed \<^verbatim>\<open>int\<close>, which wraps: its overflow is undefined in C, and the code tests for a negative sum after it; \<open>None\<close> in the inner result is the overflow that the code notices.\<close>

function content_digits :: "mem \<Rightarrow> ptr \<Rightarrow> ptr \<Rightarrow> 32 word \<Rightarrow> nat \<Rightarrow> (ptr \<times> 32 word \<times> nat) option option" where
  "content_digits m p e number sz =
     (if p < e then do {
        c \<leftarrow> rd m p;
        if is_digit c then
          (let n = number * 10 + (word_of_int (uchar c) - 48)
           in if sint n < 0 then Some None else content_digits m (p + 1) e n (sz + 1))
        else Some (Some (p, number, sz)) }
      else Some (Some (p, number, sz)))"
  by pat_completeness auto
termination
  by (relation "measure (\<lambda>(m, p, e, number, sz). e - p)") auto

declare content_skip.simps [simp del] content_digits.simps [simp del]

definition parse_content_length :: "mem \<Rightarrow> ptr \<Rightarrow> ptr \<Rightarrow> (ptr \<times> int) option option" where
  "parse_content_length m buffer e = do {
     p \<leftarrow> content_skip True m buffer e;
     if p = e then Some None
     else do {
       r \<leftarrow> content_digits m p e 0 0;
       case r of
         None \<Rightarrow> Some None
       | Some (p1, number, sz) \<Rightarrow>
           (if p1 = e \<or> sz = 0 then Some None
            else do {
              p2 \<leftarrow> content_skip False m p1 e;
              if p2 = e then Some None
              else do {
                c \<leftarrow> rd m p2;
                if c = LF then Some (Some (p2 + 1, sint number))
                else if c \<noteq> CR then Some None
                else do { d \<leftarrow> rd m (p2 + 1); if d = LF then Some (Some (p2 + 2, sint number)) else Some None } } }) } }"

section \<open>One header\<close>

datatype hdr_parsed = Parsed_none | Parsed_via "via_body list" | Parsed_cseq cseq_body | Parsed_to to_body | Parsed_length int

record hdr_field = hdr_name +
  h_body :: str
  h_len :: int
  h_parsed :: hdr_parsed

definition hdr_field_zero :: hdr_field where
  "hdr_field_zero = \<lparr>h_type = HDR_ERROR_T, h_name = str_null, h_body = str_null, h_len = 0, h_parsed = Parsed_none\<rparr>"

text \<open>The search for the end of a header whose body is not parsed: \<open>None\<close> in the inner result when there is no line feed.\<close>

function skip_body :: "mem \<Rightarrow> ptr \<Rightarrow> ptr \<Rightarrow> ptr option option" where
  "skip_body m tmp e = do {
     r \<leftarrow> q_memchr m tmp LF e;
     case r of
       None \<Rightarrow> Some None
     | Some q \<Rightarrow>
         (if tmp \<le> q \<and> q + 1 < e then do { c \<leftarrow> rd m (q + 1); if c = SPC \<or> c = TAB then skip_body m (q + 1) e else Some (Some (q + 1)) }
          else Some (Some (q + 1))) }"
  by pat_completeness auto
termination
  by (relation "measure (\<lambda>(m, p, e). e - p)") auto

declare skip_body.simps [simp del]

text \<open>The macro \<^verbatim>\<open>trim_r\<close>.\<close>

function trim_r :: "mem \<Rightarrow> ptr \<Rightarrow> nat \<Rightarrow> nat option" where
  "trim_r m s len =
     (if len = 0 then Some 0
      else do { c \<leftarrow> rd m (s + len - 1); if c = NUL \<or> c = CR \<or> c = LF then trim_r m s (len - 1) else Some len })"
  by pat_completeness auto
termination
  by (relation "measure (\<lambda>(m, s, len). len)") auto

declare trim_r.simps [simp del]

definition skipped_types :: "int set" where
  "skipped_types = {0..44} - {HDR_VIA_T, HDR_VIA2_T, HDR_CSEQ_T, HDR_TO_T, HDR_CONTENTLENGTH_T}"

text \<open>A header that failed is freed by the caller, so its length does not matter; the pointer that is returned may be null.\<close>

definition hdr_error :: "ptr option \<Rightarrow> hdr_field \<Rightarrow> (ptr option \<times> hdr_field) option" where
  "hdr_error q hdr = Some (q, hdr\<lparr>h_type := HDR_ERROR_T\<rparr>)"

definition hdr_finish :: "mem \<Rightarrow> ptr \<Rightarrow> ptr \<Rightarrow> hdr_field \<Rightarrow> (ptr option \<times> hdr_field) option" where
  "hdr_finish m b tmp hdr = do {
     n \<leftarrow> trim_r m b (tmp - b);
     s \<leftarrow> str_s (h_name hdr);
     Some (Some tmp, hdr\<lparr>h_body := \<lparr>str_s = Some b, str_len = int n\<rparr>, h_len := int tmp - int s\<rparr>) }"

definition hdr_value :: "(nat \<Rightarrow> bool) \<Rightarrow> uri_env \<Rightarrow> mem \<Rightarrow> ptr \<Rightarrow> ptr \<Rightarrow> hdr_field \<Rightarrow> (ptr option \<times> hdr_field) option" where
  "hdr_value al E m tmp e hdr =
     (if h_type hdr = HDR_VIA_T then
        (if \<not> al 1 then hdr_error (Some tmp) hdr
         else do {
           (t, vbs, k) \<leftarrow> parse_via (\<lambda>i. al (i + 2)) E m tmp e via_body_zero 0;
           if vb_error (hd vbs) = PARSE_ERROR then hdr_error (Some t) hdr
           else hdr_finish m tmp t (hdr\<lparr>h_parsed := Parsed_via ((hd vbs)\<lparr>vb_hdr := h_name hdr\<rparr> # tl vbs)\<rparr>) })
      else if h_type hdr = HDR_CSEQ_T then
        (if \<not> al 1 then hdr_error (Some tmp) hdr
         else do {
           (t, cb) \<leftarrow> parse_cseq m tmp e cseq_body_zero;
           if cs_error cb = PARSE_ERROR then hdr_error (Some t) hdr
           else hdr_finish m tmp t (hdr\<lparr>h_parsed := Parsed_cseq cb\<rparr>) })
      else if h_type hdr = HDR_TO_T then
        (if \<not> al 1 then hdr_error (Some tmp) hdr
         else do {
           (t, xs) \<leftarrow> parse_to (\<lambda>i. al (i + 2)) m tmp e;
           if tb_error (hd xs) = PARSE_ERROR then hdr_error (Some t) hdr
           else hdr_finish m tmp t (hdr\<lparr>h_parsed := Parsed_to (hd xs)\<rparr>) })
      else if h_type hdr = HDR_CONTENTLENGTH_T then
        do {
          r \<leftarrow> parse_content_length m tmp e;
          case r of None \<Rightarrow> hdr_error None hdr | Some (t, n) \<Rightarrow> hdr_finish m tmp t (hdr\<lparr>h_parsed := Parsed_length n\<rparr>) }
      else if h_type hdr \<in> skipped_types then
        do {
          r \<leftarrow> skip_body m tmp e;
          case r of None \<Rightarrow> hdr_error (Some e) hdr | Some t \<Rightarrow> hdr_finish m tmp t hdr }
      else hdr_error (Some tmp) hdr)"

definition get_hdr_field :: "(nat \<Rightarrow> bool) \<Rightarrow> uri_env \<Rightarrow> mem \<Rightarrow> ptr \<Rightarrow> ptr \<Rightarrow> hdr_field \<Rightarrow> (ptr option \<times> hdr_field) option" where
  "get_hdr_field al E m buf e hdr = do {
     c \<leftarrow> rd m buf;
     if c = LF \<or> c = CR then Some (Some buf, hdr\<lparr>h_type := HDR_EOH_T\<rparr>)
     else do {
       (q, hdr1) \<leftarrow> parse_hname2 m buf e hdr;
       if h_type hdr1 = HDR_ERROR_T then hdr_error q hdr1
       else do {
         t \<leftarrow> q;
         tmp \<leftarrow> eat_lws_end m t e;
         if e \<le> tmp then hdr_error (Some tmp) hdr1 else hdr_value al E m tmp e hdr1 } } }"

section \<open>All headers\<close>

definition HDR_T2F :: "int \<Rightarrow> 64 word" where
  "HDR_T2F t = (if t = HDR_EOH_T then - 1 else push_bit (nat t) 1)"

record sip_msg =
  sm_first_line :: msg_start
  sm_via1 :: "via_body option"
  sm_via2 :: "via_body option"
  sm_headers :: "hdr_field list"
  sm_parsed_flag :: "64 word"
  sm_hook :: "int \<Rightarrow> hdr_field list"
  sm_h_via2 :: "hdr_field option"
  sm_eoh :: "ptr option"
  sm_unparsed :: ptr
  sm_buf :: ptr
  sm_len :: nat
  sm_new_uri :: str
  sm_parsed_uri_ok :: bool
  sm_parsed_uri :: sip_uri

definition first_hooks :: "int set" where
  "first_hooks = {HDR_CALLID_T, HDR_TO_T, HDR_CSEQ_T, HDR_FROM_T, HDR_MAXFORWARDS_T, HDR_CONTENTTYPE_T, HDR_CONTENTLENGTH_T, HDR_EXPIRES_T,
     HDR_ORGANIZATION_T, HDR_PRIORITY_T, HDR_SUBJECT_T, HDR_USERAGENT_T, HDR_CONTENTDISPOSITION_T, HDR_RPID_T, HDR_REFER_TO_T, HDR_SESSION_EXPIRES_T,
     HDR_MIN_SE_T, HDR_MIN_EXPIRES_T, HDR_PRIVACY_T}"

definition sibling_hooks :: "int set" where
  "sibling_hooks = {HDR_CONTACT_T, HDR_ROUTE_T, HDR_RECORDROUTE_T, HDR_PATH_T, HDR_AUTHORIZATION_T, HDR_PROXYAUTH_T, HDR_PROXYREQUIRE_T, HDR_SUPPORTED_T,
     HDR_UNSUPPORTED_T, HDR_ALLOW_T, HDR_EVENT_T, HDR_ACCEPT_T, HDR_ACCEPTLANGUAGE_T, HDR_ACCEPTDISPOSITION_T, HDR_DIVERSION_T, HDR_CALL_INFO_T,
     HDR_WWW_AUTHENTICATE_T, HDR_PROXY_AUTHENTICATE_T, HDR_PPI_T, HDR_PAI_T, HDR_FEATURE_CAPS_T, HDR_REPLACES_T}"

definition set_msg_hook :: "int \<Rightarrow> hdr_field list \<Rightarrow> sip_msg \<Rightarrow> sip_msg" where
  "set_msg_hook t xs msg = msg\<lparr>sm_hook := (sm_hook msg)(t := xs), sm_parsed_flag := sm_parsed_flag msg OR HDR_T2F t\<rparr>"

text \<open>The first Via heads the pointer \<^verbatim>\<open>h_via1\<close>; the second body of the first header or the second header is \<^verbatim>\<open>via2\<close>.\<close>

definition link_via :: "hdr_field \<Rightarrow> via_body list \<Rightarrow> sip_msg \<Rightarrow> sip_msg" where
  "link_via hf vbs msg =
     (let msg1 = set_msg_hook HDR_VIA_T (sm_hook msg HDR_VIA_T @ [hf]) msg in
      if sm_via1 msg1 = None then
        (let msg2 = (set_msg_hook HDR_VIA_T [hf] msg1)\<lparr>sm_via1 := Some (hd vbs)\<rparr>
         in case tl vbs of [] \<Rightarrow> msg2 | v # _ \<Rightarrow> msg2\<lparr>sm_via2 := Some v, sm_parsed_flag := sm_parsed_flag msg2 OR HDR_T2F HDR_VIA2_T\<rparr>)
      else if sm_via2 msg1 = None then
        msg1\<lparr>sm_h_via2 := Some hf, sm_via2 := Some (hd vbs), sm_parsed_flag := sm_parsed_flag msg1 OR HDR_T2F HDR_VIA2_T\<rparr>
      else msg1)"

text \<open>The switch of \<^verbatim>\<open>parse_headers\<close>; \<open>None\<close> is its default case.\<close>

definition link_hdr :: "hdr_field \<Rightarrow> sip_msg \<Rightarrow> sip_msg option" where
  "link_hdr hf msg =
     (let t = h_type hf in
      if t = HDR_OTHER_T \<or> t = HDR_RETRY_AFTER_T then Some msg
      else if t \<in> first_hooks then Some (set_msg_hook t (if sm_hook msg t = [] then [hf] else sm_hook msg t) msg)
      else if t \<in> sibling_hooks then Some (set_msg_hook t (sm_hook msg t @ [hf]) msg)
      else if t = HDR_VIA_T then (case h_parsed hf of Parsed_via vbs \<Rightarrow> Some (link_via hf vbs msg) | _ \<Rightarrow> None)
      else None)"

partial_function (option) headers_loop :: "(ptr \<Rightarrow> nat \<Rightarrow> bool) \<Rightarrow> uri_env \<Rightarrow> mem \<Rightarrow> ptr \<Rightarrow> 64 word \<Rightarrow> ptr \<Rightarrow> sip_msg \<Rightarrow> (bool \<times> ptr \<times> sip_msg) option" where
  "headers_loop alloc E m e flags tmp msg =
     (if tmp < e \<and> flags AND sm_parsed_flag msg \<noteq> flags then
        (if \<not> alloc tmp 0 then Some (False, tmp, msg)
         else do {
           (rest, hf) \<leftarrow> get_hdr_field (alloc tmp) E m tmp e hdr_field_zero;
           if h_type hf = HDR_ERROR_T then Some (False, tmp, msg)
           else if h_type hf = HDR_EOH_T then Some (True, tmp, msg\<lparr>sm_eoh := Some tmp, sm_parsed_flag := sm_parsed_flag msg OR HDR_T2F HDR_EOH_T\<rparr>)
           else (case link_hdr hf msg of
                   None \<Rightarrow> Some (False, tmp, msg)
                 | Some msg' \<Rightarrow> do { r \<leftarrow> rest; headers_loop alloc E m e flags r (msg'\<lparr>sm_headers := sm_headers msg' @ [hf]\<rparr>) }) })
      else Some (True, tmp, msg))"

lemmas [code] = headers_loop.simps

definition parse_headers :: "(ptr \<Rightarrow> nat \<Rightarrow> bool) \<Rightarrow> uri_env \<Rightarrow> mem \<Rightarrow> 64 word \<Rightarrow> bool \<Rightarrow> sip_msg \<Rightarrow> (int \<times> sip_msg) option" where
  "parse_headers alloc E m flags again msg = do {
     let orig_flag = (if again then sm_parsed_flag msg else 0);
     let msg0 = (if again then msg\<lparr>sm_parsed_flag := sm_parsed_flag msg AND NOT flags\<rparr> else msg);
     (ok, tmp, msg1) \<leftarrow> headers_loop alloc E m (sm_buf msg + sm_len msg) flags (sm_unparsed msg) msg0;
     if ok then Some (0, msg1\<lparr>sm_unparsed := tmp\<rparr>)
     else Some (- 1, if again then msg1\<lparr>sm_parsed_flag := sm_parsed_flag msg1 OR orig_flag\<rparr> else msg1) }"

section \<open>The message\<close>

function skip_crlf :: "mem \<Rightarrow> ptr \<Rightarrow> nat \<Rightarrow> ptr option" where
  "skip_crlf m tmp left = do { c \<leftarrow> rd m tmp; if (c = LF \<or> c = CR) \<and> 0 < left then skip_crlf m (tmp + 1) (left - 1) else Some tmp }"
  by pat_completeness auto
termination
  by (relation "measure (\<lambda>(m, tmp, left). left)") auto

declare skip_crlf.simps [simp del]

definition parse_msg :: "(ptr \<Rightarrow> nat \<Rightarrow> bool) \<Rightarrow> uri_env \<Rightarrow> mem \<Rightarrow> ptr \<Rightarrow> nat \<Rightarrow> sip_msg \<Rightarrow> (int \<times> sip_msg) option" where
  "parse_msg alloc E m buf len msg = do {
     tmp \<leftarrow> skip_crlf m buf len;
     (rest, fl) \<leftarrow> parse_first_line m tmp (len - (tmp - buf)) (sm_first_line msg);
     let msg1 = msg\<lparr>sm_first_line := fl\<rparr>;
     if fl_type fl = SIP_INVALID then Some (- 1, msg1\<lparr>sm_unparsed := sm_buf msg + sm_len msg\<rparr>)
     else parse_headers alloc E m (HDR_T2F HDR_EOH_T) False (msg1\<lparr>sm_unparsed := rest\<rparr>) }"

definition parse_sip_msg_uri :: "uri_env \<Rightarrow> mem \<Rightarrow> sip_msg \<Rightarrow> (int \<times> sip_msg) option" where
  "parse_sip_msg_uri E m msg =
     (if sm_parsed_uri_ok msg then Some (1, msg)
      else do {
        let u = (if str_s (sm_new_uri msg) \<noteq> None then sm_new_uri msg else fl_uri (sm_first_line msg));
        s \<leftarrow> str_s u;
        (r, uri) \<leftarrow> parse_uri E m s (str_len u);
        if r < 0 then Some (- 1, msg\<lparr>sm_parsed_uri := uri, sm_parsed_uri_ok := False\<rparr>)
        else Some (0, msg\<lparr>sm_parsed_uri := uri, sm_parsed_uri_ok := True\<rparr>) })"

end
