(* ===== verification/Msg_Safe.thy ===== *)
theory Msg_Safe
  imports Msg_Parser
begin

text \<open>
  Safety of the message parser: \<open>hdr_ok\<close> is what a header denotes, \<open>hdr_chain\<close> a sequence of headers without gaps, \<open>msg_hooks_ok\<close> what the pointers of the
  message mean. The lemmas compose the safety of the name, Via, CSeq, To and Content-Length parsers.
\<close>

section \<open>One header\<close>

lemma content_skip_total:
  assumes "p \<le> e" and "e < length m"
  shows "\<exists>q. content_skip cr m p e = Some q \<and> p \<le> q \<and> q \<le> e"
  using assms(1)
proof (induction "e - p" arbitrary: p rule: less_induct)
  case less
  show ?case
  proof (cases "p < e")
    case True
    then obtain q where "content_skip cr m (p + 1) e = Some q" "p + 1 \<le> q" "q \<le> e" using less.hyps [of "p + 1"] by fastforce
    then show ?thesis using True assms(2) by (subst content_skip.simps) (auto simp: rd_def)
  qed (use less.prems in \<open>simp add: content_skip.simps\<close>)
qed

lemma content_digits_total:
  assumes "p \<le> e" and "e < length m"
  shows "\<exists>r. content_digits m p e n k = Some r \<and> (\<forall>q n' k'. r = Some (q, n', k') \<longrightarrow> p \<le> q \<and> q \<le> e)"
  using assms(1)
proof (induction "e - p" arbitrary: p n k rule: less_induct)
  case less
  show ?case
  proof (cases "p < e")
    case True
    have "\<exists>r. content_digits m (p + 1) e n' k' = Some r \<and> (\<forall>q n'' k''. r = Some (q, n'', k'') \<longrightarrow> p + 1 \<le> q \<and> q \<le> e)" for n' k'
      using True by (intro less.hyps) auto
    then show ?thesis using True assms(2) by (subst content_digits.simps) (fastforce simp: rd_def Let_def)
  qed (use less.prems in \<open>simp add: content_digits.simps\<close>)
qed

lemma parse_content_length_total:
  assumes "b \<le> e" and "e < length m"
  shows "\<exists>r. parse_content_length m b e = Some r \<and> (\<forall>t n. r = Some (t, n) \<longrightarrow> b < t \<and> t \<le> e + 1)"
proof -
  obtain p where p: "content_skip True m b e = Some p" "b \<le> p" "p \<le> e" using content_skip_total [OF assms] by blast
  obtain r where r: "content_digits m p e 0 0 = Some r" "\<forall>q n k. r = Some (q, n, k) \<longrightarrow> p \<le> q \<and> q \<le> e"
    using content_digits_total [OF p(3) assms(2)] by blast
  show ?thesis
  proof (cases r)
    case None
    then show ?thesis using p(1) r(1) by (auto simp: parse_content_length_def)
  next
    case (Some x)
    obtain q n k where x: "x = (q, n, k)" by (cases x)
    then have q: "p \<le> q" "q \<le> e" using r(2) Some by auto
    obtain p2 where "content_skip False m q e = Some p2" "q \<le> p2" "p2 \<le> e" using content_skip_total [OF q(2) assms(2)] by blast
    then show ?thesis using p r(1) Some x q assms(2) by (auto simp: parse_content_length_def rd_def)
  qed
qed

lemma skip_body_total:
  assumes "e \<le> length m"
  shows "\<exists>r. skip_body m p e = Some r \<and> (\<forall>t. r = Some t \<longrightarrow> p < t \<and> t \<le> e \<and> m ! (t - 1) = LF)"
proof (induction "e - p" arbitrary: p rule: less_induct)
  case less
  consider "q_memchr m p LF e = Some None" | q where "q_memchr m p LF e = Some (Some q)" "p \<le> q" "q < e" "m ! q = LF"
    using q_memchr_cases [OF assms] by blast
  then show ?case
  proof cases
    case 1
    then show ?thesis by (simp add: skip_body.simps)
  next
    case 2
    have "q + 1 < e \<Longrightarrow> \<exists>r. skip_body m (q + 1) e = Some r \<and> (\<forall>t. r = Some t \<longrightarrow> q + 1 < t \<and> t \<le> e \<and> m ! (t - 1) = LF)"
      using 2 by (intro less.hyps) auto
    then show ?thesis using 2 assms by (subst skip_body.simps) (fastforce simp: rd_def)
  qed
qed

lemma trim_r_total:
  assumes "s + len \<le> length m"
  shows "\<exists>n. trim_r m s len = Some n \<and> n \<le> len \<and> (0 < n \<longrightarrow> m ! (s + n - 1) \<notin> {NUL, CR, LF})"
  using assms
proof (induction len)
  case (Suc len)
  then obtain n where "trim_r m s len = Some n" "n \<le> len" "0 < n \<longrightarrow> m ! (s + n - 1) \<notin> {NUL, CR, LF}" by auto
  moreover have "rd m (s + len) = Some (m ! (s + len))" using Suc.prems by simp
  ultimately have "trim_r m s (Suc len) = Some (if m ! (s + len) \<in> {NUL, CR, LF} then n else Suc len)"
    by (subst trim_r.simps) simp
  then show ?case using \<open>n \<le> len\<close> \<open>0 < n \<longrightarrow> m ! (s + n - 1) \<notin> {NUL, CR, LF}\<close>
    by (cases "m ! (s + len) \<in> {NUL, CR, LF}") (auto simp del: insert_iff)
qed (simp add: trim_r.simps)

text \<open>What a header denotes that starts at \<open>p\<close> and ends at \<open>t\<close>.\<close>

definition parsed_ok :: "mem \<Rightarrow> ptr \<Rightarrow> ptr \<Rightarrow> hdr_field \<Rightarrow> ptr \<Rightarrow> bool" where
  "parsed_ok m e z hf t \<longleftrightarrow> (\<exists>b. str_s (h_body hf) = Some b \<and>
     (h_type hf = HDR_VIA_T \<longrightarrow> (\<exists>vbs. h_parsed hf = Parsed_via vbs \<and> vbs \<noteq> [] \<and> vb_hdr (hd vbs) = h_name hf \<and> list_all (via_ok m b z) vbs)) \<and>
     (h_type hf = HDR_CSEQ_T \<longrightarrow> (\<exists>cb. h_parsed hf = Parsed_cseq cb \<and> cseq_ok m b e t cb)) \<and>
     (h_type hf = HDR_TO_T \<longrightarrow> (\<exists>x. h_parsed hf = Parsed_to x \<and> (t < e \<longrightarrow> body_in m b (e + 1) x \<and> uri_set b (e + 1) (tb_uri x)))) \<and>
     (h_type hf = HDR_CONTENTLENGTH_T \<longrightarrow> (\<exists>n. h_parsed hf = Parsed_length n)))"

definition hdr_ok :: "mem \<Rightarrow> ptr \<Rightarrow> ptr \<Rightarrow> ptr \<Rightarrow> hdr_field \<Rightarrow> ptr \<Rightarrow> bool" where
  "hdr_ok m e z p hf t \<longleftrightarrow> p < t \<and> t \<le> max z (e + 1) \<and> h_type hf \<in> {0..44} - {HDR_VIA2_T} \<and> str_s (h_name hf) = Some p \<and> len_short p e hf \<and> h_len hf = int t - int p \<and>
     (\<exists>b n. h_body hf = \<lparr>str_s = Some b, str_len = int n\<rparr> \<and> p < b \<and> b < e \<and> b + n \<le> t \<and> (0 < n \<longrightarrow> m ! (b + n - 1) \<notin> {NUL, CR, LF})) \<and>
     parsed_ok m e z hf t"

lemma hdr_finish_total:
  assumes "b \<le> t" and "t \<le> length m" and "str_s (h_name hdr) = Some p"
  shows "\<exists>n. hdr_finish m b t hdr = Some (Some t, hdr\<lparr>h_body := \<lparr>str_s = Some b, str_len = int n\<rparr>, h_len := int t - int p\<rparr>) \<and> b + n \<le> t \<and>
    (0 < n \<longrightarrow> m ! (b + n - 1) \<notin> {NUL, CR, LF})"
proof -
  have "b + (t - b) \<le> length m" using assms by simp
  then obtain n where n: "trim_r m b (t - b) = Some n" "n \<le> t - b" "0 < n \<longrightarrow> m ! (b + n - 1) \<notin> {NUL, CR, LF}" using trim_r_total by blast
  then have "hdr_finish m b t hdr = Some (Some t, hdr\<lparr>h_body := \<lparr>str_s = Some b, str_len = int n\<rparr>, h_len := int t - int p\<rparr>)"
    using assms(3) by (simp add: hdr_finish_def)
  moreover have "b + n \<le> t" using n(2) assms(1) by simp
  ultimately show ?thesis using n(3) by blast
qed

lemma finish_ok:
  assumes "hdr_finish m b t hdr = Some (q, hf)" and "p < b" and "b < e" and "b \<le> t" and "p < t" and "t \<le> length m" and "t \<le> max z (e + 1)" and "str_s (h_name hdr) = Some p \<and> len_short p e hdr"
    and "h_type hdr \<in> {0..44} - {HDR_VIA2_T}" and "parsed_ok m e z (hdr\<lparr>h_body := \<lparr>str_s = Some b, str_len = 0\<rparr>\<rparr>) t"
  shows "q = Some t \<and> hdr_ok m e z p hf t"
proof -
  obtain n where n: "hdr_finish m b t hdr = Some (Some t, hdr\<lparr>h_body := \<lparr>str_s = Some b, str_len = int n\<rparr>, h_len := int t - int p\<rparr>)" "b + n \<le> t"
    "0 < n \<longrightarrow> m ! (b + n - 1) \<notin> {NUL, CR, LF}"
    using hdr_finish_total [OF assms(4,6) assms(8) [THEN conjunct1]] by blast
  then have q: "q = Some t" and hf: "hf = hdr\<lparr>h_body := \<lparr>str_s = Some b, str_len = int n\<rparr>, h_len := int t - int p\<rparr>" using assms(1) by simp_all
  have "parsed_ok m e z hf t" using assms(10) by (simp add: parsed_ok_def hf)
  then show ?thesis using assms(2-9) n(2,3) unfolding hdr_ok_def by (simp add: q hf len_short_def)
qed

lemma via_ok_hdr: "via_ok m b q (vb\<lparr>vb_hdr := h\<rparr>) = via_ok m b q vb"
  by (simp add: via_ok_def via_head_def plist_ok_def port_ok_def)

text \<open>The outcome of a header: an error, or a header that ends at the returned pointer.\<close>

definition hdr_out :: "mem \<Rightarrow> ptr \<Rightarrow> ptr \<Rightarrow> ptr \<Rightarrow> (ptr option \<times> hdr_field) option \<Rightarrow> bool" where
  "hdr_out m e z p r \<longleftrightarrow> (\<exists>q hf. r = Some (q, hf) \<and> (h_type hf = HDR_ERROR_T \<or> (\<exists>t. q = Some t \<and> hdr_ok m e z p hf t)))"

lemma hdr_out_error [simp]: "hdr_out m e z p (hdr_error q h)"
  by (simp add: hdr_out_def hdr_error_def)

lemma hdr_out_finish:
  assumes "p < b" and "b < e" and "z < length m" and "e + 1 \<le> length m" and "b \<le> t" and "t \<le> max z (e + 1)" and "str_s (h_name h) = Some p \<and> len_short p e h"
    and "h_type h \<in> {0..44} - {HDR_VIA2_T}" and "parsed_ok m e z (h\<lparr>h_body := \<lparr>str_s = Some b, str_len = 0\<rparr>\<rparr>) t"
  shows "hdr_out m e z p (hdr_finish m b t h)"
proof -
  have t: "t \<le> length m" "p < t" using assms by auto
  obtain q hf where "hdr_finish m b t h = Some (q, hf)" using hdr_finish_total [OF assms(5) t(1) assms(7) [THEN conjunct1]] by blast
  then show ?thesis using finish_ok [OF _ assms(1,2,5) t(2,1) assms(6-9)] by (auto simp: hdr_out_def)
qed

lemma hdr_value_total:
  assumes "p < b" and "b < e" and "e \<le> z" and "z < length m" and "m ! z = NUL" and "e + 1 \<le> length m" and "str_s (h_name hdr) = Some p \<and> len_short p e hdr"
  shows "hdr_out m e z p (hdr_value al E m b e hdr)"
proof -
  note fin = hdr_out_finish [OF assms(1,2,4,6)]
  have named: "str_s (h_name (hdr\<lparr>h_parsed := x\<rparr>)) = Some p \<and> len_short p e (hdr\<lparr>h_parsed := x\<rparr>)" for x
    using assms(7) by (simp add: len_short_def)
  consider (via) "h_type hdr = HDR_VIA_T" | (cseq) "h_type hdr = HDR_CSEQ_T" | (to) "h_type hdr = HDR_TO_T" | (len) "h_type hdr = HDR_CONTENTLENGTH_T"
    | (skip) "h_type hdr \<in> skipped_types" | (bad) "h_type hdr \<notin> {HDR_VIA_T, HDR_CSEQ_T, HDR_TO_T, HDR_CONTENTLENGTH_T} \<union> skipped_types"
    by blast
  then show ?thesis
  proof cases
    case via
    obtain t bs k where t: "parse_via (\<lambda>i. al (i + 2)) E m b e via_body_zero 0 = Some (t, bs, k)" "b \<le> t" "t \<le> z" "bs \<noteq> []"
      "vb_error (hd bs) \<noteq> PARSE_ERROR \<longrightarrow> list_all (via_ok m b z) bs"
      using parse_via_total [OF assms(4,5,3), of b "\<lambda>i. al (i + 2)" E 0] assms(2,3) by auto
    define vbs where "vbs = (hd bs)\<lparr>vb_hdr := h_name hdr\<rparr> # tl bs"
    have "parsed_ok m e z (hdr\<lparr>h_parsed := Parsed_via vbs, h_body := \<lparr>str_s = Some b, str_len = 0\<rparr>\<rparr>) t" if "vb_error (hd bs) \<noteq> PARSE_ERROR"
      using via t(4,5) that by (cases bs) (simp_all add: parsed_ok_def vbs_def via_ok_hdr)
    with fin [of t "hdr\<lparr>h_parsed := Parsed_via vbs\<rparr>"] t named via show ?thesis by (simp add: hdr_value_def vbs_def)
  next
    case cseq
    obtain t cb where t: "parse_cseq m b e cseq_body_zero = Some (t, cb)" "b \<le> t" "t \<le> e" "cs_error cb = PARSE_ERROR \<or> cs_error cb = PARSE_OK \<and> cseq_ok m b e t cb"
      using parse_cseq_total [of b e m cseq_body_zero] assms(2,6) by auto
    then have "cs_error cb \<noteq> PARSE_ERROR \<Longrightarrow> parsed_ok m e z (hdr\<lparr>h_parsed := Parsed_cseq cb, h_body := \<lparr>str_s = Some b, str_len = 0\<rparr>\<rparr>) t"
      using cseq by (simp add: parsed_ok_def)
    with fin [of t "hdr\<lparr>h_parsed := Parsed_cseq cb\<rparr>"] t named cseq show ?thesis by (simp add: hdr_value_def)
  next
    case to
    obtain t xs where t: "parse_to (\<lambda>i. al (i + 2)) m b e = Some (t, xs)" "b \<le> t" "t \<le> e + 1" "length xs = 1"
      "t < e \<and> tb_error (hd xs) \<noteq> PARSE_ERROR \<longrightarrow> list_all (\<lambda>x. body_in m b (e + 1) x \<and> uri_set b (e + 1) (tb_uri x)) xs"
      using parse_to_total [of b e False m "\<lambda>i. al (i + 2)"] assms(2,6) by (auto simp: parse_to_def)
    then have "tb_error (hd xs) \<noteq> PARSE_ERROR \<Longrightarrow> parsed_ok m e z (hdr\<lparr>h_parsed := Parsed_to (hd xs), h_body := \<lparr>str_s = Some b, str_len = 0\<rparr>\<rparr>) t"
      using to by (cases xs) (simp_all add: parsed_ok_def)
    with fin [of t "hdr\<lparr>h_parsed := Parsed_to (hd xs)\<rparr>"] t named to show ?thesis by (simp add: hdr_value_def)
  next
    case len
    obtain r where r: "parse_content_length m b e = Some r" "\<forall>t n. r = Some (t, n) \<longrightarrow> b < t \<and> t \<le> e + 1"
      using parse_content_length_total [of b e m] assms(2,6) by auto
    show ?thesis
    proof (cases r)
      case (Some x)
      obtain t n where x: "x = (t, n)" by (cases x)
      have "parsed_ok m e z (hdr\<lparr>h_parsed := Parsed_length n, h_body := \<lparr>str_s = Some b, str_len = 0\<rparr>\<rparr>) t" using len by (simp add: parsed_ok_def)
      with fin [of t "hdr\<lparr>h_parsed := Parsed_length n\<rparr>"] r Some x named len show ?thesis by (simp add: hdr_value_def le_max_iff_disj)
    qed (use r len in \<open>simp add: hdr_value_def\<close>)
  next
    case skip
    obtain r where r: "skip_body m b e = Some r" "\<forall>t. r = Some t \<longrightarrow> b < t \<and> t \<le> e" using skip_body_total [of e m b] assms(6) by auto
    have ty: "h_type hdr \<in> {0..44} - {HDR_VIA2_T}" "h_type hdr \<notin> {HDR_VIA_T, HDR_CSEQ_T, HDR_TO_T, HDR_CONTENTLENGTH_T}" using skip by (auto simp: skipped_types_def)
    show ?thesis
    proof (cases r)
      case (Some t)
      have "parsed_ok m e z (hdr\<lparr>h_body := \<lparr>str_s = Some b, str_len = 0\<rparr>\<rparr>) t" using ty by (simp add: parsed_ok_def)
      with fin [of t hdr] r Some assms(7) skip ty show ?thesis by (simp add: hdr_value_def le_max_iff_disj)
    qed (use r skip ty in \<open>simp add: hdr_value_def\<close>)
  next
    case bad
    then show ?thesis by (simp add: hdr_value_def)
  qed
qed

lemma get_hdr_field_total:
  assumes "p < e" and "e \<le> z" and "z < length m" and "m ! z = NUL" and "e + 20 \<le> length m" and hdr: "str_len (h_name hdr) = 0"
  shows "(m ! p \<in> {CR, LF} \<and> get_hdr_field al E m p e hdr = Some (Some p, hdr\<lparr>h_type := HDR_EOH_T\<rparr>)) \<or> hdr_out m e z p (get_hdr_field al E m p e hdr)"
proof (cases "m ! p \<in> {CR, LF}")
  case True
  then show ?thesis using assms by (auto simp: get_hdr_field_def)
next
  case False
  have r: "rd m p = Some (m ! p)" using assms by simp
  obtain q h where h: "parse_hname2 m p e hdr = Some (q, h)" "\<forall>x. q = Some x \<longrightarrow> p \<le> x \<and> (p + 4 \<le> e \<longrightarrow> p < x)" "q = None \<longrightarrow> h_type h = HDR_ERROR_T"
    "h_type h \<noteq> HDR_ERROR_T \<longrightarrow> p + 4 \<le> e \<and> str_s (h_name h) = Some p"
    using parse_hname2_total [of p m e hdr] assms by fastforce
  show ?thesis
  proof (cases "h_type h = HDR_ERROR_T")
    case True
    then show ?thesis using False r h(1) by (simp add: get_hdr_field_def)
  next
    case ok: False
    then obtain x where x: "q = Some x" using h(3) by (cases q) auto
    then have px: "p < x" "str_s (h_name h) = Some p" using h(2,4) ok by auto
    obtain y where y: "eat_lws_end m x e = Some y" "x \<le> y"
      using eat_lws_end_total [of x e m] assms by (cases "x \<le> e") auto
    have "len_short p e h" using parse_hname2_short [OF h(1) _ ok hdr] assms by simp
    with px y assms have "y < e \<Longrightarrow> hdr_out m e z p (hdr_value al E m y e h)"
      by (intro hdr_value_total) auto
    then show ?thesis using False ok r h(1) x y by (simp add: get_hdr_field_def)
  qed
qed

section \<open>All headers\<close>

definition of_type :: "int \<Rightarrow> hdr_field list \<Rightarrow> hdr_field list" where
  "of_type t hs = filter (\<lambda>h. h_type h = t) hs"

definition via_bodies :: "hdr_field list \<Rightarrow> via_body list" where
  "via_bodies hs = concat (map (\<lambda>h. case h_parsed h of Parsed_via vbs \<Rightarrow> vbs | _ \<Rightarrow> []) (of_type HDR_VIA_T hs))"

text \<open>The pointers of a message are the first headers of their type, with all others of a type that can repeat, and the first two Via bodies.\<close>

definition msg_hooks_ok :: "sip_msg \<Rightarrow> bool" where
  "msg_hooks_ok msg \<longleftrightarrow> (let hs = sm_headers msg in
     (\<forall>t \<in> first_hooks. sm_hook msg t = take 1 (of_type t hs)) \<and> (\<forall>t \<in> insert HDR_VIA_T sibling_hooks. sm_hook msg t = of_type t hs) \<and>
     sm_via1 msg = (case via_bodies hs of [] \<Rightarrow> None | v # _ \<Rightarrow> Some v) \<and>
     sm_via2 msg = (case via_bodies hs of v # w # _ \<Rightarrow> Some w | _ \<Rightarrow> None))"

definition via_filled :: "hdr_field \<Rightarrow> bool" where
  "via_filled h \<longleftrightarrow> (h_type h = HDR_VIA_T \<longrightarrow> (\<exists>v vs. h_parsed h = Parsed_via (v # vs)))"

primrec hdr_chain :: "mem \<Rightarrow> ptr \<Rightarrow> ptr \<Rightarrow> ptr \<Rightarrow> hdr_field list \<Rightarrow> ptr \<Rightarrow> bool" where
  "hdr_chain m e z p [] t \<longleftrightarrow> t = p"
| "hdr_chain m e z p (h # hs) t \<longleftrightarrow> (\<exists>q. hdr_ok m e z p h q \<and> hdr_chain m e z q hs t)"

lemma hdr_ok_filled: "hdr_ok m e z p h t \<Longrightarrow> via_filled h"
  by (auto simp: hdr_ok_def parsed_ok_def via_filled_def neq_Nil_conv)

lemma of_type_simps [simp]: "of_type t [] = []" "of_type t (hs @ [h]) = of_type t hs @ (if h_type h = t then [h] else [])"
  by (simp_all add: of_type_def)

lemma via_bodies_snoc:
  "via_bodies (hs @ [h]) = via_bodies hs @ (if h_type h = HDR_VIA_T then (case h_parsed h of Parsed_via vbs \<Rightarrow> vbs | _ \<Rightarrow> []) else [])"
  by (simp add: via_bodies_def)

lemma via_bodies_Nil: "list_all via_filled hs \<Longrightarrow> via_bodies hs = [] \<longleftrightarrow> of_type HDR_VIA_T hs = []"
  by (induction hs) (auto simp: via_bodies_def of_type_def via_filled_def)

lemma types_upto: "{0..44 :: int} = set [0..44]"
  by simp

lemma hook_types: "first_hooks \<inter> insert HDR_VIA_T sibling_hooks = {}" "HDR_VIA_T \<notin> sibling_hooks"
  "{0..44} - {HDR_VIA2_T} = {HDR_OTHER_T, HDR_RETRY_AFTER_T} \<union> first_hooks \<union> insert HDR_VIA_T sibling_hooks"
  "{HDR_OTHER_T, HDR_RETRY_AFTER_T} \<inter> (first_hooks \<union> insert HDR_VIA_T sibling_hooks) = {}"
  unfolding types_upto first_hooks_def sibling_hooks_def by code_simp+

lemma T2F_bit: "t \<in> {0..44} \<Longrightarrow> \<not> bit (HDR_T2F t) 63"
  by (auto simp: HDR_T2F_def bit_exp_iff)

lemma link_via_ok:
  assumes "msg_hooks_ok msg" and "list_all via_filled (sm_headers msg)" and "h_type hf = HDR_VIA_T" and "h_parsed hf = Parsed_via (v # vs)"
  shows "msg_hooks_ok ((link_via hf (v # vs) msg)\<lparr>sm_headers := sm_headers msg @ [hf]\<rparr>)"
proof -
  have first: "t \<noteq> HDR_VIA_T" if "t \<in> first_hooks \<union> sibling_hooks" for t using that hook_types(1,2) by auto
  show ?thesis
  proof (cases "via_bodies (sm_headers msg)")
    case Nil
    then have "of_type HDR_VIA_T (sm_headers msg) = []" using via_bodies_Nil [OF assms(2)] by simp
    then show ?thesis
      using Nil assms(1,3,4) first
      by (auto simp: msg_hooks_ok_def link_via_def set_msg_hook_def via_bodies_snoc Let_def split: list.splits)
  next
    case (Cons x xs)
    then show ?thesis
      using assms(1,3,4) first
      by (auto simp: msg_hooks_ok_def link_via_def set_msg_hook_def via_bodies_snoc Let_def split: list.splits)
  qed
qed

definition msg_frame :: "sip_msg \<Rightarrow> sip_msg \<Rightarrow> bool" where
  "msg_frame msg msg' \<longleftrightarrow> sm_headers msg' = sm_headers msg \<and> sm_first_line msg' = sm_first_line msg \<and> sm_eoh msg' = sm_eoh msg \<and> sm_buf msg' = sm_buf msg \<and>
     sm_len msg' = sm_len msg \<and> sm_unparsed msg' = sm_unparsed msg \<and> sm_new_uri msg' = sm_new_uri msg \<and> sm_parsed_uri_ok msg' = sm_parsed_uri_ok msg \<and>
     (\<not> bit (sm_parsed_flag msg) 63 \<longrightarrow> \<not> bit (sm_parsed_flag msg') 63)"

lemma set_hook_ok:
  assumes "msg_hooks_ok msg" and "h_type hf \<noteq> HDR_VIA_T" and "xs = (if h_type hf \<in> first_hooks then take 1 (of_type (h_type hf) (sm_headers msg) @ [hf]) else of_type (h_type hf) (sm_headers msg) @ [hf])"
  shows "msg_hooks_ok ((set_msg_hook (h_type hf) xs msg)\<lparr>sm_headers := sm_headers msg @ [hf]\<rparr>)"
proof -
  have "t \<notin> first_hooks" if "t \<in> insert HDR_VIA_T sibling_hooks" for t using that hook_types(1) by blast
  then show ?thesis using assms unfolding msg_hooks_ok_def set_msg_hook_def Let_def by (auto simp: via_bodies_snoc)
qed

lemma set_hook_frame: "\<not> bit (HDR_T2F t) 63 \<Longrightarrow> msg_frame msg (set_msg_hook t xs msg)"
  by (simp add: msg_frame_def set_msg_hook_def bit_or_iff)

lemma link_hdr_ok:
  assumes "msg_hooks_ok msg" and "list_all via_filled (sm_headers msg)" and "hdr_ok m e z p hf t"
  shows "\<exists>msg'. link_hdr hf msg = Some msg' \<and> msg_hooks_ok (msg'\<lparr>sm_headers := sm_headers msg' @ [hf]\<rparr>) \<and> msg_frame msg msg'"
proof -
  have ty: "h_type hf \<in> {0..44} - {HDR_VIA2_T}" using assms(3) by (simp add: hdr_ok_def)
  then have bit: "\<not> bit (HDR_T2F (h_type hf)) 63" by (intro T2F_bit) simp
  consider (none) "h_type hf \<in> {HDR_OTHER_T, HDR_RETRY_AFTER_T}" | (first) "h_type hf \<in> first_hooks" | (sib) "h_type hf \<in> sibling_hooks" | (via) "h_type hf = HDR_VIA_T"
    using ty unfolding hook_types(3) by blast
  then show ?thesis
  proof cases
    case none
    then have "h_type hf \<notin> first_hooks \<union> insert HDR_VIA_T sibling_hooks" using hook_types(4) by blast
    then show ?thesis using none assms(1) by (auto simp: link_hdr_def msg_hooks_ok_def msg_frame_def via_bodies_snoc Let_def)
  next
    case first
    then have n: "h_type hf \<notin> {HDR_OTHER_T, HDR_RETRY_AFTER_T}" "h_type hf \<noteq> HDR_VIA_T" "h_type hf \<notin> sibling_hooks" using hook_types(1,4) by blast+
    have "sm_hook msg (h_type hf) = take 1 (of_type (h_type hf) (sm_headers msg))" using first assms(1) by (simp add: msg_hooks_ok_def Let_def)
    then have ok: "msg_hooks_ok ((set_msg_hook (h_type hf) (if sm_hook msg (h_type hf) = [] then [hf] else sm_hook msg (h_type hf)) msg)\<lparr>sm_headers := sm_headers msg @ [hf]\<rparr>)"
      using first by (intro set_hook_ok [OF assms(1) n(2)]) (cases "of_type (h_type hf) (sm_headers msg)"; simp)
    have "link_hdr hf msg = Some (set_msg_hook (h_type hf) (if sm_hook msg (h_type hf) = [] then [hf] else sm_hook msg (h_type hf)) msg)"
      using first n by (simp add: link_hdr_def Let_def)
    then show ?thesis using ok set_hook_frame [OF bit] by (intro exI conjI) (assumption, simp add: set_msg_hook_def, assumption)
  next
    case sib
    then have n: "h_type hf \<notin> {HDR_OTHER_T, HDR_RETRY_AFTER_T}" "h_type hf \<noteq> HDR_VIA_T" "h_type hf \<notin> first_hooks" using hook_types(1,2,4) by auto
    have ok: "msg_hooks_ok ((set_msg_hook (h_type hf) (sm_hook msg (h_type hf) @ [hf]) msg)\<lparr>sm_headers := sm_headers msg @ [hf]\<rparr>)"
      using sib n(3) assms(1) by (intro set_hook_ok [OF assms(1) n(2)]) (simp add: msg_hooks_ok_def Let_def)
    have "link_hdr hf msg = Some (set_msg_hook (h_type hf) (sm_hook msg (h_type hf) @ [hf]) msg)" using sib n by (simp add: link_hdr_def Let_def)
    then show ?thesis using ok set_hook_frame [OF bit] by (intro exI conjI) (assumption, simp add: set_msg_hook_def, assumption)
  next
    case via
    then have n: "h_type hf \<notin> {HDR_OTHER_T, HDR_RETRY_AFTER_T}" "h_type hf \<notin> first_hooks" "h_type hf \<notin> sibling_hooks" using hook_types(1,2,4) by auto
    obtain v vs where v: "h_parsed hf = Parsed_via (v # vs)" using hdr_ok_filled [OF assms(3)] via by (auto simp: via_filled_def)
    have "msg_frame msg (link_via hf (v # vs) msg)"
      using bit via T2F_bit [of HDR_VIA2_T] by (auto simp: link_via_def set_msg_hook_def msg_frame_def bit_or_iff Let_def split: list.splits)
    moreover have "msg_hooks_ok ((link_via hf (v # vs) msg)\<lparr>sm_headers := sm_headers (link_via hf (v # vs) msg) @ [hf]\<rparr>)"
      using link_via_ok [OF assms(1,2) via v] calculation by (simp add: msg_frame_def)
    ultimately show ?thesis using n via v by (simp add: link_hdr_def Let_def)
  qed
qed

text \<open>The message after a run over the headers \<open>hs\<close> from \<open>p\<close> to \<open>t\<close>.\<close>

definition headers_ok :: "mem \<Rightarrow> ptr \<Rightarrow> ptr \<Rightarrow> ptr \<Rightarrow> sip_msg \<Rightarrow> ptr \<Rightarrow> sip_msg \<Rightarrow> bool" where
  "headers_ok m e z p msg t msg' \<longleftrightarrow> msg_hooks_ok msg' \<and> (\<exists>hs. sm_headers msg' = sm_headers msg @ hs \<and> hdr_chain m e z p hs t) \<and>
     sm_first_line msg' = sm_first_line msg \<and> sm_buf msg' = sm_buf msg \<and> sm_len msg' = sm_len msg \<and> sm_new_uri msg' = sm_new_uri msg \<and>
     sm_parsed_uri_ok msg' = sm_parsed_uri_ok msg"

lemma hdr_chain_ge: "hdr_chain m e z p hs t \<Longrightarrow> p \<le> t"
  by (induction hs arbitrary: p) (fastforce simp: hdr_ok_def)+

lemma headers_loop_total:
  assumes "e \<le> z" and "z < length m" and "m ! z = NUL" and "e + 20 \<le> length m"
    and "msg_hooks_ok msg" and "list_all via_filled (sm_headers msg)" and "\<not> bit (sm_parsed_flag msg) 63"
  shows "\<exists>ok t msg'. headers_loop alloc E m e flags p msg = Some (ok, t, msg') \<and> headers_ok m e z p msg t msg' \<and>
    (ok \<longrightarrow> (m ! t \<in> {CR, LF} \<and> t < e \<and> sm_eoh msg' = Some t) \<or>
      (sm_eoh msg' = sm_eoh msg \<and> \<not> bit (sm_parsed_flag msg') 63 \<and> (e \<le> t \<or> flags AND sm_parsed_flag msg' = flags)))"
  using assms(5-7)
proof (induction "e - p" arbitrary: p msg rule: less_induct)
  case less
  have here: "headers_ok m e z p msg p msg" using less.prems by (simp add: headers_ok_def)
  show ?case
  proof (cases "p < e \<and> flags AND sm_parsed_flag msg \<noteq> flags")
    case False
    then have "headers_loop alloc E m e flags p msg = Some (True, p, msg)" by (subst headers_loop.simps) (simp only: if_False)
    moreover have "e \<le> p \<or> flags AND sm_parsed_flag msg = flags" using False by (auto simp: not_less)
    ultimately show ?thesis using here less.prems(3) by blast
  next
    case go: True
    show ?thesis
    proof (cases "alloc p 0")
      case False
      then have "headers_loop alloc E m e flags p msg = Some (False, p, msg)" using go by (simp add: headers_loop.simps)
      then show ?thesis using here by auto
    next
      case al: True
      let ?r = "get_hdr_field (alloc p) E m p e hdr_field_zero"
      consider (eoh) "m ! p \<in> {CR, LF}" "?r = Some (Some p, hdr_field_zero\<lparr>h_type := HDR_EOH_T\<rparr>)" | (err) q hf where "?r = Some (q, hf)" "h_type hf = HDR_ERROR_T"
        | (ok) hf t where "?r = Some (Some t, hf)" "hdr_ok m e z p hf t"
        using get_hdr_field_total [of p e z m hdr_field_zero "alloc p" E] go assms(1-4) by (auto simp: hdr_out_def hdr_field_zero_def str_null_def)
      then show ?thesis
      proof cases
        case eoh
        let ?msg = "msg\<lparr>sm_eoh := Some p, sm_parsed_flag := sm_parsed_flag msg OR HDR_T2F HDR_EOH_T\<rparr>"
        have "headers_loop alloc E m e flags p msg = Some (True, p, ?msg)"
          using go al eoh(2) by (subst headers_loop.simps) simp
        moreover have "headers_ok m e z p msg p ?msg" using less.prems by (simp add: headers_ok_def msg_hooks_ok_def)
        ultimately show ?thesis using eoh(1) go by auto
      next
        case err
        then have "headers_loop alloc E m e flags p msg = Some (False, p, msg)" using go al by (subst headers_loop.simps) simp
        then show ?thesis using here by auto
      next
        case ok
        obtain msg1 where l: "link_hdr hf msg = Some msg1" "msg_hooks_ok (msg1\<lparr>sm_headers := sm_headers msg1 @ [hf]\<rparr>)" "msg_frame msg msg1"
          using link_hdr_ok [OF less.prems(1,2) ok(2)] by blast
        let ?msg = "msg1\<lparr>sm_headers := sm_headers msg1 @ [hf]\<rparr>"
        have ty: "h_type hf \<noteq> HDR_ERROR_T" "h_type hf \<noteq> HDR_EOH_T" and pt: "p < t" using ok(2) by (auto simp: hdr_ok_def)
        then have step: "headers_loop alloc E m e flags p msg = headers_loop alloc E m e flags t ?msg"
          using go al ok(1) l(1) by (subst headers_loop.simps) simp
        have "list_all via_filled (sm_headers ?msg)" "\<not> bit (sm_parsed_flag ?msg) 63"
          using l(3) less.prems hdr_ok_filled [OF ok(2)] by (auto simp: msg_frame_def)
        moreover have "e - t < e - p" using pt go by (intro diff_less_mono2) blast+
        ultimately obtain b u msg' where IH: "headers_loop alloc E m e flags t ?msg = Some (b, u, msg')" "headers_ok m e z t ?msg u msg'"
          "b \<longrightarrow> (m ! u \<in> {CR, LF} \<and> u < e \<and> sm_eoh msg' = Some u) \<or>
             (sm_eoh msg' = sm_eoh ?msg \<and> \<not> bit (sm_parsed_flag msg') 63 \<and> (e \<le> u \<or> flags AND sm_parsed_flag msg' = flags))"
          using less.hyps [of t ?msg] l(2) by blast
        obtain hs where hs: "sm_headers msg' = sm_headers ?msg @ hs" "hdr_chain m e z t hs u" using IH(2) by (auto simp: headers_ok_def)
        then have "sm_headers msg' = sm_headers msg @ hf # hs" "hdr_chain m e z p (hf # hs) u" using l(3) ok(2) by (auto simp: msg_frame_def)
        then have "headers_ok m e z p msg u msg'" using IH(2) l(3) unfolding headers_ok_def msg_frame_def by (intro conjI exI [of _ "hf # hs"]) simp_all
        moreover have "sm_eoh ?msg = sm_eoh msg" using l(3) by (simp add: msg_frame_def)
        ultimately show ?thesis using step IH(1,3) by auto
      qed
    qed
  qed
qed

section \<open>The message\<close>

lemma skip_crlf_total:
  assumes "p + left < length m"
  shows "\<exists>q. skip_crlf m p left = Some q \<and> p \<le> q \<and> q \<le> p + left \<and> (\<forall>i. p \<le> i \<longrightarrow> i < q \<longrightarrow> m ! i \<in> {CR, LF})"
  using assms
proof (induction left arbitrary: p)
  case 0
  then show ?case by (subst skip_crlf.simps) simp
next
  case (Suc left)
  show ?case
  proof (cases "m ! p \<in> {CR, LF}")
    case True
    obtain q where q: "skip_crlf m (p + 1) left = Some q" "p + 1 \<le> q" "q \<le> p + 1 + left" "\<forall>i. p + 1 \<le> i \<longrightarrow> i < q \<longrightarrow> m ! i \<in> {CR, LF}"
      using Suc.IH [of "p + 1"] Suc.prems by auto
    have "skip_crlf m p (Suc left) = Some q" using True q(1) Suc.prems by (subst skip_crlf.simps) auto
    moreover have "\<forall>i. p \<le> i \<longrightarrow> i < q \<longrightarrow> m ! i \<in> {CR, LF}" using q(4) True by (metis Suc_eq_plus1 Suc_leI le_eq_less_or_eq)
    ultimately show ?thesis using q(2,3) by auto
  next
    case False
    then have "skip_crlf m p (Suc left) = Some p" using Suc.prems by (subst skip_crlf.simps) auto
    then show ?thesis by auto
  qed
qed

definition sip_msg_zero :: "ptr \<Rightarrow> nat \<Rightarrow> sip_msg" where
  "sip_msg_zero buf len = \<lparr>sm_first_line = msg_start_zero, sm_via1 = None, sm_via2 = None, sm_headers = [], sm_parsed_flag = 0, sm_hook = (\<lambda>_. []),
     sm_h_via2 = None, sm_eoh = None, sm_unparsed = 0, sm_buf = buf, sm_len = len, sm_new_uri = str_null, sm_parsed_uri_ok = False, sm_parsed_uri = sip_uri_zero\<rparr>"

lemma and_ones: "(- 1 :: 64 word) AND w = - 1 \<longleftrightarrow> w = - 1"
  by simp

text \<open>
  What an accepted message denotes: after blank lines the first line, then headers one after the other up to an empty line or the end, and the
  pointers to them.
\<close>

definition msg_ok :: "mem \<Rightarrow> ptr \<Rightarrow> nat \<Rightarrow> ptr \<Rightarrow> sip_msg \<Rightarrow> bool" where
  "msg_ok m buf len z msg \<longleftrightarrow> (\<exists>p q. buf \<le> p \<and> (\<forall>i. buf \<le> i \<longrightarrow> i < p \<longrightarrow> m ! i \<in> {CR, LF}) \<and> line_ok m p (len - (p - buf)) q (sm_first_line msg) \<and>
       hdr_chain m (buf + len) z q (sm_headers msg) (sm_unparsed msg)) \<and> msg_hooks_ok msg \<and>
     (if sm_unparsed msg < buf + len then sm_eoh msg = Some (sm_unparsed msg) \<and> m ! sm_unparsed msg \<in> {CR, LF} else sm_eoh msg = None) \<and>
     sm_buf msg = buf \<and> sm_len msg = len \<and> sm_new_uri msg = str_null \<and> \<not> sm_parsed_uri_ok msg"

lemma parse_msg_total:
  assumes "buf + len \<le> z" and "z < length m" and "m ! z = NUL" and "buf + len + 20 \<le> length m"
  shows "\<exists>r msg. parse_msg alloc E m buf len (sip_msg_zero buf len) = Some (r, msg) \<and> (r = 0 \<or> r = - 1) \<and> (r = 0 \<longrightarrow> msg_ok m buf len z msg)"
proof -
  let ?e = "buf + len"
  let ?z = "sip_msg_zero buf len"
  obtain p where p: "skip_crlf m buf len = Some p" "buf \<le> p" "p \<le> ?e" "\<forall>i. buf \<le> i \<longrightarrow> i < p \<longrightarrow> m ! i \<in> {CR, LF}"
    using skip_crlf_total [of buf len m] assms by auto
  have "p + (len - (p - buf)) \<le> length m" using p assms(4) by simp
  then obtain q fl where fl: "parse_first_line m p (len - (p - buf)) msg_start_zero = Some (q, fl)"
    "fl_type fl \<noteq> SIP_INVALID \<longrightarrow> line_ok m p (len - (p - buf)) q fl"
    using parse_first_line_total by blast
  show ?thesis
  proof (cases "fl_type fl = SIP_INVALID")
    case True
    then show ?thesis using p(1) fl(1) by (simp add: parse_msg_def sip_msg_zero_def)
  next
    case ok: False
    let ?m = "?z\<lparr>sm_first_line := fl, sm_unparsed := q\<rparr>"
    have z: "msg_hooks_ok ?m" "list_all via_filled (sm_headers ?m)" "\<not> bit (sm_parsed_flag ?m) 63"
      by (simp_all add: sip_msg_zero_def msg_hooks_ok_def of_type_def via_bodies_def)
    obtain b t msg where run: "headers_loop alloc E m ?e (- 1) q ?m = Some (b, t, msg)" "headers_ok m ?e z q ?m t msg"
      "b \<longrightarrow> (m ! t \<in> {CR, LF} \<and> t < ?e \<and> sm_eoh msg = Some t) \<or>
        (sm_eoh msg = sm_eoh ?m \<and> \<not> bit (sm_parsed_flag msg) 63 \<and> (?e \<le> t \<or> (- 1) AND sm_parsed_flag msg = - 1))"
      using headers_loop_total [OF assms z, of alloc E "- 1" q] by blast
    have parse: "parse_msg alloc E m buf len ?z = Some (if b then (0, msg\<lparr>sm_unparsed := t\<rparr>) else (- 1, msg))"
      using p(1) fl(1) ok run(1) by (simp add: parse_msg_def parse_headers_def HDR_T2F_def sip_msg_zero_def)
    show ?thesis
    proof (cases b)
      case True
      have "(if t < ?e then sm_eoh msg = Some t \<and> m ! t \<in> {CR, LF} else sm_eoh msg = None)"
        using run(3) True by (auto simp: sip_msg_zero_def)
      moreover have "line_ok m p (len - (p - buf)) q (sm_first_line msg)" using fl(2) ok run(2) by (simp add: headers_ok_def)
      moreover have "hdr_chain m ?e z q (sm_headers msg) t" "msg_hooks_ok (msg\<lparr>sm_unparsed := t\<rparr>)" "sm_buf msg = buf" "sm_len msg = len" "sm_new_uri msg = str_null" "\<not> sm_parsed_uri_ok msg"
        using run(2) by (auto simp: headers_ok_def sip_msg_zero_def msg_hooks_ok_def)
      ultimately have "msg_ok m buf len z (msg\<lparr>sm_unparsed := t\<rparr>)"
        unfolding msg_ok_def using p(2,4) by (intro conjI [OF exI [of _ p, OF exI [of _ q]]]) (simp_all split: if_splits)
      then show ?thesis using parse True by simp
    next
      case False
      then show ?thesis using parse by auto
    qed
  qed
qed

text \<open>
  C4: the message parser. For every datagram in a buffer with a zero byte at or after its end and twenty more bytes, \<^verbatim>\<open>parse_msg\<close> returns, whatever
  allocations fail and without reading outside the buffer. When it returns 0 the message is a first line after optional line ends, followed by headers without gaps, each with its name, its
  body inside the buffer without its line end and its parsed value, up to an empty line or to the end of the datagram, so that a message without the empty line is
  accepted as well; the pointers of the message are the first headers of their types, with all further ones of the types that may repeat, and the first two Via bodies.
\<close>

theorem parse_msg_safe:
  assumes "buf + len \<le> z" and "z < length m" and "m ! z = NUL" and "buf + len + 20 \<le> length m"
  shows "\<exists>r msg. parse_msg alloc E m buf len (sip_msg_zero buf len) = Some (r, msg) \<and> (r = 0 \<or> r = - 1) \<and> (r = 0 \<longrightarrow> msg_ok m buf len z msg)"
  using assms by (rule parse_msg_total)

theorem parse_msg_safe_witness:
  "\<exists>r msg. parse_msg (\<lambda>_ _. True) \<lparr>ue_empty = 100, ue_addr = int\<rparr> (''BYE sip:a@b SIP/2.0'' @ [CR, LF] @ ''X: y'' @ [CR, LF, CR, LF] @ replicate 20 NUL) 0 29 (sip_msg_zero 0 29) = Some (r, msg) \<and>
    (r = 0 \<or> r = - 1) \<and> (r = 0 \<longrightarrow> msg_ok (''BYE sip:a@b SIP/2.0'' @ [CR, LF] @ ''X: y'' @ [CR, LF, CR, LF] @ replicate 20 NUL) 0 29 29 msg)"
  by (rule parse_msg_safe) (simp_all add: nth_append)

definition length_of :: "char list \<Rightarrow> (nat \<times> int) option option" where
  "length_of t = parse_content_length t 0 (length t)"

text \<open>A datagram \<open>t\<close> that is followed in the buffer by \<open>old\<close>: the result, and the types and bodies of its headers.\<close>

definition msg_result :: "char list \<Rightarrow> char list \<Rightarrow> (int \<times> (int \<times> char list) list \<times> ptr option) option" where
  "msg_result t old = (let m = t @ old @ replicate 20 NUL in
     map_option (\<lambda>(r, msg). (r, map (\<lambda>h. (h_type h, str_text m (h_body h))) (sm_headers msg), sm_eoh msg))
       (parse_msg (\<lambda>_ _. True) \<lparr>ue_empty = 100, ue_addr = int\<rparr> m 0 (length t) (sip_msg_zero 0 (length t))))"

text \<open>
  Surprises of the message parser. A Content-Length that overflows to a positive number is accepted with that number, although overflow is tested for; a message without the empty
  line is accepted; and the body of a Via header that is cut off at the end of a datagram goes on with what the buffer holds behind the datagram.
\<close>

theorem msg_quirks:
  "length_of (''4294967300'' @ [CR, LF]) = Some (Some (12, 4)) \<and>
   length_of (''2147483648'' @ [CR, LF]) = Some None \<and>
   msg_result (''BYE sip:a@b SIP/2.0'' @ [CR, LF] @ ''Xy: z'' @ [CR, LF]) [] = Some (0, [(0, ''z'')], None) \<and>
   msg_result (''BYE sip:a@b SIP/2.0'' @ [CR, LF] @ ''Via: SIP/2.0/UDP h'') (''ost.secret'' @ [CR, LF, CHR ''X'']) =
     Some (0, [(1, ''SIP/2.0/UDP host.secret'')], None)"
  by (intro conjI; code_simp)

end
