(* ===== verification/Csv.thy ===== *)
theory Csv
  imports Cmem
begin

text \<open>
  What the database loaders of \<^verbatim>\<open>callfwd\<close> share: the input stream with its state bits, \<^verbatim>\<open>std::getline\<close>, the loop of the
  \<^verbatim>\<open>fromCSV\<close> methods, the loop of the \<^verbatim>\<open>load...MappingFile\<close> functions that calls them in portions of 10000 lines, and
  the conversions of the standard library. Every exception is a value of \<open>load_error\<close>.
\<close>

datatype load_error =
  Io_failure | Bad_number_of_columns | Duplicate_key | Too_much_rows | Conversion_error | Invalid_argument | Out_of_range | Out_of_bounds

section \<open>Streams\<close>

text \<open>\<open>in_throw\<close> is the exception mask \<^verbatim>\<open>failbit | badbit\<close>: setting the bit then throws.\<close>

record istream =
  in_rest :: "char list"
  in_eof :: bool
  in_fail :: bool
  in_throw :: bool

definition in_good :: "istream \<Rightarrow> bool" where
  "in_good s \<longleftrightarrow> \<not> in_eof s \<and> \<not> in_fail s"

definition set_failbit :: "istream \<Rightarrow> load_error + istream" where
  "set_failbit s = (if in_throw s then Inl Io_failure else Inr (s\<lparr>in_fail := True\<rparr>))"

text \<open>\<open>peek_eof\<close> is \<^verbatim>\<open>in.peek() == EOF\<close>. Reading a stream that is not good sets the fail bit.\<close>

definition peek_eof :: "istream \<Rightarrow> load_error + (bool \<times> istream)" where
  "peek_eof s =
     (if in_good s then Inr (if in_rest s = [] then (True, s\<lparr>in_eof := True\<rparr>) else (False, s))
      else (case set_failbit s of Inl e \<Rightarrow> Inl e | Inr s' \<Rightarrow> Inr (True, s')))"

definition getline :: "istream \<Rightarrow> load_error + (char list \<times> istream)" where
  "getline s =
     (if in_good s then
        (let l = takeWhile (\<lambda>c. c \<noteq> LF) (in_rest s); r = dropWhile (\<lambda>c. c \<noteq> LF) (in_rest s)
         in if r \<noteq> [] then Inr (l, s\<lparr>in_rest := tl r\<rparr>)
            else if l \<noteq> [] then Inr (l, s\<lparr>in_rest := [], in_eof := True\<rparr>)
            else (case set_failbit (s\<lparr>in_eof := True\<rparr>) of Inl e \<Rightarrow> Inl e | Inr s' \<Rightarrow> Inr ([], s')))
      else (case set_failbit s of Inl e \<Rightarrow> Inl e | Inr s' \<Rightarrow> Inr ([], s')))"

text \<open>The loop of a \<^verbatim>\<open>fromCSV\<close> method: at most \<^verbatim>\<open>limit\<close> lines, each given to \<open>row\<close> with the builder \<open>b\<close>.\<close>

primrec csv_loop :: "(char list \<Rightarrow> 'b \<Rightarrow> load_error + 'b) \<Rightarrow> nat \<Rightarrow> istream \<Rightarrow> nat \<Rightarrow> 'b \<Rightarrow> load_error + (istream \<times> nat \<times> 'b)" where
  "csv_loop row 0 s line b = Inr (s, line, b)"
| "csv_loop row (Suc n) s line b =
     (case peek_eof s of
        Inl e \<Rightarrow> Inl e
      | Inr (at_eof, s1) \<Rightarrow>
          (if at_eof then Inr (s1, line, b)
           else (case getline s1 of
                   Inl e \<Rightarrow> Inl e
                 | Inr (l, s2) \<Rightarrow>
                     (case row l b of Inl e \<Rightarrow> Inl e | Inr b' \<Rightarrow> csv_loop row n s2 (line + 1) b'))))"

definition LOAD_CHUNK :: nat where
  "LOAD_CHUNK = 10000"

partial_function (option) load_loop ::
  "(char list \<Rightarrow> 'b \<Rightarrow> load_error + 'b) \<Rightarrow> nat \<Rightarrow> istream \<Rightarrow> nat \<Rightarrow> 'b \<Rightarrow> (load_error + (nat \<times> 'b)) option"
where
  "load_loop row K s nrows b =
     (if in_good s then
        (case csv_loop row K s nrows b of
           Inl e \<Rightarrow> Some (Inl e)
         | Inr x \<Rightarrow> load_loop row K (fst x) (fst (snd x)) (snd (snd x)))
      else Some (Inr (nrows, b)))"

lemmas [code] = load_loop.simps

definition open_file :: "char list \<Rightarrow> istream" where
  "open_file t = \<lparr>in_rest = t, in_eof = False, in_fail = False, in_throw = True\<rparr>"

definition load_file :: "(char list \<Rightarrow> 'b \<Rightarrow> load_error + 'b) \<Rightarrow> char list \<Rightarrow> 'b \<Rightarrow> (load_error + (nat \<times> 'b)) option" where
  "load_file row t b = load_loop row LOAD_CHUNK (open_file t) 0 b"

section \<open>Fields and numbers\<close>

text \<open>
  The loop \<^verbatim>\<open>while (std::getline(ss, part, ','))\<close>: a field ends at a comma or at the end, and nothing follows a final comma.
\<close>

function csv_parts :: "char list \<Rightarrow> char list list" where
  "csv_parts [] = []"
| "csv_parts (c # cs) =
     takeWhile (\<lambda>x. x \<noteq> CHR '','') (c # cs) # csv_parts (drop 1 (dropWhile (\<lambda>x. x \<noteq> CHR '','') (c # cs)))"
  by pat_completeness auto
termination
  by (relation "measure length") (auto simp: le_imp_less_Suc length_dropWhile_le less_Suc_eq_le intro: le_trans [OF diff_le_self])

definition is_space :: "char \<Rightarrow> bool" where
  "is_space c \<longleftrightarrow> c \<in> {SPC, TAB, LF, CR, CHR 0x0B, CHR 0x0C}"

text \<open>\<^verbatim>\<open>std::stoll\<close>: blanks, a sign, the longest run of digits; no digit is an error, and so is a value outside 64 bits.\<close>

definition dec_digits :: "char list \<Rightarrow> int" where
  "dec_digits ds = foldl (\<lambda>n c. 10 * n + (uchar c - 48)) 0 ds"

definition stoll :: "char list \<Rightarrow> load_error + int" where
  "stoll s =
     (let r = dropWhile is_space s;
          neg = (r \<noteq> [] \<and> hd r = CHR ''-'');
          r1 = (if r \<noteq> [] \<and> hd r \<in> {CHR ''-'', CHR ''+''} then tl r else r);
          ds = takeWhile is_digit r1;
          v = (if neg then - dec_digits ds else dec_digits ds)
      in if ds = [] then Inl Invalid_argument
         else if v < - (2 ^ 63) \<or> v > 2 ^ 63 - 1 then Inl Out_of_range
         else Inr v)"

text \<open>\<^verbatim>\<open>deleteCharacter\<close> of the builders.\<close>

primrec deleteCharacter :: "char list \<Rightarrow> char \<Rightarrow> char list" where
  "deleteCharacter [] x = []"
| "deleteCharacter (c # cs) x = (if c \<noteq> x then c # deleteCharacter cs x else deleteCharacter cs x)"

definition starts_digit :: "char list \<Rightarrow> bool" where
  "starts_digit l \<longleftrightarrow> l \<noteq> [] \<and> is_digit (hd l)"

section \<open>Loading a file\<close>

fun run_lines :: "(char list \<Rightarrow> 'b \<Rightarrow> load_error + 'b) \<Rightarrow> char list list \<Rightarrow> 'b \<Rightarrow> load_error + 'b" where
  "run_lines row [] b = Inr b"
| "run_lines row (l # ls) b = (case row l b of Inl e \<Rightarrow> Inl e | Inr b' \<Rightarrow> run_lines row ls b')"

definition unlines :: "char list list \<Rightarrow> char list" where
  "unlines ls = concat (map (\<lambda>l. l @ [LF]) ls)"

abbreviation good_stream :: "char list \<Rightarrow> istream" where
  "good_stream t \<equiv> \<lparr>in_rest = t, in_eof = False, in_fail = False, in_throw = True\<rparr>"

lemma unlines_simps [simp]: "unlines [] = []" "unlines (l # ls) = l @ LF # unlines ls"
  by (simp_all add: unlines_def)

lemma run_lines_append: "run_lines row (xs @ ys) b = (case run_lines row xs b of Inl e \<Rightarrow> Inl e | Inr b' \<Rightarrow> run_lines row ys b')"
  by (induction xs arbitrary: b) (auto split: sum.splits)

lemma while_not_in: "x \<notin> set l \<Longrightarrow> takeWhile (\<lambda>c. c \<noteq> x) (l @ x # t) = l" "x \<notin> set l \<Longrightarrow> dropWhile (\<lambda>c. c \<noteq> x) (l @ x # t) = x # t"
  "x \<notin> set l \<Longrightarrow> takeWhile (\<lambda>c. c \<noteq> x) l = l" "x \<notin> set l \<Longrightarrow> dropWhile (\<lambda>c. c \<noteq> x) l = []"
  by (induction l) auto

lemma getline_line: "LF \<notin> set l \<Longrightarrow> getline (good_stream (l @ LF # t)) = Inr (l, good_stream t)"
  by (simp add: getline_def in_good_def while_not_in Let_def)

lemma getline_last: "LF \<notin> set l \<Longrightarrow> l \<noteq> [] \<Longrightarrow> getline (good_stream l) = Inr (l, (good_stream [])\<lparr>in_eof := True\<rparr>)"
  by (simp add: getline_def in_good_def while_not_in Let_def)

lemma peek_good: "t \<noteq> [] \<Longrightarrow> peek_eof (good_stream t) = Inr (False, good_stream t)"
  "peek_eof (good_stream []) = Inr (True, (good_stream [])\<lparr>in_eof := True\<rparr>)"
  by (simp_all add: peek_eof_def in_good_def)

lemma csv_loop_lines:
  assumes "\<forall>l \<in> set ls. LF \<notin> set l"
  shows "csv_loop row n (good_stream (unlines ls)) line b =
    (case run_lines row (take n ls) b of Inl e \<Rightarrow> Inl e
     | Inr b' \<Rightarrow> Inr ((good_stream (unlines (drop n ls)))\<lparr>in_eof := length ls < n\<rparr>, line + min n (length ls), b'))"
  using assms
proof (induction n arbitrary: ls line b)
  case (Suc n)
  show ?case
  proof (cases ls)
    case (Cons l ls')
    then show ?thesis
      using Suc.IH [of ls'] Suc.prems getline_line [of l "unlines ls'"] by (simp add: peek_good split: sum.splits)
  qed (simp add: peek_good)
qed simp

lemma load_loop_lines:
  assumes "\<forall>l \<in> set ls. LF \<notin> set l" and "0 < K"
  shows "load_loop row K (good_stream (unlines ls)) line b =
    Some (case run_lines row ls b of Inl e \<Rightarrow> Inl e | Inr b' \<Rightarrow> Inr (line + length ls, b'))"
  using assms(1)
proof (induction "length ls" arbitrary: ls line b rule: less_induct)
  case less
  have g: "in_good (good_stream t)" for t by (simp add: in_good_def)
  have all: "run_lines row ls b = (case run_lines row (take K ls) b of Inl e \<Rightarrow> Inl e | Inr b' \<Rightarrow> run_lines row (drop K ls) b')"
    using run_lines_append [of row "take K ls" "drop K ls"] by simp
  show ?case
  proof (cases "run_lines row (take K ls) b")
    case (Inl e)
    then show ?thesis using all g csv_loop_lines [OF less.prems, of row K line b] by (subst load_loop.simps) simp
  next
    case (Inr b1)
    note step = csv_loop_lines [OF less.prems, of row K line b]
    show ?thesis
    proof (cases "length ls < K")
      case True
      then have "load_loop row K ((good_stream [])\<lparr>in_eof := True\<rparr>) (line + length ls) b1 = Some (Inr (line + length ls, b1))"
        by (subst load_loop.simps) (simp add: in_good_def)
      then show ?thesis using True Inr g step by (subst load_loop.simps) simp
    next
      case False
      let ?ls = "drop K ls"
      have rest: "load_loop row K (good_stream (unlines ls)) line b = load_loop row K (good_stream (unlines ?ls)) (line + K) b1"
        using False Inr g step by (subst load_loop.simps) (simp add: min_def)
      show ?thesis
      proof (cases "ls = []")
        case True
        then show ?thesis using False assms(2) by simp
      next
        case ls: False
        then have "length ?ls < length ls" using assms(2) by simp
        moreover have "\<forall>l \<in> set ?ls. LF \<notin> set l" using less.prems set_drop_subset by fastforce
        ultimately have "load_loop row K (good_stream (unlines ?ls)) (line + K) b1 =
            Some (case run_lines row ?ls b1 of Inl e \<Rightarrow> Inl e | Inr b' \<Rightarrow> Inr (line + K + length ?ls, b'))"
          by (rule less.hyps)
        then show ?thesis using rest all Inr False by (simp split: sum.splits)
      qed
    qed
  qed
qed

text \<open>A last line without its line end: the line is read, but the test for the end of the file that follows it throws.\<close>

lemma csv_loop_last:
  assumes "\<forall>l \<in> set ls. LF \<notin> set l" and "LF \<notin> set l" and "l \<noteq> []" and "run_lines row (ls @ [l]) b = Inr b'" and "length ls < n"
  shows "csv_loop row n (good_stream (unlines ls @ l)) line b =
    (if n = length ls + 1 then Inr ((good_stream [])\<lparr>in_eof := True\<rparr>, line + n, b') else Inl Io_failure)"
  using assms
proof (induction ls arbitrary: n line b)
  case Nil
  then obtain m where n: "n = Suc m" by (cases n) auto
  have "csv_loop row (Suc k) ((good_stream [])\<lparr>in_eof := True\<rparr>) line' b' = Inl Io_failure" for k line'
    by (simp add: peek_eof_def in_good_def set_failbit_def)
  then show ?case using Nil n getline_last [of l] by (cases m) (auto simp: peek_good split: sum.splits)
next
  case (Cons x xs)
  then obtain m where n: "n = Suc m" by (cases n) auto
  obtain b1 where b1: "row x b = Inr b1" "run_lines row (xs @ [l]) b1 = Inr b'" using Cons.prems(4) by (auto split: sum.splits)
  show ?case
    using Cons.IH [of b1 m "line + 1"] Cons.prems b1 n getline_line [of x "unlines xs @ l"] by (simp add: peek_good)
qed

lemma csv_loop_full:
  assumes "\<forall>l \<in> set ls. LF \<notin> set l" and "n \<le> length ls" and "run_lines row (take n ls) b = Inr b'"
  shows "csv_loop row n (good_stream (unlines ls @ t)) line b = Inr (good_stream (unlines (drop n ls) @ t), line + n, b')"
  using assms
proof (induction n arbitrary: ls line b)
  case (Suc n)
  then obtain x xs where ls: "ls = x # xs" by (cases ls) auto
  obtain b1 where b1: "row x b = Inr b1" "run_lines row (take n xs) b1 = Inr b'" using Suc.prems(3) ls by (auto split: sum.splits)
  show ?case
    using Suc.IH [of xs b1 "line + 1"] Suc.prems b1 ls getline_line [of x "unlines xs @ t"] by (simp add: peek_good)
qed simp

lemma load_loop_last:
  assumes "\<forall>l \<in> set ls. LF \<notin> set l" and "LF \<notin> set l" and "l \<noteq> []" and "run_lines row (ls @ [l]) b = Inr b'" and "0 < K"
  shows "load_loop row K (good_stream (unlines ls @ l)) line b =
    Some (if (length ls + 1) mod K = 0 then Inr (line + length ls + 1, b') else Inl Io_failure)"
  using assms(1,4)
proof (induction "length ls" arbitrary: ls line b rule: less_induct)
  case less
  have g: "in_good (good_stream t)" for t by (simp add: in_good_def)
  show ?case
  proof (cases "length ls < K")
    case True
    have "(length ls + 1) mod K = 0 \<longleftrightarrow> K = length ls + 1" using True by (cases "length ls + 1 = K") auto
    moreover have "load_loop row K ((good_stream [])\<lparr>in_eof := True\<rparr>) (line + K) b' = Some (Inr (line + K, b'))"
      by (subst load_loop.simps) (simp add: in_good_def)
    ultimately show ?thesis
      using g csv_loop_last [OF less.prems(1) assms(2,3) less.prems(2) True, of line] by (subst load_loop.simps) auto
  next
    case False
    let ?ls = "drop K ls"
    have "run_lines row (take K ls @ ?ls @ [l]) b = Inr b'" using less.prems(2) by (simp flip: append_assoc)
    then obtain b1 where b1: "run_lines row (take K ls) b = Inr b1" "run_lines row (?ls @ [l]) b1 = Inr b'"
      by (auto simp: run_lines_append split: sum.splits)
    have "\<forall>l \<in> set ?ls. LF \<notin> set l" using less.prems(1) set_drop_subset by fastforce
    moreover have "length ?ls < length ls" using False assms(5) by simp
    ultimately have "load_loop row K (good_stream (unlines ?ls @ l)) (line + K) b1 =
        Some (if (length ?ls + 1) mod K = 0 then Inr (line + K + length ?ls + 1, b') else Inl Io_failure)"
      using b1(2) by (intro less.hyps)
    moreover have "(length ?ls + 1) mod K = (length ls + 1) mod K" 
    using le_mod_geq [of K "length ls + 1"] False by (simp add: Suc_diff_le)
    ultimately show ?thesis
      using False b1(1) g csv_loop_full [OF less.prems(1), of K row b b1 l line] by (subst load_loop.simps) auto
  qed
qed

text \<open>
  C20: loading a file in portions is reading it line by line. A file whose last line ends with a line end loads exactly when the
  row function accepts all lines one after the other, with the same result and the number of lines, and otherwise fails with its first error.
  A file whose last line lacks its line end is refused with an exception of the stream, although all its lines are good,
  unless its number of lines is a multiple of the portion.
\<close>

theorem load_file_lines:
  assumes "\<forall>l \<in> set ls. LF \<notin> set l"
  shows "load_file row (unlines ls) b = Some (case run_lines row ls b of Inl e \<Rightarrow> Inl e | Inr b' \<Rightarrow> Inr (length ls, b')) \<and>
    (LF \<notin> set l \<and> l \<noteq> [] \<and> run_lines row (ls @ [l]) b = Inr b' \<longrightarrow>
      load_file row (unlines ls @ l) b = Some (if (length ls + 1) mod LOAD_CHUNK = 0 then Inr (length ls + 1, b') else Inl Io_failure))"
  using load_loop_lines [OF assms, of LOAD_CHUNK row 0 b] load_loop_last [OF assms, of l row b b' LOAD_CHUNK 0]
  by (simp add: load_file_def open_file_def LOAD_CHUNK_def split: sum.splits)

theorem load_file_lines_witness:
  "load_file (\<lambda>l n. Inr (n + length l)) (unlines [''ab'', ''c'']) (0::nat) = Some (Inr (2, 3)) \<and>
   load_file (\<lambda>l n. Inr (n + length l)) (unlines [''ab''] @ ''c'') (0::nat) = Some (Inl Io_failure)"
  using load_file_lines [of "[''ab'', ''c'']" "\<lambda>l n. Inr (n + length l)" "0::nat"]
    load_file_lines [of "[''ab'']" "\<lambda>l n. Inr (n + length l)" "0::nat" "''c''" 3]
  by (simp add: LOAD_CHUNK_def)

end
