(* ===== verification/Phone_Mapping.thy ===== *)
theory Phone_Mapping
  imports Csv "HOL-Library.Product_Lexorder" "HOL-Library.Multiset"
begin

text \<open>
  The in-memory database of \<^verbatim>\<open>callfwd/PhoneMapping.cpp\<close>: the rows of a builder, the index that \<^verbatim>\<open>Data::build\<close> makes of them, the
  batched lookup \<^verbatim>\<open>getRNs\<close> and the two cursors, of \<^verbatim>\<open>visitRows\<close> and of \<^verbatim>\<open>inverseRNs\<close>.

  The dictionary is a \<^verbatim>\<open>folly::F14ValueMap\<close>, which is not part of this repository: it is the argument \<open>F\<close> of the definitions, a
  record of the operations that are used, and \<open>f14_laws\<close> states the behaviour its documentation promises. The rows of the two
  columns are bit fields of 34 and 30 bits, so they are words of these widths. An array access outside a vector is the value
  \<open>None\<close>; so is a loop that does not end.
\<close>

section \<open>The data\<close>

record ('d, 'k, 'v) f14_map =
  f14_empty :: 'd
  f14_find :: "'d \<Rightarrow> 'k \<Rightarrow> 'v option"
  f14_emplace :: "'d \<Rightarrow> 'k \<Rightarrow> 'v \<Rightarrow> 'd"

definition f14_laws :: "('d, 'k, 'v) f14_map \<Rightarrow> bool" where
  "f14_laws F \<longleftrightarrow> (\<forall>k. f14_find F (f14_empty F) k = None) \<and>
     (\<forall>d k v k'. f14_find F (f14_emplace F d k v) k' = (if k' = k \<and> f14_find F d k = None then Some v else f14_find F d k'))"

record phone_list =
  pl_phone :: "34 word"
  pl_next :: "30 word"

definition MAXROWS :: nat where
  "MAXROWS = 2 ^ 30 - 1"

definition NONE :: "64 word" where
  "NONE = - 1"

record 'd phone_data =
  pd_dict :: 'd
  pd_pnColumn :: "phone_list list"
  pd_rnIndex :: "phone_list list"

type_synonym 'd phone_map = "('d, 64 word, 64 word) f14_map"

section \<open>Looking up numbers\<close>

definition find_rn :: "'d phone_map \<Rightarrow> 'd phone_data \<Rightarrow> 64 word \<Rightarrow> 64 word" where
  "find_rn F d pn = (case f14_find F (pd_dict d) pn of Some rn \<Rightarrow> rn | None \<Rightarrow> NONE)"

text \<open>The keys are looked up in batches of \<open>pf\<close> = \<^verbatim>\<open>FLAGS_f14map_prefetch\<close>; the loop does not end when that flag is zero.\<close>

partial_function (option) getRNs :: "'d phone_map \<Rightarrow> nat \<Rightarrow> 'd phone_data \<Rightarrow> 64 word list \<Rightarrow> 64 word list option" where
  "getRNs F pf d pn =
     (if pn = [] then Some []
      else (let M = min (length pn) pf
            in Option.bind (getRNs F pf d (drop M pn)) (\<lambda>rest. Some (map (find_rn F d) (take M pn) @ rest))))"

lemmas [code] = getRNs.simps

definition getRN :: "'d phone_map \<Rightarrow> nat \<Rightarrow> 'd phone_data \<Rightarrow> 64 word \<Rightarrow> 64 word option" where
  "getRN F pf d pn = map_option hd (getRNs F pf d [pn])"

section \<open>Building the index\<close>

definition empty_data :: "'d phone_map \<Rightarrow> 'd phone_data" where
  "empty_data F = \<lparr>pd_dict = f14_empty F, pd_pnColumn = [], pd_rnIndex = []\<rparr>"

definition addRow :: "'d phone_map \<Rightarrow> 'd phone_data \<Rightarrow> 64 word \<Rightarrow> 64 word \<Rightarrow> load_error + 'd phone_data" where
  "addRow F d pn rn =
     (if f14_find F (pd_dict d) pn \<noteq> None then Inl Duplicate_key
      else if length (pd_pnColumn d) \<ge> MAXROWS then Inl Too_much_rows
      else Inr \<lparr>pd_dict = f14_emplace F (pd_dict d) pn rn,
                pd_pnColumn = pd_pnColumn d @ [\<lparr>pl_phone = ucast pn, pl_next = of_nat MAXROWS\<rparr>],
                pd_rnIndex = pd_rnIndex d @ [\<lparr>pl_phone = ucast rn, pl_next = of_nat MAXROWS\<rparr>]\<rparr>)"

definition number_rows :: "nat \<Rightarrow> phone_list list \<Rightarrow> phone_list list" where
  "number_rows N rn = fold (\<lambda>i r. r[i := (r ! i)\<lparr>pl_next := of_nat i\<rparr>]) [0..<N] rn"

definition sort_rows :: "phone_list list \<Rightarrow> phone_list list" where
  "sort_rows = sort_key (\<lambda>x. (pl_phone x, pl_next x))"

definition wire_rows :: "nat \<Rightarrow> phone_list list \<Rightarrow> phone_list list \<Rightarrow> phone_list list" where
  "wire_rows N rn col = fold (\<lambda>i c. c[unat (pl_next (rn ! i)) := (c ! unat (pl_next (rn ! i)))\<lparr>pl_next := pl_next (rn ! (i + 1))\<rparr>])
     [0..<N - 1] col"

text \<open>\<^verbatim>\<open>std::unique\<close> keeps the first row of every run of equal numbers.\<close>

fun unique_rows :: "phone_list list \<Rightarrow> phone_list list" where
  "unique_rows (x # y # zs) = (if pl_phone x = pl_phone y then unique_rows (x # zs) else x # unique_rows (y # zs))"
| "unique_rows xs = xs"

definition build :: "'d phone_data \<Rightarrow> 'd phone_data" where
  "build d =
     (let N = length (pd_pnColumn d);
          rn = sort_rows (number_rows N (pd_rnIndex d))
      in d\<lparr>pd_pnColumn := wire_rows N rn (pd_pnColumn d), pd_rnIndex := unique_rows rn\<rparr>)"

section \<open>Cursors\<close>

text \<open>
  The arrays \<^verbatim>\<open>pn_\<close> and \<^verbatim>\<open>rn_\<close> of a cursor are given by their first \<^verbatim>\<open>size_\<close> elements. \<open>Inverse it e\<close> follows the list of rows from
  \<open>it\<close> to \<open>e\<close>, \<open>Rows it e\<close> walks over the column.
\<close>

datatype visitor = Inverse nat nat | Rows nat nat

record cursor =
  cu_visitor :: visitor
  cu_pn :: "64 word list"
  cu_rn :: "64 word list"
  cu_pos :: nat

definition PREFETCH :: nat where
  "PREFETCH = 8"

primrec refill_inverse :: "phone_list list \<Rightarrow> nat \<Rightarrow> nat \<Rightarrow> nat \<Rightarrow> (64 word list \<times> nat) option" where
  "refill_inverse col 0 it e = Some ([], it)"
| "refill_inverse col (Suc n) it e =
     (if it = e then Some ([], it)
      else if it < length col then do {
        (ps, it') \<leftarrow> refill_inverse col n (unat (pl_next (col ! it))) e;
        Some (ucast (pl_phone (col ! it)) # ps, it') }
      else None)"

primrec refill_rows :: "phone_list list \<Rightarrow> nat \<Rightarrow> nat \<Rightarrow> nat \<Rightarrow> (64 word list \<times> nat) option" where
  "refill_rows col 0 it e = Some ([], it)"
| "refill_rows col (Suc n) it e =
     (if it = e then Some ([], it)
      else if it < length col then do {
        (ps, it') \<leftarrow> refill_rows col n (it + 1) e;
        Some (ucast (pl_phone (col ! it)) # ps, it') }
      else None)"

definition refill :: "phone_list list \<Rightarrow> visitor \<Rightarrow> (64 word list \<times> visitor) option" where
  "refill col v = (case v of
       Inverse it e \<Rightarrow> map_option (\<lambda>(ps, it'). (ps, Inverse it' e)) (refill_inverse col PREFETCH it e)
     | Rows it e \<Rightarrow> map_option (\<lambda>(ps, it'). (ps, Rows it' e)) (refill_rows col PREFETCH it e))"

definition prefetch :: "'d phone_map \<Rightarrow> nat \<Rightarrow> 'd phone_data \<Rightarrow> visitor \<Rightarrow> cursor option" where
  "prefetch F pf d v = do {
     (ps, v') \<leftarrow> refill (pd_pnColumn d) v;
     rs \<leftarrow> getRNs F pf d ps;
     Some \<lparr>cu_visitor = v', cu_pn = ps, cu_rn = rs, cu_pos = 0\<rparr> }"

definition advance_cursor :: "'d phone_map \<Rightarrow> nat \<Rightarrow> 'd phone_data \<Rightarrow> cursor \<Rightarrow> cursor option" where
  "advance_cursor F pf d c =
     (let c1 = c\<lparr>cu_pos := cu_pos c + 1\<rparr>
      in if cu_pos c1 = length (cu_pn c1) then prefetch F pf d (cu_visitor c1) else Some c1)"

text \<open>\<^verbatim>\<open>std::lower_bound\<close>: the end of the longest prefix of smaller elements.\<close>

definition lower_bound :: "phone_list list \<Rightarrow> nat \<Rightarrow> 34 word \<Rightarrow> nat" where
  "lower_bound xs b v = b + length (takeWhile (\<lambda>x. pl_phone x < v) (drop b xs))"

definition index_at :: "phone_list list \<Rightarrow> nat \<Rightarrow> nat" where
  "index_at rn i = (if i = length rn then MAXROWS else unat (pl_next (rn ! i)))"

definition inverseRNs :: "'d phone_map \<Rightarrow> nat \<Rightarrow> 'd phone_data \<Rightarrow> 64 word \<Rightarrow> 64 word \<Rightarrow> cursor option option" where
  "inverseRNs F pf d fromRN toRN =
     (let rn = pd_rnIndex d;
          rnLeft = lower_bound rn 0 (ucast fromRN);
          rnRight = lower_bound rn rnLeft (ucast toRN);
          pnBegin = index_at rn rnLeft;
          pnEnd = index_at rn rnRight
      in if pnBegin \<noteq> pnEnd then map_option Some (prefetch F pf d (Inverse pnBegin pnEnd)) else Some None)"

definition visitRows :: "'d phone_map \<Rightarrow> nat \<Rightarrow> 'd phone_data \<Rightarrow> cursor option option" where
  "visitRows F pf d =
     (if length (pd_pnColumn d) > 0 then map_option Some (prefetch F pf d (Rows 0 (length (pd_pnColumn d)))) else Some None)"

text \<open>\<^verbatim>\<open>PhoneMapping::advance\<close> drops a cursor without rows; \<open>None\<close> inside is the null cursor, and \<^verbatim>\<open>hasRow\<close> tests for it.\<close>

definition advance :: "'d phone_map \<Rightarrow> nat \<Rightarrow> 'd phone_data \<Rightarrow> cursor \<Rightarrow> cursor option option" where
  "advance F pf d c = do {
     c' \<leftarrow> advance_cursor F pf d c;
     Some (if length (cu_pn c') \<noteq> 0 then Some c' else None) }"

definition currentRow :: "cursor \<Rightarrow> (64 word \<times> 64 word) option" where
  "currentRow c = (if cu_pos c < length (cu_pn c) \<and> cu_pos c < length (cu_rn c)
     then Some (cu_pn c ! cu_pos c, cu_rn c ! cu_pos c) else None)"

text \<open>The loop \<^verbatim>\<open>for (; db.hasRow(); db.advance())\<close> of the clients, which reads the current row in every turn.\<close>

partial_function (option) all_rows :: "'d phone_map \<Rightarrow> nat \<Rightarrow> 'd phone_data \<Rightarrow> cursor option \<Rightarrow> (64 word \<times> 64 word) list option" where
  "all_rows F pf d cu = (case cu of
       None \<Rightarrow> Some []
     | Some c \<Rightarrow> do { row \<leftarrow> currentRow c; cu' \<leftarrow> advance F pf d c; rest \<leftarrow> all_rows F pf d cu'; Some (row # rest) })"

lemmas [code] = all_rows.simps

section \<open>Loading\<close>

text \<open>
  A line of the CSV file; \<open>split\<close> is \<^verbatim>\<open>folly::split\<close> into a vector of 64-bit numbers, with \<open>None\<close> for its conversion error.
\<close>

definition phone_row :: "(char list \<Rightarrow> 64 word list option) \<Rightarrow> 'd phone_map \<Rightarrow> char list \<Rightarrow> 'd phone_data \<Rightarrow> load_error + 'd phone_data" where
  "phone_row split F linebuf d = (case split linebuf of
       None \<Rightarrow> Inl Conversion_error
     | Some rowbuf \<Rightarrow> if length rowbuf = 2 then addRow F d (rowbuf ! 0) (rowbuf ! 1) else Inl Bad_number_of_columns)"

definition fromCSV :: "(char list \<Rightarrow> 64 word list option) \<Rightarrow> 'd phone_map \<Rightarrow> istream \<Rightarrow> nat \<Rightarrow> nat \<Rightarrow> 'd phone_data
    \<Rightarrow> load_error + (istream \<times> nat \<times> 'd phone_data)" where
  "fromCSV split F s line limit d = csv_loop (phone_row split F) limit s line d"

text \<open>\<^verbatim>\<open>commit\<close> publishes the built index; the builder is left empty.\<close>

definition commit :: "'d phone_map \<Rightarrow> 'd phone_data \<Rightarrow> 'd phone_data option \<Rightarrow> 'd phone_data \<times> 'd phone_data option" where
  "commit F d global = (empty_data F, Some (build d))"

record 'd mappings =
  mappingUS :: "'d phone_data option"
  mappingCA :: "'d phone_data option"

definition isAvailable :: "('d, 'z) mappings_scheme \<Rightarrow> bool" where
  "isAvailable g \<longleftrightarrow> mappingUS g \<noteq> None \<and> mappingCA g \<noteq> None"

text \<open>\<^verbatim>\<open>loadMappingFile\<close>: the country chooses the global that is replaced; a failure leaves both as they were.\<close>

definition loadMappingFile :: "(char list \<Rightarrow> 64 word list option) \<Rightarrow> 'd phone_map \<Rightarrow> char list \<Rightarrow> char list \<Rightarrow> ('d, 'z) mappings_scheme
    \<Rightarrow> (bool \<times> ('d, 'z) mappings_scheme) option" where
  "loadMappingFile split F country t g =
     map_option (\<lambda>r. case r of
       Inl e \<Rightarrow> (False, g)
     | Inr (nrows, d) \<Rightarrow>
         (True, if country = ''CA'' then g\<lparr>mappingCA := snd (commit F d (mappingCA g))\<rparr> else g\<lparr>mappingUS := snd (commit F d (mappingUS g))\<rparr>))
     (load_file (phone_row split F) t (empty_data F))"

end
