(* ===== verification/Phone_Query.thy ===== *)
theory Phone_Query
  imports Phone_Mapping
begin

text \<open>
  The database refines a list of rows: looking up a number is \<open>map_of\<close>, walking over the rows gives the list back, and the inverse query
  over the index gives the rows of a range of routing numbers, ordered by routing number and then by insertion. The locale
  \<open>row_walk\<close> is the contract between a cursor and its visitor; it is interpreted for both visitors.
\<close>

section \<open>Rows of a builder\<close>

fun add_rows :: "'d phone_map \<Rightarrow> 'd phone_data \<Rightarrow> (64 word \<times> 64 word) list \<Rightarrow> load_error + 'd phone_data" where
  "add_rows F d [] = Inr d"
| "add_rows F d ((pn, rn) # rs) = (case addRow F d pn rn of Inl e \<Rightarrow> Inl e | Inr d' \<Rightarrow> add_rows F d' rs)"

definition row_at :: "64 word \<Rightarrow> phone_list" where
  "row_at n = \<lparr>pl_phone = ucast n, pl_next = of_nat MAXROWS\<rparr>"

lemma f14_lawsD:
  assumes "f14_laws F"
  shows "f14_find F (f14_empty F) k = None"
    and "f14_find F (f14_emplace F d k v) k' = (if k' = k \<and> f14_find F d k = None then Some v else f14_find F d k')"
  using assms by (simp_all add: f14_laws_def)

lemma add_rows_data:
  assumes "f14_laws F" and "add_rows F d rs = Inr d'" and "length (pd_pnColumn d) \<le> MAXROWS"
  shows "pd_pnColumn d' = pd_pnColumn d @ map (row_at \<circ> fst) rs \<and> pd_rnIndex d' = pd_rnIndex d @ map (row_at \<circ> snd) rs \<and>
    length (pd_pnColumn d') \<le> MAXROWS \<and> distinct (map fst rs) \<and> (\<forall>k \<in> fst ` set rs. f14_find F (pd_dict d) k = None) \<and>
    (\<forall>k. f14_find F (pd_dict d') k = (case map_of rs k of Some v \<Rightarrow> Some v | None \<Rightarrow> f14_find F (pd_dict d) k))"
  using assms(2,3)
proof (induction rs arbitrary: d)
  case (Cons r rs)
  obtain pn rn where r: "r = (pn, rn)" by (cases r)
  let ?d = "\<lparr>pd_dict = f14_emplace F (pd_dict d) pn rn, pd_pnColumn = pd_pnColumn d @ [row_at pn], pd_rnIndex = pd_rnIndex d @ [row_at rn]\<rparr>"
  have add: "addRow F d pn rn = Inr ?d" "f14_find F (pd_dict d) pn = None" and len: "length (pd_pnColumn ?d) \<le> MAXROWS"
    using Cons.prems r by (auto simp: addRow_def row_at_def split: if_splits)
  then have "add_rows F ?d rs = Inr d'" using Cons.prems(1) r by simp
  note IH = Cons.IH [OF this len]
  have find: "f14_find F (pd_dict ?d) k = (if k = pn then Some rn else f14_find F (pd_dict d) k)" for k
    using f14_lawsD(2) [OF assms(1), of "pd_dict d" pn rn k] add(2) by simp
  have new: "k \<noteq> pn \<and> f14_find F (pd_dict d) k = None" if "k \<in> fst ` set rs" for k
    using IH that find [of k] by (auto split: if_splits)
  then have "map_of rs pn = None" by (auto simp: map_of_eq_None_iff)
  with IH find new add(2) show ?case unfolding r by (auto simp: find split: option.splits)
qed simp

lemma add_rows_append: "add_rows F d (rs @ ss) = (case add_rows F d rs of Inl e \<Rightarrow> Inl e | Inr d' \<Rightarrow> add_rows F d' ss)"
  by (induction rs arbitrary: d) (auto split: sum.splits)

lemma add_rows_iff:
  assumes "f14_laws F" and "length (pd_pnColumn d) \<le> MAXROWS"
  shows "(\<exists>d'. add_rows F d rs = Inr d') \<longleftrightarrow>
    distinct (map fst rs) \<and> (\<forall>k \<in> fst ` set rs. f14_find F (pd_dict d) k = None) \<and> length (pd_pnColumn d) + length rs \<le> MAXROWS"
  using assms(2)
proof (induction rs arbitrary: d)
  case (Cons r rs)
  obtain pn rn where r: "r = (pn, rn)" by (cases r)
  show ?case
  proof (cases "f14_find F (pd_dict d) pn = None \<and> length (pd_pnColumn d) < MAXROWS")
    case True
    let ?d = "\<lparr>pd_dict = f14_emplace F (pd_dict d) pn rn, pd_pnColumn = pd_pnColumn d @ [row_at pn], pd_rnIndex = pd_rnIndex d @ [row_at rn]\<rparr>"
    have "addRow F d pn rn = Inr ?d" using True by (simp add: addRow_def row_at_def)
    then show ?thesis
      using Cons.IH [of ?d] True r f14_lawsD(2) [OF assms(1), of "pd_dict d" pn rn] by auto
  qed (use r in \<open>auto simp: addRow_def\<close>)
qed simp

text \<open>A dictionary: the partial functions of the logic.\<close>

definition map_f14 :: "('k \<Rightarrow> 'v option, 'k, 'v) f14_map" where
  "map_f14 = \<lparr>f14_empty = (\<lambda>_. None), f14_find = (\<lambda>d. d), f14_emplace = (\<lambda>d k v. if d k = None then d(k \<mapsto> v) else d)\<rparr>"

lemma map_f14_laws: "f14_laws map_f14"
  by (auto simp: f14_laws_def map_f14_def)

lemma sample_rows: "\<exists>d. add_rows map_f14 (empty_data map_f14) [(2025550100, 2025559999), (9, 7)] = Inr d"
  using add_rows_iff [OF map_f14_laws, of "empty_data map_f14" "[(2025550100, 2025559999), (9, 7)]"]
  by (simp add: empty_data_def MAXROWS_def map_f14_def)

section \<open>Batched lookup\<close>

lemma getRNs_eq: "0 < pf \<Longrightarrow> getRNs F pf d pns = Some (map (find_rn F d) pns)"
proof (induction "length pns" arbitrary: pns rule: less_induct)
  case less
  show ?case
  proof (cases "pns = []")
    case False
    let ?M = "min (length pns) pf"
    have "length (drop ?M pns) < length pns" using False less.prems by simp
    from less.hyps [OF this less.prems] show ?thesis
      using False by (subst getRNs.simps) (simp add: Let_def flip: map_append)
  qed (simp add: getRNs.simps)
qed

section \<open>Walking with a cursor\<close>

locale row_walk =
  fixes F :: "'d phone_map" and pf :: nat and d :: "'d phone_data"
    and todo :: "visitor \<Rightarrow> 64 word list \<Rightarrow> bool"
  assumes refill_todo: "todo v xs \<Longrightarrow> \<exists>v'. refill (pd_pnColumn d) v = Some (take PREFETCH xs, v') \<and> todo v' (drop PREFETCH xs)"
    and batch: "0 < pf"
begin

definition with_rn :: "64 word list \<Rightarrow> (64 word \<times> 64 word) list" where
  "with_rn = map (\<lambda>p. (p, find_rn F d p))"

lemma prefetch_todo:
  assumes "todo v xs"
  shows "\<exists>v'. prefetch F pf d v = Some \<lparr>cu_visitor = v', cu_pn = take PREFETCH xs, cu_rn = map (find_rn F d) (take PREFETCH xs), cu_pos = 0\<rparr> \<and>
    todo v' (drop PREFETCH xs)"
  using refill_todo [OF assms] by (auto simp: prefetch_def getRNs_eq [OF batch])

lemma all_rows_todo:
  assumes "cu_rn c = map (find_rn F d) (cu_pn c)" and "cu_pos c < length (cu_pn c)" and "todo (cu_visitor c) xs"
  shows "all_rows F pf d (Some c) = Some (with_rn (drop (cu_pos c) (cu_pn c) @ xs))"
  using assms
proof (induction "length (drop (cu_pos c) (cu_pn c) @ xs)" arbitrary: c xs rule: less_induct)
  case less
  let ?p = "cu_pos c" let ?ps = "cu_pn c"
  have row: "currentRow c = Some (?ps ! ?p, find_rn F d (?ps ! ?p))" using less.prems by (simp add: currentRow_def)
  have split: "drop ?p ?ps = ?ps ! ?p # drop (Suc ?p) ?ps" using less.prems(2) by (simp add: Cons_nth_drop_Suc)
  show ?case
  proof (cases "Suc ?p = length ?ps")
    case False
    let ?c = "c\<lparr>cu_pos := Suc ?p\<rparr>"
    have "advance F pf d c = Some (Some ?c)" using False less.prems(2) by (auto simp: advance_def advance_cursor_def Let_def)
    moreover have "all_rows F pf d (Some ?c) = Some (with_rn (drop (cu_pos ?c) (cu_pn ?c) @ xs))"
      using less.prems False by (intro less.hyps) (simp_all add: split)
    ultimately show ?thesis using row split by (subst all_rows.simps) (simp add: with_rn_def)
  next
    case True
    obtain v where v: "prefetch F pf d (cu_visitor c) =
        Some \<lparr>cu_visitor = v, cu_pn = take PREFETCH xs, cu_rn = map (find_rn F d) (take PREFETCH xs), cu_pos = 0\<rparr>" "todo v (drop PREFETCH xs)"
      using prefetch_todo [OF less.prems(3)] by blast
    let ?c = "\<lparr>cu_visitor = v, cu_pn = take PREFETCH xs, cu_rn = map (find_rn F d) (take PREFETCH xs), cu_pos = 0\<rparr>"
    have last: "drop ?p ?ps = [?ps ! ?p]" using split True by simp
    have adv: "advance F pf d c = Some (if xs = [] then None else Some ?c)"
      using v(1) True by (simp add: advance_def advance_cursor_def PREFETCH_def Let_def)
    show ?thesis
    proof (cases "xs = []")
      case True
      then have "all_rows F pf d None = Some []" by (simp add: all_rows.simps)
      with True adv row last show ?thesis by (subst all_rows.simps) (simp add: with_rn_def)
    next
      case False
      have "all_rows F pf d (Some ?c) = Some (with_rn (drop (cu_pos ?c) (cu_pn ?c) @ drop PREFETCH xs))"
        using v(2) False last by (intro less.hyps) (simp_all add: PREFETCH_def)
      then show ?thesis using False adv row last by (subst all_rows.simps) (simp add: with_rn_def flip: map_append)
    qed
  qed
qed

lemma walk_rows:
  assumes "todo v xs" and "xs \<noteq> []"
  shows "\<exists>c. prefetch F pf d v = Some c \<and> all_rows F pf d (Some c) = Some (with_rn xs)"
proof -
  obtain v' where v': "prefetch F pf d v =
      Some \<lparr>cu_visitor = v', cu_pn = take PREFETCH xs, cu_rn = map (find_rn F d) (take PREFETCH xs), cu_pos = 0\<rparr>" "todo v' (drop PREFETCH xs)"
    using prefetch_todo [OF assms(1)] by blast
  let ?c = "\<lparr>cu_visitor = v', cu_pn = take PREFETCH xs, cu_rn = map (find_rn F d) (take PREFETCH xs), cu_pos = 0\<rparr>"
  have "all_rows F pf d (Some ?c) = Some (with_rn (drop (cu_pos ?c) (cu_pn ?c) @ drop PREFETCH xs))"
    using v'(2) assms(2) by (intro all_rows_todo) (simp_all add: PREFETCH_def)
  with v'(1) show ?thesis by simp
qed

end

section \<open>Generic facts about sorted lists\<close>

lemma insort_key_map: "insort_key f (g x) (map g xs) = map g (insort_key (f \<circ> g) x xs)"
  by (induction xs) simp_all

lemma sort_key_map: "sort_key f (map g xs) = map g (sort_key (f \<circ> g) xs)"
  by (induction xs) (simp_all add: insort_key_map comp_def)

lemma range_of_sorted:
  fixes f :: "'a \<Rightarrow> 'b::linorder"
  assumes "sorted (map f xs)"
  shows "takeWhile (\<lambda>x. f x < b) (dropWhile (\<lambda>x. f x < a) xs) = filter (\<lambda>x. a \<le> f x \<and> f x < b) xs"
  using assms
proof (induction xs)
  case (Cons x xs)
  show ?case
  proof (cases "f x < a")
    case False
    have "takeWhile (\<lambda>x. f x < b) ys = filter (\<lambda>x. a \<le> f x \<and> f x < b) ys" if "sorted (map f ys)" "\<forall>y \<in> set ys. a \<le> f y" for ys
      using that
    proof (induction ys)
      case (Cons y ys)
      show ?case
      proof (cases "f y < b")
        case False
        then have "filter (\<lambda>x. a \<le> f x \<and> f x < b) (y # ys) = []" using Cons.prems(1) by (force simp: filter_empty_conv)
        with False show ?thesis by simp
      qed (use Cons in auto)
    qed simp
    from this [of "x # xs"] False Cons.prems show ?thesis by force
  qed (use Cons in auto)
qed simp

section \<open>The index\<close>

lemma length_fold_update: "length (fold (\<lambda>i r. r[f i := g i r]) is r) = length r"
  by (induction "is" arbitrary: r) simp_all

lemma number_rows_nth:
  assumes "k \<le> length rn"
  shows "fold (\<lambda>i r. r[i := (r ! i)\<lparr>pl_next := of_nat i\<rparr>]) [0..<k] rn =
    map (\<lambda>i. if i < k then (rn ! i)\<lparr>pl_next := of_nat i\<rparr> else rn ! i) [0..<length rn]"
  using assms
proof (induction k)
  case 0
  then show ?case by (simp add: map_nth)
next
  case (Suc k)
  then show ?case by (auto intro!: nth_equalityI simp: nth_list_update)
qed

definition node :: "nat list \<Rightarrow> nat \<Rightarrow> nat" where
  "node S j = (if j < length S then S ! j else MAXROWS)"

lemma wire_rows_nth:
  assumes S: "distinct S" "\<And>i. i \<in> set S \<Longrightarrow> i < length col" and k: "k < length S"
    and R: "\<And>j. j < length S \<Longrightarrow> unat (pl_next (R ! j)) = S ! j" and j: "j < length S"
  shows "fold (\<lambda>i c. c[unat (pl_next (R ! i)) := (c ! unat (pl_next (R ! i)))\<lparr>pl_next := pl_next (R ! (i + 1))\<rparr>]) [0..<k] col ! (S ! j) =
    (if j < k then (col ! (S ! j))\<lparr>pl_next := pl_next (R ! (j + 1))\<rparr> else col ! (S ! j))"
  using k
proof (induction k)
  case (Suc k)
  have "S ! k < length col" using S(2) Suc.prems by simp
  moreover have "S ! k = S ! j \<longleftrightarrow> j = k" using S(1) j Suc.prems by (auto simp: nth_eq_iff_index_eq)
  ultimately show ?case
    using Suc R [of k] by (auto simp: nth_list_update length_fold_update)
qed simp

lemma node_inj: "(\<And>i. i \<in> set S \<Longrightarrow> i < MAXROWS) \<Longrightarrow> distinct S \<Longrightarrow> i \<le> length S \<Longrightarrow> j \<le> length S \<Longrightarrow> node S i = node S j \<longleftrightarrow> i = j"
  unfolding node_def by (metis nat_neq_iff not_less nth_eq_iff_index_eq nth_mem)

lemma unat_row: "i < MAXROWS \<Longrightarrow> unat (of_nat i :: 30 word) = i" "unat (of_nat MAXROWS :: 30 word) = MAXROWS"
  by (simp_all add: unat_of_nat MAXROWS_def)

lemma refill_chain:
  assumes S: "distinct S" "\<And>i. i \<in> set S \<Longrightarrow> i < MAXROWS \<and> i < length col"
    and wired: "\<And>j. j < length S \<Longrightarrow> unat (pl_next (col ! (S ! j))) = node S (j + 1)" and "j \<le> k" and "k \<le> length S"
  shows "refill_inverse col n (node S j) (node S k) =
    Some (map (\<lambda>i. ucast (pl_phone (col ! i))) (take n (drop j (take k S))), node S (min (j + n) k))"
  using assms(4)
proof (induction n arbitrary: j)
  case (Suc n)
  have inj: "node S j = node S k \<longleftrightarrow> j = k" using node_inj [OF _ S(1), of j k] S(2) Suc.prems assms(5) by simp
  show ?case
  proof (cases "j = k")
    case False
    then have jk: "j < k" "j < length S" using Suc.prems assms(5) by simp_all
    then have d: "drop j (take k S) = S ! j # drop (Suc j) (take k S)" using assms(5) by (simp add: Cons_nth_drop_Suc [symmetric])
    have nj: "node S j = S ! j" "S ! j < length col" using jk S(2) by (simp_all add: node_def)
    have "refill_inverse col n (node S (j + 1)) (node S k) =
        Some (map (\<lambda>i. ucast (pl_phone (col ! i))) (take n (drop (j + 1) (take k S))), node S (min (j + 1 + n) k))"
      using jk by (intro Suc.IH) simp
    then show ?thesis using False inj nj wired [OF jk(2)] d by simp
  qed (simp add: min_def)
qed (use assms in simp)

text \<open>\<^verbatim>\<open>std::unique\<close> and the binary searches: the first row of a group is the first row of its number in the whole list.\<close>

lemma unique_rows_hd: "xs \<noteq> [] \<Longrightarrow> unique_rows xs \<noteq> [] \<and> hd (unique_rows xs) = hd xs"
  by (induction xs rule: unique_rows.induct) auto

lemma unique_rows_dropWhile:
  assumes "\<And>x y. pl_phone x = pl_phone y \<Longrightarrow> P x = P y"
  shows "dropWhile P (unique_rows xs) = unique_rows (dropWhile P xs)"
proof (induction xs rule: unique_rows.induct)
  case (1 x y zs)
  show ?case
  proof (cases "P x")
    case False
    let ?u = "unique_rows (x # y # zs)"
    have "?u \<noteq> []" "hd ?u = x" using unique_rows_hd [of "x # y # zs"] by (simp_all del: unique_rows.simps)
    then have "dropWhile P ?u = ?u" using False by (cases ?u) (simp_all del: unique_rows.simps)
    with False show ?thesis by simp
  qed (use 1 assms [of x y] in auto)
qed simp_all

definition first_next :: "phone_list list \<Rightarrow> nat" where
  "first_next xs = (case xs of [] \<Rightarrow> MAXROWS | x # _ \<Rightarrow> unat (pl_next x))"

lemma first_next_unique: "first_next (unique_rows xs) = first_next xs"
  using unique_rows_hd [of xs] by (cases xs; cases "unique_rows xs") (auto simp: first_next_def)

lemma drop_lower_bound: "drop (lower_bound xs b v) xs = dropWhile (\<lambda>x. pl_phone x < v) (drop b xs)"
  by (simp add: lower_bound_def dropWhile_eq_drop add.commute)

lemma lower_bound_le: "b \<le> length xs \<Longrightarrow> lower_bound xs b v \<le> length xs"
  using length_takeWhile_le [of "\<lambda>x. pl_phone x < v" "drop b xs"] by (simp add: lower_bound_def)

lemma index_at_drop: "i \<le> length rn \<Longrightarrow> index_at rn i = first_next (drop i rn)"
  by (cases "i = length rn") (simp_all add: index_at_def first_next_def flip: Cons_nth_drop_Suc)

lemma inverse_bounds:
  fixes rn :: "phone_list list" and a b :: "34 word"
  defines "l \<equiv> lower_bound (unique_rows rn) 0 a"
  shows "index_at (unique_rows rn) l = first_next (dropWhile (\<lambda>x. pl_phone x < a) rn)"
    and "index_at (unique_rows rn) (lower_bound (unique_rows rn) l b) =
      first_next (dropWhile (\<lambda>x. pl_phone x < b) (dropWhile (\<lambda>x. pl_phone x < a) rn))"
proof -
  have l: "l \<le> length (unique_rows rn)" by (simp add: l_def lower_bound_le)
  have dl: "drop l (unique_rows rn) = unique_rows (dropWhile (\<lambda>x. pl_phone x < a) rn)"
    unfolding l_def drop_lower_bound by (simp add: unique_rows_dropWhile)
  show "index_at (unique_rows rn) l = first_next (dropWhile (\<lambda>x. pl_phone x < a) rn)"
    using index_at_drop [OF l] dl by (simp add: first_next_unique)
  show "index_at (unique_rows rn) (lower_bound (unique_rows rn) l b) =
      first_next (dropWhile (\<lambda>x. pl_phone x < b) (dropWhile (\<lambda>x. pl_phone x < a) rn))"
    using index_at_drop [OF lower_bound_le [OF l]] dl by (simp add: drop_lower_bound unique_rows_dropWhile first_next_unique)
qed

text \<open>The order of the rows in the index, and the two columns after \<^verbatim>\<open>build\<close>.\<close>

definition row_order :: "(64 word \<times> 64 word) list \<Rightarrow> nat list" where
  "row_order rs = sort_key (\<lambda>i. (ucast (snd (rs ! i)) :: 34 word, of_nat i :: 30 word)) [0..<length rs]"

definition index_row :: "(64 word \<times> 64 word) list \<Rightarrow> nat \<Rightarrow> phone_list" where
  "index_row rs i = \<lparr>pl_phone = ucast (snd (rs ! i)), pl_next = of_nat i\<rparr>"

lemma row_order_set [simp]: "set (row_order rs) = {..<length rs}" "distinct (row_order rs)" "length (row_order rs) = length rs"
  by (auto simp: row_order_def distinct_sort)

lemma sorted_index: "sort_rows (number_rows (length rs) (map (row_at \<circ> snd) rs)) = map (index_row rs) (row_order rs)"
proof -
  have "number_rows (length rs) (map (row_at \<circ> snd) rs) = map (index_row rs) [0..<length rs]"
    using number_rows_nth [of "length rs" "map (row_at \<circ> snd) rs"]
    by (auto simp: number_rows_def index_row_def row_at_def intro!: nth_equalityI)
  then show ?thesis
    by (simp add: sort_rows_def sort_key_map row_order_def comp_def index_row_def)
qed

lemma unat_ucast_34: "n < 2 ^ 34 \<Longrightarrow> unat (ucast n :: 34 word) = unat n" for n :: "64 word"
  by (simp add: unsigned_ucast_eq take_bit_nat_eq_self word_less_nat_alt)

lemma row_order_stable:
  assumes "length rs \<le> MAXROWS" and "\<And>r. r \<in> set rs \<Longrightarrow> snd r < 2 ^ 34"
  shows "map (\<lambda>i. rs ! i) (row_order rs) = sort_key snd rs"
proof -
  let ?f = "\<lambda>i. snd (rs ! i)" and ?N = "[0..<length rs]"
  let ?g = "\<lambda>i. (ucast (?f i) :: 34 word, of_nat i :: 30 word)"
  have key: "(ucast (?f i) :: 34 word) \<le> ucast (?f j) \<longleftrightarrow> ?f i \<le> ?f j" if "i < length rs" "j < length rs" for i j
    using assms(2) that by (simp add: word_le_nat_alt unat_ucast_34)
  have num: "(of_nat i :: 30 word) \<le> of_nat j" if "i < j" "j < length rs" for i j
    using that assms(1) by (simp add: word_le_nat_alt unat_row)
  have "sort_key ?f ?N = row_order rs"
  proof (rule properties_for_sort_key)
    show "mset (row_order rs) = mset ?N" by (simp add: row_order_def)
    show "filter (\<lambda>x. ?f k = ?f x) (row_order rs) = filter (\<lambda>x. ?f k = ?f x) ?N" for k
    proof -
      have "sorted_wrt (<) (filter (\<lambda>x. ?f k = ?f x) ?N)" by (intro sorted_wrt_filter) simp
      then have "sorted (map ?g (filter (\<lambda>x. ?f k = ?f x) ?N))"
        unfolding sorted_map by (rule sorted_wrt_mono_rel [rotated]) (use num in auto)
      then show ?thesis unfolding row_order_def filter_sort by (rule sort_key_id_if_sorted)
    qed
    have "sorted (map ?g (row_order rs))" unfolding row_order_def by (rule sorted_sort_key)
    then show "sorted (map ?f (row_order rs))"
      unfolding sorted_map by (rule sorted_wrt_mono_rel [rotated]) (use key in \<open>auto simp: less_eq_prod_def dest: order.strict_implies_order\<close>)
  qed
  then have "map (\<lambda>i. rs ! i) (row_order rs) = sort_key snd (map (\<lambda>i. rs ! i) ?N)"
    by (simp add: sort_key_map comp_def)
  then show ?thesis by (simp add: map_nth)
qed

section \<open>The database and its rows\<close>

definition database :: "'d phone_map \<Rightarrow> (64 word \<times> 64 word) list \<Rightarrow> 'd phone_data \<Rightarrow> bool" where
  "database F rs d \<longleftrightarrow> (\<exists>d0. add_rows F (empty_data F) rs = Inr d0 \<and> d = build d0)"

lemma sample_database: "\<exists>d. database map_f14 [(2025550100, 2025559999), (9, 7)] d"
  using sample_rows unfolding database_def by blast

lemma database_data:
  assumes "f14_laws F" and "database F rs d"
  shows "length rs \<le> MAXROWS" and "distinct (map fst rs)" and "find_rn F d pn = (case map_of rs pn of Some rn \<Rightarrow> rn | None \<Rightarrow> NONE)"
    and "pd_rnIndex d = unique_rows (map (index_row rs) (row_order rs))"
    and "pd_pnColumn d = wire_rows (length rs) (map (index_row rs) (row_order rs)) (map (row_at \<circ> fst) rs)"
proof -
  obtain d0 where d0: "add_rows F (empty_data F) rs = Inr d0" "d = build d0" using assms(2) by (auto simp: database_def)
  have e: "length (pd_pnColumn (empty_data F)) \<le> MAXROWS" by (simp add: empty_data_def)
  note data = add_rows_data [OF assms(1) d0(1) e]
  have "f14_find F (pd_dict d) pn = (case map_of rs pn of Some v \<Rightarrow> Some v | None \<Rightarrow> None)"
    using data d0(2) f14_lawsD(1) [OF assms(1)] by (simp add: build_def empty_data_def Let_def split: option.splits)
  then show "find_rn F d pn = (case map_of rs pn of Some rn \<Rightarrow> rn | None \<Rightarrow> NONE)"
    by (simp add: find_rn_def split: option.splits)
  show "length rs \<le> MAXROWS" using data by (auto simp: empty_data_def)
  show "distinct (map fst rs)" using data by simp
  have cols: "pd_pnColumn d0 = map (row_at \<circ> fst) rs" "pd_rnIndex d0 = map (row_at \<circ> snd) rs"
    using data by (simp_all add: empty_data_def)
  then show "pd_rnIndex d = unique_rows (map (index_row rs) (row_order rs))"
      "pd_pnColumn d = wire_rows (length rs) (map (index_row rs) (row_order rs)) (map (row_at \<circ> fst) rs)"
    using sorted_index [of rs] d0(2) by (simp_all add: build_def Let_def)
qed

lemma database_column:
  assumes "f14_laws F" and "database F rs d"
  shows "length (pd_pnColumn d) = length rs" and "i < length rs \<Longrightarrow> pl_phone (pd_pnColumn d ! i) = ucast (fst (rs ! i))"
    and "j < length rs \<Longrightarrow> unat (pl_next (pd_pnColumn d ! (row_order rs ! j))) = node (row_order rs) (j + 1)"
proof -
  let ?S = "row_order rs" and ?R = "map (index_row rs) (row_order rs)" and ?c = "map (row_at \<circ> fst) rs"
  note data = database_data [OF assms]
  show len: "length (pd_pnColumn d) = length rs" by (simp add: data(5) wire_rows_def length_fold_update)
  have S: "i \<in> set ?S \<Longrightarrow> i < length ?c" for i by simp
  have R: "unat (pl_next (?R ! j)) = ?S ! j" if "j < length ?S" for j
  proof -
    have "?S ! j \<in> set ?S" using that by (rule nth_mem)
    then have "?S ! j < MAXROWS" using data(1) by simp
    then show ?thesis using that by (simp add: index_row_def unat_row)
  qed
  have wired: "pd_pnColumn d ! (?S ! j) = (if j < length rs - 1 then (?c ! (?S ! j))\<lparr>pl_next := pl_next (?R ! (j + 1))\<rparr> else ?c ! (?S ! j))"
    if "j < length rs" for j
    unfolding data(5) wire_rows_def using that S R by (intro wire_rows_nth) auto
  show "pl_phone (pd_pnColumn d ! i) = ucast (fst (rs ! i))" if "i < length rs"
  proof -
    have "i \<in> set ?S" using that by simp
    then obtain j where j: "j < length rs" "?S ! j = i" by (metis in_set_conv_nth row_order_set(3))
    then show ?thesis using wired [OF j(1)] that by (simp add: row_at_def)
  qed
  show "unat (pl_next (pd_pnColumn d ! (?S ! j))) = node ?S (j + 1)" if j: "j < length rs"
  proof (cases "j < length rs - 1")
    case True
    then have "j + 1 < length ?S" by simp
    then show ?thesis using wired [OF j] R [of "j + 1"] True by (simp add: node_def)
  next
    case False
    have "?S ! j \<in> set ?S" using j by (intro nth_mem) simp
    moreover have "\<not> Suc j < length rs" using False by simp
    ultimately show ?thesis using wired [OF j] False j by (simp add: node_def row_at_def unat_row)
  qed
qed

text \<open>What is left to visit: for the inverse query a part of the order of the index, for all rows a part of the column.\<close>

definition inverse_todo :: "'d phone_map \<Rightarrow> (64 word \<times> 64 word) list \<Rightarrow> 'd phone_data \<Rightarrow> visitor \<Rightarrow> 64 word list \<Rightarrow> bool" where
  "inverse_todo F rs d v xs \<longleftrightarrow> f14_laws F \<and> database F rs d \<and> (\<exists>j k. j \<le> k \<and> k \<le> length rs \<and>
     v = Inverse (node (row_order rs) j) (node (row_order rs) k) \<and>
     xs = map (\<lambda>i. ucast (pl_phone (pd_pnColumn d ! i))) (drop j (take k (row_order rs))))"

definition rows_todo :: "'d phone_data \<Rightarrow> visitor \<Rightarrow> 64 word list \<Rightarrow> bool" where
  "rows_todo d v xs \<longleftrightarrow> (\<exists>j \<le> length (pd_pnColumn d). v = Rows j (length (pd_pnColumn d)) \<and>
     xs = map (\<lambda>x. ucast (pl_phone x)) (drop j (pd_pnColumn d)))"

lemma refill_rows_eq:
  "j \<le> length col \<Longrightarrow> refill_rows col n j (length col) = Some (map (\<lambda>x. ucast (pl_phone x)) (take n (drop j col)), min (j + n) (length col))"
proof (induction n arbitrary: j)
  case (Suc n)
  show ?case
  proof (cases "j = length col")
    case False
    then have "drop j col = col ! j # drop (Suc j) col" using Suc.prems by (simp add: Cons_nth_drop_Suc)
    then show ?thesis using False Suc by simp
  qed simp
qed simp

lemma inverse_refill:
  assumes "inverse_todo F rs d v xs"
  shows "\<exists>v'. refill (pd_pnColumn d) v = Some (take PREFETCH xs, v') \<and> inverse_todo F rs d v' (drop PREFETCH xs)"
proof -
  let ?S = "row_order rs"
  obtain j k where F: "f14_laws F" "database F rs d" and jk: "j \<le> k" "k \<le> length rs" "v = Inverse (node ?S j) (node ?S k)"
      and xs: "xs = map (\<lambda>i. ucast (pl_phone (pd_pnColumn d ! i))) (drop j (take k ?S))"
    using assms by (auto simp: inverse_todo_def)
  have "refill_inverse (pd_pnColumn d) PREFETCH (node ?S j) (node ?S k) =
      Some (map (\<lambda>i. ucast (pl_phone (pd_pnColumn d ! i))) (take PREFETCH (drop j (take k ?S))), node ?S (min (j + PREFETCH) k))"
    using jk database_column [OF F] database_data(1) [OF F] by (intro refill_chain) auto
  moreover have "drop PREFETCH (drop j (take k ?S)) = drop (min (j + PREFETCH) k) (take k ?S)"
    using jk(2) by (simp add: min_def add.commute)
  then have "inverse_todo F rs d (Inverse (node ?S (min (j + PREFETCH) k)) (node ?S k)) (drop PREFETCH xs)"
    unfolding inverse_todo_def using F jk xs
    by (intro conjI exI [of _ "min (j + PREFETCH) k"] exI [of _ k]) (simp_all add: drop_map)
  ultimately show ?thesis
    using jk(3) xs by (auto simp: refill_def take_map)
qed

lemma rows_refill:
  assumes "rows_todo d v xs"
  shows "\<exists>v'. refill (pd_pnColumn d) v = Some (take PREFETCH xs, v') \<and> rows_todo d v' (drop PREFETCH xs)"
proof -
  obtain j where j: "j \<le> length (pd_pnColumn d)" "v = Rows j (length (pd_pnColumn d))" "xs = map (\<lambda>x. ucast (pl_phone x)) (drop j (pd_pnColumn d))"
    using assms by (auto simp: rows_todo_def)
  have "drop PREFETCH (drop j (pd_pnColumn d)) = drop (min (j + PREFETCH) (length (pd_pnColumn d))) (pd_pnColumn d)"
    by (simp add: min_def add.commute)
  then show ?thesis
    using j refill_rows_eq [OF j(1), of PREFETCH]
    by (auto simp: refill_def rows_todo_def take_map drop_map intro!: exI [of _ "min (j + PREFETCH) (length (pd_pnColumn d))"])
qed

interpretation inverse: row_walk F "Suc pf" d "inverse_todo F rs d" for F :: "'d phone_map" and pf d rs
  by unfold_locales (simp_all add: inverse_refill)

interpretation rows: row_walk F "Suc pf" d "rows_todo d" for F :: "'d phone_map" and pf and d :: "'d phone_data"
  by unfold_locales (simp_all add: rows_refill)

section \<open>The properties\<close>

text \<open>
  C16: the lookup is that of the rows. For a database built from rows that the builder accepted, and any batch size other than
  zero, a lookup of any list of numbers returns, and every answer is the routing number of the row with that number, or
  \<^verbatim>\<open>NONE\<close> when there is none; the rows have different numbers and are fewer than the largest index.
\<close>

theorem getRNs_lookup:
  assumes "f14_laws F" and "database F rs d" and "0 < pf"
  shows "getRNs F pf d pns = Some (map (\<lambda>pn. case map_of rs pn of Some rn \<Rightarrow> rn | None \<Rightarrow> NONE) pns) \<and> distinct (map fst rs) \<and> length rs \<le> MAXROWS"
  using getRNs_eq [OF assms(3), of F d pns] database_data(1-3) [OF assms(1,2)] by simp

theorem getRNs_lookup_witness:
  "\<exists>d. database map_f14 [(2025550100, 2025559999), (9, 7)] d \<and> getRNs map_f14 2 d [9, 8, 2025550100] = Some [7, NONE, 2025559999]"
proof -
  obtain d where d: "database map_f14 [(2025550100, 2025559999), (9, 7)] d" using sample_database by blast
  then show ?thesis using getRNs_lookup [OF map_f14_laws d, of 2 "[9, 8, 2025550100]"] by auto
qed

lemma take_bit_word_eq_self_34: "n < 2 ^ 34 \<Longrightarrow> take_bit 34 n = n" for n :: "64 word"
  by (rule word_unat_eq_iff [THEN iffD2]) (simp add: unsigned_take_bit_eq take_bit_nat_eq_self word_less_nat_alt)

lemma ucast_ucast_34: "n < 2 ^ 34 \<Longrightarrow> ucast (ucast n :: 34 word) = n" for n :: "64 word"
  by (rule word_unat_eq_iff [THEN iffD2]) (simp add: unat_ucast_34 unsigned_ucast_eq take_bit_word_eq_self_34)

lemma with_rn_rows:
  assumes "f14_laws F" and "database F rs d" and "\<And>r. r \<in> set rs \<Longrightarrow> fst r < 2 ^ 34" and "set is \<subseteq> {..<length rs}"
  shows "map (\<lambda>p. (p, find_rn F d p)) (map (\<lambda>i. ucast (pl_phone (pd_pnColumn d ! i))) is) = map (\<lambda>i. rs ! i) is"
proof -
  have "(ucast (pl_phone (pd_pnColumn d ! i)) :: 64 word, find_rn F d (ucast (pl_phone (pd_pnColumn d ! i)))) = rs ! i" if "i < length rs" for i
  proof -
    have "ucast (pl_phone (pd_pnColumn d ! i)) = fst (rs ! i)"
      using database_column(2) [OF assms(1,2) that] assms(3) [of "rs ! i"] that by (simp add: ucast_ucast_34)
    moreover have "map_of rs (fst (rs ! i)) = Some (snd (rs ! i))"
      using database_data(2) [OF assms(1,2)] that by simp
    ultimately show ?thesis using database_data(3) [OF assms(1,2), of "fst (rs ! i)"] by simp
  qed
  with assms(4) show ?thesis by (auto simp: subset_iff)
qed

lemma inverse_part:
  assumes "f14_laws F" and "database F rs d" and "\<forall>r \<in> set rs. fst r < 2 ^ 34 \<and> snd r < 2 ^ 34" and "fromRN < 2 ^ 34" and "toRN < 2 ^ 34"
  shows "\<exists>j k. j \<le> k \<and> k \<le> length rs \<and>
    inverseRNs F pf d fromRN toRN = (if node (row_order rs) j \<noteq> node (row_order rs) k
      then map_option Some (prefetch F pf d (Inverse (node (row_order rs) j) (node (row_order rs) k))) else Some None) \<and>
    map (\<lambda>i. rs ! i) (drop j (take k (row_order rs))) = sort_key snd (filter (\<lambda>r. fromRN \<le> snd r \<and> snd r < toRN) rs)"
proof -
  let ?S = "row_order rs" and ?a = "ucast fromRN :: 34 word" and ?b = "ucast toRN :: 34 word"
  let ?lt = "\<lambda>v i. snd (rs ! i) < v" and ?R = "map (index_row rs) ?S"
  have less: "pl_phone (index_row rs i) < ucast v \<longleftrightarrow> ?lt v i" if "v < 2 ^ 34" "i \<in> set ?S" for v i
    using that assms(3) by (simp add: index_row_def word_less_nat_alt unat_ucast_34)
  define j k where "j = length (takeWhile (?lt fromRN) ?S)" and "k = j + length (takeWhile (?lt toRN) (drop j ?S))"
  have jk: "j \<le> k" "j \<le> length rs" "k \<le> length rs"
    using length_takeWhile_le [of "?lt fromRN" ?S] length_takeWhile_le [of "?lt toRN" "drop j ?S"] by (simp_all add: j_def k_def)
  have dw: "dropWhile (\<lambda>x. pl_phone x < ucast v) (map (index_row rs) xs) = map (index_row rs) (dropWhile (?lt v) xs)"
    if "v < 2 ^ 34" "set xs \<subseteq> set ?S" for v xs
    using less that by (auto simp: dropWhile_map subset_iff intro!: arg_cong [where f = "map (index_row rs)"] dropWhile_cong)
  have first: "first_next (map (index_row rs) (drop i ?S)) = node ?S i" if "i \<le> length rs" for i
  proof (cases "i = length rs")
    case False
    then have "i < length ?S" using that by simp
    then have "drop i ?S = ?S ! i # drop (Suc i) ?S" "?S ! i \<in> set ?S" by (simp_all add: Cons_nth_drop_Suc del: row_order_set)
    moreover from this(2) have "?S ! i < MAXROWS" using database_data(1) [OF assms(1,2)] by simp
    ultimately show ?thesis using False that by (simp add: first_next_def node_def index_row_def unat_row)
  qed (simp add: first_next_def node_def)
  have dj: "dropWhile (\<lambda>x. pl_phone x < ?a) ?R = map (index_row rs) (drop j ?S)"
    using dw [OF assms(4) subset_refl] by (simp add: j_def dropWhile_eq_drop)
  have dk: "dropWhile (\<lambda>x. pl_phone x < ?b) (map (index_row rs) (drop j ?S)) = map (index_row rs) (drop k ?S)"
    using dw [OF assms(5) set_drop_subset] by (simp add: k_def dropWhile_eq_drop add.commute)
  have ends: "inverseRNs F pf d fromRN toRN =
      (if node ?S j \<noteq> node ?S k then map_option Some (prefetch F pf d (Inverse (node ?S j) (node ?S k))) else Some None)"
    using inverse_bounds(1) [of ?R ?a] inverse_bounds(2) [of ?R ?a ?b] database_data(4) [OF assms(1,2)] dj dk first jk by (simp add: inverseRNs_def Let_def)
  let ?rows = "map (\<lambda>i. rs ! i) (drop j (take k ?S))"
  have "drop j (take k ?S) = take (length (takeWhile (?lt toRN) (drop j ?S))) (drop j ?S)" by (simp add: drop_take k_def)
  also have "\<dots> = takeWhile (?lt toRN) (drop j ?S)" by (rule takeWhile_eq_take [symmetric])
  also have "drop j ?S = dropWhile (?lt fromRN) ?S" unfolding j_def by (rule dropWhile_eq_drop [symmetric])
  finally have "drop j (take k ?S) = takeWhile (?lt toRN) (dropWhile (?lt fromRN) ?S)" .
  then have "?rows = takeWhile (\<lambda>r. snd r < toRN) (dropWhile (\<lambda>r. snd r < fromRN) (map (\<lambda>i. rs ! i) ?S))"
    by (simp add: takeWhile_map dropWhile_map comp_def)
  also have "map (\<lambda>i. rs ! i) ?S = sort_key snd rs"
    using row_order_stable [OF database_data(1) [OF assms(1,2)]] assms(3) by blast
  also have "takeWhile (\<lambda>r. snd r < toRN) (dropWhile (\<lambda>r. snd r < fromRN) (sort_key snd rs)) = sort_key snd (filter (\<lambda>r. fromRN \<le> snd r \<and> snd r < toRN) rs)"
    using range_of_sorted [of snd "sort_key snd rs"] by (simp add: filter_sort)
  finally show ?thesis using ends jk by blast
qed

lemma inverseRNs_rows:
  assumes "f14_laws F" and "database F rs d" and "0 < pf" and "\<forall>r \<in> set rs. fst r < 2 ^ 34 \<and> snd r < 2 ^ 34"
    and "fromRN < 2 ^ 34" and "toRN < 2 ^ 34"
  shows "Option.bind (inverseRNs F pf d fromRN toRN) (all_rows F pf d) = Some (sort_key snd (filter (\<lambda>r. fromRN \<le> snd r \<and> snd r < toRN) rs))"
proof -
  let ?S = "row_order rs"
  obtain j k where jk: "j \<le> k" "k \<le> length rs" and ends: "inverseRNs F pf d fromRN toRN =
      (if node ?S j \<noteq> node ?S k then map_option Some (prefetch F pf d (Inverse (node ?S j) (node ?S k))) else Some None)"
    and spec: "map (\<lambda>i. rs ! i) (drop j (take k ?S)) = sort_key snd (filter (\<lambda>r. fromRN \<le> snd r \<and> snd r < toRN) rs)"
    using inverse_part [OF assms(1,2,4-6)] by blast
  show ?thesis
  proof (cases "j = k")
    case True
    then have "map (\<lambda>i. rs ! i) (drop j (take k ?S)) = []" by simp
    with spec show ?thesis using ends True by (simp add: all_rows.simps)
  next
    case False
    let ?xs = "map (\<lambda>i. ucast (pl_phone (pd_pnColumn d ! i))) (drop j (take k ?S))"
    have "node ?S j \<noteq> node ?S k" using node_inj [of ?S j k] False jk database_data(1) [OF assms(1,2)] by simp
    moreover have t: "inverse_todo F rs d (Inverse (node ?S j) (node ?S k)) ?xs" using assms(1,2) jk by (auto simp: inverse_todo_def)
    moreover have ne: "?xs \<noteq> []" using False jk by simp
    moreover obtain pf' where "pf = Suc pf'" using assms(3) by (cases pf) auto
    ultimately obtain c where "inverseRNs F pf d fromRN toRN = Some (Some c)" "all_rows F pf d (Some c) = Some (map (\<lambda>p. (p, find_rn F d p)) ?xs)"
      using inverse.walk_rows [OF t ne] ends by (auto simp: inverse.with_rn_def)
    moreover have "map (\<lambda>p. (p, find_rn F d p)) ?xs = map (\<lambda>i. rs ! i) (drop j (take k ?S))"
      using assms(4) set_drop_subset [of j "take k ?S"] set_take_subset [of k ?S] by (intro with_rn_rows [OF assms(1,2)]) auto
    ultimately show ?thesis using spec by simp
  qed
qed

text \<open>
  C15: the inverse query refines a selection. For rows of numbers below \<open>2 ^ 34\<close> and bounds below it, the cursor of \<^verbatim>\<open>inverseRNs\<close>
  exists and the loop over it ends with exactly the rows whose routing number is at least \<^verbatim>\<open>fromRN\<close> and less than \<^verbatim>\<open>toRN\<close>, each with
  its number and its routing number, ordered by routing number and, for equal ones, by insertion.
\<close>

theorem inverseRNs_refines:
  assumes "f14_laws F" and "database F rs d" and "0 < pf" and "\<forall>r \<in> set rs. fst r < 2 ^ 34 \<and> snd r < 2 ^ 34"
    and "fromRN < 2 ^ 34" and "toRN < 2 ^ 34"
  shows "Option.bind (inverseRNs F pf d fromRN toRN) (all_rows F pf d) = Some (sort_key snd (filter (\<lambda>r. fromRN \<le> snd r \<and> snd r < toRN) rs))"
  using assms by (rule inverseRNs_rows)

theorem inverseRNs_refines_witness:
  "\<exists>d. database map_f14 [(2025550100, 2025559999), (9, 7)] d \<and>
    Option.bind (inverseRNs map_f14 16 d 2025550000 2025560000) (all_rows map_f14 16 d) = Some [(2025550100, 2025559999)]"
proof -
  obtain d where d: "database map_f14 [(2025550100, 2025559999), (9, 7)] d" using sample_database by blast
  then show ?thesis using inverseRNs_refines [OF map_f14_laws d, of 16 2025550000 2025560000] by auto
qed

text \<open>Walking over all rows gives back, in the order of their insertion, exactly the rows that were added.\<close>

lemma visitRows_refines:
  assumes "f14_laws F" and "database F rs d" and "0 < pf" and "\<forall>r \<in> set rs. fst r < 2 ^ 34"
  shows "Option.bind (visitRows F pf d) (all_rows F pf d) = Some rs"
proof (cases "rs = []")
  case True
  then have "pd_pnColumn d = []" using database_column(1) [OF assms(1,2)] by simp
  with True show ?thesis by (simp add: visitRows_def all_rows.simps)
next
  case False
  let ?xs = "map (\<lambda>x. ucast (pl_phone x) :: 64 word) (pd_pnColumn d)"
  have len: "length (pd_pnColumn d) = length rs" using database_column(1) [OF assms(1,2)] .
  have t: "rows_todo d (Rows 0 (length rs)) ?xs" and ne: "?xs \<noteq> []" using False len by (auto simp: rows_todo_def)
  obtain pf' where "pf = Suc pf'" using assms(3) by (cases pf) auto
  then obtain c where "visitRows F pf d = Some (Some c)" "all_rows F pf d (Some c) = Some (map (\<lambda>p. (p, find_rn F d p)) ?xs)"
    using rows.walk_rows [OF t ne] len False by (auto simp: visitRows_def rows.with_rn_def)
  moreover have "map (\<lambda>p. (p, find_rn F d p)) (map (\<lambda>i. ucast (pl_phone (pd_pnColumn d ! i))) [0..<length rs]) = map (\<lambda>i. rs ! i) [0..<length rs]"
    using assms(4) by (intro with_rn_rows [OF assms(1,2)]) auto
  moreover have "map (\<lambda>i. ucast (pl_phone (pd_pnColumn d ! i))) [0..<length rs] = ?xs"
    using len by (auto intro!: nth_equalityI)
  ultimately show ?thesis by (simp only: bind.simps map_nth)
qed

text \<open>
  What the builder refuses. Starting from an empty builder, adding rows fails exactly when two rows have the same number or there are more
  rows than indices; the first offending row decides which of the two errors is thrown.
\<close>

theorem add_rows_error:
  assumes "f14_laws F"
  shows "((\<exists>d. add_rows F (empty_data F) rs = Inr d) \<longleftrightarrow> distinct (map fst rs) \<and> length rs \<le> MAXROWS) \<and>
    (distinct (map fst rs) \<and> length rs \<le> MAXROWS \<longrightarrow>
       (pn \<in> fst ` set rs \<longrightarrow> add_rows F (empty_data F) (rs @ (pn, rn) # ss) = Inl Duplicate_key) \<and>
       (pn \<notin> fst ` set rs \<and> length rs = MAXROWS \<longrightarrow> add_rows F (empty_data F) (rs @ (pn, rn) # ss) = Inl Too_much_rows))"
proof (intro conjI impI)
  show ex: "(\<exists>d. add_rows F (empty_data F) rs = Inr d) \<longleftrightarrow> distinct (map fst rs) \<and> length rs \<le> MAXROWS"
    using add_rows_iff [OF assms, of "empty_data F" rs] f14_lawsD(1) [OF assms] by (simp add: empty_data_def)
  assume ok: "distinct (map fst rs) \<and> length rs \<le> MAXROWS"
  then obtain d where d: "add_rows F (empty_data F) rs = Inr d" using ex by blast
  have e: "length (pd_pnColumn (empty_data F)) \<le> MAXROWS" by (simp add: empty_data_def)
  have dict: "f14_find F (pd_dict d) pn = map_of rs pn" and len: "length (pd_pnColumn d) = length rs"
    using add_rows_data [OF assms d e] f14_lawsD(1) [OF assms] by (auto simp: empty_data_def split: option.splits)
  show "add_rows F (empty_data F) (rs @ (pn, rn) # ss) = Inl Duplicate_key" if "pn \<in> fst ` set rs"
    using d dict that by (auto simp: add_rows_append addRow_def map_of_eq_None_iff)
  show "add_rows F (empty_data F) (rs @ (pn, rn) # ss) = Inl Too_much_rows" if "pn \<notin> fst ` set rs \<and> length rs = MAXROWS"
    using d dict len that by (auto simp: add_rows_append addRow_def map_of_eq_None_iff)
qed

theorem add_rows_error_witness:
  "add_rows map_f14 (empty_data map_f14) ([(1, 2), (3, 4)] @ (3, 5) # []) = Inl Duplicate_key \<and>
   (\<exists>d. add_rows map_f14 (empty_data map_f14) [(1, 2), (3, 4)] = Inr d)"
  using add_rows_error [OF map_f14_laws, of "[(1, 2), (3, 4)]" 3 5 "[]"] by (simp add: MAXROWS_def)

lemma run_lines_rows:
  assumes "list_all2 (\<lambda>l r. split l = Some [fst r, snd r]) ls rs"
  shows "run_lines (phone_row split F) ls d = add_rows F d rs"
  using assms
proof (induction arbitrary: d rule: list_all2_induct)
  case (Cons l ls r rs)
  then show ?case by (cases r) (simp add: phone_row_def split: sum.splits)
qed simp

lemma loadMappingFile_add:
  assumes "list_all2 (\<lambda>l r. LF \<notin> set l \<and> split l = Some [fst r, snd r]) ls rs"
  shows "loadMappingFile split F country (unlines ls) g = Some (case add_rows F (empty_data F) rs of Inl e \<Rightarrow> (False, g)
    | Inr d \<Rightarrow> (True, if country = ''CA'' then g\<lparr>mappingCA := Some (build d)\<rparr> else g\<lparr>mappingUS := Some (build d)\<rparr>))"
proof -
  have lf: "\<forall>l \<in> set ls. LF \<notin> set l" using assms by (auto simp: list_all2_conv_all_nth in_set_conv_nth)
  have "list_all2 (\<lambda>l r. split l = Some [fst r, snd r]) ls rs" using assms by (rule list_all2_mono) simp
  then have "run_lines (phone_row split F) ls (empty_data F) = add_rows F (empty_data F) rs" by (rule run_lines_rows)
  then show ?thesis
    using load_loop_lines [OF lf, of LOAD_CHUNK "phone_row split F" 0 "empty_data F"]
    by (simp add: loadMappingFile_def load_file_def open_file_def LOAD_CHUNK_def commit_def split: sum.splits)
qed

text \<open>
  C18: loading replaces one database by the rows of the file. When every line of the file splits into the two numbers of a row and no
  number occurs twice, \<^verbatim>\<open>loadMappingFile\<close> returns true, the global of the country is the index built from
  exactly these rows and the other one is unchanged; when a number occurs twice it returns false and both are unchanged. In the first case, with the
  other country loaded, the service is available.
\<close>

theorem loadMappingFile_rows:
  assumes "f14_laws F" and "list_all2 (\<lambda>l r. LF \<notin> set l \<and> split l = Some [fst r, snd r]) ls rs" and "length rs \<le> MAXROWS"
  shows "if distinct (map fst rs)
    then (\<exists>d. database F rs d \<and> loadMappingFile split F country (unlines ls) g =
            Some (True, if country = ''CA'' then g\<lparr>mappingCA := Some d\<rparr> else g\<lparr>mappingUS := Some d\<rparr>) \<and>
            (mappingUS g \<noteq> None \<and> mappingCA g \<noteq> None \<longrightarrow>
               isAvailable (if country = ''CA'' then g\<lparr>mappingCA := Some d\<rparr> else g\<lparr>mappingUS := Some d\<rparr>)))
    else loadMappingFile split F country (unlines ls) g = Some (False, g)"
proof -
  have ok: "(\<exists>d. add_rows F (empty_data F) rs = Inr d) \<longleftrightarrow> distinct (map fst rs)"
    using add_rows_iff [OF assms(1), of "empty_data F" rs] f14_lawsD(1) [OF assms(1)] assms(3) by (simp add: empty_data_def)
  show ?thesis
  proof (cases "add_rows F (empty_data F) rs")
    case (Inl e)
    then show ?thesis using ok loadMappingFile_add [OF assms(2), of F country g] by simp
  next
    case (Inr d)
    then have "database F rs (build d)" by (auto simp: database_def)
    then show ?thesis using Inr ok loadMappingFile_add [OF assms(2), of F country g] by (auto simp: isAvailable_def)
  qed
qed

theorem loadMappingFile_rows_witness:
  "\<exists>d. database map_f14 [(1, 2)] d \<and>
    loadMappingFile (\<lambda>l. if l = ''1,2'' then Some [1, 2] else None) map_f14 ''US'' (unlines [''1,2'']) \<lparr>mappingUS = None, mappingCA = None\<rparr> =
      Some (True, \<lparr>mappingUS = Some d, mappingCA = None\<rparr>)"
  using loadMappingFile_rows [OF map_f14_laws, of "\<lambda>l. if l = ''1,2'' then Some [1, 2] else None" "[''1,2'']" "[(1, 2)]" "''US''"
    "\<lparr>mappingUS = None, mappingCA = None\<rparr>"]
  by (auto simp: MAXROWS_def)

end
