(* ===== verification/Tables.thy ===== *)
theory Tables
  imports Phone_Query
begin

text \<open>
  The other databases of \<^verbatim>\<open>callfwd\<close>: do-not-call (\<^verbatim>\<open>DncMapping\<close>), do-not-originate (\<^verbatim>\<open>DnoMapping\<close>), toll free (\<^verbatim>\<open>TollFreeMapping\<close>), the
  routing guide (\<^verbatim>\<open>LergMapping\<close>), and the tables \<^verbatim>\<open>YoumailMapping\<close>, \<^verbatim>\<open>GeoMapping\<close>, \<^verbatim>\<open>FtcMapping\<close>, \<^verbatim>\<open>F404Mapping\<close> and \<^verbatim>\<open>F606Mapping\<close>.
  Their columns and their \<^verbatim>\<open>build\<close> are those of \<^verbatim>\<open>PhoneMapping\<close>, so they share the record \<open>phone_data\<close>; each has its own rows, keys and lookup.
  The lookups write into the array of the caller, which is an argument and a result of the definitions.
\<close>

section \<open>Batches\<close>

text \<open>\<open>one k o\<close> is what the loop body makes of the old element \<open>o\<close> of the output array.\<close>

partial_function (option) batched :: "('k \<Rightarrow> 'o \<Rightarrow> 'o) \<Rightarrow> nat \<Rightarrow> 'k list \<Rightarrow> 'o list \<Rightarrow> 'o list option" where
  "batched one pf pn out =
     (if pn = [] then Some out
      else (let M = min (length pn) pf
            in if M \<le> length out then
                 Option.bind (batched one pf (drop M pn) (drop M out)) (\<lambda>rest. Some (map2 one (take M pn) (take M out) @ rest))
               else None))"

lemmas [code] = batched.simps

text \<open>The guards and the updates that the \<^verbatim>\<open>addRow\<close> methods share; \<open>v\<close> is computed after the guards.\<close>

definition table_add :: "('d, 64 word, 'v) f14_map \<Rightarrow> 'd phone_data \<Rightarrow> 64 word \<Rightarrow> load_error + 'v \<Rightarrow> load_error + 'd phone_data" where
  "table_add F d k v =
     (if f14_find F (pd_dict d) k \<noteq> None then Inl Duplicate_key
      else if length (pd_pnColumn d) \<ge> MAXROWS then Inl Too_much_rows
      else (case v of
              Inl e \<Rightarrow> Inl e
            | Inr x \<Rightarrow> Inr \<lparr>pd_dict = f14_emplace F (pd_dict d) k x,
                            pd_pnColumn = pd_pnColumn d @ [\<lparr>pl_phone = ucast k, pl_next = of_nat MAXROWS\<rparr>],
                            pd_rnIndex = pd_rnIndex d @ [\<lparr>pl_phone = ucast k, pl_next = of_nat MAXROWS\<rparr>]\<rparr>))"

definition table_empty :: "('d, 64 word, 'v) f14_map \<Rightarrow> 'd phone_data" where
  "table_empty F = \<lparr>pd_dict = f14_empty F, pd_pnColumn = [], pd_rnIndex = []\<rparr>"

definition number_of :: "char list \<Rightarrow> load_error + 64 word" where
  "number_of s = (case stoll s of Inl e \<Rightarrow> Inl e | Inr n \<Rightarrow> Inr (word_of_int n))"

section \<open>Do not call\<close>

text \<open>
  \<^verbatim>\<open>iss >> pn\<close> for an unsigned number: at the end of the text nothing is stored, no digits store 0, too many the largest number. The
  variable is not initialised: \<open>junk\<close> is what it holds.
\<close>

definition extract_u64 :: "char list \<Rightarrow> 64 word \<Rightarrow> 64 word" where
  "extract_u64 s junk =
     (let r = dropWhile is_space s;
          neg = (r \<noteq> [] \<and> hd r = CHR ''-'');
          r1 = (if r \<noteq> [] \<and> hd r \<in> {CHR ''-'', CHR ''+''} then tl r else r);
          n = dec_digits (takeWhile is_digit r1)
      in if r = [] then junk else if n > 2 ^ 64 - 1 then - 1 else if neg then - word_of_int n else word_of_int n)"

definition flag_one :: "'d phone_map \<Rightarrow> 'd phone_data \<Rightarrow> 64 word \<Rightarrow> 64 word \<Rightarrow> 64 word" where
  "flag_one F d pn out = (if f14_find F (pd_dict d) pn \<noteq> None then 1 else 0)"

definition getDNCs :: "'d phone_map \<Rightarrow> nat \<Rightarrow> 'd phone_data \<Rightarrow> 64 word list \<Rightarrow> 64 word list \<Rightarrow> 64 word list option" where
  "getDNCs F pf d pn dnc = batched (flag_one F d) pf pn dnc"

definition dnc_addRow :: "'d phone_map \<Rightarrow> 'd phone_data \<Rightarrow> 64 word \<Rightarrow> 64 word \<Rightarrow> load_error + 'd phone_data" where
  "dnc_addRow F d pn dnc = addRow F d pn dnc"

definition dnc_row :: "64 word \<Rightarrow> 'd phone_map \<Rightarrow> char list \<Rightarrow> 'd phone_data \<Rightarrow> load_error + 'd phone_data" where
  "dnc_row junk F linebuf d = dnc_addRow F d (extract_u64 (deleteCharacter linebuf CHR '','') junk) 1"

definition dnc_build :: "'d phone_data \<Rightarrow> 'd phone_data" where
  "dnc_build = build"

section \<open>Toll free\<close>

definition getTollFrees :: "'d phone_map \<Rightarrow> nat \<Rightarrow> 'd phone_data \<Rightarrow> 64 word list \<Rightarrow> 64 word list \<Rightarrow> 64 word list option" where
  "getTollFrees F pf d pn tollfree = batched (flag_one F d) pf pn tollfree"

definition tollfree_addRow :: "'d phone_map \<Rightarrow> 'd phone_data \<Rightarrow> 64 word \<Rightarrow> 64 word \<Rightarrow> load_error + 'd phone_data" where
  "tollfree_addRow F d pn tollfree = addRow F d pn tollfree"

definition tollfree_row :: "'d phone_map \<Rightarrow> char list \<Rightarrow> 'd phone_data \<Rightarrow> load_error + 'd phone_data" where
  "tollfree_row F linebuf d =
     (if \<not> starts_digit linebuf then Inr d
      else (let parts = csv_parts linebuf
            in if length parts = 3 then
                 (case number_of (parts ! 0) of Inl e \<Rightarrow> Inl e | Inr pn \<Rightarrow> tollfree_addRow F d pn 1)
               else Inl Bad_number_of_columns))"

definition tollfree_build :: "'d phone_data \<Rightarrow> 'd phone_data" where
  "tollfree_build = build"

section \<open>Do not originate\<close>

record 'd dno_data =
  dno_dict :: 'd
  dict_npa :: 'd
  dict_npa_nxx :: 'd
  dict_npa_nxx_x :: 'd

definition dno_empty :: "'d phone_map \<Rightarrow> 'd dno_data" where
  "dno_empty F = \<lparr>dno_dict = f14_empty F, dict_npa = f14_empty F, dict_npa_nxx = f14_empty F, dict_npa_nxx_x = f14_empty F\<rparr>"

text \<open>
  Two of the four tests compare the iterator with the end of another map (\<^verbatim>\<open>it != dict.cend()\<close>): \<open>same_end\<close> says that the
  end iterators of all maps are equal.
\<close>

definition dno_test :: "bool \<Rightarrow> bool \<Rightarrow> 64 word \<Rightarrow> 64 word" where
  "dno_test found same_end dno = (if dno = 0 then (if found \<or> \<not> same_end then 1 else 0) else dno)"

definition dno_one :: "bool \<Rightarrow> 'd phone_map \<Rightarrow> 'd dno_data \<Rightarrow> 64 word \<Rightarrow> 64 word \<Rightarrow> 64 word" where
  "dno_one same_end F d pn dno =
     (let d1 = dno_test (f14_find F (dict_npa d) (pn div 10000000) \<noteq> None) True dno;
          d2 = dno_test (f14_find F (dict_npa_nxx d) (pn div 10000) \<noteq> None) same_end d1;
          d3 = dno_test (f14_find F (dict_npa_nxx_x d) (pn div 1000) \<noteq> None) same_end d2
      in dno_test (f14_find F (dno_dict d) pn \<noteq> None) True d3)"

definition getDNOs :: "bool \<Rightarrow> 'd phone_map \<Rightarrow> nat \<Rightarrow> 'd dno_data \<Rightarrow> 64 word list \<Rightarrow> 64 word list \<Rightarrow> 64 word list option" where
  "getDNOs same_end F pf d pn dno = batched (dno_one same_end F d) pf pn dno"

definition dno_addRow :: "'d phone_map \<Rightarrow> 'd dno_data \<Rightarrow> 64 word \<Rightarrow> char list \<Rightarrow> 64 word \<Rightarrow> load_error + 'd dno_data" where
  "dno_addRow F d pn dnotype dno =
     (if dnotype = ''dno'' then
        (if f14_find F (dno_dict d) pn \<noteq> None then Inl Duplicate_key else Inr (d\<lparr>dno_dict := f14_emplace F (dno_dict d) pn dno\<rparr>))
      else if dnotype = ''dno_npa'' then
        (if f14_find F (dict_npa d) pn \<noteq> None then Inl Duplicate_key else Inr (d\<lparr>dict_npa := f14_emplace F (dict_npa d) pn dno\<rparr>))
      else if dnotype = ''dno_npa_nxx'' then
        (if f14_find F (dict_npa_nxx d) pn \<noteq> None then Inl Duplicate_key else Inr (d\<lparr>dict_npa_nxx := f14_emplace F (dict_npa_nxx d) pn dno\<rparr>))
      else if dnotype = ''dno_npa_nxx_x'' then
        (if f14_find F (dict_npa_nxx_x d) pn \<noteq> None then Inl Duplicate_key
         else Inr (d\<lparr>dict_npa_nxx_x := f14_emplace F (dict_npa_nxx_x d) pn dno\<rparr>))
      else Inr d)"

definition dno_row :: "'d phone_map \<Rightarrow> char list \<Rightarrow> char list \<Rightarrow> 'd dno_data \<Rightarrow> load_error + 'd dno_data" where
  "dno_row F dnotype linebuf d =
     (if \<not> starts_digit linebuf then Inr d
      else (let parts = csv_parts linebuf
            in if length parts = 3 then
                 (case number_of (deleteCharacter (parts ! 0) CHR ''-'') of Inl e \<Rightarrow> Inl e | Inr pn \<Rightarrow> dno_addRow F d pn dnotype 1)
               else Inl Bad_number_of_columns))"

section \<open>The routing guide\<close>

record lerg_data =
  lerg_key :: "64 word"
  le_state :: "char list"
  le_company :: "char list"
  le_ocn :: "char list"
  le_rate_center :: "char list"
  le_ocn_type :: "char list"
  le_lata :: "char list"
  le_country :: "char list"

record 'd lerg_tables =
  dic_npa_nxx_x :: 'd
  dic_npa_nxx :: 'd
  lt_pnColumn :: "phone_list list"
  lt_lergIndex :: "phone_list list"

type_synonym 'd lerg_map = "('d, 64 word, lerg_data) f14_map"

definition lerg_one :: "'d lerg_map \<Rightarrow> 'd lerg_tables \<Rightarrow> 64 word \<Rightarrow> lerg_data \<Rightarrow> lerg_data" where
  "lerg_one F d pn out =
     (let npa_nxx_x = pn div 1000;
          o1 = (case f14_find F (dic_npa_nxx_x d) npa_nxx_x of Some x \<Rightarrow> x | None \<Rightarrow> out\<lparr>lerg_key := 0\<rparr>)
      in if lerg_key o1 = 0 then
           (case f14_find F (dic_npa_nxx d) (npa_nxx_x div 10) of Some x \<Rightarrow> x | None \<Rightarrow> o1\<lparr>lerg_key := 0\<rparr>)
         else o1)"

definition getLergs :: "'d lerg_map \<Rightarrow> nat \<Rightarrow> 'd lerg_tables \<Rightarrow> 64 word list \<Rightarrow> lerg_data list \<Rightarrow> lerg_data list option" where
  "getLergs F pf d pn lerg = batched (lerg_one F d) pf pn lerg"

definition blank :: "char list \<Rightarrow> char list" where
  "blank s = (if s = [] then '' '' else s)"

definition lerg_add :: "'d \<Rightarrow> ('d \<Rightarrow> 'd lerg_tables \<Rightarrow> 'd lerg_tables) \<Rightarrow> 'd lerg_map \<Rightarrow> 'd lerg_tables \<Rightarrow> 64 word \<Rightarrow> lerg_data
    \<Rightarrow> load_error + 'd lerg_tables" where
  "lerg_add dict upd F d k x =
     (if f14_find F dict k \<noteq> None then Inl Duplicate_key
      else if length (lt_pnColumn d) \<ge> MAXROWS then Inl Too_much_rows
      else Inr ((upd (f14_emplace F dict k x) d)
        \<lparr>lt_pnColumn := lt_pnColumn d @ [\<lparr>pl_phone = ucast k, pl_next = of_nat MAXROWS\<rparr>],
         lt_lergIndex := lt_lergIndex d @ [\<lparr>pl_phone = ucast k, pl_next = of_nat MAXROWS\<rparr>]\<rparr>))"

text \<open>A row without a block digit belongs to the exchange, one with a digit to the block; only the latter replaces empty fields.\<close>

definition lerg_addRow :: "'d lerg_map \<Rightarrow> 'd lerg_tables \<Rightarrow> char list list \<Rightarrow> load_error + 'd lerg_tables" where
  "lerg_addRow F d row =
     (if length row < 10 then Inl Out_of_bounds
      else if row ! 2 = [] then
        (case stoll (row ! 0) of Inl e \<Rightarrow> Inl e | Inr npa \<Rightarrow>
         (case stoll (row ! 1) of Inl e \<Rightarrow> Inl e | Inr nxx \<Rightarrow>
          (let k = word_of_int (npa * 1000 + nxx)
           in lerg_add (dic_npa_nxx d) (\<lambda>m. dic_npa_nxx_update (\<lambda>_. m)) F d k
                \<lparr>lerg_key = k, le_state = row ! 3, le_company = row ! 4, le_ocn = row ! 5, le_rate_center = row ! 6,
                 le_ocn_type = row ! 7, le_lata = row ! 8, le_country = row ! 9\<rparr>)))
      else
        (case stoll (row ! 0) of Inl e \<Rightarrow> Inl e | Inr npa \<Rightarrow>
         (case stoll (row ! 1) of Inl e \<Rightarrow> Inl e | Inr nxx \<Rightarrow>
          (case stoll (row ! 2) of Inl e \<Rightarrow> Inl e | Inr x \<Rightarrow>
           (let k = word_of_int (npa * 10000 + nxx * 10 + x)
            in lerg_add (dic_npa_nxx_x d) (\<lambda>m. dic_npa_nxx_x_update (\<lambda>_. m)) F d k
                 \<lparr>lerg_key = k, le_state = blank (row ! 3), le_company = blank (row ! 4), le_ocn = blank (row ! 5),
                  le_rate_center = blank (row ! 6), le_ocn_type = blank (row ! 7), le_lata = blank (row ! 8), le_country = blank (row ! 9)\<rparr>)))))"

definition lerg_row :: "'d lerg_map \<Rightarrow> char list \<Rightarrow> 'd lerg_tables \<Rightarrow> load_error + 'd lerg_tables" where
  "lerg_row F linebuf d =
     (if \<not> starts_digit linebuf then Inr d
      else (let parts = csv_parts linebuf in if length parts = 10 then lerg_addRow F d parts else Inl Bad_number_of_columns))"

definition lerg_build :: "'d lerg_tables \<Rightarrow> 'd lerg_tables" where
  "lerg_build d =
     (let N = length (lt_pnColumn d); ix = sort_rows (number_rows N (lt_lergIndex d))
      in d\<lparr>lt_pnColumn := wire_rows N ix (lt_pnColumn d), lt_lergIndex := unique_rows ix\<rparr>)"

section \<open>Tables of records\<close>

record youmail_data =
  ym_pn :: "64 word"
  ym_sapmscore :: "char list"
  ym_fraudprobability :: "char list"
  ym_unlawful :: "char list"
  ym_tcpafraud :: "char list"

definition youmail_one :: "('d, 64 word, youmail_data) f14_map \<Rightarrow> 'd phone_data \<Rightarrow> 64 word \<Rightarrow> youmail_data \<Rightarrow> youmail_data" where
  "youmail_one F d pn out = (case f14_find F (pd_dict d) pn of Some x \<Rightarrow> x | None \<Rightarrow> out\<lparr>ym_pn := 0\<rparr>)"

definition getYoumails ::
  "('d, 64 word, youmail_data) f14_map \<Rightarrow> nat \<Rightarrow> 'd phone_data \<Rightarrow> 64 word list \<Rightarrow> youmail_data list \<Rightarrow> youmail_data list option" where
  "getYoumails F pf d pn youmail = batched (youmail_one F d) pf pn youmail"

text \<open>The first \<^verbatim>\<open>+1\<close> of the number is removed, wherever it stands.\<close>

fun erase_plus1 :: "char list \<Rightarrow> char list" where
  "erase_plus1 (c # c' # cs) = (if c = CHR ''+'' \<and> c' = CHR ''1'' then cs else c # erase_plus1 (c' # cs))"
| "erase_plus1 cs = cs"

definition youmail_addRow :: "('d, 64 word, youmail_data) f14_map \<Rightarrow> 'd phone_data \<Rightarrow> char list list \<Rightarrow> load_error + 'd phone_data" where
  "youmail_addRow F d row =
     (if row = [] then Inl Out_of_bounds
      else (case number_of (erase_plus1 (row ! 0)) of
              Inl e \<Rightarrow> Inl e
            | Inr pn \<Rightarrow> table_add F d pn
                (if length row < 4 then Inl Out_of_bounds
                 else Inr \<lparr>ym_pn = pn, ym_sapmscore = row ! 1, ym_fraudprobability = row ! 2, ym_unlawful = row ! 3,
                           ym_tcpafraud = (if length row = 4 then [] else row ! 4)\<rparr>)))"

definition youmail_row :: "('d, 64 word, youmail_data) f14_map \<Rightarrow> char list \<Rightarrow> 'd phone_data \<Rightarrow> load_error + 'd phone_data" where
  "youmail_row F linebuf d =
     (if linebuf = [] \<or> hd linebuf \<noteq> CHR ''+'' then Inr d
      else (let parts = csv_parts linebuf
            in if length parts = 5 then youmail_addRow F d parts
               else if length parts = 4 \<and> last linebuf = CHR '','' then youmail_addRow F d parts
               else Inl Bad_number_of_columns))"

definition youmail_build :: "'d phone_data \<Rightarrow> 'd phone_data" where
  "youmail_build = build"

record geo_data =
  ge_npanxx :: "64 word"
  ge_zipcode :: "char list"
  ge_county :: "char list"
  ge_city :: "char list"
  ge_latitude :: "char list"
  ge_longitude :: "char list"
  ge_timezone :: "char list"

definition geo_one :: "('d, 64 word, geo_data) f14_map \<Rightarrow> 'd phone_data \<Rightarrow> 64 word \<Rightarrow> geo_data \<Rightarrow> geo_data" where
  "geo_one F d pn out = (case f14_find F (pd_dict d) (pn div 10000) of Some x \<Rightarrow> x | None \<Rightarrow> out\<lparr>ge_npanxx := 0\<rparr>)"

definition getGeos :: "('d, 64 word, geo_data) f14_map \<Rightarrow> nat \<Rightarrow> 'd phone_data \<Rightarrow> 64 word list \<Rightarrow> geo_data list \<Rightarrow> geo_data list option" where
  "getGeos F pf d pn geo = batched (geo_one F d) pf pn geo"

text \<open>The loader accepts rows of 19 columns, and \<^verbatim>\<open>addRow\<close> reads the twentieth.\<close>

definition geo_addRow :: "('d, 64 word, geo_data) f14_map \<Rightarrow> 'd phone_data \<Rightarrow> char list list \<Rightarrow> load_error + 'd phone_data" where
  "geo_addRow F d row =
     (if row = [] then Inl Out_of_bounds
      else (case number_of (row ! 0) of
              Inl e \<Rightarrow> Inl e
            | Inr npanxx \<Rightarrow> table_add F d npanxx
                (if length row < 20 then Inl Out_of_bounds
                 else Inr \<lparr>ge_npanxx = npanxx, ge_zipcode = row ! 1, ge_county = row ! 10, ge_city = row ! 6, ge_latitude = row ! 9,
                           ge_longitude = row ! 11, ge_timezone = row ! 19\<rparr>)))"

definition geo_row :: "('d, 64 word, geo_data) f14_map \<Rightarrow> char list \<Rightarrow> 'd phone_data \<Rightarrow> load_error + 'd phone_data" where
  "geo_row F linebuf d =
     (let parts = csv_parts linebuf in if length parts \<ge> 19 then geo_addRow F d parts else Inl Bad_number_of_columns)"

definition geo_build :: "'d phone_data \<Rightarrow> 'd phone_data" where
  "geo_build = build"

record ftc_data =
  ft_pn :: "64 word"
  last_ftc_on :: "char list"
  first_ftc_on :: "char list"
  ftc_count :: "char list"

definition ftc_one :: "('d, 64 word, ftc_data) f14_map \<Rightarrow> 'd phone_data \<Rightarrow> 64 word \<Rightarrow> ftc_data \<Rightarrow> ftc_data" where
  "ftc_one F d pn out = (case f14_find F (pd_dict d) pn of Some x \<Rightarrow> x | None \<Rightarrow> out\<lparr>ft_pn := 0\<rparr>)"

definition getFtcs :: "('d, 64 word, ftc_data) f14_map \<Rightarrow> nat \<Rightarrow> 'd phone_data \<Rightarrow> 64 word list \<Rightarrow> ftc_data list \<Rightarrow> ftc_data list option" where
  "getFtcs F pf d pn ftc = batched (ftc_one F d) pf pn ftc"

text \<open>The loader accepts rows of five columns, and \<^verbatim>\<open>addRow\<close> reads the sixth.\<close>

definition ftc_addRow :: "('d, 64 word, ftc_data) f14_map \<Rightarrow> 'd phone_data \<Rightarrow> char list list \<Rightarrow> load_error + 'd phone_data" where
  "ftc_addRow F d row =
     (if length row < 2 then Inl Out_of_bounds
      else (case number_of (row ! 1) of
              Inl e \<Rightarrow> Inl e
            | Inr pn \<Rightarrow> table_add F d pn
                (if length row < 6 then Inl Out_of_bounds
                 else Inr \<lparr>ft_pn = pn, last_ftc_on = row ! 3, first_ftc_on = row ! 2, ftc_count = row ! 5\<rparr>)))"

definition ftc_row :: "('d, 64 word, ftc_data) f14_map \<Rightarrow> char list \<Rightarrow> 'd phone_data \<Rightarrow> load_error + 'd phone_data" where
  "ftc_row F linebuf d =
     (let parts = csv_parts linebuf
      in if \<not> starts_digit linebuf then Inr d
         else if length parts \<ge> 5 then ftc_addRow F d parts else Inl Bad_number_of_columns)"

definition ftc_build :: "'d phone_data \<Rightarrow> 'd phone_data" where
  "ftc_build = build"

record f404_data =
  f4_pn :: "64 word"
  last_F404_on :: "char list"
  first_F404_on :: "char list"

definition f404_one :: "('d, 64 word, f404_data) f14_map \<Rightarrow> 'd phone_data \<Rightarrow> 64 word \<Rightarrow> f404_data \<Rightarrow> f404_data" where
  "f404_one F d pn out = (case f14_find F (pd_dict d) pn of Some x \<Rightarrow> x | None \<Rightarrow> out\<lparr>f4_pn := 0\<rparr>)"

definition getF404s :: "('d, 64 word, f404_data) f14_map \<Rightarrow> nat \<Rightarrow> 'd phone_data \<Rightarrow> 64 word list \<Rightarrow> f404_data list \<Rightarrow> f404_data list option" where
  "getF404s F pf d pn f = batched (f404_one F d) pf pn f"

text \<open>The first digit of the number, the country code, is dropped.\<close>

definition f404_addRow :: "('d, 64 word, f404_data) f14_map \<Rightarrow> 'd phone_data \<Rightarrow> char list list \<Rightarrow> load_error + 'd phone_data" where
  "f404_addRow F d row =
     (if row = [] then Inl Out_of_bounds
      else if row ! 0 = [] then Inl Out_of_range
      else (case number_of (tl (row ! 0)) of
              Inl e \<Rightarrow> Inl e
            | Inr pn \<Rightarrow> table_add F d pn
                (if length row < 3 then Inl Out_of_bounds else Inr \<lparr>f4_pn = pn, last_F404_on = row ! 2, first_F404_on = row ! 1\<rparr>)))"

definition f404_row :: "('d, 64 word, f404_data) f14_map \<Rightarrow> char list \<Rightarrow> 'd phone_data \<Rightarrow> load_error + 'd phone_data" where
  "f404_row F linebuf d =
     (let parts = csv_parts linebuf
      in if \<not> starts_digit linebuf then Inr d
         else if length parts \<ge> 3 then f404_addRow F d parts else Inl Bad_number_of_columns)"

definition f404_build :: "'d phone_data \<Rightarrow> 'd phone_data" where
  "f404_build = build"

record f606_data =
  f6_pn :: "64 word"
  last_F606_on :: "char list"
  first_F606_on :: "char list"

definition f606_one :: "('d, 64 word, f606_data) f14_map \<Rightarrow> 'd phone_data \<Rightarrow> 64 word \<Rightarrow> f606_data \<Rightarrow> f606_data" where
  "f606_one F d pn out = (case f14_find F (pd_dict d) pn of Some x \<Rightarrow> x | None \<Rightarrow> out\<lparr>f6_pn := 0\<rparr>)"

definition getF606s :: "('d, 64 word, f606_data) f14_map \<Rightarrow> nat \<Rightarrow> 'd phone_data \<Rightarrow> 64 word list \<Rightarrow> f606_data list \<Rightarrow> f606_data list option" where
  "getF606s F pf d pn f = batched (f606_one F d) pf pn f"

definition f606_addRow :: "('d, 64 word, f606_data) f14_map \<Rightarrow> 'd phone_data \<Rightarrow> char list list \<Rightarrow> load_error + 'd phone_data" where
  "f606_addRow F d row =
     (if row = [] then Inl Out_of_bounds
      else if row ! 0 = [] then Inl Out_of_range
      else (case number_of (tl (row ! 0)) of
              Inl e \<Rightarrow> Inl e
            | Inr pn \<Rightarrow> table_add F d pn
                (if length row < 3 then Inl Out_of_bounds else Inr \<lparr>f6_pn = pn, last_F606_on = row ! 2, first_F606_on = row ! 1\<rparr>)))"

definition f606_row :: "('d, 64 word, f606_data) f14_map \<Rightarrow> char list \<Rightarrow> 'd phone_data \<Rightarrow> load_error + 'd phone_data" where
  "f606_row F linebuf d =
     (let parts = csv_parts linebuf
      in if \<not> starts_digit linebuf then Inr d
         else if length parts \<ge> 3 then f606_addRow F d parts else Inl Bad_number_of_columns)"

definition f606_build :: "'d phone_data \<Rightarrow> 'd phone_data" where
  "f606_build = build"

end
