(* ===== verification/Tables_Lookup.thy ===== *)
theory Tables_Lookup
  imports Tables
begin

text \<open>
  What the lookups of the other databases return. A batch is the pointwise lookup whatever its size; the locale \<open>csv_table\<close> is the
  contract of a loader of records, with one interpretation per table; the routing guide prefers the block to the exchange.
\<close>

section \<open>Batches\<close>

lemma batched_eq:
  assumes "0 < pf" and "length out = length pn"
  shows "batched one pf pn out = Some (map2 one pn out)"
  using assms(2)
proof (induction "length pn" arbitrary: pn out rule: less_induct)
  case less
  show ?case
  proof (cases "pn = []")
    case True
    then show ?thesis using less.prems by (simp add: batched.simps)
  next
    case False
    let ?M = "min (length pn) pf"
    have "length (drop ?M pn) < length pn" using False assms(1) by simp
    moreover have "length (drop ?M out) = length (drop ?M pn)" using less.prems by simp
    ultimately have "batched one pf (drop ?M pn) (drop ?M out) = Some (map2 one (drop ?M pn) (drop ?M out))" by (rule less.hyps)
    moreover have "map2 one (take ?M pn) (take ?M out) @ map2 one (drop ?M pn) (drop ?M out) = map2 one pn out"
      by (metis append_take_drop_id drop_zip map_append take_zip)
    ultimately show ?thesis using False less.prems by (subst batched.simps) (simp add: Let_def)
  qed
qed

lemma map2_replicate: "map2 f xs (replicate (length xs) y) = map (\<lambda>x. f x y) xs"
  by (induction xs) simp_all

section \<open>Do not originate\<close>

definition dno_listed :: "'d phone_map \<Rightarrow> 'd dno_data \<Rightarrow> 64 word \<Rightarrow> bool" where
  "dno_listed F d pn \<longleftrightarrow> f14_find F (dict_npa d) (pn div 10000000) \<noteq> None \<or> f14_find F (dict_npa_nxx d) (pn div 10000) \<noteq> None \<or>
     f14_find F (dict_npa_nxx_x d) (pn div 1000) \<noteq> None \<or> f14_find F (dno_dict d) pn \<noteq> None"

text \<open>
  C36: what \<^verbatim>\<open>getDNOs\<close> answers. With end iterators that compare equal and an output array of zeros, the answer is 1 exactly for the numbers whose
  area code, exchange, block or whole number is listed. With end iterators that differ, every number is reported as listed; and an
  element that is not zero before the call is returned as it was, whatever the tables say.
\<close>

theorem getDNOs_listed:
  assumes "0 < pf"
  shows "getDNOs True F pf d pns (replicate (length pns) 0) = Some (map (\<lambda>pn. if dno_listed F d pn then 1 else 0) pns) \<and>
    getDNOs False F pf d pns (replicate (length pns) 0) = Some (map (\<lambda>_. 1) pns) \<and>
    (x \<noteq> 0 \<longrightarrow> getDNOs same_end F pf d pns (replicate (length pns) x) = Some (map (\<lambda>_. x) pns))"
proof -
  have "dno_one True F d pn 0 = (if dno_listed F d pn then 1 else 0)" for pn by (simp add: dno_one_def dno_test_def dno_listed_def Let_def)
  moreover have "dno_one False F d pn 0 = 1" for pn by (simp add: dno_one_def dno_test_def Let_def)
  moreover have "x \<noteq> 0 \<Longrightarrow> dno_one same_end F d pn x = x" for pn by (simp add: dno_one_def dno_test_def Let_def)
  ultimately show ?thesis using assms by (simp add: getDNOs_def batched_eq map2_replicate)
qed

theorem getDNOs_listed_witness:
  "getDNOs True map_f14 16 ((dno_empty map_f14)\<lparr>dict_npa := [900 \<mapsto> 1]\<rparr>) [9005550100, 2025550100] (replicate (length [9005550100, 2025550100 :: 64 word]) 0) = Some [1, 0]"
  using getDNOs_listed [of 16 map_f14 "(dno_empty map_f14)\<lparr>dict_npa := [900 \<mapsto> 1]\<rparr>" "[9005550100, 2025550100]" 0 True]
  by (simp add: dno_listed_def dno_empty_def map_f14_def)

section \<open>The routing guide\<close>

definition lerg_keyed :: "'d lerg_map \<Rightarrow> 'd lerg_tables \<Rightarrow> bool" where
  "lerg_keyed F d \<longleftrightarrow> (\<forall>k x. f14_find F (dic_npa_nxx_x d) k = Some x \<longrightarrow> lerg_key x = k) \<and>
     (\<forall>k x. f14_find F (dic_npa_nxx d) k = Some x \<longrightarrow> lerg_key x = k)"

definition lerg_empty :: "'d lerg_map \<Rightarrow> 'd lerg_tables" where
  "lerg_empty F = \<lparr>dic_npa_nxx_x = f14_empty F, dic_npa_nxx = f14_empty F, lt_pnColumn = [], lt_lergIndex = []\<rparr>"

lemma lerg_row_keyed:
  assumes "f14_laws F" and "lerg_keyed F d" and "lerg_row F l d = Inr d'"
  shows "lerg_keyed F d'"
  using assms f14_lawsD(2) [OF assms(1)]
  by (auto simp: lerg_row_def lerg_addRow_def lerg_add_def lerg_keyed_def Let_def split: if_splits sum.splits)

lemma run_lerg_keyed: "f14_laws F \<Longrightarrow> lerg_keyed F d \<Longrightarrow> run_lines (lerg_row F) ls d = Inr d' \<Longrightarrow> lerg_keyed F d'"
  by (induction ls arbitrary: d) (auto split: sum.splits dest: lerg_row_keyed)

text \<open>
  C22: the routing guide prefers the thousands block. After loading any lines, and for numbers with an exchange, the answer is the record of the number's block when
  it is listed, else that of its exchange when that is listed, and its key is the block or the exchange; a number of neither has key 0, and
  its other fields are left as the caller had them.
\<close>

theorem getLergs_prefers_block:
  assumes "f14_laws F" and "run_lines (lerg_row F) ls (lerg_empty F) = Inr d" and "0 < pf" and "\<forall>pn \<in> set pns. pn div 1000 \<noteq> 0"
  shows "\<exists>rs. getLergs F pf (lerg_build d) pns (replicate (length pns) x) = Some rs \<and> list_all2 (\<lambda>pn r.
    (case f14_find F (dic_npa_nxx_x d) (pn div 1000) of
       Some b \<Rightarrow> r = b \<and> lerg_key r = pn div 1000
     | None \<Rightarrow> (case f14_find F (dic_npa_nxx d) (pn div 1000 div 10) of
         Some b \<Rightarrow> r = b \<and> lerg_key r = pn div 1000 div 10 | None \<Rightarrow> r = x\<lparr>lerg_key := 0\<rparr>))) pns rs"
proof -
  have "lerg_keyed F (lerg_empty F)" using f14_lawsD(1) [OF assms(1)] by (simp add: lerg_keyed_def lerg_empty_def)
  from run_lerg_keyed [OF assms(1) this assms(2)] have keyed: "lerg_keyed F d" .
  have dicts: "dic_npa_nxx_x (lerg_build d) = dic_npa_nxx_x d" "dic_npa_nxx (lerg_build d) = dic_npa_nxx d"
    by (simp_all add: lerg_build_def Let_def)
  show ?thesis
    using assms(3,4) keyed
    by (auto simp: getLergs_def batched_eq map2_replicate list_all2_conv_all_nth lerg_one_def dicts lerg_keyed_def Let_def split: option.splits)
qed

definition lerg_zero :: lerg_data where
  "lerg_zero = \<lparr>lerg_key = 0, le_state = [], le_company = [], le_ocn = [], le_rate_center = [], le_ocn_type = [], le_lata = [], le_country = []\<rparr>"

theorem getLergs_prefers_block_witness:
  "\<exists>d rs. run_lines (lerg_row map_f14) [''202,555,,DC,ACME,1234,WASH,CLEC,236,US''] (lerg_empty map_f14) = Inr d \<and>
    getLergs map_f14 16 (lerg_build d) [2025550100] (replicate (length [2025550100 :: 64 word]) lerg_zero) = Some rs \<and> length rs = 1"
proof -
  have "\<exists>d. run_lines (lerg_row map_f14) [''202,555,,DC,ACME,1234,WASH,CLEC,236,US''] (lerg_empty map_f14) = Inr d"
    by (simp add: lerg_row_def starts_digit_def is_digit_iff uchar_def lerg_addRow_def lerg_add_def stoll_def is_space_def dec_digits_def
        lerg_empty_def map_f14_def MAXROWS_def Let_def)
  then obtain d where d: "run_lines (lerg_row map_f14) [''202,555,,DC,ACME,1234,WASH,CLEC,236,US''] (lerg_empty map_f14) = Inr d" by blast
  from getLergs_prefers_block [OF map_f14_laws d, of 16 "[2025550100]" lerg_zero] d show ?thesis by (auto simp: list_all2_Cons1)
qed

section \<open>Tables of records\<close>

text \<open>\<open>parse\<close> is what a line that was accepted contributes: nothing, or a key and a record.\<close>

locale csv_table =
  fixes F :: "('d, 64 word, 'v) f14_map"
    and row :: "char list \<Rightarrow> 'd phone_data \<Rightarrow> load_error + 'd phone_data"
    and parse :: "char list \<Rightarrow> (64 word \<times> 'v) option"
  assumes row_parse: "row l d = Inr d' \<Longrightarrow> (case parse l of None \<Rightarrow> d' = d | Some (k, v) \<Rightarrow> table_add F d k (Inr v) = Inr d')"
begin

lemma table_add_find:
  assumes "f14_laws F" and "table_add F d k (Inr v) = Inr d'"
  shows "f14_find F (pd_dict d) k = None" and "f14_find F (pd_dict d') k' = (if k' = k then Some v else f14_find F (pd_dict d) k')"
  using assms(2) f14_lawsD(2) [OF assms(1)] by (auto simp: table_add_def split: if_splits)

lemma run_table:
  assumes "f14_laws F" and "run_lines row ls d = Inr d'"
  shows "(\<forall>k. f14_find F (pd_dict d') k = (case map_of (List.map_filter parse ls) k of Some v \<Rightarrow> Some v | None \<Rightarrow> f14_find F (pd_dict d) k)) \<and>
    distinct (map fst (List.map_filter parse ls)) \<and> (\<forall>k \<in> fst ` set (List.map_filter parse ls). f14_find F (pd_dict d) k = None)"
  using assms(2)
proof (induction ls arbitrary: d)
  case (Cons l ls)
  obtain d1 where d1: "row l d = Inr d1" "run_lines row ls d1 = Inr d'" using Cons.prems by (auto split: sum.splits)
  note IH = Cons.IH [OF d1(2)]
  show ?case
  proof (cases "parse l")
    case None
    then have same: "d1 = d" using row_parse [OF d1(1)] by simp
    have "List.map_filter parse (l # ls) = List.map_filter parse ls" using None by (simp add: map_filter_simps)
    then show ?thesis using IH unfolding same by presburger
  next
    case (Some kv)
    obtain k v where kv: "kv = (k, v)" by (cases kv)
    have add: "table_add F d k (Inr v) = Inr d1" using row_parse [OF d1(1)] Some kv by simp
    note find = table_add_find [OF assms(1) add]
    have "k \<notin> fst ` set (List.map_filter parse ls)" using IH find(2) [of k] by force
    then show ?thesis using IH find Some kv by (auto simp: map_filter_simps map_of_eq_None_iff split: option.splits if_splits)
  qed
qed (simp add: map_filter_simps)

lemma table_lookup:
  assumes "f14_laws F" and "run_lines row ls (table_empty F) = Inr d"
  shows "f14_find F (pd_dict d) k = map_of (List.map_filter parse ls) k" and "distinct (map fst (List.map_filter parse ls))"
  using run_table [OF assms] f14_lawsD(1) [OF assms(1)] by (auto simp: table_empty_def split: option.splits)

end

definition youmail_parse :: "char list \<Rightarrow> (64 word \<times> youmail_data) option" where
  "youmail_parse l = (if l = [] \<or> hd l \<noteq> CHR ''+'' then None
     else (let row = csv_parts l in case number_of (erase_plus1 (row ! 0)) of Inl e \<Rightarrow> None | Inr pn \<Rightarrow>
       Some (pn, \<lparr>ym_pn = pn, ym_sapmscore = row ! 1, ym_fraudprobability = row ! 2, ym_unlawful = row ! 3,
                  ym_tcpafraud = (if length row = 4 then [] else row ! 4)\<rparr>)))"

definition geo_parse :: "char list \<Rightarrow> (64 word \<times> geo_data) option" where
  "geo_parse l = (let row = csv_parts l in case number_of (row ! 0) of Inl e \<Rightarrow> None | Inr npanxx \<Rightarrow>
     Some (npanxx, \<lparr>ge_npanxx = npanxx, ge_zipcode = row ! 1, ge_county = row ! 10, ge_city = row ! 6, ge_latitude = row ! 9,
                    ge_longitude = row ! 11, ge_timezone = row ! 19\<rparr>))"

definition ftc_parse :: "char list \<Rightarrow> (64 word \<times> ftc_data) option" where
  "ftc_parse l = (if \<not> starts_digit l then None
     else (let row = csv_parts l in case number_of (row ! 1) of Inl e \<Rightarrow> None | Inr pn \<Rightarrow>
       Some (pn, \<lparr>ft_pn = pn, last_ftc_on = row ! 3, first_ftc_on = row ! 2, ftc_count = row ! 5\<rparr>)))"

definition f404_parse :: "char list \<Rightarrow> (64 word \<times> f404_data) option" where
  "f404_parse l = (if \<not> starts_digit l then None
     else (let row = csv_parts l in case number_of (tl (row ! 0)) of Inl e \<Rightarrow> None | Inr pn \<Rightarrow>
       Some (pn, \<lparr>f4_pn = pn, last_F404_on = row ! 2, first_F404_on = row ! 1\<rparr>)))"

definition f606_parse :: "char list \<Rightarrow> (64 word \<times> f606_data) option" where
  "f606_parse l = (if \<not> starts_digit l then None
     else (let row = csv_parts l in case number_of (tl (row ! 0)) of Inl e \<Rightarrow> None | Inr pn \<Rightarrow>
       Some (pn, \<lparr>f6_pn = pn, last_F606_on = row ! 2, first_F606_on = row ! 1\<rparr>)))"

lemma table_add_Inl: "table_add F d k (Inl e) \<noteq> Inr d'"
  by (simp add: table_add_def)

interpretation youmail: csv_table F "youmail_row F" youmail_parse for F :: "('d, 64 word, youmail_data) f14_map"
  by unfold_locales (auto simp: youmail_row_def youmail_addRow_def youmail_parse_def table_add_Inl Let_def split: if_splits sum.splits)

interpretation geo: csv_table F "geo_row F" geo_parse for F :: "('d, 64 word, geo_data) f14_map"
  by unfold_locales (auto simp: geo_row_def geo_addRow_def geo_parse_def table_add_Inl Let_def split: if_splits sum.splits)

interpretation ftc: csv_table F "ftc_row F" ftc_parse for F :: "('d, 64 word, ftc_data) f14_map"
  by unfold_locales (auto simp: ftc_row_def ftc_addRow_def ftc_parse_def table_add_Inl Let_def split: if_splits sum.splits)

interpretation f404: csv_table F "f404_row F" f404_parse for F :: "('d, 64 word, f404_data) f14_map"
  by unfold_locales (auto simp: f404_row_def f404_addRow_def f404_parse_def table_add_Inl Let_def split: if_splits sum.splits)

interpretation f606: csv_table F "f606_row F" f606_parse for F :: "('d, 64 word, f606_data) f14_map"
  by unfold_locales (auto simp: f606_row_def f606_addRow_def f606_parse_def table_add_Inl Let_def split: if_splits sum.splits)

text \<open>
  C21: a table answers with the rows of its file. After its loader accepted the lines of a file one after the other, in each of the five
  tables of records the keys of the lines differ, and the answer for a number is the record of the line with its key (the exchange, for the
  locations), or the old element with its key set to zero when there is no such line.
\<close>

theorem tables_lookup:
  assumes "0 < pf"
  shows "(f14_laws Y \<and> run_lines (youmail_row Y) ls (table_empty Y) = Inr d \<longrightarrow>
      getYoumails Y pf (youmail_build d) [pn] [y] = Some [case map_of (List.map_filter youmail_parse ls) pn of Some x \<Rightarrow> x | None \<Rightarrow> y\<lparr>ym_pn := 0\<rparr>] \<and>
      distinct (map fst (List.map_filter youmail_parse ls))) \<and>
    (f14_laws G \<and> run_lines (geo_row G) ls (table_empty G) = Inr d \<longrightarrow>
      getGeos G pf (geo_build d) [pn] [g] = Some [case map_of (List.map_filter geo_parse ls) (pn div 10000) of Some x \<Rightarrow> x | None \<Rightarrow> g\<lparr>ge_npanxx := 0\<rparr>] \<and>
      distinct (map fst (List.map_filter geo_parse ls))) \<and>
    (f14_laws T \<and> run_lines (ftc_row T) ls (table_empty T) = Inr d \<longrightarrow>
      getFtcs T pf (ftc_build d) [pn] [t] = Some [case map_of (List.map_filter ftc_parse ls) pn of Some x \<Rightarrow> x | None \<Rightarrow> t\<lparr>ft_pn := 0\<rparr>] \<and>
      distinct (map fst (List.map_filter ftc_parse ls))) \<and>
    (f14_laws N \<and> run_lines (f404_row N) ls (table_empty N) = Inr d \<longrightarrow>
      getF404s N pf (f404_build d) [pn] [n] = Some [case map_of (List.map_filter f404_parse ls) pn of Some x \<Rightarrow> x | None \<Rightarrow> n\<lparr>f4_pn := 0\<rparr>] \<and>
      distinct (map fst (List.map_filter f404_parse ls))) \<and>
    (f14_laws S \<and> run_lines (f606_row S) ls (table_empty S) = Inr d \<longrightarrow>
      getF606s S pf (f606_build d) [pn] [s] = Some [case map_of (List.map_filter f606_parse ls) pn of Some x \<Rightarrow> x | None \<Rightarrow> s\<lparr>f6_pn := 0\<rparr>] \<and>
      distinct (map fst (List.map_filter f606_parse ls)))"
proof (intro conjI impI; elim conjE)
  have built: "pd_dict (build e) = pd_dict e" for e :: "'d phone_data" by (simp add: build_def Let_def)
  note defs = batched_eq [OF assms] youmail_build_def geo_build_def ftc_build_def f404_build_def f606_build_def built
  { assume a: "f14_laws Y" "run_lines (youmail_row Y) ls (table_empty Y) = Inr d"
    show "getYoumails Y pf (youmail_build d) [pn] [y] = Some [case map_of (List.map_filter youmail_parse ls) pn of Some x \<Rightarrow> x | None \<Rightarrow> y\<lparr>ym_pn := 0\<rparr>]"
      "distinct (map fst (List.map_filter youmail_parse ls))"
      using youmail.table_lookup [OF a] by (simp_all add: getYoumails_def youmail_one_def defs) }
  { assume a: "f14_laws G" "run_lines (geo_row G) ls (table_empty G) = Inr d"
    show "getGeos G pf (geo_build d) [pn] [g] = Some [case map_of (List.map_filter geo_parse ls) (pn div 10000) of Some x \<Rightarrow> x | None \<Rightarrow> g\<lparr>ge_npanxx := 0\<rparr>]"
      "distinct (map fst (List.map_filter geo_parse ls))"
      using geo.table_lookup [OF a] by (simp_all add: getGeos_def geo_one_def defs) }
  { assume a: "f14_laws T" "run_lines (ftc_row T) ls (table_empty T) = Inr d"
    show "getFtcs T pf (ftc_build d) [pn] [t] = Some [case map_of (List.map_filter ftc_parse ls) pn of Some x \<Rightarrow> x | None \<Rightarrow> t\<lparr>ft_pn := 0\<rparr>]"
      "distinct (map fst (List.map_filter ftc_parse ls))"
      using ftc.table_lookup [OF a] by (simp_all add: getFtcs_def ftc_one_def defs) }
  { assume a: "f14_laws N" "run_lines (f404_row N) ls (table_empty N) = Inr d"
    show "getF404s N pf (f404_build d) [pn] [n] = Some [case map_of (List.map_filter f404_parse ls) pn of Some x \<Rightarrow> x | None \<Rightarrow> n\<lparr>f4_pn := 0\<rparr>]"
      "distinct (map fst (List.map_filter f404_parse ls))"
      using f404.table_lookup [OF a] by (simp_all add: getF404s_def f404_one_def defs) }
  { assume a: "f14_laws S" "run_lines (f606_row S) ls (table_empty S) = Inr d"
    show "getF606s S pf (f606_build d) [pn] [s] = Some [case map_of (List.map_filter f606_parse ls) pn of Some x \<Rightarrow> x | None \<Rightarrow> s\<lparr>f6_pn := 0\<rparr>]"
      "distinct (map fst (List.map_filter f606_parse ls))"
      using f606.table_lookup [OF a] by (simp_all add: getF606s_def f606_one_def defs) }
qed

theorem tables_lookup_witness:
  "\<exists>d. run_lines (f404_row map_f14) [''12025550100,2020-01-01,2020-02-01''] (table_empty map_f14) = Inr d \<and>
    getF404s map_f14 16 (f404_build d) [2025550100] [\<lparr>f4_pn = 7, last_F404_on = [], first_F404_on = []\<rparr>] =
      Some [\<lparr>f4_pn = 2025550100, last_F404_on = ''2020-02-01'', first_F404_on = ''2020-01-01''\<rparr>]"
proof -
  let ?ls = "[''12025550100,2020-01-01,2020-02-01'']"
  have "\<exists>d. run_lines (f404_row map_f14) ?ls (table_empty map_f14) = Inr d"
    by (simp add: f404_row_def starts_digit_def is_digit_iff uchar_def f404_addRow_def table_add_def number_of_def stoll_def is_space_def dec_digits_def
        table_empty_def empty_data_def map_f14_def MAXROWS_def Let_def)
  then obtain d where d: "run_lines (f404_row map_f14) ?ls (table_empty map_f14) = Inr d" by blast
  have "List.map_filter f404_parse ?ls = [(2025550100, \<lparr>f4_pn = 2025550100, last_F404_on = ''2020-02-01'', first_F404_on = ''2020-01-01''\<rparr>)]"
    by code_simp
  then have "map_of (List.map_filter f404_parse ?ls) 2025550100 =
      Some \<lparr>f4_pn = 2025550100, last_F404_on = ''2020-02-01'', first_F404_on = ''2020-01-01''\<rparr>"
    by (simp only: map_of.simps fst_conv snd_conv fun_upd_same)
  with tables_lookup [where pf = 16 and N = map_f14 and ls = ?ls and d = d and pn = 2025550100 and n = "\<lparr>f4_pn = 7, last_F404_on = [], first_F404_on = []\<rparr>",
      THEN conjunct2, THEN conjunct2, THEN conjunct2, THEN conjunct1] map_f14_laws d
  have "getF404s map_f14 16 (f404_build d) [2025550100] [\<lparr>f4_pn = 7, last_F404_on = [], first_F404_on = []\<rparr>] =
      Some [\<lparr>f4_pn = 2025550100, last_F404_on = ''2020-02-01'', first_F404_on = ''2020-01-01''\<rparr>]"
    by (simp only: zero_less_numeral simp_thms True_implies_equals option.case map_f14_laws)
  with d show ?thesis by blast
qed

text \<open>
  how the tables refuse and misread their files. A location row of nineteen columns and a complaint row of five pass the column check and
  are then read past their last column; a trailing empty column does not count; an empty line of the do-not-call list
  lists whatever number the uninitialised variable holds, and when it still holds it at a second empty line the file is refused.
\<close>

theorem table_quirks:
  "geo_row map_f14 ''202555,20001,c,d,e,f,g,h,i,j,k,l,m,n,o,p,q,r,s'' (table_empty map_f14) = Inl Out_of_bounds \<and>
   ftc_row map_f14 ''1,2025550100,a,b,c'' (table_empty map_f14) = Inl Out_of_bounds \<and>
   f404_row map_f14 ''12025550100,2020-01-01,'' (table_empty map_f14) = Inl Bad_number_of_columns \<and>
   run_lines (dnc_row junk map_f14) [[], []] (table_empty map_f14) = Inl Duplicate_key"
proof (intro conjI)
  show "geo_row map_f14 ''202555,20001,c,d,e,f,g,h,i,j,k,l,m,n,o,p,q,r,s'' (table_empty map_f14) = Inl Out_of_bounds"
    by (simp add: geo_row_def geo_addRow_def number_of_def stoll_def is_space_def dec_digits_def is_digit_iff uchar_def table_add_def table_empty_def map_f14_def MAXROWS_def Let_def)
  show "ftc_row map_f14 ''1,2025550100,a,b,c'' (table_empty map_f14) = Inl Out_of_bounds"
    by (simp add: ftc_row_def ftc_addRow_def starts_digit_def number_of_def stoll_def is_space_def dec_digits_def is_digit_iff uchar_def table_add_def table_empty_def map_f14_def MAXROWS_def Let_def)
  show "f404_row map_f14 ''12025550100,2020-01-01,'' (table_empty map_f14) = Inl Bad_number_of_columns"
    by (simp add: f404_row_def starts_digit_def is_digit_iff uchar_def Let_def)
  show "run_lines (dnc_row junk map_f14) [[], []] (table_empty map_f14) = Inl Duplicate_key"
    by (simp add: dnc_row_def dnc_addRow_def addRow_def extract_u64_def deleteCharacter_def table_empty_def empty_data_def map_f14_def MAXROWS_def Let_def)
qed

end
