(* ===== verification/Acl.thy ===== *)
theory Acl
  imports Csv Complex_Main
begin

text \<open>
  The access list of \<^verbatim>\<open>callfwd/ACL.cpp\<close>: loading it from a file and asking it about a peer. What the code takes from elsewhere is the
  record \<open>acl_env\<close> of parameters: \<^verbatim>\<open>folly::split\<close> into fields, \<^verbatim>\<open>folly::IPAddress\<close>, \<^verbatim>\<open>folly::tryTo<double>\<close>, \<^verbatim>\<open>folly::TokenBucket\<close> and, as it
  depends on the time zone of the machine, \<^verbatim>\<open>parsePostgresTime\<close>. What a moved-from \<^verbatim>\<open>folly::Optional\<close> holds is the parameter \<open>moved\<close>.
\<close>

section \<open>Rules\<close>

record ('i, 'b) acl_env =
  split_fields :: "char list \<Rightarrow> char list list"
  to_ip :: "char list \<Rightarrow> 'i option"
  parse_time :: "char list \<Rightarrow> int option"
  to_double :: "char list \<Rightarrow> real option"
  moved :: "int option \<Rightarrow> int option"
  bucket_init :: 'b
  bucket_reset :: "'b \<Rightarrow> real \<Rightarrow> real \<Rightarrow> 'b"
  bucket_consume :: "'b \<Rightarrow> bool \<times> 'b"

record 'b acl_rule =
  ru_created :: int
  ru_expire :: "int option"
  ru_callBudget :: 'b

type_synonym ('i, 'b) acl_data = "'i \<rightharpoonup> 'b acl_rule"

definition new_rule :: "('i, 'b) acl_env \<Rightarrow> 'b acl_rule" where
  "new_rule E = \<lparr>ru_created = 0, ru_expire = None, ru_callBudget = bucket_init E\<rparr>"

section \<open>Asking\<close>

text \<open>The rule's bucket is changed in place, so the data is a result; \<open>now\<close> is the clock.\<close>

definition isCallAllowed :: "('i, 'b) acl_env \<Rightarrow> int \<Rightarrow> 'i \<Rightarrow> ('i, 'b) acl_data option \<Rightarrow> nat \<times> ('i, 'b) acl_data option" where
  "isCallAllowed E now peer acl =
     (case acl of None \<Rightarrow> (401, None)
      | Some origin \<Rightarrow>
          (case origin peer of None \<Rightarrow> (401, Some origin)
           | Some rule \<Rightarrow>
               (if (case ru_expire rule of None \<Rightarrow> False | Some t \<Rightarrow> now \<ge> t) then (401, Some origin)
                else (case bucket_consume E (ru_callBudget rule) of
                        (ok, b) \<Rightarrow> (if ok then 200 else 429, Some (origin(peer \<mapsto> rule\<lparr>ru_callBudget := b\<rparr>)))))))"

section \<open>Loading\<close>

text \<open>One variable \<^verbatim>\<open>rule\<close> serves all lines; it is moved into the table at the end of each.\<close>

definition field_time :: "('i, 'b) acl_env \<Rightarrow> char list \<Rightarrow> load_error + int option" where
  "field_time E s = (if s = [] then Inr None else (case parse_time E s of None \<Rightarrow> Inl Io_failure | Some t \<Rightarrow> Inr (Some t)))"

definition acl_row :: "('i, 'b) acl_env \<Rightarrow> char list \<Rightarrow> ('i, 'b) acl_data \<times> 'b acl_rule \<Rightarrow> load_error + ('i, 'b) acl_data \<times> 'b acl_rule" where
  "acl_row E linebuf s =
     (let row = split_fields E linebuf; rule = snd s in
      if length row \<noteq> 4 then Inl Bad_number_of_columns
      else (case field_time E (row ! 1) of Inl e \<Rightarrow> Inl e | Inr c \<Rightarrow>
        (let rule1 = (case c of None \<Rightarrow> rule | Some t \<Rightarrow> rule\<lparr>ru_created := t\<rparr>) in
         case field_time E (row ! 2) of Inl e \<Rightarrow> Inl e | Inr x \<Rightarrow>
           (let rule2 = (case x of None \<Rightarrow> rule1 | Some t \<Rightarrow> rule1\<lparr>ru_expire := Some t\<rparr>);
                rule3 = (case to_double E (row ! 3) of None \<Rightarrow> rule2
                         | Some cps \<Rightarrow> rule2\<lparr>ru_callBudget := bucket_reset E (ru_callBudget rule2) cps (max cps 1)\<rparr>)
            in case to_ip E (row ! 0) of None \<Rightarrow> Inl Conversion_error
               | Some ip \<Rightarrow> Inr ((fst s)(ip \<mapsto> rule3), rule3\<lparr>ru_expire := moved E (ru_expire rule3)\<rparr>)))))"

partial_function (option) acl_loop :: "('i, 'b) acl_env \<Rightarrow> istream \<Rightarrow> ('i, 'b) acl_data \<times> 'b acl_rule \<Rightarrow> (load_error + ('i, 'b) acl_data) option" where
  "acl_loop E s d =
     (case peek_eof s of
        Inl e \<Rightarrow> Some (Inl e)
      | Inr x \<Rightarrow>
          (if fst x then Some (Inr (fst d))
           else (case getline (snd x) of
                   Inl e \<Rightarrow> Some (Inl e)
                 | Inr y \<Rightarrow> (case acl_row E (fst y) d of Inl e \<Rightarrow> Some (Inl e) | Inr d' \<Rightarrow> acl_loop E (snd y) d'))))"

lemmas [code] = acl_loop.simps

definition acl_fromCSV :: "('i, 'b) acl_env \<Rightarrow> istream \<Rightarrow> (load_error + ('i, 'b) acl_data) option" where
  "acl_fromCSV E s = acl_loop E s (Map.empty, new_rule E)"

definition acl_commit :: "('i, 'b) acl_data \<Rightarrow> ('i, 'b) acl_data option \<Rightarrow> ('i, 'b) acl_data option" where
  "acl_commit recruit global = Some recruit"

text \<open>\<^verbatim>\<open>loadACLFile\<close>, with \<open>None\<close> for a file that cannot be opened.\<close>

definition loadACLFile :: "('i, 'b) acl_env \<Rightarrow> char list option \<Rightarrow> ('i, 'b) acl_data option \<Rightarrow> (bool \<times> ('i, 'b) acl_data option) option" where
  "loadACLFile E file cur =
     (case file of None \<Rightarrow> Some (False, cur)
      | Some t \<Rightarrow> map_option (\<lambda>r. case r of Inl e \<Rightarrow> (False, cur) | Inr d \<Rightarrow> (True, acl_commit d cur)) (acl_fromCSV E (open_file t)))"

section \<open>What a list of lines means\<close>

lemma acl_loop_step:
  assumes "LF \<notin> set l"
  shows "acl_loop E (good_stream (l @ LF # t)) d = (case acl_row E l d of Inl e \<Rightarrow> Some (Inl e) | Inr d' \<Rightarrow> acl_loop E (good_stream t) d')"
  using assms by (subst acl_loop.simps) (simp add: peek_good getline_line split: sum.splits)

lemma acl_loop_lines:
  assumes "\<forall>l \<in> set ls. LF \<notin> set l"
  shows "acl_loop E (good_stream (unlines ls)) d = Some (case run_lines (acl_row E) ls d of Inl e \<Rightarrow> Inl e | Inr d' \<Rightarrow> Inr (fst d'))"
  using assms
proof (induction ls arbitrary: d)
  case Nil
  then show ?case by (simp add: acl_loop.simps peek_good)
qed (simp add: acl_loop_step split: sum.splits)

lemma acl_loop_last:
  assumes "\<forall>l \<in> set ls. LF \<notin> set l" and "LF \<notin> set l" and "l \<noteq> []"
  shows "\<exists>e. acl_loop E (good_stream (unlines ls @ l)) d = Some (Inl e)"
  using assms(1)
proof (induction ls arbitrary: d)
  case Nil
  have "acl_loop E ((good_stream [])\<lparr>in_eof := True\<rparr>) d' = Some (Inl Io_failure)" for d'
    by (simp add: acl_loop.simps peek_eof_def in_good_def set_failbit_def)
  then show ?case using assms(2,3) by (subst acl_loop.simps) (simp add: peek_good getline_last split: sum.splits)
qed (simp add: acl_loop_step split: sum.splits)

text \<open>What an accepted line says: its address, its expiry and its rate.\<close>

definition line_ip :: "('i, 'b) acl_env \<Rightarrow> char list \<Rightarrow> 'i option" where
  "line_ip E l = to_ip E (split_fields E l ! 0)"

definition line_expire :: "('i, 'b) acl_env \<Rightarrow> char list \<Rightarrow> int option" where
  "line_expire E l = (let s = split_fields E l ! 2 in if s = [] then None else parse_time E s)"

definition refill_bucket :: "('i, 'b) acl_env \<Rightarrow> 'b \<Rightarrow> char list \<Rightarrow> 'b" where
  "refill_bucket E b l = (case to_double E (split_fields E l ! 3) of None \<Rightarrow> b | Some cps \<Rightarrow> bucket_reset E b cps (max cps 1))"

lemma acl_row_result:
  assumes "acl_row E l (d, r) = Inr (d', r')" and "\<forall>x. moved E x = None" and "ru_expire r = None"
  shows "\<exists>ip rule. line_ip E l = Some ip \<and> d' = d(ip \<mapsto> rule) \<and> ru_expire rule = line_expire E l \<and>
    ru_callBudget rule = refill_bucket E (ru_callBudget r) l \<and> ru_callBudget r' = ru_callBudget rule \<and> ru_expire r' = None"
  using assms
  by (auto simp: acl_row_def field_time_def line_ip_def line_expire_def refill_bucket_def Let_def split: if_splits option.splits sum.splits)

lemma run_acl:
  assumes "run_lines (acl_row E) ls (d, r) = Inr (d', r')" and "\<forall>x. moved E x = None" and "ru_expire r = None"
  shows "(Some ip \<notin> line_ip E ` set ls \<longrightarrow> d' ip = d ip) \<and>
    (\<forall>as l bs. ls = as @ l # bs \<and> line_ip E l = Some ip \<and> Some ip \<notin> line_ip E ` set bs \<longrightarrow>
       (\<exists>rule. d' ip = Some rule \<and> ru_expire rule = line_expire E l \<and> ru_callBudget rule = foldl (refill_bucket E) (ru_callBudget r) (as @ [l])))"
  using assms(1,3)
proof (induction ls arbitrary: d r)
  case (Cons l ls)
  obtain d1 r1 where row: "acl_row E l (d, r) = Inr (d1, r1)" and run: "run_lines (acl_row E) ls (d1, r1) = Inr (d', r')"
    using Cons.prems by (auto split: sum.splits)
  obtain ip' rule where l: "line_ip E l = Some ip'" "d1 = d(ip' \<mapsto> rule)" "ru_expire rule = line_expire E l"
    "ru_callBudget rule = refill_bucket E (ru_callBudget r) l" "ru_callBudget r1 = ru_callBudget rule" "ru_expire r1 = None"
    using acl_row_result [OF row assms(2) Cons.prems(2)] by blast
  note IH = Cons.IH [OF run l(6)]
  show ?case
  proof (intro conjI impI allI)
    show "d' ip = d ip" if "Some ip \<notin> line_ip E ` set (l # ls)" using IH that l(1,2) by auto
  next
    fix as k bs
    assume k: "l # ls = as @ k # bs \<and> line_ip E k = Some ip \<and> Some ip \<notin> line_ip E ` set bs"
    show "\<exists>rule. d' ip = Some rule \<and> ru_expire rule = line_expire E k \<and> ru_callBudget rule = foldl (refill_bucket E) (ru_callBudget r) (as @ [k])"
    proof (cases as)
      case Nil
      then have "k = l" "bs = ls" using k by auto
      then show ?thesis using IH k l Nil by auto
    next
      case (Cons a as')
      then show ?thesis using IH k l by auto
    qed
  qed
qed simp

text \<open>
  C19: whom the access list admits. When a file of complete lines was loaded, a peer is answered 401 when no line names it; otherwise the last line that names
  it decides: 401 once its expiry, if it has one, is reached, else 200 or 429 as the bucket gives a token or not, where the bucket is that of all the rates on the lines up to
  this one, so that a line without a readable rate continues the bucket of the line before it. A file whose last line lacks its line end
  is refused and the list stays as it was; without a list everybody is answered 401.
\<close>

theorem acl_decides:
  assumes "\<forall>l \<in> set ls. LF \<notin> set l" and "\<forall>x. moved E x = None"
    and "loadACLFile E (Some (unlines ls)) cur = Some (True, acl)"
  shows "(Some ip \<notin> line_ip E ` set ls \<longrightarrow> fst (isCallAllowed E now ip acl) = 401) \<and>
    (ls = as @ l # bs \<and> line_ip E l = Some ip \<and> Some ip \<notin> line_ip E ` set bs \<longrightarrow>
       fst (isCallAllowed E now ip acl) =
         (if (case line_expire E l of None \<Rightarrow> False | Some t \<Rightarrow> now \<ge> t) then 401
          else if fst (bucket_consume E (foldl (refill_bucket E) (bucket_init E) (as @ [l]))) then 200 else 429)) \<and>
    (LF \<notin> set k \<and> k \<noteq> [] \<longrightarrow> loadACLFile E (Some (unlines ls @ k)) cur = Some (False, cur)) \<and>
    isCallAllowed E now ip None = (401, None)"
proof -
  obtain d r where d: "run_lines (acl_row E) ls (Map.empty, new_rule E) = Inr (d, r)" "acl = Some d"
    using assms(3) acl_loop_lines [OF assms(1), of E "(Map.empty, new_rule E)"]
    by (auto simp: loadACLFile_def acl_fromCSV_def open_file_def acl_commit_def split: sum.splits)
  note run = run_acl [OF d(1) assms(2), of ip]
  show ?thesis
  proof (intro conjI impI)
    show "fst (isCallAllowed E now ip acl) = 401" if "Some ip \<notin> line_ip E ` set ls"
      using run that d(2) by (simp add: isCallAllowed_def new_rule_def)
    show "fst (isCallAllowed E now ip acl) =
         (if (case line_expire E l of None \<Rightarrow> False | Some t \<Rightarrow> now \<ge> t) then 401
          else if fst (bucket_consume E (foldl (refill_bucket E) (bucket_init E) (as @ [l]))) then 200 else 429)"
      if k: "ls = as @ l # bs \<and> line_ip E l = Some ip \<and> Some ip \<notin> line_ip E ` set bs"
    proof -
      obtain rule where "d ip = Some rule" "ru_expire rule = line_expire E l"
          "ru_callBudget rule = foldl (refill_bucket E) (bucket_init E) (as @ [l])"
        using run [THEN conjunct2, rule_format, OF _ k] by (auto simp: new_rule_def)
      then show ?thesis using d(2) by (auto simp: isCallAllowed_def split: prod.splits)
    qed
    show "loadACLFile E (Some (unlines ls @ k)) cur = Some (False, cur)" if "LF \<notin> set k \<and> k \<noteq> []"
      using acl_loop_last [OF assms(1), of k E "(Map.empty, new_rule E)"] that by (auto simp: loadACLFile_def acl_fromCSV_def open_file_def)
    show "isCallAllowed E now ip None = (401, None)" by (simp add: isCallAllowed_def)
  qed
qed

definition sample_env :: "(char list, int) acl_env" where
  "sample_env = \<lparr>split_fields = (\<lambda>l. if l = ''a,,,'' then [''a'', [], [], []] else [''b'', [], ''t'', ''3'']), to_ip = Some, parse_time = (\<lambda>_. Some 50),
     to_double = (\<lambda>s. if s = [] then None else Some 3), moved = (\<lambda>_. None), bucket_init = 0, bucket_reset = (\<lambda>b r n. 1),
     bucket_consume = (\<lambda>b. (0 < b, b - 1))\<rparr>"

theorem acl_decides_witness:
  "\<exists>acl. loadACLFile sample_env (Some (unlines [''b,,t,3'', ''a,,,''])) None = Some (True, acl) \<and>
    fst (isCallAllowed sample_env 7 ''a'' acl) = 200 \<and> fst (isCallAllowed sample_env 7 ''c'' acl) = 401"
proof -
  let ?ls = "[''b,,t,3'', ''a,,,'']"
  have lf: "\<forall>l \<in> set ?ls. LF \<notin> set l" by simp
  have mv: "\<forall>x. moved sample_env x = None" by (simp add: sample_env_def)
  have "\<exists>acl. loadACLFile sample_env (Some (unlines ?ls)) None = Some (True, acl)"
    using acl_loop_lines [OF lf, of sample_env "(Map.empty, new_rule sample_env)"]
    by (simp add: loadACLFile_def acl_fromCSV_def open_file_def acl_row_def field_time_def sample_env_def Let_def)
  then obtain acl where acl: "loadACLFile sample_env (Some (unlines ?ls)) None = Some (True, acl)" by blast
  have "fst (isCallAllowed sample_env 7 ''a'' acl) = 200"
    using acl_decides [OF lf mv acl, of "''a''" 7 "[''b,,t,3'']" "''a,,,''" "[]"]
    by (simp add: line_ip_def line_expire_def refill_bucket_def sample_env_def)
  moreover have "fst (isCallAllowed sample_env 7 ''c'' acl) = 401"
    using acl_decides [OF lf mv acl, of "''c''" 7] by (simp add: line_ip_def sample_env_def)
  ultimately show ?thesis using acl by blast
qed

end
