(* ===== verification/Control.thy ===== *)
theory Control
  imports Tables_Lookup Acl
begin

text \<open>
  The control socket of \<^verbatim>\<open>callfwd/Control.cpp\<close>: the loaders of all databases, \<^verbatim>\<open>verifyMappingFile\<close>, \<^verbatim>\<open>dumpMappingFile\<close> and
  \<^verbatim>\<open>ControlThread::dispatch\<close> over the atomic globals of the process. A message is given by the values that \<^verbatim>\<open>dispatch\<close> takes from its JSON object; the
  files of its descriptors are the functions \<open>in_file\<close> (\<open>None\<close> when it cannot be opened) and \<open>out_ok\<close>. Logging, the progress
  reports and the metadata that is only printed are left out. Behaviour that C++ does not define is the value \<open>None\<close>.
\<close>

section \<open>The globals\<close>

record ('p, 'l, 'y, 'g, 't, 'n, 's) f14_maps =
  F_pn :: "'p phone_map"
  F_lerg :: "'l lerg_map"
  F_youmail :: "('y, 64 word, youmail_data) f14_map"
  F_geo :: "('g, 64 word, geo_data) f14_map"
  F_ftc :: "('t, 64 word, ftc_data) f14_map"
  F_404 :: "('n, 64 word, f404_data) f14_map"
  F_606 :: "('s, 64 word, f606_data) f14_map"

record ('p, 'l, 'y, 'g, 't, 'n, 's, 'i, 'b) globals = "'p mappings" +
  mappingDNC :: "'p phone_data option"
  mappingDNO :: "'p dno_data option"
  mappingTollFree :: "'p phone_data option"
  mappingLerg :: "'l lerg_tables option"
  mappingYoumail :: "'y phone_data option"
  mappingGeo :: "'g phone_data option"
  mappingFtc :: "'t phone_data option"
  mapping404 :: "'n phone_data option"
  mapping606 :: "'s phone_data option"
  currentACL :: "('i, 'b) acl_data option"

section \<open>Loading the tables\<close>

text \<open>The handlers of the loaders catch \<^verbatim>\<open>std::runtime_error\<close>; the exceptions of \<^verbatim>\<open>std::stoll\<close> are logic errors.\<close>

definition is_runtime_error :: "load_error \<Rightarrow> bool" where
  "is_runtime_error e \<longleftrightarrow> e \<notin> {Invalid_argument, Out_of_range}"

text \<open>
  The common text of the loaders: \<open>bld\<close> is the \<^verbatim>\<open>build\<close> of the table, which \<^verbatim>\<open>commit\<close> calls before it exchanges the global \<open>cur\<close>. The result is an exception that
  leaves the loader, or what it returns, and the new global.
\<close>

definition load_table :: "(char list \<Rightarrow> 'b \<Rightarrow> load_error + 'b) \<Rightarrow> 'b \<Rightarrow> ('b \<Rightarrow> 'b) \<Rightarrow> char list option \<Rightarrow> 'b option
    \<Rightarrow> ((load_error + bool) \<times> 'b option) option" where
  "load_table row new bld file cur =
     (case file of
        None \<Rightarrow> Some (Inr False, cur)
      | Some t \<Rightarrow> Option.bind (load_file row t new) (\<lambda>r. case r of
            Inl e \<Rightarrow> if e = Out_of_bounds then None else if is_runtime_error e then Some (Inr False, cur) else Some (Inl e, cur)
          | Inr x \<Rightarrow> Some (Inr True, Some (bld (snd x)))))"

definition loadDNCMappingFile where
  "loadDNCMappingFile junk F file g =
     map_option (\<lambda>(r, m). (r, g\<lparr>mappingDNC := m\<rparr>)) (load_table (dnc_row junk (F_pn F)) (table_empty (F_pn F)) dnc_build file (mappingDNC g))"

definition loadDnoMappingFile where
  "loadDnoMappingFile F dnotype file g =
     map_option (\<lambda>(r, m). (r, g\<lparr>mappingDNO := m\<rparr>)) (load_table (dno_row (F_pn F) dnotype) (dno_empty (F_pn F)) (\<lambda>d. d) file (mappingDNO g))"

definition loadTollFreeMappingFile where
  "loadTollFreeMappingFile F file g =
     map_option (\<lambda>(r, m). (r, g\<lparr>mappingTollFree := m\<rparr>)) (load_table (tollfree_row (F_pn F)) (table_empty (F_pn F)) tollfree_build file (mappingTollFree g))"

definition loadLergMappingFile where
  "loadLergMappingFile F file g =
     map_option (\<lambda>(r, m). (r, g\<lparr>mappingLerg := m\<rparr>)) (load_table (lerg_row (F_lerg F)) (lerg_empty (F_lerg F)) lerg_build file (mappingLerg g))"

definition loadYoumailMappingFile where
  "loadYoumailMappingFile F file g =
     map_option (\<lambda>(r, m). (r, g\<lparr>mappingYoumail := m\<rparr>)) (load_table (youmail_row (F_youmail F)) (table_empty (F_youmail F)) youmail_build file (mappingYoumail g))"

definition loadGeoMappingFile where
  "loadGeoMappingFile F file g =
     map_option (\<lambda>(r, m). (r, g\<lparr>mappingGeo := m\<rparr>)) (load_table (geo_row (F_geo F)) (table_empty (F_geo F)) geo_build file (mappingGeo g))"

definition loadFtcMappingFile where
  "loadFtcMappingFile F file g =
     map_option (\<lambda>(r, m). (r, g\<lparr>mappingFtc := m\<rparr>)) (load_table (ftc_row (F_ftc F)) (table_empty (F_ftc F)) ftc_build file (mappingFtc g))"

definition load404MappingFile where
  "load404MappingFile F file g =
     map_option (\<lambda>(r, m). (r, g\<lparr>mapping404 := m\<rparr>)) (load_table (f404_row (F_404 F)) (table_empty (F_404 F)) f404_build file (mapping404 g))"

definition load606MappingFile where
  "load606MappingFile F file g =
     map_option (\<lambda>(r, m). (r, g\<lparr>mapping606 := m\<rparr>)) (load_table (f606_row (F_606 F)) (table_empty (F_606 F)) f606_build file (mapping606 g))"

section \<open>Verifying and dumping\<close>

text \<open>A step of the nested loops goes on, or the function returns false, from the limit of differences or from the handler.\<close>

datatype 'a early = Return_false | Go_on 'a

definition verify_maxdiff :: nat where
  "verify_maxdiff = 100"

primrec verify_chunk :: "(char list \<Rightarrow> 64 word list option) \<Rightarrow> 'd phone_map \<Rightarrow> nat \<Rightarrow> 'd phone_data option \<Rightarrow> nat \<Rightarrow> istream \<Rightarrow> nat \<Rightarrow> nat
    \<Rightarrow> (istream \<times> nat \<times> nat) early option" where
  "verify_chunk split F pf db 0 s nrows maxdiff = Some (Go_on (s, nrows, maxdiff))"
| "verify_chunk split F pf db (Suc n) s nrows maxdiff =
     (case peek_eof s of
        Inl e \<Rightarrow> Some Return_false
      | Inr (at_eof, s1) \<Rightarrow>
          (if at_eof then Some (Go_on (s1, nrows, maxdiff))
           else (case getline s1 of
                   Inl e \<Rightarrow> Some Return_false
                 | Inr (l, s2) \<Rightarrow>
                     (case split l of
                        None \<Rightarrow> Some Return_false
                      | Some row \<Rightarrow>
                          (if length row < 2 then None
                           else do {
                             d \<leftarrow> db;
                             rn \<leftarrow> getRN F pf d (row ! 0);
                             if rn = row ! 1 then verify_chunk split F pf db n s2 (nrows + 1) maxdiff
                             else if maxdiff - 1 = 0 then Some Return_false
                             else verify_chunk split F pf db n s2 (nrows + 1) (maxdiff - 1)
                           })))))"

partial_function (option) verify_loop :: "(char list \<Rightarrow> 64 word list option) \<Rightarrow> 'd phone_map \<Rightarrow> nat \<Rightarrow> 'd phone_data option \<Rightarrow> nat \<Rightarrow> istream \<Rightarrow> nat \<Rightarrow> nat
    \<Rightarrow> nat early option" where
  "verify_loop split F pf db K s nrows maxdiff =
     (if in_good s then
        Option.bind (verify_chunk split F pf db K s nrows maxdiff) (\<lambda>r. case r of
            Return_false \<Rightarrow> Some Return_false
          | Go_on x \<Rightarrow> verify_loop split F pf db K (fst x) (fst (snd x)) (snd (snd x)))
      else Some (Go_on nrows))"

lemmas [code] = verify_loop.simps

definition db_size :: "'d phone_data option \<Rightarrow> nat option" where
  "db_size db = map_option (\<lambda>d. length (pd_pnColumn d)) db"

definition db_of :: "char list \<Rightarrow> ('d, 'z) mappings_scheme \<Rightarrow> 'd phone_data option" where
  "db_of country g = (if country = ''CA'' then mappingCA g else mappingUS g)"

definition verifyMappingFile :: "(char list \<Rightarrow> 64 word list option) \<Rightarrow> 'd phone_map \<Rightarrow> nat \<Rightarrow> char list \<Rightarrow> char list option \<Rightarrow> ('d, 'z) mappings_scheme \<Rightarrow> bool option" where
  "verifyMappingFile split F pf country file g =
     (let db = db_of country g in
      case file of None \<Rightarrow> Some False
      | Some t \<Rightarrow> Option.bind (verify_loop split F pf db LOAD_CHUNK (open_file t) 0 verify_maxdiff) (\<lambda>r. case r of
            Return_false \<Rightarrow> Some False
          | Go_on nrows \<Rightarrow> map_option (\<lambda>n. nrows = n) (db_size db)))"

fun dec_text :: "nat \<Rightarrow> char list" where
  "dec_text n = (if n < 10 then [char_of (48 + n)] else dec_text (n div 10) @ [char_of (48 + n mod 10)])"

declare dec_text.simps [simp del]

definition row_text :: "64 word \<times> 64 word \<Rightarrow> char list" where
  "row_text r = dec_text (unat (fst r)) @ '','' @ dec_text (unat (snd r)) @ [CR, LF]"

primrec dump_chunk :: "'d phone_map \<Rightarrow> nat \<Rightarrow> 'd phone_data \<Rightarrow> nat \<Rightarrow> cursor option \<Rightarrow> char list \<Rightarrow> nat \<Rightarrow> (cursor option \<times> char list \<times> nat) option" where
  "dump_chunk F pf d 0 cu out nrows = Some (cu, out, nrows)"
| "dump_chunk F pf d (Suc i) cu out nrows =
     (case cu of None \<Rightarrow> Some (cu, out, nrows)
      | Some c \<Rightarrow> do { row \<leftarrow> currentRow c; cu' \<leftarrow> advance F pf d c; dump_chunk F pf d i cu' (out @ row_text row) (nrows + 1) })"

partial_function (option) dump_loop :: "'d phone_map \<Rightarrow> nat \<Rightarrow> 'd phone_data \<Rightarrow> nat \<Rightarrow> cursor option \<Rightarrow> char list \<Rightarrow> nat \<Rightarrow> (char list \<times> nat) option" where
  "dump_loop F pf d K cu out nrows =
     (if cu = None then Some (out, nrows)
      else Option.bind (dump_chunk F pf d K cu out nrows) (\<lambda>x. dump_loop F pf d K (fst x) (fst (snd x)) (snd (snd x))))"

lemmas [code] = dump_loop.simps

text \<open>The result is what the function returns and the contents of the file; \<open>ok\<close> tells whether it can be opened and written.\<close>

definition dumpMappingFile :: "'d phone_map \<Rightarrow> nat \<Rightarrow> char list \<Rightarrow> bool \<Rightarrow> ('d, 'z) mappings_scheme \<Rightarrow> (bool \<times> char list) option" where
  "dumpMappingFile F pf country ok g =
     (if \<not> ok then Some (False, [])
      else do { d \<leftarrow> db_of country g; cu \<leftarrow> visitRows F pf d; x \<leftarrow> dump_loop F pf d LOAD_CHUNK cu [] 0; Some (True, fst x) })"

section \<open>Commands\<close>

record ctl_msg =
  m_cmd :: "char list option"
  m_stdin :: int
  m_stdout :: int
  m_stderr :: int
  m_country :: "char list"

text \<open>The status byte sent to the peer, if any, the descriptors closed, and the file written, if any.\<close>

record ctl_out =
  co_reply :: "char option"
  co_closed :: "int list"
  co_dump :: "(int \<times> char list) option"

record ('p, 'l, 'y, 'g, 't, 'n, 's, 'i, 'b) ctl_env =
  ce_split :: "char list \<Rightarrow> 64 word list option"
  ce_maps :: "('p, 'l, 'y, 'g, 't, 'n, 's) f14_maps"
  ce_acl :: "('i, 'b) acl_env"
  ce_pf :: nat

text \<open>The lambda \<^verbatim>\<open>mapfd\<close>; \<open>None\<close> is the exception of \<^verbatim>\<open>std::vector::at\<close>.\<close>

definition mapfd :: "int list \<Rightarrow> int \<Rightarrow> int option" where
  "mapfd argfd index = (if index \<ge> 0 then (if nat index < length argfd then Some (argfd ! nat index) else None) else Some index)"

definition run_command where
  "run_command E junk in_file out_ok cmd country fd_in fd_out g =
     (let F = ce_maps E; file = in_file fd_in; plain = map_option (\<lambda>(r, g'). (r, g', None)) in
      if cmd = ''reload'' then
        (case file of None \<Rightarrow> Some (Inr False, g, None)
         | Some t \<Rightarrow> map_option (\<lambda>(b, g'). (Inr b, g', None)) (loadMappingFile (ce_split E) (F_pn F) country t g))
      else if cmd = ''dnc_reload'' then plain (loadDNCMappingFile junk F file g)
      else if cmd = ''tollfree_reload'' then plain (loadTollFreeMappingFile F file g)
      else if cmd = ''dno_npa_reload'' then plain (loadDnoMappingFile F ''dno_npa'' file g)
      else if cmd = ''dno_reload'' then plain (loadDnoMappingFile F ''dno'' file g)
      else if cmd = ''dno_npa_nxx_reload'' then plain (loadDnoMappingFile F ''dno_npa_nxx'' file g)
      else if cmd = ''dno_npa_nxx_x_reload'' then plain (loadDnoMappingFile F ''dno_npa_nxx_x'' file g)
      else if cmd = ''lerg_reload'' then plain (loadLergMappingFile F file g)
      else if cmd = ''youmail_reload'' then plain (loadYoumailMappingFile F file g)
      else if cmd = ''geo_reload'' then plain (loadGeoMappingFile F file g)
      else if cmd = ''ftc_reload'' then plain (loadFtcMappingFile F file g)
      else if cmd = ''404_reload'' then plain (load404MappingFile F file g)
      else if cmd = ''606_reload'' then plain (load606MappingFile F file g)
      else if cmd = ''verify'' then map_option (\<lambda>b. (Inr b, g, None)) (verifyMappingFile (ce_split E) (F_pn F) (ce_pf E) country file g)
      else if cmd = ''dump'' then map_option (\<lambda>(b, t). (Inr b, g, Some (fd_out, t))) (dumpMappingFile (F_pn F) (ce_pf E) country (out_ok fd_out) g)
      else if cmd = ''acl'' then map_option (\<lambda>(b, acl). (Inr b, g\<lparr>currentACL := acl\<rparr>, None)) (loadACLFile (ce_acl E) file (currentACL g))
      else if cmd = ''meta'' then Some (Inr True, g, None)
      else Some (Inr False, g, None))"

text \<open>An exception that reaches \<^verbatim>\<open>dispatch\<close> is logged there: no status is sent and no descriptor is closed.\<close>

definition no_reply :: ctl_out where
  "no_reply = \<lparr>co_reply = None, co_closed = [], co_dump = None\<rparr>"

definition send_status :: "int list \<Rightarrow> (int \<times> char list) option \<Rightarrow> load_error + bool \<Rightarrow> ctl_out" where
  "send_status argfd dump r = (case r of Inl e \<Rightarrow> no_reply
     | Inr ok \<Rightarrow> \<lparr>co_reply = Some (if ok then CHR ''S'' else CHR ''F''), co_closed = argfd, co_dump = dump\<rparr>)"

definition dispatch where
  "dispatch E junk in_file out_ok msg argfd g =
     (case (m_cmd msg, mapfd argfd (m_stdin msg), mapfd argfd (m_stdout msg), mapfd argfd (m_stderr msg)) of
        (Some cmd, Some fd_in, Some fd_out, Some fd_err) \<Rightarrow>
          map_option (\<lambda>(r, g', dump). (g', send_status argfd dump r))
            (run_command E junk in_file out_ok cmd (m_country msg) fd_in fd_out g)
      | _ \<Rightarrow> Some (g, no_reply))"

section \<open>The control thread\<close>

text \<open>
  A packet carries descriptors or not, and a message or text that is no JSON. The vector \<^verbatim>\<open>argfd_\<close> is a member of the thread and is
  only replaced by a packet with descriptors. Every message is served by a thread of its own; a served message changes at most one global,
  by one atomic exchange at its end, so that serving it is one step.
\<close>

record packet =
  pk_fds :: "int list option"
  pk_msg :: "ctl_msg option"

record ('p, 'l, 'y, 'g, 't, 'n, 's, 'i, 'b) control =
  ct_globals :: "('p, 'l, 'y, 'g, 't, 'n, 's, 'i, 'b) globals"
  ct_argfd :: "int list"
  ct_pending :: "(ctl_msg \<times> int list) list"
  ct_closed :: "int list"

definition awaitMessage :: "packet \<Rightarrow> ('p, 'l, 'y, 'g, 't, 'n, 's, 'i, 'b) control \<Rightarrow> ('p, 'l, 'y, 'g, 't, 'n, 's, 'i, 'b) control" where
  "awaitMessage pk c =
     (let fds = (case pk_fds pk of Some l \<Rightarrow> l | None \<Rightarrow> ct_argfd c)
      in c\<lparr>ct_argfd := fds, ct_pending := ct_pending c @ (case pk_msg pk of None \<Rightarrow> [] | Some m \<Rightarrow> [(m, fds)])\<rparr>)"

inductive control_step :: "('p, 'l, 'y, 'g, 't, 'n, 's, 'i, 'b) ctl_env \<Rightarrow> ('p, 'l, 'y, 'g, 't, 'n, 's, 'i, 'b) control
    \<Rightarrow> ('p, 'l, 'y, 'g, 't, 'n, 's, 'i, 'b) control \<Rightarrow> bool" for E where
  Receive: "control_step E c (awaitMessage pk c)"
| Serve: "ct_pending c = xs @ (m, fds) # ys \<Longrightarrow> dispatch E junk in_file out_ok m fds (ct_globals c) = Some (g', out) \<Longrightarrow>
    control_step E c (c\<lparr>ct_globals := g', ct_pending := xs @ ys, ct_closed := ct_closed c @ co_closed out\<rparr>)"

definition no_globals :: "('p, 'l, 'y, 'g, 't, 'n, 's, 'i, 'b) globals" where
  "no_globals = \<lparr>mappingUS = None, mappingCA = None, mappingDNC = None, mappingDNO = None, mappingTollFree = None, mappingLerg = None,
     mappingYoumail = None, mappingGeo = None, mappingFtc = None, mapping404 = None, mapping606 = None, currentACL = None\<rparr>"

definition control_init :: "('p, 'l, 'y, 'g, 't, 'n, 's, 'i, 'b) control" where
  "control_init = \<lparr>ct_globals = no_globals, ct_argfd = [], ct_pending = [], ct_closed = []\<rparr>"

inductive_cases control_stepE: "control_step E c c'"

end
