(* ===== verification/Control_Run.thy ===== *)
theory Control_Run
  imports Control
begin

text \<open>
  What the control socket does: \<^verbatim>\<open>verify\<close> and \<^verbatim>\<open>dump\<close> against the rows of the database, and the runs of the control thread as sequences of
  steps. \<open>globals_ok\<close> holds of the globals after every command; \<open>keeps\<close> is what every command shares.
\<close>

section \<open>Verifying and dumping the rows\<close>

lemma getRN_eq: "0 < pf \<Longrightarrow> getRN F pf d pn = Some (find_rn F d pn)"
  by (simp add: getRN_def getRNs_eq)

lemma verify_chunk_lines:
  assumes "list_all2 (\<lambda>l r. LF \<notin> set l \<and> split l = Some [fst r, snd r]) ls rs" and "0 < pf" and "0 < maxdiff"
  shows "verify_chunk split F pf (Some d) n (good_stream (unlines ls)) nrows maxdiff =
    (let D = length (filter (\<lambda>r. find_rn F d (fst r) \<noteq> snd r) (take n rs)) in
     Some (if maxdiff \<le> D then Return_false
           else Go_on ((good_stream (unlines (drop n ls)))\<lparr>in_eof := length ls < n\<rparr>, nrows + min n (length ls), maxdiff - D)))"
  using assms(1,3)
proof (induction n arbitrary: ls rs nrows maxdiff)
  case (Suc n)
  show ?case
  proof (cases ls)
    case Nil
    then show ?thesis using Suc.prems by (simp add: peek_good Let_def)
  next
    case (Cons l ls')
    then obtain r rs' where r: "rs = r # rs'" "LF \<notin> set l" "split l = Some [fst r, snd r]"
      "list_all2 (\<lambda>l r. LF \<notin> set l \<and> split l = Some [fst r, snd r]) ls' rs'"
      using Suc.prems by (auto simp: list_all2_Cons1)
    note IH = Suc.IH [OF r(4)]
    show ?thesis
      using Cons r(1-3) assms(2) Suc.prems(2) IH [of maxdiff "nrows + 1"] IH [of "maxdiff - 1" "nrows + 1"]
      by (auto simp: peek_good getline_line getRN_eq Let_def)
  qed
qed (simp add: Let_def)

lemma verify_loop_lines:
  assumes "list_all2 (\<lambda>l r. LF \<notin> set l \<and> split l = Some [fst r, snd r]) ls rs" and "0 < pf" and "0 < maxdiff" and "0 < K"
  shows "verify_loop split F pf (Some d) K (good_stream (unlines ls)) nrows maxdiff =
    Some (if maxdiff \<le> length (filter (\<lambda>r. find_rn F d (fst r) \<noteq> snd r) rs) then Return_false else Go_on (nrows + length ls))"
  using assms(1,3)
proof (induction "length ls" arbitrary: ls rs nrows maxdiff rule: less_induct)
  case less
  let ?df = "\<lambda>rs. length (filter (\<lambda>r. find_rn F d (fst r) \<noteq> snd r) rs)"
  note chunk = verify_chunk_lines [OF less.prems(1) assms(2) less.prems(2), of F d K nrows]
  have len: "length ls = length rs" using less.prems(1) by (rule list_all2_lengthD)
  have D: "?df rs = ?df (take K rs) + ?df (drop K rs)" by (metis append_take_drop_id filter_append length_append)
  have g: "in_good (good_stream t)" for t by (simp add: in_good_def)
  show ?case
  proof (cases "length ls < K")
    case True
    then have "verify_loop split F pf (Some d) K ((good_stream (unlines (drop K ls)))\<lparr>in_eof := length ls < K\<rparr>) n m = Some (Go_on n)" for n m
      by (subst verify_loop.simps) (simp add: in_good_def)
    then show ?thesis using chunk g True len by (subst verify_loop.simps) (simp add: Let_def)
  next
    case False
    have "list_all2 (\<lambda>l r. LF \<notin> set l \<and> split l = Some [fst r, snd r]) (drop K ls) (drop K rs)" using less.prems(1) by (rule list_all2_dropI)
    moreover have "length (drop K ls) < length ls" using False assms(4) by simp
    ultimately have IH: "0 < m \<Longrightarrow> verify_loop split F pf (Some d) K (good_stream (unlines (drop K ls))) n m =
        Some (if m \<le> ?df (drop K rs) then Return_false else Go_on (n + length (drop K ls)))" for n m
      using less.hyps by blast
    show ?thesis
    proof (cases "maxdiff \<le> ?df (take K rs)")
      case True
      then have "maxdiff \<le> ?df rs" using D by linarith
      then show ?thesis using chunk g True by (subst verify_loop.simps) (simp add: Let_def)
    next
      case le: False
      then have "verify_loop split F pf (Some d) K (good_stream (unlines ls)) nrows maxdiff =
          verify_loop split F pf (Some d) K (good_stream (unlines (drop K ls))) (nrows + K) (maxdiff - ?df (take K rs))"
        using chunk g False by (subst verify_loop.simps) (simp add: Let_def)
      moreover have "(maxdiff - ?df (take K rs) \<le> ?df (drop K rs)) = (maxdiff \<le> ?df rs)" using D by linarith
      moreover have "nrows + K + length (drop K ls) = nrows + length ls" using False by simp
      ultimately show ?thesis using IH [of "maxdiff - ?df (take K rs)" "nrows + K"] le by simp
    qed
  qed
qed


lemma dump_chunk_rows:
  assumes "all_rows F pf d cu = Some rows"
  shows "\<exists>cu'. dump_chunk F pf d K cu out n = Some (cu', out @ concat (map row_text (take K rows)), n + min K (length rows)) \<and>
    all_rows F pf d cu' = Some (drop K rows)"
  using assms
proof (induction K arbitrary: cu rows out n)
  case (Suc K)
  show ?case
  proof (cases cu)
    case None
    then show ?thesis using Suc.prems by (simp add: all_rows.simps)
  next
    case (Some c)
    then obtain row cu' rest where c: "currentRow c = Some row" "advance F pf d c = Some cu'" "all_rows F pf d cu' = Some rest" "rows = row # rest"
      using Suc.prems by (auto simp: all_rows.simps [of _ _ _ "Some _"] bind_eq_Some_conv)
    show ?thesis using Some c(1,2,4) Suc.IH [OF c(3), of "out @ row_text row" "n + 1"] by simp
  qed
qed simp

lemma dump_loop_rows:
  assumes "all_rows F pf d cu = Some rows" and "0 < K"
  shows "dump_loop F pf d K cu out n = Some (out @ concat (map row_text rows), n + length rows)"
  using assms(1)
proof (induction "length rows" arbitrary: rows cu out n rule: less_induct)
  case less
  show ?case
  proof (cases cu)
    case None
    then show ?thesis using less.prems by (simp add: all_rows.simps dump_loop.simps)
  next
    case (Some c)
    then have ne: "rows \<noteq> []" using less.prems by (auto simp: all_rows.simps [of _ _ _ "Some _"] bind_eq_Some_conv)
    obtain cu' where ch: "dump_chunk F pf d K cu out n = Some (cu', out @ concat (map row_text (take K rows)), n + min K (length rows))"
      and rest: "all_rows F pf d cu' = Some (drop K rows)"
      using dump_chunk_rows [OF less.prems] by blast
    have "length (drop K rows) < length rows" using ne assms(2) by simp
    note IH = less.hyps [OF this rest, of "out @ concat (map row_text (take K rows))" "n + min K (length rows)"]
    have "concat (map row_text rows) = concat (map row_text (take K rows)) @ concat (map row_text (drop K rows))"
      by (metis append_take_drop_id concat_append map_append)
    then show ?thesis using Some ch IH by (subst dump_loop.simps) simp
  qed
qed


lemma verify_database:
  assumes "f14_laws F" and "database F rs d" and "0 < pf"
    and "list_all2 (\<lambda>l r. LF \<notin> set l \<and> split l = Some [fst r, snd r]) ls qs" and "db_of country g = Some d"
  shows "verifyMappingFile split F pf country (Some (unlines ls)) g =
      Some (length (filter (\<lambda>q. (case map_of rs (fst q) of Some rn \<Rightarrow> rn | None \<Rightarrow> NONE) \<noteq> snd q) qs) < 100 \<and> length qs = length rs)"
  using list_all2_lengthD [OF assms(4)] verify_loop_lines [OF assms(4,3), of verify_maxdiff LOAD_CHUNK F d 0] database_data(3) [OF assms(1,2)]
    database_column(1) [OF assms(1,2)] assms(5)
  by (simp add: verifyMappingFile_def open_file_def verify_maxdiff_def LOAD_CHUNK_def db_size_def Let_def)

text \<open>
  C24: What \<^verbatim>\<open>verify\<close> compares. For a loaded database and a file whose lines are rows, the answer is true exactly when the file has as many rows as
  the database and fewer than one hundred of them differ from it; when the country was never loaded, a file with a line makes the process
  read through a null pointer.
\<close>

theorem verifyMappingFile_rows:
  assumes "f14_laws F" and "database F rs d" and "0 < pf"
    and "list_all2 (\<lambda>l r. LF \<notin> set l \<and> split l = Some [fst r, snd r]) ls qs"
  shows "(db_of country g = Some d \<longrightarrow> verifyMappingFile split F pf country (Some (unlines ls)) g =
      Some (length (filter (\<lambda>q. (case map_of rs (fst q) of Some rn \<Rightarrow> rn | None \<Rightarrow> NONE) \<noteq> snd q) qs) < 100 \<and> length qs = length rs)) \<and>
    (db_of country g = None \<and> ls \<noteq> [] \<longrightarrow> verifyMappingFile split F pf country (Some (unlines ls)) g = None)"
proof (intro conjI impI)
  show "verifyMappingFile split F pf country (Some (unlines ls)) g =
      Some (length (filter (\<lambda>q. (case map_of rs (fst q) of Some rn \<Rightarrow> rn | None \<Rightarrow> NONE) \<noteq> snd q) qs) < 100 \<and> length qs = length rs)"
    if "db_of country g = Some d"
    using that by (rule verify_database [OF assms])
  show "verifyMappingFile split F pf country (Some (unlines ls)) g = None" if n: "db_of country g = None \<and> ls \<noteq> []"
  proof -
    obtain l ls' where l: "ls = l # ls'" using n by (cases ls) auto
    then obtain q where "LF \<notin> set l" "split l = Some [fst q, snd q]" using assms(4) by (auto simp: list_all2_Cons1)
    then have "verify_chunk split F pf None (Suc k) (good_stream (unlines ls)) 0 m = None" for k m
      using l by (simp add: peek_good getline_line)
    from this [of 9999] show ?thesis using n
      by (simp add: verifyMappingFile_def open_file_def LOAD_CHUNK_def verify_loop.simps in_good_def Let_def del: verify_chunk.simps)
  qed
qed

theorem verifyMappingFile_rows_witness:
  "\<exists>d. database map_f14 [(1, 2), (3, 4)] d \<and>
    verifyMappingFile (\<lambda>l. if l = ''1,9'' then Some [1, 9] else Some [3, 4]) map_f14 16 ''US'' (Some (unlines [''1,9'', ''3,4'']))
      \<lparr>mappingUS = Some d, mappingCA = None\<rparr> = Some True"
proof -
  have "\<exists>d. add_rows map_f14 (empty_data map_f14) [(1, 2), (3, 4)] = Inr d"
    using add_rows_iff [OF map_f14_laws, of "empty_data map_f14" "[(1, 2), (3, 4)]"] by (simp add: empty_data_def MAXROWS_def map_f14_def)
  then obtain d where d: "database map_f14 [(1, 2), (3, 4)] d" by (auto simp: database_def)
  then show ?thesis
    using verifyMappingFile_rows [OF map_f14_laws d, of 16 "\<lambda>l. if l = ''1,9'' then Some [1, 9] else Some [3, 4]" "[''1,9'', ''3,4'']" "[(1, 9), (3, 4)]"
      "''US''" "\<lparr>mappingUS = Some d, mappingCA = None\<rparr>"] by (auto simp: db_of_def)
qed

lemma dec_text_digits: "LF \<notin> set (dec_text n)"
proof (induction n rule: dec_text.induct)
  case (1 n)
  have "char_of (48 + k) \<noteq> LF" if "k < 10" for k :: nat
  proof
    assume "char_of (48 + k) = LF"
    then have "of_char (char_of (48 + k) :: char) = (10 :: nat)" by simp
    with that show False by simp
  qed
  from this [of n] this [of "n mod 10"] show ?case using 1 by (subst dec_text.simps) (auto dest: sym)
qed

text \<open>
  C17: dump and reload. The rows of a loaded database with numbers below \<open>2 ^ 34\<close> are dumped to a text; when \<^verbatim>\<open>folly::split\<close> reads the printed numbers back (it
  skips the carriage return, as it does white space), loading this text gives the very same database, whatever was loaded before, and verifying the database against it succeeds.
\<close>

theorem dump_load_roundtrip:
  assumes "f14_laws F" and "database F rs d" and "0 < pf" and "\<forall>r \<in> set rs. fst r < 2 ^ 34" and "db_of country g = Some d"
    and "\<forall>r \<in> set rs. split (butlast (row_text r)) = Some [fst r, snd r]"
  shows "\<exists>t. dumpMappingFile F pf country True g = Some (True, t) \<and>
    loadMappingFile split F c t h = Some (True, if c = ''CA'' then h\<lparr>mappingCA := Some d\<rparr> else h\<lparr>mappingUS := Some d\<rparr>) \<and>
    verifyMappingFile split F pf country (Some t) g = Some True"
proof -
  let ?ls = "map (\<lambda>r. butlast (row_text r)) rs"
  obtain d0 where d0: "add_rows F (empty_data F) rs = Inr d0" "d = build d0" using assms(2) by (auto simp: database_def)
  obtain cu where cu: "visitRows F pf d = Some cu" "all_rows F pf d cu = Some rs"
    using visitRows_refines [OF assms(1-4)] by (auto simp: bind_eq_Some_conv)
  have row: "row_text r = butlast (row_text r) @ [LF]" "LF \<notin> set (butlast (row_text r))" for r
    using dec_text_digits by (auto simp: row_text_def butlast_append)
  have t: "concat (map row_text rs) = unlines ?ls" using row(1) by (induction rs) (auto simp: row(1) [symmetric])
  have all: "list_all2 (\<lambda>l r. LF \<notin> set l \<and> split l = Some [fst r, snd r]) ?ls rs"
    using assms(6) row(2) by (simp add: list_all2_conv_all_nth)
  have same: "filter (\<lambda>q. (case map_of rs (fst q) of Some rn \<Rightarrow> rn | None \<Rightarrow> NONE) \<noteq> snd q) rs = []"
    using database_data(2) [OF assms(1,2)] by (auto simp: filter_empty_conv)
  have "dumpMappingFile F pf country True g = Some (True, unlines ?ls)"
    using dump_loop_rows [OF cu(2), of LOAD_CHUNK "[]" 0] cu(1) assms(5) t by (simp add: dumpMappingFile_def LOAD_CHUNK_def)
  moreover have "loadMappingFile split F c (unlines ?ls) h = Some (True, if c = ''CA'' then h\<lparr>mappingCA := Some d\<rparr> else h\<lparr>mappingUS := Some d\<rparr>)"
    using loadMappingFile_add [OF all, of F c h] d0 by simp
  moreover have "verifyMappingFile split F pf country (Some (unlines ?ls)) g = Some True"
    using verify_database [OF assms(1-3) all assms(5)] same by simp
  ultimately show ?thesis by blast
qed

theorem dump_load_roundtrip_witness:
  "\<exists>d t. database map_f14 [(1, 2)] d \<and> dumpMappingFile map_f14 16 ''US'' True \<lparr>mappingUS = Some d, mappingCA = None\<rparr> = Some (True, t) \<and>
    loadMappingFile (\<lambda>l. Some [1, 2]) map_f14 ''CA'' t \<lparr>mappingUS = None, mappingCA = None\<rparr> = Some (True, \<lparr>mappingUS = None, mappingCA = Some d\<rparr>)"
proof -
  have "\<exists>d. add_rows map_f14 (empty_data map_f14) [(1, 2)] = Inr d"
    using add_rows_iff [OF map_f14_laws, of "empty_data map_f14" "[(1, 2)]"] by (simp add: empty_data_def MAXROWS_def map_f14_def)
  then obtain d where d: "database map_f14 [(1, 2)] d" by (auto simp: database_def)
  then show ?thesis
    using dump_load_roundtrip [OF map_f14_laws d, of 16 "''US''" "\<lparr>mappingUS = Some d, mappingCA = None\<rparr>" "\<lambda>l. Some [1, 2]" "''CA''" "\<lparr>mappingUS = None, mappingCA = None\<rparr>"]
    by (auto simp: db_of_def)
qed

section \<open>What the loaders put into the globals\<close>

lemma csv_loop_run: "csv_loop row n s line b = Inr (s', line', b') \<Longrightarrow> \<exists>ls. run_lines row ls b = Inr b'"
proof (induction n arbitrary: s line b)
  case 0
  then show ?case by (auto intro: exI [of _ "[]"])
next
  case (Suc n)
  then show ?case
  proof (cases "b' = b")
    case False
    then obtain l s2 b1 where "row l b = Inr b1" "csv_loop row n s2 (line + 1) b1 = Inr (s', line', b')"
      using Suc.prems by (auto split: sum.splits prod.splits if_splits)
    with Suc.IH obtain ls where "run_lines row ls b1 = Inr b'" by blast
    then have "run_lines row (l # ls) b = Inr b'" using \<open>row l b = Inr b1\<close> by simp
    then show ?thesis by blast
  qed (auto intro: exI [of _ "[]"])
qed

lemma load_loop_run:
  assumes "load_loop row K s nrows b = Some (Inr (n, b'))"
  shows "\<exists>ls. run_lines row ls b = Inr b'"
proof -
  let ?P = "\<lambda>row (K :: nat) (s :: istream) (nrows :: nat) b r. (r :: load_error + nat \<times> 'a) = Inr (n, b') \<longrightarrow> (\<exists>ls. run_lines row ls b = Inr b')"
  have step: "?P row K s nrows b r"
    if IH: "\<And>row K s nrows b r. f row K s nrows b = Some r \<Longrightarrow> ?P row K s nrows b r"
      and f: "(if in_good s then case csv_loop row K s nrows b of Inl e \<Rightarrow> Some (Inl e) | Inr x \<Rightarrow> f row K (fst x) (fst (snd x)) (snd (snd x)) else Some (Inr (nrows, b))) = Some r"
    for f row K s nrows b r
  proof (cases "in_good s \<and> r = Inr (n, b')")
    case True
    then obtain s1 n1 b1 where c: "csv_loop row K s nrows b = Inr (s1, n1, b1)" "f row K s1 n1 b1 = Some r"
      using f by (auto split: sum.splits)
    obtain ls where "run_lines row ls b = Inr b1" using csv_loop_run [OF c(1)] by blast
    moreover obtain ms where "run_lines row ms b1 = Inr b'" using IH [OF c(2)] True by blast
    ultimately have "run_lines row (ls @ ms) b = Inr b'" by (simp add: run_lines_append)
    then show ?thesis by blast
  next
    case False
    then show ?thesis using f by (auto intro: exI [of _ "[]"])
  qed
  have "?P row K s nrows b (Inr (n, b'))" by (rule load_loop.raw_induct [where P = ?P, OF step assms])
  then show ?thesis by simp
qed

text \<open>A global is empty or the built table of lines that the loader accepted one after the other.\<close>

definition loaded :: "(char list \<Rightarrow> 'b \<Rightarrow> load_error + 'b) \<Rightarrow> 'b \<Rightarrow> ('b \<Rightarrow> 'b) \<Rightarrow> 'b option \<Rightarrow> bool" where
  "loaded row new bld m \<longleftrightarrow> (\<forall>d. m = Some d \<longrightarrow> (\<exists>ls d0. run_lines row ls new = Inr d0 \<and> d = bld d0))"

lemma load_table_cases:
  assumes "load_table row new bld f cur = Some (r, m)"
  shows "(r \<noteq> Inr True \<and> m = cur) \<or> (r = Inr True \<and> m \<noteq> None \<and> loaded row new bld m)"
proof (cases f)
  case None
  then show ?thesis using assms by (auto simp: load_table_def)
next
  case (Some t)
  then obtain x where x: "load_file row t new = Some x" using assms by (auto simp: load_table_def bind_eq_Some_conv)
  show ?thesis
  proof (cases x)
    case (Inl e)
    then show ?thesis using assms Some x by (auto simp: load_table_def split: if_splits)
  next
    case (Inr y)
    then show ?thesis
      using assms Some x load_loop_run [of row LOAD_CHUNK "open_file t" 0 new "fst y" "snd y"] by (auto simp: load_table_def load_file_def loaded_def)
  qed
qed

lemma run_phone_rows: "run_lines (phone_row split F) ls d = Inr d' \<Longrightarrow> \<exists>rs. add_rows F d rs = Inr d'"
proof (induction ls arbitrary: d)
  case Nil
  then show ?case by (auto intro: exI [of _ "[]"])
next
  case (Cons l ls)
  then obtain d1 where d1: "phone_row split F l d = Inr d1" "run_lines (phone_row split F) ls d1 = Inr d'" by (auto split: sum.splits)
  then obtain pn rn where "addRow F d pn rn = Inr d1" by (auto simp: phone_row_def split: option.splits if_splits)
  moreover obtain rs where "add_rows F d1 rs = Inr d'" using Cons.IH d1(2) by blast
  ultimately have "add_rows F d ((pn, rn) # rs) = Inr d'" by simp
  then show ?case by blast
qed

lemma loadMappingFile_database:
  assumes "loadMappingFile split F country t g = Some (b, g')"
  shows "(\<not> b \<and> g' = g) \<or> (\<exists>rs d. database F rs d \<and> b \<and> g' = (if country = ''CA'' then g\<lparr>mappingCA := Some d\<rparr> else g\<lparr>mappingUS := Some d\<rparr>))"
proof -
  obtain x where x: "load_file (phone_row split F) t (empty_data F) = Some x" using assms by (auto simp: loadMappingFile_def)
  show ?thesis
  proof (cases x)
    case (Inl e)
    then show ?thesis using assms x by (simp add: loadMappingFile_def)
  next
    case (Inr y)
    then obtain ls where "run_lines (phone_row split F) ls (empty_data F) = Inr (snd y)"
      using x load_loop_run [of "phone_row split F" LOAD_CHUNK "open_file t" 0 "empty_data F" "fst y" "snd y"] by (auto simp: load_file_def)
    then obtain rs where "database F rs (build (snd y))" using run_phone_rows by (fastforce simp: database_def)
    moreover have "b \<and> g' = (if country = ''CA'' then g\<lparr>mappingCA := Some (build (snd y))\<rparr> else g\<lparr>mappingUS := Some (build (snd y))\<rparr>)"
      using assms x Inr by (cases y) (auto simp: loadMappingFile_def commit_def)
    ultimately show ?thesis by blast
  qed
qed

definition globals_ok where
  "globals_ok E g \<longleftrightarrow>
     (\<forall>d. mappingUS g = Some d \<or> mappingCA g = Some d \<longrightarrow> (\<exists>rs. database (F_pn (ce_maps E)) rs d)) \<and>
     (\<exists>junk. loaded (dnc_row junk (F_pn (ce_maps E))) (table_empty (F_pn (ce_maps E))) dnc_build (mappingDNC g)) \<and>
     (\<exists>dnotype. loaded (dno_row (F_pn (ce_maps E)) dnotype) (dno_empty (F_pn (ce_maps E))) (\<lambda>d. d) (mappingDNO g)) \<and>
     loaded (tollfree_row (F_pn (ce_maps E))) (table_empty (F_pn (ce_maps E))) tollfree_build (mappingTollFree g) \<and>
     loaded (lerg_row (F_lerg (ce_maps E))) (lerg_empty (F_lerg (ce_maps E))) lerg_build (mappingLerg g) \<and>
     loaded (youmail_row (F_youmail (ce_maps E))) (table_empty (F_youmail (ce_maps E))) youmail_build (mappingYoumail g) \<and>
     loaded (geo_row (F_geo (ce_maps E))) (table_empty (F_geo (ce_maps E))) geo_build (mappingGeo g) \<and>
     loaded (ftc_row (F_ftc (ce_maps E))) (table_empty (F_ftc (ce_maps E))) ftc_build (mappingFtc g) \<and>
     loaded (f404_row (F_404 (ce_maps E))) (table_empty (F_404 (ce_maps E))) f404_build (mapping404 g) \<and>
     loaded (f606_row (F_606 (ce_maps E))) (table_empty (F_606 (ce_maps E))) f606_build (mapping606 g)"

lemmas loader_defs = loadDNCMappingFile_def loadDnoMappingFile_def loadTollFreeMappingFile_def loadLergMappingFile_def loadYoumailMappingFile_def
  loadGeoMappingFile_def loadFtcMappingFile_def load404MappingFile_def load606MappingFile_def

text \<open>A loader that replaces one global keeps what the others hold; when it does not return true, it keeps its own as well.\<close>

definition keeps where
  "keeps E g r g' \<longleftrightarrow> (r \<noteq> Inr True \<longrightarrow> g' = g) \<and> (globals_ok E g \<longrightarrow> globals_ok E g')"

lemma loaders_keep:
  "loadDNCMappingFile junk (ce_maps E) f g = Some (r, g') \<Longrightarrow> keeps E g r g'"
  "loadDnoMappingFile (ce_maps E) dnotype f g = Some (r, g') \<Longrightarrow> keeps E g r g'"
  "loadTollFreeMappingFile (ce_maps E) f g = Some (r, g') \<Longrightarrow> keeps E g r g'"
  "loadLergMappingFile (ce_maps E) f g = Some (r, g') \<Longrightarrow> keeps E g r g'"
  "loadYoumailMappingFile (ce_maps E) f g = Some (r, g') \<Longrightarrow> keeps E g r g'"
  "loadGeoMappingFile (ce_maps E) f g = Some (r, g') \<Longrightarrow> keeps E g r g'"
  "loadFtcMappingFile (ce_maps E) f g = Some (r, g') \<Longrightarrow> keeps E g r g'"
  "load404MappingFile (ce_maps E) f g = Some (r, g') \<Longrightarrow> keeps E g r g'"
  "load606MappingFile (ce_maps E) f g = Some (r, g') \<Longrightarrow> keeps E g r g'"
  by (auto simp: loader_defs keeps_def globals_ok_def dest!: load_table_cases)

lemma reload_keeps:
  "loadMappingFile split (F_pn (ce_maps E)) country t g = Some (b, g') \<Longrightarrow> keeps E g (Inr b) g'"
  using loadMappingFile_database [of split "F_pn (ce_maps E)" country t g b g'] by (auto simp: keeps_def globals_ok_def split: if_splits)

lemma acl_keeps:
  assumes "loadACLFile A f (currentACL g) = Some (b, acl)"
  shows "keeps E g (Inr b) (g\<lparr>currentACL := acl\<rparr>)"
proof -
  have "b \<or> acl = currentACL g"
  proof (cases f)
    case (Some t)
    then obtain x where "acl_fromCSV A (open_file t) = Some x" using assms by (auto simp: loadACLFile_def)
    then show ?thesis using assms Some by (cases x) (auto simp: loadACLFile_def)
  qed (use assms in \<open>simp add: loadACLFile_def\<close>)
  then show ?thesis by (auto simp: keeps_def globals_ok_def)
qed

lemma keeps_same: "keeps E g r g"
  by (simp add: keeps_def)

lemma run_command_keeps:
  assumes "run_command E junk in_file out_ok cmd country i o' g = Some (r, g', dump)"
  shows "keeps E g r g'"
  using assms unfolding run_command_def Let_def
  by (auto split: if_splits option.splits prod.splits intro: loaders_keep reload_keeps acl_keeps keeps_same)

lemma dispatch_cases:
  assumes "dispatch E junk in_file out_ok m fds g = Some (g', out)"
  shows "(g' = g \<and> out = no_reply) \<or> (\<exists>r dump. keeps E g r g' \<and> out = send_status fds dump r)"
  using assms unfolding dispatch_def by (auto split: option.splits dest!: run_command_keeps)

lemma send_status:
  "co_closed (send_status fds dump r) = (if co_reply (send_status fds dump r) = None then [] else fds)"
  "co_reply (send_status fds dump r) \<noteq> Some (CHR ''S'') \<Longrightarrow> r \<noteq> Inr True"
  by (auto simp: send_status_def no_reply_def split: sum.splits)

lemma dispatch_keeps:
  assumes "dispatch E junk in_file out_ok m fds g = Some (g', out)"
  shows "co_closed out = (if co_reply out = None then [] else fds)" and "co_reply out \<noteq> Some (CHR ''S'') \<Longrightarrow> g' = g" and "globals_ok E g \<Longrightarrow> globals_ok E g'"
proof -
  consider "g' = g" "out = no_reply" | r dump where "keeps E g r g'" "out = send_status fds dump r" using dispatch_cases [OF assms] by blast
  note kept = this
  show "co_closed out = (if co_reply out = None then [] else fds)" by (cases rule: kept) (simp_all add: no_reply_def send_status(1))
  show "g' = g" if "co_reply out \<noteq> Some (CHR ''S'')" using that by (cases rule: kept) (use send_status(2) in \<open>auto simp: keeps_def\<close>)
  show "globals_ok E g'" if "globals_ok E g" using that by (cases rule: kept) (simp_all add: keeps_def)
qed

text \<open>
  C23: what serving a message does. Whatever the command, the descriptors of the message are closed exactly when a status is sent, so a message that
  ends in an exception leaks them; unless the status is success no global changes; and the tables stay what their
  loaders accepted.
\<close>

theorem dispatch_effects:
  assumes "dispatch E junk in_file out_ok m fds g = Some (g', out)"
  shows "co_closed out = (if co_reply out = None then [] else fds) \<and> (co_reply out \<noteq> Some (CHR ''S'') \<longrightarrow> g' = g) \<and>
    (globals_ok E g \<longrightarrow> globals_ok E g')"
  using dispatch_keeps [OF assms] by blast

definition sample_ctl :: "(64 word \<Rightarrow> 64 word option, 64 word \<Rightarrow> lerg_data option, 64 word \<Rightarrow> youmail_data option, 64 word \<Rightarrow> geo_data option,
    64 word \<Rightarrow> ftc_data option, 64 word \<Rightarrow> f404_data option, 64 word \<Rightarrow> f606_data option, char list, int) ctl_env" where
  "sample_ctl = \<lparr>ce_split = (\<lambda>l. if l = ''1,2'' then Some [1, 2] else None),
     ce_maps = \<lparr>F_pn = map_f14, F_lerg = map_f14, F_youmail = map_f14, F_geo = map_f14, F_ftc = map_f14, F_404 = map_f14, F_606 = map_f14\<rparr>,
     ce_acl = sample_env, ce_pf = 16\<rparr>"

theorem dispatch_effects_witness:
  "\<exists>g' out. dispatch sample_ctl 0 (\<lambda>_. Some (''1,a,b'' @ [LF])) (\<lambda>_. True) \<lparr>m_cmd = Some ''404_reload'', m_stdin = 0, m_stdout = - 1, m_stderr = - 1, m_country = ''US''\<rparr> [5] no_globals =
     Some (g', out) \<and> co_closed out = [] \<and> co_reply out = None \<and> g' = no_globals"
proof -
  let ?m = "\<lparr>m_cmd = Some ''404_reload'', m_stdin = 0, m_stdout = - 1, m_stderr = - 1, m_country = ''US''\<rparr>"
  have "load_file (f404_row map_f14) (unlines [''1,a,b'']) (table_empty map_f14) = Some (Inl Invalid_argument)"
    using load_loop_lines [of "[''1,a,b'']" LOAD_CHUNK "f404_row map_f14" 0 "table_empty map_f14"]
    by (simp add: load_file_def open_file_def LOAD_CHUNK_def f404_row_def starts_digit_def is_digit_iff uchar_def f404_addRow_def number_of_def stoll_def Let_def)
  then have d: "dispatch sample_ctl 0 (\<lambda>_. Some (''1,a,b'' @ [LF])) (\<lambda>_. True) ?m [5] no_globals = Some (no_globals, no_reply)"
    by (simp add: dispatch_def mapfd_def run_command_def load404MappingFile_def load_table_def is_runtime_error_def sample_ctl_def send_status_def no_globals_def)
  show ?thesis using d dispatch_effects [OF d] by (simp add: no_reply_def)
qed

text \<open>The do-not-originate lists.\<close>

definition dno_of :: "char list \<Rightarrow> 'd dno_data \<Rightarrow> 'd" where
  "dno_of ty d = (if ty = ''dno'' then dno_dict d else if ty = ''dno_npa'' then dict_npa d else if ty = ''dno_npa_nxx'' then dict_npa_nxx d else dict_npa_nxx_x d)"

lemma run_dno_other:
  assumes "run_lines (dno_row F ty) ls d = Inr d'" and "ty' \<noteq> ty" and "ty \<in> {''dno'', ''dno_npa'', ''dno_npa_nxx'', ''dno_npa_nxx_x''}"
    and "ty' \<in> {''dno'', ''dno_npa'', ''dno_npa_nxx'', ''dno_npa_nxx_x''}"
  shows "dno_of ty' d' = dno_of ty' d"
  using assms(1)
proof (induction ls arbitrary: d)
  case (Cons l ls)
  then obtain d1 where d1: "dno_row F ty l d = Inr d1" "run_lines (dno_row F ty) ls d1 = Inr d'" by (auto split: sum.splits)
  then have "dno_of ty' d1 = dno_of ty' d"
    using assms(2-4) by (auto simp: dno_row_def dno_addRow_def dno_of_def Let_def split: if_splits sum.splits)
  then show ?case using Cons.IH [OF d1(2)] by simp
qed simp

text \<open>
  C37: a reload of one do-not-originate list forgets the other three. The four commands fill four dictionaries of one table, but each starts from an empty
  table and publishes it: after a successful reload the dictionaries of the other three kinds are empty, whatever they held.
\<close>

theorem dno_reload_forgets:
  assumes "loadDnoMappingFile F ty f g = Some (Inr True, g')" and "ty \<in> {''dno'', ''dno_npa'', ''dno_npa_nxx'', ''dno_npa_nxx_x''}"
    and "ty' \<in> {''dno'', ''dno_npa'', ''dno_npa_nxx'', ''dno_npa_nxx_x''} - {ty}"
  shows "\<exists>d. mappingDNO g' = Some d \<and> dno_of ty' d = f14_empty (F_pn F)"
proof -
  obtain m where "load_table (dno_row (F_pn F) ty) (dno_empty (F_pn F)) (\<lambda>d. d) f (mappingDNO g) = Some (Inr True, m)" "mappingDNO g' = m"
    using assms(1) by (auto simp: loadDnoMappingFile_def)
  note m = this
  obtain d where d: "m = Some d" using load_table_cases [OF m(1)] by auto
  then obtain ls where "run_lines (dno_row (F_pn F) ty) ls (dno_empty (F_pn F)) = Inr d" using load_table_cases [OF m(1)] by (auto simp: loaded_def)
  then have "dno_of ty' d = dno_of ty' (dno_empty (F_pn F))" by (rule run_dno_other) (use assms(2,3) in auto)
  then show ?thesis using m(2) d by (auto simp: dno_of_def dno_empty_def)
qed

definition sample_globals :: "(64 word \<Rightarrow> 64 word option, int, int, int, int, int, int, int, int) globals" where
  "sample_globals = no_globals\<lparr>mappingDNO := Some ((dno_empty map_f14)\<lparr>dict_npa := [900 \<mapsto> 1]\<rparr>)\<rparr>"

theorem dno_reload_forgets_witness:
  "\<exists>g' d. loadDnoMappingFile (ce_maps sample_ctl) ''dno'' (Some (unlines [])) sample_globals = Some (Inr True, g') \<and>
    mappingDNO g' = Some d \<and> dno_of ''dno_npa'' d = (\<lambda>_. None)"
proof -
  have "\<exists>g'. loadDnoMappingFile (ce_maps sample_ctl) ''dno'' (Some (unlines [])) sample_globals = Some (Inr True, g')"
    using load_loop_lines [of "[]" LOAD_CHUNK "dno_row (F_pn (ce_maps sample_ctl)) ''dno''" 0 "dno_empty (F_pn (ce_maps sample_ctl))"]
    by (simp add: loadDnoMappingFile_def load_table_def load_file_def open_file_def LOAD_CHUNK_def)
  then obtain g' where g': "loadDnoMappingFile (ce_maps sample_ctl) ''dno'' (Some (unlines [])) sample_globals = Some (Inr True, g')" by blast
  have "f14_empty (F_pn (ce_maps sample_ctl)) = (\<lambda>_. None)" by (simp add: sample_ctl_def map_f14_def)
  moreover obtain d where "mappingDNO g' = Some d" "dno_of ''dno_npa'' d = f14_empty (F_pn (ce_maps sample_ctl))"
    using dno_reload_forgets [OF g', of "''dno_npa''"] by auto
  ultimately have "mappingDNO g' = Some d \<and> dno_of ''dno_npa'' d = (\<lambda>_. None)" by simp
  with g' show ?thesis by blast
qed

end
