(* ===== verification/Sip_Handler.thy ===== *)
theory Sip_Handler
  imports Msg_Safe Control_Run
begin

text \<open>
  The SIP redirect server \<^verbatim>\<open>callfwd/SipHandler.cpp\<close>, with \<^verbatim>\<open>PhoneNumber::fromString\<close> (\<^verbatim>\<open>PhoneMapping.cpp\<close>) and the formatter of the
  access log (\<^verbatim>\<open>AccessLog.cpp\<close>). The receive buffer starts at pointer 0 of the memory, so that the bytes behind the datagram are those of earlier datagrams and
  of whatever follows the buffer. The functions of folly are the record \<open>folly\<close>, with their documented behaviour in \<open>folly_laws\<close>; formatted
  output is the text of the format string with its arguments in place. A \<open>StringPiece\<close> that would be read outside the memory is \<open>None\<close>.
\<close>

section \<open>Phone numbers\<close>

record folly =
  trimWhitespace :: "char list \<Rightarrow> char list"
  rtrimWhitespace :: "char list \<Rightarrow> char list"
  removePrefix :: "char list \<Rightarrow> char list \<Rightarrow> char list"
  tryTo_u64 :: "char list \<Rightarrow> 64 word option"

definition is_blank :: "char \<Rightarrow> bool" where
  "is_blank c \<longleftrightarrow> c = SPC \<or> c = TAB \<or> c = CR \<or> c = LF"

definition rtrim_text :: "char list \<Rightarrow> char list" where
  "rtrim_text s = rev (dropWhile is_blank (rev s))"

definition folly_laws :: "folly \<Rightarrow> bool" where
  "folly_laws L \<longleftrightarrow> (\<forall>s. trimWhitespace L s = dropWhile is_blank (rtrim_text s)) \<and> (\<forall>s. rtrimWhitespace L s = rtrim_text s) \<and>
     (\<forall>s p. removePrefix L s p = (if take (length p) s = p then drop (length p) s else s)) \<and>
     (\<forall>s n. tryTo_u64 L s = Some n \<longrightarrow> (\<exists>a ds b. s = a @ ds @ b \<and> ds \<noteq> [] \<and> (\<forall>c \<in> set ds. is_digit c) \<and> unat n = dec_val ds)) \<and>
     (\<forall>ds. ds \<noteq> [] \<and> (\<forall>c \<in> set ds. is_digit c) \<and> dec_val ds < 2 ^ 64 \<longrightarrow> tryTo_u64 L ds = Some (of_nat (dec_val ds)))"

text \<open>\<^verbatim>\<open>strchr\<close> also finds the zero byte that ends its first argument, so zero bytes are dropped with the punctuation.\<close>

definition is_punct :: "char \<Rightarrow> bool" where
  "is_punct c \<longleftrightarrow> c \<in> set ('' -()'' @ [NUL])"

definition fromString :: "folly \<Rightarrow> char list \<Rightarrow> 64 word" where
  "fromString L s0 =
     (let s = trimWhitespace L s0 in
      if length s > 30 then NONE
      else
        (let digits = filter (\<lambda>c. \<not> is_punct c) s;
             t = (if length digits = 12 then removePrefix L digits ''+1'' else if length digits = 11 then removePrefix L digits ''1'' else digits)
         in if length t \<noteq> 10 then NONE else (case tryTo_u64 L t of Some n \<Rightarrow> n | None \<Rightarrow> NONE)))"

section \<open>The access log\<close>

text \<open>
  The state of \<^verbatim>\<open>AccessLogFormatter\<close> is the contents of its string stream. \<^verbatim>\<open>message_.clear()\<close> resets the state bits of a stream and not its contents, and \<^verbatim>\<open>str()\<close> of C++17
  copies them. The peer and the date are given as the text they are printed as; the second result is what is written to the log file when it is open.
\<close>

definition log_onRequest :: "char list \<Rightarrow> char list \<Rightarrow> char list \<Rightarrow> char list \<Rightarrow> char list \<Rightarrow> char list" where
  "log_onRequest peer date meth uri message = message @ peer @ '' - - '' @ ''['' @ date @ ''] '' @ [CHR 0x22] @ meth @ '' '' @ uri @ [CHR 0x22] @ '' ''"

definition log_onResponse :: "bool \<Rightarrow> nat \<Rightarrow> nat \<Rightarrow> char list \<Rightarrow> char list \<times> char list option" where
  "log_onResponse opened status bytes message =
     (let message' = message @ dec_text status @ '' '' @ dec_text bytes @ [LF] in (message', if opened then Some message' else None))"

section \<open>Replies\<close>

text \<open>A \<^verbatim>\<open>StringPiece\<close> of a \<^verbatim>\<open>str\<close>.\<close>

definition sp_text :: "mem \<Rightarrow> str \<Rightarrow> char list option" where
  "sp_text m x =
     (if str_len x = 0 then Some []
      else if str_len x < 0 then None
      else (case str_s x of None \<Rightarrow> None | Some p \<Rightarrow> if p + nat (str_len x) \<le> length m then Some (seg m p (p + nat (str_len x))) else None))"

definition outputHeader :: "folly \<Rightarrow> mem \<Rightarrow> hdr_field list \<Rightarrow> char list option" where
  "outputHeader L m hs =
     (case hs of [] \<Rightarrow> Some []
      | hdr # _ \<Rightarrow> do { n \<leftarrow> sp_text m (h_name hdr); b \<leftarrow> sp_text m (h_body hdr); Some (n @ '': '' @ rtrimWhitespace L b @ [CR, LF]) })"

definition reply :: "folly \<Rightarrow> mem \<Rightarrow> sip_msg \<Rightarrow> nat \<Rightarrow> char list \<Rightarrow> char list option" where
  "reply L m msg status message = do {
     via \<leftarrow> outputHeader L m (sm_hook msg HDR_VIA_T);
     from_hdr \<leftarrow> outputHeader L m (sm_hook msg HDR_FROM_T);
     to_hdr \<leftarrow> outputHeader L m (sm_hook msg HDR_TO_T);
     callid \<leftarrow> outputHeader L m (sm_hook msg HDR_CALLID_T);
     cseq \<leftarrow> outputHeader L m (sm_hook msg HDR_CSEQ_T);
     Some (''SIP/2.0 '' @ dec_text status @ '' '' @ message @ [CR, LF] @ via @ from_hdr @ to_hdr @ callid @ cseq) }"

record ('d, 'i, 'b) sip_env =
  si_folly :: folly
  si_uri :: uri_env
  si_alloc :: "ptr \<Rightarrow> nat \<Rightarrow> bool"
  si_map :: "'d phone_map"
  si_pf :: nat
  si_acl :: "('i, 'b) acl_env"
  si_rfc4694 :: bool

definition contact :: "('d, 'i, 'b) sip_env \<Rightarrow> char list \<Rightarrow> char list \<Rightarrow> char list \<Rightarrow> 64 word \<Rightarrow> 64 word \<Rightarrow> char list" where
  "contact E user host port pn rn =
     (if rn \<noteq> NONE then ''Contact: <sip:+1'' @ dec_text (unat pn) @ '';rn=+1'' @ dec_text (unat rn) @ '';ndpi@'' @ host @ '':'' @ port @ ''>'' @ [CR, LF]
      else if si_rfc4694 E then ''Contact: <sip:'' @ user @ '';ndpi@'' @ host @ '':'' @ port @ ''>'' @ [CR, LF]
      else ''Contact: <sip:'' @ user @ '';rn='' @ user @ '';ndpi@'' @ host @ '':'' @ port @ ''>'' @ [CR, LF])"

text \<open>\<open>g\<close> holds the two databases; one that is not loaded is a null pointer. The result is the status, the reply so far and the access list.\<close>

definition handleInvite :: "('d, 'i, 'b) sip_env \<Rightarrow> int \<Rightarrow> 'i \<Rightarrow> mem \<Rightarrow> sip_msg \<Rightarrow> ('d, 'z) mappings_scheme \<Rightarrow> ('i, 'b) acl_data option
    \<Rightarrow> (nat \<times> char list \<times> ('i, 'b) acl_data option) option" where
  "handleInvite E now peer m msg g acl =
     (case isCallAllowed (si_acl E) now peer acl of (allowed, acl') \<Rightarrow>
        if allowed = 429 then map_option (\<lambda>t. (429, t, acl')) (reply (si_folly E) m msg 429 ''Too Many Requests'')
        else if allowed = 401 then map_option (\<lambda>t. (401, t, acl')) (reply (si_folly E) m msg 401 ''Unauthorized'')
        else do {
          user \<leftarrow> sp_text m (u_user (sm_parsed_uri msg));
          host \<leftarrow> sp_text m (u_host (sm_parsed_uri msg));
          port \<leftarrow> sp_text m (u_port (sm_parsed_uri msg));
          let pn = fromString (si_folly E) user;
          rn \<leftarrow> (if pn \<noteq> NONE then Option.bind (mappingUS g) (\<lambda>d. getRN (si_map E) (si_pf E) d pn) else Some NONE);
          rn \<leftarrow> (if rn = NONE then Option.bind (mappingCA g) (\<lambda>d. getRN (si_map E) (si_pf E) d pn) else Some rn);
          t \<leftarrow> reply (si_folly E) m msg 302 ''Moved Temporarily'';
          Some (302, t @ contact E user host port pn rn @ ''Location-Info: N'' @ [CR, LF], acl') })"

section \<open>A datagram\<close>

definition parseMessage :: "('d, 'i, 'b) sip_env \<Rightarrow> mem \<Rightarrow> nat \<Rightarrow> bool \<Rightarrow> sip_msg option option" where
  "parseMessage E m len truncated =
     (if len = 0 \<or> truncated then Some None
      else do {
        (r, msg) \<leftarrow> parse_msg (si_alloc E) (si_uri E) m 0 len (sip_msg_zero 0 len);
        if r \<noteq> 0 then Some None
        else if fl_type (sm_first_line msg) \<noteq> SIP_REQUEST then Some None
        else do {
          (r2, msg2) \<leftarrow> parse_sip_msg_uri (si_uri E) m msg;
          if r2 \<noteq> 0 then Some None else Some (Some msg2) } })"

text \<open>
  The handler of one datagram: its state is the contents of the log stream. The result has what is sent, the status, what is written to the access log, and the new access list,
  whose buckets a call draws from. \<open>None\<close> in the inner result is a bad message, which gets no answer.
\<close>

record sip_answer =
  sa_status :: nat
  sa_reply :: "char list"
  sa_logged :: "char list option"

record datagram =
  dg_peer :: "char list"
  dg_date :: "char list"
  dg_len :: nat
  dg_truncated :: bool
  dg_log_open :: bool

text \<open>The choice of the answer, and what follows the label \<^verbatim>\<open>finish\<close>.\<close>

definition sip_switch :: "('d, 'i, 'b) sip_env \<Rightarrow> int \<Rightarrow> 'i \<Rightarrow> mem \<Rightarrow> sip_msg \<Rightarrow> ('d, 'z) mappings_scheme \<Rightarrow> ('i, 'b) acl_data option
    \<Rightarrow> (nat \<times> char list \<times> ('i, 'b) acl_data option) option" where
  "sip_switch E now peer m msg g acl =
     (if \<not> isAvailable g then map_option (\<lambda>t. (503, t, acl)) (reply (si_folly E) m msg 503 ''Service Unavailable'')
      else if fl_value (sm_first_line msg) = METHOD_OPTIONS then map_option (\<lambda>t. (200, t, acl)) (reply (si_folly E) m msg 200 ''OK'')
      else if fl_value (sm_first_line msg) = METHOD_INVITE then handleInvite E now peer m msg g acl
      else map_option (\<lambda>t. (405, t, acl)) (reply (si_folly E) m msg 405 ''Method Not Allowed''))"

definition sip_finish :: "bool \<Rightarrow> char list \<Rightarrow> nat \<times> char list \<times> ('i, 'b) acl_data option \<Rightarrow> sip_answer option \<times> ('i, 'b) acl_data option \<times> char list" where
  "sip_finish opened message x = (case x of (status, t, acl) \<Rightarrow>
     (Some \<lparr>sa_status = status, sa_reply = t @ ''Content-Length: 0'' @ [CR, LF, CR, LF], sa_logged = snd (log_onResponse opened status 0 message)\<rparr>,
      acl, fst (log_onResponse opened status 0 message)))"

definition onDataAvailable :: "('d, 'i, 'b) sip_env \<Rightarrow> int \<Rightarrow> 'i \<Rightarrow> mem \<Rightarrow> datagram \<Rightarrow> ('d, 'z) mappings_scheme \<Rightarrow> ('i, 'b) acl_data option \<Rightarrow> char list
    \<Rightarrow> (sip_answer option \<times> ('i, 'b) acl_data option \<times> char list) option" where
  "onDataAvailable E now peer m D g acl message = do {
     pm \<leftarrow> parseMessage E m (dg_len D) (dg_truncated D);
     case pm of
       None \<Rightarrow> Some (None, acl, message)
     | Some msg \<Rightarrow> do {
         meth \<leftarrow> sp_text m (fl_method (sm_first_line msg));
         uri \<leftarrow> sp_text m (fl_uri (sm_first_line msg));
         x \<leftarrow> sip_switch E now peer m msg g acl;
         Some (sip_finish (dg_log_open D) (log_onRequest (dg_peer D) (dg_date D) meth uri message) x) } }"

section \<open>Everything that is printed can be read\<close>

definition readable :: "mem \<Rightarrow> str \<Rightarrow> bool" where
  "readable m x \<longleftrightarrow> sp_text m x = Some (str_text m x)"

lemma readable_within: "str_within a b x \<Longrightarrow> b \<le> length m \<Longrightarrow> readable m x"
  by (auto simp: readable_def sp_text_def str_within_def str_text_def seg_def split: option.splits)

lemma readable_empty: "str_len x = 0 \<Longrightarrow> readable m x"
  by (simp add: readable_def sp_text_def str_text_def seg_def split: option.split)

text \<open>A request whose texts can all be read.\<close>

definition request_ok :: "mem \<Rightarrow> sip_msg \<Rightarrow> bool" where
  "request_ok m msg \<longleftrightarrow> fl_type (sm_first_line msg) = SIP_REQUEST \<and> readable m (fl_method (sm_first_line msg)) \<and> readable m (fl_uri (sm_first_line msg)) \<and>
     readable m (u_user (sm_parsed_uri msg)) \<and> readable m (u_host (sm_parsed_uri msg)) \<and> readable m (u_port (sm_parsed_uri msg)) \<and>
     (\<forall>h \<in> set (sm_headers msg). readable m (h_name h) \<and> readable m (h_body h)) \<and> msg_hooks_ok msg"

lemma hdr_chain_readable:
  assumes "hdr_chain m e z p hs t" and "e + 20 \<le> length m" and "z < length m"
  shows "\<forall>h \<in> set hs. readable m (h_name h) \<and> readable m (h_body h)"
  using assms(1)
proof (induction hs arbitrary: p)
  case (Cons h hs)
  then obtain q where h: "hdr_ok m e z p h q" "hdr_chain m e z q hs t" by auto
  then obtain b n where b: "h_body h = \<lparr>str_s = Some b, str_len = int n\<rparr>" "p < b" "b < e" "b + n \<le> q" "q \<le> max z (e + 1)"
    by (auto simp: hdr_ok_def)
  then have "str_within 0 (length m) (h_body h)" using assms(2,3) by (auto simp: str_within_def max_def split: if_splits)
  moreover have "str_within 0 (length m) (h_name h)"
    using h(1) b(2,3) assms(2) by (auto simp: hdr_ok_def len_short_def str_within_def max_def split: if_splits)
  ultimately show ?case using Cons.IH [OF h(2)] readable_within by auto
qed simp

lemma parse_sip_msg_uri_total:
  assumes "msg_ok m 0 len z msg" and "len + 20 \<le> length m"
  shows "\<exists>r u ok. parse_sip_msg_uri U m msg = Some (r, msg\<lparr>sm_parsed_uri := u, sm_parsed_uri_ok := ok\<rparr>) \<and>
    (r = 0 \<longrightarrow> readable m (u_user u) \<and> readable m (u_host u) \<and> readable m (u_port u))"
proof -
  obtain p q where line: "line_ok m p (len - p) q (sm_first_line msg)" and new: "sm_new_uri msg = str_null" "\<not> sm_parsed_uri_ok msg"
    using assms(1) by (auto simp: msg_ok_def)
  then obtain s k where s: "fl_uri (sm_first_line msg) = mk_str s k" "s \<le> k" "k < len" by (fastforce simp: line_ok_def)
  have "s + nat (int k - int s) \<le> length m" "s + 17 \<le> length m" using s assms(2) by auto
  from parse_uri_total [OF this, of U] obtain rc u where u: "parse_uri U m s (int k - int s) = Some (rc, u)"
    "uri_result_ok U (s + 4) (s + nat (int k - int s)) (rc, u)" by (metis surj_pair)
  have "rc = 0 \<Longrightarrow> readable m (u_user u) \<and> readable m (u_host u) \<and> readable m (u_port u)"
    using u(2) s assms(2) readable_within [of "s + 4" "s + nat (int k - int s)" _ m] readable_empty [of "u_host u" m]
    by (auto simp: uri_result_ok_def uri_in_def E_BAD_URI_def)
  moreover have "rc = 0 \<or> rc < 0" using u(2) by (auto simp: uri_result_ok_def E_BAD_URI_def)
  ultimately show ?thesis using u(1) s(1) new by (auto simp: parse_sip_msg_uri_def mk_str_def str_null_def)
qed

lemma parseMessage_total:
  assumes "len \<le> z" and "z < length m" and "m ! z = NUL" and "len + 20 \<le> length m"
  shows "\<exists>r. parseMessage E m len truncated = Some r \<and> (\<forall>msg. r = Some msg \<longrightarrow> request_ok m msg)"
proof (cases "len = 0 \<or> truncated")
  case False
  obtain r msg where p: "parse_msg (si_alloc E) (si_uri E) m 0 len (sip_msg_zero 0 len) = Some (r, msg)" "r = 0 \<longrightarrow> msg_ok m 0 len z msg"
    using parse_msg_total [of 0 len z m "si_alloc E" "si_uri E"] assms by auto
  show ?thesis
  proof (cases "r = 0 \<and> fl_type (sm_first_line msg) = SIP_REQUEST")
    case True
    then have ok: "msg_ok m 0 len z msg" using p(2) by simp
    obtain r2 u b where u: "parse_sip_msg_uri (si_uri E) m msg = Some (r2, msg\<lparr>sm_parsed_uri := u, sm_parsed_uri_ok := b\<rparr>)"
      "r2 = 0 \<longrightarrow> readable m (u_user u) \<and> readable m (u_host u) \<and> readable m (u_port u)"
      using parse_sip_msg_uri_total [OF ok assms(4), of "si_uri E"] by blast
    obtain b0 q where "line_ok m b0 (len - b0) q (sm_first_line msg)" "hdr_chain m len z q (sm_headers msg) (sm_unparsed msg)" "msg_hooks_ok msg"
      using ok by (auto simp: msg_ok_def)
    moreover from this(1) have "readable m (fl_method (sm_first_line msg))" "readable m (fl_uri (sm_first_line msg))"
      using assms(4) by (auto simp: line_ok_def mk_str_def str_within_def intro!: readable_within [of 0 "length m"])
    ultimately have "r2 = 0 \<Longrightarrow> request_ok m (msg\<lparr>sm_parsed_uri := u, sm_parsed_uri_ok := b\<rparr>)"
      using True u(2) hdr_chain_readable [of m len z q] assms(2,4) by (auto simp: request_ok_def msg_hooks_ok_def Let_def)
    then show ?thesis using False True p(1) u(1) by (simp add: parseMessage_def)
  qed (use False p(1) in \<open>auto simp: parseMessage_def\<close>)
qed (auto simp: parseMessage_def)

text \<open>The reply copies the first header of each of five types.\<close>

definition header_text :: "folly \<Rightarrow> mem \<Rightarrow> sip_msg \<Rightarrow> int \<Rightarrow> char list" where
  "header_text L m msg t = (case of_type t (sm_headers msg) of [] \<Rightarrow> []
     | h # _ \<Rightarrow> str_text m (h_name h) @ '': '' @ rtrimWhitespace L (str_text m (h_body h)) @ [CR, LF])"

definition reply_text :: "folly \<Rightarrow> mem \<Rightarrow> sip_msg \<Rightarrow> nat \<Rightarrow> char list \<Rightarrow> char list" where
  "reply_text L m msg status message = ''SIP/2.0 '' @ dec_text status @ '' '' @ message @ [CR, LF] @
     concat (map (header_text L m msg) [HDR_VIA_T, HDR_FROM_T, HDR_TO_T, HDR_CALLID_T, HDR_CSEQ_T])"

lemma outputHeader_text:
  assumes "request_ok m msg" and "t \<in> {HDR_VIA_T, HDR_FROM_T, HDR_TO_T, HDR_CALLID_T, HDR_CSEQ_T}"
  shows "outputHeader L m (sm_hook msg t) = Some (header_text L m msg t)"
proof -
  let ?hs = "of_type t (sm_headers msg)"
  have "sm_hook msg t = ?hs \<or> sm_hook msg t = take 1 ?hs"
    using assms by (auto simp: request_ok_def msg_hooks_ok_def Let_def first_hooks_def)
  moreover have "readable m (h_name h) \<and> readable m (h_body h)" if "h \<in> set ?hs" for h
    using that assms(1) by (auto simp: request_ok_def of_type_def)
  ultimately show ?thesis
    by (cases ?hs) (auto simp: outputHeader_def header_text_def readable_def)
qed

lemma reply_reads: "request_ok m msg \<Longrightarrow> reply L m msg status message = Some (reply_text L m msg status message)"
  by (simp add: reply_def reply_text_def outputHeader_text)

section \<open>The numbers that are read\<close>

lemma tryTo_bound:
  assumes "folly_laws L" and "tryTo_u64 L s = Some n"
  shows "unat n < 10 ^ length s"
proof -
  obtain a ds b where s: "s = a @ ds @ b" "\<forall>c \<in> set ds. is_digit c" "unat n = dec_val ds"
    using assms unfolding folly_laws_def by blast
  have "dec_val ds < 10 ^ length ds" by (rule dec_val_less [OF s(2)])
  also have "\<dots> \<le> 10 ^ length s" by (rule power_increasing) (simp_all add: s(1))
  finally show ?thesis using s(3) by simp
qed

lemma fromString_bound:
  assumes "folly_laws L" and "fromString L s \<noteq> NONE"
  shows "unat (fromString L s) < 10 ^ 10"
  using assms tryTo_bound [OF assms(1)] unfolding fromString_def Let_def
  by (fastforce split: if_splits option.splits)

lemma fromString_digits:
  assumes "folly_laws L" and "length (trimWhitespace L s) \<le> 30" and "filter (\<lambda>c. \<not> is_punct c) (trimWhitespace L s) = pre @ ds"
    and "pre \<in> {[], ''1'', ''+1''}" and "length ds = 10" and "\<forall>c \<in> set ds. is_digit c"
  shows "fromString L s = of_nat (dec_val ds)"
proof -
  have "dec_val ds < 10 ^ 10" using dec_val_less [OF assms(6)] assms(5) by simp
  then have "ds \<noteq> [] \<and> (\<forall>c \<in> set ds. is_digit c) \<and> dec_val ds < 2 ^ 64" using assms(5,6) by auto
  then have "tryTo_u64 L ds = Some (of_nat (dec_val ds))" using assms(1) unfolding folly_laws_def by blast
  moreover have "removePrefix L (''1'' @ ds) ''1'' = ds" "removePrefix L (''+1'' @ ds) ''+1'' = ds" using assms(1) by (simp_all add: folly_laws_def)
  ultimately show ?thesis using assms(2-5) by (auto simp: fromString_def Let_def)
qed

section \<open>Concrete functions of folly\<close>

definition std_space :: "char \<Rightarrow> bool" where
  "std_space c \<longleftrightarrow> is_blank c \<or> c = CHR 0x0B \<or> c = CHR 0x0C"

definition std_folly :: folly where
  "std_folly = \<lparr>trimWhitespace = (\<lambda>s. dropWhile is_blank (rtrim_text s)), rtrimWhitespace = rtrim_text,
     removePrefix = (\<lambda>s p. if take (length p) s = p then drop (length p) s else s),
     tryTo_u64 = (\<lambda>s. let ds = takeWhile is_digit (dropWhile std_space s); b = dropWhile is_digit (dropWhile std_space s) in
       if ds \<noteq> [] \<and> list_all std_space b \<and> int (dec_val ds) < 2 ^ 64 then Some (of_nat (dec_val ds)) else None)\<rparr>"

lemma digit_not_space: "is_digit c \<Longrightarrow> \<not> std_space c"
  by (auto simp: is_digit_def std_space_def is_blank_def schar_def uchar_def)

lemma std_folly_laws: "folly_laws std_folly"
proof -
  have "\<exists>a ds b. s = a @ ds @ b \<and> ds \<noteq> [] \<and> (\<forall>c \<in> set ds. is_digit c) \<and> unat n = dec_val ds" if "tryTo_u64 std_folly s = Some n" for s n
  proof (intro exI conjI)
    let ?t = "dropWhile std_space s"
    show "s = takeWhile std_space s @ takeWhile is_digit ?t @ dropWhile is_digit ?t" by simp
    show "takeWhile is_digit ?t \<noteq> []" "unat n = dec_val (takeWhile is_digit ?t)"
      using that by (auto simp: std_folly_def Let_def unat_of_nat split: if_splits)
    show "\<forall>c \<in> set (takeWhile is_digit ?t). is_digit c" by (meson set_takeWhileD)
  qed
  moreover have "tryTo_u64 std_folly ds = Some (of_nat (dec_val ds))" if "ds \<noteq> []" "\<forall>c \<in> set ds. is_digit c" "dec_val ds < 2 ^ 64" for ds
  proof -
    have "dropWhile std_space ds = ds" using that(1,2) digit_not_space by (cases ds) auto
    moreover have tk: "takeWhile is_digit ds = ds" "dropWhile is_digit ds = []" using that(2) by (simp_all add: takeWhile_eq_all_conv dropWhile_eq_Nil_conv)
    ultimately show ?thesis using that(1,3) by (simp add: std_folly_def Let_def tk)
  qed
  ultimately show ?thesis unfolding folly_laws_def by (simp add: std_folly_def)
qed

section \<open>The answer\<close>

definition sip_status :: "bool \<Rightarrow> 32 word \<Rightarrow> nat \<Rightarrow> nat" where
  "sip_status available method_value allowed =
     (if \<not> available then 503 else if method_value = METHOD_OPTIONS then 200 else if method_value \<noteq> METHOD_INVITE then 405
      else if allowed = 429 then 429 else if allowed = 401 then 401 else 302)"

definition sip_phrase :: "nat \<Rightarrow> char list" where
  "sip_phrase status = (if status = 503 then ''Service Unavailable'' else if status = 200 then ''OK'' else if status = 405 then ''Method Not Allowed''
     else if status = 429 then ''Too Many Requests'' else if status = 401 then ''Unauthorized'' else ''Moved Temporarily'')"

text \<open>The two lookups of a call.\<close>

definition route :: "('d, 'i, 'b) sip_env \<Rightarrow> ('d, 'z) mappings_scheme \<Rightarrow> 64 word \<Rightarrow> 64 word" where
  "route E g pn =
     (let us = (case mappingUS g of Some d \<Rightarrow> find_rn (si_map E) d pn | None \<Rightarrow> NONE)
      in if pn \<noteq> NONE \<and> us \<noteq> NONE then us else (case mappingCA g of Some d \<Rightarrow> find_rn (si_map E) d pn | None \<Rightarrow> NONE))"

definition redirect_text :: "('d, 'i, 'b) sip_env \<Rightarrow> mem \<Rightarrow> sip_msg \<Rightarrow> ('d, 'z) mappings_scheme \<Rightarrow> char list" where
  "redirect_text E m msg g =
     (let u = sm_parsed_uri msg; pn = fromString (si_folly E) (str_text m (u_user u))
      in contact E (str_text m (u_user u)) (str_text m (u_host u)) (str_text m (u_port u)) pn (route E g pn) @ ''Location-Info: N'' @ [CR, LF])"

text \<open>The answer to a request, as one value.\<close>

definition sip_reply :: "('d, 'i, 'b) sip_env \<Rightarrow> mem \<Rightarrow> sip_msg \<Rightarrow> ('d, 'z) mappings_scheme \<Rightarrow> nat \<Rightarrow> char list" where
  "sip_reply E m msg g status = reply_text (si_folly E) m msg status (sip_phrase status) @
     (if status = 302 then redirect_text E m msg g else []) @ ''Content-Length: 0'' @ [CR, LF, CR, LF]"

definition log_line :: "mem \<Rightarrow> datagram \<Rightarrow> sip_msg \<Rightarrow> nat \<Rightarrow> char list" where
  "log_line m D msg status =
     log_onRequest (dg_peer D) (dg_date D) (str_text m (fl_method (sm_first_line msg))) (str_text m (fl_uri (sm_first_line msg))) [] @
     dec_text status @ '' '' @ dec_text 0 @ [LF]"

lemma handleInvite_302:
  assumes "request_ok m msg" and "isAvailable g" and "0 < si_pf E" and "isCallAllowed (si_acl E) now peer acl = (allowed, acl')" and "allowed \<noteq> 429" and "allowed \<noteq> 401"
  shows "handleInvite E now peer m msg g acl = Some (302, reply_text (si_folly E) m msg 302 ''Moved Temporarily'' @ redirect_text E m msg g, acl')"
proof -
  obtain us ca where db: "mappingUS g = Some us" "mappingCA g = Some ca" using assms(2) by (auto simp: isAvailable_def)
  have "readable m (u_user (sm_parsed_uri msg))" "readable m (u_host (sm_parsed_uri msg))" "readable m (u_port (sm_parsed_uri msg))"
    using assms(1) by (simp_all add: request_ok_def)
  then show ?thesis
    using assms(3-6) db reply_reads [OF assms(1)]
    by (simp add: handleInvite_def readable_def getRN_eq redirect_text_def route_def Let_def)
qed

lemma onDataAvailable_request:
  assumes "parseMessage E m (dg_len D) (dg_truncated D) = Some (Some msg)" and "request_ok m msg" and "0 < si_pf E"
    and "isCallAllowed (si_acl E) now peer acl = (allowed, acl')"
  shows "onDataAvailable E now peer m D g acl message =
    (let st = sip_status (isAvailable g) (fl_value (sm_first_line msg)) allowed; message' = message @ log_line m D msg st
     in Some (Some \<lparr>sa_status = st, sa_reply = sip_reply E m msg g st, sa_logged = (if dg_log_open D then Some message' else None)\<rparr>,
          if st \<in> {302, 401, 429} then acl' else acl, message'))"
proof -
  have "readable m (fl_method (sm_first_line msg))" "readable m (fl_uri (sm_first_line msg))" using assms(2) by (simp_all add: request_ok_def)
  note rd = this [unfolded readable_def]
  note log = log_onRequest_def log_onResponse_def log_line_def sip_switch_def sip_finish_def
  consider "\<not> isAvailable g" | "isAvailable g" "fl_value (sm_first_line msg) = METHOD_OPTIONS"
    | "isAvailable g" "fl_value (sm_first_line msg) \<notin> {METHOD_OPTIONS, METHOD_INVITE}" | "isAvailable g" "fl_value (sm_first_line msg) = METHOD_INVITE"
    by blast
  then show ?thesis
  proof cases
    case 4
    consider "allowed = 429" | "allowed = 401" | "allowed \<noteq> 429" "allowed \<noteq> 401" by blast
    then show ?thesis
    proof cases
      case 1
      then show ?thesis using 4 assms(1,4) rd reply_reads [OF assms(2)]
        by (simp add: onDataAvailable_def handleInvite_def log sip_status_def sip_reply_def sip_phrase_def Let_def)
    next
      case 2
      then show ?thesis using 4 assms(1,4) rd reply_reads [OF assms(2)]
        by (simp add: onDataAvailable_def handleInvite_def log sip_status_def sip_reply_def sip_phrase_def Let_def)
    next
      case 3
      then show ?thesis using 4 assms(1,4) rd handleInvite_302 [OF assms(2) 4(1) assms(3,4) 3]
        by (simp add: onDataAvailable_def log sip_status_def sip_reply_def sip_phrase_def Let_def)
    qed
  qed (use assms(1) rd reply_reads [OF assms(2)] in
    \<open>simp_all add: onDataAvailable_def log sip_status_def sip_reply_def sip_phrase_def Let_def\<close>)
qed

section \<open>Properties\<close>

text \<open>
  C6: the phone number of a request. Ten digits, with or without the country code 1 or +1 and with any blanks, hyphens and parentheses between them (up to 30 characters), are read as their
  number; whatever the text is, the result is \<^verbatim>\<open>NONE\<close> or a number below ten to the tenth, which fits the 34-bit columns of the databases.
\<close>

theorem fromString_number:
  assumes "folly_laws L"
  shows "(length (trimWhitespace L s) \<le> 30 \<and> filter (\<lambda>c. \<not> is_punct c) (trimWhitespace L s) = pre @ ds \<and> pre \<in> {[], ''1'', ''+1''} \<and>
      length ds = 10 \<and> (\<forall>c \<in> set ds. is_digit c) \<longrightarrow> fromString L s = of_nat (dec_val ds) \<and> dec_val ds < 10 ^ 10) \<and>
    (fromString L s = NONE \<or> fromString L s < 10 ^ 10 \<and> fromString L s < 2 ^ 34)"
proof -
  have small: "fromString L s < 10 ^ 10 \<and> fromString L s < 2 ^ 34" if "fromString L s \<noteq> NONE"
    using fromString_bound [OF assms that] by (simp add: word_less_nat_alt)
  have "dec_val ds < 10 ^ 10" if "length ds = 10" "\<forall>c \<in> set ds. is_digit c"
    using dec_val_less [OF that(2)] that(1) by simp
  then show ?thesis using fromString_digits [OF assms] small by blast
qed

theorem fromString_number_witness:
  "fromString std_folly '' +1 (202) 555-0100'' = 2025550100 \<and> (fromString std_folly ''x'' = NONE \<or> fromString std_folly ''x'' < 2 ^ 34)"
proof -
  have "length (trimWhitespace std_folly '' +1 (202) 555-0100'') \<le> 30" by code_simp
  moreover have "filter (\<lambda>c. \<not> is_punct c) (trimWhitespace std_folly '' +1 (202) 555-0100'') = ''+1'' @ ''2025550100''" by code_simp
  moreover have "length ''2025550100'' = 10" "\<forall>c \<in> set ''2025550100''. is_digit c" "''+1'' \<in> {[], ''1'', ''+1''}"
    by (simp_all add: is_digit_def schar_def uchar_def)
  ultimately have "fromString std_folly '' +1 (202) 555-0100'' = of_nat (dec_val ''2025550100'')"
    using fromString_number [OF std_folly_laws, of "'' +1 (202) 555-0100''" "''+1''" "''2025550100''"] by blast
  moreover have "dec_val ''2025550100'' = 2025550100" by (simp add: dec_val_Cons digit_val_def uchar_def)
  ultimately show ?thesis using fromString_number [OF std_folly_laws, of "''x''"] by auto
qed

text \<open>
  C5: the answer to a datagram. For every datagram in a buffer that has a zero byte at or behind the end of the datagram and ends no earlier than twenty bytes behind it, and in any state of the databases and the access list, the handler returns
  without reading outside the buffer. A bad message gets no answer and changes nothing. A request is answered with the status that the state of the databases, its method and the access list
  determine, the first header of each of the five types, and for an admitted call the contact of its routing number; its line is appended to the log stream.
\<close>

theorem sip_answer:
  assumes "dg_len D \<le> z" and "z < length m" and "m ! z = NUL" and "dg_len D + 20 \<le> length m" and "0 < si_pf E"
  shows "\<exists>pm. parseMessage E m (dg_len D) (dg_truncated D) = Some pm \<and>
    onDataAvailable E now peer m D g acl message = Some (case pm of None \<Rightarrow> (None, acl, message)
      | Some msg \<Rightarrow>
         (let st = sip_status (isAvailable g) (fl_value (sm_first_line msg)) (fst (isCallAllowed (si_acl E) now peer acl)); message' = message @ log_line m D msg st
          in (Some \<lparr>sa_status = st, sa_reply = sip_reply E m msg g st, sa_logged = (if dg_log_open D then Some message' else None)\<rparr>,
            if st \<in> {302, 401, 429} then snd (isCallAllowed (si_acl E) now peer acl) else acl, message')))"
proof -
  obtain pm where pm: "parseMessage E m (dg_len D) (dg_truncated D) = Some pm" "\<forall>msg. pm = Some msg \<longrightarrow> request_ok m msg"
    using parseMessage_total [OF assms(1-4), of E "dg_truncated D"] by blast
  show ?thesis
  proof (cases pm)
    case (Some msg)
    then show ?thesis
      using onDataAvailable_request [OF pm(1) [unfolded Some] _ assms(5) surjective_pairing, where now = now and peer = peer and acl = acl and g = g and message = message] pm
      by (simp add: Let_def)
  qed (use pm(1) in \<open>simp add: onDataAvailable_def\<close>)
qed

definition sample_sip :: "(64 word \<Rightarrow> 64 word option, char list, int) sip_env" where
  "sample_sip = \<lparr>si_folly = std_folly, si_uri = \<lparr>ue_empty = 1000, ue_addr = int\<rparr>, si_alloc = (\<lambda>_ _. True), si_map = map_f14, si_pf = 16, si_acl = sample_env,
     si_rfc4694 = False\<rparr>"

definition sample_dg :: "nat \<Rightarrow> datagram" where
  "sample_dg n = \<lparr>dg_peer = ''p'', dg_date = ''d'', dg_len = n, dg_truncated = False, dg_log_open = True\<rparr>"

definition sample_request :: "char list" where
  "sample_request = ''INVITE sip:alice@host SIP/2.0'' @ [CR, LF] @ ''Via: SIP/2.0/UDP a'' @ [CR, LF] @ ''Via: SIP/2.0/UDP b'' @ [CR, LF] @ ''To: <sip:x@y>'' @ [CR, LF, CR, LF]"

definition empty_db :: "(64 word \<Rightarrow> 64 word option) mappings" where
  "empty_db = \<lparr>mappingUS = Some (empty_data map_f14), mappingCA = Some (empty_data map_f14)\<rparr>"

definition sample_acl :: "(char list, int) acl_data" where
  "sample_acl = [''a'' \<mapsto> \<lparr>ru_created = 0, ru_expire = None, ru_callBudget = 5\<rparr>]"

theorem sip_answer_witness:
  "\<exists>a acl. onDataAvailable sample_sip 7 ''a'' (sample_request @ replicate 20 NUL) (sample_dg (length sample_request)) empty_db (Some sample_acl) ''old '' =
     Some (Some a, acl, ''old '' @ ''p - - [d] '' @ [CHR 0x22] @ ''INVITE sip:alice@host'' @ [CHR 0x22] @ '' 302 0'' @ [LF]) \<and> sa_status a = 302"
proof -
  let ?m = "sample_request @ replicate 20 NUL"
  let ?log = "''p - - [d] '' @ [CHR 0x22] @ ''INVITE sip:alice@host'' @ [CHR 0x22] @ '' 302 0'' @ [LF]"
  have bounds: "length sample_request < length ?m" "?m ! length sample_request = NUL" by (simp_all add: nth_append)
  have "map_option (map_option (\<lambda>msg. (fl_value (sm_first_line msg), log_line ?m (sample_dg (length sample_request)) msg 302))) (parseMessage sample_sip ?m (length sample_request) False) =
      Some (Some (METHOD_INVITE, ?log))"
    by code_simp
  then obtain msg where msg: "parseMessage sample_sip ?m (length sample_request) False = Some (Some msg)" "fl_value (sm_first_line msg) = METHOD_INVITE"
      "log_line ?m (sample_dg (length sample_request)) msg 302 = ?log"
    by (auto simp: map_option_eq_Some)
  have "sip_status (isAvailable empty_db) METHOD_INVITE (fst (isCallAllowed (si_acl sample_sip) 7 ''a'' (Some sample_acl))) = 302" by code_simp
  then show ?thesis
    using sip_answer [of "sample_dg (length sample_request)" "length sample_request" ?m sample_sip 7 "''a''" empty_db "Some sample_acl" "''old ''"] bounds msg
    by (simp add: sample_dg_def sample_sip_def Let_def)
qed

text \<open>The text sent and the text logged for a datagram \<open>t\<close> that is followed by \<open>old\<close> in memory.\<close>

definition sip_exchange :: "char list \<Rightarrow> char list \<Rightarrow> char list \<Rightarrow> (char list \<times> char list option) option option" where
  "sip_exchange t old message = map_option (\<lambda>(a, _, _). map_option (\<lambda>a. (sa_reply a, sa_logged a)) a)
     (onDataAvailable sample_sip 7 ''a'' (t @ old) (sample_dg (length t)) empty_db (Some sample_acl) message)"

text \<open>
  Surprises of the SIP handler. The answer to a request with two Via headers has only the first; a URI without a port gives a contact that ends in a colon, which is not a URI; the log stream
  is never emptied, so that every line written to the access log repeats all earlier ones; and a datagram that fills its buffer and ends inside a Via header is read beyond the buffer.
\<close>

theorem sip_quirks:
  "sip_exchange sample_request (replicate 20 NUL) ''old '' =
     Some (Some (''SIP/2.0 302 Moved Temporarily'' @ [CR, LF] @ ''Via: SIP/2.0/UDP a'' @ [CR, LF] @ ''To: <sip:x@y>'' @ [CR, LF] @
       ''Contact: <sip:alice;rn=alice;ndpi@host:>'' @ [CR, LF] @ ''Location-Info: N'' @ [CR, LF] @ ''Content-Length: 0'' @ [CR, LF, CR, LF],
       Some (''old p - - [d] '' @ [CHR 0x22] @ ''INVITE sip:alice@host'' @ [CHR 0x22] @ '' 302 0'' @ [LF]))) \<and>
   sip_exchange (''INVITE sip:alice@host SIP/2.0'' @ [CR, LF] @ ''Via: SIP/2.0/UDP a'') [] [] = None"
  by (intro conjI; code_simp)

end
