(* ===== verification/Control_History.thy ===== *)
theory Control_History
  imports Control_Run
begin

text \<open>
  The runs of the control thread with their history: the commands that were answered with success, each with the text of its input file. The globals are a function of the history,
  \<open>replay\<close>: every table is what its loader makes of the lines of the newest file, and a lookup finds the rows of that file.
\<close>

section \<open>The lines of a text\<close>

text \<open>A last line without a line end is a line if it is not empty.\<close>

function text_lines :: "char list \<Rightarrow> char list list" where
  "text_lines [] = []"
| "text_lines (c # cs) = takeWhile (\<lambda>x. x \<noteq> LF) (c # cs) # text_lines (drop 1 (dropWhile (\<lambda>x. x \<noteq> LF) (c # cs)))"
  by pat_completeness auto
termination
  by (relation "measure length") (auto simp: le_imp_less_Suc length_dropWhile_le less_Suc_eq_le intro: le_trans [OF diff_le_self])

lemma text_lines_step: "t \<noteq> [] \<Longrightarrow> text_lines t = takeWhile (\<lambda>x. x \<noteq> LF) t # text_lines (drop 1 (dropWhile (\<lambda>x. x \<noteq> LF) t))"
  by (cases t) simp_all

text \<open>A stream of an open file between two lines: it throws, did not fail, and is at its end only when everything is read.\<close>

definition at_line :: "istream \<Rightarrow> bool" where
  "at_line s \<longleftrightarrow> in_throw s \<and> \<not> in_fail s \<and> (in_eof s \<longrightarrow> in_rest s = [])"

lemma peek_at_line:
  assumes "at_line s" and "peek_eof s = Inr (at_eof, s')"
  shows "at_line s'" and "in_rest s' = in_rest s" and "at_eof \<longleftrightarrow> in_rest s = []" and "\<not> at_eof \<Longrightarrow> in_good s'"
  using assms by (auto simp: peek_eof_def at_line_def in_good_def set_failbit_def split: if_splits)

lemma getline_good:
  assumes "in_good s" and "in_rest s \<noteq> []"
  shows "getline s = Inr (takeWhile (\<lambda>c. c \<noteq> LF) (in_rest s),
    if dropWhile (\<lambda>c. c \<noteq> LF) (in_rest s) = [] then s\<lparr>in_rest := [], in_eof := True\<rparr> else s\<lparr>in_rest := drop 1 (dropWhile (\<lambda>c. c \<noteq> LF) (in_rest s))\<rparr>)"
proof -
  define l r where lr: "l = takeWhile (\<lambda>c. c \<noteq> LF) (in_rest s)" "r = dropWhile (\<lambda>c. c \<noteq> LF) (in_rest s)"
  have "l @ r = in_rest s" unfolding lr by (rule takeWhile_dropWhile_id)
  then have "r = [] \<Longrightarrow> l \<noteq> []" using assms(2) by auto
  then show ?thesis unfolding getline_def lr [symmetric] Let_def using assms(1) by (auto simp: drop_Suc)
qed

lemma getline_at_line:
  assumes "at_line s" and "in_rest s \<noteq> []" and "getline s = Inr (l, s')"
  shows "at_line s'" and "text_lines (in_rest s) = l # text_lines (in_rest s')"
proof -
  define r where "r = dropWhile (\<lambda>c. c \<noteq> LF) (in_rest s)"
  have g: "in_good s" "in_throw s" "\<not> in_fail s" "\<not> in_eof s" using assms(1,2) by (auto simp: at_line_def in_good_def)
  note s' = getline_good [OF g(1) assms(2), folded r_def]
  note t = text_lines_step [OF assms(2), folded r_def]
  show "at_line s'" using s' assms(3) g(2-4) by (auto simp: at_line_def)
  show "text_lines (in_rest s) = l # text_lines (in_rest s')" unfolding t using s' assms(3) by (cases "r = []") auto
qed

lemma csv_loop_text:
  assumes "at_line s" and "csv_loop row n s line b = Inr (s', line', b')"
  shows "at_line s' \<and> (\<exists>ls. text_lines (in_rest s) = ls @ text_lines (in_rest s') \<and> run_lines row ls b = Inr b')"
  using assms
proof (induction n arbitrary: s line b)
  case (Suc n)
  from Suc.prems(2) obtain at_eof s1 where p: "peek_eof s = Inr (at_eof, s1)" by (auto split: sum.splits)
  note peek = peek_at_line [OF Suc.prems(1) p]
  show ?case
  proof (cases at_eof)
    case True
    then show ?thesis using Suc.prems(2) p peek by (auto intro: exI [of _ "[]"])
  next
    case False
    then obtain l s2 b1 where l: "getline s1 = Inr (l, s2)" "row l b = Inr b1" "csv_loop row n s2 (line + 1) b1 = Inr (s', line', b')"
      using Suc.prems(2) p by (auto split: sum.splits prod.splits)
    have g: "at_line s2" "text_lines (in_rest s) = l # text_lines (in_rest s2)"
      using getline_at_line [OF peek(1) _ l(1)] peek(2,3) False by auto
    from Suc.IH [OF g(1) l(3)] obtain ls where "at_line s'" "text_lines (in_rest s2) = ls @ text_lines (in_rest s')" "run_lines row ls b1 = Inr b'" by blast
    then show ?thesis using g(2) l(2) by (intro conjI exI [of _ "l # ls"]) auto
  qed
qed (auto intro: exI [of _ "[]"])

lemma load_loop_text:
  assumes "load_loop row K s nrows b = Some (Inr (n, b'))" and "at_line s"
  shows "run_lines row (text_lines (in_rest s)) b = Inr b'"
proof -
  let ?P = "\<lambda>row (K :: nat) (s :: istream) (nrows :: nat) b r. (r :: load_error + nat \<times> 'a) = Inr (n, b') \<longrightarrow> at_line s \<longrightarrow>
    run_lines row (text_lines (in_rest s)) b = Inr b'"
  have step: "?P row K s nrows b r"
    if IH: "\<And>row K s nrows b r. f row K s nrows b = Some r \<Longrightarrow> ?P row K s nrows b r"
      and f: "(if in_good s then case csv_loop row K s nrows b of Inl e \<Rightarrow> Some (Inl e) | Inr x \<Rightarrow> f row K (fst x) (fst (snd x)) (snd (snd x)) else Some (Inr (nrows, b))) = Some r"
    for f row K s nrows b r
  proof (intro impI)
    assume r: "r = Inr (n, b')" and s: "at_line s"
    show "run_lines row (text_lines (in_rest s)) b = Inr b'"
    proof (cases "in_good s")
      case True
      then obtain s1 n1 b1 where c: "csv_loop row K s nrows b = Inr (s1, n1, b1)" "f row K s1 n1 b1 = Some r"
        using f r by (auto split: sum.splits)
      from csv_loop_text [OF s c(1)] IH [OF c(2)] r show ?thesis by (auto simp: run_lines_append)
    next
      case False
      then have "in_rest s = []" using s by (auto simp: at_line_def in_good_def)
      then show ?thesis using False f r by simp
    qed
  qed
  have "?P row K s nrows b (Inr (n, b'))" by (rule load_loop.raw_induct [where P = ?P, OF step assms(1)])
  then show ?thesis using assms(2) by simp
qed

lemma load_file_text: "load_file row t b = Some (Inr (n, b')) \<Longrightarrow> run_lines row (text_lines t) b = Inr b'"
  using load_loop_text [of row LOAD_CHUNK "open_file t" 0 b n b'] by (simp add: load_file_def open_file_def at_line_def)

section \<open>The history of a run\<close>

record ctl_event =
  ev_cmd :: "char list"
  ev_country :: "char list"
  ev_junk :: "64 word"
  ev_text :: "char list option"

text \<open>What serving a message adds to the history: nothing unless the answer is success.\<close>

definition history_of :: "64 word \<Rightarrow> (int \<Rightarrow> char list option) \<Rightarrow> ctl_msg \<Rightarrow> int list \<Rightarrow> ctl_out \<Rightarrow> ctl_event list" where
  "history_of junk in_file m fds out =
     (if co_reply out = Some (CHR ''S'')
      then [\<lparr>ev_cmd = the (m_cmd m), ev_country = m_country m, ev_junk = junk, ev_text = Option.bind (mapfd fds (m_stdin m)) in_file\<rparr>] else [])"

inductive runs :: "('s \<Rightarrow> 'e list \<Rightarrow> 's \<Rightarrow> bool) \<Rightarrow> 's \<Rightarrow> 'e list \<Rightarrow> 's \<Rightarrow> bool" for step where
  Stay: "runs step s [] s"
| Then_step: "runs step s evs s1 \<Longrightarrow> step s1 ev s2 \<Longrightarrow> runs step s (evs @ ev) s2"

inductive control_event :: "('p, 'l, 'y, 'g, 't, 'n, 's, 'i, 'b) ctl_env \<Rightarrow> ('p, 'l, 'y, 'g, 't, 'n, 's, 'i, 'b) control \<Rightarrow> ctl_event list
    \<Rightarrow> ('p, 'l, 'y, 'g, 't, 'n, 's, 'i, 'b) control \<Rightarrow> bool" for E where
  Receive_event: "control_event E c [] (awaitMessage pk c)"
| Serve_event: "ct_pending c = xs @ (m, fds) # ys \<Longrightarrow> dispatch E junk in_file out_ok m fds (ct_globals c) = Some (g', out) \<Longrightarrow>
    control_event E c (history_of junk in_file m fds out) (c\<lparr>ct_globals := g', ct_pending := xs @ ys, ct_closed := ct_closed c @ co_closed out\<rparr>)"

lemma control_step_event: "control_step E c c' \<longleftrightarrow> (\<exists>evs. control_event E c evs c')"
proof
  show "control_step E c c' \<Longrightarrow> \<exists>evs. control_event E c evs c'" by (erule control_stepE) (blast intro: Receive_event Serve_event)+
  assume "\<exists>evs. control_event E c evs c'"
  then obtain evs where "control_event E c evs c'" by blast
  then show "control_step E c c'" by cases (simp_all add: Receive Serve)
qed

lemma runs_steps: "(\<And>s s'. step s s' \<longleftrightarrow> (\<exists>evs. lstep s evs s')) \<Longrightarrow> step\<^sup>*\<^sup>* s s' \<longleftrightarrow> (\<exists>evs. runs lstep s evs s')"
proof
  assume st: "\<And>s s'. step s s' \<longleftrightarrow> (\<exists>evs. lstep s evs s')"
  show "step\<^sup>*\<^sup>* s s' \<Longrightarrow> \<exists>evs. runs lstep s evs s'"
    by (induction rule: rtranclp_induct) (use st in \<open>blast intro: runs.intros\<close>)+
  show "step\<^sup>*\<^sup>* s s'" if r: "\<exists>evs. runs lstep s evs s'"
  proof -
    from r obtain evs where "runs lstep s evs s'" by blast
    then show ?thesis by (induction rule: runs.induct) (use st in \<open>blast intro: rtranclp.rtrancl_into_rtrancl\<close>)+
  qed
qed

section \<open>Replaying the history\<close>

definition from_text :: "(char list \<Rightarrow> 'b \<Rightarrow> load_error + 'b) \<Rightarrow> 'b \<Rightarrow> ('b \<Rightarrow> 'b) \<Rightarrow> char list option \<Rightarrow> 'b option" where
  "from_text row new bld file =
     (case file of None \<Rightarrow> None | Some t \<Rightarrow> (case run_lines row (text_lines t) new of Inl e \<Rightarrow> None | Inr b \<Rightarrow> Some (bld b)))"

text \<open>The kind of list that a command for do-not-originate numbers names.\<close>

definition dno_kind :: "char list \<Rightarrow> char list" where
  "dno_kind cmd = take (length cmd - length ''_reload'') cmd"

definition apply_event :: "('p, 'l, 'y, 'g, 't, 'n, 's, 'i, 'b) ctl_env \<Rightarrow> ctl_event
    \<Rightarrow> ('p, 'l, 'y, 'g, 't, 'n, 's, 'i, 'b) globals \<Rightarrow> ('p, 'l, 'y, 'g, 't, 'n, 's, 'i, 'b) globals" where
  "apply_event E e g =
     (let F = ce_maps E; cmd = ev_cmd e; file = ev_text e in
      if cmd = ''reload'' then
        (let db = from_text (phone_row (ce_split E) (F_pn F)) (empty_data (F_pn F)) build file
         in if ev_country e = ''CA'' then g\<lparr>mappingCA := db\<rparr> else g\<lparr>mappingUS := db\<rparr>)
      else if cmd = ''dnc_reload'' then g\<lparr>mappingDNC := from_text (dnc_row (ev_junk e) (F_pn F)) (table_empty (F_pn F)) dnc_build file\<rparr>
      else if cmd = ''tollfree_reload'' then g\<lparr>mappingTollFree := from_text (tollfree_row (F_pn F)) (table_empty (F_pn F)) tollfree_build file\<rparr>
      else if cmd \<in> {''dno_reload'', ''dno_npa_reload'', ''dno_npa_nxx_reload'', ''dno_npa_nxx_x_reload''} then
        g\<lparr>mappingDNO := from_text (dno_row (F_pn F) (dno_kind cmd)) (dno_empty (F_pn F)) (\<lambda>d. d) file\<rparr>
      else if cmd = ''lerg_reload'' then g\<lparr>mappingLerg := from_text (lerg_row (F_lerg F)) (lerg_empty (F_lerg F)) lerg_build file\<rparr>
      else if cmd = ''youmail_reload'' then g\<lparr>mappingYoumail := from_text (youmail_row (F_youmail F)) (table_empty (F_youmail F)) youmail_build file\<rparr>
      else if cmd = ''geo_reload'' then g\<lparr>mappingGeo := from_text (geo_row (F_geo F)) (table_empty (F_geo F)) geo_build file\<rparr>
      else if cmd = ''ftc_reload'' then g\<lparr>mappingFtc := from_text (ftc_row (F_ftc F)) (table_empty (F_ftc F)) ftc_build file\<rparr>
      else if cmd = ''404_reload'' then g\<lparr>mapping404 := from_text (f404_row (F_404 F)) (table_empty (F_404 F)) f404_build file\<rparr>
      else if cmd = ''606_reload'' then g\<lparr>mapping606 := from_text (f606_row (F_606 F)) (table_empty (F_606 F)) f606_build file\<rparr>
      else g)"

definition replay :: "('p, 'l, 'y, 'g, 't, 'n, 's, 'i, 'b) ctl_env \<Rightarrow> ctl_event list \<Rightarrow> ('p, 'l, 'y, 'g, 't, 'n, 's, 'i, 'b) globals" where
  "replay E evs = fold (apply_event E) evs no_globals"

text \<open>The globals without the access list, which the handlers of calls change too.\<close>

definition tables_of :: "('p, 'l, 'y, 'g, 't, 'n, 's, 'i, 'b) globals \<Rightarrow> ('p, 'l, 'y, 'g, 't, 'n, 's, 'i, 'b) globals" where
  "tables_of g = g\<lparr>currentACL := None\<rparr>"

lemma load_table_text:
  assumes "load_table row new bld f cur = Some (r, m)"
  shows "(r \<noteq> Inr True \<and> m = cur) \<or> (r = Inr True \<and> m = from_text row new bld f)"
proof (cases f)
  case None
  then show ?thesis using assms by (auto simp: load_table_def)
next
  case (Some t)
  then obtain x where x: "load_file row t new = Some x" using assms by (auto simp: load_table_def bind_eq_Some_conv)
  show ?thesis
  proof (cases x)
    case (Inl e)
    then show ?thesis using assms Some x by (auto simp: load_table_def split: if_splits)
  next
    case (Inr y)
    then show ?thesis using assms Some x load_file_text [of row t new "fst y" "snd y"] by (auto simp: load_table_def from_text_def)
  qed
qed

definition good_event where
  "good_event E e \<longleftrightarrow> (ev_cmd e = ''reload'' \<longrightarrow> from_text (phone_row (ce_split E) (F_pn (ce_maps E))) (empty_data (F_pn (ce_maps E))) build (ev_text e) \<noteq> None)"

definition replays where
  "replays E e g r g' \<longleftrightarrow> (r \<noteq> Inr True \<and> tables_of g' = tables_of g) \<or> (r = Inr True \<and> tables_of g' = apply_event E e (tables_of g) \<and> good_event E e)"

lemma loaders_replay:
  "loadDNCMappingFile (ev_junk e) (ce_maps E) (ev_text e) g = Some (r, g') \<Longrightarrow> ev_cmd e = ''dnc_reload'' \<Longrightarrow> replays E e g r g'"
  "loadTollFreeMappingFile (ce_maps E) (ev_text e) g = Some (r, g') \<Longrightarrow> ev_cmd e = ''tollfree_reload'' \<Longrightarrow> replays E e g r g'"
  "loadLergMappingFile (ce_maps E) (ev_text e) g = Some (r, g') \<Longrightarrow> ev_cmd e = ''lerg_reload'' \<Longrightarrow> replays E e g r g'"
  "loadYoumailMappingFile (ce_maps E) (ev_text e) g = Some (r, g') \<Longrightarrow> ev_cmd e = ''youmail_reload'' \<Longrightarrow> replays E e g r g'"
  "loadGeoMappingFile (ce_maps E) (ev_text e) g = Some (r, g') \<Longrightarrow> ev_cmd e = ''geo_reload'' \<Longrightarrow> replays E e g r g'"
  "loadFtcMappingFile (ce_maps E) (ev_text e) g = Some (r, g') \<Longrightarrow> ev_cmd e = ''ftc_reload'' \<Longrightarrow> replays E e g r g'"
  "load404MappingFile (ce_maps E) (ev_text e) g = Some (r, g') \<Longrightarrow> ev_cmd e = ''404_reload'' \<Longrightarrow> replays E e g r g'"
  "load606MappingFile (ce_maps E) (ev_text e) g = Some (r, g') \<Longrightarrow> ev_cmd e = ''606_reload'' \<Longrightarrow> replays E e g r g'"
  by (auto simp: loader_defs replays_def tables_of_def apply_event_def good_event_def Let_def dest!: load_table_text)

lemma dno_replay:
  "loadDnoMappingFile (ce_maps E) ''dno'' (ev_text e) g = Some (r, g') \<Longrightarrow> ev_cmd e = ''dno_reload'' \<Longrightarrow> replays E e g r g'"
  "loadDnoMappingFile (ce_maps E) ''dno_npa'' (ev_text e) g = Some (r, g') \<Longrightarrow> ev_cmd e = ''dno_npa_reload'' \<Longrightarrow> replays E e g r g'"
  "loadDnoMappingFile (ce_maps E) ''dno_npa_nxx'' (ev_text e) g = Some (r, g') \<Longrightarrow> ev_cmd e = ''dno_npa_nxx_reload'' \<Longrightarrow> replays E e g r g'"
  "loadDnoMappingFile (ce_maps E) ''dno_npa_nxx_x'' (ev_text e) g = Some (r, g') \<Longrightarrow> ev_cmd e = ''dno_npa_nxx_x_reload'' \<Longrightarrow> replays E e g r g'"
  by (auto simp: loader_defs replays_def tables_of_def apply_event_def good_event_def dno_kind_def Let_def dest!: load_table_text)

lemma reload_replay:
  assumes "loadMappingFile (ce_split E) (F_pn (ce_maps E)) (ev_country e) t g = Some (b, g')" and "ev_cmd e = ''reload''" and "ev_text e = Some t"
  shows "replays E e g (Inr b) g'"
proof -
  obtain x where x: "load_file (phone_row (ce_split E) (F_pn (ce_maps E))) t (empty_data (F_pn (ce_maps E))) = Some x" using assms by (auto simp: loadMappingFile_def)
  show ?thesis
  proof (cases x)
    case (Inl e)
    then show ?thesis using assms x by (simp add: loadMappingFile_def replays_def)
  next
    case (Inr y)
    have "run_lines (phone_row (ce_split E) (F_pn (ce_maps E))) (text_lines t) (empty_data (F_pn (ce_maps E))) = Inr (snd y)"
      using x Inr by (intro load_file_text [of _ t _ "fst y"]) simp
    then show ?thesis using assms x Inr
      by (cases y) (auto simp: loadMappingFile_def replays_def commit_def apply_event_def good_event_def from_text_def tables_of_def)
  qed
qed

lemma other_replay:
  "replays E e g (Inr False) g"
  "ev_cmd e \<in> {''verify'', ''dump'', ''meta''} \<Longrightarrow> replays E e g r g"
  "ev_cmd e = ''acl'' \<Longrightarrow> replays E e g r (g\<lparr>currentACL := a\<rparr>)"
  by (auto simp: replays_def apply_event_def good_event_def tables_of_def)

lemma run_command_replays:
  assumes "run_command E (ev_junk e) in_file out_ok (ev_cmd e) (ev_country e) i o' g = Some (r, g', dump)" and "in_file i = ev_text e"
  shows "replays E e g r g'"
  using assms unfolding run_command_def Let_def
  by (auto split: if_splits option.splits prod.splits intro: loaders_replay dno_replay reload_replay other_replay)

lemma dispatch_replay:
  assumes "dispatch E junk in_file out_ok m fds g = Some (g', out)"
  shows "tables_of g' = fold (apply_event E) (history_of junk in_file m fds out) (tables_of g) \<and> (\<forall>e \<in> set (history_of junk in_file m fds out). good_event E e)"
proof (cases "\<exists>cmd fd_in fd_out fd_err. m_cmd m = Some cmd \<and> mapfd fds (m_stdin m) = Some fd_in \<and> mapfd fds (m_stdout m) = Some fd_out \<and> mapfd fds (m_stderr m) = Some fd_err")
  case True
  then obtain cmd fd_in fd_out fd_err where m: "m_cmd m = Some cmd" "mapfd fds (m_stdin m) = Some fd_in" "mapfd fds (m_stdout m) = Some fd_out" "mapfd fds (m_stderr m) = Some fd_err"
    by blast
  let ?e = "\<lparr>ev_cmd = cmd, ev_country = m_country m, ev_junk = junk, ev_text = in_file fd_in\<rparr>"
  from assms m obtain r dump where r: "run_command E junk in_file out_ok cmd (m_country m) fd_in fd_out g = Some (r, g', dump)" "out = send_status fds dump r"
    by (auto simp: dispatch_def)
  have "replays E ?e g r g'" by (rule run_command_replays [where in_file = in_file and i = fd_in and out_ok = out_ok and o' = fd_out and dump = dump]) (use r(1) in simp_all)
  moreover have "history_of junk in_file m fds out = (if r = Inr True then [?e] else [])"
    by (auto simp: history_of_def r(2) send_status_def m no_reply_def split: sum.splits)
  ultimately show ?thesis by (auto simp: replays_def)
next
  case False
  then have "g' = g" "out = no_reply" using assms by (auto simp: dispatch_def split: option.splits)
  then show ?thesis by (simp add: history_of_def no_reply_def)
qed

lemma control_replay:
  assumes "control_event E c evs c'"
  shows "tables_of (ct_globals c') = fold (apply_event E) evs (tables_of (ct_globals c)) \<and> (\<forall>e \<in> set evs. good_event E e)"
  using assms by cases (auto simp: awaitMessage_def Let_def dest: dispatch_replay)

section \<open>The newest file of a country\<close>

definition newest :: "('e \<Rightarrow> bool) \<Rightarrow> 'e list \<Rightarrow> 'e option" where
  "newest P evs = (if filter P evs = [] then None else Some (last (filter P evs)))"

lemma newest_append [simp]: "newest P (evs @ [e]) = (if P e then Some e else newest P evs)"
  by (simp add: newest_def)

lemma newest_Nil [simp]: "newest P [] = None"
  by (simp add: newest_def)

text \<open>Whether an event loaded the database of a country; any name but CA stands for the United States.\<close>

definition loads_country :: "char list \<Rightarrow> ctl_event \<Rightarrow> bool" where
  "loads_country country e \<longleftrightarrow> ev_cmd e = ''reload'' \<and> (ev_country e = ''CA'' \<longleftrightarrow> country = ''CA'')"

definition text_rows :: "(char list \<Rightarrow> 64 word list option) \<Rightarrow> char list \<Rightarrow> (64 word \<times> 64 word) list" where
  "text_rows split t = map (\<lambda>l. case split l of None \<Rightarrow> (0, 0) | Some r \<Rightarrow> (r ! 0, r ! 1)) (text_lines t)"

lemma replay_database:
  "db_of country (replay E evs) =
     (case newest (loads_country country) evs of None \<Rightarrow> None
      | Some e \<Rightarrow> from_text (phone_row (ce_split E) (F_pn (ce_maps E))) (empty_data (F_pn (ce_maps E))) build (ev_text e))"
proof (induction evs rule: rev_induct)
  case Nil
  show ?case by (simp add: replay_def no_globals_def db_of_def)
next
  case (snoc e evs)
  then show ?case by (auto simp: replay_def loads_country_def apply_event_def db_of_def Let_def split: option.splits)
qed

lemma run_text_rows:
  assumes "run_lines (phone_row split F) ls d = Inr d'"
  shows "add_rows F d (map (\<lambda>l. case split l of None \<Rightarrow> (0, 0) | Some r \<Rightarrow> (r ! 0, r ! 1)) ls) = Inr d'"
  using assms by (induction ls arbitrary: d) (auto simp: phone_row_def split: option.splits sum.splits if_splits)

text \<open>The rows of a country's newest file, none before the first.\<close>

definition newest_rows where
  "newest_rows E country evs =
     (case newest (loads_country country) evs of None \<Rightarrow> [] | Some e \<Rightarrow> (case ev_text e of None \<Rightarrow> [] | Some t \<Rightarrow> text_rows (ce_split E) t))"

definition lookup_rows :: "(64 word \<times> 64 word) list \<Rightarrow> 64 word \<Rightarrow> 64 word" where
  "lookup_rows rs pn = (case map_of rs pn of Some rn \<Rightarrow> rn | None \<Rightarrow> NONE)"

lemma newest_in: "newest P evs = Some e \<Longrightarrow> e \<in> set evs \<and> P e"
  using last_in_set [of "filter P evs"] by (auto simp: newest_def split: if_splits)

lemma db_of_tables: "db_of country (tables_of g) = db_of country g"
  by (simp add: db_of_def tables_of_def)

lemma replay_rows:
  assumes "tables_of g = replay E evs" and "\<forall>e \<in> set evs. good_event E e"
  shows "case newest (loads_country country) evs of None \<Rightarrow> db_of country g = None
    | Some e \<Rightarrow> (\<exists>d. db_of country g = Some d \<and> database (F_pn (ce_maps E)) (newest_rows E country evs) d)"
proof -
  have g: "db_of country g = db_of country (replay E evs)" unfolding assms(1) [symmetric] by (rule db_of_tables [symmetric])
  show ?thesis
  proof (cases "newest (loads_country country) evs")
    case None
    then show ?thesis using replay_database [of country E evs] g by simp
  next
    case (Some e)
    then have "good_event E e" "ev_cmd e = ''reload''" using newest_in [OF Some] assms(2) by (auto simp: loads_country_def)
    then obtain t d0 where t: "ev_text e = Some t" "run_lines (phone_row (ce_split E) (F_pn (ce_maps E))) (text_lines t) (empty_data (F_pn (ce_maps E))) = Inr d0"
      by (auto simp: good_event_def from_text_def split: option.splits sum.splits)
    then have "db_of country g = Some (build d0)" using replay_database [of country E evs] g Some by (simp add: from_text_def)
    moreover have "database (F_pn (ce_maps E)) (newest_rows E country evs) (build d0)"
      using run_text_rows [OF t(2)] Some t(1) by (auto simp: database_def newest_rows_def text_rows_def)
    ultimately show ?thesis using Some by simp
  qed
qed

lemma control_runs_replay:
  assumes "runs (control_event E) control_init evs c"
  shows "tables_of (ct_globals c) = replay E evs \<and> (\<forall>e \<in> set evs. good_event E e)"
  using assms
proof (induction "control_init :: ('a, 'b, 'c, 'd, 'e, 'f, 'g, 'h, 'i) control" evs c rule: runs.induct)
  case Stay
  show ?case by (simp add: replay_def control_init_def no_globals_def tables_of_def)
next
  case (Then_step evs c1 ev c2)
  then show ?case using control_replay [OF Then_step.hyps(3)] by (auto simp: replay_def)
qed

section \<open>The invariant\<close>

text \<open>
  C14: the globals are those of the newest files. In every state that the control thread can reach, whatever messages, files and interleavings of the served messages led there, all tables are those
  of \<open>replay\<close>: each is what its loader makes of the lines of the file of the newest command for it that was answered with success. So a country
  without such a command has no database, and with one a lookup of any numbers gives the routing numbers of the rows of its newest file, which has no number twice, and \<^verbatim>\<open>NONE\<close> for
  other numbers. The states of these runs are all reachable states.
\<close>

theorem control_invariant:
  assumes "runs (control_event E) control_init evs c"
  shows "(control_step E)\<^sup>*\<^sup>* control_init c \<and> tables_of (ct_globals c) = replay E evs \<and>
    (f14_laws (F_pn (ce_maps E)) \<and> 0 < ce_pf E \<longrightarrow>
       (if newest (loads_country country) evs = None then db_of country (ct_globals c) = None
        else distinct (map fst (newest_rows E country evs)) \<and>
          (\<exists>d. db_of country (ct_globals c) = Some d \<and>
             (\<forall>pns. getRNs (F_pn (ce_maps E)) (ce_pf E) d pns = Some (map (lookup_rows (newest_rows E country evs)) pns)))))"
proof -
  have r: "tables_of (ct_globals c) = replay E evs" "\<forall>e \<in> set evs. good_event E e" using control_runs_replay [OF assms] by simp_all
  have "(control_step E)\<^sup>*\<^sup>* control_init c" using runs_steps [of "control_step E" "control_event E", OF control_step_event] assms by blast
  moreover have "distinct (map fst rs) \<and> (\<forall>pns. getRNs (F_pn (ce_maps E)) (ce_pf E) d pns = Some (map (lookup_rows rs) pns))"
    if "f14_laws (F_pn (ce_maps E))" and "0 < ce_pf E" and "database (F_pn (ce_maps E)) rs d" for rs d
    using getRNs_eq [OF that(2), of "F_pn (ce_maps E)" d] database_data(2,3) [OF that(1,3)] by (simp add: lookup_rows_def)
  ultimately show ?thesis using r(1) replay_rows [OF r, of country] by (auto split: option.splits)
qed

text \<open>A command of the sample environment that is answered with success, sent with its file.\<close>

definition sample_event :: "char list \<Rightarrow> char list \<Rightarrow> char list \<Rightarrow> ctl_event" where
  "sample_event cmd country t = \<lparr>ev_cmd = cmd, ev_country = country, ev_junk = 0, ev_text = Some t\<rparr>"

lemma sample_served:
  assumes "ct_pending c = []" and "run_command sample_ctl 0 (\<lambda>_. Some t) (\<lambda>_. True) cmd country (5 :: int) (- 1 :: int) (ct_globals c) = Some (Inr True, g', None)"
  shows "\<exists>c'. runs (control_event sample_ctl) c [sample_event cmd country t] c' \<and> ct_pending c' = [] \<and> ct_globals c' = g'"
proof -
  let ?m = "\<lparr>m_cmd = Some cmd, m_stdin = 0, m_stdout = - 1, m_stderr = - 1, m_country = country\<rparr>"
  let ?c1 = "awaitMessage \<lparr>pk_fds = Some [5], pk_msg = Some ?m\<rparr> c"
  let ?out = "send_status [5] None (Inr True)" and ?in = "\<lambda>_. Some t"
  have disp: "dispatch sample_ctl 0 ?in (\<lambda>_. True) ?m [5] (ct_globals ?c1) = Some (g', ?out)"
    using assms(2) by (simp add: dispatch_def mapfd_def awaitMessage_def Let_def)
  have p: "ct_pending ?c1 = [] @ (?m, [5]) # []" using assms(1) by (simp add: awaitMessage_def Let_def)
  obtain c2 where s: "control_event sample_ctl ?c1 (history_of 0 ?in ?m [5] ?out) c2" "ct_pending c2 = []" "ct_globals c2 = g'"
    using Serve_event [OF p disp] by force
  have r: "runs (control_event sample_ctl) c ([] @ []) ?c1"
    by (rule Then_step [where step = "control_event sample_ctl", OF Stay]) (rule Receive_event)
  have "runs (control_event sample_ctl) c (([] @ []) @ history_of 0 ?in ?m [5] ?out) c2" by (rule Then_step) (rule r, rule s(1))
  then show ?thesis using s(2,3) by (auto simp: history_of_def send_status_def mapfd_def sample_event_def)
qed

text \<open>The one line \<open>1,2\<close> as the file of a country.\<close>

lemma sample_reload:
  assumes "ct_pending c = []"
  shows "\<exists>c'. runs (control_event sample_ctl) c [sample_event ''reload'' country (unlines [''1,2''])] c' \<and> ct_pending c' = []"
proof -
  have "\<exists>d. add_rows map_f14 (empty_data map_f14) [(1, 2)] = Inr d"
    using add_rows_iff [OF map_f14_laws, of "empty_data map_f14" "[(1, 2)]"] by (simp add: empty_data_def MAXROWS_def map_f14_def)
  then obtain d where "add_rows map_f14 (empty_data map_f14) [(1, 2)] = Inr d" by blast
  then have "\<exists>g'. run_command sample_ctl 0 (\<lambda>_. Some (unlines [''1,2''])) (\<lambda>_. True) ''reload'' country (5 :: int) (- 1 :: int) (ct_globals c) = Some (Inr True, g', None)"
    using loadMappingFile_add [of "ce_split sample_ctl" "[''1,2'']" "[(1, 2)]" map_f14 country "ct_globals c"] by (simp add: run_command_def sample_ctl_def)
  then show ?thesis using sample_served [OF assms] by blast
qed

lemma sample_newest:
  "newest (loads_country country) [sample_event ''reload'' country (unlines [''1,2''])] \<noteq> None"
  "newest_rows sample_ctl country [sample_event ''reload'' country (unlines [''1,2''])] = [(1, 2)]"
  by (simp_all add: newest_def newest_rows_def loads_country_def text_rows_def sample_ctl_def sample_event_def)

theorem control_invariant_witness:
  "\<exists>evs c d. runs (control_event sample_ctl) control_init evs c \<and> db_of ''US'' (ct_globals c) = Some d \<and> getRNs map_f14 16 d [1, 7] = Some [2, NONE]"
proof -
  have "ct_pending (control_init :: (64 word \<Rightarrow> 64 word option, 64 word \<Rightarrow> lerg_data option, 64 word \<Rightarrow> youmail_data option, 64 word \<Rightarrow> geo_data option,
      64 word \<Rightarrow> ftc_data option, 64 word \<Rightarrow> f404_data option, 64 word \<Rightarrow> f606_data option, char list, int) control) = []"
    by (simp add: control_init_def)
  from sample_reload [OF this, of "''US''"] sample_newest [of "''US''"]
  obtain evs c where c: "runs (control_event sample_ctl) control_init evs c" "newest (loads_country ''US'') evs \<noteq> None" "newest_rows sample_ctl ''US'' evs = [(1, 2)]"
    by blast
  have F: "F_pn (ce_maps sample_ctl) = map_f14" "ce_pf sample_ctl = 16" by (simp_all add: sample_ctl_def)
  from control_invariant [OF c(1), of "''US''", unfolded F c(3)] c(2) map_f14_laws
  obtain d where "db_of ''US'' (ct_globals c) = Some d" "\<forall>pns. getRNs map_f14 16 d pns = Some (map (lookup_rows [(1, 2)]) pns)" by auto
  then show ?thesis using c(1) by (intro exI [of _ evs] exI [of _ c] exI [of _ d]) (simp add: lookup_rows_def)
qed

section \<open>Descriptors\<close>

text \<open>Messages are served, in any order, while none is received; the number counts those that were answered.\<close>

inductive serving :: "('p, 'l, 'y, 'g, 't, 'n, 's, 'i, 'b) ctl_env \<Rightarrow> ('p, 'l, 'y, 'g, 't, 'n, 's, 'i, 'b) control \<Rightarrow> nat
    \<Rightarrow> ('p, 'l, 'y, 'g, 't, 'n, 's, 'i, 'b) control \<Rightarrow> bool" for E c where
  None_served: "serving E c 0 c"
| One_served: "serving E c k c1 \<Longrightarrow> ct_pending c1 = xs @ (m, fds) # ys \<Longrightarrow> dispatch E junk in_file out_ok m fds (ct_globals c1) = Some (g', out) \<Longrightarrow>
    serving E c (k + of_bool (co_reply out \<noteq> None)) (c1\<lparr>ct_globals := g', ct_pending := xs @ ys, ct_closed := ct_closed c1 @ co_closed out\<rparr>)"

lemma await_without_fds:
  assumes "\<forall>q \<in> set qs. pk_fds q = None"
  shows "ct_argfd (fold awaitMessage qs c) = ct_argfd c \<and> ct_closed (fold awaitMessage qs c) = ct_closed c \<and>
    set (map snd (ct_pending (fold awaitMessage qs c))) \<subseteq> set (map snd (ct_pending c)) \<union> {ct_argfd c}"
  using assms
proof (induction qs arbitrary: c)
  case (Cons q qs)
  have one: "ct_argfd (awaitMessage q c) = ct_argfd c" "ct_closed (awaitMessage q c) = ct_closed c"
    "set (map snd (ct_pending (awaitMessage q c))) \<subseteq> set (map snd (ct_pending c)) \<union> {ct_argfd c}"
    using Cons.prems by (auto simp: awaitMessage_def Let_def split: option.splits)
  have IH: "ct_argfd (fold awaitMessage (q # qs) c) = ct_argfd (awaitMessage q c)" "ct_closed (fold awaitMessage (q # qs) c) = ct_closed (awaitMessage q c)"
    "set (map snd (ct_pending (fold awaitMessage (q # qs) c))) \<subseteq> set (map snd (ct_pending (awaitMessage q c))) \<union> {ct_argfd (awaitMessage q c)}"
    using Cons.IH [of "awaitMessage q c"] Cons.prems by simp_all
  show ?case
  proof (intro conjI)
    show "set (map snd (ct_pending (fold awaitMessage (q # qs) c))) \<subseteq> set (map snd (ct_pending c)) \<union> {ct_argfd c}"
      using one(1,3) by (intro subset_trans [OF IH(3)]) auto
  qed (simp_all only: IH one)
qed auto

text \<open>
  C38: the descriptors of one packet are closed for every later message. The thread keeps the descriptors of the last packet that had some. When packets without descriptors follow one that
  carries \<open>fds\<close>, every message among them that is answered closes \<open>fds\<close> once more, in whatever order the messages are served: after \<open>k\<close> answers they
  were closed \<open>k\<close> times, although they were received once.
\<close>

theorem descriptors_closed_again:
  assumes "ct_pending c = []" and "pk_fds p = Some fds" and "\<forall>q \<in> set qs. pk_fds q = None" and "serving E (fold awaitMessage (p # qs) c) k c'"
  shows "ct_closed c' = ct_closed c @ concat (replicate k fds)"
proof -
  let ?c = "fold awaitMessage (p # qs) c"
  have start: "ct_closed ?c = ct_closed c" "set (map snd (ct_pending ?c)) \<subseteq> {fds}"
    using await_without_fds [OF assms(3), of "awaitMessage p c"] assms(1,2) by (auto simp: awaitMessage_def Let_def split: option.splits)
  from assms(4) have "ct_closed c' = ct_closed ?c @ concat (replicate k fds) \<and> set (map snd (ct_pending c')) \<subseteq> {fds}"
  proof (induction rule: serving.induct)
    case None_served
    show ?case using start(2) by simp
  next
    case (One_served k c1 xs m gs ys junk in_file out_ok g' out)
    then have "gs = fds" by auto
    moreover have "concat (replicate k fds) @ fds = concat (replicate (k + 1) fds)" by (simp add: replicate_append_same [symmetric])
    ultimately show ?case using One_served dispatch_keeps(1) [OF One_served.hyps(3)] by (auto simp del: replicate_Suc)
  qed
  then show ?thesis using start(1) by simp
qed

theorem descriptors_closed_again_witness: "\<exists>c'. serving sample_ctl (fold awaitMessage
    [\<lparr>pk_fds = Some [5], pk_msg = Some \<lparr>m_cmd = Some ''meta'', m_stdin = - 1, m_stdout = - 1, m_stderr = - 1, m_country = ''US''\<rparr>\<rparr>,
     \<lparr>pk_fds = None, pk_msg = Some \<lparr>m_cmd = Some ''meta'', m_stdin = - 1, m_stdout = - 1, m_stderr = - 1, m_country = ''US''\<rparr>\<rparr>] control_init) 2 c' \<and> ct_closed c' = [5, 5]"
proof -
  let ?m = "\<lparr>m_cmd = Some ''meta'', m_stdin = - 1, m_stdout = - 1, m_stderr = - 1, m_country = ''US''\<rparr>"
  let ?p = "\<lparr>pk_fds = Some [5], pk_msg = Some ?m\<rparr>" and ?q = "\<lparr>pk_fds = None, pk_msg = Some ?m\<rparr>"
  let ?c = "fold awaitMessage [?p, ?q] control_init"
  have d: "dispatch sample_ctl 0 (\<lambda>_. None) (\<lambda>_. True) ?m [5] g = Some (g, send_status [5] None (Inr True))" for g
    by (simp add: dispatch_def mapfd_def run_command_def)
  have p: "ct_pending ?c = [] @ (?m, [5]) # [(?m, [5])]" by (simp add: awaitMessage_def control_init_def Let_def)
  note c1 = One_served [OF None_served p d]
  note c2 = One_served [OF c1, of "[]" ?m "[5]" "[]", OF _ d]
  have r: "co_reply (send_status [5] None (Inr True)) \<noteq> None" by (simp add: send_status_def)
  from c2 r obtain c' where c': "serving sample_ctl ?c 2 c'" by (auto simp: numeral_2_eq_2)
  from descriptors_closed_again [of control_init ?p "[5]" "[?q]", OF _ _ _ c'] have "ct_closed c' = [5, 5]"
    by (simp add: control_init_def numeral_2_eq_2)
  with c' show ?thesis by blast
qed

end
