(* ===== verification/Server.thy ===== *)
theory Server
  imports Sip_Handler Control_History "HOL-Library.Sublist"
begin

text \<open>
  The running server: the control thread and the SIP handler of one socket over the same globals. A step serves or receives a control message, or handles a datagram, which overwrites the front of
  the receive buffer (\<^verbatim>\<open>recvbuf_\<close>) and leaves the bytes of earlier ones behind it; datagrams that do not fit are cut off by the socket. The steps of the two threads
  are atomic here, as the exchange of a global is.
\<close>

section \<open>The state and its steps\<close>

record ('p, 'l, 'y, 'g, 't, 'n, 's, 'i, 'b) server_env =
  sn_ctl :: "('p, 'l, 'y, 'g, 't, 'n, 's, 'i, 'b) ctl_env"
  sn_folly :: folly
  sn_uri :: uri_env
  sn_rfc4694 :: bool
  sn_max_length :: nat

definition sip_env_of :: "('p, 'l, 'y, 'g, 't, 'n, 's, 'i, 'b) server_env \<Rightarrow> (ptr \<Rightarrow> nat \<Rightarrow> bool) \<Rightarrow> ('p, 'i, 'b) sip_env" where
  "sip_env_of N al = \<lparr>si_folly = sn_folly N, si_uri = sn_uri N, si_alloc = al, si_map = F_pn (ce_maps (sn_ctl N)), si_pf = ce_pf (sn_ctl N),
     si_acl = ce_acl (sn_ctl N), si_rfc4694 = sn_rfc4694 N\<rparr>"

lemma sip_env_of_simps [simp]:
  "si_folly (sip_env_of N al) = sn_folly N" "si_acl (sip_env_of N al) = ce_acl (sn_ctl N)" "si_map (sip_env_of N al) = F_pn (ce_maps (sn_ctl N))" "si_pf (sip_env_of N al) = ce_pf (sn_ctl N)"
  by (simp_all add: sip_env_of_def)

record ('p, 'l, 'y, 'g, 't, 'n, 's, 'i, 'b) server =
  sv_control :: "('p, 'l, 'y, 'g, 't, 'n, 's, 'i, 'b) control"
  sv_mem :: mem
  sv_message :: "char list"
  sv_answers :: "sip_answer option list"

definition server_init :: "mem \<Rightarrow> ('p, 'l, 'y, 'g, 't, 'n, 's, 'i, 'b) server" where
  "server_init mem = \<lparr>sv_control = control_init, sv_mem = mem, sv_message = [], sv_answers = []\<rparr>"

definition receive :: "char list \<Rightarrow> mem \<Rightarrow> mem" where
  "receive data mem = data @ drop (length data) mem"

definition handled :: "('p, 'l, 'y, 'g, 't, 'n, 's, 'i, 'b) server \<Rightarrow> mem \<Rightarrow> sip_answer option \<times> ('i, 'b) acl_data option \<times> char list
    \<Rightarrow> ('p, 'l, 'y, 'g, 't, 'n, 's, 'i, 'b) server" where
  "handled s m r = (case r of (a, acl, message) \<Rightarrow>
     s\<lparr>sv_control := (sv_control s)\<lparr>ct_globals := (ct_globals (sv_control s))\<lparr>currentACL := acl\<rparr>\<rparr>, sv_mem := m, sv_message := message,
       sv_answers := sv_answers s @ [a]\<rparr>)"

inductive server_step :: "('p, 'l, 'y, 'g, 't, 'n, 's, 'i, 'b) server_env \<Rightarrow> ('p, 'l, 'y, 'g, 't, 'n, 's, 'i, 'b) server
    \<Rightarrow> ('p, 'l, 'y, 'g, 't, 'n, 's, 'i, 'b) server \<Rightarrow> bool" for N where
  Control: "control_step (sn_ctl N) (sv_control s) c \<Longrightarrow> server_step N s (s\<lparr>sv_control := c\<rparr>)"
| Datagram: "length data \<le> sn_max_length N \<Longrightarrow> dg_len D = length data \<Longrightarrow>
    onDataAvailable (sip_env_of N al) now peer (receive data (sv_mem s)) D (ct_globals (sv_control s)) (currentACL (ct_globals (sv_control s))) (sv_message s) = Some r \<Longrightarrow>
    server_step N s (handled s (receive data (sv_mem s)) r)"

inductive_cases server_stepE: "server_step N s s'"

text \<open>The same steps with what they add to the history of the control thread.\<close>

inductive server_event :: "('p, 'l, 'y, 'g, 't, 'n, 's, 'i, 'b) server_env \<Rightarrow> ('p, 'l, 'y, 'g, 't, 'n, 's, 'i, 'b) server \<Rightarrow> ctl_event list
    \<Rightarrow> ('p, 'l, 'y, 'g, 't, 'n, 's, 'i, 'b) server \<Rightarrow> bool" for N where
  Control_event: "control_event (sn_ctl N) (sv_control s) evs c \<Longrightarrow> server_event N s evs (s\<lparr>sv_control := c\<rparr>)"
| Datagram_event: "length data \<le> sn_max_length N \<Longrightarrow> dg_len D = length data \<Longrightarrow>
    onDataAvailable (sip_env_of N al) now peer (receive data (sv_mem s)) D (ct_globals (sv_control s)) (currentACL (ct_globals (sv_control s))) (sv_message s) = Some r \<Longrightarrow>
    server_event N s [] (handled s (receive data (sv_mem s)) r)"

lemma server_step_event: "server_step N s s' \<longleftrightarrow> (\<exists>evs. server_event N s evs s')"
proof
  show "server_step N s s' \<Longrightarrow> \<exists>evs. server_event N s evs s'"
    by (erule server_stepE) (auto simp: control_step_event intro: Control_event Datagram_event)
  assume "\<exists>evs. server_event N s evs s'"
  then obtain evs where "server_event N s evs s'" by blast
  then show "server_step N s s'"
  proof cases
    case (Control_event c)
    then have "control_step (sn_ctl N) (sv_control s) c" unfolding control_step_event by blast
    then show ?thesis unfolding Control_event(1) by (rule Control)
  next
    case (Datagram_event data D al now peer r)
    then show ?thesis using Datagram by simp
  qed
qed

section \<open>The invariant\<close>

definition server_inv :: "('p, 'l, 'y, 'g, 't, 'n, 's, 'i, 'b) server_env \<Rightarrow> mem \<Rightarrow> ctl_event list \<Rightarrow> ('p, 'l, 'y, 'g, 't, 'n, 's, 'i, 'b) server \<Rightarrow> bool" where
  "server_inv N mem evs s \<longleftrightarrow> tables_of (ct_globals (sv_control s)) = replay (sn_ctl N) evs \<and> (\<forall>e \<in> set evs. good_event (sn_ctl N) e) \<and>
     length (sv_mem s) = length mem \<and> drop (sn_max_length N) (sv_mem s) = drop (sn_max_length N) mem"

lemma receive_length: "length data \<le> length mem \<Longrightarrow> length (receive data mem) = length mem"
  by (simp add: receive_def)

lemma receive_drop: "length data \<le> n \<Longrightarrow> drop n (receive data mem) = drop n mem"
  by (simp add: receive_def)

lemma handled_simps [simp]:
  "sv_mem (handled s m (a, acl, message)) = m" "sv_message (handled s m (a, acl, message)) = message"
  "sv_answers (handled s m (a, acl, message)) = sv_answers s @ [a]"
  "tables_of (ct_globals (sv_control (handled s m (a, acl, message)))) = tables_of (ct_globals (sv_control s))"
  by (simp_all add: handled_def tables_of_def)

lemma server_inv_event:
  assumes "server_event N s ev s'" and "server_inv N mem evs s" and "sn_max_length N \<le> length mem"
  shows "server_inv N mem (evs @ ev) s'"
  using assms(1)
proof (cases rule: server_event.cases)
  case (Control_event c)
  then show ?thesis using assms(2) control_replay [OF Control_event(2)] by (auto simp: server_inv_def replay_def)
next
  case (Datagram_event data D al now peer r)
  then show ?thesis using assms(2,3) receive_length [of data "sv_mem s"] receive_drop [of data "sn_max_length N" "sv_mem s"]
    by (cases r) (auto simp: server_inv_def)
qed

lemma server_init_inv: "server_inv N mem [] (server_init mem)"
  by (simp add: server_inv_def server_init_def control_init_def no_globals_def tables_of_def replay_def)

lemma server_runs_inv:
  assumes "runs (server_event N) s0 evs s" and "server_inv N mem [] s0" and "sn_max_length N \<le> length mem"
  shows "server_inv N mem evs s"
  using assms(1,2) by (induction rule: runs.induct) (use server_inv_event assms(3) in blast)+

text \<open>The routing number that the newest files of the two countries give.\<close>

definition file_route :: "('p, 'l, 'y, 'g, 't, 'n, 's, 'i, 'b) server_env \<Rightarrow> ctl_event list \<Rightarrow> 64 word \<Rightarrow> 64 word" where
  "file_route N evs pn =
     (let us = lookup_rows (newest_rows (sn_ctl N) ''US'' evs) pn; ca = lookup_rows (newest_rows (sn_ctl N) ''CA'' evs) pn
      in if pn \<noteq> NONE \<and> us \<noteq> NONE then us else ca)"

definition both_loaded :: "ctl_event list \<Rightarrow> bool" where
  "both_loaded evs \<longleftrightarrow> newest (loads_country ''US'') evs \<noteq> None \<and> newest (loads_country ''CA'') evs \<noteq> None"

lemma country_rows:
  assumes "server_inv N mem evs s"
  shows "db_of country (ct_globals (sv_control s)) = None \<longleftrightarrow> newest (loads_country country) evs = None"
    and "db_of country (ct_globals (sv_control s)) = Some d \<Longrightarrow> database (F_pn (ce_maps (sn_ctl N))) (newest_rows (sn_ctl N) country evs) d"
  using assms replay_rows [of "ct_globals (sv_control s)" "sn_ctl N" evs country] by (auto simp: server_inv_def split: option.splits)

lemma available_loaded: "server_inv N mem evs s \<Longrightarrow> isAvailable (ct_globals (sv_control s)) \<longleftrightarrow> both_loaded evs"
  using country_rows(1) [of N mem evs s "''US''"] country_rows(1) [of N mem evs s "''CA''"] by (auto simp: isAvailable_def both_loaded_def db_of_def)

lemma route_rows:
  assumes "server_inv N mem evs s" and "f14_laws (F_pn (ce_maps (sn_ctl N)))" and "both_loaded evs"
  shows "route (sip_env_of N al) (ct_globals (sv_control s)) = file_route N evs"
proof -
  let ?g = "ct_globals (sv_control s)" and ?F = "F_pn (ce_maps (sn_ctl N))"
  obtain d d' where d: "mappingUS ?g = Some d" "mappingCA ?g = Some d'" using available_loaded [OF assms(1)] assms(3) by (auto simp: isAvailable_def)
  have db: "database ?F (newest_rows (sn_ctl N) ''US'' evs) d" "database ?F (newest_rows (sn_ctl N) ''CA'' evs) d'"
    using country_rows(2) [OF assms(1), of "''US''" d] country_rows(2) [OF assms(1), of "''CA''" d'] d by (simp_all add: db_of_def)
  show ?thesis
    using database_data(3) [OF assms(2) db(1)] database_data(3) [OF assms(2) db(2)] d
    by (auto simp: route_def file_route_def lookup_rows_def Let_def fun_eq_iff)
qed

text \<open>The redirect to a request: its routing number is that of the newest files.\<close>

definition redirect_ok :: "('p, 'l, 'y, 'g, 't, 'n, 's, 'i, 'b) server_env \<Rightarrow> ctl_event list \<Rightarrow> (ptr \<Rightarrow> nat \<Rightarrow> bool) \<Rightarrow> mem \<Rightarrow> sip_msg \<Rightarrow> sip_answer \<Rightarrow> bool" where
  "redirect_ok N evs al m msg a \<longleftrightarrow>
     (let u = sm_parsed_uri msg; user = str_text m (u_user u); pn = fromString (sn_folly N) user
      in sa_reply a = reply_text (sn_folly N) m msg 302 ''Moved Temporarily'' @
         contact (sip_env_of N al) user (str_text m (u_host u)) (str_text m (u_port u)) pn (file_route N evs pn) @
         ''Location-Info: N'' @ [CR, LF] @ ''Content-Length: 0'' @ [CR, LF, CR, LF])"

lemma redirect_okI:
  assumes "server_inv N mem evs s" and "f14_laws (F_pn (ce_maps (sn_ctl N)))" and "both_loaded evs"
    and "sa_reply a = sip_reply (sip_env_of N al) m msg (ct_globals (sv_control s)) 302"
  shows "redirect_ok N evs al m msg a"
  using assms(4) unfolding redirect_ok_def
  by (simp add: sip_reply_def sip_phrase_def redirect_text_def route_rows [OF assms(1-3)] Let_def)

lemma onDataAvailable_log:
  assumes "onDataAvailable E now peer m D g acl message = Some (r, acl', message')"
  shows "(r = None \<and> message' = message) \<or> (\<exists>a. r = Some a \<and> strict_prefix message message' \<and> sa_logged a \<in> {None, Some message'})"
  using assms
  by (auto simp: onDataAvailable_def bind_eq_Some_conv sip_finish_def log_onRequest_def log_onResponse_def strict_prefix_def Let_def split: option.splits if_splits)

text \<open>The texts written to the access log so far.\<close>

definition log_writes :: "('p, 'l, 'y, 'g, 't, 'n, 's, 'i, 'b) server \<Rightarrow> char list list" where
  "log_writes s = List.map_filter (\<lambda>r. Option.bind r sa_logged) (sv_answers s)"

lemma log_writes_handled:
  "log_writes (handled s m (r, acl, message)) = log_writes s @ (case Option.bind r sa_logged of None \<Rightarrow> [] | Some t \<Rightarrow> [t])"
  by (simp add: log_writes_def map_filter_def split: option.split)

definition log_inv :: "('p, 'l, 'y, 'g, 't, 'n, 's, 'i, 'b) server \<Rightarrow> bool" where
  "log_inv s \<longleftrightarrow> sorted_wrt strict_prefix (log_writes s) \<and> (\<forall>t \<in> set (log_writes s). prefix t (sv_message s))"

lemma log_inv_step:
  assumes "server_step N s s'" and "log_inv s"
  shows "log_inv s'"
  using assms(1)
proof (cases rule: server_step.cases)
  case (Control c)
  then show ?thesis using assms(2) by (simp add: log_inv_def log_writes_def)
next
  case (Datagram data D al now peer out)
  obtain r acl message where out: "out = (r, acl, message)" by (cases out)
  from onDataAvailable_log [OF Datagram(4) [unfolded out]] assms(2) show ?thesis
    unfolding Datagram(1) out log_inv_def log_writes_handled handled_simps
    by (auto simp: sorted_wrt_append dest: prefix_order.le_less_trans split: option.split)
qed

section \<open>Properties\<close>

text \<open>
  C1: the server answers from the newest files. In every state that any interleaving of control messages and datagrams leads to, with the history \<open>evs\<close> of the commands that were answered with success,
  every datagram that fits the buffer can be handled, provided that the memory behind the buffer holds a zero byte and ends no earlier than twenty bytes after it. A bad message gets no
  answer and a request one. Its status follows from the history, the method and the access list: 503 exactly while one of the countries has no successful reload in the history, else 200 for
  OPTIONS, 405 for another method than INVITE, 429, 401 or 302 for a call. The redirect of a call has the routing number that the newest
  file of the United States has for the number of the request URI, else the one in the newest file of Canada.
\<close>

theorem server_answers:
  assumes "runs (server_event N) (server_init mem) evs s" and "sn_max_length N \<le> z" and "z < length mem" and "mem ! z = NUL" and "sn_max_length N + 20 \<le> length mem"
    and "f14_laws (F_pn (ce_maps (sn_ctl N)))" and "0 < ce_pf (sn_ctl N)" and "length data \<le> sn_max_length N" and "dg_len (D :: datagram) = length data"
  shows "(server_step N)\<^sup>*\<^sup>* (server_init mem) s \<and>
    (\<exists>s' pm r out. onDataAvailable (sip_env_of N al) now peer (receive data (sv_mem s)) D (ct_globals (sv_control s)) (currentACL (ct_globals (sv_control s))) (sv_message s) = Some out \<and>
    s' = handled s (receive data (sv_mem s)) out \<and> server_event N s [] s' \<and> parseMessage (sip_env_of N al) (receive data (sv_mem s)) (length data) (dg_truncated D) = Some pm \<and>
    sv_answers s' = sv_answers s @ [r] \<and> (r = None \<longleftrightarrow> pm = None) \<and>
    (\<forall>msg a. pm = Some msg \<and> r = Some a \<longrightarrow>
       sa_status a = sip_status (both_loaded evs) (fl_value (sm_first_line msg)) (fst (isCallAllowed (ce_acl (sn_ctl N)) now peer (currentACL (ct_globals (sv_control s))))) \<and>
       (sa_status a = 503 \<longleftrightarrow> \<not> both_loaded evs) \<and> (sa_status a = 302 \<longrightarrow> redirect_ok N evs al (receive data (sv_mem s)) msg a)))"
proof (intro conjI)
  show "(server_step N)\<^sup>*\<^sup>* (server_init mem) s" using runs_steps [of "server_step N" "server_event N", OF server_step_event] assms(1) by blast
  let ?g = "ct_globals (sv_control s)" and ?m = "receive data (sv_mem s)" and ?E = "sip_env_of N al"
  have inv: "server_inv N mem evs s" using server_runs_inv [OF assms(1) server_init_inv] assms(5) by simp
  have len: "length ?m = length mem" using inv assms(5,8) receive_length [of data "sv_mem s"] by (simp add: server_inv_def)
  have "drop (sn_max_length N) ?m ! (z - sn_max_length N) = drop (sn_max_length N) mem ! (z - sn_max_length N)"
    using inv receive_drop [OF assms(8)] by (simp add: server_inv_def)
  then have z: "?m ! z = NUL" using assms(2-4) len by simp
  have bounds: "dg_len D \<le> z" "z < length ?m" "dg_len D + 20 \<le> length ?m" "0 < si_pf ?E" using assms(2,3,5,7-9) len by simp_all
  define run where "run = onDataAvailable ?E now peer ?m D ?g (currentACL ?g) (sv_message s)"
  let ?goal = "\<lambda>s' pm r out. run = Some out \<and> s' = handled s ?m out \<and> server_event N s [] s' \<and> parseMessage ?E ?m (length data) (dg_truncated D) = Some pm \<and>
    sv_answers s' = sv_answers s @ [r] \<and> (r = None \<longleftrightarrow> pm = None) \<and> (\<forall>msg a. pm = Some msg \<and> r = Some a \<longrightarrow>
       sa_status a = sip_status (both_loaded evs) (fl_value (sm_first_line msg)) (fst (isCallAllowed (ce_acl (sn_ctl N)) now peer (currentACL (ct_globals (sv_control s))))) \<and>
       (sa_status a = 503 \<longleftrightarrow> \<not> both_loaded evs) \<and> (sa_status a = 302 \<longrightarrow> redirect_ok N evs al ?m msg a))"
  obtain pm where pm: "parseMessage ?E ?m (dg_len D) (dg_truncated D) = Some pm" "\<forall>msg. pm = Some msg \<longrightarrow> request_ok ?m msg"
    using parseMessage_total [OF bounds(1,2) z bounds(3), of ?E "dg_truncated D"] by blast
  have "\<exists>s' pm r out. ?goal s' pm r out"
  proof (cases pm)
    case None
    then have "run = Some (None, currentACL ?g, sv_message s)" using pm(1) by (simp add: run_def onDataAvailable_def)
    from this Datagram_event [OF assms(8,9) this [unfolded run_def]] pm(1) None assms(9) show ?thesis
      by (intro exI [of _ "handled s ?m (None, currentACL ?g, sv_message s)"] exI [of _ pm] exI [of _ None] exI [of _ "(None, currentACL ?g, sv_message s)"]) simp
  next
    case (Some msg)
    obtain allowed acl' where al: "isCallAllowed (si_acl ?E) now peer (currentACL ?g) = (allowed, acl')" by fastforce
    define st where "st = sip_status (isAvailable ?g) (fl_value (sm_first_line msg)) allowed"
    have "request_ok ?m msg" using pm(2) Some by simp
    note out = onDataAvailable_request [OF pm(1) [unfolded Some] this bounds(4) al, of ?g "sv_message s"]
    have "\<exists>a acl message. run = Some (Some a, acl, message) \<and> sa_status a = st \<and> sa_reply a = sip_reply ?E ?m msg ?g st"
      unfolding run_def by (subst out) (simp add: Let_def st_def)
    then obtain a acl message where a: "run = Some (Some a, acl, message)" "sa_status a = st" "sa_reply a = sip_reply ?E ?m msg ?g st" by blast
    have st: "st = sip_status (both_loaded evs) (fl_value (sm_first_line msg)) (fst (isCallAllowed (ce_acl (sn_ctl N)) now peer (currentACL ?g)))"
      using al by (simp add: st_def available_loaded [OF inv])
    have unavailable: "st = 503 \<longleftrightarrow> \<not> both_loaded evs" by (auto simp: st sip_status_def)
    have redirect: "st = 302 \<Longrightarrow> redirect_ok N evs al ?m msg a" using redirect_okI [OF inv assms(6)] unavailable a(3) by simp
    show ?thesis
      using a(1) Datagram_event [OF assms(8,9) a(1) [unfolded run_def]] pm(1) Some assms(9) a(2) st unavailable redirect
      by (intro exI [of _ "handled s ?m (Some a, acl, message)"] exI [of _ pm] exI [of _ "Some a"] exI [of _ "(Some a, acl, message)"]) auto
  qed
  then show "\<exists>s' pm r out. onDataAvailable ?E now peer ?m D ?g (currentACL ?g) (sv_message s) = Some out \<and>
    s' = handled s ?m out \<and> server_event N s [] s' \<and> parseMessage ?E ?m (length data) (dg_truncated D) = Some pm \<and>
    sv_answers s' = sv_answers s @ [r] \<and> (r = None \<longleftrightarrow> pm = None) \<and> (\<forall>msg a. pm = Some msg \<and> r = Some a \<longrightarrow>
       sa_status a = sip_status (both_loaded evs) (fl_value (sm_first_line msg)) (fst (isCallAllowed (ce_acl (sn_ctl N)) now peer (currentACL (ct_globals (sv_control s))))) \<and>
       (sa_status a = 503 \<longleftrightarrow> \<not> both_loaded evs) \<and> (sa_status a = 302 \<longrightarrow> redirect_ok N evs al ?m msg a))"
    unfolding run_def .
qed

definition sample_server :: "(64 word \<Rightarrow> 64 word option, 64 word \<Rightarrow> lerg_data option, 64 word \<Rightarrow> youmail_data option, 64 word \<Rightarrow> geo_data option,
    64 word \<Rightarrow> ftc_data option, 64 word \<Rightarrow> f404_data option, 64 word \<Rightarrow> f606_data option, char list, int) server_env" where
  "sample_server = \<lparr>sn_ctl = sample_ctl, sn_folly = std_folly, sn_uri = \<lparr>ue_empty = 1000, ue_addr = int\<rparr>, sn_rfc4694 = False, sn_max_length = 150\<rparr>"

lemma runs_trans: "runs step s1 evs' s2 \<Longrightarrow> runs step s evs s1 \<Longrightarrow> runs step s (evs @ evs') s2"
  by (induction rule: runs.induct) (auto simp flip: append_assoc intro: Then_step)

lemma control_runs_server: "runs (control_event (sn_ctl N)) c evs c' \<Longrightarrow> sv_control s = c \<Longrightarrow> runs (server_event N) s evs (s\<lparr>sv_control := c'\<rparr>)"
proof (induction rule: runs.induct)
  case (Stay c)
  then have "s\<lparr>sv_control := c\<rparr> = s" by simp
  then show ?case using runs.Stay by metis
next
  case (Then_step c evs c1 ev c2)
  have "server_event N (s\<lparr>sv_control := c1\<rparr>) ev (s\<lparr>sv_control := c1\<rparr>\<lparr>sv_control := c2\<rparr>)"
    by (rule Control_event) (use Then_step in simp)
  then show ?case using runs.Then_step [OF Then_step.IH [OF Then_step.prems]] by simp
qed

text \<open>A server that has loaded one line for each country and an access list.\<close>

lemma sample_loaded:
  "\<exists>evs s. runs (server_event sample_server) (server_init (replicate 200 NUL)) evs s \<and> both_loaded evs \<and> file_route sample_server evs 1 = 2 \<and>
     sv_mem s = replicate 200 NUL \<and> fst (isCallAllowed sample_env 7 ''a'' (currentACL (ct_globals (sv_control s)))) = 200"
proof -
  let ?s = "server_init (replicate 200 NUL) :: (64 word \<Rightarrow> 64 word option, 64 word \<Rightarrow> lerg_data option, 64 word \<Rightarrow> youmail_data option, 64 word \<Rightarrow> geo_data option,
    64 word \<Rightarrow> ftc_data option, 64 word \<Rightarrow> f404_data option, 64 word \<Rightarrow> f606_data option, char list, int) server"
  let ?us = "sample_event ''reload'' ''US'' (unlines [''1,2''])" and ?ca = "sample_event ''reload'' ''CA'' (unlines [''1,2''])"
    and ?acl = "sample_event ''acl'' ''US'' (unlines [''b,,t,3'', ''a,,,''])"
  have "ct_pending (sv_control ?s) = []" by (simp add: server_init_def control_init_def)
  from sample_reload [OF this, of "''US''"] obtain c1 where c1: "runs (control_event sample_ctl) (sv_control ?s) [?us] c1" "ct_pending c1 = []" by blast
  from sample_reload [OF c1(2), of "''CA''"] obtain c2 where c2: "runs (control_event sample_ctl) c1 [?ca] c2" "ct_pending c2 = []" by blast
  have "\<exists>acl. loadACLFile sample_env (Some (unlines [''b,,t,3'', ''a,,,''])) (currentACL (ct_globals c2)) = Some (True, acl) \<and> fst (isCallAllowed sample_env 7 ''a'' acl) = 200"
    using acl_loop_lines [of "[''b,,t,3'', ''a,,,'']" sample_env "(Map.empty, new_rule sample_env)"]
    by (simp add: loadACLFile_def acl_fromCSV_def open_file_def acl_row_def field_time_def sample_env_def Let_def acl_commit_def isCallAllowed_def new_rule_def)
  then obtain acl where acl: "loadACLFile sample_env (Some (unlines [''b,,t,3'', ''a,,,''])) (currentACL (ct_globals c2)) = Some (True, acl)" "fst (isCallAllowed sample_env 7 ''a'' acl) = 200"
    by blast
  have "run_command sample_ctl 0 (\<lambda>_. Some (unlines [''b,,t,3'', ''a,,,''])) (\<lambda>_. True) ''acl'' ''US'' (5 :: int) (- 1 :: int) (ct_globals c2) =
      Some (Inr True, (ct_globals c2)\<lparr>currentACL := acl\<rparr>, None)"
    using acl(1) by (simp add: run_command_def sample_ctl_def)
  from sample_served [OF c2(2) this] obtain c3 where c3: "runs (control_event sample_ctl) c2 [?acl] c3" "ct_globals c3 = (ct_globals c2)\<lparr>currentACL := acl\<rparr>" by blast
  have "runs (control_event sample_ctl) (sv_control ?s) (([?us] @ [?ca]) @ [?acl]) c3" using c1(1) c2(1) c3(1) by (blast intro: runs_trans)
  then have r: "runs (server_event sample_server) ?s [?us, ?ca, ?acl] (?s\<lparr>sv_control := c3\<rparr>)" by (intro control_runs_server) (simp_all add: sample_server_def)
  have f: "both_loaded [?us, ?ca, ?acl]" "file_route sample_server [?us, ?ca, ?acl] 1 = 2"
    by (simp_all add: both_loaded_def file_route_def newest_def newest_rows_def loads_country_def text_rows_def sample_ctl_def sample_event_def sample_server_def lookup_rows_def NONE_def)
  show ?thesis using r f c3(2) acl(2) by (intro exI [of _ "[?us, ?ca, ?acl]"] exI [of _ "?s\<lparr>sv_control := c3\<rparr>"]) (simp add: server_init_def)
qed

theorem server_answers_witness:
  "\<exists>evs s s' a. runs (server_event sample_server) (server_init (replicate 200 NUL)) evs s \<and> server_step sample_server s s' \<and>
     sv_answers s' = sv_answers s @ [Some a] \<and> sa_status a = 302 \<and> file_route sample_server evs 1 = 2"
proof -
  obtain evs s where s: "runs (server_event sample_server) (server_init (replicate 200 NUL)) evs s" "both_loaded evs" "file_route sample_server evs 1 = 2"
      "sv_mem s = replicate 200 NUL" "fst (isCallAllowed sample_env 7 ''a'' (currentACL (ct_globals (sv_control s)))) = 200"
    using sample_loaded by blast
  let ?E = "sip_env_of sample_server (\<lambda>_ _. True)"
  have N: "f14_laws (F_pn (ce_maps (sn_ctl sample_server)))" "0 < ce_pf (sn_ctl sample_server)" "sn_max_length sample_server = 150" "ce_acl (sn_ctl sample_server) = sample_env"
    by (simp_all add: sample_server_def sample_ctl_def map_f14_laws)
  have len: "length sample_request \<le> 150" by (simp add: sample_request_def)
  have "map_option (map_option (\<lambda>msg. fl_value (sm_first_line msg))) (parseMessage ?E (receive sample_request (replicate 200 NUL)) (length sample_request) False) = Some (Some METHOD_INVITE)"
    by code_simp
  then obtain msg where msg: "parseMessage ?E (receive sample_request (sv_mem s)) (length sample_request) False = Some (Some msg)" "fl_value (sm_first_line msg) = METHOD_INVITE"
    unfolding s(4) by (auto simp: map_option_eq_Some)
  from server_answers [OF s(1), of 150 sample_request "sample_dg (length sample_request)" "\<lambda>_ _. True" 7 "''a''"] N len msg
  obtain s' a where "server_event sample_server s [] s'" "sv_answers s' = sv_answers s @ [Some a]"
      "sa_status a = sip_status (both_loaded evs) METHOD_INVITE (fst (isCallAllowed sample_env 7 ''a'' (currentACL (ct_globals (sv_control s)))))"
    by (fastforce simp: sample_dg_def)
  moreover from this(3) have "sa_status a = 302" using s(2,5) by (simp add: sip_status_def)
  ultimately show ?thesis using s(1,3) server_step_event by blast
qed

text \<open>
  C39: the access log repeats itself. In every reachable state, each text that was written to the access log begins with the text written before it, and all of them are the beginning of the log stream, which
  is never emptied: the line of every request is written again with every later request, and the memory of the stream grows without bound.
\<close>

theorem access_log_repeats:
  assumes "(server_step N)\<^sup>*\<^sup>* (server_init mem) s"
  shows "sorted_wrt strict_prefix (log_writes s) \<and> (\<forall>t \<in> set (log_writes s). prefix t (sv_message s))"
proof -
  have "log_inv s" using assms
  proof (induction rule: rtranclp_induct)
    case base
    show ?case by (simp add: log_inv_def log_writes_def server_init_def map_filter_def)
  qed (use log_inv_step in blast)
  then show ?thesis by (simp add: log_inv_def)
qed

definition sample_start :: "(64 word \<Rightarrow> 64 word option, 64 word \<Rightarrow> lerg_data option, 64 word \<Rightarrow> youmail_data option, 64 word \<Rightarrow> geo_data option,
    64 word \<Rightarrow> ftc_data option, 64 word \<Rightarrow> f404_data option, 64 word \<Rightarrow> f606_data option, char list, int) server" where
  "sample_start = server_init (replicate 200 NUL)"

lemma sample_logged:
  "\<exists>a acl message. onDataAvailable (sip_env_of sample_server (\<lambda>_ _. True)) 7 ''a'' (receive sample_request (sv_mem sample_start)) (sample_dg (length sample_request))
     (ct_globals (sv_control sample_start)) (currentACL (ct_globals (sv_control sample_start))) (sv_message sample_start) = Some (Some a, acl, message) \<and> sa_logged a \<noteq> None"
  (is "\<exists>a acl message. ?run = _ \<and> _")
proof -
  have "map_option (\<lambda>(a, _, _). map_option (\<lambda>a. sa_logged a \<noteq> None) a) ?run = Some (Some True)" by code_simp
  then show ?thesis by (auto simp: map_option_eq_Some)
qed

theorem access_log_repeats_witness:
  "\<exists>s. (server_step sample_server)\<^sup>*\<^sup>* sample_start s \<and> length (log_writes s) = 1 \<and> (\<forall>t \<in> set (log_writes s). prefix t (sv_message s))"
proof -
  obtain a acl message where a: "onDataAvailable (sip_env_of sample_server (\<lambda>_ _. True)) 7 ''a'' (receive sample_request (sv_mem sample_start)) (sample_dg (length sample_request))
      (ct_globals (sv_control sample_start)) (currentACL (ct_globals (sv_control sample_start))) (sv_message sample_start) = Some (Some a, acl, message)" "sa_logged a \<noteq> None"
    using sample_logged by blast
  have "length sample_request \<le> sn_max_length sample_server" "dg_len (sample_dg (length sample_request)) = length sample_request"
    by (simp_all add: sample_server_def sample_request_def sample_dg_def)
  from Datagram [OF this a(1)] have r: "(server_step sample_server)\<^sup>*\<^sup>* sample_start (handled sample_start (receive sample_request (sv_mem sample_start)) (Some a, acl, message))" by blast
  have "log_writes sample_start = []" by (simp add: log_writes_def sample_start_def server_init_def map_filter_def)
  then show ?thesis using r access_log_repeats [OF r [unfolded sample_start_def], folded sample_start_def] a(2)
    by (intro exI [of _ "handled sample_start (receive sample_request (sv_mem sample_start)) (Some a, acl, message)"])
      (auto simp: log_writes_handled)
qed

end
