(* ===== verification/Api_Handler.thy ===== *)
theory Api_Handler
  imports Sip_Handler
begin

text \<open>
  The HTTP handlers of \<^verbatim>\<open>callfwd/ApiHandler.cpp\<close>: \<^verbatim>\<open>/target\<close>, which looks numbers up in all tables, and \<^verbatim>\<open>/reverse\<close>, which lists the numbers of a prefix of routing
  numbers. A request is its method, its path, its query and its headers; what a handler sends is a list of \<open>http_out\<close>. The functions of proxygen and folly are the record
  \<open>api_env\<close>. An exception in a function declared \<^verbatim>\<open>noexcept\<close> ends the process, which is the value \<open>None\<close>.
\<close>

section \<open>Requests and responses\<close>

datatype http_method = Http_GET | Http_POST | Http_other

datatype header_code = H_CONTENT_LENGTH | H_CONTENT_TYPE | H_ACCEPT | H_UNKNOWN

record http_req =
  rq_method :: http_method
  rq_path :: "char list"
  rq_query :: "char list"
  rq_headers :: "(header_code \<times> char list) list"

text \<open>\<open>Direct\<close> is a response without a body, \<open>Started\<close> the status and the content type (whether it is JSON).\<close>

datatype http_out = Direct nat | Started nat bool | Body "char list" | EOM

record ('p, 'l, 'y, 'g, 't, 'n, 's) api_env =
  ap_maps :: "('p, 'l, 'y, 'g, 't, 'n, 's) f14_maps"
  ap_pf :: nat
  ap_folly :: folly
  ap_same_end :: bool
  ap_split :: "char list \<Rightarrow> (char list \<times> char list) list"
  ap_qvalues :: "char list \<Rightarrow> char list list"
  ap_to_size :: "char list \<Rightarrow> 64 word option"
  ap_single :: "(header_code \<times> char list) list \<Rightarrow> header_code \<Rightarrow> char list"
  ap_max_query :: nat

definition isJsonRequested :: "('p, 'l, 'y, 'g, 't, 'n, 's) api_env \<Rightarrow> char list \<Rightarrow> bool" where
  "isJsonRequested E accept = (case ap_qvalues E accept of [] \<Rightarrow> False | tok # _ \<Rightarrow> tok = ''application/json'')"

text \<open>The text of a string literal; quotation marks are written as backquotes here.\<close>

definition lit :: "char list \<Rightarrow> char list" where
  "lit s = map (\<lambda>c. if c = CHR ''`'' then CHR 0x22 else c) s"

definition num :: "64 word \<Rightarrow> char list" where
  "num n = dec_text (unat n)"

section \<open>The texts of one number\<close>

definition lrn_text :: "bool \<Rightarrow> 64 word \<Rightarrow> 64 word \<Rightarrow> char list" where
  "lrn_text json pn rn =
     (if json then
        (if rn \<noteq> NONE then lit ''`pn`: `'' @ num pn @ lit ''`, `rn`: `'' @ num rn @ lit ''`'' else lit ''`pn`: `'' @ num pn @ lit ''`, `rn`: null'')
      else if rn \<noteq> NONE then ''pn='' @ num pn @ '',lrn='' @ num rn
      else ''pn='' @ num pn @ '',lrn=null'')"

text \<open>\<open>None\<close> is a table that is not loaded.\<close>

definition flag_text :: "bool \<Rightarrow> char list \<Rightarrow> 64 word option \<Rightarrow> char list" where
  "flag_text json name x =
     (let no = (case x of None \<Rightarrow> True | Some v \<Rightarrow> v = 0)
      in if json then lit ''`'' @ name @ lit (if no then ''`: `no`'' else ''`: `yes`'') else name @ (if no then ''=no'' else ''=yes''))"

definition lerg_text :: "bool \<Rightarrow> lerg_data option \<Rightarrow> char list" where
  "lerg_text json x =
     (case (case x of None \<Rightarrow> None | Some d \<Rightarrow> if lerg_key d = 0 then None else Some d) of
        None \<Rightarrow> (if json then lit ''`ocn`:: null, `operator`: null, `ocn_type`: null, `lata`: null, `rate_center`: null, `country`: null''
                 else ''ocn=null, operator=null, ocn_type=null, lata=null, rate_center=null, country=null '')
      | Some d \<Rightarrow>
          (if json then lit ''`ocn`: `'' @ le_ocn d @ lit ''`, `operator`: `'' @ le_company d @ lit ''`, `ocn_type`: `'' @ le_ocn_type d @
             lit ''`, `lata`: `'' @ le_lata d @ lit ''`, `rate_center`: `'' @ le_rate_center d @ lit ''`, `country`: `'' @ le_country d @ lit ''`''
           else ''ocn='' @ le_ocn d @ '', operator='' @ le_company d @ '', ocn_type='' @ le_ocn_type d @ '', lata='' @ le_lata d @
             '', rate_center='' @ le_rate_center d @ '', country='' @ le_country d))"

definition youmail_text :: "bool \<Rightarrow> youmail_data option \<Rightarrow> char list" where
  "youmail_text json x =
     (case (case x of None \<Rightarrow> None | Some d \<Rightarrow> if ym_pn d = 0 then None else Some d) of
        None \<Rightarrow> (if json then lit ''`youmail_SpamScore`: null, `youmail_FraudProbability`: null, `youmail_Unlawful`: null, ` youmail_TCPAFraudProbability`: null''
                 else ''youmail_SpamScore=null, youmail_FraudProbability=null, youmail_Unlawful=null, youmail_TCPAFraudProbability=null'')
      | Some d \<Rightarrow>
          (if json then lit ''`youmail_SpamScore`: `'' @ ym_sapmscore d @ lit ''`, `youmail_FraudProbability`: `'' @ ym_fraudprobability d @
             lit ''`, `youmail_Unlawful`: `'' @ ym_unlawful d @ lit ''`, `youmail_TCPAFraudProbability`: `'' @ ym_tcpafraud d @ lit ''`''
           else ''youmail_SpamScore='' @ ym_sapmscore d @ '', youmail_FraudProbability='' @ ym_fraudprobability d @
             '', youmail_Unlawful='' @ ym_unlawful d @ '', youmail_TCPAFraudProbability='' @ ym_tcpafraud d))"

definition geo_text :: "bool \<Rightarrow> geo_data option \<Rightarrow> char list" where
  "geo_text json x =
     (case (case x of None \<Rightarrow> None | Some d \<Rightarrow> if ge_npanxx d = 0 then None else Some d) of
        None \<Rightarrow> (if json then lit ''`zipcode`: null, `county`: null, `city`: null, ` latitude`: null, ` longitude`: null, ` timezone`: null''
                 else ''zipcode=null, county=null, city=null, latitude=null, longitude=null, timezone=null'')
      | Some d \<Rightarrow>
          (if json then lit ''`zipcode`: `'' @ ge_zipcode d @ lit ''`, `county`: `'' @ ge_county d @ lit ''`, `city`: `'' @ ge_city d @
             lit ''`, `latitude`: `'' @ ge_latitude d @ lit ''`, `longitude`: `'' @ ge_longitude d @ lit ''`, `timezone`: `'' @ ge_timezone d @ lit ''`''
           else ''zipcode='' @ ge_zipcode d @ '', county='' @ ge_county d @ '', city='' @ ge_city d @
             '', latitude='' @ ge_latitude d @ '', longitude='' @ ge_longitude d @ '', timezone='' @ ge_timezone d))"

definition ftc_text :: "bool \<Rightarrow> ftc_data option \<Rightarrow> char list" where
  "ftc_text json x =
     (case (case x of None \<Rightarrow> None | Some d \<Rightarrow> if ft_pn d = 0 then None else Some d) of
        None \<Rightarrow> (if json then lit ''`is_ftc`: `no`, `last_ftc_on`: null, `first_ftc_on`: null, `ftc_count`: null''
                 else ''is_ftc=no, last_ftc_on=null, first_ftc_on=null, ftc_count=null'')
      | Some d \<Rightarrow>
          (if json then lit ''`is_ftc`: `yes`, `last_ftc_on`: `'' @ last_ftc_on d @ lit ''`, `first_ftc_on`: `'' @ first_ftc_on d @ lit ''`, ` ftc_count`: `'' @ ftc_count d @ lit ''`''
           else ''is_ftc=yes, last_ftc_on='' @ last_ftc_on d @ '', first_ftc_on='' @ first_ftc_on d @ '', ftc_count='' @ ftc_count d))"

definition f404_text :: "bool \<Rightarrow> f404_data option \<Rightarrow> char list" where
  "f404_text json x =
     (case (case x of None \<Rightarrow> None | Some d \<Rightarrow> if f4_pn d = 0 then None else Some d) of
        None \<Rightarrow> (if json then lit ''`first_404_on`: null, `last_404_on`: null'' else ''first_404_on=null, last_404_on=null'')
      | Some d \<Rightarrow>
          (if json then lit ''`first_404_on`: `'' @ first_F404_on d @ lit ''`, `last_404_on`: `'' @ last_F404_on d @ lit ''`''
           else ''first_404_on='' @ first_F404_on d @ '', last_404_on='' @ last_F404_on d))"

definition f606_text :: "bool \<Rightarrow> f606_data option \<Rightarrow> char list" where
  "f606_text json x =
     (case (case x of None \<Rightarrow> None | Some d \<Rightarrow> if f6_pn d = 0 then None else Some d) of
        None \<Rightarrow> (if json then lit ''`first_6xx_on`: null, `last_6xx_on`: null'' else ''first_6xx_on=null, last_6xx_on=null'')
      | Some d \<Rightarrow>
          (if json then lit ''`first_6xx_on`: `'' @ first_F606_on d @ lit ''`, `last_6xx_on`: `'' @ last_F606_on d @ lit ''`''
           else ''first_6xx_on='' @ first_F606_on d @ '', last_6xx_on='' @ last_F606_on d))"

record answers =
  an_pn :: "64 word"
  an_rn :: "64 word"
  an_dnc :: "64 word option"
  an_dno :: "64 word option"
  an_tollfree :: "64 word option"
  an_lerg :: "lerg_data option"
  an_youmail :: "youmail_data option"
  an_geo :: "geo_data option"
  an_ftc :: "ftc_data option"
  an_404 :: "f404_data option"
  an_606 :: "f606_data option"

definition answer_line :: "bool \<Rightarrow> answers \<Rightarrow> char list" where
  "answer_line json a = ''  {'' @ lrn_text json (an_pn a) (an_rn a) @ '', '' @ flag_text json ''is_dno'' (an_dno a) @ '', '' @ flag_text json ''is_dnc'' (an_dnc a) @ '', '' @
     flag_text json ''is_tollfree'' (an_tollfree a) @ '', '' @ lerg_text json (an_lerg a) @ '', '' @ youmail_text json (an_youmail a) @ '', '' @ geo_text json (an_geo a) @ '', '' @
     ftc_text json (an_ftc a) @ '', '' @ f404_text json (an_404 a) @ '', '' @ f606_text json (an_606 a) @ ''},'' @ [LF]"

section \<open>Looking all numbers up\<close>

text \<open>The vectors that \<^verbatim>\<open>resize\<close> fills: their elements are value-initialised.\<close>

definition lerg_new :: lerg_data where
  "lerg_new = \<lparr>lerg_key = 0, le_state = [], le_company = [], le_ocn = [], le_rate_center = [], le_ocn_type = [], le_lata = [], le_country = []\<rparr>"

definition youmail_new :: youmail_data where
  "youmail_new = \<lparr>ym_pn = 0, ym_sapmscore = [], ym_fraudprobability = [], ym_unlawful = [], ym_tcpafraud = []\<rparr>"

definition geo_new :: geo_data where
  "geo_new = \<lparr>ge_npanxx = 0, ge_zipcode = [], ge_county = [], ge_city = [], ge_latitude = [], ge_longitude = [], ge_timezone = []\<rparr>"

definition ftc_new :: ftc_data where
  "ftc_new = \<lparr>ft_pn = 0, last_ftc_on = [], first_ftc_on = [], ftc_count = []\<rparr>"

definition f404_new :: f404_data where
  "f404_new = \<lparr>f4_pn = 0, last_F404_on = [], first_F404_on = []\<rparr>"

definition f606_new :: f606_data where
  "f606_new = \<lparr>f6_pn = 0, last_F606_on = [], first_F606_on = []\<rparr>"

text \<open>A table that is loaded is asked for all numbers at once.\<close>

definition ask :: "'d option \<Rightarrow> ('d \<Rightarrow> 'r list option) \<Rightarrow> 'r list option option" where
  "ask table get = (case table of None \<Rightarrow> Some None | Some d \<Rightarrow> map_option Some (get d))"

definition at_row :: "'r list option \<Rightarrow> nat \<Rightarrow> 'r option" where
  "at_row xs i = map_option (\<lambda>l. l ! i) xs"

definition pick_rns :: "64 word list \<Rightarrow> 64 word list \<Rightarrow> nat \<Rightarrow> 64 word list" where
  "pick_rns us_rn ca_rn N = map (\<lambda>i. if us_rn ! i = NONE then ca_rn ! i else us_rn ! i) [0..<N]"

definition search_keys :: "64 word list \<Rightarrow> 64 word list \<Rightarrow> 64 word list" where
  "search_keys rns pn = map (\<lambda>i. if rns ! i \<noteq> NONE then rns ! i else pn ! i) [0..<length pn]"

definition onQueryComplete :: "('p, 'l, 'y, 'g, 't, 'n, 's) api_env \<Rightarrow> ('p, 'l, 'y, 'g, 't, 'n, 's, 'i, 'b) globals \<Rightarrow> bool \<Rightarrow> 64 word list \<Rightarrow> http_out list option" where
  "onQueryComplete E g json pn = do {
     let F = ap_maps E; let pf = ap_pf E; let N = length pn;
     us_rn \<leftarrow> Option.bind (mappingUS g) (\<lambda>d. getRNs (F_pn F) pf d pn);
     ca_rn \<leftarrow> Option.bind (mappingCA g) (\<lambda>d. getRNs (F_pn F) pf d pn);
     us_dnc \<leftarrow> ask (mappingDNC g) (\<lambda>d. getDNCs (F_pn F) pf d pn (replicate N 0));
     us_dno \<leftarrow> ask (mappingDNO g) (\<lambda>d. getDNOs (ap_same_end E) (F_pn F) pf d pn (replicate N 0));
     us_tollfree \<leftarrow> ask (mappingTollFree g) (\<lambda>d. getTollFrees (F_pn F) pf d pn (replicate N 0));
     let rns = pick_rns us_rn ca_rn N; let lerg_search_key = search_keys rns pn;
     us_lerg \<leftarrow> ask (mappingLerg g) (\<lambda>d. getLergs (F_lerg F) pf d lerg_search_key (replicate N lerg_new));
     us_youmail \<leftarrow> ask (mappingYoumail g) (\<lambda>d. getYoumails (F_youmail F) pf d pn (replicate N youmail_new));
     us_geo \<leftarrow> ask (mappingGeo g) (\<lambda>d. getGeos (F_geo F) pf d pn (replicate N geo_new));
     us_ftc \<leftarrow> ask (mappingFtc g) (\<lambda>d. getFtcs (F_ftc F) pf d pn (replicate N ftc_new));
     us_404 \<leftarrow> ask (mapping404 g) (\<lambda>d. getF404s (F_404 F) pf d pn (replicate N f404_new));
     us_606 \<leftarrow> ask (mapping606 g) (\<lambda>d. getF606s (F_606 F) pf d pn (replicate N f606_new));
     let record = (if json then ''['' @ [LF] else []) @
       concat (map (\<lambda>i. answer_line json \<lparr>an_pn = pn ! i, an_rn = rns ! i, an_dnc = at_row us_dnc i, an_dno = at_row us_dno i, an_tollfree = at_row us_tollfree i,
         an_lerg = at_row us_lerg i, an_youmail = at_row us_youmail i, an_geo = at_row us_geo i, an_ftc = at_row us_ftc i, an_404 = at_row us_404 i, an_606 = at_row us_606 i\<rparr>) [0..<N]) @
       (if json then '']'' @ [LF] else []);
     Some ([Started 200 json] @ (if record \<noteq> [] then [Body record] else []) @ [EOM]) }"

section \<open>The handler of /target\<close>

record target =
  th_needBody :: bool
  th_json :: bool
  th_body :: "char list option"
  th_pn :: "64 word list"

definition target_init :: target where
  "target_init = \<lparr>th_needBody = True, th_json = False, th_body = None, th_pn = []\<rparr>"

definition sanitizeHeader :: "('p, 'l, 'y, 'g, 't, 'n, 's) api_env \<Rightarrow> header_code \<times> char list \<Rightarrow> target \<Rightarrow> target option" where
  "sanitizeHeader E h st = (case h of (code, value) \<Rightarrow> (case code of
       H_CONTENT_LENGTH \<Rightarrow> map_option (\<lambda>n. if unat n > ap_max_query E then st\<lparr>th_needBody := False\<rparr> else st) (ap_to_size E value)
     | H_CONTENT_TYPE \<Rightarrow> Some (if value \<noteq> ''application/x-www-form-urlencoded'' then st\<lparr>th_needBody := False\<rparr> else st)
     | H_ACCEPT \<Rightarrow> Some (st\<lparr>th_json := isJsonRequested E value\<rparr>)
     | H_UNKNOWN \<Rightarrow> Some st))"

primrec sanitizeHeaders :: "('p, 'l, 'y, 'g, 't, 'n, 's) api_env \<Rightarrow> (header_code \<times> char list) list \<Rightarrow> target \<Rightarrow> target option" where
  "sanitizeHeaders E [] st = Some st"
| "sanitizeHeaders E (h # hs) st = Option.bind (sanitizeHeader E h st) (sanitizeHeaders E hs)"

definition target_param :: "('p, 'l, 'y, 'g, 't, 'n, 's) api_env \<Rightarrow> char list \<times> char list \<Rightarrow> target \<Rightarrow> target" where
  "target_param E p st = (case p of (name, value) \<Rightarrow>
     (if name = ''phone%5B%5D'' \<or> name = ''phone[]'' then
        (let pn = fromString (ap_folly E) value in if pn \<noteq> NONE then st\<lparr>th_pn := th_pn st @ [pn]\<rparr> else st)
      else st))"

definition onQueryString :: "('p, 'l, 'y, 'g, 't, 'n, 's) api_env \<Rightarrow> char list \<Rightarrow> target \<Rightarrow> target" where
  "onQueryString E query st = fold (target_param E) (ap_split E query) st"

definition target_onRequest :: "('p, 'l, 'y, 'g, 't, 'n, 's) api_env \<Rightarrow> ('p, 'l, 'y, 'g, 't, 'n, 's, 'i, 'b) globals \<Rightarrow> http_req \<Rightarrow> target \<Rightarrow> (target \<times> http_out list) option" where
  "target_onRequest E g req st0 = do {
     st \<leftarrow> sanitizeHeaders E (rq_headers req) st0;
     if rq_method req = Http_GET then do {
       let st1 = onQueryString E (rq_query req) (st\<lparr>th_needBody := False\<rparr>);
       out \<leftarrow> onQueryComplete E g (th_json st1) (th_pn st1);
       Some (st1, out) }
     else if rq_method req = Http_POST \<and> th_needBody st then Some (st, [])
     else Some (st\<lparr>th_needBody := False\<rparr>, [Direct 400]) }"

definition target_onBody :: "('p, 'l, 'y, 'g, 't, 'n, 's) api_env \<Rightarrow> char list \<Rightarrow> target \<Rightarrow> target \<times> http_out list" where
  "target_onBody E body st =
     (if \<not> th_needBody st then (st, [])
      else
        (let b = (case th_body st of Some b \<Rightarrow> b @ body | None \<Rightarrow> body); st1 = st\<lparr>th_body := Some b\<rparr>
         in if length b > ap_max_query E then (st1\<lparr>th_needBody := False, th_body := None\<rparr>, [Direct 400]) else (st1, [])))"

definition target_onEOM :: "('p, 'l, 'y, 'g, 't, 'n, 's) api_env \<Rightarrow> ('p, 'l, 'y, 'g, 't, 'n, 's, 'i, 'b) globals \<Rightarrow> target \<Rightarrow> http_out list option" where
  "target_onEOM E g st =
     (if th_needBody st then
        (let st1 = onQueryString E (case th_body st of Some b \<Rightarrow> b | None \<Rightarrow> []) st in onQueryComplete E g (th_json st1) (th_pn st1))
      else Some [])"

text \<open>A request from its headers to its end: proxygen calls \<^verbatim>\<open>onRequest\<close>, then \<^verbatim>\<open>onBody\<close> for each part of the body, then \<^verbatim>\<open>onEOM\<close>.\<close>

primrec target_bodies :: "('p, 'l, 'y, 'g, 't, 'n, 's) api_env \<Rightarrow> char list list \<Rightarrow> target \<Rightarrow> target \<times> http_out list" where
  "target_bodies E [] st = (st, [])"
| "target_bodies E (b # bs) st = (case target_onBody E b st of (st1, out) \<Rightarrow> (case target_bodies E bs st1 of (st2, out2) \<Rightarrow> (st2, out @ out2)))"

definition target_run :: "('p, 'l, 'y, 'g, 't, 'n, 's) api_env \<Rightarrow> ('p, 'l, 'y, 'g, 't, 'n, 's, 'i, 'b) globals \<Rightarrow> http_req \<Rightarrow> char list list \<Rightarrow> http_out list option" where
  "target_run E g req bodies = do {
     (st, out) \<leftarrow> target_onRequest E g req target_init;
     let r = target_bodies E bodies st;
     rest \<leftarrow> target_onEOM E g (fst r);
     Some (out @ snd r @ rest) }"

section \<open>The handler of /reverse\<close>

primrec times10 :: "nat \<Rightarrow> 64 word \<times> 64 word \<Rightarrow> 64 word \<times> 64 word" where
  "times10 0 r = r"
| "times10 (Suc n) r = times10 n (fst r * 10, snd r * 10)"

definition reverse_param :: "('p, 'l, 'y, 'g, 't, 'n, 's) api_env \<Rightarrow> char list \<times> char list \<Rightarrow> (64 word \<times> 64 word) list" where
  "reverse_param E p = (case p of (name, value) \<Rightarrow>
     (if name = ''prefix%5B%5D'' \<or> name = ''prefix[]'' then
        (if length value > 10 then []
         else (case tryTo_u64 (ap_folly E) value of None \<Rightarrow> [] | Some n \<Rightarrow> [times10 (10 - length value) (n, n + 1)]))
      else []))"

definition reverse_line :: "bool \<Rightarrow> 64 word \<times> 64 word \<Rightarrow> char list" where
  "reverse_line json r = (case r of (pn, rn) \<Rightarrow>
     (if json then lit ''  {`pn`: `'' @ num pn @ lit ''`, `rn`: `'' @ num rn @ lit ''`},'' @ [LF] else num pn @ '','' @ num rn @ [LF]))"

text \<open>The record of the handler and what it has sent.\<close>

definition put_line :: "char list \<Rightarrow> char list \<times> http_out list \<Rightarrow> char list \<times> http_out list" where
  "put_line line s = (case s of (record, out) \<Rightarrow>
     (let record' = record @ line in if length record' > 1000 then ([], out @ [Body record']) else (record', out)))"

partial_function (option) sendBody :: "'d phone_map \<Rightarrow> nat \<Rightarrow> 'd phone_data \<Rightarrow> bool \<Rightarrow> cursor option \<Rightarrow> char list \<times> http_out list \<Rightarrow> (char list \<times> http_out list) option" where
  "sendBody F pf d json cu s = (case cu of
       None \<Rightarrow> Some s
     | Some c \<Rightarrow> do { row \<leftarrow> currentRow c; cu' \<leftarrow> advance F pf d c; sendBody F pf d json cu' (put_line (reverse_line json row) s) })"

lemmas [code] = sendBody.simps

primrec reverse_ranges :: "'d phone_map \<Rightarrow> nat \<Rightarrow> 'd phone_data \<Rightarrow> 'd phone_data \<Rightarrow> bool \<Rightarrow> (64 word \<times> 64 word) list \<Rightarrow> char list \<times> http_out list
    \<Rightarrow> (char list \<times> http_out list) option" where
  "reverse_ranges F pf us ca json [] s = Some s"
| "reverse_ranges F pf us ca json (r # rs) s = do {
     cu \<leftarrow> inverseRNs F pf us (fst r) (snd r);
     s1 \<leftarrow> sendBody F pf us json cu s;
     cu2 \<leftarrow> inverseRNs F pf ca (fst r) (snd r);
     s2 \<leftarrow> sendBody F pf ca json cu2 s1;
     reverse_ranges F pf us ca json rs s2 }"

definition reverse_onRequest :: "('p, 'l, 'y, 'g, 't, 'n, 's) api_env \<Rightarrow> ('p, 'l, 'y, 'g, 't, 'n, 's, 'i, 'b) globals \<Rightarrow> http_req \<Rightarrow> http_out list option" where
  "reverse_onRequest E g req =
     (if rq_method req \<noteq> Http_GET then Some [Direct 400]
      else do {
        let ranges = concat (map (reverse_param E) (ap_split E (rq_query req)));
        let json = isJsonRequested E (ap_single E (rq_headers req) H_ACCEPT);
        us \<leftarrow> mappingUS g;
        ca \<leftarrow> mappingCA g;
        (record, out) \<leftarrow> reverse_ranges (F_pn (ap_maps E)) (ap_pf E) us ca json ranges (if json then ''['' @ [LF] else [], [Started 200 json]);
        let record' = record @ (if json then '']'' @ [LF] else []);
        Some (out @ (if record' \<noteq> [] then [Body record'] else []) @ [EOM]) })"

text \<open>The factory: the choice of the handler.\<close>

definition api_request :: "('p, 'l, 'y, 'g, 't, 'n, 's) api_env \<Rightarrow> ('p, 'l, 'y, 'g, 't, 'n, 's, 'i, 'b) globals \<Rightarrow> http_req \<Rightarrow> char list list \<Rightarrow> http_out list option" where
  "api_request E g req bodies =
     (if rq_path req = ''/target'' then (if isAvailable g then target_run E g req bodies else Some [Direct 503])
      else if rq_path req = ''/reverse'' then (if isAvailable g then reverse_onRequest E g req else Some [Direct 503])
      else Some [Direct 404])"

section \<open>The answers, number by number\<close>

definition rn_of :: "'d phone_map \<Rightarrow> ('d, 'z) mappings_scheme \<Rightarrow> 64 word \<Rightarrow> 64 word" where
  "rn_of F g pn = (case (case mappingUS g of Some d \<Rightarrow> find_rn F d pn | None \<Rightarrow> NONE) of rn \<Rightarrow>
     if rn = NONE then (case mappingCA g of Some d \<Rightarrow> find_rn F d pn | None \<Rightarrow> NONE) else rn)"

definition answers_for :: "('p, 'l, 'y, 'g, 't, 'n, 's) api_env \<Rightarrow> ('p, 'l, 'y, 'g, 't, 'n, 's, 'i, 'b) globals \<Rightarrow> 64 word \<Rightarrow> answers" where
  "answers_for E g pn =
     (let F = ap_maps E; rn = rn_of (F_pn F) g pn in
      \<lparr>an_pn = pn, an_rn = rn, an_dnc = map_option (\<lambda>d. flag_one (F_pn F) d pn 0) (mappingDNC g),
       an_dno = map_option (\<lambda>d. dno_one (ap_same_end E) (F_pn F) d pn 0) (mappingDNO g),
       an_tollfree = map_option (\<lambda>d. flag_one (F_pn F) d pn 0) (mappingTollFree g),
       an_lerg = map_option (\<lambda>d. lerg_one (F_lerg F) d (if rn \<noteq> NONE then rn else pn) lerg_new) (mappingLerg g),
       an_youmail = map_option (\<lambda>d. youmail_one (F_youmail F) d pn youmail_new) (mappingYoumail g),
       an_geo = map_option (\<lambda>d. geo_one (F_geo F) d pn geo_new) (mappingGeo g),
       an_ftc = map_option (\<lambda>d. ftc_one (F_ftc F) d pn ftc_new) (mappingFtc g),
       an_404 = map_option (\<lambda>d. f404_one (F_404 F) d pn f404_new) (mapping404 g),
       an_606 = map_option (\<lambda>d. f606_one (F_606 F) d pn f606_new) (mapping606 g)\<rparr>)"

definition bracketed :: "bool \<Rightarrow> char list \<Rightarrow> char list" where
  "bracketed json t = (if json then ''['' @ [LF] else []) @ t @ (if json then '']'' @ [LF] else [])"

definition ok_response :: "bool \<Rightarrow> char list \<Rightarrow> http_out list" where
  "ok_response json t = [Started 200 json] @ (if t \<noteq> [] then [Body t] else []) @ [EOM]"

definition target_text :: "('p, 'l, 'y, 'g, 't, 'n, 's) api_env \<Rightarrow> ('p, 'l, 'y, 'g, 't, 'n, 's, 'i, 'b) globals \<Rightarrow> bool \<Rightarrow> 64 word list \<Rightarrow> char list" where
  "target_text E g json pns = bracketed json (concat (map (\<lambda>pn. answer_line json (answers_for E g pn)) pns))"

lemma ask_eq: "(\<And>d. get d = Some (f d)) \<Longrightarrow> ask t get = Some (map_option f t)"
  by (cases t) (simp_all add: ask_def)

lemma batched_zero: "0 < pf \<Longrightarrow> batched one pf pn (replicate (length pn) x) = Some (map (\<lambda>k. one k x) pn)"
  by (simp add: batched_eq map2_replicate)

lemma at_row_map: "i < length pn \<Longrightarrow> at_row (map_option (\<lambda>d. map (f d) pn) t) i = map_option (\<lambda>d. f d (pn ! i)) t"
  by (cases t) (simp_all add: at_row_def)

lemma onQueryComplete_eq:
  assumes "0 < ap_pf E" and "isAvailable g"
  shows "onQueryComplete E g json pn = Some (ok_response json (target_text E g json pn))"
proof -
  obtain us ca where db: "mappingUS g = Some us" "mappingCA g = Some ca" using assms(2) by (auto simp: isAvailable_def)
  define rns where "rns = map (rn_of (F_pn (ap_maps E)) g) pn"
  define keys where "keys = map (\<lambda>p. if rn_of (F_pn (ap_maps E)) g p \<noteq> NONE then rn_of (F_pn (ap_maps E)) g p else p) pn"
  have rns: "pick_rns (map (find_rn (F_pn (ap_maps E)) us) pn) (map (find_rn (F_pn (ap_maps E)) ca) pn) (length pn) = rns"
    unfolding pick_rns_def by (rule nth_equalityI) (simp_all add: rns_def rn_of_def db)
  have keys: "search_keys rns pn = keys"
    unfolding search_keys_def by (rule nth_equalityI) (simp_all add: rns_def keys_def)
  have len: "length keys = length pn" by (simp add: keys_def)
  note asks = ask_eq [OF batched_zero [OF assms(1)]]
  have lines: "map (\<lambda>i. answer_line json \<lparr>an_pn = pn ! i, an_rn = rns ! i,
      an_dnc = at_row (map_option (\<lambda>d. map (\<lambda>k. flag_one (F_pn (ap_maps E)) d k 0) pn) (mappingDNC g)) i,
      an_dno = at_row (map_option (\<lambda>d. map (\<lambda>k. dno_one (ap_same_end E) (F_pn (ap_maps E)) d k 0) pn) (mappingDNO g)) i,
      an_tollfree = at_row (map_option (\<lambda>d. map (\<lambda>k. flag_one (F_pn (ap_maps E)) d k 0) pn) (mappingTollFree g)) i,
      an_lerg = at_row (map_option (\<lambda>d. map (\<lambda>k. lerg_one (F_lerg (ap_maps E)) d k lerg_new) keys) (mappingLerg g)) i,
      an_youmail = at_row (map_option (\<lambda>d. map (\<lambda>k. youmail_one (F_youmail (ap_maps E)) d k youmail_new) pn) (mappingYoumail g)) i,
      an_geo = at_row (map_option (\<lambda>d. map (\<lambda>k. geo_one (F_geo (ap_maps E)) d k geo_new) pn) (mappingGeo g)) i,
      an_ftc = at_row (map_option (\<lambda>d. map (\<lambda>k. ftc_one (F_ftc (ap_maps E)) d k ftc_new) pn) (mappingFtc g)) i,
      an_404 = at_row (map_option (\<lambda>d. map (\<lambda>k. f404_one (F_404 (ap_maps E)) d k f404_new) pn) (mapping404 g)) i,
      an_606 = at_row (map_option (\<lambda>d. map (\<lambda>k. f606_one (F_606 (ap_maps E)) d k f606_new) pn) (mapping606 g)) i\<rparr>) [0..<length pn] =
    map (\<lambda>p. answer_line json (answers_for E g p)) pn"
    by (rule nth_equalityI) (simp_all add: at_row_map len answers_for_def rns_def keys_def Let_def)
  have lerg: "ask (mappingLerg g) (\<lambda>d. batched (lerg_one (F_lerg (ap_maps E)) d) (ap_pf E) keys (replicate (length pn) lerg_new)) =
      Some (map_option (\<lambda>d. map (\<lambda>k. lerg_one (F_lerg (ap_maps E)) d k lerg_new) keys) (mappingLerg g))"
    by (rule ask_eq) (rule batched_zero [OF assms(1), of _ keys, unfolded len])
  show ?thesis
    unfolding target_text_def lines [symmetric]
    by (simp add: onQueryComplete_def db getRNs_eq [OF assms(1)] getDNCs_def getDNOs_def getTollFrees_def getLergs_def getYoumails_def getGeos_def getFtcs_def
        getF404s_def getF606s_def asks lerg rns keys bracketed_def ok_response_def Let_def del: concat_eq_Nil_conv)
qed

section \<open>A request to /target\<close>

definition numbers :: "('p, 'l, 'y, 'g, 't, 'n, 's) api_env \<Rightarrow> char list \<Rightarrow> 64 word list" where
  "numbers E query = filter (\<lambda>n. n \<noteq> NONE) (map (\<lambda>p. fromString (ap_folly E) (snd p)) (filter (\<lambda>p. fst p \<in> {''phone%5B%5D'', ''phone[]''}) (ap_split E query)))"

lemma onQueryString_eq: "onQueryString E query st = st\<lparr>th_pn := th_pn st @ numbers E query\<rparr>"
proof -
  have "fold (target_param E) ps st = st\<lparr>th_pn := th_pn st @ filter (\<lambda>n. n \<noteq> NONE) (map (\<lambda>p. fromString (ap_folly E) (snd p))
      (filter (\<lambda>p. fst p \<in> {''phone%5B%5D'', ''phone[]''}) ps))\<rparr>" for ps
    by (induction ps arbitrary: st) (auto simp: target_param_def Let_def split: prod.splits)
  then show ?thesis by (simp add: onQueryString_def numbers_def)
qed

text \<open>What the headers of a request ask for.\<close>

definition refused :: "('p, 'l, 'y, 'g, 't, 'n, 's) api_env \<Rightarrow> (header_code \<times> char list) list \<Rightarrow> bool" where
  "refused E hs \<longleftrightarrow> (\<exists>(code, v) \<in> set hs. (code = H_CONTENT_LENGTH \<and> (\<exists>n. ap_to_size E v = Some n \<and> unat n > ap_max_query E)) \<or>
     (code = H_CONTENT_TYPE \<and> v \<noteq> ''application/x-www-form-urlencoded''))"

definition accepts_json :: "('p, 'l, 'y, 'g, 't, 'n, 's) api_env \<Rightarrow> (header_code \<times> char list) list \<Rightarrow> bool" where
  "accepts_json E hs = (case rev (filter (\<lambda>h. fst h = H_ACCEPT) hs) of [] \<Rightarrow> False | h # _ \<Rightarrow> isJsonRequested E (snd h))"

definition lengths_read :: "('p, 'l, 'y, 'g, 't, 'n, 's) api_env \<Rightarrow> (header_code \<times> char list) list \<Rightarrow> bool" where
  "lengths_read E hs \<longleftrightarrow> (\<forall>h \<in> set hs. fst h = H_CONTENT_LENGTH \<longrightarrow> ap_to_size E (snd h) \<noteq> None)"

lemma refused_Cons: "refused E ((code, v) # hs) \<longleftrightarrow> (code = H_CONTENT_LENGTH \<and> (\<exists>n. ap_to_size E v = Some n \<and> unat n > ap_max_query E)) \<or>
    (code = H_CONTENT_TYPE \<and> v \<noteq> ''application/x-www-form-urlencoded'') \<or> refused E hs"
  by (auto simp: refused_def)

lemma accepts_json_Cons: "accepts_json E ((code, v) # hs) =
    (if filter (\<lambda>h. fst h = H_ACCEPT) hs = [] then code = H_ACCEPT \<and> isJsonRequested E v else accepts_json E hs)"
  by (cases "rev (filter (\<lambda>h. fst h = H_ACCEPT) hs)") (auto simp: accepts_json_def)

lemma sanitizeHeaders_eq:
  assumes "lengths_read E hs"
  shows "sanitizeHeaders E hs st = Some (st\<lparr>th_needBody := th_needBody st \<and> \<not> refused E hs,
    th_json := if filter (\<lambda>h. fst h = H_ACCEPT) hs = [] then th_json st else accepts_json E hs\<rparr>)"
  using assms
proof (induction hs arbitrary: st)
  case (Cons h hs)
  obtain code v where h: "h = (code, v)" by (cases h)
  have IH: "sanitizeHeaders E hs s = Some (s\<lparr>th_needBody := th_needBody s \<and> \<not> refused E hs,
    th_json := if filter (\<lambda>h. fst h = H_ACCEPT) hs = [] then th_json s else accepts_json E hs\<rparr>)" for s
    using Cons by (simp add: lengths_read_def)
  show ?case
    using Cons.prems by (cases code) (auto simp: h sanitizeHeader_def IH accepts_json_Cons refused_Cons lengths_read_def)
qed (simp add: refused_def)

lemma target_bodies_off: "\<not> th_needBody st \<Longrightarrow> target_bodies E bs st = (st, [])"
  by (induction bs) (simp_all add: target_onBody_def)

lemma target_bodies_on:
  assumes "th_needBody st" and "b0 = (case th_body st of Some b \<Rightarrow> b | None \<Rightarrow> [])" and "length b0 \<le> ap_max_query E"
  shows "if length (b0 @ concat bs) > ap_max_query E then \<exists>st'. target_bodies E bs st = (st', [Direct 400]) \<and> \<not> th_needBody st'
    else \<exists>x. target_bodies E bs st = (st\<lparr>th_body := x\<rparr>, []) \<and> (case x of Some b \<Rightarrow> b | None \<Rightarrow> []) = b0 @ concat bs"
  using assms
proof (induction bs arbitrary: st b0)
  case Nil
  then show ?case by (auto intro: exI [of _ "th_body st"])
next
  case (Cons b bs)
  let ?b = "b0 @ b"
  have on: "target_onBody E b st = (if length ?b > ap_max_query E then (st\<lparr>th_body := None, th_needBody := False\<rparr>, [Direct 400]) else (st\<lparr>th_body := Some ?b\<rparr>, []))"
    using Cons.prems by (auto simp: target_onBody_def Let_def split: option.splits)
  show ?case
  proof (cases "length ?b > ap_max_query E")
    case True
    then show ?thesis by (simp add: on target_bodies_off)
  next
    case False
    note IH = Cons.IH [of "st\<lparr>th_body := Some ?b\<rparr>" ?b]
    show ?thesis
    proof (cases "length (?b @ concat bs) > ap_max_query E")
      case True
      then show ?thesis using IH Cons.prems(1) False by (auto simp: on)
    next
      case small: False
      then show ?thesis using IH Cons.prems(1) False by (auto simp: on)
    qed
  qed
qed

text \<open>The query of a request that is answered.\<close>

definition served_query :: "('p, 'l, 'y, 'g, 't, 'n, 's) api_env \<Rightarrow> http_req \<Rightarrow> char list list \<Rightarrow> char list option" where
  "served_query E req bodies =
     (if rq_method req = Http_GET then Some (rq_query req)
      else if rq_method req = Http_POST \<and> \<not> refused E (rq_headers req) \<and> length (concat bodies) \<le> ap_max_query E then Some (concat bodies)
      else None)"

lemma target_run_eq:
  assumes "0 < ap_pf E" and "isAvailable g" and "lengths_read E (rq_headers req)"
  shows "target_run E g req bodies = Some (case served_query E req bodies of None \<Rightarrow> [Direct 400]
    | Some q \<Rightarrow> ok_response (accepts_json E (rq_headers req)) (target_text E g (accepts_json E (rq_headers req)) (numbers E q)))"
proof -
  let ?st = "target_init\<lparr>th_needBody := \<not> refused E (rq_headers req), th_json := accepts_json E (rq_headers req)\<rparr>"
  have st: "sanitizeHeaders E (rq_headers req) target_init = Some ?st"
    using sanitizeHeaders_eq [OF assms(3), of target_init] by (auto simp: target_init_def accepts_json_def)
  note complete = onQueryComplete_eq [OF assms(1,2)] onQueryString_eq
  show ?thesis
  proof (cases "rq_method req = Http_POST \<and> \<not> refused E (rq_headers req)")
    case True
    then have req: "target_onRequest E g req target_init = Some (?st, [])" using st by (simp add: target_onRequest_def)
    have on: "th_needBody ?st" "[] = (case th_body ?st of Some b \<Rightarrow> b | None \<Rightarrow> [])" using True by (simp_all add: target_init_def)
    show ?thesis
    proof (cases "length (concat bodies) > ap_max_query E")
      case big: True
      then obtain st' where "target_bodies E bodies ?st = (st', [Direct 400])" "\<not> th_needBody st'"
        using target_bodies_on [OF on, of E bodies] by auto
      then show ?thesis using True big req by (simp add: target_run_def target_onEOM_def served_query_def)
    next
      case False
      then obtain x where "target_bodies E bodies ?st = (?st\<lparr>th_body := x\<rparr>, [])" "(case x of Some b \<Rightarrow> b | None \<Rightarrow> []) = concat bodies"
        using target_bodies_on [OF on, of E bodies] by auto
      then show ?thesis using True False req by (simp add: target_run_def target_onEOM_def served_query_def complete target_init_def Let_def)
    qed
  next
    case False
    show ?thesis
    proof (cases "rq_method req = Http_GET")
      case True
      then show ?thesis using st by (simp add: target_run_def target_onRequest_def target_onEOM_def served_query_def complete target_bodies_off target_init_def Let_def)
    next
      case not_get: False
      then show ?thesis using st False by (auto simp: target_run_def target_onRequest_def target_onEOM_def served_query_def target_bodies_off)
    qed
  qed
qed

section \<open>A request to /reverse\<close>

lemma sendBody_rows:
  "all_rows F pf d cu = Some rows \<Longrightarrow> sendBody F pf d json cu s = Some (fold (\<lambda>r. put_line (reverse_line json r)) rows s)"
proof (induction rows arbitrary: cu s)
  case Nil
  then show ?case by (cases cu) (auto simp: all_rows.simps [of _ _ _ "Some _"] bind_eq_Some_conv sendBody.simps)
next
  case (Cons r rows)
  then obtain c where c: "cu = Some c" by (cases cu) (auto simp: all_rows.simps)
  then obtain cu' where "currentRow c = Some r" "advance F pf d c = Some cu'" "all_rows F pf d cu' = Some rows"
    using Cons.prems by (auto simp: all_rows.simps [of _ _ _ "Some _"] bind_eq_Some_conv)
  then show ?case using Cons.IH [of cu' "put_line (reverse_line json r) s"] c by (subst sendBody.simps) simp
qed

text \<open>The lines are sent in order, whichever part of them stays in the record.\<close>

lemma put_line_eq: "put_line l (t, out) = (if length (t @ l) > 1000 then ([], out @ [Body (t @ l)]) else (t @ l, out))"
  by (simp add: put_line_def Let_def)

lemma put_lines:
  "\<exists>bs txt'. fold (\<lambda>r. put_line (f r)) rows (txt0, out) = (txt', out @ map Body bs) \<and> concat bs @ txt' = txt0 @ concat (map f rows) \<and> [] \<notin> set bs"
proof (induction rows arbitrary: txt0 out)
  case (Cons r rows)
  let ?r = "txt0 @ f r"
  show ?case
  proof (cases "length ?r > 1000")
    case True
    obtain bs txt' where "fold (\<lambda>r. put_line (f r)) rows ([], out @ [Body ?r]) = (txt', (out @ [Body ?r]) @ map Body bs)"
      "concat bs @ txt' = concat (map f rows)" "[] \<notin> set bs" using Cons.IH [of "[]" "out @ [Body ?r]"] by auto
    then show ?thesis using True by (intro exI [of _ "?r # bs"] exI [of _ txt']) (auto simp: put_line_eq)
  next
    case False
    then show ?thesis using Cons.IH [of ?r out] by (auto simp: put_line_eq)
  qed
qed (auto intro: exI [of _ "[]"])

definition prefix_rows :: "nat \<Rightarrow> nat \<Rightarrow> (64 word \<times> 64 word) list \<Rightarrow> (64 word \<times> 64 word) list" where
  "prefix_rows len n rs = sort_key snd (filter (\<lambda>r. unat (snd r) div 10 ^ (10 - len) = n) rs)"

definition prefixes :: "('p, 'l, 'y, 'g, 't, 'n, 's) api_env \<Rightarrow> char list \<Rightarrow> (nat \<times> nat) list" where
  "prefixes E query = concat (map (\<lambda>p. if fst p \<in> {''prefix%5B%5D'', ''prefix[]''} \<and> length (snd p) \<le> 10
     then (case tryTo_u64 (ap_folly E) (snd p) of None \<Rightarrow> [] | Some n \<Rightarrow> [(length (snd p), unat n)]) else []) (ap_split E query))"

definition prefix_range :: "nat \<times> nat \<Rightarrow> 64 word \<times> 64 word" where
  "prefix_range p = (of_nat (snd p * 10 ^ (10 - fst p)), of_nat ((snd p + 1) * 10 ^ (10 - fst p)))"

lemma times10_eq: "times10 k r = (fst r * 10 ^ k, snd r * 10 ^ k)"
  by (induction k arbitrary: r) (simp_all add: mult.assoc)

lemma reverse_params: "concat (map (reverse_param E) (ap_split E query)) = map prefix_range (prefixes E query)"
proof -
  have "concat (map (reverse_param E) ps) = map prefix_range (concat (map (\<lambda>p. if fst p \<in> {''prefix%5B%5D'', ''prefix[]''} \<and> length (snd p) \<le> 10
     then (case tryTo_u64 (ap_folly E) (snd p) of None \<Rightarrow> [] | Some n \<Rightarrow> [(length (snd p), unat n)]) else []) ps))" for ps
    by (induction ps) (auto simp: reverse_param_def times10_eq prefix_range_def algebra_simps split: prod.splits option.splits)
  then show ?thesis by (simp add: prefixes_def)
qed

lemma prefixes_bound:
  assumes "folly_laws (ap_folly E)" and "(len, n) \<in> set (prefixes E query)"
  shows "(n + 1) * 10 ^ (10 - len) \<le> 10 ^ 10"
proof -
  have "\<exists>p \<in> set (ap_split E query). length (snd p) \<le> 10 \<and> len = length (snd p) \<and> (\<exists>w. tryTo_u64 (ap_folly E) (snd p) = Some w \<and> n = unat w)"
    using assms(2) by (force simp: prefixes_def split: if_splits option.splits)
  then obtain v w where v: "tryTo_u64 (ap_folly E) v = Some w" "length v \<le> 10" "len = length v" "n = unat w" by blast
  have "n + 1 \<le> 10 ^ length v" using tryTo_bound [OF assms(1) v(1)] v(4) by simp
  then have "(n + 1) * 10 ^ (10 - length v) \<le> 10 ^ length v * 10 ^ (10 - length v)" by (rule mult_le_mono1)
  also have "\<dots> = 10 ^ 10" using v(2) by (simp flip: power_add)
  finally show ?thesis using v(3) by simp
qed

lemma div_eq_range: "0 < d \<Longrightarrow> x div d = n \<longleftrightarrow> n * d \<le> x \<and> x < (n + 1) * d" for d :: nat
  by (metis add.commute div_nat_eqI dividend_less_div_times mult.commute mult_Suc_right plus_1_eq_Suc times_div_less_eq_dividend)

lemma prefix_send:
  assumes "folly_laws (ap_folly E)" and "p \<in> set (prefixes E query)" and "f14_laws F" and "database F rs d" and "0 < pf"
    and "\<forall>r \<in> set rs. fst r < 2 ^ 34 \<and> snd r < 2 ^ 34"
  shows "\<exists>cu. inverseRNs F pf d (fst (prefix_range p)) (snd (prefix_range p)) = Some cu \<and>
    sendBody F pf d json cu s = Some (fold (\<lambda>r. put_line (reverse_line json r)) (prefix_rows (fst p) (snd p) rs) s)"
proof -
  obtain len n where p: "p = (len, n)" by (cases p)
  let ?a = "n * 10 ^ (10 - len)" and ?b = "(n + 1) * 10 ^ (10 - len)"
  have le: "?b \<le> 10 ^ 10" using prefixes_bound [OF assms(1)] assms(2) p by simp
  have ab: "?a < 2 ^ 34" "?b < 2 ^ 34" using le by (simp_all add: algebra_simps)
  have of_small: "unat (of_nat x :: 64 word) = x \<and> of_nat x < (2 ^ 34 :: 64 word)" if "x < 2 ^ 34" for x
    using that by (simp add: unat_of_nat take_bit_nat_eq_self word_less_nat_alt)
  note u = of_small [OF ab(1)] of_small [OF ab(2)]
  note small = u [THEN conjunct2]
  have "of_nat ?a \<le> x \<and> x < of_nat ?b \<longleftrightarrow> unat x div 10 ^ (10 - len) = n" for x :: "64 word"
    unfolding word_le_nat_alt word_less_nat_alt u [THEN conjunct1] by (rule div_eq_range [symmetric]) simp
  then have "Option.bind (inverseRNs F pf d (of_nat ?a) (of_nat ?b)) (all_rows F pf d) = Some (prefix_rows len n rs)"
    using inverseRNs_rows [OF assms(3-6) small] by (simp add: prefix_rows_def)
  then obtain cu where "inverseRNs F pf d (of_nat ?a) (of_nat ?b) = Some cu" "all_rows F pf d cu = Some (prefix_rows len n rs)"
    by (auto simp: bind_eq_Some_conv)
  then show ?thesis using sendBody_rows [of F pf d cu "prefix_rows len n rs" json s] by (simp add: p prefix_range_def)
qed

lemma reverse_ranges_rows:
  assumes "folly_laws (ap_folly E)" and "set ps \<subseteq> set (prefixes E query)" and "f14_laws F" and "database F rsU us" and "database F rsC ca" and "0 < pf"
    and "\<forall>r \<in> set rsU \<union> set rsC. fst r < 2 ^ 34 \<and> snd r < 2 ^ 34"
  shows "reverse_ranges F pf us ca json (map prefix_range ps) s =
    Some (fold (\<lambda>r. put_line (reverse_line json r)) (concat (map (\<lambda>p. prefix_rows (fst p) (snd p) rsU @ prefix_rows (fst p) (snd p) rsC) ps)) s)"
  using assms(2)
proof (induction ps arbitrary: s)
  case (Cons p ps)
  then have p: "p \<in> set (prefixes E query)" by simp
  have small: "\<forall>r \<in> set rsU. fst r < 2 ^ 34 \<and> snd r < 2 ^ 34" "\<forall>r \<in> set rsC. fst r < 2 ^ 34 \<and> snd r < 2 ^ 34" using assms(7) by auto
  let ?put = "fold (\<lambda>r. put_line (reverse_line json r))"
  let ?s1 = "?put (prefix_rows (fst p) (snd p) rsU) s"
  obtain cu cu2 where "inverseRNs F pf us (fst (prefix_range p)) (snd (prefix_range p)) = Some cu" "sendBody F pf us json cu s = Some ?s1"
    "inverseRNs F pf ca (fst (prefix_range p)) (snd (prefix_range p)) = Some cu2"
    "sendBody F pf ca json cu2 ?s1 = Some (?put (prefix_rows (fst p) (snd p) rsC) ?s1)"
    using prefix_send [OF assms(1) p assms(3,4,6) small(1), of json s] prefix_send [OF assms(1) p assms(3,5,6) small(2), of json ?s1] by blast
  then show ?case using Cons by simp
qed simp

section \<open>Properties\<close>

text \<open>
  C12: what \<^verbatim>\<open>/target\<close> answers. While both countries are loaded and the Content-Length headers are numbers, a GET request, and a POST request whose headers and length are accepted, get status 200 and one line for each
  number in the query or the body, with the answers of the single lookups in the tables that are loaded, although the handler looks all numbers up in batches; the routing guide is asked for the routing number, or for the number
  when it has none. Every other request gets exactly one response, with status 400.
\<close>

theorem target_serves:
  assumes "0 < ap_pf E" and "isAvailable g" and "lengths_read E (rq_headers req)" and "rq_path req = ''/target''"
  shows "api_request E g req bodies = Some (case served_query E req bodies of None \<Rightarrow> [Direct 400]
    | Some q \<Rightarrow> ok_response (accepts_json E (rq_headers req)) (target_text E g (accepts_json E (rq_headers req)) (numbers E q)))"
  using target_run_eq [OF assms(1-3)] assms(2,4) by (simp add: api_request_def)

definition sample_api :: "(64 word \<Rightarrow> 64 word option, 64 word \<Rightarrow> lerg_data option, 64 word \<Rightarrow> youmail_data option, 64 word \<Rightarrow> geo_data option,
    64 word \<Rightarrow> ftc_data option, 64 word \<Rightarrow> f404_data option, 64 word \<Rightarrow> f606_data option) api_env" where
  "sample_api = \<lparr>ap_maps = ce_maps sample_ctl, ap_pf = 16, ap_folly = std_folly, ap_same_end = True, ap_split = (\<lambda>q. [(take 7 q, drop 8 q)]),
     ap_qvalues = (\<lambda>v. [v]), ap_to_size = tryTo_u64 std_folly, ap_single = (\<lambda>hs code. case filter (\<lambda>h. fst h = code) hs of [h] \<Rightarrow> snd h | _ \<Rightarrow> []), ap_max_query = 100\<rparr>"

definition loaded_globals :: "(64 word \<Rightarrow> 64 word option, 64 word \<Rightarrow> lerg_data option, 64 word \<Rightarrow> youmail_data option, 64 word \<Rightarrow> geo_data option,
    64 word \<Rightarrow> ftc_data option, 64 word \<Rightarrow> f404_data option, 64 word \<Rightarrow> f606_data option, char list, int) globals" where
  "loaded_globals = no_globals\<lparr>mappingUS := Some (empty_data map_f14), mappingCA := Some (empty_data map_f14)\<rparr>"

definition sample_get :: "char list \<Rightarrow> char list \<Rightarrow> http_req" where
  "sample_get path query = \<lparr>rq_method = Http_GET, rq_path = path, rq_query = query, rq_headers = [(H_ACCEPT, ''application/json'')]\<rparr>"

theorem target_serves_witness:
  "api_request sample_api loaded_globals (sample_get ''/target'' ''phone[]=2025550100'') [] =
    Some (ok_response True (target_text sample_api loaded_globals True (numbers sample_api ''phone[]=2025550100'')))"
proof -
  have "0 < ap_pf sample_api" "isAvailable loaded_globals" "lengths_read sample_api (rq_headers (sample_get ''/target'' ''phone[]=2025550100''))"
    by (simp_all add: sample_api_def loaded_globals_def isAvailable_def lengths_read_def sample_get_def)
  from target_serves [OF this, of "[]"] show ?thesis
    by (simp add: served_query_def sample_get_def accepts_json_def isJsonRequested_def sample_api_def)
qed

text \<open>
  C13: what \<^verbatim>\<open>/reverse\<close> answers. For databases of rows below \<open>2 ^ 34\<close> and every GET request, the bodies that are sent, put together, are one line for each row whose routing number, read as ten digits, begins with a
  prefix of the query: prefix by prefix, first the rows of the United States and then the Canadian ones, each group ordered by routing number, however the lines are cut into bodies; no body is empty.
\<close>

theorem reverse_serves:
  assumes "folly_laws (ap_folly E)" and "f14_laws (F_pn (ap_maps E))" and "0 < ap_pf E" and "mappingUS g = Some us" and "mappingCA g = Some ca"
    and "database (F_pn (ap_maps E)) rsU us" and "database (F_pn (ap_maps E)) rsC ca" and "\<forall>r \<in> set rsU \<union> set rsC. fst r < 2 ^ 34 \<and> snd r < 2 ^ 34"
    and "rq_path req = ''/reverse''" and "rq_method req = Http_GET" and "json = isJsonRequested E (ap_single E (rq_headers req) H_ACCEPT)"
  shows "\<exists>bs. api_request E g req bodies = Some ([Started 200 json] @ map Body bs @ [EOM]) \<and> [] \<notin> set bs \<and>
    concat bs = bracketed json (concat (map (reverse_line json) (concat (map (\<lambda>(len, n). prefix_rows len n rsU @ prefix_rows len n rsC) (prefixes E (rq_query req))))))"
proof -
  let ?rows = "concat (map (\<lambda>p. prefix_rows (fst p) (snd p) rsU @ prefix_rows (fst p) (snd p) rsC) (prefixes E (rq_query req)))"
  let ?start = "if json then ''['' @ [LF] else []" and ?stop = "if json then '']'' @ [LF] else []"
  obtain bs rest0 where put: "fold (\<lambda>r. put_line (reverse_line json r)) ?rows (?start, [Started 200 json]) = (rest0, [Started 200 json] @ map Body bs)"
    "concat bs @ rest0 = ?start @ concat (map (reverse_line json) ?rows)" "[] \<notin> set bs" using put_lines by blast
  have "reverse_ranges (F_pn (ap_maps E)) (ap_pf E) us ca json (map prefix_range (prefixes E (rq_query req))) (?start, [Started 200 json]) = Some (rest0, [Started 200 json] @ map Body bs)"
    using reverse_ranges_rows [OF assms(1) order.refl assms(2,6,7,3,8)] put(1) by simp
  then have "reverse_onRequest E g req = Some (([Started 200 json] @ map Body bs) @ (if rest0 @ ?stop \<noteq> [] then [Body (rest0 @ ?stop)] else []) @ [EOM])"
    using assms(4,5,10,11) by (simp add: reverse_onRequest_def reverse_params Let_def)
  then have run: "api_request E g req bodies = Some ([Started 200 json] @ map Body (bs @ (if rest0 @ ?stop \<noteq> [] then [rest0 @ ?stop] else [])) @ [EOM])"
    using assms(4,5,9) by (simp add: api_request_def isAvailable_def)
  have "concat (bs @ (if rest0 @ ?stop \<noteq> [] then [rest0 @ ?stop] else [])) = bracketed json (concat (map (reverse_line json) ?rows))"
    using put(2) by (auto simp: bracketed_def simp flip: append_assoc)
  moreover have "[] \<notin> set (bs @ (if rest0 @ ?stop \<noteq> [] then [rest0 @ ?stop] else []))" using put(3) by auto
  ultimately show ?thesis using run by (auto simp: case_prod_unfold simp del: map_append)
qed

theorem reverse_serves_witness:
  "\<exists>d bs. database map_f14 [(2025550100, 2025559999), (9, 7)] d \<and>
    api_request sample_api (loaded_globals\<lparr>mappingUS := Some d, mappingCA := Some d\<rparr>) (sample_get ''/reverse'' ''prefix[]202'') [] = Some ([Started 200 True] @ map Body bs @ [EOM])"
proof -
  obtain d where d: "database map_f14 [(2025550100, 2025559999), (9, 7)] d" using sample_database by blast
  have F: "F_pn (ap_maps sample_api) = map_f14" "ap_folly sample_api = std_folly" by (simp_all add: sample_api_def sample_ctl_def)
  have json: "True = isJsonRequested sample_api (ap_single sample_api (rq_headers (sample_get ''/reverse'' ''prefix[]202'')) H_ACCEPT)" by code_simp
  have "\<exists>bs. api_request sample_api (loaded_globals\<lparr>mappingUS := Some d, mappingCA := Some d\<rparr>) (sample_get ''/reverse'' ''prefix[]202'') [] = Some ([Started 200 True] @ map Body bs @ [EOM])"
    using reverse_serves [of sample_api "loaded_globals\<lparr>mappingUS := Some d, mappingCA := Some d\<rparr>" d d "[(2025550100, 2025559999), (9, 7)]" "[(2025550100, 2025559999), (9, 7)]"
      "sample_get ''/reverse'' ''prefix[]202''" True "[]", unfolded F, OF std_folly_laws map_f14_laws _ _ _ d d _ _ _ json]
    by (auto simp: sample_api_def sample_get_def)
  then show ?thesis using d by blast
qed

text \<open>
  The JSON that \<^verbatim>\<open>/target\<close> sends is not JSON: there is a comma after the last element, and two colons follow the name \<^verbatim>\<open>ocn\<close> when the number has no record in the routing guide; some names begin with
  a blank in one case and not in the other.
\<close>

theorem api_quirks:
  "api_request sample_api loaded_globals (sample_get ''/target'' ''phone[]=0000000007'') [] = Some [Started 200 True, Body (''['' @ [LF] @
     lit ''  {`pn`: `7`, `rn`: null, `is_dno`: `no`, `is_dnc`: `no`, `is_tollfree`: `no`, `ocn`:: null, `operator`: null, `ocn_type`: null, `lata`: null, `rate_center`: null, `country`: null, '' @
     lit ''`youmail_SpamScore`: null, `youmail_FraudProbability`: null, `youmail_Unlawful`: null, ` youmail_TCPAFraudProbability`: null, '' @
     lit ''`zipcode`: null, `county`: null, `city`: null, ` latitude`: null, ` longitude`: null, ` timezone`: null, '' @
     lit ''`is_ftc`: `no`, `last_ftc_on`: null, `first_ftc_on`: null, `ftc_count`: null, `first_404_on`: null, `last_404_on`: null, `first_6xx_on`: null, `last_6xx_on`: null},'' @ [LF] @
     '']'' @ [LF]), EOM] \<and>
   api_request sample_api loaded_globals (sample_get ''/reverse'' ''prefix[]=2'') [] = Some [Started 200 True, Body (''['' @ [LF] @ '']'' @ [LF]), EOM]"
  by (intro conjI; code_simp)

end
