(* ===== verification/Stir_Types.thy ===== *)
theory Stir_Types
  imports Api_Handler
begin

text \<open>
  The messages of the STIR/SHAKEN service, \<^verbatim>\<open>stir/StirApiTypes.cpp\<close> and \<^verbatim>\<open>StirApiTypes.h\<close>: the API errors with their table, the requests and responses, the validators, and
  the reading of a request from JSON with its handlers of exceptions. Dynamic values of folly are a type parameter \<open>'d\<close>; their operations, the JSON reader and writer and
  the parser of UUIDs are the records \<open>json_lib\<close> and \<open>stir_lib\<close>. A function that may throw returns a sum, with the exception on the left.
\<close>

section \<open>Exceptions\<close>

text \<open>
  The classes of exceptions that the code distinguishes; a type or conversion error carries the text of \<^verbatim>\<open>what()\<close>. \<open>Aborted\<close> is the end of the process at a failed
  assertion or at the read through a null pointer.
\<close>

datatype exn = Parse_error | Out_of_range | Type_error "char list" | Conversion_error "char list" | Invalid_argument | Other_exception | Aborted

definition bind_sum :: "'e + 'a \<Rightarrow> ('a \<Rightarrow> 'e + 'b) \<Rightarrow> 'e + 'b" where
  "bind_sum x f = (case x of Inl e \<Rightarrow> Inl e | Inr a \<Rightarrow> f a)"

lemma bind_sum_simps [simp]: "bind_sum (Inl e) f = Inl e" "bind_sum (Inr a) f = f a"
  by (simp_all add: bind_sum_def)

lemma bind_sum_eq_Inr: "bind_sum x f = Inr b \<longleftrightarrow> (\<exists>a. x = Inr a \<and> f a = Inr b)"
  by (cases x) simp_all

lemma bind_sum_eq_Inl: "bind_sum x f = Inl e \<longleftrightarrow> x = Inl e \<or> (\<exists>a. x = Inr a \<and> f a = Inl e)"
  by (cases x) simp_all

lemma map_sum_eq_Inr: "map_sum f g x = Inr b \<longleftrightarrow> (\<exists>a. x = Inr a \<and> b = g a)"
  by (cases x) auto

lemma map_sum_eq_Inl: "map_sum f g x = Inl b \<longleftrightarrow> (\<exists>a. x = Inl a \<and> b = f a)"
  by (cases x) auto

section \<open>The library\<close>

text \<open>
  \<open>js_at\<close> is the subscript of a constant value, \<open>js_index\<close> that of a variable, \<open>js_range\<close> the array made from the range of a vector of strings; \<open>js_to_fbstring\<close>,
  \<open>js_to_strings\<close> and \<open>js_to_u64\<close> are the instances of \<^verbatim>\<open>folly::convertTo\<close>.
\<close>

record 'd json_lib =
  js_parse :: "char list \<Rightarrow> exn + 'd"
  js_dump :: "'d \<Rightarrow> char list"
  js_isString :: "'d \<Rightarrow> bool"
  js_isObject :: "'d \<Rightarrow> bool"
  js_isInt :: "'d \<Rightarrow> bool"
  js_stringPiece :: "'d \<Rightarrow> char list"
  js_asInt :: "'d \<Rightarrow> 64 word"
  js_negative :: "'d \<Rightarrow> bool"
  js_at :: "'d \<Rightarrow> char list \<Rightarrow> exn + 'd"
  js_index :: "'d \<Rightarrow> char list \<Rightarrow> exn + 'd"
  js_get_ptr :: "'d \<Rightarrow> char list \<Rightarrow> 'd option"
  js_eq :: "'d \<Rightarrow> 'd \<Rightarrow> bool"
  js_string :: "char list \<Rightarrow> 'd"
  js_int :: "int \<Rightarrow> 'd"
  js_array :: "'d list \<Rightarrow> 'd"
  js_range :: "char list list \<Rightarrow> 'd"
  js_object :: "(char list \<times> 'd) list \<Rightarrow> 'd"
  js_to_fbstring :: "'d \<Rightarrow> exn + char list"
  js_to_strings :: "'d \<Rightarrow> exn + char list list"
  js_to_u64 :: "'d \<Rightarrow> exn + 64 word"

record 'd stir_lib =
  sl_json :: "'d json_lib"
  sl_folly :: folly
  sl_splitTo :: "char \<Rightarrow> char list \<Rightarrow> char list list"
  uuid_parse :: "char list \<Rightarrow> int"

section \<open>Errors\<close>

datatype stir_error_code =
  STIR_SVC_MISSING_BODY | STIR_SVC_MISSING_INFORMATION | STIR_SVC_NOT_ACCEPTABLE_RESPONSE_BODY_TYPE | STIR_SVC_RESOURCE_NOT_FOUND |
  STIR_SVC_UNSUPPORTED_REQUEST_BODY_TYPE | STIR_SVC_INVALID_PARAMETER_VALUE | STIR_SVC_FAILED_TO_PARSE_MSG_BODY | STIR_SVC_MISSING_BODY_LENGTH |
  STIR_POL_METHOD_NOT_ALLOWED | STIR_POL_INTERNAL_ERROR | STIR_API_ERROR_MAX

fun code_index :: "stir_error_code \<Rightarrow> nat" where
  "code_index STIR_SVC_MISSING_BODY = 0"
| "code_index STIR_SVC_MISSING_INFORMATION = 1"
| "code_index STIR_SVC_NOT_ACCEPTABLE_RESPONSE_BODY_TYPE = 2"
| "code_index STIR_SVC_RESOURCE_NOT_FOUND = 3"
| "code_index STIR_SVC_UNSUPPORTED_REQUEST_BODY_TYPE = 4"
| "code_index STIR_SVC_INVALID_PARAMETER_VALUE = 5"
| "code_index STIR_SVC_FAILED_TO_PARSE_MSG_BODY = 6"
| "code_index STIR_SVC_MISSING_BODY_LENGTH = 7"
| "code_index STIR_POL_METHOD_NOT_ALLOWED = 8"
| "code_index STIR_POL_INTERNAL_ERROR = 9"
| "code_index STIR_API_ERROR_MAX = 10"

record error_class =
  ec_id :: "char list"
  ec_reflect :: "char list"
  ec_text :: "char list"
  ec_http_status :: nat

text \<open>The typographic quotation marks of the texts, in UTF-8.\<close>

definition lquo :: "char list" where "lquo = [CHR 0xE2, CHR 0x80, CHR 0x98]"

definition rquo :: "char list" where "rquo = [CHR 0xE2, CHR 0x80, CHR 0x99]"

definition shakenApiError :: "error_class list" where
  "shakenApiError =
    [\<lparr>ec_id = ''SVC4000'', ec_reflect = ''SHAKEN_SVC_MISSING_BODY'', ec_text = ''Missing request body'', ec_http_status = 400\<rparr>,
     \<lparr>ec_id = ''SVC4001'', ec_reflect = ''SHAKEN_SVC_MISSING_INFORMATION'', ec_text = ''Missing mandatory parameter '' @ lquo @ ''%1'' @ rquo, ec_http_status = 400\<rparr>,
     \<lparr>ec_id = ''SVC4002'', ec_reflect = ''SHAKEN_SVC_NOT_ACCEPTABLE_RESPONSE_BODY_TYPE'',
       ec_text = ''Requested response body type '' @ lquo @ ''%1'' @ rquo @ '' is not supported'', ec_http_status = 406\<rparr>,
     \<lparr>ec_id = ''SVC4003'', ec_reflect = ''SHAKEN_SVC_RESOURCE_NOT_FOUND'', ec_text = ''Requested resource was not found'', ec_http_status = 404\<rparr>,
     \<lparr>ec_id = ''SVC4004'', ec_reflect = ''SHAKEN_SVC_UNSUPPORTED_REQUEST_BODY_TYPE'',
       ec_text = ''Unsupported request body type, expected '' @ lquo @ ''%1'' @ lquo, ec_http_status = 415\<rparr>,
     \<lparr>ec_id = ''SVC4005'', ec_reflect = ''SHAKEN_SVC_INVALID_PARAMETER_VALUE'', ec_text = ''Invalid '' @ lquo @ ''%1'' @ rquo @ '' parameter value: %2'', ec_http_status = 400\<rparr>,
     \<lparr>ec_id = ''SVC4006'', ec_reflect = ''SHAKEN_SVC_FAILED_TO_PARSE_MSG_BODY'', ec_text = ''Failed to parse received message body: %1'', ec_http_status = 400\<rparr>,
     \<lparr>ec_id = ''SVC4007'', ec_reflect = ''SHAKEN_SVC_MISSING_BODY_LENGTH'', ec_text = ''Missing mandatory Content-Length header'', ec_http_status = 411\<rparr>,
     \<lparr>ec_id = ''POL4050'', ec_reflect = ''SHAKEN_POL_METHOD_NOT_ALLOWED'', ec_text = ''Method not allowed'', ec_http_status = 405\<rparr>,
     \<lparr>ec_id = ''POL5000'', ec_reflect = ''SHAKEN_POL_INTERNAL_ERROR'', ec_text = ''Internal Server Error. Please try again later'', ec_http_status = 500\<rparr>]"

text \<open>\<open>er_kind\<close> is the pointer into the table, as its index; a method of an error without a class would read through a null pointer.\<close>

record stir_error =
  er_kind :: "nat option"
  er_vars :: "char list"

definition no_error :: stir_error where
  "no_error = \<lparr>er_kind = None, er_vars = []\<rparr>"

definition StirApiError :: "stir_error_code \<Rightarrow> stir_error" where
  "StirApiError c = \<lparr>er_kind = Some (code_index c), er_vars = []\<rparr>"

definition is_error :: "stir_error \<Rightarrow> bool" where
  "is_error e \<longleftrightarrow> er_kind e \<noteq> None"

definition error_class_of :: "stir_error \<Rightarrow> error_class option" where
  "error_class_of e = (case er_kind e of None \<Rightarrow> None | Some k \<Rightarrow> if k < length shakenApiError then Some (shakenApiError ! k) else None)"

definition http_status :: "stir_error \<Rightarrow> nat option" where
  "http_status e = map_option ec_http_status (error_class_of e)"

definition reflect :: "stir_error \<Rightarrow> char list option" where
  "reflect e = map_option ec_reflect (error_class_of e)"

definition putVariable :: "char list \<Rightarrow> stir_error \<Rightarrow> stir_error" where
  "putVariable v e = e\<lparr>er_vars := (if er_vars e \<noteq> [] then er_vars e @ [TAB] else er_vars e) @ v\<rparr>"

definition error_toJson :: "('d, 'z) stir_lib_scheme \<Rightarrow> stir_error \<Rightarrow> 'd option" where
  "error_toJson L e =
     (let J = sl_json L; vars = js_array J (if er_vars e \<noteq> [] then map (js_string J) (sl_splitTo L TAB (er_vars e)) else [])
      in case error_class_of e of None \<Rightarrow> None
      | Some c \<Rightarrow>
          (let body = js_object J [(''messageId'', js_string J (ec_id c)), (''text'', js_string J (ec_text c)), (''variables'', vars)]; kind = take 3 (ec_id c)
           in if kind = ''SVC'' then Some (js_object J [(''serviceException'', body)])
              else if kind = ''POL'' then Some (js_object J [(''policyException'', body)])
              else None))"

definition error_toBody :: "('d, 'z) stir_lib_scheme \<Rightarrow> stir_error \<Rightarrow> char list option" where
  "error_toBody L e = map_option (\<lambda>j. js_dump (sl_json L) (js_object (sl_json L) [(''requestError'', j)])) (error_toJson L e)"

section \<open>Requests and responses\<close>

record signing_request =
  sr_attest :: "char list"
  sr_dest :: "char list list"
  sr_iat :: "64 word"
  sr_orig :: "char list"
  sr_origid :: "char list"

record verification_request =
  vr_identity :: "char list"
  vr_to :: "char list list"
  vr_from :: "char list"
  vr_time :: "64 word"

record verification_response =
  vs_reasonCode :: int
  vs_verStat :: "char list"
  vs_reasonText :: "char list"
  vs_reasonDesc :: "char list"

definition signing_toBody :: "('d, 'z) stir_lib_scheme \<Rightarrow> char list \<Rightarrow> char list" where
  "signing_toBody L identity =
     (let J = sl_json L in js_dump J (js_object J [(''signingResponse'', js_object J [(''identity'', js_string J identity)])]))"

definition verification_toBody :: "('d, 'z) stir_lib_scheme \<Rightarrow> verification_response \<Rightarrow> char list" where
  "verification_toBody L v =
     (let J = sl_json L in js_dump J (js_object J [(''verificationResponse'', js_object J
        [(''reasoncode'', js_int J (vs_reasonCode v)), (''reasontext'', js_string J (vs_reasonText v)),
         (''reasondesc'', js_string J (vs_reasonDesc v)), (''verstat'', js_string J (vs_verStat v))])]))"

section \<open>Validation\<close>

text \<open>\<^verbatim>\<open>c_str()\<close> read as a C string ends at the first zero byte; \<^verbatim>\<open>strchr\<close> finds the zero byte that ends the accepted characters.\<close>

definition c_str :: "char list \<Rightarrow> char list" where
  "c_str s = takeWhile (\<lambda>c. c \<noteq> NUL) s"

definition tn_char :: "char \<Rightarrow> bool" where
  "tn_char c \<longleftrightarrow> c \<in> set (''0123456789*#+.-()'' @ [NUL])"

definition validateTN :: "char list \<Rightarrow> bool" where
  "validateTN tn = list_all tn_char tn"

definition invalid_value :: "char list \<Rightarrow> char list \<Rightarrow> stir_error" where
  "invalid_value p why = putVariable why (putVariable p (StirApiError STIR_SVC_INVALID_PARAMETER_VALUE))"

definition tn_rule :: "char list" where
  "tn_rule = ''Only [0-9*#+.-()] characters allowed for TN''"

definition validate_signing :: "('d, 'z) stir_lib_scheme \<Rightarrow> signing_request \<Rightarrow> stir_error" where
  "validate_signing L m =
     (if sr_attest m \<noteq> ''A'' \<and> sr_attest m \<noteq> ''B'' \<and> sr_attest m \<noteq> ''C'' then
        invalid_value ''attest'' (map (\<lambda>c. if c = CHR ''`'' then CHR 0x27 else c) ''Must be `A`, `B` or `C`'')
      else if uuid_parse L (c_str (sr_origid m)) = - 1 then invalid_value ''origid'' ''should correspond to a UUID (RFC 4122)''
      else if sr_dest m = [] then invalid_value ''dest'' ''should contain one or more TN''
      else if \<not> validateTN (sr_orig m) then invalid_value ''orig'' tn_rule
      else if \<not> list_all validateTN (sr_dest m) then invalid_value ''dest'' tn_rule
      else no_error)"

definition validate_verification :: "verification_request \<Rightarrow> stir_error" where
  "validate_verification m =
     (if vr_to m = [] then invalid_value ''to'' ''should contain one or more TN''
      else if \<not> validateTN (vr_from m) then invalid_value ''from'' tn_rule
      else if \<not> list_all validateTN (vr_to m) then invalid_value ''to'' tn_rule
      else no_error)"

section \<open>Requests from JSON\<close>

text \<open>\<open>with_param p x\<close> runs \<open>x\<close> while \<^verbatim>\<open>param\<close> of the visitor is \<open>p\<close>, which the handlers of exceptions read.\<close>

definition with_param :: "char list \<Rightarrow> exn + 'a \<Rightarrow> (exn \<times> char list option) + 'a" where
  "with_param p x = map_sum (\<lambda>e. (e, Some p)) id x"

definition visit_signing :: "('d, 'z) stir_lib_scheme \<Rightarrow> 'd \<Rightarrow> (exn \<times> char list option) + signing_request" where
  "visit_signing L d =
     (let J = sl_json L in
      bind_sum (with_param ''attest'' (bind_sum (js_at J d ''attest'') (js_to_fbstring J))) (\<lambda>attest.
      bind_sum (with_param ''dest'' (bind_sum (bind_sum (js_at J d ''dest'') (\<lambda>x. js_at J x ''tn'')) (js_to_strings J))) (\<lambda>dest.
      bind_sum (with_param ''orig'' (bind_sum (bind_sum (js_at J d ''orig'') (\<lambda>x. js_at J x ''tn'')) (js_to_fbstring J))) (\<lambda>orig.
      bind_sum (with_param ''origid'' (bind_sum (js_at J d ''origid'') (js_to_fbstring J))) (\<lambda>origid.
      bind_sum (with_param ''iat'' (bind_sum (js_at J d ''iat'') (js_to_u64 J))) (\<lambda>iat.
      Inr \<lparr>sr_attest = attest, sr_dest = dest, sr_iat = iat, sr_orig = orig, sr_origid = origid\<rparr>))))))"

definition unwrap_signing :: "('d, 'z) stir_lib_scheme \<Rightarrow> 'd \<Rightarrow> (exn \<times> char list option) + 'd" where
  "unwrap_signing L d = with_param ''signingRequest'' (js_at (sl_json L) d ''signingRequest'')"

definition visit_verification :: "('d, 'z) stir_lib_scheme \<Rightarrow> 'd \<Rightarrow> (exn \<times> char list option) + verification_request" where
  "visit_verification L d =
     (let J = sl_json L in
      bind_sum (with_param ''identity'' (bind_sum (js_at J d ''identity'') (js_to_fbstring J))) (\<lambda>identity.
      bind_sum (with_param ''time'' (bind_sum (js_at J d ''time'') (js_to_u64 J))) (\<lambda>time.
      bind_sum (with_param ''from'' (bind_sum (bind_sum (js_at J d ''from'') (\<lambda>x. js_at J x ''tn'')) (js_to_fbstring J))) (\<lambda>from_tn.
      bind_sum (with_param ''to'' (bind_sum (bind_sum (js_at J d ''to'') (\<lambda>x. js_at J x ''tn'')) (js_to_strings J))) (\<lambda>to_tn.
      Inr \<lparr>vr_identity = identity, vr_to = to_tn, vr_from = from_tn, vr_time = time\<rparr>)))))"

definition unwrap_verification :: "('d, 'z) stir_lib_scheme \<Rightarrow> 'd \<Rightarrow> (exn \<times> char list option) + 'd" where
  "unwrap_verification L d = with_param ''verificationRequest'' (js_at (sl_json L) d ''verificationRequest'')"

text \<open>The handlers of exceptions; a null \<^verbatim>\<open>param\<close> is \<open>None\<close>.\<close>

fun caught :: "exn \<times> char list option \<Rightarrow> exn + stir_error" where
  "caught (Parse_error, p) = Inr (putVariable ''invalid JSON body'' (StirApiError STIR_SVC_FAILED_TO_PARSE_MSG_BODY))"
| "caught (Out_of_range, Some p) = Inr (putVariable p (StirApiError STIR_SVC_MISSING_INFORMATION))"
| "caught (Type_error w, Some p) = Inr (invalid_value p w)"
| "caught (Conversion_error w, Some p) = Inr (invalid_value p w)"
| "caught (Out_of_range, None) = Inl Aborted"
| "caught (Type_error w, None) = Inl Aborted"
| "caught (Conversion_error w, None) = Inl Aborted"
| "caught (e, p) = Inl e"

definition read_message :: "('d, 'z) stir_lib_scheme \<Rightarrow> ('d \<Rightarrow> (exn \<times> char list option) + 'd) \<Rightarrow> ('d \<Rightarrow> (exn \<times> char list option) + 'm) \<Rightarrow> 'd
    \<Rightarrow> (exn \<times> char list option) + 'm" where
  "read_message L unwrap visit d =
     (if js_isString (sl_json L) d
      then bind_sum (map_sum (\<lambda>e. (e, None)) id (js_parse (sl_json L) (js_stringPiece (sl_json L) d))) (\<lambda>json. bind_sum (unwrap json) visit)
      else visit d)"

definition fromJson :: "('d, 'z) stir_lib_scheme \<Rightarrow> ('d \<Rightarrow> (exn \<times> char list option) + 'd) \<Rightarrow> ('d \<Rightarrow> (exn \<times> char list option) + 'm) \<Rightarrow> ('m \<Rightarrow> stir_error) \<Rightarrow> 'd
    \<Rightarrow> exn + (stir_error + 'm)" where
  "fromJson L unwrap visit validate d =
     (case read_message L unwrap visit d of
        Inr msg \<Rightarrow> (let err = validate msg in if is_error err then Inr (Inl err) else Inr (Inr msg))
      | Inl x \<Rightarrow> map_sum id Inl (caught x))"

definition signing_fromJson :: "('d, 'z) stir_lib_scheme \<Rightarrow> 'd \<Rightarrow> exn + (stir_error + signing_request)" where
  "signing_fromJson L = fromJson L (unwrap_signing L) (visit_signing L) (validate_signing L)"

definition verification_fromJson :: "('d, 'z) stir_lib_scheme \<Rightarrow> 'd \<Rightarrow> exn + (stir_error + verification_request)" where
  "verification_fromJson L = fromJson L (unwrap_verification L) (visit_verification L) validate_verification"

section \<open>What a request is made of\<close>

definition tn_ok :: "char list \<Rightarrow> bool" where
  "tn_ok tn \<longleftrightarrow> (\<forall>c \<in> set tn. c \<in> set ''0123456789*#+.-()'' \<or> c = NUL)"

definition signing_ok :: "('d, 'z) stir_lib_scheme \<Rightarrow> signing_request \<Rightarrow> bool" where
  "signing_ok L m \<longleftrightarrow> sr_attest m \<in> {''A'', ''B'', ''C''} \<and> uuid_parse L (c_str (sr_origid m)) \<noteq> - 1 \<and> sr_dest m \<noteq> [] \<and> tn_ok (sr_orig m) \<and>
     (\<forall>tn \<in> set (sr_dest m). tn_ok tn)"

definition verification_ok :: "verification_request \<Rightarrow> bool" where
  "verification_ok m \<longleftrightarrow> vr_to m \<noteq> [] \<and> tn_ok (vr_from m) \<and> (\<forall>tn \<in> set (vr_to m). tn_ok tn)"

text \<open>An error that is the client's: a body that is no JSON, a parameter of \<open>ps\<close> that is missing, or one with a bad value.\<close>

definition blames :: "char list list \<Rightarrow> stir_error \<Rightarrow> bool" where
  "blames ps err \<longleftrightarrow>
     err = \<lparr>er_kind = Some 6, er_vars = ''invalid JSON body''\<rparr> \<or>
     (\<exists>p \<in> set ps. err = \<lparr>er_kind = Some 1, er_vars = p\<rparr> \<or> (\<exists>why. err = \<lparr>er_kind = Some 5, er_vars = p @ TAB # why\<rparr>))"

lemma validateTN_iff: "validateTN tn = tn_ok tn"
  by (auto simp: validateTN_def tn_ok_def tn_char_def list_all_iff)

lemma is_error_simps [simp]: "\<not> is_error no_error" "is_error (StirApiError c)" "is_error (putVariable v e) = is_error e" "is_error (invalid_value p w)"
  by (simp_all add: is_error_def no_error_def StirApiError_def putVariable_def invalid_value_def)

lemma invalid_value_eq: "p \<noteq> [] \<Longrightarrow> invalid_value p w = \<lparr>er_kind = Some 5, er_vars = p @ TAB # w\<rparr>"
  by (simp add: invalid_value_def putVariable_def StirApiError_def)

lemma blames_invalid: "p \<in> set ps \<Longrightarrow> p \<noteq> [] \<Longrightarrow> blames ps (invalid_value p w)"
  by (auto simp: blames_def invalid_value_eq)

lemma blames_status: "blames ps err \<Longrightarrow> http_status err = Some 400"
  by (auto simp: blames_def http_status_def error_class_of_def shakenApiError_def)

lemma validate_signing_ok: "\<not> is_error (validate_signing L m) \<longleftrightarrow> signing_ok L m"
  by (auto simp: validate_signing_def signing_ok_def validateTN_iff list_all_iff)

lemma validate_signing_blames: "is_error (validate_signing L m) \<Longrightarrow> blames [''signingRequest'', ''attest'', ''dest'', ''orig'', ''origid'', ''iat''] (validate_signing L m)"
  unfolding validate_signing_def by (auto intro!: blames_invalid split: if_splits)

lemma validate_verification_ok: "\<not> is_error (validate_verification m) \<longleftrightarrow> verification_ok m"
  by (auto simp: validate_verification_def verification_ok_def validateTN_iff list_all_iff)

lemma validate_verification_blames: "is_error (validate_verification m) \<Longrightarrow> blames [''verificationRequest'', ''identity'', ''time'', ''from'', ''to''] (validate_verification m)"
  unfolding validate_verification_def by (auto intro!: blames_invalid split: if_splits)

lemma with_param_Inl: "with_param p x = Inl y \<Longrightarrow> snd y = Some p"
  by (auto simp: with_param_def map_sum_eq_Inl)

lemma caught_cases:
  assumes "case snd x of None \<Rightarrow> True | Some p \<Rightarrow> p \<in> set ps" and "[] \<notin> set ps"
  shows "case caught x of Inl e \<Rightarrow> e \<in> {Invalid_argument, Other_exception, Aborted} | Inr err \<Rightarrow> blames ps err"
  using assms by (cases x rule: caught.cases) (auto simp: blames_def putVariable_def StirApiError_def invalid_value_def)

lemma fromJson_cases:
  assumes "\<And>d y. unwrap d = Inl y \<Longrightarrow> snd y \<in> Some ` set ps" and "\<And>d y. visit d = Inl y \<Longrightarrow> snd y \<in> Some ` set ps" and "[] \<notin> set ps"
    and "\<And>m. is_error (validate m) \<Longrightarrow> blames ps (validate m)" and "\<And>m. \<not> is_error (validate m) \<Longrightarrow> ok m"
  shows "case fromJson L unwrap visit validate d of Inl e \<Rightarrow> e \<in> {Invalid_argument, Other_exception, Aborted} | Inr (Inl err) \<Rightarrow> blames ps err | Inr (Inr m) \<Rightarrow> ok m"
proof (cases "read_message L unwrap visit d")
  case (Inr m)
  then show ?thesis using assms(4,5) [of m] by (simp add: fromJson_def Let_def)
next
  case (Inl x)
  then have "case snd x of None \<Rightarrow> True | Some p \<Rightarrow> p \<in> set ps"
  proof -
    from Inl have "snd x = None \<or> (\<exists>d. unwrap d = Inl x) \<or> (\<exists>d. visit d = Inl x)"
      by (auto simp: read_message_def bind_sum_eq_Inl map_sum_eq_Inl split: if_splits)
    then show ?thesis using assms(1,2) by fastforce
  qed
  from caught_cases [OF this assms(3)] show ?thesis using Inl by (cases "caught x") (simp_all add: fromJson_def)
qed

lemma signing_cases:
  "case signing_fromJson L d of Inl e \<Rightarrow> e \<in> {Invalid_argument, Other_exception, Aborted}
   | Inr (Inl err) \<Rightarrow> blames [''signingRequest'', ''attest'', ''dest'', ''orig'', ''origid'', ''iat''] err | Inr (Inr m) \<Rightarrow> signing_ok L m"
  unfolding signing_fromJson_def
  by (rule fromJson_cases) (auto simp: unwrap_signing_def visit_signing_def Let_def bind_sum_eq_Inl validate_signing_ok dest: with_param_Inl validate_signing_blames)

lemma verification_cases:
  "case verification_fromJson L d of Inl e \<Rightarrow> e \<in> {Invalid_argument, Other_exception, Aborted}
   | Inr (Inl err) \<Rightarrow> blames [''verificationRequest'', ''identity'', ''time'', ''from'', ''to''] err | Inr (Inr m) \<Rightarrow> verification_ok m"
  unfolding verification_fromJson_def
  by (rule fromJson_cases)
    (auto simp: unwrap_verification_def visit_verification_def Let_def bind_sum_eq_Inl validate_verification_ok dest: with_param_Inl validate_verification_blames)

text \<open>
  C10: A request that is read from JSON is well-formed: the attestation of a signing request is A, B or C, its origid is accepted as a UUID up to its first zero byte, there is
  at least one destination, and all telephone numbers of both messages are made of the accepted characters and zero bytes. Otherwise the result is an error
  with status 400, for a body that is no JSON or with the name of a parameter of the message that is missing or bad, or the exception is one that no
  handler names.
\<close>

theorem requests_well_formed:
  "(case signing_fromJson L d of
      Inl e \<Rightarrow> e \<in> {Invalid_argument, Other_exception, Aborted}
    | Inr (Inl err) \<Rightarrow> http_status err = Some 400 \<and> blames [''signingRequest'', ''attest'', ''dest'', ''orig'', ''origid'', ''iat''] err
    | Inr (Inr m) \<Rightarrow> signing_ok L m) \<and>
   (case verification_fromJson L d of
      Inl e \<Rightarrow> e \<in> {Invalid_argument, Other_exception, Aborted}
    | Inr (Inl err) \<Rightarrow> http_status err = Some 400 \<and> blames [''verificationRequest'', ''identity'', ''time'', ''from'', ''to''] err
    | Inr (Inr m) \<Rightarrow> verification_ok m)"
proof
  show "case signing_fromJson L d of
      Inl e \<Rightarrow> e \<in> {Invalid_argument, Other_exception, Aborted}
    | Inr (Inl err) \<Rightarrow> http_status err = Some 400 \<and> blames [''signingRequest'', ''attest'', ''dest'', ''orig'', ''origid'', ''iat''] err
    | Inr (Inr m) \<Rightarrow> signing_ok L m"
    using signing_cases [of L d] by (auto split: sum.splits dest: blames_status)
  show "case verification_fromJson L d of
      Inl e \<Rightarrow> e \<in> {Invalid_argument, Other_exception, Aborted}
    | Inr (Inl err) \<Rightarrow> http_status err = Some 400 \<and> blames [''verificationRequest'', ''identity'', ''time'', ''from'', ''to''] err
    | Inr (Inr m) \<Rightarrow> verification_ok m"
    using verification_cases [of L d] by (auto split: sum.splits dest: blames_status)
qed

end
