(* ===== verification/Passport.thy ===== *)
theory Passport
  imports Stir_Types "HOL-Library.List_Lexorder" "HOL-Library.Char_ord"
begin

text \<open>
  The PASSporT tokens of \<^verbatim>\<open>stir/Passport.cpp\<close>: \<^verbatim>\<open>makePassport\<close> signs a request, \<^verbatim>\<open>verifyPassport\<close> checks the identity header of a call. Base64, the hash, the signature
  scheme, the numbers of OpenSSL, the URI parser and the functions of \<^verbatim>\<open>StringPiece\<close> are the record \<open>passport_lib\<close>; the two key files are read to \<open>priv_key\<close>
  and \<open>pub_key\<close>, \<open>None\<close> where the assertions after the read fail.
\<close>

section \<open>The library\<close>

record ('d, 'k, 'p) passport_lib = "'d stir_lib" +
  ltrimWhitespace :: "char list \<Rightarrow> char list"
  split_step :: "char \<Rightarrow> char list \<Rightarrow> char list \<times> char list"
  skip_char :: "char \<Rightarrow> char list \<Rightarrow> bool \<times> char list"
  uri_parse :: "char list \<Rightarrow> exn + unit"
  urlEncode :: "char list \<Rightarrow> char list"
  urlDecode :: "char list \<Rightarrow> exn + char list"
  sha256 :: "char list \<Rightarrow> char list"
  priv_key :: "'k option"
  pub_key :: "'p option"
  do_sign :: "'k \<Rightarrow> char list \<Rightarrow> (nat \<times> nat) option"
  do_verify :: "'p \<Rightarrow> char list \<Rightarrow> nat \<times> nat \<Rightarrow> int"
  num_bytes :: "nat \<Rightarrow> nat"
  bn2binpad :: "nat \<Rightarrow> char list"
  bin2bn :: "char list \<Rightarrow> nat"
  valid_iat_period :: "32 word"

section \<open>Signing\<close>

definition x5u :: "char list" where
  "x5u = ''http://asipto.lab/stir/cert.pem''"

definition passport_header :: "char list" where
  "passport_header = lit ''{`alg`:`ES256`,`ppt`:`shaken`,`typ`:`passport`,`x5u`:`'' @ x5u @ lit ''`}''"

fun join_text :: "char list \<Rightarrow> char list list \<Rightarrow> char list" where
  "join_text sep [] = []"
| "join_text sep [x] = x"
| "join_text sep (x # y # xs) = x @ sep @ join_text sep (y # xs)"

definition passport_payload :: "signing_request \<Rightarrow> char list" where
  "passport_payload req =
     (let dest = sort (sr_dest req)
      in lit ''{`attest`:`'' @ sr_attest req @ lit ''`,`dest`:{`tn`:[`'' @ join_text (lit ''`,`'') dest @ lit ''`]},`iat`:'' @ dec_text (unat (sr_iat req)) @
           lit '',`orig`:{`tn`:`'' @ sr_orig req @ lit ''`},`origid`:`'' @ sr_origid req @ lit ''`}'')"

definition makePassport :: "('d, 'k, 'p, 'z) passport_lib_scheme \<Rightarrow> signing_request \<Rightarrow> exn + char list" where
  "makePassport L req =
     (case priv_key L of None \<Rightarrow> Inl Aborted
      | Some ec \<Rightarrow>
          (let signingString = urlEncode L passport_header @ ''.'' @ urlEncode L (passport_payload req)
           in case do_sign L ec (sha256 L signingString) of None \<Rightarrow> Inl Aborted
              | Some (r, s) \<Rightarrow>
                  (if num_bytes L r \<le> 32 \<and> num_bytes L s \<le> 32
                   then Inr (signingString @ ''.'' @ urlEncode L (bn2binpad L r @ bn2binpad L s) @ '';info=<'' @ x5u @ ''>'')
                   else Inl Aborted)))"

section \<open>Rejections\<close>

definition NO_TN_VALIDATION :: "char list" where "NO_TN_VALIDATION = ''No-TN-Validation''"

definition TN_VALIDATION_FAILED :: "char list" where "TN_VALIDATION_FAILED = ''TN-Validation-Failed''"

definition TN_VALIDATION_PASSED :: "char list" where "TN_VALIDATION_PASSED = ''TN-Validation-Passed''"

definition response :: "int \<Rightarrow> char list \<Rightarrow> char list \<Rightarrow> char list \<Rightarrow> verification_response" where
  "response code ver text desc = \<lparr>vs_reasonCode = code, vs_verStat = ver, vs_reasonText = text, vs_reasonDesc = desc\<rparr>"

definition VF_STALE_DATE :: "char list \<Rightarrow> verification_response" where
  "VF_STALE_DATE desc = response 403 NO_TN_VALIDATION ''Stale Date'' desc"

definition VF_INVALID_IDENTITY :: "char list \<Rightarrow> verification_response" where
  "VF_INVALID_IDENTITY desc = response 438 NO_TN_VALIDATION ''Invalid Identity Header'' desc"

definition VF_BAD_IDENTITY_INFO :: "char list \<Rightarrow> verification_response" where
  "VF_BAD_IDENTITY_INFO desc = response 436 NO_TN_VALIDATION ''Bad identity Info'' desc"

definition VF_UNSUPPORTED_CREDENTIAL :: "bool \<Rightarrow> char list \<Rightarrow> verification_response" where
  "VF_UNSUPPORTED_CREDENTIAL fail desc = response 437 (if fail then TN_VALIDATION_FAILED else NO_TN_VALIDATION) ''Unsupported credential'' desc"

section \<open>Verification\<close>

text \<open>
  A part of \<^verbatim>\<open>verifyPassport\<close> gives a value or, on the left, ends the function, with an exception or with the response that it returns. In the texts an apostrophe is
  written as a backquote.
\<close>

definition give_up :: "verification_response \<Rightarrow> (exn + verification_response) + 'a" where
  "give_up r = Inl (Inr r)"

definition throws :: "exn + 'a \<Rightarrow> (exn + verification_response) + 'a" where
  "throws x = map_sum Inl id x"

definition catching :: "exn \<Rightarrow> verification_response \<Rightarrow> exn + 'a \<Rightarrow> (exn + verification_response) + 'a" where
  "catching ex r x = (case x of Inl e \<Rightarrow> if e = ex then give_up r else Inl (Inl e) | Inr a \<Rightarrow> Inr a)"

definition apos :: "char list \<Rightarrow> char list" where
  "apos s = map (\<lambda>c. if c = CHR ''`'' then CHR 0x27 else c) s"

definition drift :: "64 word \<Rightarrow> 64 word \<Rightarrow> 64 word" where
  "drift a b = (if a > b then a - b else b - a)"

text \<open>The \<^verbatim>\<open>info\<close> parameter, which is empty where it is missing, and the rest of the identity.\<close>

definition identity_info :: "('d, 'k, 'p, 'z) passport_lib_scheme \<Rightarrow> char list \<Rightarrow> char list \<times> char list" where
  "identity_info L identity =
     (case split_step L (CHR ''='') (ltrimWhitespace L identity) of (name, id1) \<Rightarrow>
        if name = ''info'' then
          (case skip_char L (CHR ''<'') (ltrimWhitespace L id1) of (found, id2) \<Rightarrow>
             if found then (case split_step L (CHR ''>'') id2 of (uri, id3) \<Rightarrow> (trimWhitespace (sl_folly L) uri, id3)) else ([], id2))
        else ([], id1))"

definition parse_identity :: "('d, 'k, 'p, 'z) passport_lib_scheme \<Rightarrow> char list
    \<Rightarrow> (exn + verification_response) + (char list \<times> char list \<times> char list \<times> char list \<times> char list)" where
  "parse_identity L identity0 =
     (case split_step L (CHR '';'') identity0 of (digest0, identity) \<Rightarrow>
      case split_step L (CHR ''.'') (trimWhitespace (sl_folly L) digest0) of (headerDigest, digest1) \<Rightarrow>
      case split_step L (CHR ''.'') digest1 of (payloadDigest, signatureDigest) \<Rightarrow>
        if headerDigest = [] \<and> payloadDigest = [] then give_up (VF_INVALID_IDENTITY ''Identity header in compact form instead of required by SHAKEN spec full form.'')
        else
          (case identity_info L identity of (identityInfo, rest) \<Rightarrow>
             if identityInfo = [] then give_up (VF_BAD_IDENTITY_INFO (apos ''Missing `info` parameter in the `identity`.''))
             else bind_sum (catching Invalid_argument (VF_BAD_IDENTITY_INFO (apos ''Invalid `info` URI.'')) (uri_parse L identityInfo)) (\<lambda>u.
               Inr (headerDigest, payloadDigest, signatureDigest, identityInfo, rest))))"

text \<open>The loop over the other parameters: whether it ends at a \<^verbatim>\<open>ppt\<close> that is not \<^verbatim>\<open>shaken\<close>.\<close>

partial_function (option) bad_ppt :: "('d, 'k, 'p, 'z) passport_lib_scheme \<Rightarrow> char list \<Rightarrow> bool option" where
  "bad_ppt L identity =
     (if identity = [] then Some False
      else
        (case split_step L (CHR ''='') identity of (param, id1) \<Rightarrow>
         case split_step L (CHR '';'') id1 of (value, id2) \<Rightarrow>
           if trimWhitespace (sl_folly L) param = ''ppt'' \<and> trimWhitespace (sl_folly L) value \<noteq> ''shaken'' then Some True
           else bad_ppt L id2))"

definition decode_part :: "('d, 'k, 'p, 'z) passport_lib_scheme \<Rightarrow> char list \<Rightarrow> char list \<Rightarrow> (exn + verification_response) + (char list \<times> 'd)" where
  "decode_part L desc digest =
     catching Parse_error (VF_BAD_IDENTITY_INFO desc) (bind_sum (urlDecode L digest) (\<lambda>text. map_sum id (Pair text) (js_parse (sl_json L) text)))"

definition check_header :: "('d, 'k, 'p, 'z) passport_lib_scheme \<Rightarrow> 'd \<Rightarrow> char list \<Rightarrow> (exn + verification_response) + unit" where
  "check_header L header identityInfo =
     (let J = sl_json L; missing = (\<lambda>k. js_get_ptr J header k = None) in
      if \<not> js_isObject J header then give_up (VF_BAD_IDENTITY_INFO ''PASSporT header is not a JSON object.'')
      else if missing ''ppt'' then give_up (VF_BAD_IDENTITY_INFO (apos ''Missing `ppt` claim in the PASSporT header.''))
      else if missing ''typ'' then give_up (VF_BAD_IDENTITY_INFO (apos ''Missing `typ` claim in the PASSporT header.''))
      else if missing ''alg'' then give_up (VF_BAD_IDENTITY_INFO (apos ''Missing `alg` claim in the PASSporT header.''))
      else if missing ''x5u'' then give_up (VF_BAD_IDENTITY_INFO (apos ''Missing `x5u` claim in the PASSporT header.''))
      else
        bind_sum (throws (js_index J header ''typ'')) (\<lambda>typ.
        if \<not> js_eq J typ (js_string J ''passport'') then give_up (VF_UNSUPPORTED_CREDENTIAL False (apos ''`typ` from PASSporT header is not `passport`.''))
        else bind_sum (throws (js_index J header ''alg'')) (\<lambda>alg.
        if \<not> js_eq J alg (js_string J ''ES256'') then give_up (VF_UNSUPPORTED_CREDENTIAL False (apos ''`alg` from PASSporT header is not `ES256`.''))
        else bind_sum (throws (js_index J header ''x5u'')) (\<lambda>x.
        if \<not> js_eq J x (js_string J identityInfo) then
          give_up (VF_BAD_IDENTITY_INFO (apos ''`x5u` from PASSporT header doesn'' @ rquo @ apos ''t match the `info` parameter of identity header value.''))
        else bind_sum (throws (js_index J header ''ppt'')) (\<lambda>ppt.
        if \<not> js_eq J ppt (js_string J ''shaken'') then give_up (VF_INVALID_IDENTITY (apos ''`ppt` from PASSporT header is not `shaken`''))
        else Inr ())))))"

text \<open>The first half of the claims of the payload: all are there and \<^verbatim>\<open>iat\<close> and \<^verbatim>\<open>attest\<close> are good.\<close>

definition check_claims :: "('d, 'k, 'p, 'z) passport_lib_scheme \<Rightarrow> 'd \<Rightarrow> verification_request \<Rightarrow> (exn + verification_response) + unit" where
  "check_claims L payload req =
     (let J = sl_json L; missing = (\<lambda>k. js_get_ptr J payload k = None) in
      if \<not> js_isObject J payload then give_up (VF_BAD_IDENTITY_INFO ''PASSporT payload is not a JSON object.'')
      else if missing ''dest'' then give_up (VF_INVALID_IDENTITY (apos ''Missing `dest` mandatory claim in PASSporT payload''))
      else if missing ''orig'' then give_up (VF_INVALID_IDENTITY (apos ''Missing `orig` mandatory claim in PASSporT payload''))
      else if missing ''attest'' then give_up (VF_INVALID_IDENTITY (apos ''Missing `attest` mandatory claim in PASSporT payload''))
      else if missing ''origid'' then give_up (VF_INVALID_IDENTITY (apos ''Missing `origid` mandatory claim in PASSporT payload''))
      else if missing ''iat'' then give_up (VF_INVALID_IDENTITY (apos ''Missing `iat` mandatory claim in PASSporT payload''))
      else
        bind_sum (throws (js_index J payload ''iat'')) (\<lambda>iat.
        if \<not> js_isInt J iat \<or> js_negative J iat then give_up (VF_INVALID_IDENTITY (apos ''Bad `iat` claim value in PASSporT payload''))
        else if drift (js_asInt J iat) (vr_time req) > ucast (valid_iat_period L) then give_up (VF_STALE_DATE (apos ''`iat` from PASSporT payload is not fresh.''))
        else bind_sum (throws (js_index J payload ''attest'')) (\<lambda>attest.
        if \<not> js_eq J attest (js_string J ''A'') \<and> \<not> js_eq J attest (js_string J ''B'') \<and> \<not> js_eq J attest (js_string J ''C'') then
          give_up (VF_INVALID_IDENTITY (apos ''`attest` claim in PASSporT payload is not valid.''))
        else Inr ())))"

text \<open>The second half: the numbers of the payload are those of the request.\<close>

definition check_numbers :: "('d, 'k, 'p, 'z) passport_lib_scheme \<Rightarrow> 'd \<Rightarrow> verification_request \<Rightarrow> (exn + verification_response) + unit" where
  "check_numbers L payload req =
     (let J = sl_json L in
      bind_sum (throws (bind_sum (js_index J payload ''orig'') (\<lambda>x. js_index J x ''tn''))) (\<lambda>orig.
      if \<not> js_eq J orig (js_string J (vr_from req)) then
        give_up (VF_INVALID_IDENTITY (apos ''`orig` claim from PASSporT payload doesn'' @ rquo @ ''t match the received in the verification request claim.''))
      else bind_sum (throws (bind_sum (js_index J payload ''dest'') (\<lambda>x. js_index J x ''tn''))) (\<lambda>dest.
      if \<not> js_eq J dest (js_range J (vr_to req)) then
        give_up (VF_INVALID_IDENTITY (apos ''`dest` claim from PASSporT payload doesn'' @ rquo @ ''t match the received in the verification request claim.''))
      else Inr ())))"

text \<open>The public key and the signature. The check of the certificate authority is under the condition 0.\<close>

definition check_signature :: "('d, 'k, 'p, 'z) passport_lib_scheme \<Rightarrow> char list \<Rightarrow> char list \<Rightarrow> char list \<Rightarrow> exn + verification_response" where
  "check_signature L headerText payloadText signatureDigest =
     (case pub_key L of None \<Rightarrow> Inl Aborted
      | Some ec \<Rightarrow>
          bind_sum (urlDecode L signatureDigest) (\<lambda>sigbuf.
          let sig = (if length sigbuf = 64 then (bin2bn L (take 32 sigbuf), bin2bn L (drop 32 sigbuf)) else (0, 0));
              signingString = urlEncode L headerText @ ''.'' @ urlEncode L payloadText
          in if do_verify L ec (sha256 L signingString) sig \<noteq> 1
             then Inr (response 438 TN_VALIDATION_FAILED ''Invalid Identity Header'' ''Signature validation failed.'')
             else Inr (response 0 TN_VALIDATION_PASSED [] [])))"

definition check_token :: "('d, 'k, 'p, 'z) passport_lib_scheme \<Rightarrow> verification_request \<Rightarrow> char list \<times> char list \<times> char list \<times> char list
    \<Rightarrow> (exn + verification_response) + verification_response" where
  "check_token L req = (\<lambda>(headerDigest, payloadDigest, signatureDigest, identityInfo).
     bind_sum (decode_part L ''Unable to decode PASSporT header.'' headerDigest) (\<lambda>(headerText, header).
     bind_sum (check_header L header identityInfo) (\<lambda>u.
     bind_sum (decode_part L ''Unable to decode PASSporT payload.'' payloadDigest) (\<lambda>(payloadText, payload).
     bind_sum (check_claims L payload req) (\<lambda>u.
     bind_sum (check_numbers L payload req) (\<lambda>u.
     throws (check_signature L headerText payloadText signatureDigest)))))))"

text \<open>\<open>None\<close> is a call that does not return; \<open>now\<close> is the time in seconds.\<close>

definition verifyPassport :: "('d, 'k, 'p, 'z) passport_lib_scheme \<Rightarrow> 64 word \<Rightarrow> verification_request \<Rightarrow> (exn + verification_response) option" where
  "verifyPassport L now req =
     (if drift (vr_time req) now > ucast (valid_iat_period L) then Some (Inr (VF_STALE_DATE (apos ''Received `time` value is not fresh.'')))
      else
        (case parse_identity L (vr_identity req) of Inl x \<Rightarrow> Some x
         | Inr (headerDigest, payloadDigest, signatureDigest, identityInfo, rest) \<Rightarrow>
             (case bad_ppt L rest of None \<Rightarrow> None
              | Some True \<Rightarrow> Some (Inr (VF_INVALID_IDENTITY (apos ''Identity header is received with `ppt` parameter value that is not `shaken`.'')))
              | Some False \<Rightarrow> Some (case check_token L req (headerDigest, payloadDigest, signatureDigest, identityInfo) of Inl x \<Rightarrow> x | Inr r \<Rightarrow> Inr r))))"

lemmas [code] = bad_ppt.simps

section \<open>The library functions\<close>

definition before :: "char \<Rightarrow> char list \<Rightarrow> char list" where
  "before c s = takeWhile (\<lambda>x. x \<noteq> c) s"

definition after :: "char \<Rightarrow> char list \<Rightarrow> char list" where
  "after c s = drop 1 (dropWhile (\<lambda>x. x \<noteq> c) s)"

definition trimmed :: "char list \<Rightarrow> char list" where
  "trimmed s = dropWhile is_blank (rtrim_text s)"

definition piece_laws :: "('d, 'k, 'p, 'z) passport_lib_scheme \<Rightarrow> bool" where
  "piece_laws L \<longleftrightarrow> folly_laws (sl_folly L) \<and> (\<forall>c s. split_step L c s = (before c s, after c s)) \<and> (\<forall>s. ltrimWhitespace L s = dropWhile is_blank s) \<and>
     (\<forall>c s. skip_char L c s = (if take 1 s = [c] then (True, drop 1 s) else (False, s)))"

text \<open>The subscript of an object gives its member, or a null value that equals no string and no array; on other values it throws.\<close>

definition json_laws :: "'d json_lib \<Rightarrow> bool" where
  "json_laws J \<longleftrightarrow>
     (\<forall>d k x. js_isObject J d \<and> js_get_ptr J d k = Some x \<longrightarrow> js_index J d k = Inr x) \<and>
     (\<forall>d k. js_isObject J d \<and> js_get_ptr J d k = None \<longrightarrow>
        (\<exists>x. js_index J d k = Inr x \<and> (\<forall>s. \<not> js_eq J x (js_string J s)) \<and> (\<forall>xs. \<not> js_eq J x (js_range J xs)))) \<and>
     (\<forall>d k. \<not> js_isObject J d \<longrightarrow> (\<exists>w. js_index J d k = Inl (Type_error w)))"

lemma piece_lawsD:
  assumes "piece_laws L"
  shows "split_step L c s = (before c s, after c s)" "ltrimWhitespace L s = dropWhile is_blank s" "trimWhitespace (sl_folly L) s = trimmed s"
    "skip_char L c s = (if take 1 s = [c] then (True, drop 1 s) else (False, s))"
  using assms by (simp_all add: piece_laws_def folly_laws_def trimmed_def)

lemma length_after: "s \<noteq> [] \<Longrightarrow> length (after c s) < length s"
  unfolding after_def using length_dropWhile_le [of "\<lambda>x. x \<noteq> c" s] by (cases s) (auto simp: less_Suc_eq_le)

lemma length_after_le: "length (after c s) \<le> length s"
  using length_dropWhile_le [of "\<lambda>x. x \<noteq> c" s] by (simp add: after_def)

lemma before_append [simp]: "c \<notin> set a \<Longrightarrow> before c (a @ c # b) = a" "c \<notin> set a \<Longrightarrow> before c a = a"
  by (induct a) (auto simp: before_def)

lemma after_append [simp]: "c \<notin> set a \<Longrightarrow> after c (a @ c # b) = b"
  by (induct a) (auto simp: after_def)

section \<open>The loop over the parameters\<close>

lemma bad_ppt_total:
  assumes "piece_laws L"
  shows "bad_ppt L s \<noteq> None"
proof (induct s rule: length_induct)
  case (1 s)
  show ?case
  proof (cases "s = []")
    case True
    then show ?thesis by (simp add: bad_ppt.simps)
  next
    case False
    then have "length (after (CHR '';'') (after (CHR ''='') s)) < length s"
      using length_after [OF False, of "CHR ''=''"] length_after_le [of "CHR '';''" "after (CHR ''='') s"] by simp
    with 1 False show ?thesis by (subst bad_ppt.simps) (auto simp: piece_lawsD [OF assms])
  qed
qed

section \<open>Rejected tokens\<close>

text \<open>A response other than that of an accepted token.\<close>

definition rejected :: "verification_response \<Rightarrow> bool" where
  "rejected v \<longleftrightarrow> vs_reasonCode v \<in> {403, 436, 437, 438} \<and> vs_verStat v \<noteq> TN_VALIDATION_PASSED"

definition rejects :: "(exn + verification_response) + 'a \<Rightarrow> bool" where
  "rejects x \<longleftrightarrow> (\<forall>v. x = Inl (Inr v) \<longrightarrow> rejected v)"

lemma rejected_VF [simp]: "rejected (VF_STALE_DATE d)" "rejected (VF_INVALID_IDENTITY d)" "rejected (VF_BAD_IDENTITY_INFO d)" "rejected (VF_UNSUPPORTED_CREDENTIAL b d)"
  by (simp_all add: rejected_def response_def VF_STALE_DATE_def VF_INVALID_IDENTITY_def VF_BAD_IDENTITY_INFO_def VF_UNSUPPORTED_CREDENTIAL_def
      NO_TN_VALIDATION_def TN_VALIDATION_FAILED_def TN_VALIDATION_PASSED_def)

lemma rejects_give_up [simp]: "rejects (give_up v) = rejected v"
  by (simp add: rejects_def give_up_def)

lemma rejects_Inr [simp]: "rejects (Inr a)"
  by (simp add: rejects_def)

lemma rejects_throws [simp]: "rejects (throws x)"
  by (cases x) (simp_all add: rejects_def throws_def)

lemma rejects_catching [simp]: "rejected v \<Longrightarrow> rejects (catching ex v x)"
  by (cases x) (auto simp: rejects_def catching_def give_up_def)

lemma rejects_bind: "rejects x \<Longrightarrow> (\<And>a. x = Inr a \<Longrightarrow> rejects (f a)) \<Longrightarrow> rejects (bind_sum x f)"
  by (cases x) (auto simp: rejects_def)

lemma rejects_parts:
  "rejects (parse_identity L s)" "rejects (decode_part L desc d)" "rejects (check_header L h i)" "rejects (check_claims L p req)" "rejects (check_numbers L p req)"
proof -
  show "rejects (parse_identity L s)" by (auto simp: parse_identity_def split: prod.split intro!: rejects_bind)
  show "rejects (decode_part L desc d)" by (simp add: decode_part_def)
  show "rejects (check_header L h i)" by (simp add: check_header_def Let_def rejects_bind)
  show "rejects (check_claims L p req)" by (simp add: check_claims_def Let_def rejects_bind)
  show "rejects (check_numbers L p req)" by (simp add: check_numbers_def Let_def rejects_bind)
qed

lemma rejects_check_token: "rejects (check_token L req q)"
  by (auto simp: check_token_def rejects_parts split: prod.split intro!: rejects_bind)

section \<open>What an accepted token satisfies\<close>

text \<open>The member \<open>k\<close> of an object is the string \<open>s\<close>.\<close>

definition has_string :: "'d json_lib \<Rightarrow> 'd \<Rightarrow> char list \<Rightarrow> char list \<Rightarrow> bool" where
  "has_string J d k s \<longleftrightarrow> (case js_get_ptr J d k of None \<Rightarrow> False | Some x \<Rightarrow> js_eq J x (js_string J s))"

definition has_strings :: "'d json_lib \<Rightarrow> 'd \<Rightarrow> char list \<Rightarrow> char list list \<Rightarrow> bool" where
  "has_strings J d k xs \<longleftrightarrow> (case js_get_ptr J d k of None \<Rightarrow> False | Some x \<Rightarrow> js_eq J x (js_range J xs))"

definition in_member :: "'d json_lib \<Rightarrow> 'd \<Rightarrow> char list \<Rightarrow> ('d \<Rightarrow> bool) \<Rightarrow> bool" where
  "in_member J d k P \<longleftrightarrow> (case js_get_ptr J d k of None \<Rightarrow> False | Some x \<Rightarrow> js_isObject J x \<and> P x)"

definition header_ok :: "'d json_lib \<Rightarrow> 'd \<Rightarrow> char list \<Rightarrow> bool" where
  "header_ok J h info \<longleftrightarrow> js_isObject J h \<and> has_string J h ''typ'' ''passport'' \<and> has_string J h ''alg'' ''ES256'' \<and> has_string J h ''ppt'' ''shaken'' \<and>
     has_string J h ''x5u'' info"

definition claims_ok :: "'d json_lib \<Rightarrow> 'd \<Rightarrow> int \<Rightarrow> verification_request \<Rightarrow> bool" where
  "claims_ok J p period req \<longleftrightarrow> js_isObject J p \<and> js_get_ptr J p ''origid'' \<noteq> None \<and>
     (\<exists>a \<in> {''A'', ''B'', ''C''}. has_string J p ''attest'' a) \<and>
     (case js_get_ptr J p ''iat'' of None \<Rightarrow> False
      | Some i \<Rightarrow> js_isInt J i \<and> \<not> js_negative J i \<and> \<bar>uint (js_asInt J i) - uint (vr_time req)\<bar> \<le> period)"

definition numbers_ok :: "'d json_lib \<Rightarrow> 'd \<Rightarrow> verification_request \<Rightarrow> bool" where
  "numbers_ok J p req \<longleftrightarrow> in_member J p ''orig'' (\<lambda>x. has_string J x ''tn'' (vr_from req)) \<and> in_member J p ''dest'' (\<lambda>x. has_strings J x ''tn'' (vr_to req))"

lemma drift_le: "\<not> drift a b > ucast p \<longleftrightarrow> \<bar>uint a - uint b\<bar> \<le> uint p" for p :: "32 word"
proof -
  have d: "uint (drift a b) = \<bar>uint a - uint b\<bar>"
    by (auto simp: drift_def word_less_def uint_sub_if' not_less)
  have "uint p < 2 ^ 64" using uint_bounded [of p] by simp
  then have "uint (ucast p :: 64 word) = uint p" by (simp add: unsigned_ucast_eq take_bit_int_eq_self)
  with d show ?thesis by (simp add: word_less_def not_less)
qed

lemma index_string:
  assumes "json_laws J" and "js_isObject J d" and "js_get_ptr J d k = Some x"
  shows "js_index J d k = Inr x"
  using assms by (simp add: json_laws_def)

lemma throws_simps [simp]: "throws (Inr a) = Inr a" "throws (Inl e) = Inl (Inl e)"
  by (simp_all add: throws_def)

lemma give_up_not_Inr [simp]: "give_up v \<noteq> Inr a"
  by (simp add: give_up_def)

lemma if_give_up [simp]: "(if b then give_up v else x) = Inr a \<longleftrightarrow> \<not> b \<and> x = Inr a"
  by simp

lemma check_header_iff:
  assumes "json_laws (sl_json L)"
  shows "check_header L h info = Inr () \<longleftrightarrow> header_ok (sl_json L) h info"
proof (cases "js_isObject (sl_json L) h \<and> (\<exists>a b c d. js_get_ptr (sl_json L) h ''ppt'' = Some a \<and> js_get_ptr (sl_json L) h ''typ'' = Some b \<and>
    js_get_ptr (sl_json L) h ''alg'' = Some c \<and> js_get_ptr (sl_json L) h ''x5u'' = Some d)")
  case True
  then show ?thesis by (auto simp: check_header_def header_ok_def has_string_def Let_def index_string [OF assms])
next
  case False
  then show ?thesis by (auto simp: check_header_def header_ok_def has_string_def Let_def split: option.splits)
qed

lemma check_claims_iff:
  assumes "json_laws (sl_json L)"
  shows "check_claims L p req = Inr () \<longleftrightarrow> claims_ok (sl_json L) p (uint (valid_iat_period L)) req \<and> js_get_ptr (sl_json L) p ''dest'' \<noteq> None \<and> js_get_ptr (sl_json L) p ''orig'' \<noteq> None"
proof (cases "js_isObject (sl_json L) p \<and> (\<exists>a b c d e. js_get_ptr (sl_json L) p ''dest'' = Some a \<and> js_get_ptr (sl_json L) p ''orig'' = Some b \<and>
    js_get_ptr (sl_json L) p ''attest'' = Some c \<and> js_get_ptr (sl_json L) p ''origid'' = Some d \<and> js_get_ptr (sl_json L) p ''iat'' = Some e)")
  case True
  then show ?thesis by (auto simp: check_claims_def claims_ok_def has_string_def Let_def index_string [OF assms] drift_le [symmetric])
next
  case False
  then show ?thesis by (auto simp: check_claims_def claims_ok_def has_string_def Let_def split: option.splits)
qed

lemma nested_string:
  assumes "json_laws J" and "js_isObject J p" and "js_get_ptr J p k \<noteq> None"
  shows "(\<exists>t. bind_sum (js_index J p k) (\<lambda>x. js_index J x ''tn'') = Inr t \<and> js_eq J t (js_string J s)) \<longleftrightarrow> in_member J p k (\<lambda>x. has_string J x ''tn'' s)"
    and "(\<exists>t. bind_sum (js_index J p k) (\<lambda>x. js_index J x ''tn'') = Inr t \<and> js_eq J t (js_range J xs)) \<longleftrightarrow> in_member J p k (\<lambda>x. has_strings J x ''tn'' xs)"
proof -
  from assms(3) obtain x where x: "js_get_ptr J p k = Some x" by blast
  have i: "js_index J p k = Inr x" by (rule index_string [OF assms(1,2) x])
  consider "\<not> js_isObject J x" | "js_isObject J x" "js_get_ptr J x ''tn'' = None" | y where "js_isObject J x" "js_get_ptr J x ''tn'' = Some y" by blast
  then have "((\<exists>t. bind_sum (js_index J p k) (\<lambda>x. js_index J x ''tn'') = Inr t \<and> js_eq J t (js_string J s)) \<longleftrightarrow> in_member J p k (\<lambda>x. has_string J x ''tn'' s)) \<and>
    ((\<exists>t. bind_sum (js_index J p k) (\<lambda>x. js_index J x ''tn'') = Inr t \<and> js_eq J t (js_range J xs)) \<longleftrightarrow> in_member J p k (\<lambda>x. has_strings J x ''tn'' xs))"
  proof cases
    case 1
    then obtain w where "js_index J x ''tn'' = Inl (Type_error w)" using assms(1) unfolding json_laws_def by blast
    then show ?thesis using 1 by (simp add: i x in_member_def)
  next
    case 2
    then obtain y where "js_index J x ''tn'' = Inr y" "\<And>s. \<not> js_eq J y (js_string J s)" "\<And>xs. \<not> js_eq J y (js_range J xs)"
      using assms(1) unfolding json_laws_def by blast
    then show ?thesis using 2 by (simp add: i x in_member_def has_string_def has_strings_def)
  next
    case 3
    then show ?thesis using index_string [OF assms(1) 3] by (simp add: i x in_member_def has_string_def has_strings_def)
  qed
  then show "(\<exists>t. bind_sum (js_index J p k) (\<lambda>x. js_index J x ''tn'') = Inr t \<and> js_eq J t (js_string J s)) \<longleftrightarrow> in_member J p k (\<lambda>x. has_string J x ''tn'' s)"
    "(\<exists>t. bind_sum (js_index J p k) (\<lambda>x. js_index J x ''tn'') = Inr t \<and> js_eq J t (js_range J xs)) \<longleftrightarrow> in_member J p k (\<lambda>x. has_strings J x ''tn'' xs)"
    by blast+
qed

lemma throws_eq_Inr: "throws x = Inr a \<longleftrightarrow> x = Inr a"
  by (cases x) simp_all

lemma check_numbers_iff:
  assumes "json_laws (sl_json L)" and "js_isObject (sl_json L) p" and "js_get_ptr (sl_json L) p ''dest'' \<noteq> None" and "js_get_ptr (sl_json L) p ''orig'' \<noteq> None"
  shows "check_numbers L p req = Inr () \<longleftrightarrow> numbers_ok (sl_json L) p req"
  unfolding numbers_ok_def nested_string [OF assms(1,2,3), symmetric] nested_string [OF assms(1,2,4), symmetric]
  by (auto simp: check_numbers_def Let_def bind_sum_eq_Inr throws_eq_Inr)

text \<open>The \<^verbatim>\<open>info\<close> parameter comes first and holds a URI between angle brackets; \<open>rest\<close> is what follows them.\<close>

definition info_param :: "char list \<Rightarrow> char list \<Rightarrow> char list \<Rightarrow> bool" where
  "info_param params info rest \<longleftrightarrow>
     (\<exists>b b' r. list_all is_blank (b @ b') \<and> params = b @ ''info='' @ b' @ ''<'' @ r \<and> info = trimmed (before (CHR ''>'') r) \<and> rest = after (CHR ''>'') r)"

definition token_parts :: "char list \<Rightarrow> char list \<times> char list \<times> char list" where
  "token_parts identity =
     (let t = trimmed (before (CHR '';'') identity); u = after (CHR ''.'') t in (before (CHR ''.'') t, before (CHR ''.'') u, after (CHR ''.'') u))"

definition signature_of :: "('d, 'k, 'p, 'z) passport_lib_scheme \<Rightarrow> char list \<Rightarrow> nat \<times> nat" where
  "signature_of L sigbuf = (if length sigbuf = 64 then (bin2bn L (take 32 sigbuf), bin2bn L (drop 32 sigbuf)) else (0, 0))"

definition accepted_token :: "('d, 'k, 'p, 'z) passport_lib_scheme \<Rightarrow> verification_request \<Rightarrow> bool" where
  "accepted_token L req \<longleftrightarrow>
     (case token_parts (vr_identity req) of (hp, pp, sp) \<Rightarrow>
        \<exists>info rest headerText header payloadText payload sigbuf ec.
          info_param (after (CHR '';'') (vr_identity req)) info rest \<and> info \<noteq> [] \<and> uri_parse L info = Inr () \<and>
          urlDecode L hp = Inr headerText \<and> js_parse (sl_json L) headerText = Inr header \<and> header_ok (sl_json L) header info \<and>
          urlDecode L pp = Inr payloadText \<and> js_parse (sl_json L) payloadText = Inr payload \<and>
          claims_ok (sl_json L) payload (uint (valid_iat_period L)) req \<and> numbers_ok (sl_json L) payload req \<and>
          urlDecode L sp = Inr sigbuf \<and> pub_key L = Some ec \<and>
          do_verify L ec (sha256 L (urlEncode L headerText @ ''.'' @ urlEncode L payloadText)) (signature_of L sigbuf) = 1)"

lemma before_after: "c \<in> set s \<Longrightarrow> s = before c s @ c # after c s"
  by (induct s) (auto simp: before_def after_def)

lemma before_all: "c \<notin> set s \<Longrightarrow> after c s = []"
  by (induct s) (auto simp: after_def)

lemma blank_split: "s = takeWhile is_blank s @ dropWhile is_blank s" "list_all is_blank (takeWhile is_blank s)"
  by (simp_all add: list_all_iff) (meson set_takeWhileD)

lemma identity_info_ok:
  assumes "piece_laws L" and "identity_info L params = (info, rest)" and "info \<noteq> []"
  shows "info_param params info rest"
proof -
  let ?w = "dropWhile is_blank params" and ?id = "after (CHR ''='') (dropWhile is_blank params)"
  from assms(2,3) have n: "before (CHR ''='') ?w = ''info''" and f: "take 1 (dropWhile is_blank ?id) = ''<''"
    and i: "info = trimmed (before (CHR ''>'') (drop 1 (dropWhile is_blank ?id)))" "rest = after (CHR ''>'') (drop 1 (dropWhile is_blank ?id))"
    by (auto simp: identity_info_def piece_lawsD [OF assms(1)] split: if_splits)
  from f have "?id \<noteq> []" by auto
  then have "CHR ''='' \<in> set ?w" using before_all [of "CHR ''=''" ?w] by blast
  from before_after [OF this] n have w: "?w = ''info='' @ ?id" by simp
  from f obtain r where r: "dropWhile is_blank ?id = CHR ''<'' # r" by (cases "dropWhile is_blank ?id") auto
  have "params = takeWhile is_blank params @ ''info='' @ takeWhile is_blank ?id @ ''<'' @ r"
    using blank_split(1) [of params] blank_split(1) [of ?id] w r by (metis append.assoc append_Cons append_Nil)
  then show ?thesis unfolding info_param_def using i r blank_split(2) by (metis One_nat_def drop0 drop_Suc_Cons list_all_append)
qed

lemma parse_identity_ok:
  assumes "piece_laws L" and "parse_identity L identity = Inr (hp, pp, sp, info, rest)"
  shows "token_parts identity = (hp, pp, sp)" "info_param (after (CHR '';'') identity) info rest" "info \<noteq> []" "uri_parse L info = Inr ()"
  using assms(2) identity_info_ok [OF assms(1), of "after (CHR '';'') identity" info rest]
  by (auto simp: parse_identity_def piece_lawsD [OF assms(1)] token_parts_def Let_def bind_sum_eq_Inr catching_def split: prod.splits sum.splits if_splits)

lemma catching_eq_Inr: "catching e v x = Inr a \<longleftrightarrow> x = Inr a"
  by (cases x) (auto simp: catching_def)

lemma decode_part_eq: "decode_part L desc d = Inr (t, j) \<longleftrightarrow> urlDecode L d = Inr t \<and> js_parse (sl_json L) t = Inr j"
  by (auto simp: decode_part_def catching_eq_Inr bind_sum_eq_Inr map_sum_eq_Inr)

lemma check_signature_eq:
  "check_signature L ht pt sp = Inr v \<longleftrightarrow> (\<exists>ec sigbuf. pub_key L = Some ec \<and> urlDecode L sp = Inr sigbuf \<and>
     v = (if do_verify L ec (sha256 L (urlEncode L ht @ ''.'' @ urlEncode L pt)) (signature_of L sigbuf) = 1 then response 0 TN_VALIDATION_PASSED [] []
          else response 438 TN_VALIDATION_FAILED ''Invalid Identity Header'' ''Signature validation failed.''))"
proof (cases "pub_key L")
  case (Some ec)
  show ?thesis
  proof (cases "urlDecode L sp")
    case (Inr sigbuf)
    with Some show ?thesis
      by (cases "do_verify L ec (sha256 L (urlEncode L ht @ ''.'' @ urlEncode L pt)) (signature_of L sigbuf) = 1")
        (auto simp: check_signature_def Let_def signature_of_def [symmetric])
  qed (simp add: check_signature_def Some)
qed (simp add: check_signature_def)

lemma response_code [simp]: "vs_reasonCode (response c v t d) = c" "vs_verStat (response c v t d) = v"
  by (simp_all add: response_def)

lemma check_signature_accepted:
  assumes "check_signature L ht pt sp = Inr v" and "vs_reasonCode v = 0"
  shows "\<exists>ec sigbuf. pub_key L = Some ec \<and> urlDecode L sp = Inr sigbuf \<and>
      do_verify L ec (sha256 L (urlEncode L ht @ ''.'' @ urlEncode L pt)) (signature_of L sigbuf) = 1"
    and "v = response 0 TN_VALIDATION_PASSED [] []"
proof -
  from assms(1) obtain ec sigbuf where "pub_key L = Some ec" "urlDecode L sp = Inr sigbuf"
    and v: "v = (if do_verify L ec (sha256 L (urlEncode L ht @ ''.'' @ urlEncode L pt)) (signature_of L sigbuf) = 1 then response 0 TN_VALIDATION_PASSED [] []
          else response 438 TN_VALIDATION_FAILED ''Invalid Identity Header'' ''Signature validation failed.'')"
    unfolding check_signature_eq by blast
  moreover from v assms(2) have "do_verify L ec (sha256 L (urlEncode L ht @ ''.'' @ urlEncode L pt)) (signature_of L sigbuf) = 1"
    by (cases "do_verify L ec (sha256 L (urlEncode L ht @ ''.'' @ urlEncode L pt)) (signature_of L sigbuf) = 1") simp_all
  ultimately show "\<exists>ec sigbuf. pub_key L = Some ec \<and> urlDecode L sp = Inr sigbuf \<and>
      do_verify L ec (sha256 L (urlEncode L ht @ ''.'' @ urlEncode L pt)) (signature_of L sigbuf) = 1" "v = response 0 TN_VALIDATION_PASSED [] []"
    by simp_all
qed

lemma check_token_eq:
  assumes "json_laws (sl_json L)"
  shows "check_token L req (hp, pp, sp, info) = Inr v \<longleftrightarrow>
    (\<exists>ht h pt p. urlDecode L hp = Inr ht \<and> js_parse (sl_json L) ht = Inr h \<and> header_ok (sl_json L) h info \<and> urlDecode L pp = Inr pt \<and> js_parse (sl_json L) pt = Inr p \<and>
       claims_ok (sl_json L) p (uint (valid_iat_period L)) req \<and> numbers_ok (sl_json L) p req \<and> check_signature L ht pt sp = Inr v)"
proof -
  have c: "check_claims L p req = Inr () \<and> check_numbers L p req = Inr () \<longleftrightarrow> claims_ok (sl_json L) p (uint (valid_iat_period L)) req \<and> numbers_ok (sl_json L) p req" for p
    using check_claims_iff [OF assms, of p req] check_numbers_iff [OF assms, of p req] by (auto simp: claims_ok_def numbers_ok_def in_member_def split: option.splits)
  show ?thesis
    unfolding check_token_def using c by (simp add: bind_sum_eq_Inr decode_part_eq throws_eq_Inr check_header_iff [OF assms] split_paired_Ex) blast
qed

lemma verifyPassport_accepted:
  assumes "piece_laws L" and "json_laws (sl_json L)" and "verifyPassport L now req = Some (Inr v)" and "vs_reasonCode v = 0"
  shows "\<bar>uint (vr_time req) - uint now\<bar> \<le> uint (valid_iat_period L)" and "accepted_token L req" and "v = response 0 TN_VALIDATION_PASSED [] []"
proof -
  have no: "\<not> rejected v" using assms(4) by (auto simp: rejected_def)
  have stale: "\<not> drift (vr_time req) now > ucast (valid_iat_period L)"
    using assms(3) no by (auto simp: verifyPassport_def)
  then show "\<bar>uint (vr_time req) - uint now\<bar> \<le> uint (valid_iat_period L)" by (simp only: drift_le)
  have "parse_identity L (vr_identity req) \<noteq> Inl (Inr v)" using rejects_parts(1) no unfolding rejects_def by blast
  then obtain hp pp sp info rest where p: "parse_identity L (vr_identity req) = Inr (hp, pp, sp, info, rest)"
    using assms(3) stale by (cases "parse_identity L (vr_identity req)") (auto simp: verifyPassport_def)
  have "check_token L req (hp, pp, sp, info) \<noteq> Inl (Inr v)" using rejects_check_token no unfolding rejects_def by blast
  then have "check_token L req (hp, pp, sp, info) = Inr v"
    using assms(3) stale p no by (auto simp: verifyPassport_def split: option.splits bool.splits sum.splits)
  then obtain ht h pt q where t: "urlDecode L hp = Inr ht" "js_parse (sl_json L) ht = Inr h" "header_ok (sl_json L) h info" "urlDecode L pp = Inr pt"
      "js_parse (sl_json L) pt = Inr q" "claims_ok (sl_json L) q (uint (valid_iat_period L)) req" "numbers_ok (sl_json L) q req"
    and s: "check_signature L ht pt sp = Inr v"
    unfolding check_token_eq [OF assms(2)] by blast
  from check_signature_accepted [OF s assms(4)] t parse_identity_ok [OF assms(1) p]
  show "accepted_token L req" "v = response 0 TN_VALIDATION_PASSED [] []"
    unfolding accepted_token_def by (simp, blast, simp)
qed

lemma check_token_signature: "check_token L req (hp, pp, sp, info) = Inr v \<Longrightarrow> \<exists>ht pt. check_signature L ht pt sp = Inr v"
  by (auto simp: check_token_def bind_sum_eq_Inr throws_eq_Inr split: prod.splits)

lemma rejected_signature [simp]: "rejected (response 438 TN_VALIDATION_FAILED t d)"
  by (simp add: rejected_def TN_VALIDATION_FAILED_def TN_VALIDATION_PASSED_def)

lemma verifyPassport_total:
  assumes "piece_laws L"
  obtains r where "verifyPassport L now req = Some r" and "\<And>v. r = Inr v \<Longrightarrow> rejected v \<or> v = response 0 TN_VALIDATION_PASSED [] []"
proof (cases "drift (vr_time req) now > ucast (valid_iat_period L)")
  case True
  then show ?thesis by (intro that) (auto simp: verifyPassport_def)
next
  case False
  show ?thesis
  proof (cases "parse_identity L (vr_identity req)")
    case (Inl x)
    then show ?thesis using False rejects_parts(1) [of L "vr_identity req"] by (intro that) (auto simp: verifyPassport_def rejects_def)
  next
    case (Inr q)
    then obtain hp pp sp info rest where q: "parse_identity L (vr_identity req) = Inr (hp, pp, sp, info, rest)" by (cases q) auto
    obtain b where b: "bad_ppt L rest = Some b" using bad_ppt_total [OF assms] by blast
    show ?thesis
    proof (cases b)
      case True
      with False q b show ?thesis by (intro that) (auto simp: verifyPassport_def)
    next
      case bf: False
      show ?thesis
      proof (cases "check_token L req (hp, pp, sp, info)")
        case (Inl x)
        with False q b bf show ?thesis using rejects_check_token [of L req "(hp, pp, sp, info)"] by (intro that) (auto simp: verifyPassport_def rejects_def)
      next
        case (Inr v)
        from check_token_signature [OF this] have "rejected v \<or> v = response 0 TN_VALIDATION_PASSED [] []" by (auto simp: check_signature_eq)
        with Inr False q b bf show ?thesis by (intro that) (auto simp: verifyPassport_def)
      qed
    qed
  qed
qed

section \<open>The texts of a signed token\<close>

text \<open>
  The JSON texts that \<^verbatim>\<open>makePassport\<close> formats, as values: \<open>text_of\<close> is the compact text of a value and \<open>represents\<close> says that a dynamic value
  holds it, as the operations of the library observe it.
\<close>

datatype jtext = TStr "char list" | TNum nat | TArr "char list list" | TObj "(char list \<times> jtext) list"

definition quoted :: "char list \<Rightarrow> char list" where
  "quoted s = CHR 0x22 # s @ [CHR 0x22]"

fun text_of :: "jtext \<Rightarrow> char list" and fields_of :: "(char list \<times> jtext) list \<Rightarrow> char list list" where
  "text_of (TStr s) = quoted s"
| "text_of (TNum n) = dec_text n"
| "text_of (TArr xs) = ''['' @ join_text '','' (map quoted xs) @ '']''"
| "text_of (TObj fs) = ''{'' @ join_text '','' (fields_of fs) @ ''}''"
| "fields_of [] = []"
| "fields_of ((k, t) # fs) = (quoted k @ '':'' @ text_of t) # fields_of fs"

fun represents :: "'d json_lib \<Rightarrow> 'd \<Rightarrow> jtext \<Rightarrow> bool" and members :: "'d json_lib \<Rightarrow> 'd \<Rightarrow> (char list \<times> jtext) list \<Rightarrow> bool" where
  "represents J d (TStr s) = js_eq J d (js_string J s)"
| "represents J d (TNum n) = (js_isInt J d \<and> \<not> js_negative J d \<and> js_asInt J d = of_nat n)"
| "represents J d (TArr xs) = js_eq J d (js_range J xs)"
| "represents J d (TObj fs) = (js_isObject J d \<and> members J d fs)"
| "members J d [] = True"
| "members J d ((k, t) # fs) = ((case js_get_ptr J d k of None \<Rightarrow> False | Some x \<Rightarrow> represents J x t) \<and> members J d fs)"

definition reads_back :: "'d json_lib \<Rightarrow> jtext \<Rightarrow> bool" where
  "reads_back J t \<longleftrightarrow> (case js_parse J (text_of t) of Inl e \<Rightarrow> False | Inr d \<Rightarrow> represents J d t)"

definition header_value :: jtext where
  "header_value = TObj [(''alg'', TStr ''ES256''), (''ppt'', TStr ''shaken''), (''typ'', TStr ''passport''), (''x5u'', TStr x5u)]"

definition payload_value :: "signing_request \<Rightarrow> jtext" where
  "payload_value req = TObj [(''attest'', TStr (sr_attest req)), (''dest'', TObj [(''tn'', TArr (sort (sr_dest req)))]), (''iat'', TNum (unat (sr_iat req))),
     (''orig'', TObj [(''tn'', TStr (sr_orig req))]), (''origid'', TStr (sr_origid req))]"

lemma join_quoted: "xs \<noteq> [] \<Longrightarrow> join_text '','' (map quoted xs) = CHR 0x22 # join_text (lit ''`,`'') xs @ [CHR 0x22]"
  by (induct xs rule: induct_list012) (auto simp: quoted_def lit_def)

lemma header_text: "text_of header_value = passport_header"
  by (simp add: header_value_def passport_header_def quoted_def lit_def x5u_def)

lemma payload_text:
  assumes "sr_dest req \<noteq> []"
  shows "text_of (payload_value req) = passport_payload req"
proof -
  have "sort (sr_dest req) \<noteq> []" using assms by (metis length_0_conv length_sort)
  from join_quoted [OF this] show ?thesis by (simp add: payload_value_def passport_payload_def lit_def Let_def quoted_def)
qed

section \<open>A signed token is accepted\<close>

text \<open>Base64 round-trips and uses no delimiter, numbers of at most 32 bytes round-trip through their padded text, and signatures of the private key verify with the public key.\<close>

definition token_laws :: "('d, 'k, 'p, 'z) passport_lib_scheme \<Rightarrow> bool" where
  "token_laws L \<longleftrightarrow> (\<forall>s. urlDecode L (urlEncode L s) = Inr s) \<and> (\<forall>s. \<forall>c \<in> set (urlEncode L s). c \<notin> set ''.;'' \<and> \<not> is_blank c) \<and>
     (\<forall>n. num_bytes L n \<le> 32 \<longrightarrow> length (bn2binpad L n) = 32 \<and> bin2bn L (bn2binpad L n) = n)"

definition keys_match :: "('d, 'k, 'p, 'z) passport_lib_scheme \<Rightarrow> bool" where
  "keys_match L \<longleftrightarrow> (case (priv_key L, pub_key L) of (Some k, Some p) \<Rightarrow> (\<forall>m rs. do_sign L k m = Some rs \<longrightarrow> do_verify L p m rs = 1) | _ \<Rightarrow> False)"

lemma trimmed_id: "\<forall>c \<in> set s. \<not> is_blank c \<Longrightarrow> trimmed s = s"
proof -
  assume n: "\<forall>c \<in> set s. \<not> is_blank c"
  have d: "dropWhile is_blank t = t" if "\<forall>c \<in> set t. \<not> is_blank c" for t using that by (cases t) auto
  show ?thesis using n d [of s] d [of "rev s"] by (simp add: trimmed_def rtrim_text_def)
qed

lemma makePassport_eq:
  assumes "makePassport L req = Inr token"
  obtains k r s where "priv_key L = Some k" and "num_bytes L r \<le> 32" and "num_bytes L s \<le> 32"
    and "do_sign L k (sha256 L (urlEncode L passport_header @ ''.'' @ urlEncode L (passport_payload req))) = Some (r, s)"
    and "token = (urlEncode L passport_header @ ''.'' @ urlEncode L (passport_payload req) @ ''.'' @ urlEncode L (bn2binpad L r @ bn2binpad L s)) @ CHR '';'' # ''info=<'' @ x5u @ ''>''"
  using assms by (auto simp: makePassport_def Let_def split: option.splits prod.splits if_splits)

lemma identity_info_x5u:
  assumes "piece_laws L"
  shows "identity_info L (''info=<'' @ x5u @ ''>'') = (x5u, [])"
proof -
  have "dropWhile is_blank (''info=<'' @ x5u @ ''>'') = ''info=<'' @ x5u @ ''>''" "before (CHR ''='') (''info=<'' @ x5u @ ''>'') = ''info''"
    "after (CHR ''='') (''info=<'' @ x5u @ ''>'') = ''<'' @ x5u @ ''>''" "dropWhile is_blank (''<'' @ x5u @ ''>'') = ''<'' @ x5u @ ''>''"
    "before (CHR ''>'') (x5u @ ''>'') = x5u" "after (CHR ''>'') (x5u @ ''>'') = []" "trimmed x5u = x5u"
    by code_simp+
  then show ?thesis by (simp add: identity_info_def piece_lawsD [OF assms])
qed

lemma parse_token:
  assumes "piece_laws L" and "uri_parse L x5u = Inr ()" and "\<forall>c \<in> set (h @ p @ s). c \<notin> set ''.;'' \<and> \<not> is_blank c" and "h \<noteq> [] \<or> p \<noteq> []"
  shows "parse_identity L ((h @ ''.'' @ p @ ''.'' @ s) @ CHR '';'' # ''info=<'' @ x5u @ ''>'') = Inr (h, p, s, x5u, [])"
proof -
  let ?d = "h @ ''.'' @ p @ ''.'' @ s"
  have n: "CHR '';'' \<notin> set ?d" and d: "\<forall>c \<in> set ?d. \<not> is_blank c" and dots: "CHR ''.'' \<notin> set h" "CHR ''.'' \<notin> set p"
    using assms(3) by (auto simp: is_blank_def)
  have b: "before (CHR '';'') (?d @ CHR '';'' # ''info=<'' @ x5u @ ''>'') = ?d" "after (CHR '';'') (?d @ CHR '';'' # ''info=<'' @ x5u @ ''>'') = ''info=<'' @ x5u @ ''>''"
    by (rule before_append(1) [OF n], rule after_append [OF n])
  have h: "before (CHR ''.'') ?d = h" "after (CHR ''.'') ?d = p @ ''.'' @ s" "before (CHR ''.'') (p @ ''.'' @ s) = p" "after (CHR ''.'') (p @ ''.'' @ s) = s"
    using dots by simp_all
  have x: "x5u \<noteq> []" by (simp add: x5u_def)
  show ?thesis
    unfolding parse_identity_def piece_lawsD [OF assms(1)] b trimmed_id [OF d] h prod.case identity_info_x5u [OF assms(1)]
    using assms(2,4) x by (auto simp: catching_def)
qed

lemma header_represented: "represents J d header_value \<Longrightarrow> header_ok J d x5u"
  by (auto simp: header_value_def header_ok_def has_string_def split: option.splits)

lemma payload_represented:
  assumes "represents J d (payload_value req)" and "sr_attest req \<in> {''A'', ''B'', ''C''}" and "\<bar>uint (sr_iat req) - uint (vr_time vr)\<bar> \<le> period"
    and "vr_to vr = sort (sr_dest req)" and "vr_from vr = sr_orig req"
  shows "claims_ok J d period vr" and "numbers_ok J d vr"
proof -
  from assms(2) obtain a where "a \<in> {''A'', ''B'', ''C''}" "sr_attest req = a" by blast
  then show "claims_ok J d period vr" using assms(1,3)
    by (auto simp: claims_ok_def payload_value_def has_string_def split: option.splits)
  show "numbers_ok J d vr" using assms(1,4,5) by (auto simp: numbers_ok_def payload_value_def in_member_def has_string_def has_strings_def split: option.splits)
qed

lemma sign_verify:
  assumes "piece_laws L" and "json_laws (sl_json L)" and "token_laws L" and "keys_match L" and "uri_parse L x5u = Inr ()"
    and "makePassport L req = Inr token" and "sr_attest req \<in> {''A'', ''B'', ''C''}" and "sr_dest req \<noteq> []"
    and "reads_back (sl_json L) header_value" and "reads_back (sl_json L) (payload_value req)"
    and "\<bar>uint time - uint now\<bar> \<le> uint (valid_iat_period L)" and "\<bar>uint (sr_iat req) - uint time\<bar> \<le> uint (valid_iat_period L)"
  shows "verifyPassport L now \<lparr>vr_identity = token, vr_to = sort (sr_dest req), vr_from = sr_orig req, vr_time = time\<rparr> = Some (Inr (response 0 TN_VALIDATION_PASSED [] []))"
proof -
  let ?vr = "\<lparr>vr_identity = token, vr_to = sort (sr_dest req), vr_from = sr_orig req, vr_time = time\<rparr>"
  let ?h = "urlEncode L passport_header" and ?p = "urlEncode L (passport_payload req)"
  obtain k r s where k: "priv_key L = Some k" "num_bytes L r \<le> 32" "num_bytes L s \<le> 32" "do_sign L k (sha256 L (?h @ ''.'' @ ?p)) = Some (r, s)"
    and token: "token = (?h @ ''.'' @ ?p @ ''.'' @ urlEncode L (bn2binpad L r @ bn2binpad L s)) @ CHR '';'' # ''info=<'' @ x5u @ ''>''"
    by (rule makePassport_eq [OF assms(6)])
  have dec: "urlDecode L (urlEncode L t) = Inr t" and clean: "\<forall>c \<in> set (urlEncode L t). c \<notin> set ''.;'' \<and> \<not> is_blank c" for t
    using assms(3) by (simp_all add: token_laws_def)
  have "?h \<noteq> [] \<or> ?p \<noteq> []"
  proof (rule ccontr)
    assume "\<not> ?thesis"
    then have "passport_header = passport_payload req" using dec [of passport_header] dec [of "passport_payload req"] by simp
    then show False by (simp add: passport_header_def passport_payload_def lit_def Let_def)
  qed
  then have parsed: "parse_identity L token = Inr (?h, ?p, urlEncode L (bn2binpad L r @ bn2binpad L s), x5u, [])"
    unfolding token by (intro parse_token [OF assms(1,5)]) (use clean in auto)
  from assms(9) obtain h where h: "js_parse (sl_json L) passport_header = Inr h" "represents (sl_json L) h header_value"
    by (auto simp: reads_back_def header_text split: sum.splits)
  from assms(10) obtain p where p: "js_parse (sl_json L) (passport_payload req) = Inr p" "represents (sl_json L) p (payload_value req)"
    by (auto simp: reads_back_def payload_text [OF assms(8)] split: sum.splits)
  from assms(4) k(1) obtain pk where pk: "pub_key L = Some pk" "\<And>m rs. do_sign L k m = Some rs \<Longrightarrow> do_verify L pk m rs = 1"
    by (auto simp: keys_match_def split: option.splits)
  have "signature_of L (bn2binpad L r @ bn2binpad L s) = (r, s)" using assms(3) k(2,3) by (simp add: token_laws_def signature_of_def)
  then have sig: "check_signature L passport_header (passport_payload req) (urlEncode L (bn2binpad L r @ bn2binpad L s)) = Inr (response 0 TN_VALIDATION_PASSED [] [])"
    using pk k(4) dec by (simp add: check_signature_eq)
  have "check_token L ?vr (?h, ?p, urlEncode L (bn2binpad L r @ bn2binpad L s), x5u) = Inr (response 0 TN_VALIDATION_PASSED [] [])"
    unfolding check_token_eq [OF assms(2)]
    using dec h p header_represented [OF h(2)] payload_represented [OF p(2) assms(7), of ?vr] assms(12) sig by auto
  moreover have "\<not> drift time now > ucast (valid_iat_period L)" using assms(11) by (simp only: drift_le)
  ultimately show ?thesis using parsed by (simp add: verifyPassport_def bad_ppt.simps)
qed

end
