(* ===== verification/Stir_Handler.thy ===== *)
theory Stir_Handler
  imports Passport
begin

text \<open>
  The HTTP handler of \<^verbatim>\<open>stir/StirApiHandler.cpp\<close>: the visitor of the headers, the handler with its events \<^verbatim>\<open>onRequest\<close>, \<^verbatim>\<open>onBody\<close> and \<^verbatim>\<open>onEOM\<close>, and
  the factories that \<^verbatim>\<open>Stir.cpp\<close> chains. The functions of proxygen are added to the library record. \<^verbatim>\<open>onEOM\<close> is \<^verbatim>\<open>noexcept\<close>: an exception that reaches it
  ends the process and is the left value of its result.
\<close>

section \<open>Messages\<close>

datatype stir_header = SH_CONTENT_LENGTH | SH_CONTENT_TYPE | SH_ACCEPT | SH_OTHER | SH_KNOWN

record stir_message =
  hm_method :: http_method
  hm_path :: "char list"
  hm_headers :: "(stir_header \<times> char list \<times> char list) list"

record stir_response =
  rs_status :: nat
  rs_reason :: "char list"
  rs_requestId :: "char list"
  rs_contentType :: "char list"
  rs_body :: "char list"

record ('d, 'k, 'p) http_lib = "('d, 'k, 'p) passport_lib" +
  tryTo_u32 :: "char list \<Rightarrow> 32 word option"
  parseQvalues :: "char list \<Rightarrow> char list list"
  iequals :: "char list \<Rightarrow> char list \<Rightarrow> bool"
  split_step_str :: "char list \<Rightarrow> char list \<Rightarrow> char list \<times> char list"
  getDefaultReason :: "nat \<Rightarrow> char list"
  stir_api_body_limit :: "32 word"

section \<open>Headers\<close>

definition getHttpAcceptValue :: "('d, 'k, 'p, 'z) http_lib_scheme \<Rightarrow> char list \<Rightarrow> char list" where
  "getHttpAcceptValue L headerValue = (case parseQvalues L headerValue of [] \<Rightarrow> [] | tok # _ \<Rightarrow> trimWhitespace (sl_folly L) tok)"

record header_visitor =
  hv_error :: stir_error
  hv_requestId :: "char list"
  hv_contentLength :: int
  hv_jsonInput :: bool

definition visitor_init :: header_visitor where
  "visitor_init = \<lparr>hv_error = no_error, hv_requestId = [], hv_contentLength = - 1, hv_jsonInput = False\<rparr>"

fun visit_header :: "('d, 'k, 'p, 'z) http_lib_scheme \<Rightarrow> stir_header \<times> char list \<times> char list \<Rightarrow> header_visitor \<Rightarrow> header_visitor" where
  "visit_header L (SH_CONTENT_LENGTH, name, value) v =
     v\<lparr>hv_contentLength := (case tryTo_u32 L value of Some n \<Rightarrow> uint n | None \<Rightarrow> 0)\<rparr>"
| "visit_header L (SH_CONTENT_TYPE, name, value) v =
     (if trimWhitespace (sl_folly L) (fst (split_step_str L '';'' value)) = ''application/json'' then v\<lparr>hv_jsonInput := True\<rparr> else v)"
| "visit_header L (SH_ACCEPT, name, value) v =
     (let token = getHttpAcceptValue L value
      in if token \<noteq> ''application/json'' \<and> token \<noteq> ''*/*''
         then v\<lparr>hv_error := putVariable token (StirApiError STIR_SVC_NOT_ACCEPTABLE_RESPONSE_BODY_TYPE)\<rparr> else v)"
| "visit_header L (SH_OTHER, name, value) v = (if iequals L name ''X-RequestID'' then v\<lparr>hv_requestId := value\<rparr> else v)"
| "visit_header L (SH_KNOWN, name, value) v = v"

definition visitor_finalize :: "('d, 'k, 'p, 'z) http_lib_scheme \<Rightarrow> header_visitor \<Rightarrow> stir_error" where
  "visitor_finalize L v =
     (if \<not> hv_jsonInput v then putVariable ''application/json'' (StirApiError STIR_SVC_UNSUPPORTED_REQUEST_BODY_TYPE)
      else if hv_contentLength v = - 1 then StirApiError STIR_SVC_MISSING_BODY_LENGTH
      else if hv_contentLength v \<ge> uint (stir_api_body_limit L) then
        putVariable ''invalid message body length specified'' (StirApiError STIR_SVC_FAILED_TO_PARSE_MSG_BODY)
      else hv_error v)"

section \<open>The handler\<close>

datatype endpoint = SIGN | VERIFY

text \<open>\<^verbatim>\<open>endpoint_\<close> has no value before it is assigned.\<close>

record stir_handler =
  sh_requestId :: "char list"
  sh_endpoint :: "endpoint option"
  sh_error :: stir_error
  sh_body :: "char list"

definition handler_init :: stir_handler where
  "handler_init = \<lparr>sh_requestId = [], sh_endpoint = None, sh_error = no_error, sh_body = []\<rparr>"

text \<open>\<open>uuid\<close> is the text of the random identifier; \<^verbatim>\<open>uuid_unparse\<close> ends it with a zero byte in the string of 37 bytes.\<close>

definition generateRequestId :: "char list \<Rightarrow> stir_handler \<Rightarrow> stir_handler" where
  "generateRequestId uuid st = st\<lparr>sh_requestId := take 36 uuid @ [NUL]\<rparr>"

definition stir_onRequest :: "('d, 'k, 'p, 'z) http_lib_scheme \<Rightarrow> char list \<Rightarrow> stir_message \<Rightarrow> stir_handler \<Rightarrow> stir_handler" where
  "stir_onRequest L uuid req st =
     (let v = fold (visit_header L) (hm_headers req) visitor_init;
          st = (if hv_requestId v = [] then generateRequestId uuid st else st\<lparr>sh_requestId := hv_requestId v\<rparr>)
      in if hm_method req \<noteq> Http_POST then st\<lparr>sh_error := StirApiError STIR_POL_METHOD_NOT_ALLOWED\<rparr>
         else if hm_path req = ''/stir/v1/signing'' then st\<lparr>sh_endpoint := Some SIGN, sh_error := visitor_finalize L v\<rparr>
         else if hm_path req = ''/stir/v1/verification'' then st\<lparr>sh_endpoint := Some VERIFY, sh_error := visitor_finalize L v\<rparr>
         else st\<lparr>sh_error := StirApiError STIR_SVC_RESOURCE_NOT_FOUND\<rparr>)"

definition stir_onBody :: "char list \<Rightarrow> stir_handler \<Rightarrow> stir_handler" where
  "stir_onBody pkt st = (if \<not> is_error (sh_error st) then st\<lparr>sh_body := sh_body st @ pkt\<rparr> else st)"

text \<open>\<open>answer\<close> is the continuation of \<^verbatim>\<open>then\<close>; the body is moved from before it is assigned.\<close>

definition handle_with :: "exn + (stir_error + 'm) \<Rightarrow> ('m \<Rightarrow> (exn + char list) option) \<Rightarrow> stir_handler \<Rightarrow> (exn + stir_handler) option" where
  "handle_with msg answer st =
     (case msg of Inl e \<Rightarrow> Some (Inl e)
      | Inr (Inl err) \<Rightarrow> Some (Inr (st\<lparr>sh_error := err, sh_body := []\<rparr>))
      | Inr (Inr req) \<Rightarrow> map_option (map_sum id (\<lambda>t. st\<lparr>sh_body := t\<rparr>)) (answer req))"

definition stir_handleRequest :: "('d, 'k, 'p, 'z) http_lib_scheme \<Rightarrow> 64 word \<Rightarrow> stir_handler \<Rightarrow> (exn + stir_handler) option" where
  "stir_handleRequest L now st =
     (let d = js_string (sl_json L) (sh_body st) in
      case sh_endpoint st of None \<Rightarrow> Some (Inl Aborted)
      | Some SIGN \<Rightarrow> handle_with (signing_fromJson L d) (\<lambda>req. Some (map_sum id (signing_toBody L) (makePassport L req))) st
      | Some VERIFY \<Rightarrow> handle_with (verification_fromJson L d) (\<lambda>req. map_option (map_sum id (verification_toBody L)) (verifyPassport L now req)) st)"

definition stir_sendResponse :: "('d, 'k, 'p, 'z) http_lib_scheme \<Rightarrow> nat \<Rightarrow> stir_handler \<Rightarrow> stir_response" where
  "stir_sendResponse L status st =
     \<lparr>rs_status = status, rs_reason = getDefaultReason L status, rs_requestId = sh_requestId st, rs_contentType = ''application/json'', rs_body = sh_body st\<rparr>"

definition stir_onEOM :: "('d, 'k, 'p, 'z) http_lib_scheme \<Rightarrow> 64 word \<Rightarrow> stir_handler \<Rightarrow> (exn + stir_response) option" where
  "stir_onEOM L now st0 =
     (case (if \<not> is_error (sh_error st0) then stir_handleRequest L now st0 else Some (Inr st0)) of None \<Rightarrow> None
      | Some (Inl e) \<Rightarrow> Some (Inl e)
      | Some (Inr st) \<Rightarrow>
          Some (if is_error (sh_error st)
            then (case (error_toBody L (sh_error st), http_status (sh_error st)) of
                    (Some body, Some status) \<Rightarrow> Inr (stir_sendResponse L status (st\<lparr>sh_body := body\<rparr>))
                  | _ \<Rightarrow> Inl Aborted)
            else Inr (stir_sendResponse L 200 st)))"

text \<open>A request, its body in packets, and its end; the factory passes other paths on to the handler of \<^verbatim>\<open>HttpNotFound\<close>.\<close>

definition stir_exchange :: "('d, 'k, 'p, 'z) http_lib_scheme \<Rightarrow> char list \<Rightarrow> 64 word \<Rightarrow> stir_message \<Rightarrow> char list list \<Rightarrow> (exn + stir_response) option" where
  "stir_exchange L uuid now req pkts = stir_onEOM L now (fold stir_onBody pkts (stir_onRequest L uuid req handler_init))"

datatype stir_served = Not_found nat "char list" "char list" | By_handler "(exn + stir_response) option"

definition HttpNotFound :: stir_served where
  "HttpNotFound = Not_found 404 ''Not Found'' []"

definition StirApiFactory :: "char list \<Rightarrow> stir_served \<Rightarrow> stir_served \<Rightarrow> stir_served" where
  "StirApiFactory path handler upstream = (if take 9 path = ''/stir/v1/'' then handler else upstream)"

definition stir_serve :: "('d, 'k, 'p, 'z) http_lib_scheme \<Rightarrow> char list \<Rightarrow> 64 word \<Rightarrow> stir_message \<Rightarrow> char list list \<Rightarrow> stir_served" where
  "stir_serve L uuid now req pkts = StirApiFactory (hm_path req) (By_handler (stir_exchange L uuid now req pkts)) HttpNotFound"

section \<open>What the headers say\<close>

text \<open>The lists of what the headers of one kind give, in their order; the visitor keeps the last.\<close>

definition header_lengths :: "('d, 'k, 'p, 'z) http_lib_scheme \<Rightarrow> (stir_header \<times> char list \<times> char list) list \<Rightarrow> int list" where
  "header_lengths L hs = map (\<lambda>(c, n, v). case tryTo_u32 L v of Some n \<Rightarrow> uint n | None \<Rightarrow> 0) (filter (\<lambda>(c, n, v). c = SH_CONTENT_LENGTH) hs)"

definition header_json :: "('d, 'k, 'p, 'z) http_lib_scheme \<Rightarrow> (stir_header \<times> char list \<times> char list) list \<Rightarrow> bool" where
  "header_json L hs = list_ex (\<lambda>(c, n, v). c = SH_CONTENT_TYPE \<and> trimWhitespace (sl_folly L) (fst (split_step_str L '';'' v)) = ''application/json'') hs"

definition unacceptable :: "('d, 'k, 'p, 'z) http_lib_scheme \<Rightarrow> (stir_header \<times> char list \<times> char list) list \<Rightarrow> char list list" where
  "unacceptable L hs = filter (\<lambda>t. t \<noteq> ''application/json'' \<and> t \<noteq> ''*/*'') (map (\<lambda>(c, n, v). getHttpAcceptValue L v) (filter (\<lambda>(c, n, v). c = SH_ACCEPT) hs))"

definition header_ids :: "('d, 'k, 'p, 'z) http_lib_scheme \<Rightarrow> (stir_header \<times> char list \<times> char list) list \<Rightarrow> char list list" where
  "header_ids L hs = map (\<lambda>(c, n, v). v) (filter (\<lambda>(c, n, v). c = SH_OTHER \<and> iequals L n ''X-RequestID'') hs)"

definition last_or :: "'a \<Rightarrow> 'a list \<Rightarrow> 'a" where
  "last_or x xs = (if xs = [] then x else last xs)"

lemma last_or_simps [simp]: "last_or x [] = x" "last_or x (y # ys) = last_or y ys"
  by (auto simp: last_or_def)

lemma fold_visit_header:
  "fold (visit_header L) hs v =
     \<lparr>hv_error = last_or (hv_error v) (map (\<lambda>t. putVariable t (StirApiError STIR_SVC_NOT_ACCEPTABLE_RESPONSE_BODY_TYPE)) (unacceptable L hs)),
      hv_requestId = last_or (hv_requestId v) (header_ids L hs), hv_contentLength = last_or (hv_contentLength v) (header_lengths L hs),
      hv_jsonInput = (hv_jsonInput v \<or> header_json L hs)\<rparr>"
proof (induct hs arbitrary: v)
  case Nil
  show ?case by (simp add: unacceptable_def header_ids_def header_lengths_def header_json_def)
next
  case (Cons h hs)
  show ?case
  proof (cases h)
    case (fields c n x)
    show ?thesis unfolding fold_simps Cons fields
      by (cases c) (auto simp: unacceptable_def header_ids_def header_lengths_def header_json_def Let_def)
  qed
qed

text \<open>What is wrong with a request before its body is read.\<close>

definition request_error :: "('d, 'k, 'p, 'z) http_lib_scheme \<Rightarrow> stir_message \<Rightarrow> stir_error" where
  "request_error L req =
     (let hs = hm_headers req in
      if hm_method req \<noteq> Http_POST then StirApiError STIR_POL_METHOD_NOT_ALLOWED
      else if hm_path req \<notin> {''/stir/v1/signing'', ''/stir/v1/verification''} then StirApiError STIR_SVC_RESOURCE_NOT_FOUND
      else if \<not> header_json L hs then putVariable ''application/json'' (StirApiError STIR_SVC_UNSUPPORTED_REQUEST_BODY_TYPE)
      else if header_lengths L hs = [] then StirApiError STIR_SVC_MISSING_BODY_LENGTH
      else if last (header_lengths L hs) \<ge> uint (stir_api_body_limit L) then
        putVariable ''invalid message body length specified'' (StirApiError STIR_SVC_FAILED_TO_PARSE_MSG_BODY)
      else if unacceptable L hs \<noteq> [] then putVariable (last (unacceptable L hs)) (StirApiError STIR_SVC_NOT_ACCEPTABLE_RESPONSE_BODY_TYPE)
      else no_error)"

definition answer_id :: "('d, 'k, 'p, 'z) http_lib_scheme \<Rightarrow> char list \<Rightarrow> stir_message \<Rightarrow> char list" where
  "answer_id L uuid req = (let v = last_or [] (header_ids L (hm_headers req)) in if v = [] then take 36 uuid @ [NUL] else v)"

text \<open>What a body gives: an exception, an error or the text of the answer.\<close>

definition outcome :: "('d, 'k, 'p, 'z) http_lib_scheme \<Rightarrow> 64 word \<Rightarrow> char list \<Rightarrow> char list \<Rightarrow> (exn + (stir_error + char list)) option" where
  "outcome L now path body =
     (if path = ''/stir/v1/signing'' then
        (case signing_fromJson L (js_string (sl_json L) body) of Inl e \<Rightarrow> Some (Inl e) | Inr (Inl err) \<Rightarrow> Some (Inr (Inl err))
         | Inr (Inr m) \<Rightarrow> Some (map_sum id (\<lambda>t. Inr (signing_toBody L t)) (makePassport L m)))
      else
        (case verification_fromJson L (js_string (sl_json L) body) of Inl e \<Rightarrow> Some (Inl e) | Inr (Inl err) \<Rightarrow> Some (Inr (Inl err))
         | Inr (Inr m) \<Rightarrow> map_option (map_sum id (\<lambda>v. Inr (verification_toBody L v))) (verifyPassport L now m)))"

definition stir_answer :: "('d, 'k, 'p, 'z) http_lib_scheme \<Rightarrow> char list \<Rightarrow> nat \<Rightarrow> char list \<Rightarrow> stir_response" where
  "stir_answer L rid status body =
     \<lparr>rs_status = status, rs_reason = getDefaultReason L status, rs_requestId = rid, rs_contentType = ''application/json'', rs_body = body\<rparr>"

definition error_answer :: "('d, 'k, 'p, 'z) http_lib_scheme \<Rightarrow> char list \<Rightarrow> stir_error \<Rightarrow> stir_response" where
  "error_answer L rid err = stir_answer L rid (the (http_status err)) (the (error_toBody L err))"

definition known_error :: "stir_error \<Rightarrow> bool" where
  "known_error e \<longleftrightarrow> (case er_kind e of None \<Rightarrow> False | Some k \<Rightarrow> k < 10)"

lemma known_error_simps [simp]: "known_error (putVariable v e) = known_error e" "known_error (StirApiError c) \<longleftrightarrow> c \<noteq> STIR_API_ERROR_MAX"
  by (simp_all add: known_error_def putVariable_def StirApiError_def) (cases c; simp)

lemma table_ok: "\<forall>c \<in> set shakenApiError. take 3 (ec_id c) \<in> {''SVC'', ''POL''} \<and> ec_http_status c \<in> {400, 404, 405, 406, 411, 415, 500}"
  by (simp add: shakenApiError_def)

lemma known_error_body:
  assumes "known_error e"
  shows "\<exists>body status. error_toBody L e = Some body \<and> http_status e = Some status \<and> status \<in> {400, 404, 405, 406, 411, 415, 500}"
proof -
  from assms obtain k where k: "er_kind e = Some k" "k < length shakenApiError"
    by (auto simp: known_error_def shakenApiError_def split: option.splits)
  obtain c where c: "shakenApiError ! k = c" "c \<in> set shakenApiError" using k(2) by simp
  then have e: "error_class_of e = Some c" using k by (simp add: error_class_of_def)
  from c(2) table_ok have "take 3 (ec_id c) = ''SVC'' \<or> take 3 (ec_id c) = ''POL''" "ec_http_status c \<in> {400, 404, 405, 406, 411, 415, 500}" by auto
  then show ?thesis by (auto simp: error_toBody_def error_toJson_def http_status_def Let_def e)
qed

lemma blames_known: "blames ps e \<Longrightarrow> known_error e"
  by (auto simp: blames_def known_error_def)

lemma known_is_error: "known_error e \<Longrightarrow> is_error e"
  by (auto simp: known_error_def is_error_def split: option.splits)

lemma request_error_known: "is_error (request_error L req) \<Longrightarrow> known_error (request_error L req)"
  by (auto simp: request_error_def Let_def split: if_splits)

section \<open>The answer\<close>

lemma onRequest_eq:
  "stir_onRequest L uuid req handler_init =
     \<lparr>sh_requestId = answer_id L uuid req,
      sh_endpoint = (if hm_method req \<noteq> Http_POST then None else if hm_path req = ''/stir/v1/signing'' then Some SIGN
        else if hm_path req = ''/stir/v1/verification'' then Some VERIFY else None),
      sh_error = request_error L req, sh_body = []\<rparr>"
proof -
  have "visitor_finalize L (fold (visit_header L) (hm_headers req) visitor_init) =
      (if \<not> header_json L (hm_headers req) then putVariable ''application/json'' (StirApiError STIR_SVC_UNSUPPORTED_REQUEST_BODY_TYPE)
       else if header_lengths L (hm_headers req) = [] then StirApiError STIR_SVC_MISSING_BODY_LENGTH
       else if last (header_lengths L (hm_headers req)) \<ge> uint (stir_api_body_limit L) then
         putVariable ''invalid message body length specified'' (StirApiError STIR_SVC_FAILED_TO_PARSE_MSG_BODY)
       else if unacceptable L (hm_headers req) \<noteq> [] then putVariable (last (unacceptable L (hm_headers req))) (StirApiError STIR_SVC_NOT_ACCEPTABLE_RESPONSE_BODY_TYPE)
       else no_error)"
  proof -
    have "last (header_lengths L (hm_headers req)) \<noteq> - 1" if "header_lengths L (hm_headers req) \<noteq> []"
    proof -
      have "last (header_lengths L (hm_headers req)) \<in> set (header_lengths L (hm_headers req))" using that by simp
      moreover have "0 \<le> x" if "x \<in> set (header_lengths L (hm_headers req))" for x
        using that by (auto simp: header_lengths_def split: option.splits)
      ultimately show ?thesis by force
    qed
    then show ?thesis by (auto simp: fold_visit_header visitor_finalize_def visitor_init_def last_or_def last_map)
  qed
  then show ?thesis
    by (auto simp: stir_onRequest_def request_error_def Let_def handler_init_def generateRequestId_def answer_id_def fold_visit_header visitor_init_def)
qed

lemma onBody_eq: "fold stir_onBody pkts st = (if is_error (sh_error st) then st else st\<lparr>sh_body := sh_body st @ concat pkts\<rparr>)"
  by (induct pkts arbitrary: st) (auto simp: stir_onBody_def)

lemma onEOM_error:
  assumes "known_error (sh_error st)"
  shows "stir_onEOM L now st = Some (Inr (error_answer L (sh_requestId st) (sh_error st)))"
  using known_error_body [OF assms, of L] known_is_error [OF assms]
  by (auto simp: stir_onEOM_def error_answer_def stir_answer_def stir_sendResponse_def)

lemma onEOM_handle:
  assumes "\<not> is_error (sh_error st)" and "stir_handleRequest L now st = handle_with msg answer st" and "\<forall>err. msg = Inr (Inl err) \<longrightarrow> known_error err"
  shows "stir_onEOM L now st =
    map_option (map_sum id (\<lambda>r. case r of Inl err \<Rightarrow> error_answer L (sh_requestId st) err | Inr text \<Rightarrow> stir_answer L (sh_requestId st) 200 text))
      (case msg of Inl e \<Rightarrow> Some (Inl e) | Inr (Inl err) \<Rightarrow> Some (Inr (Inl err)) | Inr (Inr m) \<Rightarrow> map_option (map_sum id Inr) (answer m))"
proof -
  consider e where "msg = Inl e" | err where "msg = Inr (Inl err)" | m where "msg = Inr (Inr m)" by (metis sum.exhaust)
  then show ?thesis
  proof cases
    case 1
    then show ?thesis using assms(1,2) by (simp add: stir_onEOM_def handle_with_def)
  next
    case (2 err)
    from assms(3) 2 obtain body status where "error_toBody L err = Some body" "http_status err = Some status" "is_error err"
      using known_error_body [of err L] known_is_error by blast
    then show ?thesis using 2 assms(1,2) by (simp add: stir_onEOM_def handle_with_def error_answer_def stir_answer_def stir_sendResponse_def)
  next
    case (3 m)
    show ?thesis
    proof (cases "answer m")
      case None
      then show ?thesis using 3 assms(1,2) by (simp add: stir_onEOM_def handle_with_def)
    next
      case (Some r)
      then show ?thesis using 3 assms(1,2) by (cases r) (simp_all add: stir_onEOM_def handle_with_def stir_answer_def stir_sendResponse_def)
    qed
  qed
qed

definition stir_expected :: "('d, 'k, 'p, 'z) http_lib_scheme \<Rightarrow> char list \<Rightarrow> 64 word \<Rightarrow> stir_message \<Rightarrow> char list \<Rightarrow> (exn + stir_response) option" where
  "stir_expected L uuid now req body =
     (let rid = answer_id L uuid req in
      if is_error (request_error L req) then Some (Inr (error_answer L rid (request_error L req)))
      else map_option (map_sum id (\<lambda>r. case r of Inl err \<Rightarrow> error_answer L rid err | Inr text \<Rightarrow> stir_answer L rid 200 text)) (outcome L now (hm_path req) body))"

lemma stir_exchange_eq: "stir_exchange L uuid now req pkts = stir_expected L uuid now req (concat pkts)"
proof (cases "is_error (request_error L req)")
  case True
  then show ?thesis
    using onEOM_error [of "stir_onRequest L uuid req handler_init" L now] request_error_known [OF True]
    by (simp add: stir_exchange_def stir_expected_def onBody_eq onRequest_eq Let_def)
next
  case False
  let ?d = "js_string (sl_json L) (concat pkts)" and ?st = "fold stir_onBody pkts (stir_onRequest L uuid req handler_init)"
  have st: "\<not> is_error (sh_error ?st)" "sh_requestId ?st = answer_id L uuid req" "sh_body ?st = concat pkts" using False by (simp_all add: onBody_eq onRequest_eq)
  from False consider "hm_path req = ''/stir/v1/signing''" "hm_method req = Http_POST" | "hm_path req = ''/stir/v1/verification''" "hm_method req = Http_POST"
    by (auto simp: request_error_def Let_def split: if_splits)
  then show ?thesis
  proof cases
    case 1
    let ?msg = "signing_fromJson L ?d" and ?answer = "\<lambda>m. Some (map_sum id (signing_toBody L) (makePassport L m))"
    have h: "stir_handleRequest L now ?st = handle_with ?msg ?answer ?st" using 1 False by (simp add: stir_handleRequest_def onBody_eq onRequest_eq)
    have k: "\<forall>err. ?msg = Inr (Inl err) \<longrightarrow> known_error err" using signing_cases [of L ?d] blames_known by auto
    have o: "outcome L now (hm_path req) (concat pkts) =
        (case ?msg of Inl e \<Rightarrow> Some (Inl e) | Inr (Inl err) \<Rightarrow> Some (Inr (Inl err)) | Inr (Inr m) \<Rightarrow> map_option (map_sum id Inr) (?answer m))"
      using 1 by (simp add: outcome_def sum.map_comp comp_def id_def split: sum.split)
    show ?thesis unfolding stir_exchange_def onEOM_handle [OF st(1) h k] stir_expected_def Let_def o st(2) using False by simp
  next
    case 2
    let ?msg = "verification_fromJson L ?d" and ?answer = "\<lambda>m. map_option (map_sum id (verification_toBody L)) (verifyPassport L now m)"
    have h: "stir_handleRequest L now ?st = handle_with ?msg ?answer ?st" using 2 False by (simp add: stir_handleRequest_def onBody_eq onRequest_eq)
    have k: "\<forall>err. ?msg = Inr (Inl err) \<longrightarrow> known_error err" using verification_cases [of L ?d] blames_known by auto
    have o: "outcome L now (hm_path req) (concat pkts) =
        (case ?msg of Inl e \<Rightarrow> Some (Inl e) | Inr (Inl err) \<Rightarrow> Some (Inr (Inl err)) | Inr (Inr m) \<Rightarrow> map_option (map_sum id Inr) (?answer m))"
      using 2 by (simp add: outcome_def sum.map_comp option.map_comp comp_def id_def split: sum.split)
    show ?thesis unfolding stir_exchange_def onEOM_handle [OF st(1) h k] stir_expected_def Let_def o st(2) using False by simp
  qed
qed

end
