(* ===== verification/Stir.thy ===== *)
theory Stir
  imports Stir_Handler
begin

text \<open>
  The STIR/SHAKEN service as a whole: what it promises, and a concrete library on which the promises are seen to hold. The library has a reader of compact JSON, an encoding
  with two letters per byte, and a checksum in place of the signature.
\<close>

section \<open>A concrete library\<close>

datatype jval = JNull | JInt int | JStr "char list" | JArr "jval list" | JObj "(char list \<times> jval) list"

fun read_value :: "nat \<Rightarrow> char list \<Rightarrow> (jval \<times> char list) option" and read_items :: "nat \<Rightarrow> char list \<Rightarrow> (jval list \<times> char list) option"
  and read_fields :: "nat \<Rightarrow> char list \<Rightarrow> ((char list \<times> jval) list \<times> char list) option" where
  "read_value 0 s = None"
| "read_value (Suc n) s =
     (case s of [] \<Rightarrow> None
      | c # r \<Rightarrow>
          (if c = CHR 0x22 then Some (JStr (before (CHR 0x22) r), after (CHR 0x22) r)
           else if c = CHR ''['' then map_option (\<lambda>(vs, q). (JArr vs, q)) (read_items n r)
           else if c = CHR ''{'' then map_option (\<lambda>(fs, q). (JObj fs, q)) (read_fields n r)
           else if is_digit c then Some (JInt (int (dec_val (takeWhile is_digit s))), dropWhile is_digit s)
           else None))"
| "read_items 0 s = None"
| "read_items (Suc n) s =
     (case read_value n s of None \<Rightarrow> None
      | Some (v, c # r) \<Rightarrow> (if c = CHR '','' then map_option (\<lambda>(vs, q). (v # vs, q)) (read_items n r) else Some ([v], r))
      | Some (v, []) \<Rightarrow> None)"
| "read_fields 0 s = None"
| "read_fields (Suc n) s =
     (case read_value n s of Some (JStr k, c # r) \<Rightarrow>
        (case read_value n r of None \<Rightarrow> None
         | Some (v, c # r) \<Rightarrow> (if c = CHR '','' then map_option (\<lambda>(fs, q). ((k, v) # fs, q)) (read_fields n r) else Some ([(k, v)], r))
         | Some (v, []) \<Rightarrow> None)
      | _ \<Rightarrow> None)"

fun dump_value :: "jval \<Rightarrow> char list" and dump_items :: "jval list \<Rightarrow> char list list" and dump_fields :: "(char list \<times> jval) list \<Rightarrow> char list list" where
  "dump_value JNull = ''null''"
| "dump_value (JInt i) = dec_text (nat i)"
| "dump_value (JStr s) = quoted s"
| "dump_value (JArr vs) = ''['' @ join_text '','' (dump_items vs) @ '']''"
| "dump_value (JObj fs) = ''{'' @ join_text '','' (dump_fields fs) @ ''}''"
| "dump_items [] = []"
| "dump_items (v # vs) = dump_value v # dump_items vs"
| "dump_fields [] = []"
| "dump_fields ((k, v) # fs) = (quoted k @ '':'' @ dump_value v) # dump_fields fs"

fun member_of :: "jval \<Rightarrow> char list \<Rightarrow> jval option" where
  "member_of (JObj fs) k = map_of fs k"
| "member_of _ k = None"

fun is_jobj :: "jval \<Rightarrow> bool" where
  "is_jobj (JObj fs) = True"
| "is_jobj _ = False"

fun to_text :: "jval \<Rightarrow> exn + char list" where
  "to_text (JStr s) = Inr s"
| "to_text _ = Inl (Type_error ''string'')"

fun to_texts :: "jval list \<Rightarrow> exn + char list list" where
  "to_texts [] = Inr []"
| "to_texts (v # vs) = bind_sum (to_text v) (\<lambda>s. bind_sum (to_texts vs) (\<lambda>ss. Inr (s # ss)))"

definition sample_json :: "jval json_lib" where
  "sample_json = \<lparr>js_parse = (\<lambda>s. case read_value 40 s of Some (v, []) \<Rightarrow> Inr v | _ \<Rightarrow> Inl Parse_error), js_dump = dump_value,
     js_isString = (\<lambda>d. case d of JStr s \<Rightarrow> True | _ \<Rightarrow> False), js_isObject = is_jobj, js_isInt = (\<lambda>d. case d of JInt i \<Rightarrow> True | _ \<Rightarrow> False),
     js_stringPiece = (\<lambda>d. case d of JStr s \<Rightarrow> s | _ \<Rightarrow> []), js_asInt = (\<lambda>d. case d of JInt i \<Rightarrow> word_of_int i | _ \<Rightarrow> 0),
     js_negative = (\<lambda>d. case d of JInt i \<Rightarrow> i < 0 | _ \<Rightarrow> False),
     js_at = (\<lambda>d k. if is_jobj d then (case member_of d k of None \<Rightarrow> Inl Out_of_range | Some x \<Rightarrow> Inr x) else Inl (Type_error ''object'')),
     js_index = (\<lambda>d k. if is_jobj d then (case member_of d k of None \<Rightarrow> Inr JNull | Some x \<Rightarrow> Inr x) else Inl (Type_error ''object'')),
     js_get_ptr = member_of, js_eq = (=), js_string = JStr, js_int = JInt, js_array = JArr, js_range = (\<lambda>xs. JArr (map JStr xs)), js_object = JObj,
     js_to_fbstring = to_text, js_to_strings = (\<lambda>d. case d of JArr vs \<Rightarrow> to_texts vs | _ \<Rightarrow> Inl (Type_error ''array'')),
     js_to_u64 = (\<lambda>d. case d of JInt i \<Rightarrow> if i < 0 then Inl (Conversion_error ''negative'') else Inr (word_of_int i) | _ \<Rightarrow> Inl (Type_error ''int64''))\<rparr>"

definition letter :: "nat \<Rightarrow> char" where
  "letter n = char_of (97 + n)"

definition encode :: "char list \<Rightarrow> char list" where
  "encode s = concat (map (\<lambda>c. [letter (of_char c div 16), letter (of_char c mod 16)]) s)"

fun decode :: "char list \<Rightarrow> char list" where
  "decode (a # b # s) = char_of ((of_char a - 97) * 16 + (of_char b - 97) :: nat) # decode s"
| "decode s = []"

definition checksum :: "char list \<Rightarrow> nat \<times> nat" where
  "checksum m = (of_char (last m), length m mod 256)"

definition sample_lib :: "(jval, unit, unit) http_lib" where
  "sample_lib = \<lparr>sl_json = sample_json, sl_folly = std_folly, sl_splitTo = (\<lambda>c s. [before c s, after c s]), uuid_parse = (\<lambda>s. if length s = 36 then 0 else - 1),
     ltrimWhitespace = dropWhile is_blank, split_step = (\<lambda>c s. (before c s, after c s)), skip_char = (\<lambda>c s. if take 1 s = [c] then (True, drop 1 s) else (False, s)),
     uri_parse = (\<lambda>s. if take 4 s = ''http'' then Inr () else Inl Invalid_argument), urlEncode = encode, urlDecode = (\<lambda>s. Inr (decode s)), sha256 = (\<lambda>s. s),
     priv_key = Some (), pub_key = Some (), do_sign = (\<lambda>k m. Some (checksum m)), do_verify = (\<lambda>k m rs. if rs = checksum m then 1 else 0),
     num_bytes = (\<lambda>n. if n < 256 then 1 else 33), bn2binpad = (\<lambda>n. replicate 31 NUL @ [char_of n]), bin2bn = (\<lambda>s. of_char (last s)), valid_iat_period = 60,
     tryTo_u32 = (\<lambda>s. if s \<noteq> [] \<and> list_all is_digit s then Some (of_nat (dec_val s)) else None), parseQvalues = (\<lambda>s. [s]), iequals = (=),
     split_step_str = (\<lambda>d s. (before (hd d) s, after (hd d) s)), getDefaultReason = (\<lambda>n. []), stir_api_body_limit = 32768\<rparr>"

lemma letter_code: "n < 16 \<Longrightarrow> of_char (letter n) = (97 + n :: nat)"
  by (simp add: letter_def)

lemma decode_encode: "decode (encode s) = s"
proof (induct s)
  case Nil
  show ?case by (simp add: encode_def)
next
  case (Cons c s)
  have "(of_char c :: nat) div 16 < 16" using nat_of_char_less_256 [of c] by (simp add: less_mult_imp_div_less)
  then show ?case using Cons by (simp add: encode_def letter_code)
qed

lemma encode_letters: "c \<in> set (encode s) \<Longrightarrow> \<exists>n < 16. c = letter n"
proof -
  have "(of_char d :: nat) div 16 < 16" for d using nat_of_char_less_256 [of d] by (simp add: less_mult_imp_div_less)
  moreover have "(of_char d :: nat) mod 16 < 16" for d by simp
  moreover assume "c \<in> set (encode s)"
  then obtain d where "c = letter (of_char d div 16) \<or> c = letter (of_char d mod 16)" by (auto simp: encode_def)
  ultimately show ?thesis by metis
qed

lemma letters_plain: "n < 16 \<Longrightarrow> letter n \<notin> set ''.;'' \<and> \<not> is_blank (letter n)"
proof -
  assume n: "n < 16"
  have "letter n \<noteq> c" if "(of_char c :: nat) < 97" for c using letter_code [OF n] that by auto
  from this [of "CHR ''.''"] this [of "CHR '';''"] this [of SPC] this [of TAB] this [of CR] this [of LF] show ?thesis by (simp add: is_blank_def)
qed

lemma sample_laws: "piece_laws sample_lib" "json_laws (sl_json sample_lib)" "token_laws sample_lib" "keys_match sample_lib"
proof -
  show "piece_laws sample_lib" using std_folly_laws by (simp add: piece_laws_def sample_lib_def)
  have "is_jobj d \<longleftrightarrow> (\<exists>fs. d = JObj fs)" for d by (cases d) auto
  then show "json_laws (sl_json sample_lib)" by (auto simp: json_laws_def sample_lib_def sample_json_def)
  show "token_laws sample_lib" using letters_plain encode_letters
    by (fastforce simp: token_laws_def sample_lib_def decode_encode)
  show "keys_match sample_lib" by (simp add: keys_match_def sample_lib_def)
qed

definition sample_signing :: signing_request where
  "sample_signing = \<lparr>sr_attest = ''A'', sr_dest = [''12355551212'', ''12155551213''], sr_iat = 100, sr_orig = ''12155551212'', sr_origid = ''de305d54-75b4-431b-adb2-eb6b9e546014''\<rparr>"

definition sample_token :: "char list" where
  "sample_token = (case makePassport sample_lib sample_signing of Inl e \<Rightarrow> [] | Inr t \<Rightarrow> t)"

definition sample_verification :: verification_request where
  "sample_verification = \<lparr>vr_identity = sample_token, vr_to = sort (sr_dest sample_signing), vr_from = sr_orig sample_signing, vr_time = 130\<rparr>"

lemma sample_signed: "makePassport sample_lib sample_signing = Inr sample_token"
proof -
  have "\<exists>t. makePassport sample_lib sample_signing = Inr t" by (simp add: makePassport_def sample_lib_def checksum_def Let_def)
  then show ?thesis by (auto simp: sample_token_def)
qed

lemma sample_reads: "reads_back (sl_json sample_lib) header_value" "reads_back (sl_json sample_lib) (payload_value sample_signing)"
  by code_simp+

lemma sample_window: "\<bar>uint (130 :: 64 word) - uint (150 :: 64 word)\<bar> \<le> uint (valid_iat_period sample_lib)"
  "\<bar>uint (sr_iat sample_signing) - uint (130 :: 64 word)\<bar> \<le> uint (valid_iat_period sample_lib)"
  by (simp_all add: sample_lib_def sample_signing_def)

lemma sample_verified: "verifyPassport sample_lib 150 sample_verification = Some (Inr (response 0 TN_VALIDATION_PASSED [] []))"
  unfolding sample_verification_def
  by (rule sign_verify [OF sample_laws _ sample_signed _ _ sample_reads sample_window]) (simp_all add: sample_lib_def x5u_def sample_signing_def)

section \<open>What the service promises\<close>

text \<open>
  C7: A token is accepted only with good reason. When \<^verbatim>\<open>verifyPassport\<close> returns the reason code 0, the time of the request is within the period of the clock; the
  identity has, after its three parts, a non-empty \<^verbatim>\<open>info\<close> URI between angle brackets; the first part decodes to a JSON object whose \<^verbatim>\<open>typ\<close>, \<^verbatim>\<open>alg\<close>, \<^verbatim>\<open>ppt\<close>
  and \<^verbatim>\<open>x5u\<close> are \<^verbatim>\<open>passport\<close>, \<^verbatim>\<open>ES256\<close>, \<^verbatim>\<open>shaken\<close> and that URI; the second part decodes to an object with an attestation A, B or C, an \<^verbatim>\<open>origid\<close>, an \<^verbatim>\<open>iat\<close> within
  the period of the time of the request, and the numbers of the request as \<^verbatim>\<open>orig\<close> and \<^verbatim>\<open>dest\<close>; and the third part decodes to a signature that verifies
  with the public key over the two texts encoded anew.
\<close>

theorem passport_accepted:
  assumes "piece_laws L" and "json_laws (sl_json L)" and "verifyPassport L now req = Some (Inr v)" and "vs_reasonCode v = 0"
  shows "\<bar>uint (vr_time req) - uint now\<bar> \<le> uint (valid_iat_period L) \<and> accepted_token L req \<and> v = response 0 TN_VALIDATION_PASSED [] []"
  using verifyPassport_accepted [OF assms] by blast

theorem passport_accepted_witness: "accepted_token sample_lib sample_verification"
  using passport_accepted [OF sample_laws(1,2) sample_verified] by simp

text \<open>
  C11: \<^verbatim>\<open>verifyPassport\<close> returns or throws for every request: its loop over the parameters ends. What it returns is the response of an accepted token, or one with a reason
  code among 403, 436, 437 and 438 whose \<^verbatim>\<open>verstat\<close> is not that of a passed validation.
\<close>

theorem passport_returns:
  assumes "piece_laws L"
  shows "\<exists>r. verifyPassport L now req = Some r \<and> (\<forall>v. r = Inr v \<longrightarrow> rejected v \<or> v = response 0 TN_VALIDATION_PASSED [] [])"
  by (rule verifyPassport_total [OF assms, of now req]) blast

theorem passport_returns_witness:
  "\<exists>v. verifyPassport sample_lib 150 \<lparr>vr_identity = ''a.b.c;info=<http://x>;q=1;ppt=div'', vr_to = [''12155551213''], vr_from = ''12155551212'', vr_time = 130\<rparr> = Some (Inr v) \<and> rejected v"
proof -
  let ?req = "\<lparr>vr_identity = ''a.b.c;info=<http://x>;q=1;ppt=div'', vr_to = [''12155551213''], vr_from = ''12155551212'', vr_time = 130\<rparr>"
  obtain r where r: "verifyPassport sample_lib 150 ?req = Some r" "\<forall>v. r = Inr v \<longrightarrow> rejected v \<or> v = response 0 TN_VALIDATION_PASSED [] []"
    using passport_returns [OF sample_laws(1), of 150 ?req] by blast
  have "map_option (map_sum id vs_reasonCode) (verifyPassport sample_lib 150 ?req) = Some (Inr 438)" by code_simp
  with r(1) obtain v where "r = Inr v" "vs_reasonCode v = 438" by (cases r) auto
  with r show ?thesis by (auto simp: response_def)
qed

text \<open>
  C8: What \<^verbatim>\<open>makePassport\<close> signs, \<^verbatim>\<open>verifyPassport\<close> accepts: for a request whose header and payload texts the JSON reader reads back, the token verifies against the
  same originating number and the destinations in lexicographic order, while the clock and the two time stamps are within the period.
\<close>

theorem passport_roundtrip:
  assumes "piece_laws L" and "json_laws (sl_json L)" and "token_laws L" and "keys_match L" and "uri_parse L x5u = Inr ()"
    and "makePassport L req = Inr token" and "signing_ok L req"
    and "reads_back (sl_json L) header_value" and "reads_back (sl_json L) (payload_value req)"
    and "\<bar>uint time - uint now\<bar> \<le> uint (valid_iat_period L)" and "\<bar>uint (sr_iat req) - uint time\<bar> \<le> uint (valid_iat_period L)"
  shows "verifyPassport L now \<lparr>vr_identity = token, vr_to = sort (sr_dest req), vr_from = sr_orig req, vr_time = time\<rparr> = Some (Inr (response 0 TN_VALIDATION_PASSED [] []))"
proof -
  from assms(7) have "sr_attest req \<in> {''A'', ''B'', ''C''}" "sr_dest req \<noteq> []" by (simp_all add: signing_ok_def)
  then show ?thesis by (rule sign_verify [OF assms(1-6) _ _ assms(8-11)])
qed

text \<open>
  C9: One response per request: the events \<^verbatim>\<open>onRequest\<close>, \<^verbatim>\<open>onBody\<close> for each packet and \<^verbatim>\<open>onEOM\<close> answer as one function of the request and the whole body. Paths
  outside the API get 404 from the next handler. Other methods than POST, unknown paths, a content type that is not JSON, a missing length, a length at the limit
  and a format that is not accepted get their errors, in this order, without a look at the body; otherwise the body is signed or verified and the
  answer has status 200 or the error of the message, unless signing or verifying throws: then no response is sent and the exception ends the process. The X-RequestID is that of the request or a new one.
\<close>

theorem stir_serves:
  "stir_serve L uuid now req pkts =
     (if take 9 (hm_path req) = ''/stir/v1/'' then
        By_handler
          (let rid = answer_id L uuid req; err = request_error L req
           in if is_error err then Some (Inr (error_answer L rid err))
              else map_option (map_sum id (\<lambda>r. case r of Inl err \<Rightarrow> error_answer L rid err | Inr text \<Rightarrow> stir_answer L rid 200 text))
                (outcome L now (hm_path req) (concat pkts)))
      else Not_found 404 ''Not Found'' [])"
  by (simp add: stir_serve_def StirApiFactory_def HttpNotFound_def stir_exchange_eq stir_expected_def Let_def)

section \<open>Deviations\<close>

lemma semicolon_hides_ppt:
  assumes "piece_laws L"
  shows "bad_ppt L '';ppt=div'' = Some False" and "bad_ppt L '';q=1;ppt=div'' = Some True"
proof -
  have "before (CHR ''='') '';ppt=div'' = '';ppt''" "after (CHR ''='') '';ppt=div'' = ''div''" "trimmed '';ppt'' = '';ppt''" "trimmed ''div'' = ''div''"
    "after (CHR '';'') ''div'' = []" "before (CHR '';'') ''div'' = ''div''"
    by code_simp+
  then show "bad_ppt L '';ppt=div'' = Some False" by (simp add: bad_ppt.simps piece_lawsD [OF assms])
  have "before (CHR ''='') '';q=1;ppt=div'' = '';q''" "after (CHR ''='') '';q=1;ppt=div'' = ''1;ppt=div''" "trimmed '';q'' = '';q''"
    "after (CHR '';'') ''1;ppt=div'' = ''ppt=div''" "before (CHR ''='') ''ppt=div'' = ''ppt''" "after (CHR ''='') ''ppt=div'' = ''div''" "trimmed ''ppt'' = ''ppt''"
    "trimmed ''div'' = ''div''" "before (CHR '';'') ''div'' = ''div''"
    by code_simp+
  then show "bad_ppt L '';q=1;ppt=div'' = Some True"
    by (subst bad_ppt.simps, simp add: piece_lawsD [OF assms], subst bad_ppt.simps, simp add: piece_lawsD [OF assms])
qed

lemma one_part_accepted:
  assumes "piece_laws L" and "uri_parse L info = Inr ()" and "info \<noteq> []" and "\<forall>c \<in> set info. c \<noteq> CHR ''>'' \<and> \<not> is_blank c"
  shows "parse_identity L (''x;info=<'' @ info @ ''>'') = Inr (''x'', [], [], info, [])"
proof -
  have i: "CHR ''>'' \<notin> set info" "\<forall>c \<in> set info. \<not> is_blank c" using assms(4) by auto
  have "before (CHR '';'') (''x;info=<'' @ info @ ''>'') = ''x''" "after (CHR '';'') (''x;info=<'' @ info @ ''>'') = ''info=<'' @ info @ ''>''"
    "dropWhile is_blank (''info=<'' @ info @ ''>'') = ''info=<'' @ info @ ''>''" "before (CHR ''='') (''info=<'' @ info @ ''>'') = ''info''"
    "after (CHR ''='') (''info=<'' @ info @ ''>'') = ''<'' @ info @ ''>''" "dropWhile is_blank (''<'' @ info @ ''>'') = ''<'' @ info @ ''>''"
    "before (CHR ''.'') ''x'' = ''x''" "after (CHR ''.'') ''x'' = []" "before (CHR ''.'') [] = []" "after (CHR ''.'') [] = []" "trimmed ''x'' = ''x''"
    by (simp_all add: before_def after_def is_blank_def trimmed_def rtrim_text_def)
  moreover have "before (CHR ''>'') (info @ ''>'') = info" "after (CHR ''>'') (info @ ''>'') = []" using i(1) by simp_all
  ultimately show ?thesis
    using assms(2,3) trimmed_id [OF i(2)] by (simp add: parse_identity_def identity_info_def piece_lawsD [OF assms(1)] catching_def)
qed

lemma orig_throws:
  assumes "json_laws (sl_json L)" and "js_isObject (sl_json L) p" and "js_get_ptr (sl_json L) p ''orig'' = Some x" and "\<not> js_isObject (sl_json L) x"
  shows "\<exists>w. check_numbers L p vr = Inl (Inl (Type_error w))"
proof -
  from assms(1,4) obtain w where "js_index (sl_json L) x ''tn'' = Inl (Type_error w)" unfolding json_laws_def by blast
  then show ?thesis using index_string [OF assms(1-3)] by (simp add: check_numbers_def Let_def)
qed

lemma c_str_tail: "c_str (c_str s @ NUL # junk) = c_str s"
  by (induct s) (auto simp: c_str_def)

text \<open>
  C40: Deviations. The semicolon after the \<^verbatim>\<open>info\<close> parameter is taken for part of the next name, so that a \<^verbatim>\<open>ppt\<close> in that place is not checked; an identity with one part
  is not found to be in compact form; an \<^verbatim>\<open>orig\<close> claim that is not an object throws out of \<^verbatim>\<open>verifyPassport\<close>; zero bytes are accepted in telephone numbers, and after
  one any text in an origid; a new request identifier ends with a zero byte; the names of the errors are not those of their codes.
\<close>

theorem stir_quirks:
  assumes "piece_laws L" and "json_laws (sl_json L)" and "uri_parse L info = Inr ()" and "info \<noteq> []" and "\<forall>c \<in> set info. c \<noteq> CHR ''>'' \<and> \<not> is_blank c"
  shows "bad_ppt L '';ppt=div'' = Some False \<and> bad_ppt L '';q=1;ppt=div'' = Some True \<and>
    parse_identity L (''x;info=<'' @ info @ ''>'') = Inr (''x'', [], [], info, []) \<and>
    (\<forall>p x vr. js_isObject (sl_json L) p \<and> js_get_ptr (sl_json L) p ''orig'' = Some x \<and> \<not> js_isObject (sl_json L) x \<longrightarrow>
       (\<exists>w. check_numbers L p vr = Inl (Inl (Type_error w)))) \<and>
    (\<forall>tn. validateTN (NUL # tn) = validateTN tn) \<and>
    (\<forall>m junk. validate_signing L (m\<lparr>sr_origid := c_str (sr_origid m) @ NUL # junk\<rparr>) = validate_signing L m) \<and>
    (\<forall>req uuid. header_ids L (hm_headers req) = [] \<longrightarrow> answer_id L uuid req = take 36 uuid @ [NUL]) \<and>
    reflect (StirApiError STIR_SVC_MISSING_BODY) = Some ''SHAKEN_SVC_MISSING_BODY''"
  using semicolon_hides_ppt [OF assms(1)] one_part_accepted [OF assms(1,3-5)] orig_throws [OF assms(2)]
  by (auto simp: validateTN_def tn_char_def validate_signing_def c_str_tail answer_id_def reflect_def error_class_of_def StirApiError_def shakenApiError_def)

theorem stir_quirks_witness: "bad_ppt sample_lib '';ppt=div'' = Some False \<and> parse_identity sample_lib ''x;info=<http:a>'' = Inr (''x'', [], [], ''http:a'', [])"
proof -
  have "uri_parse sample_lib ''http:a'' = Inr ()" "\<forall>c \<in> set ''http:a''. c \<noteq> CHR ''>'' \<and> \<not> is_blank c" by (simp_all add: sample_lib_def is_blank_def)
  from stir_quirks [OF sample_laws(1,2) this(1) _ this(2)] show ?thesis by simp
qed

theorem passport_roundtrip_witness:
  "verifyPassport sample_lib 140 \<lparr>vr_identity = sample_token, vr_to = sort (sr_dest sample_signing), vr_from = sr_orig sample_signing, vr_time = 130\<rparr> =
     Some (Inr (response 0 TN_VALIDATION_PASSED [] []))"
proof -
  have "uri_parse sample_lib x5u = Inr ()" by (simp add: sample_lib_def x5u_def)
  moreover have "signing_ok sample_lib sample_signing" by (simp add: signing_ok_def sample_lib_def sample_signing_def tn_ok_def c_str_def)
  moreover have "\<bar>uint (130 :: 64 word) - uint (140 :: 64 word)\<bar> \<le> uint (valid_iat_period sample_lib)" by (simp add: sample_lib_def)
  ultimately show ?thesis by (rule passport_roundtrip [OF sample_laws _ sample_signed _ sample_reads _ sample_window(2)])
qed

end
