(* ===== verification/Spec2Isabelle.thy ===== *)
theory Spec2Isabelle
  imports Parser_F Trim Ut Methods First_Line Hname Cseq Param To_Hdr Uri_Round Via_Round Server Api_Handler Stir
begin

text \<open>
  A number-portability server and its SIP parser.

  The program has three parts. \<^verbatim>\<open>src/lib/osips_parser\<close> is the SIP parser of OpenSIPS in C: the server hands it a datagram and reads the
  first line, the Via, To, CSeq and Content-Length headers and the request URI out of it. \<^verbatim>\<open>src/callfwd\<close> is the server in C++: databases of
  ported numbers and of attributes of numbers, loaded from CSV files at the request of a control socket and asked by the SIP and HTTP handlers.
  \<^verbatim>\<open>src/stir\<close> is a service of its own, which signs the caller identity of calls and verifies it (STIR/SHAKEN) at the request of an HTTP client.

  \<^bold>\<open>Conventions.\<close> A C buffer is a list of characters (\<open>mem\<close>) and a pointer an index into it; a null pointer is \<open>None\<close> in a
  \<open>str\<close>. A definition with result type \<open>'a option\<close> returns \<open>None\<close> when the code reads outside its buffer, has undefined behaviour
  or does not end; the theorems prove that it returns \<open>Some\<close>. Loops of the parser that may run long are instances of the loop combinators of
  \<open>Cmem\<close> and \<open>Nul_Loop\<close>, other loops are \<^verbatim>\<open>partial_function (option)\<close>, so there is no fuel anywhere. Allocation is an argument that says which
  request fails. Machine integers are words of their width where the code can overflow. Exceptions are values of \<open>load_error\<close>. Code of other
  projects (the hash map, splitting and token buckets of folly) is a parameter, with its documented behaviour as the hypothesis \<open>f14_laws\<close> or as an
  assumption of the theorem; every such theorem has an instance on concrete functions.

  \<^bold>\<open>The parser.\<close>
  \<^item> \<open>Cmem\<close>: buffers, segments, the error values and the loop locale \<open>char_loop\<close>; \<open>Nul_Loop\<close>: loops that run to a zero byte.
  \<^item> \<open>Parser_F\<close> (\<^verbatim>\<open>parser_f.h\<close>, \<^verbatim>\<open>parser_f.c\<close>), \<open>Trim\<close> (\<^verbatim>\<open>trim.h\<close>), \<open>Ut\<close> (\<^verbatim>\<open>ut.h\<close>): skipping and trimming, numbers to and from text, escapes.
  \<^item> \<open>Methods\<close> (\<^verbatim>\<open>parse_methods.c\<close>), \<open>First_Line\<close> (\<^verbatim>\<open>parse_fline.c\<close>), \<open>Hname\<close> (\<^verbatim>\<open>parse_hname2.c\<close>, \<^verbatim>\<open>case_*.h\<close>, \<^verbatim>\<open>keys.h\<close>), \<open>Cseq\<close> (\<^verbatim>\<open>parse_cseq.c\<close>).
  \<^item> \<open>Param\<close> (\<^verbatim>\<open>parse_param.c\<close>); \<open>To_Param\<close> and \<open>To_Hdr\<close> (\<^verbatim>\<open>parse_to.c\<close>); \<open>Uri\<close>, \<open>Uri_Safe\<close>, \<open>Uri_Round\<close> (\<^verbatim>\<open>parse_uri.c\<close>); \<open>Via\<close>,
    \<open>Via_Param\<close>, \<open>Via_Safe\<close>, \<open>Via_Round\<close> (\<^verbatim>\<open>parse_via.c\<close>): one definition per case of the switch statements of each machine, a step function made of them and
    the function as the iteration of the step.
  \<^item> \<open>Msg_Parser\<close>, \<open>Msg_Safe\<close> (\<^verbatim>\<open>msg_parser.c\<close>, \<^verbatim>\<open>parse_content_length\<close> of \<^verbatim>\<open>parse_content.c\<close>): the loop over the headers of a message, which joins the parsers
    above; an accepted message is a first line and a chain of headers without gaps.

  For each header the lemmas show that the function returns on every buffer without reading outside it, what the fields of an accepted header
  denote, that a printed header is read back, and concrete inputs on which the machine does not do what it means to.

  \<^bold>\<open>The server.\<close>
  \<^item> \<open>Csv\<close>: streams with their state bits, the loops of the \<^verbatim>\<open>fromCSV\<close> methods and of the loaders; loading in portions is reading line by line.
  \<^item> \<open>Phone_Mapping\<close>, \<open>Phone_Query\<close> (\<^verbatim>\<open>PhoneMapping.cpp\<close>): rows, index, lookups and cursors. The locale \<open>row_walk\<close> is the contract of a cursor,
    interpreted for both; the inverse query refines a selection on the rows.
  \<^item> \<open>Tables\<close>, \<open>Tables_Lookup\<close>: the nine other \<^verbatim>\<open>*Mapping.cpp\<close> files. The locale \<open>csv_table\<close> is the contract of a loader of records, interpreted for five
    tables.
  \<^item> \<open>Acl\<close> (\<^verbatim>\<open>ACL.cpp\<close>): whom the access list admits.
  \<^item> \<open>Control\<close>, \<open>Control_Run\<close> (\<^verbatim>\<open>Control.cpp\<close>): loaders, verify, dump, \<^verbatim>\<open>dispatch\<close> and the control thread as a step relation. \<open>Control_History\<close>: the same steps
    with the history of the commands that were answered with success; all tables are a function of it, and a lookup finds the rows of the newest file.
  \<^item> \<open>Sip_Handler\<close> (\<^verbatim>\<open>SipHandler.cpp\<close>, the formatter of \<^verbatim>\<open>AccessLog.cpp\<close>, \<^verbatim>\<open>PhoneNumber::fromString\<close>): a datagram, its answer and its line in the log; everything
    the handler prints lies inside the buffer.
  \<^item> \<open>Server\<close>: control thread and SIP handler as one step relation over the same globals; in every reachable state a datagram is answered, from the rows of the newest files
    of the history, provided that the memory behind its buffer holds a zero byte.
  \<^item> \<open>Api_Handler\<close> (\<^verbatim>\<open>ApiHandler.cpp\<close>): the events of a request to \<^verbatim>\<open>/target\<close> and \<^verbatim>\<open>/reverse\<close> and what is sent; batches answer as single lookups do, and a
    prefix selects the rows whose routing number begins with it.

  \<^bold>\<open>The signing service.\<close>
  \<^item> \<open>Stir_Types\<close> (\<^verbatim>\<open>StirApiTypes.cpp\<close>): errors, messages, validation, reading from JSON with the handlers of exceptions as values of a sum.
  \<^item> \<open>Passport\<close> (\<^verbatim>\<open>Passport.cpp\<close>): making and verifying tokens. Base64, SHA-256, ECDSA, the numbers of OpenSSL, JSON values and \<^verbatim>\<open>StringPiece\<close> are fields of a library record;
    \<open>piece_laws\<close>, \<open>json_laws\<close>, \<open>token_laws\<close>, \<open>keys_match\<close> and \<open>reads_back\<close> state what is relied on.
  \<^item> \<open>Stir_Handler\<close> (\<^verbatim>\<open>StirApiHandler.cpp\<close>): the headers, the events of a request and the response; \<open>Stir\<close>: a concrete library, and what the service promises: an accepted
    token is one that was signed over the claims that the request names, a signed token is accepted, verification ends, and every request has one response unless an exception ends the process.

  \<^bold>\<open>Simplifications.\<close> The fields of a control message are integers from the start (\<open>dispatch\<close>), a bucket of calls is refilled by its parameter \<open>bucket_consume\<close> and not by a clock, one
  number stands for the prefetch sizes of all tables, and \<open>js_range\<close> makes a JSON array of strings. Signed overflow, which C leaves undefined (the port of a URI, a Content-Length, the key of the routing
  guide), wraps as the compilers do. Assertions end the process, as in a build without \<^verbatim>\<open>NDEBUG\<close>. Contracts of the datagram buffer, a zero byte and readable bytes behind it, are hypotheses: the
  server does not establish them.

  \<^bold>\<open>Not modelled.\<close> Header parsers that the server does not call, \<^verbatim>\<open>sdp/\<close>, the statistics and the remaining helpers of \<^verbatim>\<open>parse_uri.c\<close> and \<^verbatim>\<open>ut.c\<close> are left out because nothing
  here depends on them. \<^verbatim>\<open>stir/Sandbox.cpp\<close> repeats \<^verbatim>\<open>makePassport\<close> for one request. Logging, sockets, hazard pointers and process start-up have no value a theorem could speak about.
\<close>

end
